(* ===== verification/Prelude.thy ===== *)
theory Prelude
  imports Main "HOL-Library.Word" "HOL-Library.Char_ord" "HOL-Library.List_Lexorder"
    "HOL-Library.Sublist"
begin

text \<open>
  What the component theories share: the byte-string operations of Go's \<open>strings\<close>, \<open>bytes\<close> and
  \<open>strconv\<close> packages that the sources call, Go's \<open>error\<close> values with \<open>errors.Is\<close>, and the generic
  lemmas on them.  A Go string is a sequence of bytes, so it is a \<^typ>\<open>string\<close> (a list of 8-bit
  characters), \<open>len\<close> is \<^const>\<open>length\<close>, and a function that decodes runes says so.

  The collection \<open>go_string\<close> gathers the equations of the string operations, for
  \<open>simp add: go_string\<close> in the component proofs.
\<close>

named_theorems go_string

subsection \<open>Prefixes, cutting and searching\<close>

definition HasPrefix :: "string \<Rightarrow> string \<Rightarrow> bool" where
  "HasPrefix s p \<longleftrightarrow> take (length p) s = p"

definition HasSuffix :: "string \<Rightarrow> string \<Rightarrow> bool" where
  "HasSuffix s p \<longleftrightarrow> length p \<le> length s \<and> drop (length s - length p) s = p"

definition CutPrefix :: "string \<Rightarrow> string \<Rightarrow> string option" where
  "CutPrefix s p = (if HasPrefix s p then Some (drop (length p) s) else None)"

definition TrimPrefix :: "string \<Rightarrow> string \<Rightarrow> string" where
  "TrimPrefix s p = (if HasPrefix s p then drop (length p) s else s)"

fun IndexByte :: "string \<Rightarrow> char \<Rightarrow> nat option" where
  "IndexByte [] c = None"
| "IndexByte (x # xs) c = (if x = c then Some 0 else map_option Suc (IndexByte xs c))"

fun Index :: "string \<Rightarrow> string \<Rightarrow> nat option" where
  "Index [] sub = (if sub = [] then Some 0 else None)"
| "Index (x # xs) sub = (if HasPrefix (x # xs) sub then Some 0 else map_option Suc (Index xs sub))"

definition Contains :: "string \<Rightarrow> string \<Rightarrow> bool" where
  "Contains s sub \<longleftrightarrow> Index s sub \<noteq> None"

definition Cut :: "string \<Rightarrow> string \<Rightarrow> (string \<times> string) option" where
  "Cut s sep = map_option (\<lambda>i. (take i s, drop (i + length sep) s)) (Index s sep)"

fun ReplaceByte :: "string \<Rightarrow> char \<Rightarrow> char \<Rightarrow> string" where
  "ReplaceByte [] a b = []"
| "ReplaceByte (c # cs) a b = (if c = a then b else c) # ReplaceByte cs a b"

subsection \<open>Trimming\<close>

definition dropWhileEnd :: "('a \<Rightarrow> bool) \<Rightarrow> 'a list \<Rightarrow> 'a list" where
  "dropWhileEnd P xs = rev (dropWhile P (rev xs))"

text \<open>\<open>Trim\<close>, \<open>TrimLeft\<close> and \<open>TrimRight\<close> with a cut set of ASCII characters.\<close>

definition TrimLeft :: "string \<Rightarrow> string \<Rightarrow> string" where
  "TrimLeft s cutset = dropWhile (\<lambda>c. c \<in> set cutset) s"

definition TrimRight :: "string \<Rightarrow> string \<Rightarrow> string" where
  "TrimRight s cutset = dropWhileEnd (\<lambda>c. c \<in> set cutset) s"

definition Trim :: "string \<Rightarrow> string \<Rightarrow> string" where
  "Trim s cutset = TrimRight (TrimLeft s cutset) cutset"

text \<open>
  \<open>unicode.IsSpace\<close>: the six ASCII spaces, and the UTF-8 encodings of U+0085, U+00A0, U+1680,
  U+2000 to U+200A, U+2028, U+2029, U+202F, U+205F and U+3000.
\<close>

definition ascii_space :: "char \<Rightarrow> bool" where
  "ascii_space c \<longleftrightarrow> of_char c \<in> {9::nat, 10, 11, 12, 13, 32}"

definition wide_space2 :: "nat \<Rightarrow> nat \<Rightarrow> bool" where
  "wide_space2 a b \<longleftrightarrow> a = 0xC2 \<and> (b = 0x85 \<or> b = 0xA0)"

definition wide_space3 :: "nat \<Rightarrow> nat \<Rightarrow> nat \<Rightarrow> bool" where
  "wide_space3 a b c \<longleftrightarrow>
     (a = 0xE1 \<and> b = 0x9A \<and> c = 0x80) \<or>
     (a = 0xE2 \<and> b = 0x80 \<and> ((0x80 \<le> c \<and> c \<le> 0x8A) \<or> c = 0xA8 \<or> c = 0xA9 \<or> c = 0xAF)) \<or>
     (a = 0xE2 \<and> b = 0x81 \<and> c = 0x9F) \<or>
     (a = 0xE3 \<and> b = 0x80 \<and> c = 0x80)"

fun trim_space_left :: "string \<Rightarrow> string" where
  "trim_space_left [] = []"
| "trim_space_left [a] = (if ascii_space a then [] else [a])"
| "trim_space_left [a, b] =
     (if ascii_space a then trim_space_left [b]
      else if wide_space2 (of_char a) (of_char b) then [] else [a, b])"
| "trim_space_left (a # b # c # s) =
     (if ascii_space a then trim_space_left (b # c # s)
      else if wide_space2 (of_char a) (of_char b) then trim_space_left (c # s)
      else if wide_space3 (of_char a) (of_char b) (of_char c) then trim_space_left s
      else a # b # c # s)"

text \<open>The same on the reversed string, for the right end.\<close>

fun trim_space_rev :: "string \<Rightarrow> string" where
  "trim_space_rev [] = []"
| "trim_space_rev [a] = (if ascii_space a then [] else [a])"
| "trim_space_rev [a, b] =
     (if ascii_space a then trim_space_rev [b]
      else if wide_space2 (of_char b) (of_char a) then [] else [a, b])"
| "trim_space_rev (a # b # c # s) =
     (if ascii_space a then trim_space_rev (b # c # s)
      else if wide_space2 (of_char b) (of_char a) then trim_space_rev (c # s)
      else if wide_space3 (of_char c) (of_char b) (of_char a) then trim_space_rev s
      else a # b # c # s)"

definition TrimSpace :: "string \<Rightarrow> string" where
  "TrimSpace s = rev (trim_space_rev (rev (trim_space_left s)))"

subsection \<open>Character classes and decimal numbers\<close>

definition is_lower :: "char \<Rightarrow> bool" where
  "is_lower c \<longleftrightarrow> (97::nat) \<le> of_char c \<and> of_char c \<le> (122::nat)"

definition is_upper :: "char \<Rightarrow> bool" where
  "is_upper c \<longleftrightarrow> (65::nat) \<le> of_char c \<and> of_char c \<le> (90::nat)"

definition is_digit :: "char \<Rightarrow> bool" where
  "is_digit c \<longleftrightarrow> (48::nat) \<le> of_char c \<and> of_char c \<le> (57::nat)"

definition lower_char :: "char \<Rightarrow> char" where
  "lower_char c = (if is_upper c then char_of (of_char c + (32::nat)) else c)"

text \<open>\<open>strings.ToLower\<close> on ASCII text.\<close>

definition lower_ascii :: "string \<Rightarrow> string" where
  "lower_ascii s = map lower_char s"

fun nat_digits :: "nat \<Rightarrow> string" where
  "nat_digits n =
     (if n < 10 then [char_of (48 + n)] else nat_digits (n div 10) @ [char_of (48 + n mod 10)])"

declare nat_digits.simps [simp del]

definition Itoa :: "int \<Rightarrow> string" where
  "Itoa i = (if i < 0 then CHR ''-'' # nat_digits (nat (- i)) else nat_digits (nat i))"

text \<open>The value of a string of decimal digits.\<close>

definition digits_val :: "string \<Rightarrow> nat" where
  "digits_val s = foldl (\<lambda>n c. 10 * n + (of_char c - 48)) 0 s"

text \<open>\<open>strconv.Atoi\<close> on a non-empty string of digits: an error beyond the 64-bit range.\<close>

definition Atoi_digits :: "string \<Rightarrow> nat option" where
  "Atoi_digits s = (if digits_val s < 2 ^ 63 then Some (digits_val s) else None)"

subsection \<open>Errors\<close>

text \<open>
  Go's error values as the sources build and inspect them: the sentinels that \<open>errors.Is\<close> looks
  for, plain messages, \<open>fmt.Errorf\<close> with one or two \<open>%w\<close> verbs (text before, between and
  after the wrapped errors), and the \<open>StepError\<close> of \<open>internal/migrations/runner\<close> with its label, target
  and exit code.  The output a failed step left behind is not part of the value.
\<close>

datatype go_error =
    Canceled
  | DeadlineExceeded
  | IoEOF
  | UnexpectedEOF
  | NewError string
  | Wrapf string go_error string
  | Wrapf2 string go_error string go_error string
  | StepError string string int

fun Error :: "go_error \<Rightarrow> string" where
  "Error Canceled = ''context canceled''"
| "Error DeadlineExceeded = ''context deadline exceeded''"
| "Error IoEOF = ''EOF''"
| "Error UnexpectedEOF = ''unexpected EOF''"
| "Error (NewError s) = s"
| "Error (Wrapf a e b) = a @ Error e @ b"
| "Error (Wrapf2 a e b f c) = a @ Error e @ b @ Error f @ c"
| "Error (StepError lbl target code) = lbl @ '' '' @ target @ '' exit '' @ Itoa code @ '': <no output captured>''"

fun errors_Is :: "go_error \<Rightarrow> go_error \<Rightarrow> bool" where
  "errors_Is (Wrapf a e b) t = (Wrapf a e b = t \<or> errors_Is e t)"
| "errors_Is (Wrapf2 a e b f c) t = (Wrapf2 a e b f c = t \<or> errors_Is e t \<or> errors_Is f t)"
| "errors_Is e t = (e = t)"

text \<open>\<open>runner.IsCommandNotFound\<close>: the first step error of the chain exited with the shell's status for it.\<close>

fun asStepError :: "go_error \<Rightarrow> int option" where
  "asStepError (StepError lbl target code) = Some code"
| "asStepError (Wrapf a e b) = asStepError e"
| "asStepError (Wrapf2 a e b f c) = (case asStepError e of Some n \<Rightarrow> Some n | None \<Rightarrow> asStepError f)"
| "asStepError e = None"

definition IsCommandNotFound :: "go_error \<Rightarrow> bool" where
  "IsCommandNotFound err \<longleftrightarrow> asStepError err = Some 127"

text \<open>\<open>errors.Join\<close> of the failures, none when there is none.\<close>

fun joinAll :: "go_error list \<Rightarrow> go_error option" where
  "joinAll [] = None"
| "joinAll (e # es) = (case joinAll es of None \<Rightarrow> Some (Wrapf [] e []) | Some j \<Rightarrow> Some (Wrapf2 [] e [CHR 0x0A] j []))"

subsection \<open>Lemmas on the string operations\<close>

lemma HasPrefix_iff: "HasPrefix s p \<longleftrightarrow> (\<exists>r. s = p @ r)"
  unfolding HasPrefix_def by (metis append_eq_conv_conj append_take_drop_id)

lemma HasPrefix_append [simp]: "HasPrefix (p @ r) p"
  by (auto simp: HasPrefix_iff)

lemma HasPrefix_Nil [simp]: "HasPrefix s []"
  by (simp add: HasPrefix_def)

lemma HasSuffix_iff: "HasSuffix s p \<longleftrightarrow> (\<exists>r. s = r @ p)"
  unfolding HasSuffix_def
  by (metis append_eq_conv_conj append_take_drop_id diff_add_inverse2 le_add2 length_append)

lemma Contains_iff: "Contains s sub \<longleftrightarrow> (\<exists>a b. s = a @ sub @ b)"
proof (induction s)
  case Nil
  show ?case by (auto simp: Contains_def)
next
  case (Cons x s)
  have "Contains (x # s) sub \<longleftrightarrow> HasPrefix (x # s) sub \<or> Contains s sub" by (auto simp: Contains_def)
  also have "\<dots> \<longleftrightarrow> (\<exists>b. x # s = sub @ b) \<or> (\<exists>a b. s = a @ sub @ b)"
    by (simp add: Cons.IH HasPrefix_iff)
  also have "\<dots> \<longleftrightarrow> (\<exists>a b. x # s = a @ sub @ b)"
  proof
    assume "\<exists>a b. x # s = a @ sub @ b"
    then obtain a b where "x # s = a @ sub @ b" by blast
    then show "(\<exists>b. x # s = sub @ b) \<or> (\<exists>a b. s = a @ sub @ b)" by (cases a) auto
  qed (metis append_Cons append_Nil)
  finally show ?case .
qed

lemma Contains_append: "Contains (a @ sub @ b) sub"
  by (auto simp: Contains_iff)

lemma CutPrefix_Some [go_string]: "CutPrefix s p = Some r \<longleftrightarrow> s = p @ r"
  by (auto simp: CutPrefix_def HasPrefix_iff)

lemma IndexByte_Some:
  "IndexByte s c = Some i \<longleftrightarrow> i < length s \<and> s ! i = c \<and> c \<notin> set (take i s)"
  by (induction s arbitrary: i) (auto simp: nth_Cons take_Cons split: nat.splits)

lemma IndexByte_None [go_string]: "IndexByte s c = None \<longleftrightarrow> c \<notin> set s"
  by (induction s) auto

lemma IndexByte_append [go_string]:
  "c \<notin> set a \<Longrightarrow> IndexByte (a @ c # b) c = Some (length a)"
  by (induction a) auto

lemma IndexByte_split:
  "IndexByte s c = Some i \<Longrightarrow> s = take i s @ c # drop (Suc i) s \<and> c \<notin> set (take i s)"
  by (metis IndexByte_Some id_take_nth_drop)

lemma length_ReplaceByte [simp]: "length (ReplaceByte s a b) = length s"
  by (induction s) auto

lemma ReplaceByte_map: "ReplaceByte s a b = map (\<lambda>c. if c = a then b else c) s"
  by (induction s) auto

lemma set_dropWhileEnd: "set (dropWhileEnd P xs) \<subseteq> set xs"
  by (auto simp: dropWhileEnd_def dest: set_dropWhileD)

lemma length_dropWhileEnd [simp]: "length (dropWhileEnd P xs) \<le> length xs"
  by (metis dropWhileEnd_def length_dropWhile_le length_rev)

lemma dropWhileEnd_prefix: "\<exists>ys. xs = dropWhileEnd P xs @ ys \<and> (\<forall>y \<in> set ys. P y)"
proof -
  have "rev xs = takeWhile P (rev xs) @ dropWhile P (rev xs)" by simp
  then have "xs = dropWhileEnd P xs @ rev (takeWhile P (rev xs))"
    unfolding dropWhileEnd_def by (metis rev_append rev_rev_ident)
  then show ?thesis by (metis set_rev set_takeWhileD)
qed

lemma dropWhileEnd_id: "xs = [] \<or> \<not> P (last xs) \<Longrightarrow> dropWhileEnd P xs = xs"
  by (cases xs rule: rev_cases) (auto simp: dropWhileEnd_def)

lemma length_TrimRight [simp]: "length (TrimRight s c) \<le> length s"
  by (simp add: TrimRight_def)

lemma is_upper_lower_char: "is_upper c \<Longrightarrow> is_lower (lower_char c)"
  by (simp add: is_upper_def is_lower_def lower_char_def of_char_of take_bit_eq_mod)

lemma lower_char_other [simp]: "\<not> is_upper c \<Longrightarrow> lower_char c = c"
  by (simp add: lower_char_def)

lemma length_lower_ascii [simp]: "length (lower_ascii s) = length s"
  by (simp add: lower_ascii_def)

lemma nat_digits_nonempty [simp]: "nat_digits n \<noteq> []"
  by (subst nat_digits.simps) simp

lemma nat_digits_is_digit: "\<forall>c \<in> set (nat_digits n). is_digit c"
proof (induction n rule: nat_digits.induct)
  case (1 n)
  have d: "is_digit (char_of (48 + k))" if "k < 10" for k :: nat
    using that by (simp add: is_digit_def of_char_of take_bit_eq_mod)
  show ?case
    using 1 d by (cases "n < 10") (auto simp: nat_digits.simps [of n])
qed

lemma digits_val_append: "digits_val (s @ [c]) = 10 * digits_val s + (of_char c - 48)"
  by (simp add: digits_val_def)

text \<open>Printing a number and reading it back gives the number.\<close>

lemma digits_val_nat_digits: "digits_val (nat_digits n) = n"
proof (induction n rule: nat_digits.induct)
  case (1 n)
  show ?case
  proof (cases "n < 10")
    case True
    then show ?thesis
      by (subst nat_digits.simps) (simp add: digits_val_def of_char_of take_bit_eq_mod)
  next
    case False
    with 1 have ih: "digits_val (nat_digits (n div 10)) = n div 10" by simp
    have "of_char (char_of (48 + n mod 10)) = (48 + n mod 10 :: nat)"
      by (simp add: of_char_of take_bit_eq_mod)
    with False ih show ?thesis
      by (subst nat_digits.simps) (simp add: digits_val_append)
  qed
qed

text \<open>Association lists without one key.\<close>

lemma map_of_drop_key: "map_of (filter (\<lambda>ob. fst ob \<noteq> k) os) x = (if x = k then None else map_of os x)"
  by (induction os) auto

end
