(* ===== verification/Splitter.thy ===== *)
theory Splitter
  imports Prelude
begin

text \<open>
  The SQL dump splitter of \<open>internal/db/dumpload/split.go\<close>: a byte-level lexer that cuts a dump into
  statements for the MySQL and the Postgres dialect, with quoted text, comments, MySQL's
  \<open>DELIMITER\<close> lines, Postgres dollar quotes and \<open>COPY ... FROM stdin\<close> data blocks.

  The buffered reader is the bytes still to come and the error it ends with (\<open>io.EOF\<close> or a read
  failure, repeated on every later read); \<open>Peek\<close> and \<open>ReadSlice\<close> are cut at the buffer size.  The
  statement sink is a parameter that threads its own state; \<open>onCopy\<close> is handed the whole data block
  (its contract is to consume it to the end) and the error the block ended with, if any.
\<close>

section \<open>Model\<close>

datatype dialect = dialectMySQL | dialectPostgres

record splitter =
  rest :: string
  fin :: go_error
  d :: dialect
  delim :: string
  buf :: string

definition bufSize :: nat where
  "bufSize = 2 ^ 20"

definition Peek :: "nat \<Rightarrow> splitter \<Rightarrow> string" where
  "Peek n s = take (min n bufSize) (rest s)"

definition Discard :: "nat \<Rightarrow> splitter \<Rightarrow> splitter" where
  "Discard n s = s\<lparr>rest := drop n (rest s)\<rparr>"

definition WriteString :: "string \<Rightarrow> splitter \<Rightarrow> splitter" where
  "WriteString t s = s\<lparr>buf := buf s @ t\<rparr>"

text \<open>\<open>ReadString('\n')\<close>: the line with its newline, or the rest of the input when there is none.\<close>

fun lineLength :: "string \<Rightarrow> nat" where
  "lineLength [] = 0"
| "lineLength (c # cs) = (if c = CHR 0x0A then 1 else Suc (lineLength cs))"

definition hasNewline :: "string \<Rightarrow> bool" where
  "hasNewline s \<longleftrightarrow> CHR 0x0A \<in> set s"

definition unterminated :: "string \<Rightarrow> go_error \<Rightarrow> go_error" where
  "unterminated what err =
     (if errors_Is err IoEOF then NewError (''unterminated '' @ what @ '' at end of dump'') else err)"

definition isIdentByte :: "char \<Rightarrow> bool" where
  "isIdentByte c \<longleftrightarrow> c = CHR ''_'' \<or> is_lower c \<or> is_upper c \<or> is_digit c \<or> of_char c \<ge> (0x80 :: nat)"

definition peekIs :: "string \<Rightarrow> splitter \<Rightarrow> bool" where
  "peekIs want s \<longleftrightarrow> want = [] \<or> Peek (length want) s = want"

text \<open>\<open>strings.EqualFold\<close> against a word with no letter that folds to a non-ASCII rune.\<close>

definition peekFold :: "string \<Rightarrow> splitter \<Rightarrow> bool" where
  "peekFold want s \<longleftrightarrow> lower_ascii (Peek (length want) s) = lower_ascii want"

definition peekSpaceAt :: "nat \<Rightarrow> splitter \<Rightarrow> bool" where
  "peekSpaceAt i s \<longleftrightarrow>
     (let p = Peek (i + 1) s in length p \<le> i \<or> of_char (p ! i) \<le> (32 :: nat))"

definition afterEPrefix :: "splitter \<Rightarrow> bool" where
  "afterEPrefix s \<longleftrightarrow>
     (case rev (buf s) of
        [] \<Rightarrow> False
      | [c] \<Rightarrow> c = CHR ''E'' \<or> c = CHR ''e''
      | c # p # _ \<Rightarrow> (c = CHR ''E'' \<or> c = CHR ''e'') \<and> \<not> isIdentByte p)"

definition afterIdentByte :: "splitter \<Rightarrow> bool" where
  "afterIdentByte s \<longleftrightarrow>
     (case rev (buf s) of [] \<Rightarrow> False | c # _ \<Rightarrow> isIdentByte c \<or> c = CHR ''$'')"

definition atStatementStart :: "splitter \<Rightarrow> bool" where
  "atStatementStart s \<longleftrightarrow> TrimSpace (buf s) = []"

text \<open>The loops over the input return the rest and the buffer, or None at the end of the input.\<close>

fun quotedLoop :: "char \<Rightarrow> bool \<Rightarrow> string \<Rightarrow> string \<Rightarrow> (string \<times> string) option" where
  "quotedLoop q backslash [] b = None"
| "quotedLoop q backslash (c # r) b =
     (if backslash \<and> c = CHR 0x5C then
        (case r of [] \<Rightarrow> None | e # r' \<Rightarrow> quotedLoop q backslash r' (b @ [c, e]))
      else if c = q then
        (case r of
           [] \<Rightarrow> Some (r, b @ [c])
         | e # r' \<Rightarrow> if e = q then quotedLoop q backslash r' (b @ [c, q]) else Some (r, b @ [c]))
      else quotedLoop q backslash r (b @ [c]))"

definition quoted :: "char \<Rightarrow> bool \<Rightarrow> splitter \<Rightarrow> go_error + splitter" where
  "quoted q backslash s =
     (case quotedLoop q backslash (rest s) (buf s) of
        None \<Rightarrow> Inl (unterminated ([q] @ ''-quoted text'') (fin s))
      | Some (r, b) \<Rightarrow> Inr (s\<lparr>rest := r, buf := b\<rparr>))"

fun blockLoop :: "bool \<Rightarrow> bool \<Rightarrow> nat \<Rightarrow> string \<Rightarrow> string \<Rightarrow> (string \<times> string) option" where
  "blockLoop postgres keep depth [] b = None"
| "blockLoop postgres keep depth [c] b = None"
| "blockLoop postgres keep depth (c # e # r) b =
     (if c = CHR ''*'' \<and> e = CHR ''/'' then
        (let b' = (if keep then b @ ''*/'' else b)
         in if depth - 1 = 0 then Some (r, b') else blockLoop postgres keep (depth - 1) r b')
      else if c = CHR ''/'' \<and> e = CHR ''*'' \<and> postgres then
        blockLoop postgres keep (depth + 1) r b
      else blockLoop postgres keep depth (e # r) (if keep then b @ [c] else b))"

definition blockComment :: "splitter \<Rightarrow> go_error + splitter" where
  "blockComment s =
     (let keep = (d s = dialectMySQL \<and> (Peek 1 s = ''!'' \<or> Peek 1 s = ''+''));
          b0 = (if keep then buf s @ ''/*'' else buf s)
      in case blockLoop (d s = dialectPostgres) keep 1 (rest s) b0 of
           None \<Rightarrow> Inl (unterminated ''block comment'' (fin s))
         | Some (r, b) \<Rightarrow> Inr (s\<lparr>rest := r, buf := b\<rparr>))"

fun dollarTagLoop :: "nat \<Rightarrow> string \<Rightarrow> string \<Rightarrow> string option" where
  "dollarTagLoop n acc [] = None"
| "dollarTagLoop n acc (c # cs) =
     (if c = CHR ''$'' then Some acc
      else if \<not> isIdentByte c \<or> (n = 1 \<and> is_digit c) then None
      else dollarTagLoop (Suc n) (acc @ [c]) cs)"

definition peekDollarTag :: "splitter \<Rightarrow> string option" where
  "peekDollarTag s = dollarTagLoop 1 [] (Peek bufSize s)"

fun dollarLoop :: "string \<Rightarrow> string \<Rightarrow> string \<Rightarrow> (string \<times> string) option" where
  "dollarLoop closer [] b = None"
| "dollarLoop closer (c # r) b =
     (if c = CHR ''$'' \<and> HasSuffix (b @ [c]) closer then Some (r, b @ [c])
      else dollarLoop closer r (b @ [c]))"

definition dollar :: "splitter \<Rightarrow> go_error + splitter" where
  "dollar s =
     (case peekDollarTag s of
        None \<Rightarrow> Inr (WriteString ''$'' s)
      | Some tg \<Rightarrow>
          (let closer = ''$'' @ tg @ ''$''; s1 = WriteString closer (Discard (length tg + 1) s)
           in case dollarLoop closer (rest s1) (buf s1) of
                None \<Rightarrow> Inl (unterminated (''dollar-quoted string '' @ closer) (fin s))
              | Some (r, b) \<Rightarrow> Inr (s1\<lparr>rest := r, buf := b\<rparr>)))"

text \<open>A missing final newline is no error when the input simply ends.\<close>

definition skipLine :: "splitter \<Rightarrow> go_error + splitter" where
  "skipLine s =
     (if \<not> hasNewline (rest s) \<and> \<not> errors_Is (fin s) IoEOF then Inl (fin s)
      else Inr (Discard (lineLength (rest s)) s))"

definition readDelimiter :: "splitter \<Rightarrow> go_error + splitter" where
  "readDelimiter s =
     (let s1 = Discard (length ''ELIMITER'') s;
          line = take (lineLength (rest s1)) (rest s1);
          s2 = Discard (lineLength (rest s1)) s1
      in if \<not> hasNewline (rest s1) \<and> \<not> errors_Is (fin s) IoEOF then Inl (fin s)
         else if TrimSpace line = [] then Inl (NewError ''DELIMITER without a delimiter'')
         else Inr (s2\<lparr>delim := TrimSpace line, buf := []\<rparr>))"

text \<open>Whether a comment opens at \<open>b\<close>, and the state after it.\<close>

definition comment :: "char \<Rightarrow> splitter \<Rightarrow> (go_error + splitter) option" where
  "comment b s =
     (let mysql = (d s = dialectMySQL)
      in if b = CHR ''-'' \<and> peekIs ''-'' s \<and> (\<not> mysql \<or> peekSpaceAt 1 s) then Some (skipLine s)
         else if b = CHR ''#'' \<and> mysql then Some (skipLine s)
         else if b = CHR ''/'' \<and> peekIs ''*'' s then Some (blockComment (Discard 1 s))
         else None)"

definition quoteOpener :: "char \<Rightarrow> splitter \<Rightarrow> (char \<times> bool) option" where
  "quoteOpener b s =
     (let mysql = (d s = dialectMySQL)
      in if b = CHR 0x27 then Some (b, mysql \<or> afterEPrefix s)
         else if b = CHR 0x22 then Some (b, mysql)
         else if b = CHR 0x60 \<and> mysql then Some (b, False)
         else None)"

text \<open>
  \<open>step\<close> reads \<open>s.delim[0]\<close>; the delimiter is never empty (lemma \<open>step_delim\<close>), so the last case of the
  delimiter test, where Go would panic, does not arise.
\<close>

definition atDelim :: "char \<Rightarrow> splitter \<Rightarrow> bool" where
  "atDelim b s \<longleftrightarrow> (case delim s of c # cs \<Rightarrow> b = c \<and> peekIs cs s | [] \<Rightarrow> False)"

definition step :: "char \<Rightarrow> splitter \<Rightarrow> go_error + (bool \<times> splitter)" where
  "step b s =
     (let mysql = (d s = dialectMySQL)
      in if mysql \<and> atStatementStart s \<and> (b = CHR ''D'' \<or> b = CHR ''d'') \<and>
            peekFold ''ELIMITER'' s \<and> peekSpaceAt (length ''ELIMITER'') s
         then map_sum id (Pair False) (readDelimiter s)
         else if atDelim b s then Inr (True, Discard (length (delim s) - 1) s)
         else if b = CHR ''$'' \<and> \<not> mysql \<and> \<not> afterIdentByte s
         then map_sum id (Pair False) (dollar s)
         else case comment b s of
                Some r \<Rightarrow> map_sum id (Pair False) r
              | None \<Rightarrow>
                  (case quoteOpener b s of
                     Some (q, backslash) \<Rightarrow>
                       map_sum id (Pair False) (quoted q backslash (WriteString [b] s))
                   | None \<Rightarrow> Inr (False, WriteString [b] s)))"

text \<open>\<open>take\<close>: the buffered statement, None when it is blank.\<close>

definition takeStmt :: "splitter \<Rightarrow> string option \<times> splitter" where
  "takeStmt s =
     (if TrimSpace (buf s) = [] then (None, s\<lparr>buf := []\<rparr>) else (Some (buf s), s\<lparr>buf := []\<rparr>))"

subsection \<open>Every loop consumes input\<close>

lemma lineLength_le: "lineLength s \<le> length s"
  by (induction s) auto

lemma quotedLoop_rest: "quotedLoop q bs r b = Some (r', b') \<Longrightarrow> length r' \<le> length r"
  by (induction q bs r b rule: quotedLoop.induct) (auto split: if_splits list.splits)

lemma blockLoop_rest: "blockLoop pg k n r b = Some (r', b') \<Longrightarrow> length r' \<le> length r"
  by (induction pg k n r b rule: blockLoop.induct) (auto simp: Let_def split: if_splits)

lemma dollarLoop_rest: "dollarLoop c r b = Some (r', b') \<Longrightarrow> length r' \<le> length r"
  by (induction c r b rule: dollarLoop.induct) (auto split: if_splits)

lemmas loop_rest = quotedLoop_rest blockLoop_rest dollarLoop_rest

lemma step_rest: "step b s = Inr (fin', s') \<Longrightarrow> length (rest s') \<le> length (rest s)"
  by (auto simp: step_def comment_def skipLine_def blockComment_def readDelimiter_def dollar_def
        quoted_def Discard_def WriteString_def Let_def
      split: if_splits option.splits sum.splits prod.splits dest!: loop_rest)

function nextLoop :: "splitter \<Rightarrow> (go_error + string) \<times> splitter" where
  "nextLoop s =
     (case rest s of
        [] \<Rightarrow>
          (if errors_Is (fin s) IoEOF then
             (case takeStmt s of
                (None, s') \<Rightarrow> (Inl IoEOF, s')
              | (Some stmt, s') \<Rightarrow> (Inr stmt, s'))
           else (Inl (fin s), s))
      | b # r \<Rightarrow>
          (case step b (s\<lparr>rest := r\<rparr>) of
             Inl e \<Rightarrow> (Inl e, s\<lparr>rest := r\<rparr>)
           | Inr (isDone, s') \<Rightarrow>
               if isDone then
                 (case takeStmt s' of
                    (Some stmt, s'') \<Rightarrow> (Inr stmt, s'')
                  | (None, s'') \<Rightarrow> nextLoop s'')
               else nextLoop s'))"
  by pat_completeness auto
termination
  by (relation "measure (\<lambda>s. length (rest s))")
     (auto simp: takeStmt_def split: if_splits dest!: step_rest)

declare nextLoop.simps [simp del]

text \<open>\<open>next\<close>: the next non-blank statement, or \<open>io.EOF\<close>.\<close>

definition nextStmt :: "splitter \<Rightarrow> (go_error + string) \<times> splitter" where
  "nextStmt s = nextLoop (s\<lparr>buf := []\<rparr>)"

subsection \<open>COPY data blocks\<close>

record copyData =
  skipRest :: bool
  midLine :: bool
  pending :: string
  copyDone :: bool

text \<open>
  \<open>fill\<close> on the copy state and the reader (its remaining bytes and its final error): the new copy
  state or the error, and the bytes left.
\<close>

definition fill :: "copyData \<Rightarrow> string \<Rightarrow> go_error \<Rightarrow> (go_error + copyData) \<times> string" where
  "fill c r err =
     (if skipRest c then
        (if hasNewline r then (Inr (c\<lparr>skipRest := False\<rparr>), drop (lineLength r) r)
         else (Inl (unterminated ''COPY data block'' err), []))
      else
        let found = hasNewline (take bufSize r);
            bufferFull = (\<not> found \<and> bufSize \<le> length r);
            line = (if found then take (lineLength r) r else take bufSize r);
            whole = \<not> bufferFull
        in if \<not> found \<and> whole then (Inl (unterminated ''COPY data block'' err), [])
           else if \<not> midLine c \<and> whole \<and> TrimRight line [CHR 0x0D, CHR 0x0A] = [CHR 0x5C, CHR ''.''] then
             (Inr (c\<lparr>copyDone := True\<rparr>), drop (length line) r)
           else (Inr (c\<lparr>midLine := \<not> whole, pending := line\<rparr>), drop (length line) r))"

lemma bufSize_pos: "0 < bufSize"
  by (simp add: bufSize_def)

lemma lineLength_pos: "hasNewline r \<Longrightarrow> 0 < lineLength r"
  by (induction r) (auto simp: hasNewline_def)

lemma hasNewline_take: "hasNewline (take n r) \<Longrightarrow> hasNewline r"
  by (auto simp: hasNewline_def dest: in_set_takeD)

lemma fill_rest:
  assumes "fill c r err = (Inr c', r')"
  shows "length r' + (if skipRest c' then 1 else 0) < length r + (if skipRest c then (1::nat) else 0)"
proof -
  have pos: "hasNewline x \<Longrightarrow> x \<noteq> []" for x by (auto simp: hasNewline_def)
  show ?thesis
    using assms bufSize_pos lineLength_pos [of r] lineLength_le [of r] hasNewline_take [of bufSize r] pos [of r]
    by (auto simp: fill_def Let_def split: if_splits)
qed

text \<open>Reading the block to its end: the data, the error it ended with, and the bytes left.\<close>

function copyLoop :: "copyData \<Rightarrow> string \<Rightarrow> go_error \<Rightarrow> string \<Rightarrow> string \<times> go_error option \<times> string" where
  "copyLoop c r err acc =
     (if copyDone c then (acc, None, r)
      else case fill c r err of
             (Inl e, r') \<Rightarrow> (acc, Some e, r')
           | (Inr c', r') \<Rightarrow> copyLoop (c'\<lparr>pending := []\<rparr>) r' err (acc @ pending c'))"
  by pat_completeness auto
termination
  by (relation "measure (\<lambda>(c, r, err, acc). length r + (if skipRest c then 1 else 0))")
     (use fill_rest in \<open>fastforce+\<close>)

declare copyLoop.simps [simp del]

definition newCopyData :: copyData where
  "newCopyData = \<lparr>skipRest = True, midLine = False, pending = [], copyDone = False\<rparr>"

subsection \<open>The COPY statement test and the driver loop\<close>

definition re_space :: "char \<Rightarrow> bool" where
  "re_space c \<longleftrightarrow> of_char c \<in> {9 :: nat, 10, 12, 13, 32}"

definition re_word :: "char \<Rightarrow> bool" where
  "re_word c \<longleftrightarrow> c = CHR ''_'' \<or> is_lower c \<or> is_upper c \<or> is_digit c"

text \<open>
  A case-insensitive literal; with \<open>(?i)\<close> the letter S also matches U+017F, whose UTF-8 bytes are
  C5 BF.
\<close>

fun foldMatch :: "string \<Rightarrow> string \<Rightarrow> string option" where
  "foldMatch [] s = Some s"
| "foldMatch (w # ws) [] = None"
| "foldMatch (w # ws) (c # s) =
     (if lower_char c = lower_char w then foldMatch ws s
      else if lower_char w = CHR ''s'' \<and> c = CHR 0xC5 then
        (case s of e # s' \<Rightarrow> if e = CHR 0xBF then foldMatch ws s' else None | [] \<Rightarrow> None)
      else None)"

text \<open>A word boundary between the byte before (if any) and the rest.\<close>

definition boundary :: "char option \<Rightarrow> string \<Rightarrow> bool" where
  "boundary prev s \<longleftrightarrow>
     ((case prev of Some c \<Rightarrow> re_word c | None \<Rightarrow> False) \<noteq>
      (case s of c # _ \<Rightarrow> re_word c | [] \<Rightarrow> False))"

text \<open>The byte before the rest \<open>r\<close> of \<open>s\<close>.\<close>

definition prevByte :: "string \<Rightarrow> string \<Rightarrow> char option" where
  "prevByte s r = (if length r < length s then Some (s ! (length s - length r - 1)) else None)"

definition fromStdinAt :: "char option \<Rightarrow> string \<Rightarrow> bool" where
  "fromStdinAt prev s \<longleftrightarrow>
     boundary prev s \<and>
     (case foldMatch ''FROM'' s of
        None \<Rightarrow> False
      | Some r \<Rightarrow>
          (case r of [] \<Rightarrow> False | c # _ \<Rightarrow> re_space c) \<and>
          (case foldMatch ''STDIN'' (dropWhile re_space r) of
             None \<Rightarrow> False
           | Some r' \<Rightarrow> boundary (prevByte s r') r'))"

fun fromStdinSomewhere :: "char option \<Rightarrow> string \<Rightarrow> bool" where
  "fromStdinSomewhere prev [] = False"
| "fromStdinSomewhere prev (c # cs) = (fromStdinAt prev (c # cs) \<or> fromStdinSomewhere (Some c) cs)"

definition copyFromStdin :: "string \<Rightarrow> bool" where
  "copyFromStdin stmt \<longleftrightarrow>
     (let s = dropWhile re_space stmt
      in case foldMatch ''COPY'' s of
           None \<Rightarrow> False
         | Some r \<Rightarrow> boundary (prevByte s r) r \<and> fromStdinSomewhere (prevByte s r) r)"

record 'w statementSink =
  onStmt :: "string \<Rightarrow> 'w \<Rightarrow> go_error option \<times> 'w"
  onCopy :: "(string \<Rightarrow> string \<times> go_error option \<Rightarrow> 'w \<Rightarrow> go_error option \<times> 'w) option"

definition copyUnsupported :: "nat \<Rightarrow> go_error" where
  "copyUnsupported n = NewError (''dump statement #'' @ Itoa (int n) @ '' is COPY '' @
     [CHR 0xE2, CHR 0x80, CHR 0xA6] @ '' FROM stdin, which this loader cannot stream'')"

lemma nextLoop_Nil:
  "rest s = [] \<Longrightarrow> nextLoop s =
     (if errors_Is (fin s) IoEOF then
        (if TrimSpace (buf s) = [] then Inl IoEOF else Inr (buf s), s\<lparr>buf := []\<rparr>)
      else (Inl (fin s), s))"
  by (simp add: nextLoop.simps [of s] takeStmt_def)

lemma nextLoop_Cons:
  "rest s = b # r \<Longrightarrow> nextLoop s =
     (case step b (s\<lparr>rest := r\<rparr>) of
        Inl e \<Rightarrow> (Inl e, s\<lparr>rest := r\<rparr>)
      | Inr (isDone, s') \<Rightarrow>
          if isDone \<and> TrimSpace (buf s') \<noteq> [] then (Inr (buf s'), s'\<lparr>buf := []\<rparr>)
          else nextLoop (if isDone then s'\<lparr>buf := []\<rparr> else s'))"
  by (simp add: nextLoop.simps [of s] takeStmt_def split: sum.split prod.split)

text \<open>Induction over the bytes left, for statements about the loop of \<open>next\<close>.\<close>

lemma nextLoop_induct [case_names Nil Fail Found More]:
  assumes "\<And>s. rest s = [] \<Longrightarrow> P s"
    and "\<And>s b r e. rest s = b # r \<Longrightarrow> step b (s\<lparr>rest := r\<rparr>) = Inl e \<Longrightarrow> P s"
    and "\<And>s b r s'. rest s = b # r \<Longrightarrow> step b (s\<lparr>rest := r\<rparr>) = Inr (True, s') \<Longrightarrow>
           TrimSpace (buf s') \<noteq> [] \<Longrightarrow> P s"
    and "\<And>s b r isDone s'. rest s = b # r \<Longrightarrow> step b (s\<lparr>rest := r\<rparr>) = Inr (isDone, s') \<Longrightarrow>
           (isDone \<longrightarrow> TrimSpace (buf s') = []) \<Longrightarrow>
           P (if isDone then s'\<lparr>buf := []\<rparr> else s') \<Longrightarrow> P s"
  shows "P s"
proof (induction s rule: measure_induct_rule [of "\<lambda>s. length (rest s)"])
  case (less s)
  show ?case
  proof (cases "rest s")
    case Nil
    then show ?thesis by (rule assms(1))
  next
    case (Cons b r)
    show ?thesis
    proof (cases "step b (s\<lparr>rest := r\<rparr>)")
      case (Inl e)
      with Cons show ?thesis by (rule assms(2))
    next
      case (Inr p)
      obtain isDone s' where p: "p = (isDone, s')" by (cases p)
      have "length (rest s') < length (rest s)"
        using step_rest [OF Inr [unfolded p]] Cons by simp
      then have "P (if isDone then s'\<lparr>buf := []\<rparr> else s')"
        by (intro less) simp
      with Cons Inr p show ?thesis
        by (cases "isDone \<and> TrimSpace (buf s') \<noteq> []") (auto intro: assms(3,4))
    qed
  qed
qed

lemma nextLoop_rest: "length (rest (snd (nextLoop s))) \<le> length (rest s)"
proof (induction s rule: nextLoop_induct)
  case (Nil s)
  then show ?case by (simp add: nextLoop_Nil)
next
  case (Fail s b r e)
  then show ?case by (simp add: nextLoop_Cons)
next
  case (Found s b r s')
  then show ?case using step_rest [OF Found(2)] by (simp add: nextLoop_Cons)
next
  case (More s b r isDone s')
  then show ?case
    using step_rest [OF More(2)] by (auto simp: nextLoop_Cons [OF More(1)] split: if_splits)
qed

lemma nextStmt_rest:
  assumes "nextStmt s = (Inr stmt, s')"
  shows "length (rest s') < length (rest s)"
proof (cases "rest s")
  case Nil
  then show ?thesis using assms by (simp add: nextStmt_def nextLoop_Nil TrimSpace_def split: if_splits)
next
  case (Cons b r)
  let ?s = "s\<lparr>buf := []\<rparr>"
  have rs: "rest ?s = b # r" using Cons by simp
  show ?thesis
  proof (cases "step b (?s\<lparr>rest := r\<rparr>)")
    case (Inl e)
    then show ?thesis using assms by (simp add: nextStmt_def nextLoop_Cons [OF rs])
  next
    case (Inr p)
    obtain isDone s1 where p: "p = (isDone, s1)" by (cases p)
    let ?s2 = "if isDone then s1\<lparr>buf := []\<rparr> else s1"
    have "s' = s1\<lparr>buf := []\<rparr> \<or> s' = snd (nextLoop ?s2)"
      using assms Inr p unfolding nextStmt_def nextLoop_Cons [OF rs]
      by (cases "isDone \<and> TrimSpace (buf s1) \<noteq> []") auto
    then have "length (rest s') \<le> length (rest s1)"
      using nextLoop_rest [of ?s2] by (auto split: if_splits)
    with step_rest [OF Inr [unfolded p]] Cons show ?thesis by simp
  qed
qed

lemma copyLoop_rest: "length (snd (snd (copyLoop c r err acc))) \<le> length r + (if skipRest c then 1 else 0)"
proof (induction c r err acc rule: copyLoop.induct)
  case (1 c r err acc)
  show ?case
  proof (cases "fill c r err")
    case (Pair x r')
    show ?thesis
    proof (cases x)
      case (Inl e)
      moreover have "length r' \<le> length r"
        using Pair Inl by (auto simp: fill_def Let_def split: if_splits)
      ultimately show ?thesis using Pair by (simp add: copyLoop.simps [of c r err acc])
    next
      case (Inr c')
      then show ?thesis
        using Pair 1 [OF _ Pair [symmetric] Inr] fill_rest [of c r err c' r']
        by (auto simp: copyLoop.simps [of c r err acc])
    qed
  qed
qed

text \<open>The first \<open>fill\<close> always eats the rest of the COPY line, so the block never grows back.\<close>

lemma copyLoop_newCopy:
  assumes "copyLoop newCopyData r err acc = (data, derr, r')"
  shows "length r' \<le> length r"
proof (cases "hasNewline r")
  case False
  then have "fill newCopyData r err = (Inl (unterminated ''COPY data block'' err), [])"
    by (simp add: fill_def newCopyData_def)
  moreover have "\<not> copyDone newCopyData" by (simp add: newCopyData_def)
  ultimately have "r' = []" using assms by (simp add: copyLoop.simps [of newCopyData r])
  then show ?thesis by simp
next
  case True
  let ?c = "newCopyData\<lparr>skipRest := False\<rparr>"
  have "fill newCopyData r err = (Inr ?c, drop (lineLength r) r)"
    using True by (simp add: fill_def newCopyData_def)
  then have "copyLoop newCopyData r err acc = copyLoop (?c\<lparr>pending := []\<rparr>) (drop (lineLength r) r) err acc"
    by (subst copyLoop.simps) (simp add: newCopyData_def)
  then have "length (snd (snd (copyLoop newCopyData r err acc))) \<le> length r"
    using copyLoop_rest [of "?c\<lparr>pending := []\<rparr>" "drop (lineLength r) r" err acc] by simp
  then show ?thesis using assms by simp
qed

function streamLoop ::
  "(nat \<Rightarrow> go_error option) \<Rightarrow> 'w statementSink \<Rightarrow> nat \<Rightarrow> splitter \<Rightarrow> 'w \<Rightarrow> go_error option \<times> 'w" where
  "streamLoop ctxErr sink n s w =
     (case ctxErr n of
        Some e \<Rightarrow> (Some e, w)
      | None \<Rightarrow>
          (case nextStmt s of
             (Inl e, s') \<Rightarrow>
               if errors_Is e IoEOF then (None, w)
               else (Some (Wrapf (''split dump after statement #'' @ Itoa (int n) @ '': '') e []), w)
           | (Inr stmt, s') \<Rightarrow>
               if d s = dialectPostgres \<and> copyFromStdin stmt then
                 (case onCopy sink of
                    None \<Rightarrow> (Some (copyUnsupported n), w)
                  | Some f \<Rightarrow>
                      (case copyLoop newCopyData (rest s') (fin s') [] of
                         (data, derr, r) \<Rightarrow>
                           (case f stmt (data, derr) w of
                              (Some e, w') \<Rightarrow>
                                (Some (Wrapf (''apply dump stmt #'' @ Itoa (int n) @ '': '') e []), w')
                            | (None, w') \<Rightarrow> streamLoop ctxErr sink (n + 1) (s'\<lparr>rest := r\<rparr>) w')))
               else
                 (case onStmt sink stmt w of
                    (Some e, w') \<Rightarrow>
                      (Some (Wrapf (''apply dump stmt #'' @ Itoa (int n) @ '': '') e []), w')
                  | (None, w') \<Rightarrow> streamLoop ctxErr sink (n + 1) s' w')))"
  by pat_completeness auto
termination
  by (relation "measure (\<lambda>(c, k, n, s, w). length (rest s))")
     (auto dest!: nextStmt_rest [OF sym] copyLoop_newCopy [OF sym])

declare streamLoop.simps [simp del]

definition streamStatements ::
  "(nat \<Rightarrow> go_error option) \<Rightarrow> string \<Rightarrow> go_error \<Rightarrow> dialect \<Rightarrow> 'w statementSink \<Rightarrow> 'w \<Rightarrow>
     go_error option \<times> 'w" where
  "streamStatements ctxErr input ferr dl sink w =
     streamLoop ctxErr sink 0 \<lparr>rest = input, fin = ferr, d = dl, delim = '';'', buf = []\<rparr> w"

end
