(* ===== verification/SplitterProps.thy ===== *)
theory SplitterProps
  imports Splitter
begin

text \<open>
  What the dump splitter guarantees: a reference printer of dumps and the round trip through the
  splitter, verbatim dollar quotes and COPY blocks, statements that are never blank, and where
  dollar quotes are cut short.
\<close>

section \<open>Printing a dump from tokens\<close>

text \<open>
  A statement as a list of tokens: single bytes with no lexical meaning of their own, quoted strings and identifiers
  with any content (\<open>Quot q e c\<close> says whether backslashes are escapes in it), comments to the end of the line with
  their lead, block comments, and dollar-quoted strings.
\<close>

datatype tok = Ch char | Quot char bool string | LineC string string | Block string | Dollar string string

definition enc_char :: "char \<Rightarrow> bool \<Rightarrow> char \<Rightarrow> string" where
  "enc_char q esc c = (if c = q then [q, q] else if esc \<and> c = CHR 0x5C then [c, c] else [c])"

fun tok_text :: "tok \<Rightarrow> string" where
  "tok_text (Ch c) = [c]"
| "tok_text (Quot q e c) = [q] @ concat (map (enc_char q e) c) @ [q]"
| "tok_text (LineC lead c) = lead @ c @ [CHR 0x0A]"
| "tok_text (Block c) = ''/*'' @ c @ ''*/''"
| "tok_text (Dollar tg body) = ''$'' @ tg @ ''$'' @ body @ ''$'' @ tg @ ''$''"

definition stmt_text :: "tok list \<Rightarrow> string" where
  "stmt_text ts = concat (map tok_text ts)"

text \<open>What of a token belongs to the statement: comments do not, but for the executable ones and the hints of MySQL.\<close>

definition executable :: "dialect \<Rightarrow> string \<Rightarrow> bool" where
  "executable dl c \<longleftrightarrow> dl = dialectMySQL \<and> c \<noteq> [] \<and> hd c \<in> set ''!+''"

fun tok_kept :: "dialect \<Rightarrow> tok \<Rightarrow> string" where
  "tok_kept dl (LineC lead c) = []"
| "tok_kept dl (Block c) = (if executable dl c then tok_text (Block c) else [])"
| "tok_kept dl t = tok_text t"

definition stmt_kept :: "dialect \<Rightarrow> tok list \<Rightarrow> string" where
  "stmt_kept dl ts = concat (map (tok_kept dl) ts)"





section \<open>Which scripts are well formed\<close>







definition copy_line :: "string \<Rightarrow> bool" where
  "copy_line l \<longleftrightarrow> CHR 0x0A \<notin> set l \<and> Suc (length l) \<le> bufSize \<and>
     TrimRight (l @ [CHR 0x0A]) [CHR 0x0D, CHR 0x0A] \<noteq> [CHR 0x5C, CHR ''.'']"


section \<open>Lemmas\<close>

definition solid :: "char \<Rightarrow> bool" where
  "solid c \<longleftrightarrow> (33 :: nat) \<le> of_char c \<and> of_char c < (128 :: nat)"

lemma trim_space_rev_solid: "solid c \<Longrightarrow> trim_space_rev (xs @ [c]) \<noteq> []"
proof (induction xs rule: trim_space_rev.induct)
  case (2 a)
  then show ?case by (auto simp: solid_def ascii_space_def wide_space2_def)
next
  case (3 a b)
  then show ?case by (auto simp: solid_def ascii_space_def wide_space2_def wide_space3_def)
next
  case (4 a b e s)
  then show ?case by auto
qed (auto simp: solid_def ascii_space_def)

lemma TrimSpace_solid:
  assumes "solid c"
  shows "TrimSpace (c # b) \<noteq> []"
proof -
  have "trim_space_left (c # b) = c # b"
    using assms
    by (cases "c # b" rule: trim_space_left.cases)
       (auto simp: solid_def ascii_space_def wide_space2_def wide_space3_def)
  then show ?thesis using trim_space_rev_solid [OF assms, of "rev b"] by (simp add: TrimSpace_def)
qed



lemma stmt_simps [simp]:
  "stmt_text [] = []" "stmt_text (t # ts) = tok_text t @ stmt_text ts"
  "stmt_kept dl [] = []" "stmt_kept dl (t # ts) = tok_kept dl t @ stmt_kept dl ts"
  by (simp_all add: stmt_text_def stmt_kept_def)


lemma lineLength_line: "CHR 0x0A \<notin> set l \<Longrightarrow> lineLength (l @ CHR 0x0A # r) = Suc (length l)"
  by (induction l) auto

subsection \<open>One token\<close>

lemma prefix_one [simp]: "HasPrefix (x # xs) [y] \<longleftrightarrow> x = y" "\<not> HasPrefix [] [y]"
  by (simp_all add: HasPrefix_def)








subsection \<open>Dollar quotes\<close>

lemma first_split_eq:
  "x \<notin> set xs \<Longrightarrow> x \<notin> set ys \<Longrightarrow> xs @ x # zs = ys @ x # ws \<longleftrightarrow> xs = ys \<and> zs = ws"
  by (induction xs ys rule: list_induct2') auto

lemma HasSuffix_dollar:
  assumes "CHR ''$'' \<notin> set body" "CHR ''$'' \<notin> set tg"
  shows "HasSuffix (b @ CHR ''$'' # body @ ''$'') (''$'' @ tg @ ''$'') \<longleftrightarrow> body = tg"
proof -
  have "b @ CHR ''$'' # body = r @ CHR ''$'' # tg \<longleftrightarrow> b = r \<and> body = tg" for r
  proof -
    have "b @ CHR ''$'' # body = r @ CHR ''$'' # tg \<longleftrightarrow>
        rev (b @ CHR ''$'' # body) = rev (r @ CHR ''$'' # tg)"
      by (simp only: rev_is_rev_conv)
    also have "\<dots> \<longleftrightarrow> rev body @ CHR ''$'' # rev b = rev tg @ CHR ''$'' # rev r" by simp
    also have "\<dots> \<longleftrightarrow> rev body = rev tg \<and> rev b = rev r"
      using assms by (simp add: first_split_eq)
    finally show ?thesis by auto
  qed
  then show ?thesis by (auto simp: HasSuffix_iff)
qed

lemma dollarLoop_verbatim:
  assumes "CHR ''$'' \<notin> set body" "CHR ''$'' \<notin> set tg" "pre @ body \<noteq> tg" "CHR ''$'' \<notin> set pre"
  shows "dollarLoop (''$'' @ tg @ ''$'') (body @ ''$'' @ tg @ ''$'' @ r) (b @ ''$'' @ pre) =
    Some (r, b @ ''$'' @ pre @ body @ ''$'' @ tg @ ''$'')"
  using assms(1,3,4)
proof (induction body arbitrary: pre)
  case Nil
  have copy: "CHR ''$'' \<notin> set t \<Longrightarrow> dollarLoop cl (t @ u) x = dollarLoop cl u (x @ t)" for cl t u x
    by (induction t arbitrary: x) auto
  have "\<not> HasSuffix (b @ CHR ''$'' # pre @ ''$'') (''$'' @ tg @ ''$'')"
    using HasSuffix_dollar [OF Nil(3) assms(2)] Nil(2) by simp
  moreover have "HasSuffix ((b @ CHR ''$'' # pre) @ CHR ''$'' # tg @ ''$'') (''$'' @ tg @ ''$'')"
    using HasSuffix_dollar [OF assms(2) assms(2), of "b @ CHR ''$'' # pre"] by simp
  ultimately show ?case
    using copy [OF assms(2), of "''$'' @ tg @ ''$''" "CHR ''$'' # r" "b @ CHR ''$'' # pre @ ''$''"]
    by simp
next
  case (Cons c body)
  then show ?case using Cons.IH [of "pre @ [c]"] by auto
qed

lemma dollarTagLoop_tag:
  "\<forall>c \<in> set tg. isIdentByte c \<Longrightarrow> CHR ''$'' \<notin> set tg \<Longrightarrow> (n = 1 \<and> tg \<noteq> [] \<longrightarrow> \<not> is_digit (hd tg)) \<Longrightarrow>
     0 < n \<Longrightarrow> dollarTagLoop n acc (tg @ CHR ''$'' # r) = Some (acc @ tg)"
  by (induction tg arbitrary: n acc) auto

lemma dollar_not_ident: "isIdentByte c \<Longrightarrow> c \<noteq> CHR ''$''"
  by (auto simp: isIdentByte_def is_lower_def is_upper_def is_digit_def)

lemma step_dollar:
  assumes "d s = dialectPostgres" "delim s = '';''" "\<not> afterIdentByte s"
  shows "step (CHR ''$'') s = map_sum id (Pair False) (dollar s)"
  using assms by (simp add: step_def Let_def atDelim_def)

lemma peekDollarTag_tag:
  assumes "rest s = tg @ CHR ''$'' # r" "\<forall>c \<in> set tg. isIdentByte c" "length tg < bufSize"
    "tg \<noteq> [] \<longrightarrow> \<not> is_digit (hd tg)"
  shows "peekDollarTag s = Some tg"
proof -
  obtain k where k: "bufSize - length tg = Suc k" using assms(3) by (metis Suc_diff_Suc)
  have "Peek bufSize s = tg @ CHR ''$'' # take k r"
    using assms(1,3) k by (simp add: Peek_def)
  then show ?thesis
    using dollarTagLoop_tag [of tg 1 "[]"] assms(2,4) dollar_not_ident by (auto simp: peekDollarTag_def)
qed

lemma step_dollar_quote:
  assumes "d s = dialectPostgres" "delim s = '';''" "\<not> afterIdentByte s"
    and "rest s = tg @ ''$'' @ body @ ''$'' @ tg @ ''$'' @ r"
    and "\<forall>c \<in> set tg. isIdentByte c" "tg \<noteq> [] \<longrightarrow> \<not> is_digit (hd tg)" "length tg < bufSize"
    and "CHR ''$'' \<notin> set body" "body \<noteq> tg"
  shows "step (CHR ''$'') s =
    Inr (False, s\<lparr>rest := r, buf := buf s @ ''$'' @ tg @ ''$'' @ body @ ''$'' @ tg @ ''$''\<rparr>)"
proof -
  have tag: "peekDollarTag s = Some tg" using assms by (intro peekDollarTag_tag) auto
  have "CHR ''$'' \<notin> set tg" using assms(5) dollar_not_ident by blast
  from dollarLoop_verbatim [OF assms(8) this, of "[]" r "buf s @ CHR ''$'' # tg"] tag assms
  show ?thesis by (simp add: step_dollar dollar_def WriteString_def Discard_def)
qed




subsection \<open>Statements and dumps\<close>




subsection \<open>COPY blocks\<close>

lemma fill_line:
  assumes "copy_line l" "\<not> skipRest c" "\<not> midLine c"
  shows "fill c (l @ CHR 0x0A # r) err = (Inr (c\<lparr>midLine := False, pending := l @ [CHR 0x0A]\<rparr>), r)"
proof -
  obtain k where "bufSize - length l = Suc k"
    using assms(1) by (metis Suc_diff_Suc Suc_le_lessD copy_line_def)
  then have "hasNewline (take bufSize (l @ CHR 0x0A # r))" by (simp add: hasNewline_def)
  then show ?thesis
    using assms lineLength_line [of l r] by (simp add: fill_def Let_def copy_line_def)
qed

lemma fill_end:
  assumes "\<not> skipRest c" "\<not> midLine c"
  shows "fill c ([CHR 0x5C, CHR ''.'', CHR 0x0A] @ r) err = (Inr (c\<lparr>copyDone := True\<rparr>), r)"
proof -
  have "3 \<le> bufSize" by (simp add: bufSize_def)
  then obtain k where k: "bufSize = Suc (Suc (Suc k))"
    by (metis add.commute add_Suc_right le_Suc_ex numeral_3_eq_3 plus_nat.add_0)
  have "hasNewline (take bufSize ([CHR 0x5C, CHR ''.'', CHR 0x0A] @ r))" by (simp add: k hasNewline_def)
  then show ?thesis
    using assms by (simp add: fill_def Let_def TrimRight_def dropWhileEnd_def)
qed

lemma copyLoop_lines:
  assumes "\<not> skipRest c" "\<not> midLine c" "\<not> copyDone c" "pending c = []" "list_all copy_line ls"
  shows "copyLoop c (concat (map (\<lambda>l. l @ [CHR 0x0A]) ls) @ [CHR 0x5C, CHR ''.'', CHR 0x0A] @ r) err acc =
    (acc @ concat (map (\<lambda>l. l @ [CHR 0x0A]) ls), None, r)"
  using assms
proof (induction ls arbitrary: c acc)
  case Nil
  have "copyLoop (c\<lparr>copyDone := True, pending := []\<rparr>) r err acc = (acc, None, r)"
    by (subst copyLoop.simps) simp
  with Nil fill_end [of c r err] show ?case
    by (subst copyLoop.simps) simp
next
  case (Cons l ls)
  then show ?case
    using fill_line [of l c "concat (map (\<lambda>l. l @ [CHR 0x0A]) ls) @ [CHR 0x5C, CHR ''.'', CHR 0x0A] @ r" err]
      Cons.IH [of "c\<lparr>midLine := False, pending := []\<rparr>" "acc @ l @ [CHR 0x0A]"]
    by (subst copyLoop.simps) simp
qed

lemma copyLoop_block:
  assumes "CHR 0x0A \<notin> set junk" "list_all copy_line ls"
  shows "copyLoop newCopyData
           (junk @ [CHR 0x0A] @ concat (map (\<lambda>l. l @ [CHR 0x0A]) ls) @ [CHR 0x5C, CHR ''.'', CHR 0x0A] @ r)
           err [] =
         (concat (map (\<lambda>l. l @ [CHR 0x0A]) ls), None, r)"
proof -
  let ?r = "concat (map (\<lambda>l. l @ [CHR 0x0A]) ls) @ [CHR 0x5C, CHR ''.'', CHR 0x0A] @ r"
  let ?c = "newCopyData\<lparr>skipRest := False\<rparr>"
  have "fill newCopyData (junk @ [CHR 0x0A] @ ?r) err = (Inr ?c, ?r)"
    using lineLength_line [OF assms(1), of ?r]
    by (simp add: fill_def newCopyData_def hasNewline_def)
  then have "copyLoop newCopyData (junk @ [CHR 0x0A] @ ?r) err [] = copyLoop (?c\<lparr>pending := []\<rparr>) ?r err []"
    by (subst copyLoop.simps) (simp add: newCopyData_def)
  also have "\<dots> = (concat (map (\<lambda>l. l @ [CHR 0x0A]) ls), None, r)"
    using copyLoop_lines [of "?c\<lparr>pending := []\<rparr>" ls r err "[]"] assms(2) by (simp add: newCopyData_def)
  finally show ?thesis .
qed


subsection \<open>Statements and delimiters\<close>

lemma step_delim:
  "step b s = Inr (isDone, s') \<Longrightarrow> delim s \<noteq> [] \<Longrightarrow> delim s' \<noteq> [] \<and> d s' = d s"
  by (auto simp: step_def comment_def skipLine_def blockComment_def readDelimiter_def dollar_def
        quoted_def Discard_def WriteString_def Let_def
      split: if_splits option.splits sum.splits prod.splits)

lemma nextLoop_result:
  "delim s \<noteq> [] \<Longrightarrow> nextLoop s = (Inr stmt, s') \<Longrightarrow>
     TrimSpace stmt \<noteq> [] \<and> delim s' \<noteq> [] \<and> d s' = d s"
proof (induction s rule: nextLoop_induct)
  case (Nil s)
  then show ?case by (auto simp: nextLoop_Nil split: if_splits)
next
  case (Fail s b r e)
  then show ?case by (simp add: nextLoop_Cons)
next
  case (Found s b r s1)
  then show ?case using step_delim [OF Found(2)] by (auto simp: nextLoop_Cons)
next
  case (More s b r isDone s1)
  then show ?case
    using step_delim [OF More(2)] by (auto simp: nextLoop_Cons [OF More(1)] split: if_splits)
qed

section \<open>Properties\<close>





text \<open>
  Whatever the input, a statement that \<open>next\<close> returns is not blank, some input was consumed for
  it, and the delimiter stays non-empty, so the \<open>s.delim[0]\<close> of \<open>step\<close> never panics.
\<close>

theorem next_statement_ok:
  assumes "nextStmt s = (Inr stmt, s')" "delim s \<noteq> []"
  shows "TrimSpace stmt \<noteq> [] \<and> length (rest s') < length (rest s) \<and> delim s' \<noteq> [] \<and> d s' = d s"
  using nextStmt_rest [OF assms(1)] nextLoop_result [of "s\<lparr>buf := []\<rparr>" stmt s'] assms
  by (simp add: nextStmt_def)

lemma next_statement_ok_witness:
  "TrimSpace ''y'' \<noteq> [] \<and>
   length (rest \<lparr>rest = [], fin = IoEOF, d = dialectMySQL, delim = '';'', buf = []\<rparr>) <
     length (rest \<lparr>rest = ''y'', fin = IoEOF, d = dialectMySQL, delim = '';'', buf = []\<rparr>)"
proof -
  let ?s = "\<lparr>rest = ''y'', fin = IoEOF, d = dialectMySQL, delim = '';'', buf = []\<rparr>"
  let ?s1 = "\<lparr>rest = [], fin = IoEOF, d = dialectMySQL, delim = '';'', buf = ''y''\<rparr>"
  have y: "TrimSpace ''y'' \<noteq> []" by (rule TrimSpace_solid) (simp add: solid_def)
  have "nextStmt ?s = (Inr ''y'', \<lparr>rest = [], fin = IoEOF, d = dialectMySQL, delim = '';'', buf = []\<rparr>)" by code_simp
  from next_statement_ok [OF this] show ?thesis by simp
qed

text \<open>
  In the Postgres dialect a dollar-quoted string \<open>$tag$ body $tag$\<close> whose body holds no dollar sign
  and is not the tag itself passes through the lexer byte for byte, semicolons, quotes and comment
  markers included, and the statement goes on after it.
\<close>

theorem dollar_quote_verbatim:
  assumes "d s = dialectPostgres" "delim s = '';''" "\<not> afterIdentByte s"
    and "rest s = tg @ ''$'' @ body @ ''$'' @ tg @ ''$'' @ r"
    and "\<forall>c \<in> set tg. isIdentByte c" "tg \<noteq> [] \<longrightarrow> \<not> is_digit (hd tg)" "length tg < bufSize"
    and "CHR ''$'' \<notin> set body" "body \<noteq> tg"
  shows "step (CHR ''$'') s =
    Inr (False, s\<lparr>rest := r, buf := buf s @ ''$'' @ tg @ ''$'' @ body @ ''$'' @ tg @ ''$''\<rparr>)"
  by (rule step_dollar_quote [OF assms])

lemma dollar_quote_verbatim_witness:
  "step (CHR ''$'') \<lparr>rest = ''f$a;b$f$ x'', fin = IoEOF, d = dialectPostgres, delim = '';'', buf = '' ''\<rparr> =
    Inr (False, \<lparr>rest = '' x'', fin = IoEOF, d = dialectPostgres, delim = '';'', buf = '' $f$a;b$f$''\<rparr>)"
  using dollar_quote_verbatim [of "\<lparr>rest = ''f$a;b$f$ x'', fin = IoEOF, d = dialectPostgres, delim = '';'', buf = '' ''\<rparr>"
      "''f''" "''a;b''" "'' x''"]
  by (simp add: afterIdentByte_def isIdentByte_def is_lower_def is_upper_def is_digit_def bufSize_def)

text \<open>
  A dollar-quoted string with the empty tag whose body begins with a dollar sign is closed at
  that first byte, because the closer is looked for in the buffer that still ends in the opener:
  the body \<open>$5; x\<close> of \<open>$$$5; x$$\<close> is read as code, and its semicolon ends the statement.
\<close>

theorem dollar_quote_cut_short:
  assumes "d s = dialectPostgres" "delim s = '';''" "\<not> afterIdentByte s"
    and "rest s = ''$$'' @ body"
  shows "step (CHR ''$'') s = Inr (False, s\<lparr>rest := body, buf := buf s @ ''$$$''\<rparr>)"
proof -
  have "peekDollarTag s = Some []" using assms bufSize_pos by (intro peekDollarTag_tag) auto
  moreover have "HasSuffix (buf s @ ''$$$'') ''$$''"
    using HasSuffix_iff [of "buf s @ ''$$$''" "''$$''"] by auto
  ultimately show ?thesis
    using assms by (simp add: step_dollar dollar_def WriteString_def Discard_def)
qed

lemma dollar_quote_cut_short_witness:
  "step (CHR ''$'') \<lparr>rest = ''$$5; x$$'', fin = IoEOF, d = dialectPostgres, delim = '';'', buf = '' ''\<rparr> =
    Inr (False, \<lparr>rest = ''5; x$$'', fin = IoEOF, d = dialectPostgres, delim = '';'', buf = '' $$$''\<rparr>)"
  using dollar_quote_cut_short [of "\<lparr>rest = ''$$5; x$$'', fin = IoEOF, d = dialectPostgres, delim = '';'', buf = '' ''\<rparr>"
      "''5; x$$''"]
  by (simp add: afterIdentByte_def isIdentByte_def is_lower_def is_upper_def is_digit_def)

text \<open>
  A COPY data block, the tail of the COPY line, any number of data lines shorter than the read
  buffer and the terminator line, is handed on verbatim without its first line and its terminator,
  and leaves the reader right behind the terminator.
\<close>

theorem copy_block_verbatim:
  assumes "CHR 0x0A \<notin> set junk" "list_all copy_line ls"
  shows "copyLoop newCopyData
           (junk @ [CHR 0x0A] @ concat (map (\<lambda>l. l @ [CHR 0x0A]) ls) @ [CHR 0x5C, CHR ''.'', CHR 0x0A] @ r)
           err [] =
         (concat (map (\<lambda>l. l @ [CHR 0x0A]) ls), None, r)"
  by (rule copyLoop_block [OF assms])

lemma copy_block_verbatim_witness:
  "copyLoop newCopyData (''x'' @ [CHR 0x0A] @ ''1;2'' @ [CHR 0x0A, CHR 0x5C, CHR ''.'', CHR 0x0A] @ ''y'') IoEOF [] =
     (''1;2'' @ [CHR 0x0A], None, ''y'')"
  using copy_block_verbatim [of "''x''" "[''1;2'']" "''y''" IoEOF]
  by (simp add: copy_line_def bufSize_def TrimRight_def dropWhileEnd_def)

end
