(* ===== verification/Db.thy ===== *)
theory Db
  imports Prelude
begin

text \<open>
  The SQLite connection the stores share (\<open>internal/store\<close>): the tables, a clock, and a script of what
  happens around each statement.  Before a statement runs, the next event of the script is played:
  the statements other processes committed in between, the time that passed, and the error the
  statement fails with, if any (a cancelled context, a busy or broken database).  A failed statement
  changes no table.  When the script is empty nothing interferes and nothing fails.
\<close>

section \<open>Model\<close>

record 'op event =
  others :: "'op list"
  tick :: int
  fault :: "go_error option"

record ('t, 'op) db =
  tables :: 't
  clock :: int
  script :: "'op event list"

definition nowMillis :: "('t, 'op) db \<Rightarrow> int" where
  "nowMillis s = clock s"

definition turn :: "('op \<Rightarrow> 't \<Rightarrow> 't) \<Rightarrow> ('t, 'op) db \<Rightarrow> go_error option \<times> ('t, 'op) db" where
  "turn apply_op s =
     (case script s of
        [] \<Rightarrow> (None, s)
      | ev # evs \<Rightarrow>
          (fault ev, s\<lparr>tables := fold apply_op (others ev) (tables s), clock := clock s + tick ev,
                      script := evs\<rparr>))"

text \<open>A statement that writes: the new tables, or a constraint violation that leaves them alone.\<close>

definition Exec ::
  "('op \<Rightarrow> 't \<Rightarrow> 't) \<Rightarrow> ('t \<Rightarrow> go_error + 't) \<Rightarrow> ('t, 'op) db \<Rightarrow> go_error option \<times> ('t, 'op) db" where
  "Exec apply_op stmt s =
     (case turn apply_op s of
        (Some e, s') \<Rightarrow> (Some e, s')
      | (None, s') \<Rightarrow>
          (case stmt (tables s') of
             Inl e \<Rightarrow> (Some e, s')
           | Inr t \<Rightarrow> (None, s'\<lparr>tables := t\<rparr>)))"

definition Query :: "('op \<Rightarrow> 't \<Rightarrow> 't) \<Rightarrow> ('t \<Rightarrow> 'a) \<Rightarrow> ('t, 'op) db \<Rightarrow> (go_error + 'a) \<times> ('t, 'op) db" where
  "Query apply_op sel s =
     (case turn apply_op s of
        (Some e, s') \<Rightarrow> (Inl e, s')
      | (None, s') \<Rightarrow> (Inr (sel (tables s')), s'))"

text \<open>Nobody else writes: the script may hold failures, but no statement of another process.\<close>

definition alone :: "('t, 'op) db \<Rightarrow> bool" where
  "alone s \<longleftrightarrow> list_all (\<lambda>ev. others ev = []) (script s)"

text \<open>Nobody else writes and nothing fails.\<close>

definition quiet :: "('t, 'op) db \<Rightarrow> bool" where
  "quiet s \<longleftrightarrow> list_all (\<lambda>ev. others ev = [] \<and> fault ev = None) (script s)"

section \<open>Lemmas\<close>

named_theorems db_step

lemma quiet_alone: "quiet s \<Longrightarrow> alone s"
  by (auto simp: quiet_def alone_def list_all_iff)

lemma turn_alone: "alone s \<Longrightarrow> turn f s = (e, s') \<Longrightarrow> alone s' \<and> tables s' = tables s"
  by (auto simp: turn_def alone_def split: list.splits)

lemma turn_quiet: "quiet s \<Longrightarrow> turn f s = (e, s') \<Longrightarrow> e = None \<and> quiet s' \<and> tables s' = tables s"
  by (auto simp: turn_def quiet_def split: list.splits)

lemma quiet_tables [simp]: "quiet (s\<lparr>tables := t\<rparr>) = quiet s"
  by (simp add: quiet_def)

lemma alone_tables [simp]: "alone (s\<lparr>tables := t\<rparr>) = alone s"
  by (simp add: alone_def)

lemma Query_alone:
  "alone s \<Longrightarrow> Query f sel s = (r, s') \<Longrightarrow>
     alone s' \<and> tables s' = tables s \<and> (\<forall>x. r = Inr x \<longrightarrow> x = sel (tables s))"
  by (auto simp: Query_def split: prod.splits option.splits dest: turn_alone)

lemma Query_quiet:
  assumes "quiet s"
  shows "\<exists>s'. Query f sel s = (Inr (sel (tables s)), s') \<and> quiet s' \<and> tables s' = tables s"
proof -
  obtain e s' where t: "turn f s = (e, s')" by force
  with turn_quiet [OF assms t] show ?thesis by (simp add: Query_def)
qed

lemma Exec_alone:
  "alone s \<Longrightarrow> Exec f stmt s = (r, s') \<Longrightarrow>
     alone s' \<and> (case r of None \<Rightarrow> stmt (tables s) = Inr (tables s') | Some e \<Rightarrow> tables s' = tables s)"
  by (auto simp: Exec_def split: prod.splits option.splits sum.splits dest: turn_alone)

lemma Exec_quiet:
  assumes "quiet s"
  shows "\<exists>s'. Exec f stmt s =
      (case stmt (tables s) of Inl e \<Rightarrow> (Some e, s') | Inr t \<Rightarrow> (None, s'\<lparr>tables := t\<rparr>)) \<and>
    quiet s' \<and> tables s' = tables s"
proof -
  obtain e s' where t: "turn f s = (e, s')" by force
  with turn_quiet [OF assms t] show ?thesis by (auto simp: Exec_def split: sum.splits)
qed

text \<open>
  An invariant of the tables that every statement of every process keeps holds after each statement,
  whatever interferes and whatever fails.
\<close>

locale table_invariant =
  fixes apply_op :: "'op \<Rightarrow> 't \<Rightarrow> 't"
    and inv :: "'t \<Rightarrow> bool"
  assumes apply_op_inv: "inv t \<Longrightarrow> inv (apply_op op t)"
begin

lemma ops_inv: "inv t \<Longrightarrow> inv (fold apply_op ops t)"
  by (induction ops arbitrary: t) (auto intro: apply_op_inv)

lemma turn_inv: "inv (tables s) \<Longrightarrow> turn apply_op s = (e, s') \<Longrightarrow> inv (tables s')"
  by (auto simp: turn_def intro: ops_inv split: list.splits)

lemma Query_inv: "inv (tables s) \<Longrightarrow> Query apply_op sel s = (r, s') \<Longrightarrow> inv (tables s')"
  by (auto simp: Query_def split: prod.splits option.splits intro: turn_inv)

lemma Exec_inv:
  assumes "inv (tables s)" "Exec apply_op stmt s = (r, s')"
    and "\<And>t t'. inv t \<Longrightarrow> stmt t = Inr t' \<Longrightarrow> inv t'"
  shows "inv (tables s')"
proof -
  obtain e s1 where t: "turn apply_op s = (e, s1)" by force
  then have "inv (tables s1)" using assms(1) by (rule turn_inv [rotated])
  then show ?thesis
    using assms(2,3) t by (auto simp: Exec_def split: option.splits sum.splits)
qed

end

end
