(* ===== verification/PortStore.thy ===== *)
theory PortStore
  imports Db
begin

text \<open>
  The port reservations of \<open>internal/store/worktree_ports.go\<close>, on the table \<open>worktree_ports\<close> with the
  constraints of the migrations: one row per worktree and slot, one row per port on the whole host,
  ports from 1 to 65535, and foreign keys to the repositories and worktrees.
\<close>

section \<open>Model\<close>

type_synonym uint16 = "16 word"

record WorktreePortRow =
  WorktreeID :: int
  RepoID :: int
  Name :: string
  Port :: uint16
  AllocatedAt :: int

text \<open>The tables: the rows, the repository ids, and the worktrees with their \<open>deleted_at\<close>.\<close>

record portTables =
  worktree_ports :: "WorktreePortRow list"
  repos :: "int list"
  worktrees :: "(int \<times> int option) list"

definition uniqueFailed :: "string \<Rightarrow> go_error" where
  "uniqueFailed cols = NewError (''constraint failed: UNIQUE constraint failed: '' @ cols @ '' (2067)'')"

definition insertPort :: "WorktreePortRow \<Rightarrow> portTables \<Rightarrow> go_error + portTables" where
  "insertPort row t =
     (if Port row = 0 then Inl (NewError ''constraint failed: CHECK constraint failed (275)'')
      else if list_ex (\<lambda>r. WorktreeID r = WorktreeID row \<and> Name r = Name row) (worktree_ports t) then
        Inl (uniqueFailed ''worktree_ports.worktree_id, worktree_ports.name'')
      else if list_ex (\<lambda>r. Port r = Port row) (worktree_ports t) then
        Inl (uniqueFailed ''worktree_ports.port'')
      else if RepoID row \<notin> set (repos t) \<or> WorktreeID row \<notin> fst ` set (worktrees t) then
        Inl (NewError ''constraint failed: FOREIGN KEY constraint failed (787)'')
      else Inr (t\<lparr>worktree_ports := worktree_ports t @ [row]\<rparr>))"

definition deletePorts :: "(WorktreePortRow \<Rightarrow> bool) \<Rightarrow> portTables \<Rightarrow> portTables" where
  "deletePorts P t = t\<lparr>worktree_ports := filter (\<lambda>r. \<not> P r) (worktree_ports t)\<rparr>"

text \<open>Rows of a worktree that is soft-deleted or gone.\<close>

definition leaked :: "portTables \<Rightarrow> WorktreePortRow \<Rightarrow> bool" where
  "leaked t r \<longleftrightarrow>
     (case map_of (worktrees t) (WorktreeID r) of None \<Rightarrow> True | Some del \<Rightarrow> del \<noteq> None)"

text \<open>
  What other processes do to these tables between two statements; deleting a worktree or repository
  row cascades to its ports.
\<close>

datatype portOp =
    OpInsert WorktreePortRow
  | OpRelease int string
  | OpReleaseAll int
  | OpPurge
  | OpAddRepo int
  | OpSetWorktree int "int option"
  | OpDropWorktree int
  | OpDropRepo int

fun applyPortOp :: "portOp \<Rightarrow> portTables \<Rightarrow> portTables" where
  "applyPortOp (OpInsert row) t = (case insertPort row t of Inl e \<Rightarrow> t | Inr t' \<Rightarrow> t')"
| "applyPortOp (OpRelease w n) t = deletePorts (\<lambda>r. WorktreeID r = w \<and> Name r = n) t"
| "applyPortOp (OpReleaseAll w) t = deletePorts (\<lambda>r. WorktreeID r = w) t"
| "applyPortOp OpPurge t = deletePorts (leaked t) t"
| "applyPortOp (OpAddRepo i) t = t\<lparr>repos := i # repos t\<rparr>"
| "applyPortOp (OpSetWorktree w del) t =
     t\<lparr>worktrees := (w, del) # filter (\<lambda>p. fst p \<noteq> w) (worktrees t)\<rparr>"
| "applyPortOp (OpDropWorktree w) t =
     (deletePorts (\<lambda>r. WorktreeID r = w) t)\<lparr>worktrees := filter (\<lambda>p. fst p \<noteq> w) (worktrees t)\<rparr>"
| "applyPortOp (OpDropRepo i) t =
     (deletePorts (\<lambda>r. RepoID r = i) t)\<lparr>repos := filter (\<lambda>j. j \<noteq> i) (repos t)\<rparr>"

type_synonym portDB = "(portTables, portOp) db"

definition ErrPortInUse :: go_error where
  "ErrPortInUse = NewError ''port already allocated''"

definition ErrSlotHeld :: go_error where
  "ErrSlotHeld = NewError ''worktree already holds slot''"

definition isUniqueConflict :: "go_error \<Rightarrow> bool" where
  "isUniqueConflict err \<longleftrightarrow>
     Contains (Error err) ''UNIQUE constraint failed'' \<or> Contains (Error err) ''constraint failed: UNIQUE''"

definition portOf :: "portTables \<Rightarrow> int \<Rightarrow> string \<Rightarrow> uint16" where
  "portOf t w n =
     (case filter (\<lambda>r. WorktreeID r = w \<and> Name r = n) (worktree_ports t) of
        [] \<Rightarrow> 0 | r # _ \<Rightarrow> Port r)"

definition LookupWorktreePort :: "int \<Rightarrow> string \<Rightarrow> portDB \<Rightarrow> (go_error + uint16) \<times> portDB" where
  "LookupWorktreePort w n s =
     (if w \<le> 0 \<or> n = [] then (Inr 0, s) else Query applyPortOp (\<lambda>t. portOf t w n) s)"

definition AllocateWorktreePort ::
  "int \<Rightarrow> int \<Rightarrow> string \<Rightarrow> uint16 \<Rightarrow> portDB \<Rightarrow> go_error option \<times> portDB" where
  "AllocateWorktreePort repo w n p s =
     (if repo \<le> 0 \<or> w \<le> 0 \<or> n = [] \<or> p = 0 then
        (Some (NewError (''allocate worktree port: bad args (repo='' @ Itoa repo @ '' wt='' @ Itoa w @
           '' name='' @ n @ '' port='' @ Itoa (uint p) @ '')'')), s)
      else
        case Exec applyPortOp
               (insertPort \<lparr>WorktreeID = w, RepoID = repo, Name = n, Port = p, AllocatedAt = nowMillis s\<rparr>) s of
          (None, s') \<Rightarrow> (None, s')
        | (Some err, s') \<Rightarrow>
            if isUniqueConflict err then
              (case LookupWorktreePort w n s' of
                 (Inl herr, s'') \<Rightarrow>
                   (Some (Wrapf (''reserve port slot '' @ n @ '' for worktree '' @ Itoa w @
                      '': classify the conflict: '') (Wrapf2 [] err [CHR 0x0A] herr []) []), s'')
               | (Inr held, s'') \<Rightarrow> (Some (if 0 < held then ErrSlotHeld else ErrPortInUse), s''))
            else (Some err, s'))"

definition portsOf :: "portTables \<Rightarrow> int \<Rightarrow> (string \<times> uint16) list" where
  "portsOf t w = map (\<lambda>r. (Name r, Port r)) (filter (\<lambda>r. WorktreeID r = w) (worktree_ports t))"

definition LoadWorktreePorts :: "int \<Rightarrow> portDB \<Rightarrow> (go_error + (string \<rightharpoonup> uint16)) \<times> portDB" where
  "LoadWorktreePorts w s =
     (if w \<le> 0 then (Inr Map.empty, s) else Query applyPortOp (\<lambda>t. map_of (portsOf t w)) s)"

definition heldIn :: "uint16 \<Rightarrow> uint16 \<Rightarrow> portTables \<Rightarrow> uint16 list" where
  "heldIn lo hi t = filter (\<lambda>p. lo \<le> p \<and> p \<le> hi) (map Port (worktree_ports t))"

definition ListHeldPorts :: "uint16 \<Rightarrow> uint16 \<Rightarrow> portDB \<Rightarrow> (go_error + uint16 list) \<times> portDB" where
  "ListHeldPorts lo hi s =
     (case Query applyPortOp (heldIn lo hi) s of
        (Inl err, s') \<Rightarrow>
          (Inl (Wrapf (''list held ports '' @ Itoa (uint lo) @ ''-'' @ Itoa (uint hi) @ '': '') err []), s')
      | (Inr ps, s') \<Rightarrow> (Inr ps, s'))"

definition ReleaseWorktreePorts :: "int \<Rightarrow> portDB \<Rightarrow> go_error option \<times> portDB" where
  "ReleaseWorktreePorts w s =
     (if w \<le> 0 then (None, s)
      else Exec applyPortOp (\<lambda>t. Inr (deletePorts (\<lambda>r. WorktreeID r = w) t)) s)"

definition ReleaseWorktreePort :: "int \<Rightarrow> string \<Rightarrow> portDB \<Rightarrow> go_error option \<times> portDB" where
  "ReleaseWorktreePort w n s =
     (if w \<le> 0 \<or> n = [] then (None, s)
      else Exec applyPortOp (\<lambda>t. Inr (deletePorts (\<lambda>r. WorktreeID r = w \<and> Name r = n) t)) s)"

text \<open>
  The statement names the worktrees that have a leaked row and deletes the rows of those worktrees;
  the result is the number of rows deleted.
\<close>

definition purgeLeaked :: "portTables \<Rightarrow> portTables" where
  "purgeLeaked t =
     (let ids = map WorktreeID (filter (leaked t) (worktree_ports t))
      in deletePorts (\<lambda>r. WorktreeID r \<in> set ids) t)"

definition PurgeDeletedWorktreePorts :: "portDB \<Rightarrow> (go_error + int) \<times> portDB" where
  "PurgeDeletedWorktreePorts s =
     (case turn applyPortOp s of
        (Some err, s') \<Rightarrow> (Inl err, s')
      | (None, s') \<Rightarrow>
          (Inr (int (length (worktree_ports (tables s'))) -
                int (length (worktree_ports (purgeLeaked (tables s'))))),
           s'\<lparr>tables := purgeLeaked (tables s')\<rparr>))"

definition SortedSlotNames :: "(string \<times> uint16) list \<Rightarrow> string list" where
  "SortedSlotNames ports = sort (map fst ports)"

section \<open>The reservation invariant\<close>

definition ports_ok :: "portTables \<Rightarrow> bool" where
  "ports_ok t \<longleftrightarrow>
     distinct (map Port (worktree_ports t)) \<and>
     distinct (map (\<lambda>r. (WorktreeID r, Name r)) (worktree_ports t)) \<and>
     list_all (\<lambda>r. Port r \<noteq> 0) (worktree_ports t)"

lemma ports_ok_other [simp]:
  "ports_ok (t\<lparr>repos := x\<rparr>) = ports_ok t" "ports_ok (t\<lparr>worktrees := y\<rparr>) = ports_ok t"
  by (simp_all add: ports_ok_def)

lemma insertPort_row:
  "insertPort row t = Inr t' \<Longrightarrow>
     t' = t\<lparr>worktree_ports := worktree_ports t @ [row]\<rparr> \<and> Port row \<noteq> 0 \<and>
     (\<forall>r \<in> set (worktree_ports t). Port r \<noteq> Port row \<and>
        (WorktreeID r, Name r) \<noteq> (WorktreeID row, Name row))"
  by (auto simp: insertPort_def list_ex_iff split: if_splits)

lemma insertPort_ok: "ports_ok t \<Longrightarrow> insertPort row t = Inr t' \<Longrightarrow> ports_ok t'"
  by (drule insertPort_row) (force simp: ports_ok_def)

lemma deletePorts_ok: "ports_ok t \<Longrightarrow> ports_ok (deletePorts P t)"
  by (auto simp: ports_ok_def deletePorts_def list_all_iff distinct_map_filter)

lemma applyPortOp_ok: "ports_ok t \<Longrightarrow> ports_ok (applyPortOp op t)"
  by (cases op) (auto simp: deletePorts_ok insertPort_ok split: sum.splits)

interpretation ports: table_invariant applyPortOp ports_ok
  by unfold_locales (rule applyPortOp_ok)

text \<open>Every operation of the store keeps the invariant, whatever interferes and whatever fails.\<close>

lemma LookupWorktreePort_ok:
  "ports_ok (tables s) \<Longrightarrow> LookupWorktreePort w n s = (r, s') \<Longrightarrow> ports_ok (tables s')"
  by (auto simp: LookupWorktreePort_def split: if_splits intro: ports.Query_inv)

lemma AllocateWorktreePort_ok:
  assumes "ports_ok (tables s)" "AllocateWorktreePort repo w n p s = (r, s')"
  shows "ports_ok (tables s')"
proof -
  let ?row = "\<lparr>WorktreeID = w, RepoID = repo, Name = n, Port = p, AllocatedAt = nowMillis s\<rparr>"
  obtain e s1 where x: "Exec applyPortOp (insertPort ?row) s = (e, s1)" by force
  have ok: "ports_ok (tables s1)" using assms(1) x insertPort_ok by (rule ports.Exec_inv)
  show ?thesis
    using assms x ok by (auto simp: AllocateWorktreePort_def LookupWorktreePort_ok
        split: if_splits option.splits prod.splits sum.splits)
qed

lemma ReleaseWorktreePort_ok:
  "ports_ok (tables s) \<Longrightarrow> ReleaseWorktreePort w n s = (r, s') \<Longrightarrow> ports_ok (tables s')"
  by (auto simp: ReleaseWorktreePort_def split: if_splits elim!: ports.Exec_inv [rotated] intro: deletePorts_ok)

lemma LoadWorktreePorts_ok:
  "ports_ok (tables s) \<Longrightarrow> LoadWorktreePorts w s = (r, s') \<Longrightarrow> ports_ok (tables s')"
  by (auto simp: LoadWorktreePorts_def split: if_splits intro: ports.Query_inv)

lemma ListHeldPorts_ok:
  "ports_ok (tables s) \<Longrightarrow> ListHeldPorts lo hi s = (r, s') \<Longrightarrow> ports_ok (tables s')"
  by (auto simp: ListHeldPorts_def split: prod.splits sum.splits intro: ports.Query_inv)

section \<open>What the operations do when nobody else writes\<close>

lemma isUniqueConflict_unique: "isUniqueConflict (uniqueFailed c)"
proof -
  have e: "Error (uniqueFailed c) = ''constraint failed: '' @ ''UNIQUE constraint failed'' @ '': '' @ c @ '' (2067)''"
    by (simp add: uniqueFailed_def)
  have "Contains (Error (uniqueFailed c)) ''UNIQUE constraint failed''"
    by (subst e) (rule Contains_append)
  then show ?thesis unfolding isUniqueConflict_def by (rule disjI1)
qed

lemma portOf_row:
  assumes "ports_ok t" "r \<in> set (worktree_ports t)"
  shows "portOf t (WorktreeID r) (Name r) = Port r"
proof -
  let ?P = "\<lambda>q. WorktreeID q = WorktreeID r \<and> Name q = Name r"
  have inj: "inj_on (\<lambda>q. (WorktreeID q, Name q)) (set (worktree_ports t))"
    using assms(1) by (simp add: ports_ok_def distinct_map)
  obtain q qs where q: "filter ?P (worktree_ports t) = q # qs"
    using assms(2) by (cases "filter ?P (worktree_ports t)") (auto simp: filter_empty_conv)
  then have "q \<in> set (filter ?P (worktree_ports t))" by simp
  then have "q = r" using inj_onD [OF inj, of q r] assms(2) by simp
  with q show ?thesis by (simp add: portOf_def)
qed

lemma portOf_none:
  "\<forall>r \<in> set (worktree_ports t). \<not> (WorktreeID r = w \<and> Name r = n) \<Longrightarrow> portOf t w n = 0"
  by (simp add: portOf_def filter_empty_conv)

lemma portOf_pos:
  assumes "ports_ok t"
  shows "0 < portOf t w n \<longleftrightarrow> (\<exists>r \<in> set (worktree_ports t). WorktreeID r = w \<and> Name r = n)"
  using assms portOf_row [OF assms] portOf_none [of t w n]
  by (auto simp: ports_ok_def list_all_iff word_gt_0)

lemma map_of_portsOf:
  assumes "ports_ok t" shows "map_of (portsOf t w) n = (if 0 < portOf t w n then Some (portOf t w n) else None)"
proof (cases "0 < portOf t w n")
  case True
  then obtain r where r: "r \<in> set (worktree_ports t)" "WorktreeID r = w" "Name r = n"
    using portOf_pos [OF assms] by blast
  have "distinct (map fst (portsOf t w))"
    using assms by (auto simp: ports_ok_def portsOf_def comp_def distinct_map inj_on_def)
  moreover have "(n, Port r) \<in> set (portsOf t w)" using r by (force simp: portsOf_def)
  ultimately show ?thesis using True portOf_row [OF assms r(1)] r by simp
next
  case False
  then have "n \<notin> fst ` set (portsOf t w)" using portOf_pos [OF assms] by (force simp: portsOf_def)
  then show ?thesis using False by (simp add: map_of_eq_None_iff)
qed

text \<open>A reservation that succeeds adds one row; one that fails changes nothing.\<close>

lemma LookupWorktreePort_alone:
  assumes "alone s" "LookupWorktreePort w n s = (r, s')"
  shows "alone s' \<and> tables s' = tables s \<and> (\<forall>x. r = Inr x \<longrightarrow> 0 < x \<longrightarrow> x = portOf (tables s) w n)"
  using assms by (auto simp: LookupWorktreePort_def split: if_splits dest: Query_alone)

lemma AllocateWorktreePort_alone:
  assumes "alone s" "AllocateWorktreePort repo w n p s = (r, s')"
  shows "alone s' \<and>
    (case r of
       None \<Rightarrow> 0 < w \<and> n \<noteq> [] \<and> (\<exists>row. insertPort row (tables s) = Inr (tables s') \<and>
                 WorktreeID row = w \<and> Name row = n \<and> Port row = p)
     | Some e \<Rightarrow> tables s' = tables s)"
proof (cases "repo \<le> 0 \<or> w \<le> 0 \<or> n = [] \<or> p = 0")
  case True
  then show ?thesis using assms by (auto simp: AllocateWorktreePort_def)
next
  case False
  let ?row = "\<lparr>WorktreeID = w, RepoID = repo, Name = n, Port = p, AllocatedAt = nowMillis s\<rparr>"
  obtain e s1 where x: "Exec applyPortOp (insertPort ?row) s = (e, s1)" by force
  from Exec_alone [OF assms(1) x] have a: "alone s1" by simp
  show ?thesis
  proof (cases e)
    case None
    then show ?thesis using assms(2) False x Exec_alone [OF assms(1) x]
      by (fastforce simp: AllocateWorktreePort_def)
  next
    case (Some err)
    then have "tables s1 = tables s" using Exec_alone [OF assms(1) x] by simp
    then show ?thesis using assms(2) False x Some a
      by (auto simp: AllocateWorktreePort_def split: if_splits prod.splits sum.splits
            dest: LookupWorktreePort_alone [OF a, THEN conjunct1] LookupWorktreePort_alone [OF a, THEN conjunct2, THEN conjunct1])
  qed
qed

lemma AllocateWorktreePort_fails:
  "alone s \<Longrightarrow> AllocateWorktreePort repo w n p s = (Some e, s') \<Longrightarrow> alone s' \<and> tables s' = tables s"
  by (drule (1) AllocateWorktreePort_alone) simp

text \<open>With nothing failing, a reservation in good order fails only when slot or port is taken.\<close>

lemma AllocateWorktreePort_quiet:
  assumes "quiet s" "ports_ok (tables s)" "0 < repo" "0 < w" "n \<noteq> []" "p \<noteq> 0"
    "repo \<in> set (repos (tables s))" "w \<in> fst ` set (worktrees (tables s))"
    "portOf (tables s) w n = 0" "p \<notin> Port ` set (worktree_ports (tables s))"
  shows "\<exists>s'. AllocateWorktreePort repo w n p s = (None, s') \<and> quiet s' \<and>
    tables s' = (tables s)\<lparr>worktree_ports := worktree_ports (tables s) @
      [\<lparr>WorktreeID = w, RepoID = repo, Name = n, Port = p, AllocatedAt = nowMillis s\<rparr>]\<rparr>"
proof -
  let ?row = "\<lparr>WorktreeID = w, RepoID = repo, Name = n, Port = p, AllocatedAt = nowMillis s\<rparr>"
  have "\<not> list_ex (\<lambda>r. WorktreeID r = w \<and> Name r = n) (worktree_ports (tables s))"
    using portOf_pos [OF assms(2), of w n] assms(9) by (auto simp: list_ex_iff)
  then have "insertPort ?row (tables s) =
      Inr ((tables s)\<lparr>worktree_ports := worktree_ports (tables s) @ [?row]\<rparr>)"
    using assms by (auto simp: insertPort_def list_ex_iff)
  with Exec_quiet [OF assms(1), of applyPortOp "insertPort ?row"] assms(3-6) show ?thesis
    by (auto simp: AllocateWorktreePort_def)
qed

end
