(* ===== verification/Ports.thy ===== *)
theory Ports
  imports PortStore
begin

text \<open>
  The port allocator of \<open>internal/ports/ports.go\<close>: one port per declared slot, in the order of the slot
  names, each reserved in the store; a failure releases the slots this call reserved.

  What the operating system answers is a parameter: for the scan of a slot and a port, the result of
  each listen attempt and whether the probe deadline has passed after it.  An attempt is preceded by
  a sleep of 5 ms, so after 21 attempts the 100 ms of \<open>ProbeTimeout\<close> are over in any case.
\<close>

section \<open>Model\<close>

record PortRange =
  Min :: uint16
  Max :: uint16

text \<open>The \<open>ports:\<close> block, slot names with their ranges; the names of a Go map are distinct.\<close>

type_synonym portsConfig = "(string \<times> PortRange) list"

definition PortSlotNames :: "portsConfig \<Rightarrow> string list" where
  "PortSlotNames cfg = sort (map fst cfg)"

datatype listenError = EADDRINUSE | EACCES | EADDRNOTAVAIL | OtherListenError

record probe =
  listen :: "nat \<Rightarrow> listenError option"
  afterDeadline :: "nat \<Rightarrow> bool"

definition deterministicBindFailure :: "listenError \<Rightarrow> bool" where
  "deterministicBindFailure err \<longleftrightarrow> err = EADDRINUSE \<or> err = EACCES \<or> err = EADDRNOTAVAIL"

function portFreeLoop :: "probe \<Rightarrow> nat \<Rightarrow> bool" where
  "portFreeLoop pr n =
     (case listen pr n of
        None \<Rightarrow> True
      | Some err \<Rightarrow>
          if deterministicBindFailure err \<or> afterDeadline pr n \<or> 21 \<le> n then False
          else portFreeLoop pr (n + 1))"
  by pat_completeness auto
termination
  by (relation "measure (\<lambda>(pr, n). 21 - n)") auto

declare portFreeLoop.simps [simp del]

definition portFree :: "probe \<Rightarrow> bool" where
  "portFree pr =
     (case listen pr 0 of
        None \<Rightarrow> True
      | Some err \<Rightarrow> if deterministicBindFailure err then False else portFreeLoop pr 1)"

type_synonym hostPorts = "string \<Rightarrow> uint16 \<Rightarrow> probe"

definition ErrExhausted :: go_error where
  "ErrExhausted = NewError ''port range exhausted''"

definition exhausted :: "string \<Rightarrow> PortRange \<Rightarrow> go_error" where
  "exhausted name spec =
     Wrapf [] ErrExhausted ('': slot '' @ name @ '' range ['' @ Itoa (uint (Min spec)) @ '', '' @
       Itoa (uint (Max spec)) @ '']'')"

text \<open>The candidate loop from \<open>p\<close>; the counter is wider than the port, so it does not wrap at 65535.\<close>

function allocateFrom ::
  "hostPorts \<Rightarrow> int \<Rightarrow> int \<Rightarrow> string \<Rightarrow> PortRange \<Rightarrow> uint16 list \<Rightarrow> nat \<Rightarrow> portDB \<Rightarrow>
     (go_error + (uint16 \<times> bool)) \<times> portDB" where
  "allocateFrom os repo w name spec used p s =
     (if unat (Max spec) < p then (Inl (exhausted name spec), s)
      else
        let candidate = (of_nat p :: uint16)
        in if candidate \<in> set used then allocateFrom os repo w name spec used (p + 1) s
           else if \<not> portFree (os name candidate) then allocateFrom os repo w name spec used (p + 1) s
           else
             case AllocateWorktreePort repo w name candidate s of
               (None, s') \<Rightarrow> (Inr (candidate, False), s')
             | (Some err, s') \<Rightarrow>
                 if errors_Is err ErrSlotHeld then
                   (case LookupWorktreePort w name s' of
                      (Inl herr, s'') \<Rightarrow> (Inl herr, s'')
                    | (Inr held, s'') \<Rightarrow>
                        if 0 < held then (Inr (held, True), s'')
                        else allocateFrom os repo w name spec used (p + 1) s'')
                 else if errors_Is err ErrPortInUse then
                   allocateFrom os repo w name spec used (p + 1) s'
                 else (Inl err, s'))"
  by pat_completeness auto
termination
  by (relation "measure (\<lambda>(os, repo, w, name, spec, used, p, s). Suc (unat (Max spec)) - p)") auto

declare allocateFrom.simps [simp del]

definition allocateOne ::
  "hostPorts \<Rightarrow> int \<Rightarrow> int \<Rightarrow> string \<Rightarrow> PortRange \<Rightarrow> portDB \<Rightarrow> (go_error + (uint16 \<times> bool)) \<times> portDB" where
  "allocateOne os repo w name spec s =
     (case ListHeldPorts (Min spec) (Max spec) s of
        (Inl err, s') \<Rightarrow> (Inl err, s')
      | (Inr used, s') \<Rightarrow> allocateFrom os repo w name spec used (unat (Min spec)) s')"

record Allocation =
  Slot :: string
  Assigned :: uint16

definition errors_Join :: "go_error \<Rightarrow> go_error \<Rightarrow> go_error" where
  "errors_Join a b = Wrapf2 [] a [CHR 0x0A] b []"

fun rollBack :: "int \<Rightarrow> string list \<Rightarrow> go_error \<Rightarrow> portDB \<Rightarrow> go_error \<times> portDB" where
  "rollBack w [] allocErr s = (allocErr, s)"
| "rollBack w (n # ns) allocErr s =
     (case ReleaseWorktreePort w n s of
        (None, s') \<Rightarrow> rollBack w ns allocErr s'
      | (Some relErr, s') \<Rightarrow>
          rollBack w ns (errors_Join allocErr
            (Wrapf (''roll back port slot '' @ n @ '' of worktree '' @ Itoa w @ '': '') relErr [])) s')"

text \<open>A slot of the configuration always has a range; a missing one would be Go's zero value.\<close>

definition slotRange :: "portsConfig \<Rightarrow> string \<Rightarrow> PortRange" where
  "slotRange cfg name = (case map_of cfg name of Some spec \<Rightarrow> spec | None \<Rightarrow> \<lparr>Min = 0, Max = 0\<rparr>)"

fun allocateSlots ::
  "hostPorts \<Rightarrow> portsConfig \<Rightarrow> int \<Rightarrow> int \<Rightarrow> (string \<rightharpoonup> uint16) \<Rightarrow> string list \<Rightarrow> Allocation list \<Rightarrow>
     string list \<Rightarrow> portDB \<Rightarrow> (go_error + Allocation list) \<times> portDB" where
  "allocateSlots os cfg repo w existing [] out mine s = (Inr out, s)"
| "allocateSlots os cfg repo w existing (name # names) out mine s =
     (case existing name of
        Some port \<Rightarrow>
          allocateSlots os cfg repo w existing names (out @ [\<lparr>Slot = name, Assigned = port\<rparr>]) mine s
      | None \<Rightarrow>
          (case allocateOne os repo w name (slotRange cfg name) s of
             (Inl err, s') \<Rightarrow>
               (case rollBack w mine (Wrapf (''allocate port '' @ name @ '': '') err []) s' of
                  (allocErr, s'') \<Rightarrow> (Inl allocErr, s''))
           | (Inr (port, reused), s') \<Rightarrow>
               allocateSlots os cfg repo w existing names (out @ [\<lparr>Slot = name, Assigned = port\<rparr>])
                 (if reused then mine else mine @ [name]) s'))"

definition Allocate ::
  "hostPorts \<Rightarrow> portsConfig \<Rightarrow> int \<Rightarrow> int \<Rightarrow> portDB \<Rightarrow> (go_error + Allocation list) \<times> portDB" where
  "Allocate os cfg repo w s =
     (if PortSlotNames cfg = [] then (Inr [], s)
      else
        case LoadWorktreePorts w s of
          (Inl err, s') \<Rightarrow> (Inl err, s')
        | (Inr existing, s') \<Rightarrow> allocateSlots os cfg repo w existing (PortSlotNames cfg) [] [] s')"

definition FormatSummary :: "Allocation list \<Rightarrow> string" where
  "FormatSummary allocs =
     (if allocs = [] then []
      else ''ports:'' @ concat (map (\<lambda>a. '' '' @ Slot a @ ''='' @ Itoa (uint (Assigned a))) allocs))"

section \<open>The invariant under any interference\<close>

text \<open>Induction over the candidate loop, one case per way through its body.\<close>

lemma allocateFrom_induct [case_names Exhausted Skip Reserved Failed LookupFailed Held Vanished InUse]:
  fixes os repo w name spec used
  defines "go \<equiv> allocateFrom os repo w name spec used"
  assumes Exhausted: "\<And>p s. unat (Max spec) < p \<Longrightarrow> P p s (Inl (exhausted name spec), s)"
    and Skip: "\<And>p s. p \<le> unat (Max spec) \<Longrightarrow> of_nat p \<in> set used \<or> \<not> portFree (os name (of_nat p)) \<Longrightarrow>
      P (Suc p) s (go (Suc p) s) \<Longrightarrow> P p s (go (Suc p) s)"
    and Reserved: "\<And>p s s'. p \<le> unat (Max spec) \<Longrightarrow> of_nat p \<notin> set used \<Longrightarrow> portFree (os name (of_nat p)) \<Longrightarrow>
      AllocateWorktreePort repo w name (of_nat p) s = (None, s') \<Longrightarrow> P p s (Inr (of_nat p, False), s')"
    and Failed: "\<And>p s e s'. p \<le> unat (Max spec) \<Longrightarrow> of_nat p \<notin> set used \<Longrightarrow> portFree (os name (of_nat p)) \<Longrightarrow>
      AllocateWorktreePort repo w name (of_nat p) s = (Some e, s') \<Longrightarrow> P p s (Inl e, s')"
    and LookupFailed: "\<And>p s e s1 e' s2. AllocateWorktreePort repo w name (of_nat p) s = (Some e, s1) \<Longrightarrow>
      LookupWorktreePort w name s1 = (Inl e', s2) \<Longrightarrow> P p s (Inl e', s2)"
    and Held: "\<And>p s e s1 h s2. AllocateWorktreePort repo w name (of_nat p) s = (Some e, s1) \<Longrightarrow>
      LookupWorktreePort w name s1 = (Inr h, s2) \<Longrightarrow> 0 < h \<Longrightarrow> P p s (Inr (h, True), s2)"
    and Vanished: "\<And>p s e s1 h s2. AllocateWorktreePort repo w name (of_nat p) s = (Some e, s1) \<Longrightarrow>
      LookupWorktreePort w name s1 = (Inr h, s2) \<Longrightarrow>
      P (Suc p) s2 (go (Suc p) s2) \<Longrightarrow> P p s (go (Suc p) s2)"
    and InUse: "\<And>p s e s1. AllocateWorktreePort repo w name (of_nat p) s = (Some e, s1) \<Longrightarrow>
      P (Suc p) s1 (go (Suc p) s1) \<Longrightarrow> P p s (go (Suc p) s1)"
  shows "P p s (allocateFrom os repo w name spec used p s)"
proof (induction p arbitrary: s rule: measure_induct_rule [of "\<lambda>p. Suc (unat (Max spec)) - p"])
  case (less p)
  note unfold = allocateFrom.simps [of os repo w name spec used p s]
  show ?case
  proof (cases "unat (Max spec) < p")
    case True
    then show ?thesis using Exhausted unfold by simp
  next
    case False
    then have ih: "P (Suc p) s' (go (Suc p) s')" for s'
      unfolding go_def by (intro less) simp
    obtain x s1 where a: "AllocateWorktreePort repo w name (of_nat p) s = (x, s1)" by force
    obtain y s2 where l: "LookupWorktreePort w name s1 = (y, s2)" by force
    show ?thesis
    proof (cases "of_nat p \<in> set used \<or> \<not> portFree (os name (of_nat p))")
      case True
      then show ?thesis using Skip [OF _ True ih] False unfold by (auto simp: go_def Let_def)
    next
      case no_skip: False
      show ?thesis
      proof (cases x)
        case None
        then show ?thesis using Reserved [of p s s1] False no_skip a unfold by simp
      next
        case (Some e)
        note fresh = Failed [of p s e s1] InUse [of p s e s1, OF _ ih]
          LookupFailed [of p s e s1 _ s2] Held [of p s e s1 _ s2] Vanished [of p s e s1 _ s2, OF _ _ ih]
        show ?thesis
          using fresh False no_skip a l Some unfold by (cases y) (auto simp: go_def)
      qed
    qed
  qed
qed

lemma allocateFrom_ok:
  "ports_ok (tables s) \<longrightarrow> ports_ok (tables (snd (allocateFrom os repo w name spec used p s)))"
  by (rule allocateFrom_induct [where P = "\<lambda>p s r. ports_ok (tables s) \<longrightarrow> ports_ok (tables (snd r))"])
     (auto dest: AllocateWorktreePort_ok LookupWorktreePort_ok)

lemma allocateOne_ok:
  assumes "ports_ok (tables s)" "allocateOne os repo w name spec s = (r, s')"
  shows "ports_ok (tables s')"
proof -
  obtain x s1 where l: "ListHeldPorts (Min spec) (Max spec) s = (x, s1)" by force
  then have "ports_ok (tables s1)" using assms(1) by (rule ListHeldPorts_ok [rotated])
  then show ?thesis
    using assms(2) l allocateFrom_ok [of s1 os repo w name spec "projr x" "unat (Min spec)"]
    by (cases x) (auto simp: allocateOne_def)
qed

lemma rollBack_ok: "ports_ok (tables s) \<Longrightarrow> rollBack w ns e s = (r, s') \<Longrightarrow> ports_ok (tables s')"
  by (induction w ns e s rule: rollBack.induct)
     (auto split: prod.splits option.splits dest: ReleaseWorktreePort_ok)

lemma allocateSlots_ok:
  "ports_ok (tables s) \<Longrightarrow> allocateSlots os cfg repo w ex names out mine s = (r, s') \<Longrightarrow>
     ports_ok (tables s')"
proof (induction os cfg repo w ex names out mine s rule: allocateSlots.induct)
  case (2 os cfg repo w ex name names out mine s)
  show ?case
  proof (cases "ex name")
    case None
    obtain x s1 where one: "allocateOne os repo w name (slotRange cfg name) s = (x, s1)" by force
    have ok: "ports_ok (tables s1)" using 2(3) one by (rule allocateOne_ok)
    show ?thesis
    proof (cases x)
      case (Inl e)
      then show ?thesis using 2(4) None one ok by (auto split: prod.splits dest: rollBack_ok)
    next
      case (Inr pr)
      then show ?thesis using 2(1) [OF None one [symmetric] Inr] 2(4) None one ok
        by (cases pr) auto
    qed
  next
    case (Some port)
    then show ?thesis using 2(2) [OF Some] 2(3,4) by simp
  qed
qed simp

section \<open>Allocation when nobody else writes\<close>

text \<open>
  What one allocation did: nothing on an error, nothing when the slot was found held, and one new row
  for a port of the range otherwise.
\<close>

definition allocated ::
  "int \<Rightarrow> string \<Rightarrow> nat \<Rightarrow> uint16 \<Rightarrow> portTables \<Rightarrow> go_error + (uint16 \<times> bool) \<Rightarrow> portTables \<Rightarrow> bool" where
  "allocated w name lo hi t r t' \<longleftrightarrow>
     (case r of
        Inl e \<Rightarrow> t' = t
      | Inr (port, reused) \<Rightarrow>
          if reused then t' = t \<and> port = portOf t w name \<and> 0 < port
          else 0 < w \<and> name \<noteq> [] \<and> lo \<le> unat port \<and> port \<le> hi \<and>
            (\<exists>row. insertPort row t = Inr t' \<and> WorktreeID row = w \<and> Name row = name \<and> Port row = port))"

lemma allocated_mono: "allocated w name (Suc lo) hi t r t' \<Longrightarrow> allocated w name lo hi t r t'"
  by (auto simp: allocated_def split: sum.splits if_splits)

lemma unat_candidate: "p \<le> unat (hi :: uint16) \<Longrightarrow> unat (of_nat p :: uint16) = p"
  by (rule le_unat_uoi)

lemma allocateFrom_alone:
  fixes os repo w name spec used p s
  defines "r \<equiv> allocateFrom os repo w name spec used p s"
  shows "alone s \<longrightarrow> alone (snd r) \<and> allocated w name p (Max spec) (tables s) (fst r) (tables (snd r))"
  unfolding r_def
proof (rule allocateFrom_induct [where P = "\<lambda>p s r. alone s \<longrightarrow> alone (snd r) \<and>
      allocated w name p (Max spec) (tables s) (fst r) (tables (snd r))"], goal_cases)
  case (1 p s)
  then show ?case by (simp add: allocated_def)
next
  case (2 p s)
  then show ?case by (auto intro: allocated_mono)
next
  case (3 p s s')
  then show ?case
    using AllocateWorktreePort_alone [of s repo w name "of_nat p" None s'] unat_candidate [of p "Max spec"]
    by (simp add: allocated_def word_le_nat_alt)
next
  case (4 p s e s')
  then show ?case using AllocateWorktreePort_fails by (auto simp: allocated_def)
next
  case (5 p s e s1 e' s2)
  then show ?case
    using AllocateWorktreePort_fails [OF _ 5(1)] LookupWorktreePort_alone [OF _ 5(2)]
    by (simp add: allocated_def)
next
  case (6 p s e s1 h s2)
  then show ?case
    using AllocateWorktreePort_fails [OF _ 6(1)] LookupWorktreePort_alone [OF _ 6(2)]
    by (auto simp: allocated_def)
next
  case (7 p s e s1 h s2)
  then show ?case
    using AllocateWorktreePort_fails [OF _ 7(1)] LookupWorktreePort_alone [OF _ 7(2)]
    by (auto intro: allocated_mono)
next
  case (8 p s e s1)
  then show ?case using AllocateWorktreePort_fails [OF _ 8(1)] by (auto intro: allocated_mono)
qed

lemma allocateOne_alone:
  assumes "alone s" "allocateOne os repo w name spec s = (r, s')"
  shows "alone s' \<and> allocated w name (unat (Min spec)) (Max spec) (tables s) r (tables s')"
proof -
  obtain x s1 where l: "ListHeldPorts (Min spec) (Max spec) s = (x, s1)" by force
  then have s1: "alone s1 \<and> tables s1 = tables s"
    using Query_alone [OF assms(1)] by (auto simp: ListHeldPorts_def split: prod.splits sum.splits)
  show ?thesis
    using assms(2) l s1 allocateFrom_alone [of s1 os repo w name spec "projr x" "unat (Min spec)"]
    by (cases x) (auto simp: allocateOne_def allocated_def [of _ _ _ _ _ "Inl _"])
qed

text \<open>The state of a run: the rows before it, and one row for each slot this call reserved.\<close>

definition added :: "int \<Rightarrow> portTables \<Rightarrow> string list \<Rightarrow> portTables \<Rightarrow> bool" where
  "added w t0 mine t \<longleftrightarrow>
     (\<exists>rs. t = t0\<lparr>worktree_ports := worktree_ports t0 @ rs\<rparr> \<and> map Name rs = mine \<and>
        (\<forall>r \<in> set rs. WorktreeID r = w) \<and> ports_ok t \<and> (mine \<noteq> [] \<longrightarrow> 0 < w) \<and> [] \<notin> set mine)"

lemma added_insert:
  assumes "added w t0 mine t" "insertPort row t = Inr t'" "WorktreeID row = w" "Name row = n" "0 < w" "n \<noteq> []"
  shows "added w t0 (mine @ [n]) t'"
proof -
  from assms(1) obtain rs where rs: "t = t0\<lparr>worktree_ports := worktree_ports t0 @ rs\<rparr>" "map Name rs = mine"
    "\<forall>r \<in> set rs. WorktreeID r = w" "ports_ok t" "[] \<notin> set mine" by (auto simp: added_def)
  with insertPort_row [OF assms(2)] insertPort_ok [OF rs(4) assms(2)] assms(3-) show ?thesis
    unfolding added_def by (intro exI [of _ "rs @ [row]"]) auto
qed

lemma added_release:
  assumes "added w t0 (n # ns) t"
  shows "added w t0 ns (deletePorts (\<lambda>r. WorktreeID r = w \<and> Name r = n) t)"
proof -
  let ?P = "\<lambda>r. \<not> (WorktreeID r = w \<and> Name r = n)"
  from assms obtain r rs where rs: "t = t0\<lparr>worktree_ports := worktree_ports t0 @ r # rs\<rparr>" "Name r = n"
    "map Name rs = ns" "WorktreeID r = w" "\<forall>r \<in> set rs. WorktreeID r = w" "ports_ok t" "[] \<notin> set ns" "0 < w"
    by (auto simp: added_def)
  have "distinct (map (\<lambda>r. (WorktreeID r, Name r)) (worktree_ports t0 @ r # rs))"
    using rs(1,6) by (simp add: ports_ok_def)
  then have keep: "\<forall>q \<in> set (worktree_ports t0) \<union> set rs. ?P q"
    using rs(2,4) by (auto simp: image_iff)
  then have "filter ?P (worktree_ports t0) = worktree_ports t0" "filter ?P rs = rs"
    by (simp_all add: filter_id_conv)
  then have "deletePorts (\<lambda>r. WorktreeID r = w \<and> Name r = n) t = t0\<lparr>worktree_ports := worktree_ports t0 @ rs\<rparr>"
    using rs(1,2,4) by (simp add: deletePorts_def)
  then show ?thesis
    using rs deletePorts_ok [OF rs(6), of "\<lambda>r. WorktreeID r = w \<and> Name r = n"]
    unfolding added_def by (intro exI [of _ rs]) auto
qed

lemma rollBack_join:
  "rollBack w ns (errors_Join a b) s = (e, s') \<Longrightarrow> \<exists>a b. e = errors_Join a b"
  by (induction ns arbitrary: a b s) (auto split: prod.splits option.splits)

lemma rollBack_added:
  "alone s \<Longrightarrow> added w t0 mine (tables s) \<Longrightarrow> rollBack w mine e s = (e', s') \<Longrightarrow>
     tables s' = t0 \<or> (\<exists>a b. e' = errors_Join a b)"
proof (induction mine arbitrary: s)
  case Nil
  then show ?case by (auto simp: added_def)
next
  case (Cons n ns)
  obtain x s1 where rel: "ReleaseWorktreePort w n s = (x, s1)" by force
  have "0 < w" "n \<noteq> []" using Cons.prems(2) by (auto simp: added_def)
  with rel have ex: "Exec applyPortOp (\<lambda>t. Inr (deletePorts (\<lambda>r. WorktreeID r = w \<and> Name r = n) t)) s = (x, s1)"
    by (simp add: ReleaseWorktreePort_def)
  show ?case
  proof (cases x)
    case None
    then have "alone s1 \<and> added w t0 ns (tables s1)"
      using Exec_alone [OF Cons.prems(1) ex] added_release [OF Cons.prems(2)] by simp
    then show ?thesis using Cons.IH [of s1] Cons.prems(3) rel None by simp
  next
    case (Some err)
    then show ?thesis using Cons.prems(3) rel by (auto dest: rollBack_join)
  qed
qed

definition row_for :: "portTables \<Rightarrow> int \<Rightarrow> Allocation \<Rightarrow> bool" where
  "row_for t w a \<longleftrightarrow>
     (\<exists>r \<in> set (worktree_ports t). WorktreeID r = w \<and> Name r = Slot a \<and> Port r = Assigned a)"

lemma row_for_mono:
  "row_for t w a \<Longrightarrow> set (worktree_ports t) \<subseteq> set (worktree_ports t') \<Longrightarrow> row_for t' w a"
  by (auto simp: row_for_def)

lemma map_of_portsOf_row:
  assumes "map_of (portsOf t w) n = Some p"
  shows "row_for t w \<lparr>Slot = n, Assigned = p\<rparr>"
  using map_of_SomeD [OF assms] by (auto simp: portsOf_def row_for_def)

text \<open>An allocation is the port the slot held, or one from the range of a slot that held none.\<close>

definition chosen :: "portsConfig \<Rightarrow> (string \<rightharpoonup> uint16) \<Rightarrow> Allocation \<Rightarrow> bool" where
  "chosen cfg existing a \<longleftrightarrow>
     (case existing (Slot a) of
        Some p \<Rightarrow> Assigned a = p
      | None \<Rightarrow> Min (slotRange cfg (Slot a)) \<le> Assigned a \<and> Assigned a \<le> Max (slotRange cfg (Slot a)))"

lemma added_not_mine:
  assumes "added w t0 mine t" "n \<notin> set mine" "map_of (portsOf t0 w) n = None"
  shows "portOf t w n = 0"
proof -
  from assms(1) obtain rs where rs: "t = t0\<lparr>worktree_ports := worktree_ports t0 @ rs\<rparr>" "map Name rs = mine"
    by (auto simp: added_def)
  have "n \<notin> Name ` set rs" using assms(2) rs(2) by (metis list.set_map)
  moreover have "\<not> (WorktreeID r = w \<and> Name r = n)" if "r \<in> set (worktree_ports t0)" for r
    using assms(3) that by (force simp: map_of_eq_None_iff portsOf_def)
  ultimately show ?thesis by (intro portOf_none) (auto simp: rs(1))
qed

definition slots_done ::
  "portsConfig \<Rightarrow> int \<Rightarrow> portTables \<Rightarrow> portTables \<Rightarrow> string list \<Rightarrow> Allocation list \<Rightarrow> Allocation list \<Rightarrow> portTables \<Rightarrow> bool" where
  "slots_done cfg w t0 t names out out' t' \<longleftrightarrow>
     (\<exists>new mine'. out' = out @ new \<and> added w t0 mine' t' \<and>
        set (worktree_ports t) \<subseteq> set (worktree_ports t') \<and> map Slot new = names \<and>
        (\<forall>a \<in> set new. row_for t' w a \<and> chosen cfg (map_of (portsOf t0 w)) a))"

lemma slots_done_Cons:
  assumes "slots_done cfg w t0 t1 names (out @ [a]) out' t'" "row_for t1 w a"
    "chosen cfg (map_of (portsOf t0 w)) a" "set (worktree_ports t) \<subseteq> set (worktree_ports t1)"
  shows "slots_done cfg w t0 t (Slot a # names) out out' t'"
proof -
  from assms(1) obtain new mine' where n: "out' = out @ a # new" "added w t0 mine' t'"
    "set (worktree_ports t1) \<subseteq> set (worktree_ports t')" "map Slot new = names"
    "\<forall>a \<in> set new. row_for t' w a \<and> chosen cfg (map_of (portsOf t0 w)) a"
    by (auto simp: slots_done_def)
  then show ?thesis
    using assms(2-) row_for_mono [OF assms(2) n(3)] unfolding slots_done_def
    by (intro exI [of _ "a # new"] exI [of _ mine']) auto
qed

lemma allocateSlots_alone:
  assumes "alone s" "added w t0 mine (tables s)" "distinct names" "set names \<inter> set mine = {}"
    and "allocateSlots os cfg repo w (map_of (portsOf t0 w)) names out mine s = (r, s')"
  shows "case r of
      Inl e \<Rightarrow> tables s' = t0 \<or> (\<exists>a b. e = errors_Join a b)
    | Inr out' \<Rightarrow> slots_done cfg w t0 (tables s) names out out' (tables s')"
  using assms
proof (induction names arbitrary: out mine s)
  case Nil
  then show ?case by (auto simp: slots_done_def)
next
  case (Cons name names)
  let ?ex = "map_of (portsOf t0 w)"
  show ?case
  proof (cases "?ex name")
    case (Some port)
    let ?a = "\<lparr>Slot = name, Assigned = port\<rparr>"
    have t0: "set (worktree_ports t0) \<subseteq> set (worktree_ports (tables s))"
      using Cons.prems(2) by (auto simp: added_def)
    have "row_for (tables s) w ?a" using row_for_mono [OF map_of_portsOf_row [OF Some] t0] .
    then show ?thesis
      using Cons.IH [of s mine "out @ [?a]"] Cons.prems Some slots_done_Cons [of cfg w t0 "tables s" names out ?a]
      by (auto simp: chosen_def split: sum.splits)
  next
    case None
    obtain x s1 where one: "allocateOne os repo w name (slotRange cfg name) s = (x, s1)" by force
    note al = allocateOne_alone [OF Cons.prems(1) one]
    show ?thesis
    proof (cases x)
      case (Inl e)
      then have "tables s1 = tables s" using al by (simp add: allocated_def)
      then show ?thesis
        using rollBack_added [of s1 w t0 mine] al Cons.prems(2,5) None one Inl by (auto split: prod.splits)
    next
      case (Inr pr)
      obtain port reused where pr: "pr = (port, reused)" by (cases pr)
      let ?a = "\<lparr>Slot = name, Assigned = port\<rparr>"
      have "portOf (tables s) w name = 0"
        using Cons.prems(2,4) None by (intro added_not_mine [of w t0 mine]) auto
      then have new: "\<not> reused" using al Inr pr by (auto simp: allocated_def)
      then obtain row where row: "insertPort row (tables s) = Inr (tables s1)" "WorktreeID row = w"
        "Name row = name" "Port row = port" "0 < w" "name \<noteq> []" "unat (Min (slotRange cfg name)) \<le> unat port"
        "port \<le> Max (slotRange cfg name)"
        using al Inr pr by (auto simp: allocated_def)
      have step: "added w t0 (mine @ [name]) (tables s1)"
        using Cons.prems(2) row(1-3,5,6) by (rule added_insert)
      have "row_for (tables s1) w ?a" "set (worktree_ports (tables s)) \<subseteq> set (worktree_ports (tables s1))"
        using insertPort_row [OF row(1)] row(2-4) by (auto simp: row_for_def)
      then show ?thesis
        using Cons.IH [of s1 "mine @ [name]" "out @ [?a]"] Cons.prems(3-5) al step new None one Inr pr row(7,8)
          slots_done_Cons [of cfg w t0 "tables s1" names out ?a]
        by (auto simp: chosen_def word_le_nat_alt split: sum.splits)
    qed
  qed
qed

text \<open>The ports of a range that no row holds and the host lets us bind, in order.\<close>

definition freePorts :: "hostPorts \<Rightarrow> string \<Rightarrow> portTables \<Rightarrow> nat \<Rightarrow> nat \<Rightarrow> uint16 list" where
  "freePorts os name t lo hi =
     filter (\<lambda>p. p \<notin> Port ` set (worktree_ports t) \<and> portFree (os name p)) (map of_nat [lo ..< Suc hi])"

definition first_free :: "string \<Rightarrow> PortRange \<Rightarrow> uint16 list \<Rightarrow> go_error + (uint16 \<times> bool)" where
  "first_free name spec ps = (case ps of [] \<Rightarrow> Inl (exhausted name spec) | p # _ \<Rightarrow> Inr (p, False))"

definition slot_ready :: "int \<Rightarrow> int \<Rightarrow> string \<Rightarrow> portTables \<Rightarrow> bool" where
  "slot_ready repo w name t \<longleftrightarrow>
     0 < repo \<and> 0 < w \<and> name \<noteq> [] \<and> repo \<in> set (repos t) \<and> w \<in> fst ` set (worktrees t) \<and>
     portOf t w name = 0"

lemma allocateFrom_quiet:
  assumes "quiet s" "ports_ok (tables s)" "slot_ready repo w name (tables s)" "0 < Min spec"
    and "unat (Min spec) \<le> p"
  shows "fst (allocateFrom os repo w name spec (heldIn (Min spec) (Max spec) (tables s)) p s) =
           first_free name spec (freePorts os name (tables s) p (unat (Max spec)))"
  using assms(5)
proof (induction "Suc (unat (Max spec)) - p" arbitrary: p)
  case 0
  then show ?case by (simp add: allocateFrom.simps first_free_def freePorts_def)
next
  case (Suc k)
  let ?c = "of_nat p :: uint16"
  let ?used = "heldIn (Min spec) (Max spec) (tables s)"
  have p: "p \<le> unat (Max spec)" using Suc(2) by simp
  have c: "unat ?c = p" using unat_candidate [OF p] .
  have upt: "[p ..< Suc (unat (Max spec))] = p # [Suc p ..< Suc (unat (Max spec))]"
    using p by (intro upt_conv_Cons) simp
  have used: "?c \<in> set ?used \<longleftrightarrow> ?c \<in> Port ` set (worktree_ports (tables s))"
    using Suc(3) p c by (auto simp: heldIn_def word_le_nat_alt)
  have c0: "?c \<noteq> 0" using c Suc(3) assms(4) by (metis leD unat_0 word_less_nat_alt)
  have ih: "fst (allocateFrom os repo w name spec ?used (Suc p) s) =
      first_free name spec (freePorts os name (tables s) (Suc p) (unat (Max spec)))"
    using Suc(2,3) by (intro Suc(1)) simp_all
  show ?case
  proof (cases "?c \<in> set ?used \<or> \<not> portFree (os name ?c)")
    case True
    then have "allocateFrom os repo w name spec ?used p s = allocateFrom os repo w name spec ?used (Suc p) s"
      using p by (subst allocateFrom.simps) (auto simp: Let_def)
    with ih True used show ?thesis by (auto simp: freePorts_def upt simp del: upt_Suc)
  next
    case False
    then obtain s' where "AllocateWorktreePort repo w name ?c s = (None, s')"
      using AllocateWorktreePort_quiet [OF assms(1,2), of repo w name ?c] assms(3) used c0
      by (auto simp: slot_ready_def)
    then have "fst (allocateFrom os repo w name spec ?used p s) = Inr (?c, False)"
      using False p by (subst allocateFrom.simps) (simp add: Let_def)
    with False used show ?thesis by (simp add: freePorts_def upt first_free_def del: upt_Suc)
  qed
qed

lemma Allocate_alone:
  assumes "alone s" "ports_ok (tables s)" "distinct (map fst cfg)" "0 < w" "Allocate os cfg repo w s = (r, s')"
  shows "case r of
      Inl e \<Rightarrow> tables s' = tables s \<or> (\<exists>a b. e = errors_Join a b)
    | Inr out \<Rightarrow> slots_done cfg w (tables s) (tables s) (PortSlotNames cfg) [] out (tables s')"
proof -
  obtain x s1 where l: "LoadWorktreePorts w s = (x, s1)" by force
  then have q: "alone s1 \<and> tables s1 = tables s \<and> (\<forall>m. x = Inr m \<longrightarrow> m = map_of (portsOf (tables s) w))"
    using Query_alone [OF assms(1), of applyPortOp "\<lambda>t. map_of (portsOf t w)" x s1] assms(4)
    by (simp add: LoadWorktreePorts_def)
  have start: "added w (tables s) [] (tables s1)" using q assms(2) by (simp add: added_def)
  have "distinct (PortSlotNames cfg)" using assms(3) by (simp add: PortSlotNames_def)
  note run = allocateSlots_alone [OF _ start this, of os cfg repo "[]" r s']
  show ?thesis
  proof (cases "PortSlotNames cfg = []")
    case True
    then show ?thesis using assms(5) start q by (auto simp: Allocate_def slots_done_def)
  next
    case False
    then show ?thesis using run assms(5) l q by (cases x) (auto simp: Allocate_def split: sum.splits)
  qed
qed

lemma row_for_portOf: "ports_ok t \<Longrightarrow> row_for t w a \<Longrightarrow> portOf t w (Slot a) = Assigned a"
  by (auto simp: row_for_def dest: portOf_row)

lemma row_for_inj:
  assumes "ports_ok t" "row_for t w a" "row_for t w b" "Assigned a = Assigned b"
  shows "a = b"
proof -
  from assms obtain r q where rq: "r \<in> set (worktree_ports t)" "q \<in> set (worktree_ports t)" "Port r = Port q"
    "Name r = Slot a" "Name q = Slot b" by (auto simp: row_for_def)
  have "inj_on Port (set (worktree_ports t))" using assms(1) by (simp add: ports_ok_def distinct_map)
  then have "r = q" using rq(1-3) by (simp add: inj_on_def)
  then show ?thesis using rq assms(4) by simp
qed

text \<open>A small instance: one worktree, two slots that fight for one port, a host with every port free.\<close>

definition sample_ports :: portDB where
  "sample_ports =
     \<lparr>tables = \<lparr>worktree_ports = [], repos = [1], worktrees = [(1, None)]\<rparr>, clock = 0, script = []\<rparr>"

definition open_host :: hostPorts where
  "open_host = (\<lambda>_ _. \<lparr>listen = (\<lambda>_. None), afterDeadline = (\<lambda>_. False)\<rparr>)"

definition sample_cfg :: portsConfig where
  "sample_cfg = [(''b'', \<lparr>Min = 80, Max = 80\<rparr>), (''a'', \<lparr>Min = 80, Max = 81\<rparr>)]"

lemma sample_ports_ok: "alone sample_ports" "quiet sample_ports" "ports_ok (tables sample_ports)"
  by (simp_all add: sample_ports_def alone_def quiet_def ports_ok_def)

section \<open>Properties\<close>

text \<open>
  Whatever other processes write to the tables in between, and whichever statements fail, after
  an allocation no two reservations share a port, no worktree holds a slot twice and no reserved
  port is zero, if that was so before.
\<close>

theorem allocate_keeps_ports_unique:
  assumes "ports_ok (tables s)" "Allocate os cfg repo w s = (r, s')"
  shows "ports_ok (tables s')"
proof -
  obtain x s1 where l: "LoadWorktreePorts w s = (x, s1)" by force
  then have "ports_ok (tables s1)" using assms(1) by (rule LoadWorktreePorts_ok [rotated])
  then show ?thesis
    using assms l by (auto simp: Allocate_def split: if_splits sum.splits dest: allocateSlots_ok)
qed

lemma allocate_keeps_ports_unique_witness:
  "ports_ok (tables (snd (Allocate open_host sample_cfg 1 1
     (sample_ports\<lparr>script := [\<lparr>others = [], tick = 1, fault = None\<rparr>, \<lparr>others = [OpInsert
        \<lparr>WorktreeID = 1, RepoID = 1, Name = ''a'', Port = 81, AllocatedAt = 0\<rparr>], tick = 1, fault = None\<rparr>]\<rparr>))))"
  by (rule allocate_keeps_ports_unique [OF _ prod.collapse [symmetric]]) (simp add: sample_ports_ok)

text \<open>
  C32: When nobody else writes, an allocation that fails leaves the reservations exactly as they were,
  or says in its error that a roll back failed; the ports the worktree already held are never lost.
\<close>

theorem allocate_rolls_back:
  assumes "alone s" "ports_ok (tables s)" "distinct (map fst cfg)" "0 < w"
    "Allocate os cfg repo w s = (Inl e, s')"
  shows "tables s' = tables s \<or> (\<exists>a b. e = errors_Join a b)"
  using Allocate_alone [OF assms] by simp

lemma allocate_rolls_back_witness:
  "\<exists>e s'. Allocate open_host sample_cfg 1 1 sample_ports = (Inl e, s') \<and>
     (tables s' = tables sample_ports \<or> (\<exists>a b. e = errors_Join a b))"
proof -
  have "isl (fst (Allocate open_host sample_cfg 1 1 sample_ports))" by code_simp
  then obtain e s' where run: "Allocate open_host sample_cfg 1 1 sample_ports = (Inl e, s')"
    by (metis isl_def prod.collapse)
  then show ?thesis
    using allocate_rolls_back [OF sample_ports_ok(1,3) _ _ run] by (simp add: sample_cfg_def)
qed

text \<open>
  C31: When nobody else writes, a successful allocation of distinct slots for a worktree returns one port per slot in the order of the
  slot names, no two the same, and the store then holds each of them for its slot.  A slot that held a port
  keeps it, and any other gets one from its own range that no reservation of any worktree held.  Reservations are only added,
  and only ones of this worktree.
\<close>

theorem allocate_result:
  assumes "alone s" "ports_ok (tables s)" "distinct (map fst cfg)" "0 < w"
    "Allocate os cfg repo w s = (Inr out, s')"
  shows "map Slot out = PortSlotNames cfg \<and> distinct (map Assigned out) \<and>
    (\<forall>a \<in> set out. portOf (tables s') w (Slot a) = Assigned a \<and>
       (if portOf (tables s) w (Slot a) = 0
        then Min (slotRange cfg (Slot a)) \<le> Assigned a \<and> Assigned a \<le> Max (slotRange cfg (Slot a)) \<and>
          Assigned a \<notin> Port ` set (worktree_ports (tables s))
        else Assigned a = portOf (tables s) w (Slot a))) \<and>
    (\<exists>rs. worktree_ports (tables s') = worktree_ports (tables s) @ rs \<and> list_all (\<lambda>r. WorktreeID r = w) rs)"
proof -
  from Allocate_alone [OF assms] obtain mine where out: "map Slot out = PortSlotNames cfg"
    "added w (tables s) mine (tables s')" and
    rows: "\<And>a. a \<in> set out \<Longrightarrow> row_for (tables s') w a \<and> chosen cfg (map_of (portsOf (tables s) w)) a"
    by (auto simp: slots_done_def)
  have ok: "ports_ok (tables s')" using out(2) by (auto simp: added_def)
  have "distinct (map Slot out)" using out(1) assms(3) by (simp add: PortSlotNames_def)
  then have "distinct out" by (simp add: distinct_map)
  moreover have "inj_on Assigned (set out)" using rows row_for_inj [OF ok] by (intro inj_onI) blast
  ultimately have "distinct (map Assigned out)" by (simp add: distinct_map)
  moreover from out(2) obtain rs where rs: "worktree_ports (tables s') = worktree_ports (tables s) @ rs" "\<forall>r \<in> set rs. WorktreeID r = w"
    by (auto simp: added_def)
  have new: "Assigned a \<notin> Port ` set (worktree_ports (tables s))" if a: "a \<in> set out" "portOf (tables s) w (Slot a) = 0" for a
  proof -
    obtain row where row: "row \<in> set (worktree_ports (tables s'))" "WorktreeID row = w" "Name row = Slot a" "Port row = Assigned a"
      using rows [OF a(1)] by (auto simp: row_for_def)
    have "row \<notin> set (worktree_ports (tables s))"
    proof
      assume old: "row \<in> set (worktree_ports (tables s))"
      then have "row_for (tables s) w a" using row by (auto simp: row_for_def)
      then have "Port row = 0" using row_for_portOf [OF assms(2)] a(2) row(4) by simp
      then show False using old assms(2) by (auto simp: ports_ok_def list_all_iff)
    qed
    then have "row \<in> set rs" using row(1) rs(1) by auto
    then have "Assigned a \<in> Port ` set rs" using row(4) by (metis imageI)
    moreover have "Port ` set (worktree_ports (tables s)) \<inter> Port ` set rs = {}" using ok rs(1) by (simp add: ports_ok_def)
    ultimately show ?thesis by blast
  qed
  have "portOf (tables s') w (Slot a) = Assigned a \<and>
       (if portOf (tables s) w (Slot a) = 0
        then Min (slotRange cfg (Slot a)) \<le> Assigned a \<and> Assigned a \<le> Max (slotRange cfg (Slot a)) \<and>
          Assigned a \<notin> Port ` set (worktree_ports (tables s))
        else Assigned a = portOf (tables s) w (Slot a))" if "a \<in> set out" for a
    using rows [OF that] new [OF that] row_for_portOf [OF ok] map_of_portsOf [OF assms(2), of w "Slot a"]
    by (auto simp: chosen_def word_gt_0 split: if_splits)
  ultimately show ?thesis using out(1) rs by (auto simp: list_all_iff)
qed

lemma allocate_result_witness:
  "\<exists>out s'. Allocate open_host [(''a'', \<lparr>Min = 80, Max = 81\<rparr>)] 1 1 sample_ports = (Inr out, s') \<and>
     map Slot out = [''a''] \<and> list_all (\<lambda>a. 80 \<le> Assigned a \<and> Assigned a \<le> 81) out"
proof -
  let ?cfg = "[(''a'', \<lparr>Min = 80, Max = 81\<rparr>)]"
  have "\<not> isl (fst (Allocate open_host ?cfg 1 1 sample_ports))" by code_simp
  then obtain out s' where run: "Allocate open_host ?cfg 1 1 sample_ports = (Inr out, s')"
    by (metis isl_def prod.collapse sum.collapse(2))
  have "portOf (tables sample_ports) 1 n = 0" for n by (simp add: sample_ports_def portOf_def)
  moreover have "Slot a = ''a''" if "map Slot out = [''a'']" "a \<in> set out" for a
    using that by auto
  ultimately show ?thesis
    using allocate_result [OF sample_ports_ok(1,3) _ _ run] run
    by (auto simp: PortSlotNames_def slotRange_def list_all_iff)
qed

text \<open>
  C17: With nothing interfering and nothing failing, the scan of a slot takes the first port of its
  range that no reservation holds and the host can bind, and reports the range as exhausted exactly
  when there is none; the scan always ends, also for a range up to 65535.  The slot is not held yet, its repository and
  worktree are known to the store, and the range does not start at zero.
\<close>

theorem allocateOne_first_free:
  assumes "quiet s" "ports_ok (tables s)" "slot_ready repo w name (tables s)" "0 < Min spec"
  shows "fst (allocateOne os repo w name spec s) =
    first_free name spec (freePorts os name (tables s) (unat (Min spec)) (unat (Max spec)))"
proof -
  obtain s1 where "ListHeldPorts (Min spec) (Max spec) s = (Inr (heldIn (Min spec) (Max spec) (tables s)), s1)"
    "quiet s1" "tables s1 = tables s"
    using Query_quiet [OF assms(1), of applyPortOp "heldIn (Min spec) (Max spec)"] by (auto simp: ListHeldPorts_def)
  then show ?thesis
    using allocateFrom_quiet [of s1 repo w name spec "unat (Min spec)" os] assms by (simp add: allocateOne_def)
qed

lemma allocateOne_first_free_witness:
  "fst (allocateOne open_host 1 1 ''a'' \<lparr>Min = 80, Max = 81\<rparr> sample_ports) = Inr (80, False)"
proof -
  have "slot_ready 1 1 ''a'' (tables sample_ports)" by code_simp
  moreover have "first_free ''a'' \<lparr>Min = 80, Max = 81\<rparr> (freePorts open_host ''a'' (tables sample_ports) 80 81) =
      Inr (80, False)" by code_simp
  ultimately show ?thesis
    using allocateOne_first_free [OF sample_ports_ok(2,3), of 1 1 "''a''" "\<lparr>Min = 80, Max = 81\<rparr>" open_host] by simp
qed

end
