(* ===== verification/Engine.thy ===== *)
theory Engine
  imports Prelude
begin

text \<open>
  The engine families of \<open>internal/engine/engine.go\<close>: the accepted engine names, the family each
  belongs to and how a family scopes its data.
\<close>

section \<open>Model\<close>

datatype Family = FamilyMySQL | FamilyPostgres | FamilyMongo | FamilyRedis | FamilyES | FamilyS3 | FamilyFile

definition Known :: "string list" where
  "Known =
    [''mysql'', ''mariadb'', ''tidb'',
     ''postgres'', ''postgresql'',
     ''mongodb'',
     ''redis'', ''valkey'', ''dragonfly'',
     ''elasticsearch'', ''opensearch'',
     ''s3'',
     ''sqlite'', ''duckdb'']"

definition KnownList :: string where
  "KnownList = foldr (\<lambda>n acc. if acc = [] then n else n @ '', '' @ acc) Known []"

definition Canonical :: "string \<Rightarrow> Family option" where
  "Canonical eng =
     (if eng \<in> set [''mysql'', ''mariadb'', ''tidb''] then Some FamilyMySQL
      else if eng \<in> set [''postgres'', ''postgresql''] then Some FamilyPostgres
      else if eng = ''mongodb'' then Some FamilyMongo
      else if eng \<in> set [''redis'', ''valkey'', ''dragonfly''] then Some FamilyRedis
      else if eng \<in> set [''elasticsearch'', ''opensearch''] then Some FamilyES
      else if eng = ''s3'' then Some FamilyS3
      else if eng \<in> set [''sqlite'', ''duckdb''] then Some FamilyFile
      else None)"

text \<open>The label of a family, the string constant of the source.\<close>

fun label :: "Family \<Rightarrow> string" where
  "label FamilyMySQL = ''mysql''"
| "label FamilyPostgres = ''postgres''"
| "label FamilyMongo = ''mongodb''"
| "label FamilyRedis = ''redis''"
| "label FamilyES = ''elasticsearch''"
| "label FamilyS3 = ''s3''"
| "label FamilyFile = ''file''"

datatype FamilyScope = ScopeName | ScopePrefix

definition Family_Scope :: "Family \<Rightarrow> FamilyScope" where
  "Family_Scope f = (if f \<in> set [FamilyRedis, FamilyES, FamilyS3] then ScopePrefix else ScopeName)"

section \<open>Properties\<close>

text \<open>
  The allow list and the alias mapping agree: an engine name has a family exactly when it is in
  \<open>Known\<close>, every family but the file-backed one is the family of its own label, and the label
  \<open>file\<close> is not an accepted engine name.
\<close>

theorem canonical_iff_known:
  "(Canonical eng \<noteq> None \<longleftrightarrow> eng \<in> set Known) \<and>
   (Canonical (label f) = (if f = FamilyFile then None else Some f))"
  by (cases f) (simp_all add: Canonical_def Known_def)

end
