(* ===== verification/Action.thy ===== *)
theory Action
  imports Prelude
begin

text \<open>
  Go functions that change a state and may return an error: an action gives the error or the value,
  and the state in both cases.  \<open>wp\<close> is its weakest precondition, for a postcondition on the value
  and one on the error.
\<close>

section \<open>Model\<close>

type_synonym ('s, 'a) action = "'s \<Rightarrow> (go_error + 'a) \<times> 's"

definition returnA :: "'a \<Rightarrow> ('s, 'a) action" where
  "returnA x s = (Inr x, s)"

definition raiseA :: "go_error \<Rightarrow> ('s, 'a) action" where
  "raiseA e s = (Inl e, s)"

text \<open>\<open>x, err := m(); if err != nil { return err }\<close>\<close>

definition bindA :: "('s, 'a) action \<Rightarrow> ('a \<Rightarrow> ('s, 'b) action) \<Rightarrow> ('s, 'b) action" where
  "bindA m f s = (case m s of (Inl e, s') \<Rightarrow> (Inl e, s') | (Inr x, s') \<Rightarrow> f x s')"

text \<open>\<open>x, err := m()\<close> with the error as a value to inspect.\<close>

definition tryA :: "('s, 'a) action \<Rightarrow> ('s, go_error + 'a) action" where
  "tryA m s = (case m s of (r, s') \<Rightarrow> (Inr r, s'))"

text \<open>\<open>fmt.Errorf("...%w", err)\<close> around the error of an action.\<close>

definition wrapA :: "(go_error \<Rightarrow> go_error) \<Rightarrow> ('s, 'a) action \<Rightarrow> ('s, 'a) action" where
  "wrapA f m s = (case m s of (r, s') \<Rightarrow> (map_sum f id r, s'))"

text \<open>\<open>_ = m()\<close>\<close>

definition ignoreA :: "('s, 'a) action \<Rightarrow> ('s, unit) action" where
  "ignoreA m s = (Inr (), snd (m s))"

definition readA :: "('s \<Rightarrow> 'a) \<Rightarrow> ('s, 'a) action" where
  "readA f s = (Inr (f s), s)"

definition modifyA :: "('s \<Rightarrow> 's) \<Rightarrow> ('s, unit) action" where
  "modifyA f s = (Inr (), f s)"

definition optionA :: "('s \<Rightarrow> go_error option \<times> 's) \<Rightarrow> ('s, unit) action" where
  "optionA m s = (case m s of (None, s') \<Rightarrow> (Inr (), s') | (Some e, s') \<Rightarrow> (Inl e, s'))"

fun forA :: "('x \<Rightarrow> ('s, unit) action) \<Rightarrow> 'x list \<Rightarrow> ('s, unit) action" where
  "forA f [] = returnA ()"
| "forA f (x # xs) = bindA (f x) (\<lambda>_. forA f xs)"

section \<open>Weakest preconditions\<close>

definition wp :: "('s, 'a) action \<Rightarrow> ('a \<Rightarrow> 's \<Rightarrow> bool) \<Rightarrow> (go_error \<Rightarrow> 's \<Rightarrow> bool) \<Rightarrow> 's \<Rightarrow> bool" where
  "wp m Q E s = (case m s of (Inr x, s') \<Rightarrow> Q x s' | (Inl e, s') \<Rightarrow> E e s')"

named_theorems wp_rules

lemma wp_returnA [wp_rules]: "wp (returnA x) Q E s = Q x s"
  by (simp add: wp_def returnA_def)

lemma wp_raiseA [wp_rules]: "wp (raiseA e) Q E s = E e s"
  by (simp add: wp_def raiseA_def)

lemma wp_bindA [wp_rules]: "wp (bindA m f) Q E s = wp m (\<lambda>x. wp (f x) Q E) E s"
  by (simp add: wp_def bindA_def split: sum.splits prod.splits)

lemma wp_tryA [wp_rules]: "wp (tryA m) Q E s = wp m (\<lambda>x. Q (Inr x)) (\<lambda>e. Q (Inl e)) s"
  by (cases "m s"; cases "fst (m s)") (auto simp: wp_def tryA_def)

lemma wp_wrapA [wp_rules]: "wp (wrapA f m) Q E s = wp m Q (\<lambda>e. E (f e)) s"
  by (cases "m s"; cases "fst (m s)") (auto simp: wp_def wrapA_def)

lemma wp_ignoreA [wp_rules]: "wp (ignoreA m) Q E s = wp m (\<lambda>_. Q ()) (\<lambda>_. Q ()) s"
  by (simp add: wp_def ignoreA_def split: sum.splits prod.splits)

lemma wp_readA [wp_rules]: "wp (readA f) Q E s = Q (f s) s"
  by (simp add: wp_def readA_def)

lemma wp_modifyA [wp_rules]: "wp (modifyA f) Q E s = Q () (f s)"
  by (simp add: wp_def modifyA_def)

lemma wp_optionA [wp_rules]:
  "wp (optionA m) Q E s = (case m s of (None, s') \<Rightarrow> Q () s' | (Some e, s') \<Rightarrow> E e s')"
  by (simp add: wp_def optionA_def split: option.splits prod.splits)

lemma wp_if [wp_rules]: "wp (if b then m else n) Q E s = (if b then wp m Q E s else wp n Q E s)"
  by simp

lemma wp_option [wp_rules]:
  "wp (case x of None \<Rightarrow> m | Some y \<Rightarrow> f y) Q E s = (case x of None \<Rightarrow> wp m Q E s | Some y \<Rightarrow> wp (f y) Q E s)"
  by (cases x) auto

lemma wp_sum [wp_rules]:
  "wp (case x of Inl a \<Rightarrow> f a | Inr b \<Rightarrow> g b) Q E s = (case x of Inl a \<Rightarrow> wp (f a) Q E s | Inr b \<Rightarrow> wp (g b) Q E s)"
  by (cases x) auto

lemma wp_prod [wp_rules]: "wp (case x of (a, b) \<Rightarrow> f a b) Q E s = (case x of (a, b) \<Rightarrow> wp (f a b) Q E s)"
  by (cases x) auto

lemma wp_mono:
  assumes "wp m Q E s" "\<And>x s'. Q x s' \<Longrightarrow> Q' x s'" "\<And>e s'. E e s' \<Longrightarrow> E' e s'"
  shows "wp m Q' E' s"
  using assms by (auto simp: wp_def split: sum.splits prod.splits)

lemma wp_conj: "wp m Q E s \<Longrightarrow> wp m Q' E' s \<Longrightarrow> wp m (\<lambda>x s. Q x s \<and> Q' x s) (\<lambda>e s. E e s \<and> E' e s) s"
  by (auto simp: wp_def split: sum.splits prod.splits)

lemma wp_result: "wp m Q E s \<Longrightarrow> m s = (Inr x, s') \<Longrightarrow> Q x s'"
  by (simp add: wp_def)

lemma wp_error: "wp m Q E s \<Longrightarrow> m s = (Inl e, s') \<Longrightarrow> E e s'"
  by (simp add: wp_def)

lemma wp_total: "(\<And>r s'. m s = (r, s') \<Longrightarrow> (case r of Inr x \<Rightarrow> Q x s' | Inl e \<Rightarrow> E e s')) \<Longrightarrow> wp m Q E s"
  by (auto simp: wp_def split: sum.splits prod.splits)

section \<open>Successful runs\<close>

named_theorems run_rules

lemma bindA_Inr [run_rules]:
  "bindA m f s = (Inr x, s') \<longleftrightarrow> (\<exists>y s1. m s = (Inr y, s1) \<and> f y s1 = (Inr x, s'))"
  by (auto simp: bindA_def split: sum.splits prod.splits)

lemma tryA_Inr [run_rules]: "tryA m s = (Inr r, s') \<longleftrightarrow> m s = (r, s')"
  by (auto simp: tryA_def split: prod.splits)

lemma wrapA_Inr [run_rules]: "wrapA f m s = (Inr x, s') \<longleftrightarrow> m s = (Inr x, s')"
  by (cases "m s"; cases "fst (m s)") (auto simp: wrapA_def)

lemma returnA_Inr [run_rules]: "returnA y s = (Inr x, s') \<longleftrightarrow> x = y \<and> s' = s"
  by (auto simp: returnA_def)

lemma raiseA_Inr [run_rules]: "raiseA e s = (Inr x, s') \<longleftrightarrow> False"
  by (simp add: raiseA_def)

lemma ignoreA_Inr [run_rules]: "ignoreA m s = (Inr x, s') \<longleftrightarrow> (\<exists>r. m s = (r, s'))"
  by (auto simp: ignoreA_def) (metis prod.collapse)

lemma case_sum_Inr [run_rules]:
  "(case y of Inl e \<Rightarrow> f e | Inr x \<Rightarrow> g x) s = r \<longleftrightarrow>
     (\<exists>e. y = Inl e \<and> f e s = r) \<or> (\<exists>x. y = Inr x \<and> g x s = r)"
  by (cases y) auto

lemma case_option_Inr [run_rules]:
  "(case y of None \<Rightarrow> m | Some x \<Rightarrow> f x) s = r \<longleftrightarrow> (y = None \<and> m s = r) \<or> (\<exists>x. y = Some x \<and> f x s = r)"
  by (cases y) auto

lemma if_Inr [run_rules]: "(if b then m else n) s = r \<longleftrightarrow> (b \<and> m s = r) \<or> (\<not> b \<and> n s = r)"
  by auto

section \<open>Relations every action keeps\<close>

text \<open>
  \<open>keeps R m\<close>: the states before and after \<open>m\<close> are related, whether it fails or not.  For a reflexive
  and transitive relation this is closed under all the combinators.
\<close>

definition keeps :: "('s \<Rightarrow> 's \<Rightarrow> bool) \<Rightarrow> ('s, 'a) action \<Rightarrow> bool" where
  "keeps R m \<longleftrightarrow> (\<forall>s. R s (snd (m s)))"

named_theorems keeps_intro

lemma keepsI: "(\<And>s r s'. m s = (r, s') \<Longrightarrow> R s s') \<Longrightarrow> keeps R m"
  by (simp add: keeps_def) (metis prod.collapse)

lemma keepsD: "keeps R m \<Longrightarrow> m s = (r, s') \<Longrightarrow> R s s'"
  by (metis keeps_def snd_conv)

lemma keeps_returnA [keeps_intro]: "reflp R \<Longrightarrow> keeps R (returnA x)"
  by (simp add: keeps_def returnA_def reflp_def)

lemma keeps_raiseA [keeps_intro]: "reflp R \<Longrightarrow> keeps R (raiseA e)"
  by (simp add: keeps_def raiseA_def reflp_def)

lemma keeps_readA [keeps_intro]: "reflp R \<Longrightarrow> keeps R (readA f)"
  by (simp add: keeps_def readA_def reflp_def)

lemma keeps_bindA [keeps_intro]:
  assumes "transp R" "keeps R m" "\<And>x. keeps R (f x)"
  shows "keeps R (bindA m f)"
proof (rule keepsI)
  fix s r s' assume run: "bindA m f s = (r, s')"
  obtain x s1 where m: "m s = (x, s1)" by force
  then have "R s s1" using assms(2) by (rule keepsD [rotated])
  moreover have "x = Inr y \<Longrightarrow> R s1 s'" for y
    using run m keepsD [OF assms(3) [of y]] by (simp add: bindA_def)
  ultimately show "R s s'"
    using run m assms(1) by (cases x) (auto simp: bindA_def dest: transpD)
qed

text \<open>The same, knowing what the first action returned.\<close>

lemma keeps_bindA_run:
  assumes "transp R" "keeps R m" "\<And>x s s'. m s = (Inr x, s') \<Longrightarrow> keeps R (f x)"
  shows "keeps R (bindA m f)"
proof (rule keepsI)
  fix s r s' assume run: "bindA m f s = (r, s')"
  obtain x s1 where m: "m s = (x, s1)" by force
  have first: "R s s1" using assms(2) m by (rule keepsD)
  show "R s s'"
  proof (cases x)
    case (Inr y)
    then have "R s1 s'" using run m keepsD [OF assms(3)] by (simp add: bindA_def)
    then show ?thesis using first assms(1) by (blast dest: transpD)
  qed (use run m first in \<open>simp add: bindA_def\<close>)
qed

lemma keeps_tryA [keeps_intro]: "keeps R m \<Longrightarrow> keeps R (tryA m)"
  by (auto simp: keeps_def tryA_def split: prod.splits) (metis snd_conv)

lemma keeps_wrapA [keeps_intro]: "keeps R m \<Longrightarrow> keeps R (wrapA f m)"
  by (auto simp: keeps_def wrapA_def split: prod.splits) (metis snd_conv)

lemma keeps_ignoreA [keeps_intro]: "keeps R m \<Longrightarrow> keeps R (ignoreA m)"
  by (auto simp: keeps_def ignoreA_def)

lemma keeps_if [keeps_intro]: "(b \<Longrightarrow> keeps R m) \<Longrightarrow> (\<not> b \<Longrightarrow> keeps R n) \<Longrightarrow> keeps R (if b then m else n)"
  by simp

lemma keeps_option [keeps_intro]:
  "(x = None \<Longrightarrow> keeps R m) \<Longrightarrow> (\<And>y. x = Some y \<Longrightarrow> keeps R (f y)) \<Longrightarrow>
     keeps R (case x of None \<Rightarrow> m | Some y \<Rightarrow> f y)"
  by (cases x) auto

lemma keeps_sum [keeps_intro]:
  "(\<And>a. x = Inl a \<Longrightarrow> keeps R (f a)) \<Longrightarrow> (\<And>b. x = Inr b \<Longrightarrow> keeps R (g b)) \<Longrightarrow>
     keeps R (case x of Inl a \<Rightarrow> f a | Inr b \<Rightarrow> g b)"
  by (cases x) auto

lemma keeps_prod [keeps_intro]:
  "(\<And>a b. x = (a, b) \<Longrightarrow> keeps R (f a b)) \<Longrightarrow> keeps R (case x of (a, b) \<Rightarrow> f a b)"
  by (cases x) auto

lemma keeps_forA [keeps_intro]:
  "reflp R \<Longrightarrow> transp R \<Longrightarrow> (\<And>x. keeps R (f x)) \<Longrightarrow> keeps R (forA f xs)"
  by (induction xs) (auto intro: keeps_intro)

lemma keeps_mono: "keeps R m \<Longrightarrow> (\<And>s s'. R s s' \<Longrightarrow> R' s s') \<Longrightarrow> keeps R' m"
  by (auto simp: keeps_def)

lemma keeps_wp: "keeps R m \<Longrightarrow> wp m (\<lambda>_ s'. R s s') (\<lambda>_ s'. R s s') s"
  by (rule wp_total) (auto dest: keepsD split: sum.splits)

end
