(* ===== verification/BranchStore.thy ===== *)
theory BranchStore
  imports Db Engine Action
begin

text \<open>
  The tables behind branch-scoped databases, \<open>internal/store\<close>: the active-branch markers
  (\<open>active_branch.go\<close>), the tracked durable copies (\<open>branch_durables.go\<close>), the migrated fingerprints
  (\<open>branch_migrated.go\<close>), and the worktree and repository rows the swap lifecycle reads
  (\<open>store.go\<close>).
\<close>

section \<open>Model\<close>

record ActiveBranchRow =
  ab_repo :: int
  ab_worktree :: int
  ab_key :: string
  ab_branch :: string
  ab_engine :: string
  ab_updated :: int
  ab_clean :: bool
  ab_watermark :: string

text \<open>\<open>bd_worktree\<close> is 0 for a durable whose worktree row is gone (\<open>ON DELETE SET NULL\<close>).\<close>

record BranchDurableRow =
  bd_repo :: int
  bd_worktree :: int
  bd_engine :: string
  bd_key :: string
  bd_branch :: string
  bd_name :: string
  bd_created :: int
  bd_used :: int

record MigratedRow =
  bm_worktree :: int
  bm_key :: string
  bm_branch :: string
  bm_fingerprint :: string
  bm_updated :: int

record WorktreeRow =
  wt_id :: int
  wt_repo :: int
  wt_path :: string
  wt_slug :: string
  wt_branch :: string
  wt_deleted :: bool
  wt_main :: bool

record branchTables =
  active_branch_db :: "ActiveBranchRow list"
  branch_durables :: "BranchDurableRow list"
  branch_db_migrated :: "MigratedRow list"
  worktree_rows :: "WorktreeRow list"
  repo_rows :: "(int \<times> string) list"

text \<open>\<open>INSERT ... ON CONFLICT(key) DO UPDATE\<close>: replace the row with the same key, or append.\<close>

fun upsertBy :: "('r \<Rightarrow> 'k) \<Rightarrow> ('r \<Rightarrow> 'r) \<Rightarrow> 'r \<Rightarrow> 'r list \<Rightarrow> 'r list" where
  "upsertBy key upd row [] = [row]"
| "upsertBy key upd row (r # rs) = (if key r = key row then upd r # rs else r # upsertBy key upd row rs)"

definition abKey :: "ActiveBranchRow \<Rightarrow> int \<times> string" where
  "abKey r = (ab_worktree r, ab_key r)"

definition bdKey :: "BranchDurableRow \<Rightarrow> int \<times> string" where
  "bdKey r = (bd_repo r, bd_name r)"

definition bmKey :: "MigratedRow \<Rightarrow> int \<times> string \<times> string" where
  "bmKey r = (bm_worktree r, bm_key r, bm_branch r)"

definition foreignKey :: go_error where
  "foreignKey = NewError ''constraint failed: FOREIGN KEY constraint failed (787)''"

definition hasWorktree :: "int \<Rightarrow> branchTables \<Rightarrow> bool" where
  "hasWorktree w t \<longleftrightarrow> w \<in> wt_id ` set (worktree_rows t)"

definition hasRepo :: "int \<Rightarrow> branchTables \<Rightarrow> bool" where
  "hasRepo i t \<longleftrightarrow> i \<in> fst ` set (repo_rows t)"

definition upsertActive :: "ActiveBranchRow \<Rightarrow> branchTables \<Rightarrow> go_error + branchTables" where
  "upsertActive row t =
     (if hasRepo (ab_repo row) t \<and> hasWorktree (ab_worktree row) t then
        Inr (t\<lparr>active_branch_db :=
          upsertBy abKey (\<lambda>r. r\<lparr>ab_branch := ab_branch row, ab_engine := ab_engine row, ab_updated := ab_updated row,
                               ab_clean := ab_clean row, ab_watermark := ab_watermark row\<rparr>)
            row (active_branch_db t)\<rparr>)
      else Inl foreignKey)"

definition upsertDurable :: "BranchDurableRow \<Rightarrow> branchTables \<Rightarrow> go_error + branchTables" where
  "upsertDurable row t =
     (if hasRepo (bd_repo row) t \<and> (0 < bd_worktree row \<longrightarrow> hasWorktree (bd_worktree row) t) then
        Inr (t\<lparr>branch_durables :=
          upsertBy bdKey (\<lambda>r. r\<lparr>bd_worktree := bd_worktree row, bd_engine := bd_engine row, bd_key := bd_key row,
                               bd_branch := bd_branch row, bd_used := bd_used row\<rparr>)
            row (branch_durables t)\<rparr>)
      else Inl foreignKey)"

definition upsertMigrated :: "MigratedRow \<Rightarrow> branchTables \<Rightarrow> go_error + branchTables" where
  "upsertMigrated row t =
     (if hasWorktree (bm_worktree row) t then
        Inr (t\<lparr>branch_db_migrated :=
          upsertBy bmKey (\<lambda>r. r\<lparr>bm_fingerprint := bm_fingerprint row, bm_updated := bm_updated row\<rparr>)
            row (branch_db_migrated t)\<rparr>)
      else Inl foreignKey)"

text \<open>
  What other processes do to these tables between two statements.  Removing a worktree cascades to its
  markers and fingerprints and clears the worktree of its durables; removing a repository removes its
  worktrees and all their rows.
\<close>

datatype branchOp =
    BSetActive ActiveBranchRow
  | BClearActive int string
  | BRecordDurable BranchDurableRow
  | BDeleteDurable int string
  | BSetMigrated MigratedRow
  | BClearMigrated int string
  | BWorktree WorktreeRow
  | BRepo int string
  | BDropWorktree int
  | BDropRepo int

fun applyBranchOp :: "branchOp \<Rightarrow> branchTables \<Rightarrow> branchTables" where
  "applyBranchOp (BSetActive row) t = (case upsertActive row t of Inl e \<Rightarrow> t | Inr t' \<Rightarrow> t')"
| "applyBranchOp (BClearActive w k) t = t\<lparr>active_branch_db := filter (\<lambda>r. abKey r \<noteq> (w, k)) (active_branch_db t)\<rparr>"
| "applyBranchOp (BRecordDurable row) t = (case upsertDurable row t of Inl e \<Rightarrow> t | Inr t' \<Rightarrow> t')"
| "applyBranchOp (BDeleteDurable i n) t = t\<lparr>branch_durables := filter (\<lambda>r. bdKey r \<noteq> (i, n)) (branch_durables t)\<rparr>"
| "applyBranchOp (BSetMigrated row) t = (case upsertMigrated row t of Inl e \<Rightarrow> t | Inr t' \<Rightarrow> t')"
| "applyBranchOp (BClearMigrated w k) t =
     t\<lparr>branch_db_migrated := filter (\<lambda>r. \<not> (bm_worktree r = w \<and> bm_key r = k)) (branch_db_migrated t)\<rparr>"
| "applyBranchOp (BWorktree row) t = t\<lparr>worktree_rows := upsertBy wt_id (\<lambda>_. row) row (worktree_rows t)\<rparr>"
| "applyBranchOp (BRepo i p) t = t\<lparr>repo_rows := upsertBy fst (\<lambda>_. (i, p)) (i, p) (repo_rows t)\<rparr>"
| "applyBranchOp (BDropWorktree w) t =
     t\<lparr>active_branch_db := filter (\<lambda>r. ab_worktree r \<noteq> w) (active_branch_db t),
       branch_durables := map (\<lambda>r. if bd_worktree r = w then r\<lparr>bd_worktree := 0\<rparr> else r) (branch_durables t),
       branch_db_migrated := filter (\<lambda>r. bm_worktree r \<noteq> w) (branch_db_migrated t),
       worktree_rows := filter (\<lambda>r. wt_id r \<noteq> w) (worktree_rows t)\<rparr>"
| "applyBranchOp (BDropRepo i) t =
     (let ws = map wt_id (filter (\<lambda>w. wt_repo w = i) (worktree_rows t))
      in t\<lparr>active_branch_db := filter (\<lambda>r. ab_repo r \<noteq> i \<and> ab_worktree r \<notin> set ws) (active_branch_db t),
           branch_durables := map (\<lambda>r. if bd_worktree r \<in> set ws then r\<lparr>bd_worktree := 0\<rparr> else r)
             (filter (\<lambda>r. bd_repo r \<noteq> i) (branch_durables t)),
           branch_db_migrated := filter (\<lambda>r. bm_worktree r \<notin> set ws) (branch_db_migrated t),
           worktree_rows := filter (\<lambda>w. wt_repo w \<noteq> i) (worktree_rows t),
           repo_rows := filter (\<lambda>r. fst r \<noteq> i) (repo_rows t)\<rparr>)"

type_synonym branchDB = "(branchTables, branchOp) db"

abbreviation execB :: "(branchTables \<Rightarrow> go_error + branchTables) \<Rightarrow> (branchDB, unit) action" where
  "execB stmt \<equiv> optionA (Exec applyBranchOp stmt)"

abbreviation queryB :: "(branchTables \<Rightarrow> 'a) \<Rightarrow> (branchDB, 'a) action" where
  "queryB sel \<equiv> Query applyBranchOp sel"

subsection \<open>Active-branch markers\<close>

definition markerOf :: "int \<Rightarrow> string \<Rightarrow> branchTables \<Rightarrow> ActiveBranchRow option" where
  "markerOf w k t = find (\<lambda>r. abKey r = (w, k)) (active_branch_db t)"

definition ListActiveBranches :: "int \<Rightarrow> (branchDB, ActiveBranchRow list) action" where
  "ListActiveBranches w =
     (if w \<le> 0 then returnA []
      else queryB (\<lambda>t. sort_key ab_key (filter (\<lambda>r. ab_worktree r = w) (active_branch_db t))))"

definition GetActiveBranch :: "int \<Rightarrow> string \<Rightarrow> (branchDB, string option) action" where
  "GetActiveBranch w k = queryB (\<lambda>t. map_option ab_branch (markerOf w k t))"

definition SetActiveBranchClean ::
  "int \<Rightarrow> int \<Rightarrow> string \<Rightarrow> string \<Rightarrow> string \<Rightarrow> bool \<Rightarrow> string \<Rightarrow> (branchDB, unit) action" where
  "SetActiveBranchClean repo w k branch eng clean wm s =
     execB (upsertActive \<lparr>ab_repo = repo, ab_worktree = w, ab_key = k, ab_branch = branch, ab_engine = eng,
       ab_updated = nowMillis s, ab_clean = clean, ab_watermark = (if clean then wm else [])\<rparr>) s"

definition SetActiveBranch :: "int \<Rightarrow> int \<Rightarrow> string \<Rightarrow> string \<Rightarrow> string \<Rightarrow> (branchDB, unit) action" where
  "SetActiveBranch repo w k branch eng s =
     execB (upsertActive \<lparr>ab_repo = repo, ab_worktree = w, ab_key = k, ab_branch = branch, ab_engine = eng,
       ab_updated = nowMillis s, ab_clean = False, ab_watermark = []\<rparr>) s"

definition GetActiveBranchClean :: "int \<Rightarrow> string \<Rightarrow> (branchDB, (bool \<times> string) option) action" where
  "GetActiveBranchClean w k = queryB (\<lambda>t. map_option (\<lambda>r. (ab_clean r, ab_watermark r)) (markerOf w k t))"

definition ClearActiveBranch :: "int \<Rightarrow> string \<Rightarrow> (branchDB, unit) action" where
  "ClearActiveBranch w k =
     execB (\<lambda>t. Inr (t\<lparr>active_branch_db := filter (\<lambda>r. abKey r \<noteq> (w, k)) (active_branch_db t)\<rparr>))"

definition ClearActiveBranchesForWorktree :: "int \<Rightarrow> (branchDB, unit) action" where
  "ClearActiveBranchesForWorktree w =
     execB (\<lambda>t. Inr (t\<lparr>active_branch_db := filter (\<lambda>r. ab_worktree r \<noteq> w) (active_branch_db t)\<rparr>))"

subsection \<open>Durable copies\<close>

definition canonicalLabel :: "string \<Rightarrow> string" where
  "canonicalLabel eng = (case Canonical eng of Some fam \<Rightarrow> label fam | None \<Rightarrow> eng)"

definition RecordBranchDurable :: "BranchDurableRow \<Rightarrow> (branchDB, unit) action" where
  "RecordBranchDurable r s =
     (let now = nowMillis s;
          row = r\<lparr>bd_engine := canonicalLabel (bd_engine r),
                  bd_created := (if bd_created r = 0 then now else bd_created r),
                  bd_used := now,
                  bd_worktree := (if 0 < bd_worktree r then bd_worktree r else 0)\<rparr>
      in execB (upsertDurable row) s)"

definition DeleteBranchDurable :: "int \<Rightarrow> string \<Rightarrow> (branchDB, unit) action" where
  "DeleteBranchDurable repo name =
     execB (\<lambda>t. Inr (t\<lparr>branch_durables := filter (\<lambda>r. bdKey r \<noteq> (repo, name)) (branch_durables t)\<rparr>))"

definition ListAllDurableNamesByEngine :: "string \<Rightarrow> (branchDB, string list) action" where
  "ListAllDurableNamesByEngine eng =
     queryB (\<lambda>t. map bd_name (filter (\<lambda>r. bd_engine r = canonicalLabel eng) (branch_durables t)))"

definition ListBranchDurables :: "int \<Rightarrow> (branchDB, BranchDurableRow list) action" where
  "ListBranchDurables repo =
     (if repo = 0 then returnA []
      else queryB (\<lambda>t. sort_key bd_branch (sort_key bd_name
             (filter (\<lambda>r. bd_repo r = repo) (branch_durables t)))))"

definition TouchBranchDurable :: "int \<Rightarrow> string \<Rightarrow> (branchDB, unit) action" where
  "TouchBranchDurable repo name s =
     execB (\<lambda>t. Inr (t\<lparr>branch_durables :=
       map (\<lambda>r. if bdKey r = (repo, name) then r\<lparr>bd_used := nowMillis s\<rparr> else r) (branch_durables t)\<rparr>)) s"

text \<open>Durables that a marker of the same key and branch mirrors are left out.\<close>

definition mirrored :: "branchTables \<Rightarrow> BranchDurableRow \<Rightarrow> bool" where
  "mirrored t d \<longleftrightarrow>
     list_ex (\<lambda>a. ab_repo a = bd_repo d \<and> ab_key a = bd_key d \<and> ab_branch a = bd_branch d) (active_branch_db t)"

definition unusedSince :: "int \<Rightarrow> int \<Rightarrow> branchTables \<Rightarrow> BranchDurableRow list" where
  "unusedSince repo cutoff t =
     sort_key bd_used (sort_key bd_name
       (filter (\<lambda>d. bd_repo d = repo \<and> bd_used d < cutoff \<and> \<not> mirrored t d) (branch_durables t)))"

definition ListBranchDurablesUnusedSince :: "int \<Rightarrow> int \<Rightarrow> (branchDB, BranchDurableRow list) action" where
  "ListBranchDurablesUnusedSince repo cutoff = queryB (unusedSince repo cutoff)"

subsection \<open>Migrated fingerprints\<close>

definition GetBranchMigrated :: "int \<Rightarrow> string \<Rightarrow> string \<Rightarrow> (branchDB, string option) action" where
  "GetBranchMigrated w k branch =
     queryB (\<lambda>t. map_option bm_fingerprint (find (\<lambda>r. bmKey r = (w, k, branch)) (branch_db_migrated t)))"

definition SetBranchMigrated :: "int \<Rightarrow> string \<Rightarrow> string \<Rightarrow> string \<Rightarrow> (branchDB, unit) action" where
  "SetBranchMigrated w k branch fp s =
     execB (upsertMigrated \<lparr>bm_worktree = w, bm_key = k, bm_branch = branch, bm_fingerprint = fp,
       bm_updated = nowMillis s\<rparr>) s"

definition ClearBranchMigratedForKey :: "int \<Rightarrow> string \<Rightarrow> (branchDB, unit) action" where
  "ClearBranchMigratedForKey w k =
     execB (\<lambda>t. Inr (t\<lparr>branch_db_migrated :=
       filter (\<lambda>r. \<not> (bm_worktree r = w \<and> bm_key r = k)) (branch_db_migrated t)\<rparr>))"

definition ClearBranchMigratedForWorktree :: "int \<Rightarrow> (branchDB, unit) action" where
  "ClearBranchMigratedForWorktree w =
     execB (\<lambda>t. Inr (t\<lparr>branch_db_migrated := filter (\<lambda>r. bm_worktree r \<noteq> w) (branch_db_migrated t)\<rparr>))"

subsection \<open>Worktrees and repositories\<close>

definition noWorktree :: WorktreeRow where
  "noWorktree = \<lparr>wt_id = 0, wt_repo = 0, wt_path = [], wt_slug = [], wt_branch = [], wt_deleted = False, wt_main = False\<rparr>"

definition LookupMainWorktree :: "int \<Rightarrow> (branchDB, WorktreeRow) action" where
  "LookupMainWorktree repo =
     queryB (\<lambda>t.
       case rev (sort_key wt_id
              (filter (\<lambda>w. wt_repo w = repo \<and> wt_main w \<and> \<not> wt_deleted w) (worktree_rows t))) of
         [] \<Rightarrow> noWorktree
       | w # _ \<Rightarrow> w)"

definition ListWorktreesForRepo :: "int \<Rightarrow> (branchDB, WorktreeRow list) action" where
  "ListWorktreesForRepo repo =
     queryB (\<lambda>t. sort_key wt_id (filter (\<lambda>w. wt_repo w = repo) (worktree_rows t)))"

definition RepoPath :: "int \<Rightarrow> (branchDB, string) action" where
  "RepoPath repo =
     (if repo \<le> 0 then returnA []
      else queryB (\<lambda>t. case map_of (repo_rows t) repo of Some p \<Rightarrow> p | None \<Rightarrow> []))"

definition worktreeField :: "(WorktreeRow \<Rightarrow> string) \<Rightarrow> int \<Rightarrow> (branchDB, string) action" where
  "worktreeField f w =
     (if w \<le> 0 then returnA []
      else queryB (\<lambda>t. case find (\<lambda>r. wt_id r = w) (worktree_rows t) of Some r \<Rightarrow> f r | None \<Rightarrow> []))"

definition WorktreePathByID :: "int \<Rightarrow> (branchDB, string) action" where
  "WorktreePathByID = worktreeField wt_path"

definition WorktreeBranch :: "int \<Rightarrow> (branchDB, string) action" where
  "WorktreeBranch = worktreeField wt_branch"

section \<open>Lemmas\<close>

text \<open>A store with no rows, no interference and no failures.\<close>

definition emptyStore :: branchDB where
  "emptyStore = \<lparr>tables = \<lparr>active_branch_db = [], branch_durables = [], branch_db_migrated = [], worktree_rows = [],
     repo_rows = []\<rparr>, clock = 0, script = []\<rparr>"

text \<open>The primary keys hold: one marker per worktree and key, one row per durable, one fingerprint per branch.\<close>

definition keys_ok :: "branchTables \<Rightarrow> bool" where
  "keys_ok t \<longleftrightarrow>
     distinct (map abKey (active_branch_db t)) \<and> distinct (map bdKey (branch_durables t)) \<and>
     distinct (map bmKey (branch_db_migrated t))"

lemma upsertBy_keys:
  assumes "\<And>r. key (upd r) = key r"
  shows "map key (upsertBy key upd row rs) =
    (if key row \<in> key ` set rs then map key rs else map key rs @ [key row])"
  by (induction rs) (auto simp: assms)

lemma upsertBy_distinct:
  "(\<And>r. key (upd r) = key r) \<Longrightarrow> distinct (map key rs) \<Longrightarrow> distinct (map key (upsertBy key upd row rs))"
  by (simp add: upsertBy_keys)

lemma find_upsertBy:
  assumes "\<And>r. key (upd r) = key r"
  shows "find (\<lambda>r. key r = k) (upsertBy key upd row rs) =
    (if k = key row then Some (case find (\<lambda>r. key r = k) rs of Some r \<Rightarrow> upd r | None \<Rightarrow> row)
     else find (\<lambda>r. key r = k) rs)"
  by (induction rs) (auto simp: assms)

lemma key_upd [simp]:
  "abKey (r\<lparr>ab_branch := x\<rparr>) = abKey r" "abKey (r\<lparr>ab_engine := x\<rparr>) = abKey r" "abKey (r\<lparr>ab_updated := u\<rparr>) = abKey r"
  "abKey (r\<lparr>ab_clean := c\<rparr>) = abKey r" "abKey (r\<lparr>ab_watermark := x\<rparr>) = abKey r"
  "bdKey (d\<lparr>bd_worktree := w\<rparr>) = bdKey d" "bdKey (d\<lparr>bd_engine := x\<rparr>) = bdKey d" "bdKey (d\<lparr>bd_key := x\<rparr>) = bdKey d"
  "bdKey (d\<lparr>bd_branch := x\<rparr>) = bdKey d" "bdKey (d\<lparr>bd_used := u\<rparr>) = bdKey d"
  "bmKey (m\<lparr>bm_fingerprint := x\<rparr>) = bmKey m" "bmKey (m\<lparr>bm_updated := u\<rparr>) = bmKey m"
  by (simp_all add: abKey_def bdKey_def bmKey_def)

lemma upserts_keys_ok:
  "keys_ok t \<Longrightarrow> upsertActive ar t = Inr t' \<Longrightarrow> keys_ok t'"
  "keys_ok t \<Longrightarrow> upsertDurable dr t = Inr t' \<Longrightarrow> keys_ok t'"
  "keys_ok t \<Longrightarrow> upsertMigrated mr t = Inr t' \<Longrightarrow> keys_ok t'"
  by (auto simp: upsertActive_def upsertDurable_def upsertMigrated_def keys_ok_def
      intro!: upsertBy_distinct split: if_splits)

lemma keys_ok_other [simp]:
  "keys_ok (t\<lparr>worktree_rows := x\<rparr>) = keys_ok t" "keys_ok (t\<lparr>repo_rows := y\<rparr>) = keys_ok t"
  by (simp_all add: keys_ok_def)

lemma keys_ok_delete [simp]:
  "keys_ok t \<Longrightarrow> keys_ok (t\<lparr>active_branch_db := filter P (active_branch_db t)\<rparr>)"
  "keys_ok t \<Longrightarrow> keys_ok (t\<lparr>branch_durables := filter Q (branch_durables t)\<rparr>)"
  "keys_ok t \<Longrightarrow> keys_ok (t\<lparr>branch_db_migrated := filter R (branch_db_migrated t)\<rparr>)"
  by (simp_all add: keys_ok_def distinct_map_filter)

lemma keys_ok_map:
  "keys_ok t \<Longrightarrow> (\<And>r. bdKey (f r) = bdKey r) \<Longrightarrow> keys_ok (t\<lparr>branch_durables := map f (branch_durables t)\<rparr>)"
  by (simp add: keys_ok_def o_def)

lemma applyBranchOp_keys_ok:
  assumes "keys_ok t" shows "keys_ok (applyBranchOp op t)"
proof (cases op)
  case (BDropWorktree w)
  then show ?thesis using assms by (simp add: keys_ok_def distinct_map_filter o_def if_distrib [of bdKey] cong: if_cong)
next
  case (BDropRepo i)
  then show ?thesis
    using assms by (simp add: keys_ok_def distinct_map_filter o_def if_distrib [of bdKey] Let_def cong: if_cong)
qed (use assms in \<open>auto intro: upserts_keys_ok split: sum.splits\<close>)

interpretation branches: table_invariant applyBranchOp keys_ok
  by unfold_locales (rule applyBranchOp_keys_ok)

definition keys_kept :: "branchDB \<Rightarrow> branchDB \<Rightarrow> bool" where
  "keys_kept s s' \<longleftrightarrow> (keys_ok (tables s) \<longrightarrow> keys_ok (tables s'))"

lemma keys_kept_execB:
  assumes "\<And>t t'. keys_ok t \<Longrightarrow> stmt t = Inr t' \<Longrightarrow> keys_ok t'"
  shows "keeps keys_kept (execB stmt)"
proof (rule keepsI)
  fix s r s' assume "execB stmt s = (r, s')"
  then obtain e where "Exec applyBranchOp stmt s = (e, s')" by (auto simp: optionA_def split: option.splits prod.splits)
  then show "keys_kept s s'" using branches.Exec_inv assms unfolding keys_kept_def by blast
qed

lemma keys_kept_clock:
  assumes "\<And>s. m s = execB (stmt s) s" "\<And>s t t'. keys_ok t \<Longrightarrow> stmt s t = Inr t' \<Longrightarrow> keys_ok t'"
  shows "keeps keys_kept m"
  by (rule keepsI) (simp only: assms(1), erule keepsD [OF keys_kept_execB, rotated], erule (1) assms(2))

lemma keys_kept_upserts:
  "keeps keys_kept (SetActiveBranchClean repo w k branch eng clean wm)" "keeps keys_kept (SetActiveBranch repo w k branch eng)"
  "keeps keys_kept (RecordBranchDurable row)" "keeps keys_kept (SetBranchMigrated w k branch fp)"
  by (rule keys_kept_clock [OF SetActiveBranchClean_def], erule (1) upserts_keys_ok)
    (rule keys_kept_clock [OF SetActiveBranch_def], erule (1) upserts_keys_ok,
     rule keys_kept_clock [OF RecordBranchDurable_def [unfolded Let_def]], erule (1) upserts_keys_ok,
     rule keys_kept_clock [OF SetBranchMigrated_def], erule (1) upserts_keys_ok)

lemma keys_kept_deletes:
  "keeps keys_kept (ClearActiveBranch w k)" "keeps keys_kept (ClearActiveBranchesForWorktree w)"
  "keeps keys_kept (DeleteBranchDurable repo name)" "keeps keys_kept (ClearBranchMigratedForKey w k)"
  "keeps keys_kept (ClearBranchMigratedForWorktree w)"
  unfolding ClearActiveBranch_def ClearActiveBranchesForWorktree_def DeleteBranchDurable_def
    ClearBranchMigratedForKey_def ClearBranchMigratedForWorktree_def
  by (rule keys_kept_execB, force)+

lemma keys_kept_touch: "keeps keys_kept (TouchBranchDurable repo name)"
  by (rule keys_kept_clock [OF TouchBranchDurable_def]) (auto intro!: keys_ok_map)

lemma markerOf_upsert:
  "upsertActive row t = Inr t' \<Longrightarrow>
     markerOf w k t' = (if abKey row = (w, k)
       then Some (case markerOf w k t of
                    Some r \<Rightarrow> r\<lparr>ab_branch := ab_branch row, ab_engine := ab_engine row, ab_updated := ab_updated row,
                               ab_clean := ab_clean row, ab_watermark := ab_watermark row\<rparr>
                  | None \<Rightarrow> row)
       else markerOf w k t)"
  by (auto simp: upsertActive_def markerOf_def find_upsertBy split: if_splits)

lemma execB_alone:
  "alone s \<Longrightarrow> execB stmt s = (r, s') \<Longrightarrow>
     alone s' \<and> (case r of Inr u \<Rightarrow> stmt (tables s) = Inr (tables s') | Inl e \<Rightarrow> tables s' = tables s)"
  by (auto simp: optionA_def split: prod.splits option.splits dest: Exec_alone)

section \<open>Properties\<close>

text \<open>
  every write of the store keeps the primary keys unique, whatever other processes commit between
  the statements and whichever statement fails.
\<close>

theorem store_keys_unique:
  assumes "keys_ok (tables s)"
    and "(r, s') \<in> {SetActiveBranchClean repo w k branch eng clean wm s, SetActiveBranch repo w k branch eng s,
      ClearActiveBranch w k s, ClearActiveBranchesForWorktree w s, RecordBranchDurable row s,
      DeleteBranchDurable repo name s, TouchBranchDurable repo name s, SetBranchMigrated w k branch fp s,
      ClearBranchMigratedForKey w k s, ClearBranchMigratedForWorktree w s}"
  shows "keys_ok (tables s')"
proof -
  have "keys_kept s s'"
    using assms(2) by (auto dest!: sym [of "(r, s')"] intro: keepsD [OF keys_kept_upserts(1)] keepsD [OF keys_kept_upserts(2)]
        keepsD [OF keys_kept_upserts(3)] keepsD [OF keys_kept_upserts(4)] keepsD [OF keys_kept_deletes(1)]
        keepsD [OF keys_kept_deletes(2)] keepsD [OF keys_kept_deletes(3)] keepsD [OF keys_kept_deletes(4)]
        keepsD [OF keys_kept_deletes(5)] keepsD [OF keys_kept_touch])
  then show ?thesis using assms(1) by (simp add: keys_kept_def)
qed

text \<open>A store with one repository, one worktree and the marker of its branch.\<close>

definition sampleStore :: branchDB where
  "sampleStore = emptyStore\<lparr>tables := \<lparr>
     active_branch_db = [\<lparr>ab_repo = 1, ab_worktree = 7, ab_key = ''app'', ab_branch = ''main'', ab_engine = ''mysql'',
       ab_updated = 5, ab_clean = False, ab_watermark = []\<rparr>],
     branch_durables = [], branch_db_migrated = [],
     worktree_rows = [\<lparr>wt_id = 7, wt_repo = 1, wt_path = ''/w'', wt_slug = ''app_w'', wt_branch = ''dev'',
       wt_deleted = False, wt_main = False\<rparr>],
     repo_rows = [(1, ''/r'')]\<rparr>\<rparr>"

theorem store_keys_unique_witness:
  "keys_ok (tables (snd (SetActiveBranch 1 7 ''app'' ''dev'' ''mysql'' sampleStore)))"
proof -
  have ok: "keys_ok (tables sampleStore)" by (simp add: sampleStore_def keys_ok_def)
  obtain r s' where x: "SetActiveBranch 1 7 ''app'' ''dev'' ''mysql'' sampleStore = (r, s')" by force
  have "keys_ok (tables s')"
    by (rule store_keys_unique [OF ok, of r]) (unfold x [symmetric], rule insertI2, rule insertI1)
  then show ?thesis by (simp add: x)
qed

text \<open>
  when nobody else writes, a clean marker that was recorded is what the next reads return: the
  branch, and the watermark unless the marker was recorded dirty; plain recording always reads back
  as dirty, and the markers of every other worktree and namespace stay as they were.
\<close>

theorem marker_roundtrip:
  assumes "alone s" "SetActiveBranchClean repo w k branch eng clean wm s = (Inr u, s1)"
  shows "(\<forall>b s2. GetActiveBranch w k s1 = (Inr b, s2) \<longrightarrow> b = Some branch) \<and>
    (\<forall>c s2. GetActiveBranchClean w k s1 = (Inr c, s2) \<longrightarrow> c = Some (clean, if clean then wm else [])) \<and>
    (\<forall>w' k'. (w', k') \<noteq> (w, k) \<longrightarrow> markerOf w' k' (tables s1) = markerOf w' k' (tables s)) \<and>
    (\<forall>s2 c s3. SetActiveBranch repo w k branch eng s1 = (Inr u, s2) \<longrightarrow> GetActiveBranchClean w k s2 = (Inr c, s3) \<longrightarrow>
       c = Some (False, []))"
proof -
  note set = execB_alone [OF assms(1) assms(2) [unfolded SetActiveBranchClean_def]]
  then have s1: "alone s1" by simp
  from set have up: "upsertActive \<lparr>ab_repo = repo, ab_worktree = w, ab_key = k, ab_branch = branch, ab_engine = eng,
       ab_updated = nowMillis s, ab_clean = clean, ab_watermark = (if clean then wm else [])\<rparr> (tables s) = Inr (tables s1)"
    by simp
  note m = markerOf_upsert [OF up]
  have plain: "c = Some (False, [])"
    if "SetActiveBranch repo w k branch eng s1 = (Inr u, s2)" "GetActiveBranchClean w k s2 = (Inr c, s3)" for s2 c s3
  proof -
    note set2 = execB_alone [OF s1 that(1) [unfolded SetActiveBranch_def]]
    then have "upsertActive \<lparr>ab_repo = repo, ab_worktree = w, ab_key = k, ab_branch = branch, ab_engine = eng,
       ab_updated = nowMillis s1, ab_clean = False, ab_watermark = []\<rparr> (tables s1) = Inr (tables s2)" by simp
    from markerOf_upsert [OF this, of w k] Query_alone [OF _ that(2) [unfolded GetActiveBranchClean_def]] set2
    show ?thesis by (auto simp: abKey_def split: option.splits)
  qed
  have branch: "b = Some branch" if "GetActiveBranch w k s1 = (Inr b, s2)" for b s2
    using Query_alone [OF s1 that [unfolded GetActiveBranch_def]] m [of w k] by (auto simp: abKey_def split: option.splits)
  have clean: "c = Some (clean, if clean then wm else [])" if "GetActiveBranchClean w k s1 = (Inr c, s2)" for c s2
    using Query_alone [OF s1 that [unfolded GetActiveBranchClean_def]] m [of w k]
    by (auto simp: abKey_def split: option.splits)
  have "markerOf w' k' (tables s1) = markerOf w' k' (tables s)" if "(w', k') \<noteq> (w, k)" for w' k'
    using m [of w' k'] that by (auto simp: abKey_def)
  then show ?thesis using plain branch clean by blast
qed

theorem marker_roundtrip_witness:
  "\<exists>s1 s2. SetActiveBranchClean 1 7 ''app'' ''dev'' ''mysql'' True ''42'' sampleStore = (Inr (), s1) \<and>
     GetActiveBranchClean 7 ''app'' s1 = (Inr (Some (True, ''42'')), s2)"
proof -
  have "alone sampleStore" by (simp add: alone_def sampleStore_def emptyStore_def)
  moreover obtain s1 where s1: "SetActiveBranchClean 1 7 ''app'' ''dev'' ''mysql'' True ''42'' sampleStore = (Inr (), s1)"
    by (simp add: SetActiveBranchClean_def optionA_def Exec_def turn_def sampleStore_def emptyStore_def upsertActive_def
        hasRepo_def hasWorktree_def)
  moreover obtain c s2 where "GetActiveBranchClean 7 ''app'' s1 = (Inr c, s2)"
    using s1 by (simp add: SetActiveBranchClean_def optionA_def Exec_def turn_def sampleStore_def emptyStore_def
        upsertActive_def hasRepo_def hasWorktree_def GetActiveBranchClean_def Query_def split: prod.splits) auto
  ultimately show ?thesis using marker_roundtrip [of sampleStore 1 7 "''app''" "''dev''" "''mysql''" True "''42''" "()" s1] by auto
qed

text \<open>
  the durable copies offered for removal are exactly those of the repository that were not used
  since the cutoff and that no active-branch marker of their key and branch mirrors, the least
  recently used first.
\<close>

theorem unused_durables:
  "set (unusedSince repo cutoff t) = {d \<in> set (branch_durables t). bd_repo d = repo \<and> bd_used d < cutoff \<and>
       (\<forall>m \<in> set (active_branch_db t). (ab_repo m, ab_key m, ab_branch m) \<noteq> (bd_repo d, bd_key d, bd_branch d))} \<and>
   sorted (map bd_used (unusedSince repo cutoff t)) \<and>
   (distinct (branch_durables t) \<longrightarrow> distinct (unusedSince repo cutoff t))"
  by (auto simp: unusedSince_def mirrored_def list_ex_iff)

definition sampleDurable :: "string \<Rightarrow> BranchDurableRow" where
  "sampleDurable branch = \<lparr>bd_repo = 1, bd_worktree = 7, bd_engine = ''mysql'', bd_key = ''app'', bd_branch = branch,
     bd_name = ''app_'' @ branch, bd_created = 1, bd_used = 2\<rparr>"

theorem unused_durables_witness:
  "set (unusedSince 1 10 ((tables sampleStore)\<lparr>branch_durables := [sampleDurable ''dev'', sampleDurable ''main'']\<rparr>)) =
     {sampleDurable ''dev''} \<and>
   distinct (unusedSince 1 10 ((tables sampleStore)\<lparr>branch_durables := [sampleDurable ''dev'', sampleDurable ''main'']\<rparr>))"
proof -
  let ?t = "(tables sampleStore)\<lparr>branch_durables := [sampleDurable ''dev'', sampleDurable ''main'']\<rparr>"
  let ?P = "\<lambda>d. bd_repo d = 1 \<and> bd_used d < 10 \<and>
    (\<forall>m \<in> set (active_branch_db ?t). (ab_repo m, ab_key m, ab_branch m) \<noteq> (bd_repo d, bd_key d, bd_branch d))"
  have "?P (sampleDurable ''dev'')" "\<not> ?P (sampleDurable ''main'')" "distinct (branch_durables ?t)"
    by (simp_all add: sampleStore_def sampleDurable_def)
  moreover have "set (branch_durables ?t) = {sampleDurable ''dev'', sampleDurable ''main''}" by simp
  ultimately show ?thesis using unused_durables [of 1 10 ?t] by blast
qed

end
