(* ===== verification/Retry.thy ===== *)
theory Retry
  imports BranchStore
begin

text \<open>
  The state a prepare run works on, and \<open>internal/prepare/retry.go\<close>: an operation is tried again when the
  engine connection dropped, up to three more times, and never after a cancellation.

  The world is the engine, the store, the answers the context will give when it is asked whether it
  is done, and the events written so far as level and type.
\<close>

section \<open>Model\<close>

record 'e world =
  engine :: 'e
  store :: branchDB
  ctx :: "go_error option list"
  event_log :: "(string \<times> string) list"

definition onEngine :: "('e \<Rightarrow> (go_error + 'a) \<times> 'e) \<Rightarrow> ('e world, 'a) action" where
  "onEngine f w = (case f (engine w) of (r, e') \<Rightarrow> (r, w\<lparr>engine := e'\<rparr>))"

definition onStore :: "(branchDB, 'a) action \<Rightarrow> ('e world, 'a) action" where
  "onStore f w = (case f (store w) of (r, s') \<Rightarrow> (r, w\<lparr>store := s'\<rparr>))"

definition ctxErr :: "('e world, go_error option) action" where
  "ctxErr w = (case ctx w of [] \<Rightarrow> (Inr None, w) | x # xs \<Rightarrow> (Inr x, w\<lparr>ctx := xs\<rparr>))"

definition writeEvent :: "string \<Rightarrow> string \<Rightarrow> ('e world, unit) action" where
  "writeEvent level typ = modifyA (\<lambda>w. w\<lparr>event_log := event_log w @ [(level, typ)]\<rparr>)"

definition transientRetries :: nat where
  "transientRetries = 3"

definition isCancellation :: "go_error \<Rightarrow> bool" where
  "isCancellation err \<longleftrightarrow> errors_Is err Canceled \<or> errors_Is err DeadlineExceeded"

definition transientSignatures :: "string list" where
  "transientSignatures =
     [''eof'', ''connection closed'', ''connection reset'', ''connection refused'', ''broken pipe'',
      ''incomplete read'', ''no reachable servers'', ''server selection error'', ''bad connection'', ''i/o timeout'']"

text \<open>The message is lowered byte by byte; letters outside ASCII do not occur in the signatures.\<close>

definition isTransientConn :: "go_error \<Rightarrow> bool" where
  "isTransientConn err \<longleftrightarrow>
     \<not> isCancellation err \<and>
     (errors_Is err IoEOF \<or> errors_Is err UnexpectedEOF \<or>
      list_ex (\<lambda>sig. Contains (lower_ascii (Error err)) sig) transientSignatures)"

definition engineDeathHint :: string where
  "engineDeathHint =
     '' '' @ [CHR 0xE2, CHR 0x80, CHR 0x94] @
     '' the engine connection dropped mid-operation, so the engine process likely died or restarted (check `treeman doctor` and the container'' @
     [CHR 0x27] @ ''s `docker logs`/`docker inspect` for a crash loop or OOM kill)''"

definition annotateEngineDeath :: "go_error \<Rightarrow> go_error" where
  "annotateEngineDeath err = (if isTransientConn err then Wrapf [] err engineDeathHint else err)"

text \<open>The loop from attempt \<open>n\<close>; the wait before the next attempt ends early when the context is done.\<close>

function retryFrom :: "nat \<Rightarrow> ('e world, unit) action \<Rightarrow> ('e world, unit) action" where
  "retryFrom n fn =
     bindA ctxErr (\<lambda>c. case c of
       Some cerr \<Rightarrow> raiseA cerr
     | None \<Rightarrow>
         bindA (tryA fn) (\<lambda>r. case r of
           Inr u \<Rightarrow> returnA u
         | Inl err \<Rightarrow>
             if isCancellation err \<or> \<not> isTransientConn err then raiseA err
             else if transientRetries \<le> n then raiseA (annotateEngineDeath err)
             else bindA ctxErr (\<lambda>c'. case c' of Some cerr \<Rightarrow> raiseA cerr | None \<Rightarrow> retryFrom (n + 1) fn)))"
  by pat_completeness auto
termination
  by (relation "measure (\<lambda>(n, fn). transientRetries - n)") auto

declare retryFrom.simps [simp del]

definition retryTransient :: "('e world, unit) action \<Rightarrow> ('e world, unit) action" where
  "retryTransient fn = retryFrom 0 fn"

section \<open>Lemmas\<close>

lemma keeps_onEngine:
  assumes "\<And>e r e'. f e = (r, e') \<Longrightarrow> P e e'" "\<And>w e'. P (engine w) e' \<Longrightarrow> R w (w\<lparr>engine := e'\<rparr>)"
  shows "keeps R (onEngine f)"
  by (rule keepsI) (auto simp: onEngine_def split: prod.splits intro: assms)

text \<open>Relations that only look at the engine do not see the store, the context and the log.\<close>

definition engine_rel :: "('e \<Rightarrow> 'e \<Rightarrow> bool) \<Rightarrow> 'e world \<Rightarrow> 'e world \<Rightarrow> bool" where
  "engine_rel P w w' \<longleftrightarrow> P (engine w) (engine w')"

lemma reflp_engine_rel: "reflp P \<Longrightarrow> reflp (engine_rel P)"
  by (simp add: reflp_def engine_rel_def)

lemma transp_engine_rel: "transp P \<Longrightarrow> transp (engine_rel P)"
  unfolding transp_def engine_rel_def by blast

lemma keeps_engine: "(\<And>e r e'. f e = (r, e') \<Longrightarrow> P e e') \<Longrightarrow> keeps (engine_rel P) (onEngine f)"
  by (rule keepsI) (auto simp: onEngine_def engine_rel_def split: prod.splits)

lemma keeps_onStore [keeps_intro]: "reflp P \<Longrightarrow> keeps (engine_rel P) (onStore f)"
  by (rule keepsI) (auto simp: onStore_def engine_rel_def reflp_def split: prod.splits)

lemma keeps_ctxErr [keeps_intro]: "reflp P \<Longrightarrow> keeps (engine_rel P) ctxErr"
  by (rule keepsI) (auto simp: ctxErr_def engine_rel_def reflp_def split: list.splits)

lemma keeps_writeEvent [keeps_intro]: "reflp P \<Longrightarrow> keeps (engine_rel P) (writeEvent l t)"
  by (rule keepsI) (auto simp: writeEvent_def modifyA_def engine_rel_def reflp_def)

lemma keeps_retryFrom:
  assumes R: "reflp R" "transp R" and c: "keeps R ctxErr" and f: "keeps R fn"
  shows "keeps R (retryFrom n fn)"
proof (induction "transientRetries - n" arbitrary: n rule: less_induct)
  case less
  have "keeps R (retryFrom (n + 1) fn)" if "\<not> transientRetries \<le> n"
    by (rule less) (use that in simp)
  then show ?case
    by (subst retryFrom.simps) (intro keeps_intro R c f; simp)
qed

lemma keeps_retryTransient [keeps_intro]:
  "reflp P \<Longrightarrow> transp P \<Longrightarrow> keeps (engine_rel P) fn \<Longrightarrow> keeps (engine_rel P) (retryTransient fn)"
  unfolding retryTransient_def
  by (intro keeps_retryFrom keeps_intro reflp_engine_rel transp_engine_rel)

text \<open>
  What a successful retry establishes: the operation keeps a precondition when it fails and gives the
  result when it succeeds.
\<close>

lemma retryFrom_success:
  assumes fail: "\<And>w e w'. P w \<Longrightarrow> fn w = (Inl e, w') \<Longrightarrow> P w'"
    and ok: "\<And>w u w'. P w \<Longrightarrow> fn w = (Inr u, w') \<Longrightarrow> Q w'"
    and ctx: "\<And>w xs. P w \<Longrightarrow> P (w\<lparr>ctx := xs\<rparr>)"
  shows "P w \<Longrightarrow> retryFrom n fn w = (Inr u, w') \<Longrightarrow> Q w'"
proof (induction "transientRetries - n" arbitrary: n w rule: less_induct)
  case less
  have poll: "ctxErr v = (Inr c, v') \<Longrightarrow> P v \<Longrightarrow> P v'" for v c v'
    using ctx by (auto simp: ctxErr_def split: list.splits)
  from less.prems(2) obtain w1 r w2 where c: "ctxErr w = (Inr None, w1)" "fn w1 = (r, w2)" and
    rest: "(case r of Inr u \<Rightarrow> returnA u | Inl err \<Rightarrow>
        if isCancellation err \<or> \<not> isTransientConn err then raiseA err
        else if transientRetries \<le> n then raiseA (annotateEngineDeath err)
        else bindA ctxErr (\<lambda>c'. case c' of Some cerr \<Rightarrow> raiseA cerr | None \<Rightarrow> retryFrom (n + 1) fn)) w2 = (Inr u, w')"
    by (subst (asm) retryFrom.simps) (auto simp: run_rules split: option.splits)
  have p1: "P w1" using poll [OF c(1) less.prems(1)] .
  show ?case
  proof (cases r)
    case (Inr v)
    then show ?thesis using ok [OF p1] c(2) rest by (auto simp: run_rules)
  next
    case (Inl e)
    then have p2: "P w2" using fail [OF p1] c(2) by simp
    from Inl rest obtain w3 where n: "\<not> transientRetries \<le> n" "ctxErr w2 = (Inr None, w3)"
      "retryFrom (n + 1) fn w3 = (Inr u, w')"
      by (auto simp: run_rules split: if_splits option.splits)
    show ?thesis using less.hyps [OF _ poll [OF n(2) p2] n(3)] n(1) by simp
  qed
qed

lemma retryTransient_success:
  assumes "\<And>w e w'. P w \<Longrightarrow> fn w = (Inl e, w') \<Longrightarrow> P w'" "\<And>w u w'. P w \<Longrightarrow> fn w = (Inr u, w') \<Longrightarrow> Q w'"
    "\<And>w xs. P w \<Longrightarrow> P (w\<lparr>ctx := xs\<rparr>)" "P w" "retryTransient fn w = (Inr u, w')"
  shows "Q w'"
  using retryFrom_success [of P fn Q, OF assms(1-4)] assms(5) by (simp add: retryTransient_def)

text \<open>An operation that gives the results of a list, one per call.\<close>

definition popResult :: "(go_error option list world, unit) action" where
  "popResult =
     onEngine (\<lambda>rs. case rs of [] \<Rightarrow> (Inr (), []) | None # rs' \<Rightarrow> (Inr (), rs') | Some e # rs' \<Rightarrow> (Inl e, rs'))"

definition transient :: "go_error option \<Rightarrow> bool" where
  "transient r \<longleftrightarrow> (case r of None \<Rightarrow> False | Some e \<Rightarrow> isTransientConn e)"

definition settled :: "go_error option list \<Rightarrow> nat \<Rightarrow> go_error + unit" where
  "settled rs k =
     (if k < length rs then case rs ! k of None \<Rightarrow> Inr () | Some e \<Rightarrow> Inl (annotateEngineDeath e) else Inr ())"

lemma popResult_eq:
  "popResult w =
     (case engine w of
        [] \<Rightarrow> (Inr (), w\<lparr>engine := []\<rparr>)
      | r # rs \<Rightarrow> (case r of None \<Rightarrow> Inr () | Some e \<Rightarrow> Inl e, w\<lparr>engine := rs\<rparr>))"
  by (simp add: popResult_def onEngine_def split: list.splits option.splits)

lemma ctxErr_empty: "ctx w = [] \<Longrightarrow> ctxErr w = (Inr None, w)"
  by (simp add: ctxErr_def)

lemma retryFrom_popResult:
  assumes "ctx w = []"
  shows "retryFrom n popResult w =
    (let k = length (takeWhile transient (take (transientRetries - n) (engine w)))
     in (settled (engine w) k, w\<lparr>engine := drop (Suc k) (engine w)\<rparr>))"
  using assms
proof (induction "transientRetries - n" arbitrary: n w rule: less_induct)
  case less
  note unfold = retryFrom.simps [of n popResult] bindA_def tryA_def returnA_def raiseA_def popResult_eq
    ctxErr_empty [OF less(2)]
  show ?case
  proof (cases "engine w")
    case Nil
    then show ?thesis by (simp add: unfold settled_def)
  next
    case (Cons r rs)
    let ?w = "w\<lparr>engine := rs\<rparr>"
    show ?thesis
    proof (cases "transient r \<and> n < transientRetries")
      case False
      then have k: "takeWhile transient (take (transientRetries - n) (r # rs)) = []"
        by (cases "transientRetries - n") auto
      show ?thesis using Cons False k
        by (cases r) (auto simp: unfold settled_def transient_def annotateEngineDeath_def isTransientConn_def)
    next
      case True
      then obtain e where e: "r = Some e" "isTransientConn e" by (auto simp: transient_def split: option.splits)
      have "\<not> isCancellation e" using e(2) by (simp add: isTransientConn_def)
      then have step: "retryFrom n popResult w = retryFrom (n + 1) popResult ?w"
        using Cons e True less(2) by (simp add: unfold ctxErr_def)
      have d: "transientRetries - n = Suc (transientRetries - (n + 1))" using True by auto
      show ?thesis
        unfolding step using less(1) [of "n + 1" ?w] less(2) True Cons e(1)
        by (simp add: d settled_def Let_def)
    qed
  qed
qed

section \<open>Properties\<close>

text \<open>
  C40: Without a cancellation an operation is run once, and again after each dropped connection, four
  times at most; the outcome is that of the last run, so a success or a permanent error ends the
  retries at once, and an error that outlives them carries the hint about the engine.
\<close>

theorem retry_outcome:
  assumes "ctx w = []"
  shows "retryTransient popResult w =
    (let k = length (takeWhile transient (take 3 (engine w)))
     in (settled (engine w) k, w\<lparr>engine := drop (Suc k) (engine w)\<rparr>))"
  using retryFrom_popResult [OF assms, of 0] by (simp add: retryTransient_def transientRetries_def)

lemma retry_outcome_witness:
  "retryTransient popResult
     \<lparr>engine = [Some IoEOF, Some IoEOF, None, None], store = emptyStore,
      ctx = [], event_log = []\<rparr> =
   (Inr (), \<lparr>engine = [None], store = emptyStore, ctx = [], event_log = []\<rparr>)"
  by (subst retry_outcome) (simp_all add: transient_def isTransientConn_def isCancellation_def settled_def)

end
