(* ===== verification/Slug.thy ===== *)
theory Slug
  imports Prelude
begin

unbundle bit_operations_syntax

text \<open>
  The worktree identifier of \<open>internal/slug/slug.go\<close>: how a slug is derived from a worktree path or
  a branch, its 32-character budget, and the Redis database indices computed from it with the POSIX
  \<open>cksum\<close> algorithm.  The BLAKE3 digest (a third-party package), the process's namespace suffix and
  \<open>filepath.Abs\<close> (which reads the working directory) are the parameter \<open>slug_env\<close>.
\<close>

section \<open>Model\<close>

type_synonym u8 = "8 word"
type_synonym u32 = "32 word"

record slug_env =
  blake3_Sum256 :: "string \<Rightarrow> u8 list"
  slugSuffix :: string
  filepath_Abs :: "string \<Rightarrow> string option"

datatype Source = SourceTicket | SourcePathHash | SourceMain

record Slug =
  Value :: string
  Source :: Source

definition Dashed :: "Slug \<Rightarrow> string" where
  "Dashed s = ReplaceByte (Value s) (CHR ''_'') (CHR ''-'')"

subsection \<open>POSIX cksum\<close>

text \<open>One shift of the inner loop, and the loop's eight rounds.\<close>

definition crcShift :: "u32 \<Rightarrow> u32" where
  "crcShift crc =
     (if crc AND 0x80000000 \<noteq> 0 then push_bit 1 crc XOR 0x04C11DB7 else push_bit 1 crc)"

definition crcUpdate :: "u32 \<Rightarrow> u8 \<Rightarrow> u32" where
  "crcUpdate crc b = (crcShift ^^ 8) (crc XOR push_bit 24 (ucast b))"

text \<open>The octets of the length, least significant first, none for 0.\<close>

fun lengthOctets :: "nat \<Rightarrow> u8 list" where
  "lengthOctets n = (if n = 0 then [] else of_nat (n mod 256) # lengthOctets (n div 256))"

declare lengthOctets.simps [simp del]

definition sysvCksum :: "u8 list \<Rightarrow> u32" where
  "sysvCksum input = NOT (foldl crcUpdate (foldl crcUpdate 0 input) (lengthOctets (length input)))"

definition bytes_of :: "string \<Rightarrow> u8 list" where
  "bytes_of s = map (\<lambda>c. of_nat (of_char c)) s"

subsection \<open>The Redis database window\<close>

text \<open>The package variables \<open>redisDBMin\<close> and \<open>redisDBMax\<close>.\<close>

record redis_range =
  redisDBMin :: u8
  redisDBMax :: u8

definition defaultRedisRange :: redis_range where
  "defaultRedisRange = \<lparr>redisDBMin = 6, redisDBMax = 15\<rparr>"

definition SetRedisDBRange :: "int \<Rightarrow> int \<Rightarrow> redis_range \<Rightarrow> go_error option \<times> redis_range" where
  "SetRedisDBRange lo hi r =
     (if lo < 0 \<or> hi > 15 then
        (Some (NewError (''redis db range ['' @ Itoa lo @ '', '' @ Itoa hi @
           ''] outside logical DB space 0..15'')), r)
      else if lo > hi then
        (Some (NewError (''redis db range min '' @ Itoa lo @ '' > max '' @ Itoa hi)), r)
      else (None, \<lparr>redisDBMin = of_int lo, redisDBMax = of_int hi\<rparr>))"

text \<open>\<open>int(h)\<close> is a 64-bit conversion of a \<open>uint32\<close>, so it is non-negative and exact.\<close>

definition RedisIndices :: "redis_range \<Rightarrow> Slug \<Rightarrow> u8 \<times> u8" where
  "RedisIndices r s =
     (let h = sysvCksum (bytes_of (Value s));
          span = unat (redisDBMax r - redisDBMin r) + 1;
          lo = unat (redisDBMin r)
      in (of_nat (unat h mod span + lo), of_nat (unat (h div 10) mod span + lo)))"

subsection \<open>Deriving slugs\<close>

definition hexDigit :: "nat \<Rightarrow> char" where
  "hexDigit n = ''0123456789abcdef'' ! n"

definition hexEncode :: "u8 list \<Rightarrow> string" where
  "hexEncode b = concat (map (\<lambda>x. [hexDigit (unat (drop_bit 4 x)), hexDigit (unat (x AND 0x0f))]) b)"

definition tag :: "slug_env \<Rightarrow> string \<Rightarrow> string" where
  "tag E s = take 8 (hexEncode (blake3_Sum256 E (s @ [CHR 0x00] @ slugSuffix E)))"

definition pathTag :: "slug_env \<Rightarrow> string \<Rightarrow> string" where
  "pathTag E worktreePath =
     tag E (case filepath_Abs E worktreePath of Some canonical \<Rightarrow> canonical | None \<Rightarrow> worktreePath)"

definition composeTicket :: "string \<Rightarrow> string \<Rightarrow> string" where
  "composeTicket readable tg =
     (let out = readable @ ''_'' @ tg
      in if length out \<le> 32 then out
         else let keep = nat (max (32 - 1 - int (length tg)) 1)
              in TrimRight (take keep readable) ''_'' @ ''_'' @ tg)"

text \<open>
  The leftmost match of \<open>([A-Z]+)-([0-9]+)\<close>.  A maximal run of capitals that is not followed by
  \<open>-\<close> and a digit has no match starting inside it either.
\<close>

fun findTicket :: "string \<Rightarrow> (string \<times> string) option" where
  "findTicket [] = None"
| "findTicket (c # cs) =
     (let letters = takeWhile is_upper (c # cs); rest = dropWhile is_upper (c # cs)
      in case rest of
           d # ds \<Rightarrow>
             (if letters \<noteq> [] \<and> d = CHR ''-'' \<and> takeWhile is_digit ds \<noteq> []
              then Some (letters, takeWhile is_digit ds) else findTicket cs)
         | [] \<Rightarrow> findTicket cs)"

definition extractTicket :: "string \<Rightarrow> string option" where
  "extractTicket s =
     (case findTicket s of None \<Rightarrow> None | Some (letters, num) \<Rightarrow> Some (lower_ascii letters @ ''_'' @ num))"

text \<open>\<open>filepath.Base\<close> on a slash-separated path.\<close>

definition filepath_Base :: "string \<Rightarrow> string" where
  "filepath_Base path =
     (if path = [] then ''.''
      else let p = dropWhileEnd (\<lambda>c. c = CHR ''/'') path;
               b = rev (takeWhile (\<lambda>c. c \<noteq> CHR ''/'') (rev p))
           in if b = [] then ''/'' else b)"

definition For :: "slug_env \<Rightarrow> string \<Rightarrow> string \<Rightarrow> Slug" where
  "For E worktreePath branch =
     (let tg = pathTag E worktreePath
      in case extractTicket (filepath_Base worktreePath) of
           Some ticket \<Rightarrow> \<lparr>Value = composeTicket ticket tg, Source = SourceTicket\<rparr>
         | None \<Rightarrow> \<lparr>Value = ''wt_'' @ tg, Source = SourcePathHash\<rparr>)"

text \<open>
  \<open>sanitiseBranch\<close> ranges over the runes of \<open>strings.ToLower(branch)\<close>.  Of the non-ASCII runes only
  U+212A (lower case \<open>k\<close>) and U+0130 (lower case \<open>i\<close>) become letters a to z; every other one falls
  into the separator case, whatever its number of bytes, since runs collapse.
\<close>

fun lowerBranch :: "string \<Rightarrow> string" where
  "lowerBranch [] = []"
| "lowerBranch [a] = [lower_char a]"
| "lowerBranch [a, b] =
     (if a = CHR 0xC4 \<and> b = CHR 0xB0 then ''i'' else lower_char a # lowerBranch [b])"
| "lowerBranch (a # b # c # s) =
     (if a = CHR 0xC4 \<and> b = CHR 0xB0 then CHR ''i'' # lowerBranch (c # s)
      else if a = CHR 0xE2 \<and> b = CHR 0x84 \<and> c = CHR 0xAA then CHR ''k'' # lowerBranch s
      else lower_char a # lowerBranch (b # c # s))"

fun sanitiseRun :: "bool \<Rightarrow> string \<Rightarrow> string" where
  "sanitiseRun prevUnderscore [] = []"
| "sanitiseRun prevUnderscore (r # rs) =
     (if is_lower r \<or> is_digit r then r # sanitiseRun False rs
      else if \<not> prevUnderscore then CHR ''_'' # sanitiseRun True rs
      else sanitiseRun True rs)"

definition sanitiseBranch :: "string \<Rightarrow> string" where
  "sanitiseBranch branch = Trim (sanitiseRun True (lowerBranch branch)) ''_''"

definition ForMain :: "slug_env \<Rightarrow> string \<Rightarrow> string \<Rightarrow> Slug" where
  "ForMain E worktreePath branch =
     (if branch = [] then
        \<lparr>Value = ''main_detached_'' @ tag E worktreePath, Source = SourceMain\<rparr>
      else let s = sanitiseBranch branch;
               readable = (if s \<noteq> [] then ''main'' @ ''_'' @ s else ''main'')
           in \<lparr>Value = composeTicket readable (tag E branch), Source = SourceMain\<rparr>)"

section \<open>Lemmas\<close>

subsection \<open>The checksum separates bytes\<close>

lemma top_bit_test: "(crc :: u32) AND 0x80000000 \<noteq> 0 \<longleftrightarrow> bit crc 31"
proof -
  have "(0x80000000 :: u32) = 2 ^ 31" by simp
  then show ?thesis by (metis and_exp_eq_0_iff_not_bit)
qed

lemma bit_crcShift:
  "bit (crcShift crc) n \<longleftrightarrow>
     n < 32 \<and> ((0 < n \<and> bit crc (n - 1)) \<noteq> (bit crc 31 \<and> bit (0x04C11DB7 :: u32) n))"
proof -
  have push: "bit (push_bit 1 crc) n \<longleftrightarrow> n < 32 \<and> 0 < n \<and> bit crc (n - 1)"
    by (simp only: bit_push_bit_iff possible_bit_word) auto
  have poly: "bit (0x04C11DB7 :: u32) n \<Longrightarrow> n < 32"
    by (drule bit_imp_le_length) simp
  show ?thesis
    unfolding crcShift_def top_bit_test
    by (cases "bit crc 31") (use poly in \<open>auto simp only: if_True if_False bit_xor_iff push\<close>)
qed

lemma xor_right_inj: "(a :: u32) XOR c = b XOR c \<Longrightarrow> a = b"
  by (rule bit_word_eqI) (drule arg_cong [of _ _ "\<lambda>w. bit w n" for n], auto simp: bit_xor_iff)

lemma crcShift_inj: "crcShift a = crcShift b \<Longrightarrow> a = b"
proof (rule bit_word_eqI)
  fix n assume eq: "crcShift a = crcShift b" and n: "n < LENGTH(32)"
  have p0: "bit (0x04C11DB7 :: u32) 0" by simp
  have top: "bit a 31 = bit b 31"
    using arg_cong [OF eq, of "\<lambda>w. bit w 0"] p0 by (simp add: bit_crcShift)
  show "bit a n = bit b n"
  proof (cases "n = 31")
    case True
    with top show ?thesis by simp
  next
    case False
    with n have "Suc n < 32" by simp
    then show ?thesis
      using arg_cong [OF eq, of "\<lambda>w. bit w (Suc n)"] top by (auto simp: bit_crcShift)
  qed
qed

lemma crcRounds_inj: "(crcShift ^^ k) a = (crcShift ^^ k) b \<Longrightarrow> a = b"
  by (induction k) (auto dest: crcShift_inj)

lemma push24_inj: "push_bit 24 (ucast (a :: u8) :: u32) = push_bit 24 (ucast b) \<Longrightarrow> a = b"
proof (rule bit_word_eqI)
  fix n assume eq: "push_bit 24 (ucast a :: u32) = push_bit 24 (ucast b)" and n: "n < LENGTH(8)"
  have "bit (push_bit 24 (ucast x :: u32)) (n + 24) = bit x n" for x :: u8
    using n by (simp only: bit_push_bit_iff bit_ucast_iff possible_bit_word) simp
  with eq show "bit a n = bit b n" by metis
qed

lemma crcUpdate_inj_crc: "crcUpdate c b = crcUpdate d b \<Longrightarrow> c = d"
  unfolding crcUpdate_def by (drule crcRounds_inj) (rule xor_right_inj)

lemma crcUpdate_inj_byte: "crcUpdate c a = crcUpdate c b \<Longrightarrow> a = b"
  unfolding crcUpdate_def by (drule crcRounds_inj) (metis push24_inj xor_right_inj xor.commute)

lemma foldl_crcUpdate_inj: "foldl crcUpdate c bs = foldl crcUpdate d bs \<Longrightarrow> c = d"
  by (induction bs arbitrary: c d) (auto dest: crcUpdate_inj_crc)

lemma sysvCksum_byte:
  "sysvCksum (xs @ a # ys) = sysvCksum (xs @ b # ys) \<longleftrightarrow> a = b"
  by (auto simp: sysvCksum_def dest!: foldl_crcUpdate_inj crcUpdate_inj_byte)

subsection \<open>The Redis window\<close>

definition wf_redis_range :: "redis_range \<Rightarrow> bool" where
  "wf_redis_range r \<longleftrightarrow> redisDBMin r \<le> redisDBMax r \<and> redisDBMax r \<le> 15"

lemma wf_defaultRedisRange: "wf_redis_range defaultRedisRange"
  by (simp add: wf_redis_range_def defaultRedisRange_def)

lemma wf_SetRedisDBRange: "wf_redis_range r \<Longrightarrow> wf_redis_range (snd (SetRedisDBRange lo hi r))"
proof -
  have "wf_redis_range \<lparr>redisDBMin = of_int lo, redisDBMax = of_int hi\<rparr>"
    if "0 \<le> lo" "lo \<le> hi" "hi \<le> 15"
    using that by (simp add: wf_redis_range_def word_le_def uint_word_of_int take_bit_eq_mod)
  then show "wf_redis_range r \<Longrightarrow> ?thesis" by (auto simp: SetRedisDBRange_def)
qed

lemma unat_lt2p_8: "unat (w :: u8) < 256"
  using unsigned_less [of w, where ?'a = nat] by simp

lemma window_index:
  assumes "wf_redis_range r"
  shows "redisDBMin r \<le> of_nat (k mod (unat (redisDBMax r - redisDBMin r) + 1) + unat (redisDBMin r))
       \<and> of_nat (k mod (unat (redisDBMax r - redisDBMin r) + 1) + unat (redisDBMin r)) \<le> redisDBMax r"
proof -
  define m where "m = k mod (unat (redisDBMax r - redisDBMin r) + 1)"
  have le: "redisDBMin r \<le> redisDBMax r" using assms by (simp add: wf_redis_range_def)
  have d: "unat (redisDBMax r - redisDBMin r) = unat (redisDBMax r) - unat (redisDBMin r)"
    using le by (simp add: unat_sub)
  have "m \<le> unat (redisDBMax r) - unat (redisDBMin r)"
    unfolding m_def d [symmetric] by (metis Suc_eq_plus1 less_Suc_eq_le mod_less_divisor zero_less_Suc)
  moreover have "unat (redisDBMin r) \<le> unat (redisDBMax r)" using le by (simp add: word_le_nat_alt)
  moreover have "unat (redisDBMax r) < 256" using unat_lt2p_8 [of "redisDBMax r"] by simp
  ultimately have "unat (of_nat (m + unat (redisDBMin r)) :: u8) = m + unat (redisDBMin r)"
    by (simp only: unsigned_of_nat) (simp add: take_bit_eq_mod)
  with \<open>m \<le> _\<close> \<open>unat (redisDBMin r) \<le> _\<close> show ?thesis
    unfolding m_def [symmetric] word_le_nat_alt by simp
qed

subsection \<open>Shape of the tag and of the slug\<close>

text \<open>BLAKE3-256 digests are 32 bytes.\<close>

definition blake3_ok :: "slug_env \<Rightarrow> bool" where
  "blake3_ok E \<longleftrightarrow> (\<forall>s. length (blake3_Sum256 E s) = 32)"

text \<open>The characters a slug is built from.\<close>

definition slug_char :: "char \<Rightarrow> bool" where
  "slug_char c \<longleftrightarrow> is_lower c \<or> is_digit c \<or> c = CHR ''_''"

definition hex_char :: "char \<Rightarrow> bool" where
  "hex_char c \<longleftrightarrow> c \<in> set ''0123456789abcdef''"

lemma hex_char_slug: "hex_char c \<Longrightarrow> is_lower c \<or> is_digit c"
  by (auto simp: hex_char_def is_lower_def is_digit_def)

lemma hex_char_hexDigit: "n < 16 \<Longrightarrow> hex_char (hexDigit n)"
  by (auto simp: hex_char_def hexDigit_def simp del: set_simps intro!: nth_mem)

lemma hexEncode_hex: "\<forall>c \<in> set (hexEncode b). hex_char c"
proof -
  have hi: "unat (drop_bit 4 x) < 16" for x :: u8
    using unat_lt2p_8 [of x] by (simp only: unat_drop_bit_eq) (simp add: drop_bit_eq_div)
  have lo: "unat (x AND 0x0f) < 16" for x :: u8
  proof -
    have "x AND 0x0f \<le> 0x0f" by (rule word_and_le1)
    then show ?thesis by (simp add: word_le_nat_alt)
  qed
  show ?thesis
    by (auto simp: hexEncode_def intro!: hex_char_hexDigit hi lo simp del: unsigned_and_eq)
qed

lemma length_hexEncode: "length (hexEncode b) = 2 * length b"
  by (induction b) (auto simp: hexEncode_def)

lemma tag_hex: "c \<in> set (tag E s) \<Longrightarrow> hex_char c"
  using hexEncode_hex by (auto simp: tag_def dest: in_set_takeD)

lemma length_tag: "blake3_ok E \<Longrightarrow> length (tag E s) = 8"
  by (simp add: tag_def length_hexEncode blake3_ok_def)

lemma length_pathTag: "blake3_ok E \<Longrightarrow> length (pathTag E p) = 8"
  by (simp add: pathTag_def length_tag)

text \<open>The slice \<open>readable[:keep]\<close> is in range, so \<^const>\<open>take\<close> is Go's slice.\<close>

lemma composeTicket_slice_in_range:
  "length tg = 8 \<Longrightarrow> 32 < length (readable @ ''_'' @ tg) \<Longrightarrow>
     nat (max (32 - 1 - int (length tg)) 1) \<le> length readable"
  by simp

lemma length_composeTicket: "length tg = 8 \<Longrightarrow> length (composeTicket readable tg) \<le> 32"
  using length_TrimRight [of "take 23 readable" "''_''"]
  by (auto simp: composeTicket_def Let_def)

lemma composeTicket_decomp: "\<exists>p. composeTicket readable tg = p @ ''_'' @ tg \<and> set p \<subseteq> set readable"
proof -
  have "set (TrimRight (take k readable) ''_'') \<subseteq> set readable" for k
    unfolding TrimRight_def by (meson set_dropWhileEnd set_take_subset subset_trans)
  then show ?thesis by (auto simp: composeTicket_def Let_def)
qed

lemma composeTicket_tag: "drop (length (composeTicket r tg) - length tg) (composeTicket r tg) = tg"
  using composeTicket_decomp [of r tg] by auto

lemma findTicket_chars:
  "findTicket s = Some (l, d) \<Longrightarrow> (\<forall>c \<in> set l. is_upper c) \<and> (\<forall>c \<in> set d. is_digit c)"
proof (induction s rule: findTicket.induct)
  case (2 c cs)
  have takes: "\<forall>x \<in> set (takeWhile is_upper (c # cs)). is_upper x"
    "\<forall>x \<in> set (takeWhile is_digit ds). is_digit x" for ds
    by (meson set_takeWhileD)+
  show ?case
  proof (cases "dropWhile is_upper (c # cs)")
    case Nil
    with 2 show ?thesis by (auto simp: Let_def simp del: takeWhile.simps dropWhile.simps)
  next
    case (Cons d ds)
    with 2 takes show ?thesis
      by (auto simp: Let_def simp del: takeWhile.simps dropWhile.simps split: if_splits)
  qed
qed simp

lemma extractTicket_chars: "extractTicket s = Some t \<Longrightarrow> \<forall>c \<in> set t. slug_char c"
  by (auto simp: extractTicket_def lower_ascii_def slug_char_def is_upper_lower_char
           split: option.splits prod.splits dest!: findTicket_chars)

lemma sanitiseRun_chars: "\<forall>c \<in> set (sanitiseRun b s). slug_char c"
  by (induction b s rule: sanitiseRun.induct) (auto simp: slug_char_def)

lemma sanitiseBranch_chars: "c \<in> set (sanitiseBranch s) \<Longrightarrow> slug_char c"
  using sanitiseRun_chars [of True "lowerBranch s"]
  by (auto simp: sanitiseBranch_def Trim_def TrimRight_def TrimLeft_def
           dest!: subsetD [OF set_dropWhileEnd] set_dropWhileD)

lemma slug_char_underscore [simp]: "slug_char (CHR ''_'')"
  by (simp add: slug_char_def)

lemma composeTicket_chars:
  "\<forall>c \<in> set r. slug_char c \<Longrightarrow> \<forall>c \<in> set tg. slug_char c \<Longrightarrow>
     c \<in> set (composeTicket r tg) \<Longrightarrow> slug_char c"
  using composeTicket_decomp [of r tg] slug_char_underscore by fastforce

lemma tag_slug_char: "c \<in> set (tag E s) \<Longrightarrow> slug_char c"
  by (auto simp: slug_char_def dest: tag_hex hex_char_slug)

lemma slug_char_lower:
  assumes "slug_char c"
  shows "lower_char c = c" "c \<noteq> CHR 0xC4" "c \<noteq> CHR 0xE2"
  using assms by (auto simp: slug_char_def is_lower_def is_digit_def lower_char_def is_upper_def)

lemma lowerBranch_id: "\<forall>c \<in> set s. slug_char c \<Longrightarrow> lowerBranch s = s"
  by (induction s rule: lowerBranch.induct) (simp_all add: slug_char_lower)

lemma sanitiseRun_alnum: "\<forall>c \<in> set s. is_lower c \<or> is_digit c \<Longrightarrow> sanitiseRun b s = s"
  by (induction b s rule: sanitiseRun.induct) auto

text \<open>A branch that already looks like a sanitised word followed by a tag is left alone.\<close>

lemma sanitiseBranch_tagged:
  assumes t: "\<forall>c \<in> set t. hex_char c" "t \<noteq> []"
  shows "sanitiseBranch (''a_'' @ t) = ''a_'' @ t"
proof -
  have al: "\<forall>c \<in> set t. is_lower c \<or> is_digit c" using t hex_char_slug by auto
  have "lowerBranch (''a_'' @ t) = ''a_'' @ t"
    using al by (intro lowerBranch_id) (auto simp: slug_char_def is_lower_def)
  moreover have "sanitiseRun True (''a_'' @ t) = ''a_'' @ t"
    using sanitiseRun_alnum [OF al] by (auto simp: is_lower_def is_digit_def)
  moreover have "last t \<noteq> CHR ''_''"
    using bspec [OF al last_in_set [OF t(2)]] by (auto simp: is_lower_def is_digit_def)
  ultimately show ?thesis
    using t(2) dropWhileEnd_id [of "''a_'' @ t" "\<lambda>c. c = CHR ''_''"]
    by (auto simp: sanitiseBranch_def Trim_def TrimLeft_def TrimRight_def)
qed

lemma composeTicket_tag_chars:
  "list_all slug_char r \<Longrightarrow> list_all slug_char (composeTicket r (tag E s))"
  using composeTicket_chars [of r "tag E s"] tag_slug_char [of _ E s] by (metis list_all_iff)

lemma tag_chars: "list_all slug_char (tag E s)"
  using tag_slug_char by (simp add: list_all_iff)

lemma For_chars: "list_all slug_char (Value (For E path branch))"
proof (cases "extractTicket (filepath_Base path)")
  case None
  then show ?thesis
    using tag_chars
    by (simp add: For_def Let_def pathTag_def slug_char_def is_lower_def)
next
  case (Some ticket)
  then have "list_all slug_char ticket"
    using extractTicket_chars by (simp add: list_all_iff)
  with Some show ?thesis
    by (simp add: For_def Let_def pathTag_def composeTicket_tag_chars)
qed

lemma ForMain_chars: "list_all slug_char (Value (ForMain E path branch))"
proof -
  have main: "list_all slug_char ''main''" "list_all slug_char ''main_detached_''"
    by (simp_all add: slug_char_def is_lower_def)
  have "list_all slug_char (sanitiseBranch branch)"
    using sanitiseBranch_chars by (simp add: list_all_iff)
  with main(1) have "list_all slug_char (''main'' @ ''_'' @ sanitiseBranch branch)"
    by (simp del: append.simps add: list_all_append)
  with main show ?thesis
    by (simp add: ForMain_def Let_def composeTicket_tag_chars tag_chars)
qed

lemmas slug_derivation = For_def ForMain_def Let_def pathTag_def

section \<open>Properties\<close>

text \<open>After any sequence of \<open>SetRedisDBRange\<close> calls, accepted or refused, on the default window,
  both Redis indices of every slug lie inside the configured window, and the window inside 0..15.\<close>

theorem redis_indices_in_window:
  "let r = foldl (\<lambda>r (lo, hi). snd (SetRedisDBRange lo hi r)) defaultRedisRange calls;
       (queueDB, cacheDB) = RedisIndices r s
   in redisDBMin r \<le> queueDB \<and> queueDB \<le> redisDBMax r \<and>
      redisDBMin r \<le> cacheDB \<and> cacheDB \<le> redisDBMax r \<and> redisDBMax r \<le> 15"
proof -
  define r where "r = foldl (\<lambda>r (lo, hi). snd (SetRedisDBRange lo hi r)) defaultRedisRange calls"
  have "wf_redis_range (foldl (\<lambda>r (lo, hi). snd (SetRedisDBRange lo hi r)) r0 calls)"
    if "wf_redis_range r0" for r0
    using that by (induction calls arbitrary: r0) (auto simp: wf_SetRedisDBRange)
  then have wf: "wf_redis_range r" unfolding r_def using wf_defaultRedisRange by blast
  show ?thesis
    unfolding r_def [symmetric] RedisIndices_def Let_def
    using window_index [OF wf] wf by (simp add: wf_redis_range_def)
qed

text \<open>Two inputs that differ in exactly one byte have different POSIX checksums, so the slugs of
  two such inputs never share the whole checksum their Redis indices come from.\<close>

theorem cksum_single_byte:
  "sysvCksum (xs @ a # ys) = sysvCksum (xs @ b # ys) \<longleftrightarrow> a = b"
  by (rule sysvCksum_byte)

text \<open>Every slug, of a linked or of a main worktree, fits the 32-character identifier budget and
  consists of lower-case letters, digits and underscores only.\<close>

theorem slug_identifier:
  assumes "blake3_ok E"
  shows "length (Value (For E path branch)) \<le> 32 \<and> length (Value (ForMain E path branch)) \<le> 32 \<and>
    list_all slug_char (Value (For E path branch)) \<and> list_all slug_char (Value (ForMain E path branch))"
proof -
  note len = length_tag [OF assms] length_composeTicket [OF length_tag [OF assms]]
  have "length (Value (For E path branch)) \<le> 32" "length (Value (ForMain E path branch)) \<le> 32"
    using len by (auto simp: slug_derivation split: option.split)
  then show ?thesis using For_chars ForMain_chars by blast
qed

definition sample_env :: slug_env where
  "sample_env = \<lparr>blake3_Sum256 = (\<lambda>s. take 32 (bytes_of s @ replicate 32 0)), slugSuffix = [],
     filepath_Abs = Some\<rparr>"

lemma sample_env_ok: "blake3_ok sample_env"
  by (auto simp: blake3_ok_def sample_env_def bytes_of_def min_def)

theorem slug_identifier_witness:
  "length (Value (For sample_env ''/w/PROJ-1234'' ''x'')) \<le> 32 \<and>
   length (Value (ForMain sample_env ''/w'' ''feature/x'')) \<le> 32"
  using slug_identifier [OF sample_env_ok, of "''/w/PROJ-1234''" "''x''"]
    slug_identifier [OF sample_env_ok, of "''/w''" "''feature/x''"] by blast

text \<open>The path tag carries the uniqueness of a linked worktree's slug: two worktrees with the
  same slug have the same tag, whatever their directories' readable parts are and however they were
  truncated, and the branch never enters the slug.\<close>

theorem slug_unique_by_tag:
  assumes "blake3_ok E" and "Value (For E p b) = Value (For E q c)"
  shows "pathTag E p = pathTag E q \<and> For E p b = For E p c"
proof -
  have last8: "drop (length (Value (For E r d)) - 8) (Value (For E r d)) = pathTag E r" for r d
    using composeTicket_tag [of _ "pathTag E r"] length_pathTag [OF assms(1), of r]
    by (simp add: For_def Let_def split: option.split)
  then have "pathTag E p = pathTag E q" using assms(2) by metis
  then show ?thesis by (simp add: For_def)
qed

theorem slug_unique_by_tag_witness:
  "pathTag sample_env ''/a/x'' = pathTag sample_env ''/a/x'' \<and>
   For sample_env ''/a/x'' ''b1'' = For sample_env ''/a/x'' ''b2''"
  using slug_unique_by_tag [OF sample_env_ok, of "''/a/x''" "''b1''" "''/a/x''" "''b2''"]
  by (simp add: For_def)

text \<open>Slugs are not prefix-free, for any digest function: the slug of the main worktree on branch
  \<open>a\<close> is a proper prefix of its slug on the branch named \<open>a_\<close> followed by the first slug's tag.\<close>

theorem slugs_not_prefix_free:
  assumes "blake3_ok E"
  shows "strict_prefix (Value (ForMain E path ''a'')) (Value (ForMain E path (''a_'' @ tag E ''a'')))"
proof -
  have t: "length (tag E s) = 8" "tag E s \<noteq> []" for s
    using length_tag [OF assms, of s] by auto
  have a: "sanitiseBranch ''a'' = ''a''" by code_simp
  have "Value (ForMain E path ''a'') = ''main_a_'' @ tag E ''a''"
    using t [of "''a''"] by (simp add: ForMain_def Let_def a composeTicket_def)
  moreover have "Value (ForMain E path (''a_'' @ tag E ''a'')) =
      ''main_a_'' @ tag E ''a'' @ ''_'' @ tag E (''a_'' @ tag E ''a'')"
    using t sanitiseBranch_tagged [of "tag E ''a''"] tag_hex [of _ E "''a''"]
    by (simp add: ForMain_def Let_def composeTicket_def)
  ultimately show ?thesis by (simp add: strict_prefix_def)
qed

theorem slugs_not_prefix_free_witness:
  "strict_prefix (Value (ForMain sample_env ''/w'' ''a''))
     (Value (ForMain sample_env ''/w'' (''a_'' @ tag sample_env ''a'')))"
  by (rule slugs_not_prefix_free [OF sample_env_ok])

end
