(* ===== verification/Template.thy ===== *)
theory Template
  imports Slug
begin

text \<open>
  The placeholder engine of \<open>internal/template/template.go\<close>: the scanner \<open>renderWith\<close> shared by
  \<open>Render\<close>, \<open>RenderMap\<close> and \<open>Keys\<close>, the key lookup of a rendering context, and the load-time
  \<open>Validate\<close>.  A lookup closure may write a variable of its caller (\<open>Keys\<close> does), so the scanner
  threads the closure's state.
\<close>

section \<open>Model\<close>

type_synonym u16 = "16 word"

record Context =
  cSlug :: string
  cSlugDash :: string
  cSlugRedisQueue :: string
  cSlugRedisCache :: string
  cN :: int
  HasN :: bool
  cTargetDB :: string
  HasTargetDB :: bool
  cPorts :: "string \<rightharpoonup> u16"
  cDBs :: "string list"

definition FromSlug :: "redis_range \<Rightarrow> Slug \<Rightarrow> Context" where
  "FromSlug r s =
     (let (q, c) = RedisIndices r s
      in \<lparr>cSlug = Value s, cSlugDash = Dashed s,
          cSlugRedisQueue = Itoa (uint q), cSlugRedisCache = Itoa (uint c),
          cN = 0, HasN = False, cTargetDB = [], HasTargetDB = False,
          cPorts = Map.empty, cDBs = []\<rparr>)"

definition WithN :: "int \<Rightarrow> Context \<Rightarrow> Context" where
  "WithN n c = c\<lparr>cN := n, HasN := True\<rparr>"

definition WithTargetDB :: "string \<Rightarrow> Context \<Rightarrow> Context" where
  "WithTargetDB db c = c\<lparr>cTargetDB := db, HasTargetDB := True\<rparr>"

text \<open>A nil map and an empty map are both the empty partial function.\<close>

definition WithPorts :: "(string \<rightharpoonup> u16) \<Rightarrow> Context \<Rightarrow> Context" where
  "WithPorts ports c = c\<lparr>cPorts := ports\<rparr>"

definition WithDBs :: "string list \<Rightarrow> Context \<Rightarrow> Context" where
  "WithDBs dbs c = c\<lparr>cDBs := dbs\<rparr>"

datatype RenderError = UnknownKey string | UnmatchedAt nat

text \<open>
  The length of a pass-through \<open>${...}\<close> at the start of the rest of the template, if there is one.
\<close>

definition passThrough :: "string \<Rightarrow> nat option" where
  "passThrough rest =
     (case rest of
        a # b # r \<Rightarrow>
          (if a = CHR ''$'' \<and> b = CHR ''{'' then map_option (\<lambda>end. 2 + end + 1) (IndexByte r (CHR ''}''))
           else None)
      | _ \<Rightarrow> None)"

lemma passThrough_pos: "passThrough rest = Some n \<Longrightarrow> 0 < n"
  by (auto simp: passThrough_def split: list.splits if_splits)

text \<open>
  The loop of \<open>renderWith\<close> at offset \<open>i\<close>, with the rest of the template, the builder \<open>b\<close> and the
  closure's state.
\<close>

function renderLoop ::
  "(string \<Rightarrow> 's \<Rightarrow> string option \<times> 's) \<Rightarrow> nat \<Rightarrow> string \<Rightarrow> string \<Rightarrow> 's \<Rightarrow>
     (RenderError + string) \<times> 's" where
  "renderLoop lookup i [] b st = (Inr b, st)"
| "renderLoop lookup i (c # cs) b st =
     (case passThrough (c # cs) of
        Some n \<Rightarrow> renderLoop lookup (i + n) (drop n (c # cs)) (b @ take n (c # cs)) st
      | None \<Rightarrow>
          if c \<noteq> CHR ''{'' then renderLoop lookup (i + 1) cs (b @ [c]) st
          else (case IndexByte cs (CHR ''}'') of
                  None \<Rightarrow> (Inl (UnmatchedAt i), st)
                | Some end \<Rightarrow>
                    (case lookup (take end cs) st of
                       (None, st') \<Rightarrow> (Inl (UnknownKey (take end cs)), st')
                     | (Some val, st') \<Rightarrow>
                         renderLoop lookup (i + 1 + end + 1) (drop (end + 1) cs) (b @ val) st')))"
  by pat_completeness auto
termination
  by (relation "measure (\<lambda>(l, i, rest, b, st). length rest)") (auto dest: passThrough_pos)

definition renderWith ::
  "string \<Rightarrow> (string \<Rightarrow> 's \<Rightarrow> string option \<times> 's) \<Rightarrow> 's \<Rightarrow> (RenderError + string) \<times> 's" where
  "renderWith tmpl lookup st = renderLoop lookup 0 tmpl [] st"

definition pureLookup :: "(string \<Rightarrow> string option) \<Rightarrow> string \<Rightarrow> unit \<Rightarrow> string option \<times> unit" where
  "pureLookup f key u = (f key, u)"

definition lookupDB :: "string \<Rightarrow> string list \<Rightarrow> string option" where
  "lookupDB idx dbs =
     (if idx = [] \<or> Trim idx ''0123456789'' \<noteq> [] then None
      else case Atoi_digits idx of
             None \<Rightarrow> None
           | Some n \<Rightarrow> if n \<ge> length dbs then None else Some (dbs ! n))"

definition lookup :: "string \<Rightarrow> Context \<Rightarrow> string option" where
  "lookup key ctx =
     (if key = ''slug'' then Some (cSlug ctx)
      else if key = ''slug_dash'' then Some (cSlugDash ctx)
      else if key = ''slug_redis_queue'' then Some (cSlugRedisQueue ctx)
      else if key = ''slug_redis_cache'' then Some (cSlugRedisCache ctx)
      else if key = ''n'' then (if HasN ctx then Some (Itoa (cN ctx)) else None)
      else if key = ''target_db'' then (if HasTargetDB ctx then Some (cTargetDB ctx) else None)
      else case CutPrefix key ''port_'' of
             Some name \<Rightarrow>
               (case cPorts ctx name of Some port \<Rightarrow> Some (Itoa (uint port)) | None \<Rightarrow> None)
           | None \<Rightarrow>
               (case CutPrefix key ''db:'' of Some idx \<Rightarrow> lookupDB idx (cDBs ctx) | None \<Rightarrow> None))"

definition Render :: "string \<Rightarrow> Context \<Rightarrow> RenderError + string" where
  "Render tmpl ctx = fst (renderWith tmpl (pureLookup (\<lambda>key. lookup key ctx)) ())"

definition RenderMap :: "string \<Rightarrow> (string \<rightharpoonup> string) \<Rightarrow> RenderError + string" where
  "RenderMap tmpl vals = fst (renderWith tmpl (pureLookup vals) ())"

text \<open>The keys found so far are returned with an error too.\<close>

definition Keys :: "string \<Rightarrow> string list \<times> RenderError option" where
  "Keys tmpl =
     (case renderWith tmpl (\<lambda>key keys. (Some [], keys @ [key])) [] of
        (Inr _, keys) \<Rightarrow> (keys, None)
      | (Inl e, keys) \<Rightarrow> (keys, Some e))"

record Scope =
  AllowN :: bool
  AllowTargetDB :: bool
  AllowedPorts :: "string list"
  DBCount :: int

definition Validate :: "string \<Rightarrow> Scope \<Rightarrow> RenderError option" where
  "Validate tmpl sc =
     (let ctx0 = \<lparr>cSlug = ''x'', cSlugDash = ''x'', cSlugRedisQueue = ''0'', cSlugRedisCache = ''0'',
                 cN = 0, HasN = False, cTargetDB = [], HasTargetDB = False,
                 cPorts = Map.empty, cDBs = []\<rparr>;
          ctx1 = (if AllowN sc then WithN 0 ctx0 else ctx0);
          ctx2 = (if AllowTargetDB sc then WithTargetDB ''x'' ctx1 else ctx1);
          ctx3 = (if AllowedPorts sc \<noteq> []
                  then WithPorts (map_of (map (\<lambda>name. (name, 1)) (AllowedPorts sc))) ctx2 else ctx2);
          ctx4 = (if DBCount sc > 0 then ctx3\<lparr>cDBs := replicate (nat (DBCount sc)) []\<rparr> else ctx3)
      in case Render tmpl ctx4 of Inl e \<Rightarrow> Some e | Inr _ \<Rightarrow> None)"

section \<open>A reference semantics: parse, then evaluate\<close>

text \<open>
  The one-pass scanner is a parse into segments followed by an evaluation from left to right; the
  offset is that of the first \<open>{\<close> without a closing brace, reached after all segments.
\<close>

datatype seg = Lit string | Key string

function scan :: "nat \<Rightarrow> string \<Rightarrow> seg list \<times> nat option" where
  "scan i [] = ([], None)"
| "scan i (c # cs) =
     (case passThrough (c # cs) of
        Some n \<Rightarrow> apfst (Cons (Lit (take n (c # cs)))) (scan (i + n) (drop n (c # cs)))
      | None \<Rightarrow>
          if c \<noteq> CHR ''{'' then apfst (Cons (Lit [c])) (scan (i + 1) cs)
          else (case IndexByte cs (CHR ''}'') of
                  None \<Rightarrow> ([], Some i)
                | Some end \<Rightarrow>
                    apfst (Cons (Key (take end cs))) (scan (i + 1 + end + 1) (drop (end + 1) cs))))"
  by pat_completeness auto
termination
  by (relation "measure (\<lambda>(i, rest). length rest)") (auto dest: passThrough_pos)

fun evalSegs ::
  "(string \<Rightarrow> 's \<Rightarrow> string option \<times> 's) \<Rightarrow> seg list \<Rightarrow> nat option \<Rightarrow> string \<Rightarrow> 's \<Rightarrow>
     (RenderError + string) \<times> 's" where
  "evalSegs lk [] u b st = ((case u of None \<Rightarrow> Inr b | Some i \<Rightarrow> Inl (UnmatchedAt i)), st)"
| "evalSegs lk (Lit s # ss) u b st = evalSegs lk ss u (b @ s) st"
| "evalSegs lk (Key k # ss) u b st =
     (case lk k st of
        (None, st') \<Rightarrow> (Inl (UnknownKey k), st')
      | (Some val, st') \<Rightarrow> evalSegs lk ss u (b @ val) st')"

definition seg_keys :: "seg list \<Rightarrow> string list" where
  "seg_keys ss = List.map_filter (\<lambda>s. case s of Key k \<Rightarrow> Some k | Lit _ \<Rightarrow> None) ss"

lemma seg_keys_simps [simp]:
  "seg_keys [] = []" "seg_keys (Lit s # ss) = seg_keys ss" "seg_keys (Key k # ss) = k # seg_keys ss"
  by (simp_all add: seg_keys_def List.map_filter_simps)

declare renderLoop.simps(2) [simp del] scan.simps(2) [simp del]

lemma renderLoop_scan:
  "renderLoop lk i rest b st = evalSegs lk (fst (scan i rest)) (snd (scan i rest)) b st"
proof (induction lk i rest b st rule: renderLoop.induct)
  case (2 lk i c cs b st)
  then show ?case
    by (auto simp: renderLoop.simps(2) [of lk i c cs] scan.simps(2) [of i c cs]
             split: option.split prod.split)
qed simp

lemma renderWith_scan:
  "renderWith tmpl lk st = evalSegs lk (fst (scan 0 tmpl)) (snd (scan 0 tmpl)) [] st"
  by (simp add: renderWith_def renderLoop_scan)

lemma evalSegs_ok:
  "(\<exists>s. fst (evalSegs (pureLookup f) ss u b st) = Inr s) \<longleftrightarrow>
     u = None \<and> (\<forall>k \<in> set (seg_keys ss). f k \<noteq> None)"
  by (induction "pureLookup f" ss u b st rule: evalSegs.induct)
     (auto simp: pureLookup_def split: option.splits)

text \<open>What is reported depends on which keys resolve, not on what they resolve to.\<close>

lemma evalSegs_error_agree:
  assumes "\<And>k. (f k = None) = (g k = None)"
  shows "fst (evalSegs (pureLookup f) ss u b st) = Inl e \<longleftrightarrow>
         fst (evalSegs (pureLookup g) ss u b' st) = Inl e"
proof (induction ss arbitrary: b b')
  case (Cons s ss)
  show ?case
  proof (cases s)
    case (Lit l)
    with Cons show ?thesis by simp
  next
    case (Key k)
    show ?thesis
    proof (cases "f k")
      case None
      with Key assms [of k] show ?thesis by (simp add: pureLookup_def)
    next
      case (Some v)
      moreover from this obtain w where "g k = Some w" using assms [of k] by auto
      ultimately show ?thesis using Key Cons by (simp add: pureLookup_def)
    qed
  qed
qed (simp split: option.split)

lemma evalSegs_keys:
  "evalSegs (\<lambda>key keys. (Some [], keys @ [key])) ss u b st =
     ((case u of None \<Rightarrow> Inr (b @ concat (map (\<lambda>s. case s of Lit l \<Rightarrow> l | Key _ \<Rightarrow> []) ss))
       | Some i \<Rightarrow> Inl (UnmatchedAt i)), st @ seg_keys ss)"
proof (induction ss arbitrary: b st)
  case (Cons s ss)
  then show ?case by (cases s) (auto split: option.split)
qed (simp split: option.split)

lemma Keys_scan:
  "Keys tmpl = (seg_keys (fst (scan 0 tmpl)), map_option UnmatchedAt (snd (scan 0 tmpl)))"
  by (auto simp: Keys_def renderWith_scan evalSegs_keys split: option.split)

text \<open>A context offers exactly the keys of a scope.\<close>

definition scope_matches :: "Scope \<Rightarrow> Context \<Rightarrow> bool" where
  "scope_matches sc ctx \<longleftrightarrow>
     HasN ctx = AllowN sc \<and> HasTargetDB ctx = AllowTargetDB sc \<and>
     dom (cPorts ctx) = set (AllowedPorts sc) \<and> int (length (cDBs ctx)) = max 0 (DBCount sc)"

lemma lookupDB_None_length:
  "length dbs = length dbs' \<Longrightarrow> (lookupDB idx dbs = None) = (lookupDB idx dbs' = None)"
  by (simp add: lookupDB_def split: option.split)

lemma lookup_None_agree:
  assumes "HasN c = HasN d" "HasTargetDB c = HasTargetDB d" "dom (cPorts c) = dom (cPorts d)"
    "length (cDBs c) = length (cDBs d)"
  shows "(lookup k c = None) = (lookup k d = None)"
proof -
  have "(cPorts c n = None) = (cPorts d n = None)" for n using assms(3) by (metis domIff)
  then show ?thesis
    using assms lookupDB_None_length [OF assms(4)]
    by (auto simp: lookup_def split: option.split)
qed

lemma dom_map_of_ones: "dom (map_of (map (\<lambda>name. (name, v)) names)) = set names"
  by (simp add: dom_map_of_conv_image_fst image_image)

lemma nat_digits_Trim: "Trim (nat_digits n) ''0123456789'' = []"
proof -
  have "\<forall>c \<in> set (nat_digits n). c \<in> set ''0123456789''"
  proof
    fix c assume "c \<in> set (nat_digits n)"
    then have "is_digit c" using nat_digits_is_digit by blast
    then have "of_char c \<in> {48 ..< 58 :: nat}" by (simp add: is_digit_def)
    then have "c \<in> char_of ` {48 ..< 58 :: nat}"
      by (metis char_of_char image_eqI)
    also have "char_of ` {48 ..< 58 :: nat} = set ''0123456789''" by code_simp
    finally show "c \<in> set ''0123456789''" .
  qed
  then have "dropWhile (\<lambda>c. c \<in> set ''0123456789'') (nat_digits n) = []"
    by (simp add: dropWhile_eq_Nil_conv del: set_simps)
  then show ?thesis unfolding Trim_def TrimLeft_def TrimRight_def dropWhileEnd_def
    by (simp only: rev.simps dropWhile.simps)
qed

lemma lookupDB_nat_digits:
  "n < length dbs \<Longrightarrow> n < 2 ^ 63 \<Longrightarrow> lookupDB (nat_digits n) dbs = Some (dbs ! n)"
  by (simp add: lookupDB_def nat_digits_Trim Atoi_digits_def digits_val_nat_digits)

section \<open>Properties\<close>

text \<open>A template validated at load time for a scope reports exactly the error that rendering it
  later reports, in every context that offers the scope's keys: it is accepted if and only if it
  renders, and a rejected one fails with the same unknown key or the same unmatched brace.\<close>

theorem validate_iff_render:
  assumes "scope_matches sc ctx"
  shows "Validate tmpl sc = (case Render tmpl ctx of Inl e \<Rightarrow> Some e | Inr _ \<Rightarrow> None)"
proof -
  define vctx where "vctx = (let ctx0 = \<lparr>cSlug = ''x'', cSlugDash = ''x'', cSlugRedisQueue = ''0'',
      cSlugRedisCache = ''0'', cN = 0, HasN = False, cTargetDB = [], HasTargetDB = False,
      cPorts = Map.empty, cDBs = []\<rparr>;
      ctx1 = (if AllowN sc then WithN 0 ctx0 else ctx0);
      ctx2 = (if AllowTargetDB sc then WithTargetDB ''x'' ctx1 else ctx1);
      ctx3 = (if AllowedPorts sc \<noteq> []
              then WithPorts (map_of (map (\<lambda>name. (name, 1)) (AllowedPorts sc))) ctx2 else ctx2)
      in (if DBCount sc > 0 then ctx3\<lparr>cDBs := replicate (nat (DBCount sc)) []\<rparr> else ctx3))"
  have v: "Validate tmpl sc = (case Render tmpl vctx of Inl e \<Rightarrow> Some e | Inr _ \<Rightarrow> None)"
    by (simp add: Validate_def vctx_def Let_def)
  have "(lookup k vctx = None) = (lookup k ctx = None)" for k
    using assms
    by (intro lookup_None_agree)
       (auto simp: vctx_def Let_def WithN_def WithTargetDB_def WithPorts_def scope_matches_def
          dom_map_of_ones)
  then have "\<And>e. Render tmpl vctx = Inl e \<longleftrightarrow> Render tmpl ctx = Inl e"
    unfolding Render_def renderWith_scan by (rule evalSegs_error_agree)
  then show ?thesis unfolding v by (metis (no_types, lifting) old.sum.exhaust sum.simps(5,6))
qed

theorem validate_iff_render_witness:
  "Validate ''{slug}_{target_db}'' \<lparr>AllowN = False, AllowTargetDB = True, AllowedPorts = [], DBCount = 0\<rparr> =
   (case Render ''{slug}_{target_db}'' (WithTargetDB ''db'' (FromSlug defaultRedisRange
      \<lparr>Value = ''wt_1'', Source = SourcePathHash\<rparr>)) of Inl e \<Rightarrow> Some e | Inr _ \<Rightarrow> None)"
  by (rule validate_iff_render)
     (simp add: scope_matches_def WithTargetDB_def FromSlug_def Let_def split: prod.split)

text \<open>\<open>Keys\<close> is complete: it reports an error exactly on an unmatched brace, and otherwise a
  template renders in a context if and only if every key it lists resolves there.\<close>

theorem keys_complete:
  "(\<exists>out. Render tmpl ctx = Inr out) \<longleftrightarrow>
     snd (Keys tmpl) = None \<and> list_all (\<lambda>k. lookup k ctx \<noteq> None) (fst (Keys tmpl))"
  unfolding Render_def renderWith_scan evalSegs_ok Keys_scan by (simp add: list_all_iff)

end
