(* ===== verification/Namespace.thy ===== *)
theory Namespace
  imports Template Engine
begin

text \<open>
  How a branch-scoped database is named: the main-worktree overlay
  (\<open>internal/config/main_worktree_overlay.go\<close>), the active namespace and the durable names of
  \<open>internal/prepare/branchstate.go\<close>, and the sibling-ownership test of
  \<open>internal/prepare/coldbuild_drop.go\<close>.
\<close>

section \<open>Model\<close>

subsection \<open>The main-worktree overlay\<close>

record ClonesSetting =
  Auto :: bool
  Fixed :: u32

record TestClonesSpec =
  tcClones :: ClonesSetting
  tcNameTemplate :: string

text \<open>The fields of a database entry that naming depends on or the overlay replaces.\<close>

record DatabaseConfig =
  d_engine :: string
  d_connection :: string
  d_name_template :: string
  d_key_prefix :: string
  d_test_clones :: "TestClonesSpec option"
  d_fanout :: u32
  d_branch_scoped :: bool

record DatabaseOverlay =
  ov_name_template :: string
  ov_key_prefix :: string
  ov_test_clones :: "TestClonesSpec option"
  ov_fanout :: "u32 option"

record Config =
  Databases :: "DatabaseConfig list"
  MainDatabases :: "DatabaseOverlay list"

definition overlayEntry :: "DatabaseOverlay \<Rightarrow> DatabaseConfig \<Rightarrow> DatabaseConfig" where
  "overlayEntry ov e =
     (let e1 = (if ov_name_template ov \<noteq> [] then e\<lparr>d_name_template := ov_name_template ov\<rparr> else e);
          e2 = (if ov_key_prefix ov \<noteq> [] then e1\<lparr>d_key_prefix := ov_key_prefix ov\<rparr> else e1);
          e3 = (if ov_test_clones ov \<noteq> None then e2\<lparr>d_test_clones := ov_test_clones ov\<rparr> else e2)
      in case ov_fanout ov of Some n \<Rightarrow> e3\<lparr>d_fanout := n\<rparr> | None \<Rightarrow> e3)"

fun overlayLoop :: "DatabaseOverlay list \<Rightarrow> DatabaseConfig list \<Rightarrow> DatabaseConfig list" where
  "overlayLoop (ov # ovs) (e # es) = overlayEntry ov e # overlayLoop ovs es"
| "overlayLoop ovs es = es"

definition ApplyMainWorktreeOverlay :: "Config \<Rightarrow> Config" where
  "ApplyMainWorktreeOverlay cfg =
     (if MainDatabases cfg = [] \<or> Databases cfg = [] then cfg
      else cfg\<lparr>Databases := overlayLoop (MainDatabases cfg) (Databases cfg)\<rparr>)"

subsection \<open>Active and durable names\<close>

datatype bsScope = scopeName | scopePrefix

definition branchScopeFor :: "string \<Rightarrow> (bsScope \<times> string) option" where
  "branchScopeFor eng =
     (case Canonical eng of
        None \<Rightarrow> None
      | Some fam \<Rightarrow>
          if Family_Scope fam = ScopePrefix then Some (scopePrefix, label fam) else Some (scopeName, label fam))"

definition bsHash :: "slug_env \<Rightarrow> string \<Rightarrow> string" where
  "bsHash env s = hexEncode (take 8 (blake3_Sum256 env s))"

definition durable :: "slug_env \<Rightarrow> bsScope \<Rightarrow> string \<Rightarrow> string \<Rightarrow> string \<Rightarrow> string" where
  "durable env scope eng active branch =
     (let h = bsHash env (active @ ''|'' @ branch)
      in if scope = scopePrefix \<and> eng = ''redis'' then ''_tmbs:'' @ h @ '':''
         else if scope = scopePrefix \<and> eng = ''s3'' then ''tmbs-'' @ h
         else if scope = scopePrefix then ''tmbs_'' @ h @ ''_''
         else ''_tmbs_'' @ h)"

definition activeNamespace ::
  "slug_env \<Rightarrow> redis_range \<Rightarrow> DatabaseConfig \<Rightarrow> bsScope \<Rightarrow> string \<Rightarrow> RenderError + string" where
  "activeNamespace env rr e scope worktreePath =
     (let tmpl = (if scope = scopePrefix then d_key_prefix e else d_name_template e);
          stable = For env worktreePath []
      in Render tmpl (FromSlug rr stable))"

definition parentSeedHint :: "string \<Rightarrow> go_error \<Rightarrow> string" where
  "parentSeedHint eng err =
     (if eng \<noteq> ''postgres'' then []
      else if Contains (Error err) ''being accessed by other users'' then
        '' (postgres copies the parent db with CREATE DATABASE TEMPLATE, '' @
        ''which fails while other sessions are connected to it)''
      else [])"

subsection \<open>Names owned by a sibling worktree\<close>

definition isNameDelimiter :: "char \<Rightarrow> bool" where
  "isNameDelimiter b \<longleftrightarrow> \<not> (is_lower b \<or> is_upper b \<or> is_digit b)"

text \<open>The inner loop from position \<open>idx\<close>; at the end of the name nothing is found any more.\<close>

function ownedLoop :: "string \<Rightarrow> string \<Rightarrow> nat \<Rightarrow> bool" where
  "ownedLoop name s idx =
     (if length name \<le> idx then False
      else
        case Index (drop idx name) s of
          None \<Rightarrow> False
        | Some hit \<Rightarrow>
            let start = idx + hit;
                endp = start + length s;
                beforeOK = (start = 0 \<or> isNameDelimiter (name ! (start - 1)));
                afterOK = (endp = length name \<or> isNameDelimiter (name ! endp))
            in if beforeOK \<and> afterOK then True else ownedLoop name s (start + 1))"
  by pat_completeness auto
termination
  by (relation "measure (\<lambda>(name, s, idx). length name - idx)") auto

declare ownedLoop.simps [simp del]

fun nameOwnedByOtherSlug :: "string \<Rightarrow> string list \<Rightarrow> bool" where
  "nameOwnedByOtherSlug name [] = False"
| "nameOwnedByOtherSlug name (s # ss) =
     (if s = [] then nameOwnedByOtherSlug name ss
      else if ownedLoop name s 0 then True else nameOwnedByOtherSlug name ss)"

definition siblingKeep :: "string list \<Rightarrow> (string \<Rightarrow> bool) option" where
  "siblingKeep siblings =
     (if siblings = [] then None else Some (\<lambda>n. \<not> nameOwnedByOtherSlug n siblings))"

section \<open>Lemmas\<close>

text \<open>\<open>s\<close> stands in \<open>name\<close> at \<open>i\<close> as a whole token.\<close>

definition token_at :: "string \<Rightarrow> string \<Rightarrow> nat \<Rightarrow> bool" where
  "token_at name s i \<longleftrightarrow>
     HasPrefix (drop i name) s \<and> i \<le> length name \<and> (i = 0 \<or> isNameDelimiter (name ! (i - 1))) \<and>
     (i + length s = length name \<or> isNameDelimiter (name ! (i + length s)))"

text \<open>\<open>s\<close> occurs in \<open>name\<close> between delimiters or edges.\<close>

definition whole_token :: "string \<Rightarrow> string \<Rightarrow> bool" where
  "whole_token name s \<longleftrightarrow>
     (\<exists>a b. name = a @ s @ b \<and> (a = [] \<or> isNameDelimiter (last a)) \<and> (b = [] \<or> isNameDelimiter (hd b)))"

lemma Index_Some:
  "Index xs sub = Some i \<Longrightarrow> HasPrefix (drop i xs) sub \<and> i \<le> length xs \<and> (\<forall>j < i. \<not> HasPrefix (drop j xs) sub)"
proof (induction xs sub arbitrary: i rule: Index.induct)
  case (1 sub)
  then show ?case by (auto split: if_splits)
next
  case (2 x xs sub)
  show ?case
  proof (cases "HasPrefix (x # xs) sub")
    case True
    then show ?thesis using 2(2) by simp
  next
    case False
    then obtain k where "Index xs sub = Some k" "i = Suc k" using 2(2) by (auto split: if_splits)
    then show ?thesis using 2(1) [OF False] False by (auto simp: less_Suc_eq_0_disj)
  qed
qed

lemma Index_None: "Index xs sub = None \<Longrightarrow> \<not> HasPrefix (drop j xs) sub"
proof (induction xs sub arbitrary: j rule: Index.induct)
  case (1 sub)
  then show ?case by (cases sub) (auto simp: HasPrefix_def)
next
  case (2 x xs sub)
  then show ?case by (cases j) (auto split: if_splits)
qed

lemma ownedLoop_iff:
  assumes "s \<noteq> []"
  shows "ownedLoop name s idx \<longleftrightarrow> (\<exists>i \<ge> idx. token_at name s i)"
  using assms
proof (induction name s idx rule: ownedLoop.induct)
  case (1 name s idx)
  have nothing: "\<not> HasPrefix (drop i name) s" if "length name \<le> i" for i
    using that 1(2) by (simp add: HasPrefix_def)
  have empty: "\<not> HasPrefix [] s" using 1(2) by (simp add: HasPrefix_def)
  show ?case
  proof (cases "length name \<le> idx")
    case True
    then show ?thesis using nothing empty by (auto simp: ownedLoop.simps [of name s idx] token_at_def)
  next
    case False
    show ?thesis
    proof (cases "Index (drop idx name) s")
      case None
      then have "\<not> HasPrefix (drop i name) s" if "idx \<le> i" for i
        using Index_None [OF None, of "i - idx"] that by simp
      then show ?thesis using None by (auto simp: ownedLoop.simps [of name s idx] token_at_def)
    next
      case (Some hit)
      let ?start = "idx + hit"
      have at: "HasPrefix (drop ?start name) s" "?start \<le> length name"
        using Index_Some [OF Some] False by (auto simp: add.commute)
      have before: "\<not> token_at name s i" if "idx \<le> i" "i < ?start" for i
      proof -
        have "i - idx < hit" using that by simp
        with Index_Some [OF Some] have "\<not> HasPrefix (drop (i - idx) (drop idx name)) s" by blast
        then show ?thesis using that(1) by (simp add: token_at_def)
      qed
      show ?thesis
      proof (cases "token_at name s ?start")
        case True
        then have "ownedLoop name s idx"
          using False Some by (simp add: ownedLoop.simps [of name s idx] token_at_def Let_def)
        with True show ?thesis by (meson le_add1)
      next
        case no: False
        then have "ownedLoop name s idx = ownedLoop name s (?start + 1)"
          using False Some at by (auto simp: ownedLoop.simps [of name s idx] token_at_def Let_def)
        also have "\<dots> \<longleftrightarrow> (\<exists>i \<ge> ?start + 1. token_at name s i)"
          using 1(1) [OF False Some refl refl refl refl _ 1(2)] no at by (auto simp: token_at_def)
        also have "\<dots> \<longleftrightarrow> (\<exists>i \<ge> idx. token_at name s i)"
        proof
          assume "\<exists>i \<ge> idx. token_at name s i"
          then obtain i where i: "idx \<le> i" "token_at name s i" by blast
          then have "?start \<le> i" using before [OF i(1)] by (meson not_le)
          moreover have "i \<noteq> ?start" using no i(2) by blast
          ultimately show "\<exists>i \<ge> ?start + 1. token_at name s i" using i(2) by (intro exI [of _ i]) simp
        qed (meson add_leD1)
        finally show ?thesis .
      qed
    qed
  qed
qed

lemma token_at_split:
  "(\<exists>i. token_at name s i) \<longleftrightarrow>
     (\<exists>a b. name = a @ s @ b \<and> (a = [] \<or> isNameDelimiter (last a)) \<and> (b = [] \<or> isNameDelimiter (hd b)))"
proof
  assume "\<exists>i. token_at name s i"
  then obtain i where i: "token_at name s i" by blast
  then obtain b where b: "drop i name = s @ b" by (auto simp: token_at_def HasPrefix_iff)
  have name: "name = take i name @ s @ b" by (metis append_take_drop_id b)
  have len: "length (take i name) = i" using i by (simp add: token_at_def)
  have "take i name = [] \<or> isNameDelimiter (last (take i name))"
  proof (cases i)
    case (Suc k)
    then have "last (take i name) = name ! k" using len by (simp add: take_Suc_conv_app_nth)
    then show ?thesis using i Suc by (simp add: token_at_def)
  qed simp
  moreover have "b = [] \<or> isNameDelimiter (hd b)"
  proof (cases b)
    case (Cons x xs)
    have "drop i name ! length s = x" by (simp add: b Cons)
    then have "name ! (i + length s) = x" using i by (simp add: token_at_def)
    moreover have "length (drop i name) = length s + length b" by (simp add: b)
    then have "i + length s \<noteq> length name" using i Cons by (auto simp: token_at_def)
    ultimately show ?thesis using i Cons by (simp add: token_at_def)
  qed simp
  ultimately show "\<exists>a b. name = a @ s @ b \<and> (a = [] \<or> isNameDelimiter (last a)) \<and> (b = [] \<or> isNameDelimiter (hd b))"
    using name by blast
next
  assume "\<exists>a b. name = a @ s @ b \<and> (a = [] \<or> isNameDelimiter (last a)) \<and> (b = [] \<or> isNameDelimiter (hd b))"
  then obtain a b where ab: "name = a @ s @ b" "a = [] \<or> isNameDelimiter (last a)" "b = [] \<or> isNameDelimiter (hd b)"
    by blast
  then have "token_at name s (length a)"
    by (cases a rule: rev_cases; cases b) (auto simp: token_at_def nth_append HasPrefix_iff)
  then show "\<exists>i. token_at name s i" by blast
qed

lemma length_bsHash: "blake3_ok env \<Longrightarrow> length (bsHash env s) = 16"
  by (simp add: bsHash_def blake3_ok_def length_hexEncode)

lemma bsHash_hex: "list_all hex_char (bsHash env s)"
  using hexEncode_hex by (auto simp: bsHash_def list_all_iff)

lemma bar_split_eq:
  "CHR ''|'' \<notin> set a \<Longrightarrow> CHR ''|'' \<notin> set a' \<Longrightarrow> a @ ''|'' @ b = a' @ ''|'' @ b' \<longleftrightarrow> a = a' \<and> b = b'"
  by (induction a a' rule: list_induct2') auto

lemma length_overlayLoop: "length (overlayLoop ovs es) = length es"
  by (induction ovs es rule: overlayLoop.induct) auto

lemma overlayLoop_nth:
  "i < length es \<Longrightarrow> overlayLoop ovs es ! i = (if i < length ovs then overlayEntry (ovs ! i) (es ! i) else es ! i)"
  by (induction ovs es arbitrary: i rule: overlayLoop.induct) (auto simp: nth_Cons split: nat.splits)

section \<open>Properties\<close>

text \<open>
  A name counts as owned by a sibling worktree exactly when it contains one of the non-empty
  sibling slugs as a whole token, bounded on both sides by a non-alphanumeric byte or the edge of
  the name; the search misses no occurrence and ends for every name.
\<close>

theorem name_owned_iff_token:
  "nameOwnedByOtherSlug name slugs \<longleftrightarrow>
     (\<exists>s. s \<in> set slugs \<and> s \<noteq> [] \<and>
        whole_token name s)"
proof (induction slugs)
  case (Cons s ss)
  have "nameOwnedByOtherSlug name (s # ss) \<longleftrightarrow> s \<noteq> [] \<and> (\<exists>i. token_at name s i) \<or> nameOwnedByOtherSlug name ss"
    using ownedLoop_iff [of s name 0] by auto
  then show ?case by (auto simp: Cons.IH token_at_split whole_token_def [symmetric])
qed simp

text \<open>
  Two durable copies of one engine share a name only when they are the copies of the same active
  namespace and the same branch, as long as the hash does not collide on the two inputs and no
  active name contains the separator.
\<close>

theorem durable_injective:
  assumes "CHR ''|'' \<notin> set active" "CHR ''|'' \<notin> set active'"
    and "bsHash env (active @ ''|'' @ branch) = bsHash env (active' @ ''|'' @ branch') \<Longrightarrow>
           active @ ''|'' @ branch = active' @ ''|'' @ branch'"
  shows "durable env scope eng active branch = durable env scope eng active' branch' \<longleftrightarrow>
           active = active' \<and> branch = branch'"
  using assms(3) bar_split_eq [OF assms(1,2), of branch branch'] by (auto simp: durable_def Let_def)

lemma durable_injective_witness:
  "durable sample_env scopeName ''mysql'' ''a'' ''x'' \<noteq> durable sample_env scopeName ''mysql'' ''a'' ''y''"
proof -
  have "bsHash sample_env (''a'' @ ''|'' @ ''x'') \<noteq> bsHash sample_env (''a'' @ ''|'' @ ''y'')" by code_simp
  then show ?thesis using durable_injective [of "''a''" "''a''" sample_env "''x''" "''y''" scopeName "''mysql''"] by simp
qed

text \<open>
  A durable name is built from lowercase letters, digits and separators only and is at most 23
  bytes long, so it fits the identifier limits of every engine; an object-storage durable is a
  valid bucket name: 21 bytes, no underscore.
\<close>

theorem durable_shape:
  assumes "blake3_ok env"
  shows "length (durable env scope eng active branch) \<le> 23 \<and>
    list_all (\<lambda>c. slug_char c \<or> c = CHR '':'' \<or> c = CHR ''-'') (durable env scope eng active branch) \<and>
    (scope = scopePrefix \<and> eng = ''s3'' \<longrightarrow>
       length (durable env scope eng active branch) = 21 \<and>
       list_all (\<lambda>c. is_lower c \<or> is_digit c \<or> c = CHR ''-'') (durable env scope eng active branch))"
proof -
  let ?h = "bsHash env (active @ ''|'' @ branch)"
  have h: "list_all (\<lambda>c. is_lower c \<or> is_digit c \<or> c = CHR ''-'') ?h" "length ?h = 16"
    using bsHash_hex [of env "active @ ''|'' @ branch"] hex_char_slug length_bsHash [OF assms]
    by (auto simp: list_all_iff)
  moreover have "list_all (\<lambda>c. slug_char c \<or> c = CHR '':'' \<or> c = CHR ''-'') ?h"
    using h(1) by (auto simp: list_all_iff slug_char_def)
  ultimately show ?thesis by (auto simp: durable_def Let_def slug_char_def is_lower_def)
qed

lemma durable_shape_witness:
  "length (durable sample_env scopePrefix ''s3'' ''a'' ''b'') = 21"
  using durable_shape [OF sample_env_ok, of scopePrefix "''s3''" "''a''" "''b''"] by simp

text \<open>
  Applying the main-worktree overlay keeps the number of databases, their engines and their
  branch scoping; a covered entry takes each field the overlay sets and keeps the others, and an
  entry past the overlay is unchanged.
\<close>

theorem overlay_fields:
  assumes "i < length (Databases cfg)"
  shows "length (Databases (ApplyMainWorktreeOverlay cfg)) = length (Databases cfg) \<and>
    (let e = Databases cfg ! i; e' = Databases (ApplyMainWorktreeOverlay cfg) ! i
     in d_engine e' = d_engine e \<and> d_connection e' = d_connection e \<and> d_branch_scoped e' = d_branch_scoped e \<and>
        (if i < length (MainDatabases cfg)
         then let ov = MainDatabases cfg ! i
              in d_name_template e' = (if ov_name_template ov = [] then d_name_template e else ov_name_template ov) \<and>
                 d_key_prefix e' = (if ov_key_prefix ov = [] then d_key_prefix e else ov_key_prefix ov) \<and>
                 d_test_clones e' = (if ov_test_clones ov = None then d_test_clones e else ov_test_clones ov) \<and>
                 d_fanout e' = (case ov_fanout ov of None \<Rightarrow> d_fanout e | Some n \<Rightarrow> n)
         else e' = e))"
  using assms overlayLoop_nth [of i "Databases cfg" "MainDatabases cfg"] length_overlayLoop [of "MainDatabases cfg" "Databases cfg"]
  by (auto simp: ApplyMainWorktreeOverlay_def Let_def overlayEntry_def split: option.splits)

lemma overlay_fields_witness:
  "d_name_template (Databases (ApplyMainWorktreeOverlay
     \<lparr>Databases = [\<lparr>d_engine = ''mysql'', d_connection = [], d_name_template = ''app_{slug}'', d_key_prefix = [],
        d_test_clones = None, d_fanout = 0, d_branch_scoped = True\<rparr>],
      MainDatabases = [\<lparr>ov_name_template = ''app'', ov_key_prefix = [], ov_test_clones = None, ov_fanout = None\<rparr>]\<rparr>) ! 0)
   = ''app''"
  using overlay_fields [of 0
     "\<lparr>Databases = [\<lparr>d_engine = ''mysql'', d_connection = [], d_name_template = ''app_{slug}'', d_key_prefix = [],
        d_test_clones = None, d_fanout = 0, d_branch_scoped = True\<rparr>],
      MainDatabases = [\<lparr>ov_name_template = ''app'', ov_key_prefix = [], ov_test_clones = None, ov_fanout = None\<rparr>]\<rparr>"]
  by (simp add: Let_def)

end
