(* ===== verification/BaseRef.thy ===== *)
theory BaseRef
  imports Namespace BranchStore
begin

text \<open>
  Where a new branch's database is seeded from, \<open>internal/prepare/baseref.go\<close>: the base branch of a
  branch, and the live database of the worktree that has it checked out.

  The git executable is a parameter, the output or the failure of a command in a directory; it does
  not change while one resolution runs.
\<close>

section \<open>Model\<close>

type_synonym git = "string \<Rightarrow> string list \<Rightarrow> go_error + string"

record nameEnv =
  slugs :: slug_env
  redis :: redis_range

definition gitString :: "git \<Rightarrow> git" where
  "gitString git dir args = map_sum id TrimSpace (git dir args)"

definition gitExists :: "git \<Rightarrow> string \<Rightarrow> string \<Rightarrow> bool" where
  "gitExists git dir ref = (\<not> isl (git dir [''rev-parse'', ''--verify'', ''--quiet'', ref]))"

definition BranchBase :: "git \<Rightarrow> string \<Rightarrow> string \<Rightarrow> string" where
  "BranchBase git dir branch =
     (if branch = [] then []
      else
        case gitString git dir [''config'', ''--get'', ''branch.'' @ branch @ ''.treemanBase''] of
          Inl e \<Rightarrow> []
        | Inr out \<Rightarrow> TrimSpace out)"

fun splitByte :: "char \<Rightarrow> string \<Rightarrow> string list" where
  "splitByte sep [] = [[]]"
| "splitByte sep (c # cs) =
     (if c = sep then [] # splitByte sep cs
      else case splitByte sep cs of [] \<Rightarrow> [[c]] | l # ls \<Rightarrow> (c # l) # ls)"

definition splitLines :: "string \<Rightarrow> string list" where
  "splitLines s = splitByte (CHR 0x0A) s"

definition stripRemotePrefix :: "git \<Rightarrow> string \<Rightarrow> string \<Rightarrow> string" where
  "stripRemotePrefix git repoRoot ref =
     (case Cut ref ''/'' of
        None \<Rightarrow> ref
      | Some (candidate, after) \<Rightarrow>
          (case git repoRoot [''remote''] of
             Inl e \<Rightarrow> ref
           | Inr remotes \<Rightarrow>
               if list_ex (\<lambda>r. TrimSpace r = candidate) (splitLines (TrimSpace remotes)) then after else ref))"

definition baseBranchOf :: "git \<Rightarrow> string \<Rightarrow> string \<Rightarrow> string" where
  "baseBranchOf git repoRoot branch =
     (if branch = [] then []
      else if BranchBase git repoRoot branch \<noteq> [] then BranchBase git repoRoot branch
      else
        case gitString git repoRoot [''rev-parse'', ''--abbrev-ref'', branch @ [CHR 0x40] @ ''{upstream}''] of
          Inl e \<Rightarrow> []
        | Inr out \<Rightarrow> if out = [] then [] else stripRemotePrefix git repoRoot out)"

definition lookupMainBranch :: "git \<Rightarrow> string \<Rightarrow> int \<Rightarrow> (branchDB, string) action" where
  "lookupMainBranch git repoRoot repo =
     bindA
       (if 0 < repo then
          wrapA (\<lambda>e. Wrapf (''look up the main worktree of repo '' @ Itoa repo @ '': '') e []) (LookupMainWorktree repo)
        else returnA noWorktree)
       (\<lambda>row.
          if 0 < repo \<and> \<not> wt_deleted row \<and> wt_branch row \<noteq> [] then returnA (wt_branch row)
          else
            case gitString git repoRoot [''rev-parse'', ''--abbrev-ref'', ''HEAD''] of
              Inl e \<Rightarrow> returnA []
            | Inr out \<Rightarrow> returnA (if TrimSpace out = ''HEAD'' then [] else TrimSpace out))"

text \<open>The candidate list and the names seen so far; a name is only looked at once.\<close>

definition addCandidate ::
  "git \<Rightarrow> string \<Rightarrow> bool \<Rightarrow> string \<Rightarrow> string list \<times> string list \<Rightarrow> string list \<times> string list" where
  "addCandidate git repoRoot mustExist b acc =
     (case acc of (out, seen) \<Rightarrow>
        if b = [] \<or> b \<in> set seen then (out, seen)
        else if mustExist \<and> \<not> gitExists git repoRoot (''refs/heads/'' @ b) then (out, b # seen)
        else (out @ [b], b # seen))"

definition baseCandidates :: "git \<Rightarrow> string \<Rightarrow> int \<Rightarrow> (branchDB, string list) action" where
  "baseCandidates git repoRoot repo =
     bindA (lookupMainBranch git repoRoot repo) (\<lambda>mainBranch.
       let acc0 = addCandidate git repoRoot False mainBranch ([], [])
       in if repo \<le> 0 then returnA (fst acc0)
          else
            bindA (wrapA (\<lambda>e. Wrapf (''list the worktrees of repo '' @ Itoa repo @ '' for base-branch candidates: '') e [])
                    (ListWorktreesForRepo repo)) (\<lambda>rows.
            let acc1 = fold (addCandidate git repoRoot True)
                         (map wt_branch (filter (\<lambda>w. \<not> wt_deleted w) rows)) acc0
            in bindA (wrapA (\<lambda>e. Wrapf (''list the durable copies of repo '' @ Itoa repo @ '' for base-branch candidates: '') e [])
                       (ListBranchDurables repo)) (\<lambda>durs.
               returnA (fst (fold (addCandidate git repoRoot True) (map bd_branch durs) acc1)))))"

definition tipOf :: "git \<Rightarrow> string \<Rightarrow> string \<Rightarrow> string option" where
  "tipOf git repoRoot b =
     (case gitString git repoRoot [''rev-parse'', ''--verify'', ''--quiet'', b @ ''^{commit}''] of
        Inl e \<Rightarrow> None
      | Inr out \<Rightarrow> if out = [] then None else Some out)"

definition mergeBase :: "git \<Rightarrow> string \<Rightarrow> string \<Rightarrow> string \<Rightarrow> string option" where
  "mergeBase git repoRoot a b =
     (case gitString git repoRoot [''merge-base'', a, b] of
        Inl e \<Rightarrow> None
      | Inr mb \<Rightarrow> if mb = [] then None else Some mb)"

definition isAncestor :: "git \<Rightarrow> string \<Rightarrow> string \<Rightarrow> string \<Rightarrow> bool" where
  "isAncestor git repoRoot a b = (\<not> isl (git repoRoot [''merge-base'', ''--is-ancestor'', a, b]))"

text \<open>
  The merge-base of a candidate that counts: not the branch itself, history in common, and not a
  child of the branch.  A candidate whose tip cannot be read has the empty tip.
\<close>

definition forkPoint :: "git \<Rightarrow> string \<Rightarrow> string \<Rightarrow> string \<Rightarrow> string \<Rightarrow> string option" where
  "forkPoint git repoRoot newBranch tip c =
     (if c = newBranch then None
      else
        case mergeBase git repoRoot newBranch c of
          None \<Rightarrow> None
        | Some mb \<Rightarrow> if mb = tip \<and> tipOf git repoRoot c \<noteq> Some tip then None else Some mb)"

fun nearestLoop :: "git \<Rightarrow> string \<Rightarrow> string \<Rightarrow> string \<Rightarrow> string list \<Rightarrow> (string \<times> string) option \<Rightarrow> (string \<times> string) option" where
  "nearestLoop git repoRoot newBranch tip [] best = best"
| "nearestLoop git repoRoot newBranch tip (c # cs) best =
     (case forkPoint git repoRoot newBranch tip c of
        None \<Rightarrow> nearestLoop git repoRoot newBranch tip cs best
      | Some mb \<Rightarrow>
          (case best of
             None \<Rightarrow> nearestLoop git repoRoot newBranch tip cs (Some (c, mb))
           | Some (b, bestMB) \<Rightarrow>
               if mb = bestMB then nearestLoop git repoRoot newBranch tip cs best
               else if isAncestor git repoRoot bestMB mb then nearestLoop git repoRoot newBranch tip cs (Some (c, mb))
               else nearestLoop git repoRoot newBranch tip cs best))"

definition nearestBaseCandidate :: "git \<Rightarrow> string \<Rightarrow> string \<Rightarrow> string list \<Rightarrow> string" where
  "nearestBaseCandidate git repoRoot newBranch candidates =
     (case tipOf git repoRoot newBranch of
        None \<Rightarrow> []
      | Some tip \<Rightarrow> (case nearestLoop git repoRoot newBranch tip candidates None of None \<Rightarrow> [] | Some (b, mb) \<Rightarrow> b))"

definition resolveBaseBranch :: "git \<Rightarrow> string \<Rightarrow> int \<Rightarrow> string \<Rightarrow> (branchDB, string) action" where
  "resolveBaseBranch git repoRoot repo newBranch =
     (let b = baseBranchOf git repoRoot newBranch
      in if b \<noteq> [] \<and> b \<noteq> newBranch then returnA b
         else bindA (baseCandidates git repoRoot repo) (\<lambda>candidates.
                returnA (nearestBaseCandidate git repoRoot newBranch candidates)))"

definition baseTemplate :: "DatabaseConfig \<Rightarrow> bsScope \<Rightarrow> string" where
  "baseTemplate e scope = (if scope = scopePrefix then d_key_prefix e else d_name_template e)"

text \<open>\<open>RenderError.Error\<close> tells the two kinds apart by the key, so an empty key reads as an unmatched brace.\<close>

definition renderFailed :: "RenderError \<Rightarrow> go_error" where
  "renderFailed e =
     (let unmatched = (\<lambda>i. NewError (''unmatched '' @ [CHR 0x27, CHR 0x7B, CHR 0x27] @ '' at offset '' @ Itoa (int i)))
      in case e of
           UnknownKey k \<Rightarrow> if k \<noteq> [] then NewError (''unknown template key: '' @ k) else unmatched 0
         | UnmatchedAt i \<Rightarrow> unmatched i)"

definition renderA :: "string \<Rightarrow> Context \<Rightarrow> ('s, string) action" where
  "renderA tmpl c = (case Render tmpl c of Inl e \<Rightarrow> raiseA (renderFailed e) | Inr name \<Rightarrow> returnA name)"

definition renderMainBaseDB ::
  "nameEnv \<Rightarrow> Config \<Rightarrow> nat \<Rightarrow> bsScope \<Rightarrow> string \<Rightarrow> string \<Rightarrow> ('s, string \<times> bool) action" where
  "renderMainBaseDB N cfg dbIdx scope path branch =
     (let dbs = Databases (ApplyMainWorktreeOverlay cfg)
      in if length dbs \<le> dbIdx then returnA ([], False)
         else bindA (renderA (baseTemplate (dbs ! dbIdx) scope)
                       (FromSlug (redis N) (ForMain (slugs N) path branch)))
                (\<lambda>name. returnA (name, name \<noteq> [])))"

definition renderWorktreeBaseDB ::
  "nameEnv \<Rightarrow> Config \<Rightarrow> nat \<Rightarrow> bsScope \<Rightarrow> Slug \<Rightarrow> ('s, string \<times> bool) action" where
  "renderWorktreeBaseDB N cfg dbIdx scope sl =
     (if length (Databases cfg) \<le> dbIdx then returnA ([], False)
      else bindA (renderA (baseTemplate (Databases cfg ! dbIdx) scope) (FromSlug (redis N) sl))
             (\<lambda>name. returnA (name, name \<noteq> [])))"

definition resolveBaseSourceDB ::
  "git \<Rightarrow> nameEnv \<Rightarrow> Config \<Rightarrow> string \<Rightarrow> int \<Rightarrow> nat \<Rightarrow> bsScope \<Rightarrow> string \<Rightarrow> (branchDB, string \<times> bool) action" where
  "resolveBaseSourceDB git N cfg repoRoot repo dbIdx scope newBranch =
     bindA (resolveBaseBranch git repoRoot repo newBranch) (\<lambda>baseBranch.
       if baseBranch = [] then returnA ([], False)
       else bindA (ListWorktreesForRepo repo) (\<lambda>rows.
         case find (\<lambda>w. \<not> wt_deleted w \<and> wt_branch w = baseBranch) rows of
           Some w \<Rightarrow>
             if wt_main w then renderMainBaseDB N cfg dbIdx scope (wt_path w) baseBranch
             else renderWorktreeBaseDB N cfg dbIdx scope (For (slugs N) (wt_path w) [])
         | None \<Rightarrow>
             if gitString git repoRoot [''rev-parse'', ''--abbrev-ref'', ''HEAD''] = Inr baseBranch then
               renderMainBaseDB N cfg dbIdx scope repoRoot baseBranch
             else returnA ([], False)))"

definition mainWorktreeBaseDB ::
  "git \<Rightarrow> nameEnv \<Rightarrow> Config \<Rightarrow> string \<Rightarrow> int \<Rightarrow> nat \<Rightarrow> bsScope \<Rightarrow> string \<Rightarrow> (branchDB, string \<times> bool) action" where
  "mainWorktreeBaseDB git N cfg repoRoot repo dbIdx scope newBranch =
     bindA (lookupMainBranch git repoRoot repo) (\<lambda>mainBranch.
       if mainBranch = [] \<or> mainBranch = newBranch then returnA ([], False)
       else
         case gitString git repoRoot [''merge-base'', newBranch, mainBranch] of
           Inl e \<Rightarrow> returnA ([], False)
         | Inr mb \<Rightarrow>
             if TrimSpace mb = [] then returnA ([], False)
             else
               bindA (wrapA (\<lambda>e. Wrapf (''look up the main worktree of repo '' @ Itoa repo @ '': '') e [])
                        (LookupMainWorktree repo)) (\<lambda>row.
                 let path = (if \<not> wt_deleted row \<and> wt_path row \<noteq> [] then wt_path row else repoRoot)
                 in renderMainBaseDB N cfg dbIdx scope path mainBranch))"

section \<open>Lemmas\<close>

text \<open>One round of the loop over the candidates.\<close>

definition pick :: "git \<Rightarrow> string \<Rightarrow> string \<Rightarrow> string \<Rightarrow> (string \<times> string) option \<Rightarrow> string \<Rightarrow> (string \<times> string) option" where
  "pick git root nb tip best c =
     (case forkPoint git root nb tip c of
        None \<Rightarrow> best
      | Some mb \<Rightarrow>
          (case best of
             None \<Rightarrow> Some (c, mb)
           | Some (b, bm) \<Rightarrow> if mb = bm then best else if isAncestor git root bm mb then Some (c, mb) else best))"

lemma nearestLoop_Cons:
  "nearestLoop git root nb tip (c # cs) best = nearestLoop git root nb tip cs (pick git root nb tip best c)"
  by (auto simp: pick_def split: option.splits)

text \<open>A history in which ancestry orders the fork points of the candidates.\<close>

definition linear_forks :: "git \<Rightarrow> string \<Rightarrow> string \<Rightarrow> string \<Rightarrow> string list \<Rightarrow> bool" where
  "linear_forks git root nb tip cs \<longleftrightarrow>
     (\<forall>x. isAncestor git root x x) \<and>
     (\<forall>x y z. isAncestor git root x y \<longrightarrow> isAncestor git root y z \<longrightarrow> isAncestor git root x z) \<and>
     (\<forall>c \<in> set cs. \<forall>c' \<in> set cs. \<forall>m m'. forkPoint git root nb tip c = Some m \<longrightarrow>
        forkPoint git root nb tip c' = Some m' \<longrightarrow> isAncestor git root m m' \<or> isAncestor git root m' m)"

definition fork_of :: "git \<Rightarrow> string \<Rightarrow> string \<Rightarrow> string \<Rightarrow> string list \<Rightarrow> (string \<times> string) option \<Rightarrow> bool" where
  "fork_of git root nb tip cs best \<longleftrightarrow>
     (\<forall>b m. best = Some (b, m) \<longrightarrow> b \<in> set cs \<and> forkPoint git root nb tip b = Some m)"

lemma pick_fork_of:
  "fork_of git root nb tip cs best \<Longrightarrow> c \<in> set cs \<Longrightarrow> fork_of git root nb tip cs (pick git root nb tip best c)"
  by (auto simp: fork_of_def pick_def split: option.splits)

lemma pick_keeps:
  "linear_forks git root nb tip cs \<Longrightarrow> best = Some (b, mb) \<Longrightarrow> isAncestor git root m mb \<Longrightarrow>
     \<exists>b' mb'. pick git root nb tip best c = Some (b', mb') \<and> isAncestor git root m mb'"
  by (auto simp: linear_forks_def pick_def split: option.splits)

lemma pick_dominates:
  assumes "linear_forks git root nb tip cs" "fork_of git root nb tip cs best" "c \<in> set cs"
    "forkPoint git root nb tip c = Some m"
  shows "\<exists>b mb. pick git root nb tip best c = Some (b, mb) \<and> isAncestor git root m mb"
proof (cases best)
  case None
  then show ?thesis using assms by (auto simp: pick_def linear_forks_def)
next
  case (Some p)
  obtain b bm where p: "p = (b, bm)" by (cases p)
  have "b \<in> set cs" "forkPoint git root nb tip b = Some bm" using assms(2) Some p by (auto simp: fork_of_def)
  then have "isAncestor git root m bm \<or> isAncestor git root bm m"
    using assms(1,3,4) unfolding linear_forks_def by blast
  moreover have "isAncestor git root m m" using assms(1) by (simp add: linear_forks_def)
  ultimately show ?thesis using assms(4) Some p by (auto simp: pick_def)
qed

lemma nearestLoop_keeps:
  assumes "linear_forks git root nb tip cs" "best = Some (b, mb)" "isAncestor git root m mb"
  shows "\<exists>b mb. nearestLoop git root nb tip xs best = Some (b, mb) \<and> isAncestor git root m mb"
  using assms(2,3)
proof (induction xs arbitrary: best b mb)
  case (Cons x xs)
  from pick_keeps [OF assms(1) Cons.prems, of x] show ?case
    using Cons.IH unfolding nearestLoop_Cons by blast
qed simp

lemma nearestLoop_dominates:
  assumes "linear_forks git root nb tip cs" "fork_of git root nb tip cs best" "set xs \<subseteq> set cs"
    "c \<in> set xs" "forkPoint git root nb tip c = Some m"
  shows "\<exists>b mb. nearestLoop git root nb tip xs best = Some (b, mb) \<and> isAncestor git root m mb"
  using assms(2-4)
proof (induction xs arbitrary: best)
  case (Cons x xs)
  have f: "fork_of git root nb tip cs (pick git root nb tip best x)"
    using Cons.prems by (intro pick_fork_of) auto
  show ?case
  proof (cases "c = x")
    case True
    then obtain b mb where "pick git root nb tip best x = Some (b, mb)" "isAncestor git root m mb"
      using pick_dominates [OF assms(1) Cons.prems(1), of c m] assms(5) Cons.prems by auto
    then show ?thesis unfolding nearestLoop_Cons by (rule nearestLoop_keeps [OF assms(1)])
  next
    case False
    then show ?thesis using Cons.IH [OF f] Cons.prems unfolding nearestLoop_Cons by simp
  qed
qed simp

lemma nearestLoop_fork_of:
  "fork_of git root nb tip cs best \<Longrightarrow> set xs \<subseteq> set cs \<Longrightarrow>
     fork_of git root nb tip cs (nearestLoop git root nb tip xs best)"
proof (induction xs arbitrary: best)
  case (Cons x xs)
  then show ?case unfolding nearestLoop_Cons by (intro Cons.IH pick_fork_of) auto
qed simp

section \<open>Properties\<close>

text \<open>
  When ancestry orders the fork points of the candidates, the branch chosen as base is a candidate
  with the latest fork point: the fork point of every other candidate is an ancestor of its own.
  Candidates without shared history and children of the new branch have no fork point.
\<close>

theorem nearest_base_is_latest_fork:
  assumes "tipOf git root nb = Some tip" "linear_forks git root nb tip cs"
    and "c \<in> set cs" "forkPoint git root nb tip c = Some m"
  shows "\<exists>mb. nearestBaseCandidate git root nb cs \<in> set cs \<and>
    forkPoint git root nb tip (nearestBaseCandidate git root nb cs) = Some mb \<and> isAncestor git root m mb"
proof -
  have start: "fork_of git root nb tip cs None" by (simp add: fork_of_def)
  obtain b mb where r: "nearestLoop git root nb tip cs None = Some (b, mb)" "isAncestor git root m mb"
    using nearestLoop_dominates [OF assms(2) start _ assms(3,4)] by auto
  moreover have "b \<in> set cs \<and> forkPoint git root nb tip b = Some mb"
    using nearestLoop_fork_of [OF start, of cs] r(1) by (simp add: fork_of_def)
  ultimately show ?thesis using assms(1) by (simp add: nearestBaseCandidate_def)
qed

text \<open>A history in which \<open>feat\<close> forked off \<open>main\<close> at commit 1 and off \<open>dev\<close> at commit 2.\<close>

definition sample_git :: git where
  "sample_git dir args =
     (if args ! 0 = ''rev-parse'' then Inr ''3''
      else if args ! 1 = ''--is-ancestor'' then (if args ! 2 \<le> args ! 3 then Inr [] else Inl (NewError []))
      else if args ! 2 = ''main'' then Inr ''1'' else Inr ''2'')"

lemma nearest_base_is_latest_fork_witness:
  "\<exists>mb. nearestBaseCandidate sample_git [] ''feat'' [''main'', ''dev''] \<in> set [''main'', ''dev''] \<and>
     isAncestor sample_git [] ''1'' mb"
proof -
  have tip: "tipOf sample_git [] ''feat'' = Some ''3''" by code_simp
  have m: "forkPoint sample_git [] ''feat'' ''3'' ''main'' = Some ''1''" by code_simp
  have "isAncestor sample_git [] x y \<longleftrightarrow> x \<le> y" for x y by (simp add: isAncestor_def sample_git_def)
  then have "linear_forks sample_git [] ''feat'' ''3'' [''main'', ''dev'']"
    by (simp add: linear_forks_def linear) (meson linear order_trans)
  from nearest_base_is_latest_fork [OF tip this _ m] show ?thesis by (meson list.set_intros)
qed

end
