(* ===== verification/BranchState.thy ===== *)
theory BranchState
  imports Retry BaseRef
begin

text \<open>
  The swap lifecycle of branch-scoped databases, \<open>internal/prepare/branchstate.go\<close>: seeding, adopting and
  swapping the active namespace, the durable copy of each branch, the migrate step with its fallback,
  and save, reset and teardown.

  A driver is a record of operations on the engine's state; the S3 adapter in theory \<open>S3Driver\<close> is one.
  The migrate and seed commands, the dump loader, the list of dump files that are present and the git
  executable are parameters of a run.  Messages of events are not modelled, only their level and
  type.
\<close>

section \<open>Model\<close>

subsection \<open>The driver interface\<close>

record 'e rowSampler =
  RowCountSample :: "string \<Rightarrow> ('e, (string \<times> int) list) action"
  RowCountsFor :: "string \<Rightarrow> string list \<Rightarrow> ('e, (string \<times> int) list) action"

record 'e nsDriver =
  nsExists :: "string \<Rightarrow> ('e, bool) action"
  nsCapture :: "string \<Rightarrow> string \<Rightarrow> ('e, unit) action"
  nsRestore :: "string \<Rightarrow> string \<Rightarrow> ('e, unit) action"
  nsRestoreParent :: "string \<Rightarrow> string \<Rightarrow> (string \<Rightarrow> bool) option \<Rightarrow> ('e, unit) action"
  nsEmpty :: "string \<Rightarrow> ('e, unit) action"
  nsDrop :: "string \<Rightarrow> ('e, unit) action"
  nsDropDurable :: "string \<Rightarrow> ('e, unit) action"
  nsWatermark :: "string \<Rightarrow> ('e, string) action"
  nsSampler :: "'e rowSampler option"

record 'e branchEngine =
  drv :: "'e nsDriver"
  scope :: bsScope
  label_of :: string

record dumpFile =
  dumpPath :: string
  dumpSourceDB :: string

record 'e branchScopedArgs =
  cfg :: Config
  dbConf :: DatabaseConfig
  dbIdx :: nat
  worktreePath :: string
  repoID :: int
  worktreeID :: int
  migrateFP :: string
  eng :: "'e branchEngine"
  names :: nameEnv
  git_of :: git
  dumps :: "go_error + dumpFile list"
  loadDump :: "(string \<Rightarrow> dumpFile \<Rightarrow> ('e, unit) action) option"
  migrateStepFn :: "(string \<Rightarrow> ('e, unit) action) option"
  seedStepFn :: "(string \<Rightarrow> ('e, unit) action) option"
  commandNotFound :: "go_error \<Rightarrow> bool"

definition durableName :: "'e branchScopedArgs \<Rightarrow> string \<Rightarrow> string \<Rightarrow> string" where
  "durableName a active branch = durable (slugs (names a)) (scope (eng a)) (label_of (eng a)) active branch"

subsection \<open>Verified captures\<close>

definition captureRetrying :: "'e nsDriver \<Rightarrow> string \<Rightarrow> string \<Rightarrow> ('e world, unit) action" where
  "captureRetrying D active dur = retryTransient (onEngine (nsCapture D active dur))"

definition sampleRows :: "'e nsDriver \<Rightarrow> string \<Rightarrow> ('e world, (string \<times> int) list option) action" where
  "sampleRows D ns =
     (case nsSampler D of
        None \<Rightarrow> returnA None
      | Some rs \<Rightarrow>
          bindA (tryA (onEngine (RowCountSample rs ns))) (\<lambda>r.
            case r of
              Inl err \<Rightarrow> returnA None
            | Inr sample \<Rightarrow> returnA (if sample = [] then None else Some sample)))"

definition sampleHasRows :: "(string \<times> int) list \<Rightarrow> bool" where
  "sampleHasRows sample = list_ex (\<lambda>p. 0 < snd p) sample"

definition countOf :: "(string \<times> int) list \<Rightarrow> string \<Rightarrow> int" where
  "countOf counts table = (case map_of counts table of Some n \<Rightarrow> n | None \<Rightarrow> 0)"

definition sampleMissingRows :: "'e nsDriver \<Rightarrow> string \<Rightarrow> (string \<times> int) list \<Rightarrow> ('e world, bool) action" where
  "sampleMissingRows D ns srcSample =
     (case nsSampler D of
        None \<Rightarrow> returnA False
      | Some rs \<Rightarrow>
          (let tabs = map fst (filter (\<lambda>p. 0 < snd p) srcSample)
           in if tabs = [] then returnA False
              else bindA (tryA (onEngine (RowCountsFor rs ns tabs))) (\<lambda>r.
                case r of
                  Inl err \<Rightarrow> returnA False
                | Inr copyCounts \<Rightarrow> returnA (list_ex (\<lambda>t. countOf copyCounts t = 0) tabs))))"

definition captureVerified :: "'e nsDriver \<Rightarrow> string \<Rightarrow> string \<Rightarrow> ('e world, unit) action" where
  "captureVerified D active dur =
     bindA (captureRetrying D active dur) (\<lambda>_.
     bindA (sampleRows D active) (\<lambda>sample.
       case sample of
         None \<Rightarrow> returnA ()
       | Some srcSample \<Rightarrow>
           if \<not> sampleHasRows srcSample then returnA ()
           else bindA (sampleMissingRows D dur srcSample) (\<lambda>bad.
             if bad then
               bindA (ignoreA (onEngine (nsDropDurable D dur))) (\<lambda>_.
                 raiseA (NewError (''capture '' @ active @ '' into '' @ dur @ '' verified EMPTY'')))
             else returnA ())))"

definition recordDurable :: "BranchDurableRow \<Rightarrow> ('e world, unit) action" where
  "recordDurable row =
     wrapA (\<lambda>e. Wrapf (''record durable '' @ bd_name row @ '' of branch '' @ bd_branch row @ '': '') e [])
       (onStore (RecordBranchDurable row))"

definition durableRow :: "int \<Rightarrow> int \<Rightarrow> string \<Rightarrow> string \<Rightarrow> string \<Rightarrow> string \<Rightarrow> BranchDurableRow" where
  "durableRow repo w lbl active branch dur =
     \<lparr>bd_repo = repo, bd_worktree = w, bd_engine = lbl, bd_key = active, bd_branch = branch, bd_name = dur,
      bd_created = 0, bd_used = 0\<rparr>"

definition captureDurable :: "'e branchScopedArgs \<Rightarrow> string \<Rightarrow> string \<Rightarrow> ('e world, unit) action" where
  "captureDurable a active branch =
     (let dur = durableName a active branch
      in bindA (captureVerified (drv (eng a)) active dur) (\<lambda>_.
           recordDurable (durableRow (repoID a) (worktreeID a) (label_of (eng a)) active branch dur)))"

subsection \<open>Sources of a fill\<close>

definition repoPath :: "'e branchScopedArgs \<Rightarrow> ('e world, string) action" where
  "repoPath a =
     wrapA (\<lambda>e. Wrapf (''read the path of repo '' @ Itoa (repoID a) @ '': '') e []) (onStore (RepoPath (repoID a)))"

definition parentDB :: "'e branchScopedArgs \<Rightarrow> string \<Rightarrow> ('e world, string \<times> bool) action" where
  "parentDB a branch =
     bindA (repoPath a) (\<lambda>repoRoot.
       onStore (resolveBaseSourceDB (git_of a) (names a) (cfg a) repoRoot (repoID a) (dbIdx a) (scope (eng a)) branch))"

definition mainFallbackDB :: "'e branchScopedArgs \<Rightarrow> string \<Rightarrow> ('e world, string \<times> bool) action" where
  "mainFallbackDB a branch =
     bindA (repoPath a) (\<lambda>repoRoot.
       onStore (mainWorktreeBaseDB (git_of a) (names a) (cfg a) repoRoot (repoID a) (dbIdx a) (scope (eng a)) branch))"

definition baseBranchName :: "'e branchScopedArgs \<Rightarrow> string \<Rightarrow> ('e world, string) action" where
  "baseBranchName a branch =
     bindA (repoPath a) (\<lambda>repoRoot. onStore (resolveBaseBranch (git_of a) repoRoot (repoID a) branch))"

text \<open>The active namespace of this database in another worktree; an unrenderable name is skipped.\<close>

definition activeFor :: "'e branchScopedArgs \<Rightarrow> WorktreeRow \<Rightarrow> string option" where
  "activeFor a wt =
     (let mainDbs = Databases (ApplyMainWorktreeOverlay (cfg a));
          dbForWt = (if wt_main wt \<and> dbIdx a < length mainDbs then mainDbs ! dbIdx a else dbConf a)
      in case activeNamespace (slugs (names a)) (redis (names a)) dbForWt (scope (eng a)) (wt_path wt) of
           Inl e \<Rightarrow> None
         | Inr act \<Rightarrow> Some act)"

text \<open>The loop over the tracked durables: the freshest one that exists on the engine.\<close>

fun freshest ::
  "'e nsDriver \<Rightarrow> string \<Rightarrow> string \<Rightarrow> string list \<Rightarrow> BranchDurableRow list \<Rightarrow> string \<times> int \<Rightarrow>
     ('e world, string \<times> int) action" where
  "freshest D lbl base candidates [] best = returnA best"
| "freshest D lbl base candidates (d # durs) best =
     (if bd_engine d \<noteq> lbl \<or> bd_branch d \<noteq> base then freshest D lbl base candidates durs best
      else if bd_name d \<notin> set candidates then freshest D lbl base candidates durs best
      else if bd_used d \<le> snd best then freshest D lbl base candidates durs best
      else bindA (tryA (onEngine (nsExists D (bd_name d)))) (\<lambda>ex.
        if ex = Inr True then freshest D lbl base candidates durs (bd_name d, bd_used d)
        else freshest D lbl base candidates durs best))"

definition baseBranchDurable :: "'e branchScopedArgs \<Rightarrow> string \<Rightarrow> ('e world, (string \<times> string) option) action" where
  "baseBranchDurable a branch =
     bindA (baseBranchName a branch) (\<lambda>base.
       if base = [] \<or> base = branch then returnA None
       else
         bindA (wrapA (\<lambda>e. Wrapf (''list the worktrees of repo '' @ Itoa (repoID a) @ '': '') e [])
                 (onStore (ListWorktreesForRepo (repoID a)))) (\<lambda>rows.
         let candidates = map (\<lambda>act. durableName a act base) (List.map_filter (activeFor a) rows)
         in if candidates = [] then returnA None
            else
              bindA (wrapA (\<lambda>e. Wrapf (''list the durable copies of repo '' @ Itoa (repoID a) @ '': '') e [])
                      (onStore (ListBranchDurables (repoID a)))) (\<lambda>durs.
              bindA (freshest (drv (eng a)) (label_of (eng a)) base candidates durs ([], -1)) (\<lambda>best.
                returnA (if fst best = [] then None else Some (fst best, base))))))"

definition parentSourceKeep :: "'e branchScopedArgs \<Rightarrow> string \<Rightarrow> ('e world, (string \<Rightarrow> bool) option) action" where
  "parentSourceKeep a parent =
     (if scope (eng a) \<noteq> scopePrefix then returnA None
      else
        bindA (wrapA (\<lambda>e. Wrapf (''list the worktrees of repo '' @ Itoa (repoID a) @ '' to scope the parent seed from '' @ parent @ '': '') e [])
                (onStore (ListWorktreesForRepo (repoID a)))) (\<lambda>wts.
          let deeper = filter (\<lambda>p. p \<noteq> parent \<and> HasPrefix p parent)
                         (List.map_filter (activeFor a) (filter (\<lambda>w. \<not> wt_deleted w) wts))
          in returnA (if deeper = [] then None else Some (\<lambda>name. \<not> list_ex (\<lambda>p. HasPrefix name p) deeper))))"

definition resumeDurableVerified :: "'e branchScopedArgs \<Rightarrow> string \<Rightarrow> string \<Rightarrow> ('e world, bool) action" where
  "resumeDurableVerified a active branch =
     (let D = drv (eng a); dur = durableName a active branch
      in bindA (tryA (onEngine (nsExists D dur))) (\<lambda>ex.
         if ex \<noteq> Inr True then returnA False
         else bindA (tryA (retryTransient (onEngine (nsRestore D dur active)))) (\<lambda>r.
           case r of
             Inl err \<Rightarrow> bindA (writeEvent ''info'' ''branch:verify:warn'') (\<lambda>_. returnA False)
           | Inr u \<Rightarrow>
               bindA (sampleRows D dur) (\<lambda>sample.
                 case sample of
                   None \<Rightarrow> returnA True
                 | Some srcSample \<Rightarrow>
                     if \<not> sampleHasRows srcSample then returnA True
                     else bindA (sampleMissingRows D active srcSample) (\<lambda>bad.
                       if \<not> bad then returnA True
                       else
                         bindA (writeEvent ''info'' ''branch:verify:warn'') (\<lambda>_.
                         bindA (ignoreA (onEngine (nsDropDurable D dur))) (\<lambda>_.
                         bindA (wrapA (\<lambda>e. Wrapf (''forget dropped durable '' @ dur @ '': '') e [])
                                 (onStore (DeleteBranchDurable (repoID a) dur))) (\<lambda>_.
                           returnA False))))))))"

definition seedParentVerified :: "'e branchScopedArgs \<Rightarrow> string \<Rightarrow> string \<Rightarrow> ('e world, unit) action" where
  "seedParentVerified a parent active =
     (let D = drv (eng a)
      in bindA (parentSourceKeep a parent) (\<lambda>keep.
         bindA (wrapA (\<lambda>e. Wrapf (''seed '' @ active @ '' from parent branch's live db '' @ parent @ '': '') e
                             (parentSeedHint (label_of (eng a)) e))
                  (retryTransient (onEngine (nsRestoreParent D parent active keep)))) (\<lambda>_.
         bindA (sampleRows D parent) (\<lambda>sample.
           case sample of
             None \<Rightarrow> returnA ()
           | Some srcSample \<Rightarrow>
               if \<not> sampleHasRows srcSample then returnA ()
               else bindA (sampleMissingRows D active srcSample) (\<lambda>bad.
                 if \<not> bad then returnA ()
                 else bindA (writeEvent ''info'' ''branch:verify:warn'') (\<lambda>_.
                   raiseA (NewError (''parent seed '' @ parent @ '' produced an empty database'')))))))) "

text \<open>How a fill found its data; None when there was no source.\<close>

datatype source = fromResume | fromParent | fromSnapshot | fromMain

fun how :: "source \<Rightarrow> string" where
  "how fromResume = ''resume''"
| "how fromParent = ''parent''"
| "how fromSnapshot = ''parent-snapshot''"
| "how fromMain = ''parent-main''"

text \<open>The parent and main fallbacks share one test: a different, existing namespace.\<close>

definition seedFrom :: "'e branchScopedArgs \<Rightarrow> string \<Rightarrow> string \<times> bool \<Rightarrow> ('e world, bool) action" where
  "seedFrom a active found =
     (case found of (p, ok) \<Rightarrow>
        if ok \<and> p \<noteq> [] \<and> p \<noteq> active then
          bindA (tryA (onEngine (nsExists (drv (eng a)) p))) (\<lambda>pe.
            if pe = Inr True then bindA (seedParentVerified a p active) (\<lambda>_. returnA True)
            else returnA False)
        else returnA False)"

definition fillPast :: "'e branchScopedArgs \<Rightarrow> string \<Rightarrow> string \<Rightarrow> ('e world, source option) action" where
  "fillPast a active branch =
     bindA (parentDB a branch) (\<lambda>p.
     bindA (seedFrom a active p) (\<lambda>seeded.
       if seeded then returnA (Some fromParent)
       else bindA (baseBranchDurable a branch) (\<lambda>snap.
         case snap of
           Some (s, base) \<Rightarrow>
             bindA (wrapA (\<lambda>e. Wrapf (''seed '' @ active @ '' from base branch '' @ base @ '' durable snapshot '' @ s @ '': '') e [])
                     (onEngine (nsRestore (drv (eng a)) s active))) (\<lambda>_.
             bindA (wrapA (\<lambda>e. Wrapf (''record use of durable '' @ s @ '': '') e [])
                     (onStore (TouchBranchDurable (repoID a) s))) (\<lambda>_.
               returnA (Some fromSnapshot)))
         | None \<Rightarrow>
             bindA (mainFallbackDB a branch) (\<lambda>m.
             bindA (seedFrom a active m) (\<lambda>seeded'.
               returnA (if seeded' then Some fromMain else None))))))"

definition fill :: "'e branchScopedArgs \<Rightarrow> string \<Rightarrow> string \<Rightarrow> bool \<Rightarrow> ('e world, source option) action" where
  "fill a active branch useDurable =
     bindA (if useDurable then resumeDurableVerified a active branch else returnA False) (\<lambda>resumed.
       if resumed then returnA (Some fromResume) else fillPast a active branch)"

subsection \<open>Seed, adopt and swap\<close>

text \<open>Whether the namespace was built empty, and the decision.\<close>

definition seedFreshFrom :: "'e branchScopedArgs \<Rightarrow> string \<Rightarrow> string \<Rightarrow> bool \<Rightarrow> ('e world, bool \<times> string) action" where
  "seedFreshFrom a active branch useDurable =
     bindA (fill a active branch useDurable) (\<lambda>filled.
       case filled of
         Some src \<Rightarrow> returnA (False, ''seed:'' @ how src)
       | None \<Rightarrow>
           bindA (wrapA (\<lambda>e. Wrapf (''empty active '' @ active @ '': '') e [])
                   (onEngine (nsEmpty (drv (eng a)) active))) (\<lambda>_.
             case dumps a of
               Inl derr \<Rightarrow> raiseA derr
             | Inr ds \<Rightarrow>
                 (case loadDump a of
                    Some load \<Rightarrow>
                      if ds \<noteq> [] then
                        bindA (forA (\<lambda>dr. wrapA (\<lambda>e. Wrapf (''load dump '' @ dumpPath dr @ '': '') e [])
                                       (onEngine (load active dr))) ds) (\<lambda>_.
                          returnA (True, ''seed:dump''))
                      else returnA (True, ''seed:empty'')
                  | None \<Rightarrow> returnA (True, ''seed:empty''))))"

definition seedFresh :: "'e branchScopedArgs \<Rightarrow> string \<Rightarrow> string \<Rightarrow> ('e world, bool \<times> string) action" where
  "seedFresh a active branch = seedFreshFrom a active branch True"

definition defaultBranch :: "'e branchScopedArgs \<Rightarrow> string \<Rightarrow> string" where
  "defaultBranch a mainPath =
     (if mainPath = [] then []
      else
        case gitString (git_of a) mainPath [''symbolic-ref'', ''--short'', ''refs/remotes/origin/HEAD''] of
          Inl e \<Rightarrow> []
        | Inr ref \<Rightarrow>
            if ref = [] then []
            else
              let def = stripRemotePrefix (git_of a) mainPath ref
              in if def = [] \<or> \<not> gitExists (git_of a) mainPath (''refs/heads/'' @ def) then [] else def)"

definition adoptBranch :: "'e branchScopedArgs \<Rightarrow> string \<Rightarrow> ('e world, string) action" where
  "adoptBranch a branch =
     bindA (wrapA (\<lambda>e. Wrapf (''look up the main worktree of repo '' @ Itoa (repoID a) @ '': '') e [])
             (onStore (LookupMainWorktree (repoID a)))) (\<lambda>row.
       if wt_id row = 0 \<or> wt_id row \<noteq> worktreeID a then returnA branch
       else
         let def = defaultBranch a (wt_path row)
         in returnA (if def = [] \<or> def = branch then branch else def))"

definition adoptExisting :: "'e branchScopedArgs \<Rightarrow> string \<Rightarrow> string \<Rightarrow> ('e world, string) action" where
  "adoptExisting a active branch =
     bindA (adoptBranch a branch) (\<lambda>lbl.
     bindA (wrapA (\<lambda>e. Wrapf (''adopt-capture '' @ active @ '': '') e []) (captureDurable a active lbl)) (\<lambda>_.
       returnA (if lbl \<noteq> branch then ''adopt:'' @ lbl else ''adopt'')))"

definition captureSkippable :: "bool \<Rightarrow> bool \<Rightarrow> string \<Rightarrow> string \<Rightarrow> bool" where
  "captureSkippable prevClean durableExists prevWM curWM \<longleftrightarrow>
     prevClean \<and> durableExists \<and> curWM \<noteq> [] \<and> curWM = prevWM"

definition captureRedundant :: "'e branchScopedArgs \<Rightarrow> string \<Rightarrow> string \<Rightarrow> ('e world, bool) action" where
  "captureRedundant a active old =
     bindA (wrapA (\<lambda>e. Wrapf (''read the clean marker of '' @ active @ '': '') e [])
             (onStore (GetActiveBranchClean (worktreeID a) active))) (\<lambda>m.
       case m of
         None \<Rightarrow> returnA False
       | Some (prevClean, prevWM) \<Rightarrow>
           if \<not> prevClean then returnA False
           else
             let dur = durableName a active old;
                 unproven = bindA (writeEvent ''warn'' ''branch:verify:warn'') (\<lambda>_. returnA False)
             in bindA (tryA (onEngine (nsExists (drv (eng a)) dur))) (\<lambda>ex.
                  case ex of
                    Inl err \<Rightarrow> unproven
                  | Inr durExists \<Rightarrow>
                      bindA (tryA (onEngine (nsWatermark (drv (eng a)) active))) (\<lambda>wm.
                        case wm of
                          Inl err \<Rightarrow> unproven
                        | Inr curWM \<Rightarrow> returnA (captureSkippable prevClean durExists prevWM curWM))))"

definition swapBranch :: "'e branchScopedArgs \<Rightarrow> string \<Rightarrow> string \<Rightarrow> string \<Rightarrow> ('e world, string) action" where
  "swapBranch a active old branch =
     bindA (captureRedundant a active old) (\<lambda>redundant.
     bindA (if redundant then writeEvent ''info'' ''branch:capture:skip''
            else wrapA (\<lambda>e. Wrapf (''capture old branch '' @ old @ '': '') e []) (captureDurable a active old)) (\<lambda>_.
     bindA (wrapA (\<lambda>e. Wrapf ''record active-branch marker (pre-fill): '' e [])
             (onStore (SetActiveBranch (repoID a) (worktreeID a) active branch (label_of (eng a))))) (\<lambda>_.
     bindA (fill a active branch True) (\<lambda>filled.
       returnA (''swap:'' @ (case filled of Some src \<Rightarrow> how src | None \<Rightarrow> ''branch-point''))))))"

definition markActive :: "'e branchScopedArgs \<Rightarrow> string \<Rightarrow> string \<Rightarrow> ('e world, unit) action" where
  "markActive a active branch =
     wrapA (\<lambda>e. Wrapf ''record active-branch marker: '' e [])
       (onStore (SetActiveBranch (repoID a) (worktreeID a) active branch (label_of (eng a))))"

subsection \<open>Migrate\<close>

definition migrateNeeded :: "bool \<Rightarrow> bool \<Rightarrow> string \<Rightarrow> string \<Rightarrow> bool" where
  "migrateNeeded builtEmpty hasPrev prevFP curFP =
     (if builtEmpty \<or> curFP = [] \<or> \<not> hasPrev then True else prevFP \<noteq> curFP)"

definition isResume :: "string \<Rightarrow> bool" where
  "isResume decision = HasSuffix decision '':resume''"

definition resetHint :: "string \<Rightarrow> string" where
  "resetHint lbl =
     [CHR 0x0A] @ ''hint: if this branch's '' @ lbl @ '' database is stale or corrupt, `treeman db reset --engine '' @
     lbl @ ''` re-seeds it from the parent branch''"

definition reseedPastDurable ::
  "'e branchScopedArgs \<Rightarrow> (string \<Rightarrow> ('e, unit) action) \<Rightarrow> string \<Rightarrow> string \<Rightarrow> go_error \<Rightarrow> ('e world, bool \<times> string) action" where
  "reseedPastDurable a mig active branch cause =
     (let dur = durableName a active branch
      in bindA (writeEvent ''info'' ''branch:verify:warn'') (\<lambda>_.
         bindA (wrapA (\<lambda>e. Wrapf2 [] cause '' (re-seed without durable: '' e '')'')
                 (seedFreshFrom a active branch False)) (\<lambda>seed.
         bindA (onEngine (mig active)) (\<lambda>_.
         bindA (ignoreA (onEngine (nsDropDurable (drv (eng a)) dur))) (\<lambda>_.
         bindA (wrapA (\<lambda>e. Wrapf (''forget dropped durable '' @ dur @ '': '') e [])
                 (onStore (DeleteBranchDurable (repoID a) dur))) (\<lambda>_.
         bindA (writeEvent ''info'' ''branch:verify:warn'') (\<lambda>_.
           returnA (fst seed, ''re'' @ snd seed))))))))"

text \<open>Whether a migrate ran, whether the namespace was built empty, and the decision.\<close>

definition migrateStep ::
  "'e branchScopedArgs \<Rightarrow> string \<Rightarrow> string \<Rightarrow> bool \<Rightarrow> string \<Rightarrow> ('e world, bool \<times> bool \<times> string) action" where
  "migrateStep a active branch builtEmpty decision =
     (case migrateStepFn a of
        None \<Rightarrow> returnA (False, builtEmpty, decision)
      | Some mig \<Rightarrow>
          bindA (wrapA (\<lambda>e. Wrapf (''read the migrated fingerprint of '' @ active @ '': '') e [])
                  (onStore (GetBranchMigrated (worktreeID a) active branch))) (\<lambda>prev.
          if \<not> migrateNeeded builtEmpty (prev \<noteq> None) (case prev of Some fp \<Rightarrow> fp | None \<Rightarrow> []) (migrateFP a) then
            bindA (writeEvent ''info'' ''migrate:skip'') (\<lambda>_. returnA (False, builtEmpty, decision))
          else
            bindA (tryA (onEngine (mig active))) (\<lambda>r.
            bindA
              (case r of
                 Inr u \<Rightarrow> returnA (builtEmpty, decision)
               | Inl err \<Rightarrow>
                   if commandNotFound a err then raiseA err
                   else if \<not> isResume decision \<or> isCancellation err \<or> isTransientConn err then
                     raiseA (Wrapf [] err (resetHint (label_of (eng a))))
                   else wrapA (\<lambda>e. Wrapf [] e (resetHint (label_of (eng a)))) (reseedPastDurable a mig active branch err))
              (\<lambda>bd.
                 bindA
                   (if migrateFP a \<noteq> [] then
                      bindA (tryA (onStore (SetBranchMigrated (worktreeID a) active branch (migrateFP a)))) (\<lambda>w.
                        case w of Inl err \<Rightarrow> writeEvent ''warn'' ''migrate:skip'' | Inr u \<Rightarrow> returnA ())
                    else returnA ())
                   (\<lambda>_. returnA (True, fst bd, snd bd))))))"

subsection \<open>The clean marker and the whole run\<close>

definition setClean :: "'e branchScopedArgs \<Rightarrow> string \<Rightarrow> string \<Rightarrow> bool \<Rightarrow> string \<Rightarrow> ('e world, unit) action" where
  "setClean a active branch clean wm =
     wrapA (\<lambda>e. Wrapf (''record the clean marker of '' @ active @ '' (branch '' @ branch @ ''): '') e [])
       (onStore (SetActiveBranchClean (repoID a) (worktreeID a) active branch (label_of (eng a)) clean wm))"

definition recordClean ::
  "'e branchScopedArgs \<Rightarrow> string \<Rightarrow> string \<Rightarrow> string \<Rightarrow> bool \<Rightarrow> bool \<Rightarrow> ('e world, unit) action" where
  "recordClean a active branch decision migrated seeded =
     (if migrated \<or> seeded then setClean a active branch False []
      else if decision = ''noop'' then
        bindA (wrapA (\<lambda>e. Wrapf (''read the clean marker of '' @ active @ '': '') e [])
                (onStore (GetActiveBranchClean (worktreeID a) active))) (\<lambda>m.
          case m of
            Some (True, prevWM) \<Rightarrow>
              bindA (tryA (onEngine (nsWatermark (drv (eng a)) active))) (\<lambda>w.
                if w = Inr prevWM \<and> prevWM \<noteq> [] then setClean a active branch True prevWM
                else setClean a active branch False [])
          | _ \<Rightarrow> setClean a active branch False [])
      else if decision = ''adopt'' \<or> isResume decision then
        bindA (tryA (onEngine (nsWatermark (drv (eng a)) active))) (\<lambda>w.
          case w of
            Inr wm \<Rightarrow> if wm \<noteq> [] then setClean a active branch True wm else setClean a active branch False []
          | Inl err \<Rightarrow> setClean a active branch False [])
      else setClean a active branch False [])"

text \<open>The decision part of the run: what happens to the active namespace before migrate.\<close>

definition chooseData ::
  "'e branchScopedArgs \<Rightarrow> string \<Rightarrow> string \<Rightarrow> string option \<Rightarrow> bool \<Rightarrow> ('e world, bool \<times> string) action" where
  "chooseData a active branch old exists =
     (if \<not> exists then
        bindA (seedFresh a active branch) (\<lambda>bd. bindA (markActive a active branch) (\<lambda>_. returnA bd))
      else
        case old of
          None \<Rightarrow>
            bindA (adoptExisting a active branch) (\<lambda>dec. bindA (markActive a active branch) (\<lambda>_. returnA (False, dec)))
        | Some ob \<Rightarrow>
            if ob \<noteq> branch then bindA (swapBranch a active ob branch) (\<lambda>dec. returnA (False, dec))
            else returnA (False, ''noop''))"

definition runBranchScoped :: "'e branchScopedArgs \<Rightarrow> ('e world, string \<times> string) action" where
  "runBranchScoped a =
     bindA (case activeNamespace (slugs (names a)) (redis (names a)) (dbConf a) (scope (eng a)) (worktreePath a) of
              Inl e \<Rightarrow> raiseA (Wrapf ''render active namespace: '' (renderFailed e) [])
            | Inr act \<Rightarrow> returnA act) (\<lambda>active.
     bindA (wrapA (\<lambda>e. Wrapf (''read the branch of worktree '' @ Itoa (worktreeID a) @ '': '') e [])
             (onStore (WorktreeBranch (worktreeID a)))) (\<lambda>b.
     let branch = (if b = [] then ''_detached'' else b) in
     bindA (onStore (GetActiveBranch (worktreeID a) active)) (\<lambda>old.
     bindA (onEngine (nsExists (drv (eng a)) active)) (\<lambda>exists.
     bindA (writeEvent ''info'' ''prepare:start'') (\<lambda>_.
     bindA (chooseData a active branch old exists) (\<lambda>bd.
     bindA (migrateStep a active branch (fst bd) (snd bd)) (\<lambda>m.
     case m of (migrated, builtEmpty, decision) \<Rightarrow>
     bindA (case seedStepFn a of
              Some seed \<Rightarrow> if builtEmpty then bindA (onEngine (seed active)) (\<lambda>_. returnA True) else returnA False
            | None \<Rightarrow> returnA False) (\<lambda>seeded.
     bindA (recordClean a active branch decision migrated seeded) (\<lambda>_.
     bindA (writeEvent ''info'' ''prepare:end'') (\<lambda>_.
       returnA (active, decision)))))))))))"

end
