(* ===== verification/S3Driver.thy ===== *)
theory S3Driver
  imports BranchState
begin

text \<open>
  The object-storage driver of \<open>internal/db/s3/s3.go\<close> and its adapter \<open>s3NS\<close> of
  \<open>internal/prepare/branchstate.go\<close>: whole buckets are copied, emptied and dropped.

  The server is its buckets with their current objects, and a script of what happens to the next
  requests: one that is refused, or not supported by the backend, changes nothing.  Listing gives the objects of a bucket in one walk, in
  their order; the sharded, concurrent listing of the code visits the same objects.  Old versions of
  objects and uploads in progress are not part of the state.
\<close>

section \<open>Model\<close>

datatype s3fault = Refused string | Unsupported

record s3 =
  buckets :: "string \<rightharpoonup> (string \<times> string) list"
  faults :: "s3fault option list"

definition noSuchBucket :: go_error where
  "noSuchBucket = NewError ''NoSuchBucket''"

definition noSuchKey :: go_error where
  "noSuchKey = NewError ''NoSuchKey''"

definition notImplemented :: go_error where
  "notImplemented = NewError ''NotImplemented''"

definition alreadyOwned :: go_error where
  "alreadyOwned = NewError ''BucketAlreadyOwnedByYou''"

definition isNotFound :: "go_error \<Rightarrow> bool" where
  "isNotFound e \<longleftrightarrow> errors_Is e noSuchBucket \<or> errors_Is e noSuchKey \<or> errors_Is e (NewError ''NotFound'')"

definition isNotImplemented :: "go_error \<Rightarrow> bool" where
  "isNotImplemented e \<longleftrightarrow> errors_Is e notImplemented"

definition isAlreadyOwned :: "go_error \<Rightarrow> bool" where
  "isAlreadyOwned e \<longleftrightarrow> errors_Is e alreadyOwned \<or> errors_Is e (NewError ''BucketAlreadyExists'')"

text \<open>One request: the scripted failure, or what the server does.\<close>

definition faultError :: "s3fault \<Rightarrow> go_error" where
  "faultError x = (case x of Refused msg \<Rightarrow> NewError (''request failed: '' @ msg) | Unsupported \<Rightarrow> notImplemented)"

definition request :: "(s3, 'a) action \<Rightarrow> (s3, 'a) action" where
  "request f s =
     (case faults s of
        [] \<Rightarrow> f s
      | x # xs \<Rightarrow> (case x of Some ft \<Rightarrow> (Inl (faultError ft), s\<lparr>faults := xs\<rparr>) | None \<Rightarrow> f (s\<lparr>faults := xs\<rparr>)))"

definition HeadBucket :: "string \<Rightarrow> (s3, unit) action" where
  "HeadBucket b = request (\<lambda>s. (if buckets s b = None then Inl noSuchBucket else Inr (), s))"

definition CreateBucket :: "string \<Rightarrow> (s3, unit) action" where
  "CreateBucket b = request (\<lambda>s.
     if buckets s b = None then (Inr (), s\<lparr>buckets := (buckets s)(b \<mapsto> [])\<rparr>) else (Inl alreadyOwned, s))"

text \<open>A listing has each key once, with its current object.\<close>

definition listing :: "(string \<times> string) list \<Rightarrow> (string \<times> string) list" where
  "listing os = map (\<lambda>k. (k, the (map_of os k))) (remdups (map fst os))"

definition ListObjects :: "string \<Rightarrow> (s3, (string \<times> string) list) action" where
  "ListObjects b = request (\<lambda>s. (case buckets s b of None \<Rightarrow> Inl noSuchBucket | Some os \<Rightarrow> Inr (listing os), s))"

definition DeleteObjects :: "string \<Rightarrow> string list \<Rightarrow> (s3, unit) action" where
  "DeleteObjects b ks = request (\<lambda>s.
     case buckets s b of
       None \<Rightarrow> (Inl noSuchBucket, s)
     | Some os \<Rightarrow> (Inr (), s\<lparr>buckets := (buckets s)(b \<mapsto> filter (\<lambda>ob. fst ob \<notin> set ks) os)\<rparr>))"

definition PutObject :: "string \<Rightarrow> string \<Rightarrow> string \<Rightarrow> (s3, unit) action" where
  "PutObject b k v s =
     (case buckets s b of
        None \<Rightarrow> (Inl noSuchBucket, s)
      | Some os \<Rightarrow> (Inr (), s\<lparr>buckets := (buckets s)(b \<mapsto> filter (\<lambda>ob. fst ob \<noteq> k) os @ [(k, v)])\<rparr>))"

definition getObject :: "s3 \<Rightarrow> string \<Rightarrow> string \<Rightarrow> string option" where
  "getObject s b k = (case buckets s b of None \<Rightarrow> None | Some os \<Rightarrow> map_of os k)"

definition CopyObject :: "string \<Rightarrow> string \<Rightarrow> string \<Rightarrow> (s3, unit) action" where
  "CopyObject src dst k = request (\<lambda>s.
     case getObject s src k of None \<Rightarrow> (Inl noSuchKey, s) | Some v \<Rightarrow> PutObject dst k v s)"

definition DeleteBucket :: "string \<Rightarrow> (s3, unit) action" where
  "DeleteBucket b = request (\<lambda>s.
     case buckets s b of
       None \<Rightarrow> (Inl noSuchBucket, s)
     | Some os \<Rightarrow>
         if os = [] then (Inr (), s\<lparr>buckets := (buckets s)(b := None)\<rparr>) else (Inl (NewError ''BucketNotEmpty''), s))"

subsection \<open>The driver\<close>

definition BucketExists :: "string \<Rightarrow> (s3, bool) action" where
  "BucketExists name =
     bindA (tryA (HeadBucket name)) (\<lambda>r.
       case r of
         Inr u \<Rightarrow> returnA True
       | Inl err \<Rightarrow>
           if isNotFound err then returnA False
           else raiseA (Wrapf (''s3: head bucket '' @ name @ '': '') err []))"

definition EnsureBucket :: "string \<Rightarrow> (s3, unit) action" where
  "EnsureBucket name =
     bindA (tryA (CreateBucket name)) (\<lambda>r.
       case r of
         Inr u \<Rightarrow> returnA ()
       | Inl err \<Rightarrow>
           if isAlreadyOwned err then returnA ()
           else raiseA (Wrapf (''s3: create bucket '' @ name @ '': '') err []))"

definition maxKeys :: nat where
  "maxKeys = 1000"

function deleteBatch :: "string \<Rightarrow> string list \<Rightarrow> (s3, unit) action" where
  "deleteBatch bucket ids =
     (if ids = [] then returnA ()
      else bindA (wrapA (\<lambda>e. Wrapf (''s3: delete objects in '' @ bucket @ '': '') e [])
                   (DeleteObjects bucket (take maxKeys ids))) (\<lambda>_.
             deleteBatch bucket (drop maxKeys ids)))"
  by pat_completeness auto
termination
  by (relation "measure (\<lambda>(b, ids). length ids)") (auto simp: maxKeys_def)

declare deleteBatch.simps [simp del]

lemma deleteBatch_code [code]:
  "deleteBatch bucket [] = returnA ()"
  "deleteBatch bucket (k # ks) =
     bindA (wrapA (\<lambda>e. Wrapf (''s3: delete objects in '' @ bucket @ '': '') e [])
             (DeleteObjects bucket (take maxKeys (k # ks)))) (\<lambda>_.
       deleteBatch bucket (drop maxKeys (k # ks)))"
  by (simp_all add: deleteBatch.simps)

text \<open>A walk over a bucket: a bucket that is gone ends the walk without an error.\<close>

definition walkObjects :: "string \<Rightarrow> ((string \<times> string) list \<Rightarrow> (s3, unit) action) \<Rightarrow> (s3, unit) action" where
  "walkObjects bucket handle =
     bindA (tryA (wrapA (\<lambda>e. Wrapf (''s3: list objects '' @ bucket @ '': '') e []) (ListObjects bucket))) (\<lambda>r.
       case r of
         Inl err \<Rightarrow> if isNotFound err then returnA () else raiseA err
       | Inr objs \<Rightarrow> if objs = [] then returnA () else handle objs)"

definition abortMultiparts :: "string \<Rightarrow> (s3, unit) action" where
  "abortMultiparts name =
     bindA (tryA (request (\<lambda>s. (if buckets s name = None then Inl noSuchBucket else Inr (), s)))) (\<lambda>r.
       case r of
         Inr u \<Rightarrow> returnA ()
       | Inl err \<Rightarrow>
           if isNotFound err then returnA ()
           else raiseA (Wrapf (''s3: list multipart uploads '' @ name @ '': '') err []))"

definition emptyListed :: "string \<Rightarrow> (s3, unit) action" where
  "emptyListed name = walkObjects name (\<lambda>objs. deleteBatch name (map fst objs))"

definition emptyObjects :: "string \<Rightarrow> (s3, unit) action" where
  "emptyObjects name =
     bindA (tryA (emptyListed name)) (\<lambda>r.
       case r of
         Inl e \<Rightarrow> if isNotImplemented e then emptyListed name else raiseA e
       | Inr u \<Rightarrow> returnA ())"

definition emptyBucket :: "string \<Rightarrow> (s3, unit) action" where
  "emptyBucket name =
     bindA (tryA (abortMultiparts name)) (\<lambda>ab.
       case ab of
         Inl err \<Rightarrow> if isNotImplemented err then emptyObjects name else raiseA err
       | Inr u \<Rightarrow> emptyObjects name)"

definition Empty :: "string \<Rightarrow> (s3, unit) action" where
  "Empty name = bindA (EnsureBucket name) (\<lambda>_. emptyBucket name)"

definition DropBucket :: "string \<Rightarrow> (s3, unit) action" where
  "DropBucket name =
     bindA (tryA (emptyBucket name)) (\<lambda>r.
       case r of
         Inl err \<Rightarrow> if isNotFound err then returnA () else raiseA err
       | Inr u \<Rightarrow>
           bindA (tryA (DeleteBucket name)) (\<lambda>d.
             case d of
               Inr u' \<Rightarrow> returnA ()
             | Inl err \<Rightarrow>
                 if isNotFound err then returnA ()
                 else raiseA (Wrapf (''s3: delete bucket '' @ name @ '': '') err [])))"

subsection \<open>Copies\<close>

definition maxSingleCopyBytes :: nat where
  "maxSingleCopyBytes = 5 * 1024 * 1024 * 1024"

definition copyPartBytes :: nat where
  "copyPartBytes = 1024 * 1024 * 1024"

definition partCount :: "nat \<Rightarrow> nat \<Rightarrow> nat" where
  "partCount sz partBytes = (sz + partBytes - 1) div partBytes"

text \<open>The byte range of part \<open>i\<close>, both ends included.\<close>

definition partRange :: "nat \<Rightarrow> nat \<Rightarrow> nat \<Rightarrow> nat \<times> nat" where
  "partRange sz partBytes i =
     (let start = i * partBytes in (start, min (start + partBytes - 1) (sz - 1)))"

definition bytesOf :: "nat \<times> nat \<Rightarrow> string \<Rightarrow> string" where
  "bytesOf r v = (case r of (start, stop) \<Rightarrow> take (stop - start + 1) (drop start v))"

text \<open>Reading the ranges one after the other; a failed part makes the whole copy fail.\<close>

fun copyParts :: "string \<Rightarrow> string \<Rightarrow> (nat \<times> nat) list \<Rightarrow> (s3, string) action" where
  "copyParts src k [] = returnA []"
| "copyParts src k (r # rs) =
     bindA (wrapA (\<lambda>e. Wrapf ''s3: copy part: '' e [])
             (request (\<lambda>s. (case getObject s src k of None \<Rightarrow> Inl noSuchKey | Some v \<Rightarrow> Inr (bytesOf r v), s)))) (\<lambda>p.
     bindA (copyParts src k rs) (\<lambda>ps. returnA (p @ ps)))"

definition copyObjectMultipart :: "string \<Rightarrow> string \<Rightarrow> string \<Rightarrow> nat \<Rightarrow> (s3, unit) action" where
  "copyObjectMultipart src dst k sz =
     bindA (wrapA (\<lambda>e. Wrapf (''s3: create multipart copy '' @ dst @ ''/'' @ k @ '': '') e []) (request (returnA ()))) (\<lambda>_.
     bindA (tryA (copyParts src k (map (partRange sz copyPartBytes) [0 ..< partCount sz copyPartBytes]))) (\<lambda>r.
       case r of
         Inl err \<Rightarrow>
           bindA (tryA (request (returnA ()))) (\<lambda>ab.
             case ab of
               Inl aerr \<Rightarrow>
                 raiseA (Wrapf2 [] err ([CHR 0x0A] @ ''abort the multipart upload of '' @ dst @ ''/'' @ k @ '': '') aerr [])
             | Inr u \<Rightarrow> raiseA err)
       | Inr body \<Rightarrow>
           wrapA (\<lambda>e. Wrapf (''s3: complete multipart copy '' @ dst @ ''/'' @ k @ '': '') e [])
             (request (PutObject dst k body))))"

definition copyObject :: "string \<Rightarrow> string \<Rightarrow> string \<Rightarrow> nat \<Rightarrow> (s3, unit) action" where
  "copyObject src dst k sz =
     (if maxSingleCopyBytes \<le> sz then copyObjectMultipart src dst k sz
      else wrapA (\<lambda>e. Wrapf (''s3: copy '' @ src @ ''/'' @ k @ '' to '' @ dst @ '': '') e []) (CopyObject src dst k))"

definition CopyBucket :: "string \<Rightarrow> string \<Rightarrow> (s3, unit) action" where
  "CopyBucket src dst =
     bindA (EnsureBucket dst) (\<lambda>_.
     bindA (emptyBucket dst) (\<lambda>_.
       walkObjects src (\<lambda>objs. forA (\<lambda>ob. copyObject src dst (fst ob) (length (snd ob))) objs)))"

definition MinDropPrefixLen :: nat where
  "MinDropPrefixLen = 6"

text \<open>The names of all buckets come from a request to the account, given here as a list.\<close>

definition ListMatching :: "string list \<Rightarrow> string \<Rightarrow> (s3, string list) action" where
  "ListMatching allBuckets p =
     wrapA (\<lambda>e. Wrapf ''s3: list buckets: '' e [])
       (request (\<lambda>s. (Inr (filter (\<lambda>b. buckets s b \<noteq> None \<and> HasPrefix b p) allBuckets), s)))"

definition DropMatching :: "string list \<Rightarrow> string \<Rightarrow> (s3, unit) action" where
  "DropMatching allBuckets p =
     (if length p < MinDropPrefixLen then
        raiseA (NewError (''s3: refusing to drop with prefix '' @ p @ '': length '' @ Itoa (int (length p)) @
          '' < MinDropPrefixLen=6''))
      else bindA (ListMatching allBuckets p) (\<lambda>matches. forA DropBucket matches))"

definition bucketChar :: "char \<Rightarrow> bool" where
  "bucketChar c \<longleftrightarrow> is_lower c \<or> is_digit c"

definition ValidateBucketName :: "string \<Rightarrow> go_error option" where
  "ValidateBucketName name =
     (if length name < 3 \<or> 63 < length name then
        Some (NewError (''bucket name '' @ name @ '': length '' @ Itoa (int (length name)) @ '', must be 3-63 chars''))
      else if bucketChar (hd name) \<and> bucketChar (last name) \<and>
              list_all (\<lambda>c. bucketChar c \<or> c = CHR ''-'') name then None
      else Some (NewError (''bucket name '' @ name @ '': must be lowercase alphanumeric with hyphens'')))"

definition s3NS :: "s3 nsDriver" where
  "s3NS =
     \<lparr>nsExists = BucketExists,
      nsCapture = CopyBucket,
      nsRestore = CopyBucket,
      nsRestoreParent = (\<lambda>p active keep. CopyBucket p active),
      nsEmpty = Empty,
      nsDrop = DropBucket,
      nsDropDurable = DropBucket,
      nsWatermark = (\<lambda>ns. returnA []),
      nsSampler = None\<rparr>"

section \<open>Lemmas\<close>

lemma partCount_le:
  assumes "0 < p" "i < partCount n p"
  shows "i * p < n"
proof (rule ccontr)
  assume "\<not> i * p < n"
  then have "n + p - 1 < i * p + p" using assms(1) by linarith
  then have "n + p - 1 < (i + 1) * p" by simp
  then have "(n + p - 1) div p < i + 1" by (rule less_mult_imp_div_less)
  then show False using assms(2) by (simp add: partCount_def)
qed

lemma parts_tile:
  assumes "0 < p" "k \<le> partCount (length v) p"
  shows "concat (map (\<lambda>i. bytesOf (partRange (length v) p i) v) [0 ..< k]) = take (k * p) v"
  using assms(2)
proof (induction k)
  case (Suc k)
  have k: "k * p < length v" using partCount_le [OF assms(1), of k "length v"] Suc.prems by simp
  let ?stop = "min (k * p + p - 1) (length v - 1)"
  have len: "?stop - k * p + 1 = min p (length v - k * p)" using k assms(1) by linarith
  have "bytesOf (partRange (length v) p k) v = take p (drop (k * p) v)"
    unfolding bytesOf_def partRange_def Let_def prod.case len by (simp add: min_def)
  moreover have "take (k * p) v @ take p (drop (k * p) v) = take (k * p + p) v" by (simp add: take_add)
  ultimately show ?case using Suc by (simp add: add.commute)
qed simp

lemma partCount_covers: "0 < p \<Longrightarrow> n \<le> partCount n p * p"
  using mod_less_divisor [of p "n + p - 1"] div_mult_mod_eq [of "n + p - 1" p] unfolding partCount_def by linarith

end
