(* ===== verification/BranchOps.thy ===== *)
theory BranchOps
  imports BranchState
begin

text \<open>
  The operations on branch-scoped databases outside a prepare run, \<open>internal/prepare/branchstate.go\<close>:
  teardown of a worktree, \<open>db reset\<close>, \<open>db save\<close> and the status report.  Dialling an engine is a
  parameter: the connected engine of a database entry with its sibling filter, nothing for an engine
  without an adapter, or the connection error.
\<close>

section \<open>Model\<close>

definition engDurable :: "slug_env \<Rightarrow> 'e branchEngine \<Rightarrow> string \<Rightarrow> string \<Rightarrow> string" where
  "engDurable env E active branch = durable env (scope E) (label_of E) active branch"

definition captureBranchScopedOnTeardown ::
  "slug_env \<Rightarrow> 'e branchEngine \<Rightarrow> int \<Rightarrow> int \<Rightarrow> string \<Rightarrow> ('e world, unit) action" where
  "captureBranchScopedOnTeardown env E repo w active =
     bindA (onStore (GetActiveBranch w active)) (\<lambda>marker.
       case marker of
         None \<Rightarrow> returnA ()
       | Some branch \<Rightarrow>
           if branch = [] then returnA ()
           else bindA (onEngine (nsExists (drv E) active)) (\<lambda>exists.
             if \<not> exists then returnA ()
             else
               let dur = engDurable env E active branch
               in bindA (captureVerified (drv E) active dur) (\<lambda>_.
                    recordDurable (durableRow repo w (label_of E) active branch dur))))"

definition clearActiveMarkers :: "int \<Rightarrow> string \<Rightarrow> ('e world, unit) action" where
  "clearActiveMarkers w active =
     bindA (wrapA (\<lambda>e. Wrapf (''clear the migrated fingerprint of '' @ active @ '': '') e [])
             (onStore (ClearBranchMigratedForKey w active))) (\<lambda>_.
       wrapA (\<lambda>e. Wrapf (''clear the active-branch marker of '' @ active @ '': '') e [])
         (onStore (ClearActiveBranch w active)))"

definition teardownActive ::
  "slug_env \<Rightarrow> 'e branchEngine \<Rightarrow> int \<Rightarrow> int \<Rightarrow> string \<Rightarrow> ('e world, unit) action" where
  "teardownActive env E repo w active =
     bindA (tryA (captureBranchScopedOnTeardown env E repo w active)) (\<lambda>c.
       case c of
         Inl capErr \<Rightarrow>
           bindA (writeEvent ''error'' ''branch:capture:error'') (\<lambda>_.
             raiseA (Wrapf (''capture '' @ active @ '' into its durable copy before dropping it: '') capErr []))
       | Inr u \<Rightarrow>
           bindA (onEngine (nsDrop (drv E) active)) (\<lambda>_.
           bindA (clearActiveMarkers w active) (\<lambda>_.
             writeEvent ''info'' ''db:drop'')))"

definition resetActiveNamespace ::
  "slug_env \<Rightarrow> 'e branchEngine \<Rightarrow> int \<Rightarrow> int \<Rightarrow> string \<Rightarrow> ('e world, unit) action" where
  "resetActiveNamespace env E repo w active =
     bindA (wrapA (\<lambda>e. Wrapf (''read the active-branch marker of '' @ active @ '': '') e [])
             (onStore (GetActiveBranch w active))) (\<lambda>marker.
     bindA (case marker of
              None \<Rightarrow> returnA ()
            | Some branch \<Rightarrow>
                if branch = [] then returnA ()
                else
                  let dur = engDurable env E active branch
                  in bindA (ignoreA (onEngine (nsDropDurable (drv E) dur))) (\<lambda>_.
                       wrapA (\<lambda>e. Wrapf (''forget dropped durable '' @ dur @ '': '') e [])
                         (onStore (DeleteBranchDurable repo dur)))) (\<lambda>_.
     bindA (onEngine (nsDrop (drv E) active)) (\<lambda>_.
       clearActiveMarkers w active)))"

record BranchScopedSave =
  sv_engine :: string
  sv_active :: string
  sv_branch :: string
  sv_durable :: string
  sv_skipped :: string

definition saveActiveNamespace ::
  "slug_env \<Rightarrow> 'e branchEngine \<Rightarrow> int \<Rightarrow> int \<Rightarrow> string \<Rightarrow> ('e world, BranchScopedSave) action" where
  "saveActiveNamespace env E repo w active =
     (let out = \<lparr>sv_engine = label_of E, sv_active = active, sv_branch = [], sv_durable = [], sv_skipped = []\<rparr>
      in bindA (onStore (GetActiveBranch w active)) (\<lambda>marker.
         case marker of
           None \<Rightarrow> returnA (out\<lparr>sv_skipped := ''no active-branch marker''\<rparr>)
         | Some branch \<Rightarrow>
             if branch = [] then returnA (out\<lparr>sv_skipped := ''no active-branch marker''\<rparr>)
             else bindA (onEngine (nsExists (drv E) active)) (\<lambda>exists.
               if \<not> exists then
                 returnA (out\<lparr>sv_branch := branch, sv_skipped := ''active namespace does not exist''\<rparr>)
               else
                 let dur = engDurable env E active branch;
                     out' = out\<lparr>sv_branch := branch, sv_durable := dur\<rparr>
                 in bindA (wrapA (\<lambda>e. Wrapf (''read the clean marker of '' @ active @ '': '') e [])
                            (onStore (GetActiveBranchClean w active))) (\<lambda>m.
                    bindA (case m of
                             None \<Rightarrow> returnA False
                           | Some (prevClean, prevWM) \<Rightarrow>
                               bindA (tryA (onEngine (nsExists (drv E) dur))) (\<lambda>ex.
                               bindA (tryA (onEngine (nsWatermark (drv E) active))) (\<lambda>wm.
                                 case wm of
                                   Inl e \<Rightarrow> returnA False
                                 | Inr curWM \<Rightarrow> returnA (captureSkippable prevClean (ex = Inr True) prevWM curWM)))) (\<lambda>skip.
                      if skip then returnA (out'\<lparr>sv_skipped := ''unchanged since last capture (watermark match)''\<rparr>)
                      else
                        bindA (wrapA (\<lambda>e. Wrapf (''capture '' @ active @ '' into durable copy for '' @ branch @ '': '') e [])
                                (captureRetrying (drv E) active dur)) (\<lambda>_.
                        bindA (recordDurable (durableRow repo w (label_of E) active branch dur)) (\<lambda>_.
                        bindA (tryA (onEngine (nsWatermark (drv E) active))) (\<lambda>wm.
                        bindA (case wm of
                                 Inr cur \<Rightarrow>
                                   if cur \<noteq> [] then
                                     wrapA (\<lambda>e. Wrapf (''record the clean marker of '' @ active @ '': '') e [])
                                       (onStore (SetActiveBranchClean repo w active branch (label_of E) True cur))
                                   else returnA ()
                               | Inl e \<Rightarrow> returnA ()) (\<lambda>_.
                          returnA out')))))))))"

subsection \<open>Over all the databases of a configuration\<close>

definition siblingSlugs :: "int \<Rightarrow> int \<Rightarrow> (branchDB, string list) action" where
  "siblingSlugs repo self =
     bindA (wrapA (\<lambda>e. Wrapf (''list the sibling worktrees of repo '' @ Itoa repo @ '': '') e [])
             (ListWorktreesForRepo repo)) (\<lambda>rows.
       returnA (map wt_slug (filter (\<lambda>w. \<not> (wt_id w = self \<or> wt_slug w = [] \<or> wt_deleted w)) rows)))"

type_synonym 'e dial = "DatabaseConfig \<Rightarrow> string list \<Rightarrow> go_error + 'e branchEngine option"

definition renderActive :: "nameEnv \<Rightarrow> DatabaseConfig \<Rightarrow> bsScope \<Rightarrow> string \<Rightarrow> ('e world, string) action" where
  "renderActive N e sc path =
     (case activeNamespace (slugs N) (redis N) e sc path of
        Inl err \<Rightarrow> raiseA (Wrapf (''render active namespace for '' @ d_engine e @ '': '') (renderFailed err) [])
      | Inr act \<Rightarrow> returnA act)"

text \<open>The filter names a family: \<open>--engine mysql\<close> also matches an entry declared as \<open>mariadb\<close>.\<close>

definition selected :: "string \<Rightarrow> DatabaseConfig \<Rightarrow> (bsScope \<times> string) option" where
  "selected engineFilter e =
     (let filterLabel = (if engineFilter = [] then []
                         else case Canonical engineFilter of Some fam \<Rightarrow> label fam | None \<Rightarrow> engineFilter)
      in if \<not> d_branch_scoped e then None
         else
           case branchScopeFor (d_engine e) of
             None \<Rightarrow> None
           | Some (sc, lbl) \<Rightarrow> if filterLabel \<noteq> [] \<and> lbl \<noteq> filterLabel then None else Some (sc, lbl))"

definition ResetBranchScoped ::
  "nameEnv \<Rightarrow> 'e dial \<Rightarrow> Config \<Rightarrow> string \<Rightarrow> int \<Rightarrow> int \<Rightarrow> string \<Rightarrow> ('e world, unit) action" where
  "ResetBranchScoped N dial C path repo w engineFilter =
     forA (\<lambda>e.
       case selected engineFilter e of
         None \<Rightarrow> returnA ()
       | Some (sc, lbl) \<Rightarrow>
           bindA (renderActive N e sc path) (\<lambda>active.
           bindA (onStore (siblingSlugs repo w)) (\<lambda>others.
             case dial e others of
               Inl cerr \<Rightarrow> raiseA cerr
             | Inr None \<Rightarrow> returnA ()
             | Inr (Some E) \<Rightarrow>
                 bindA (resetActiveNamespace (slugs N) E repo w active) (\<lambda>_.
                   writeEvent ''info'' ''db:reset''))))
       (Databases C)"

fun collectA :: "('x \<Rightarrow> ('s, 'y option) action) \<Rightarrow> 'x list \<Rightarrow> ('s, 'y list) action" where
  "collectA f [] = returnA []"
| "collectA f (x # xs) =
     bindA (f x) (\<lambda>y. bindA (collectA f xs) (\<lambda>ys. returnA (case y of None \<Rightarrow> ys | Some v \<Rightarrow> v # ys)))"

definition SaveBranchScoped ::
  "nameEnv \<Rightarrow> 'e dial \<Rightarrow> Config \<Rightarrow> string \<Rightarrow> int \<Rightarrow> int \<Rightarrow> string \<Rightarrow> ('e world, BranchScopedSave list) action" where
  "SaveBranchScoped N dial C path repo w engineFilter =
     collectA (\<lambda>e.
       case selected engineFilter e of
         None \<Rightarrow> returnA None
       | Some (sc, lbl) \<Rightarrow>
           bindA (renderActive N e sc path) (\<lambda>active.
           bindA (onStore (siblingSlugs repo w)) (\<lambda>others.
             case dial e others of
               Inl cerr \<Rightarrow> raiseA cerr
             | Inr None \<Rightarrow> returnA None
             | Inr (Some E) \<Rightarrow>
                 bindA (saveActiveNamespace (slugs N) E repo w active) (\<lambda>s.
                 bindA (if sv_skipped s = [] then writeEvent ''info'' ''db:save'' else returnA ()) (\<lambda>_.
                   returnA (Some s))))))
       (Databases C)"

definition teardownBranchScoped ::
  "nameEnv \<Rightarrow> 'e dial \<Rightarrow> DatabaseConfig \<Rightarrow> int \<Rightarrow> int \<Rightarrow> ('e world, unit) action" where
  "teardownBranchScoped N dial e repo w =
     (case branchScopeFor (d_engine e) of
        None \<Rightarrow> returnA ()
      | Some (sc, lbl) \<Rightarrow>
          bindA (onStore (WorktreePathByID w)) (\<lambda>path.
            if path = [] then returnA ()
            else
              bindA (case activeNamespace (slugs N) (redis N) e sc path of
                       Inl err \<Rightarrow> raiseA (renderFailed err) | Inr act \<Rightarrow> returnA act) (\<lambda>active.
              bindA (onStore (siblingSlugs repo w)) (\<lambda>others.
                case dial e others of
                  Inl cerr \<Rightarrow> raiseA cerr
                | Inr None \<Rightarrow> returnA ()
                | Inr (Some E) \<Rightarrow> teardownActive (slugs N) E repo w active))))"

record BranchScopedDB =
  bs_engine :: string
  bs_active :: string
  bs_branch :: string
  bs_resumable :: "string list"

definition localBranches :: "git \<Rightarrow> string \<Rightarrow> string list" where
  "localBranches git repoRoot =
     (case git repoRoot [''for-each-ref'', ''--format=%(refname:short)'', ''refs/heads/''] of
        Inl e \<Rightarrow> []
      | Inr out \<Rightarrow> filter (\<lambda>b. b \<noteq> []) (map TrimSpace (splitLines (TrimSpace out))))"

definition probeBranches ::
  "slug_env \<Rightarrow> 'e branchEngine \<Rightarrow> string \<Rightarrow> string list \<Rightarrow> ('e world, string list) action" where
  "probeBranches env E active branches =
     collectA (\<lambda>b. bindA (tryA (onEngine (nsExists (drv E) (engDurable env E active b)))) (\<lambda>ex.
       returnA (if ex = Inr True then Some b else None))) branches"

definition BranchScopedStatus ::
  "nameEnv \<Rightarrow> git \<Rightarrow> 'e dial \<Rightarrow> Config \<Rightarrow> string \<Rightarrow> string \<Rightarrow> int \<Rightarrow> ('e world, BranchScopedDB list) action" where
  "BranchScopedStatus N git dial C repoRoot path w =
     collectA (\<lambda>e.
       case selected [] e of
         None \<Rightarrow> returnA None
       | Some (sc, lbl) \<Rightarrow>
           bindA (renderActive N e sc path) (\<lambda>active.
             case dial e [] of
               Inl cerr \<Rightarrow> raiseA cerr
             | Inr None \<Rightarrow> returnA None
             | Inr (Some E) \<Rightarrow>
                 bindA (wrapA (\<lambda>err. Wrapf (''read the active-branch marker of '' @ active @ '': '') err [])
                         (onStore (GetActiveBranch w active))) (\<lambda>marker.
                 bindA (probeBranches (slugs N) E active (localBranches git repoRoot)) (\<lambda>res.
                   returnA (Some \<lparr>bs_engine = label_of E, bs_active = active,
                     bs_branch = (case marker of Some b \<Rightarrow> b | None \<Rightarrow> []), bs_resumable = res\<rparr>)))))
       (Databases C)"

end
