(* ===== verification/DriverLaws.thy ===== *)
theory DriverLaws
  imports BranchOps
begin

text \<open>
  What the swap lifecycle relies on from an engine driver, the contract in the comment of \<open>nsDriver\<close>:
  captures and restores read their source and change only their target.  The laws are stated over the
  content of a namespace, None when it does not exist, and the frame of every operation of the
  lifecycle follows from them once and for all.
\<close>

section \<open>Frames\<close>

definition only :: "('e \<Rightarrow> 'k \<Rightarrow> 'c option) \<Rightarrow> 'k set \<Rightarrow> 'e \<Rightarrow> 'e \<Rightarrow> bool" where
  "only content T e e' \<longleftrightarrow> (\<forall>ns. ns \<notin> T \<longrightarrow> content e' ns = content e ns)"

definition touches :: "('e \<Rightarrow> 'k \<Rightarrow> 'c option) \<Rightarrow> 'k set \<Rightarrow> ('e world, 'a) action \<Rightarrow> bool" where
  "touches content T m \<longleftrightarrow> keeps (engine_rel (only content T)) m"

named_theorems touch

lemma only_reflp: "reflp (only content T)"
  by (simp add: reflp_def only_def)

lemma only_transp: "transp (only content T)"
  by (auto simp: transp_def only_def)

lemma only_mono: "only content T e e' \<Longrightarrow> T \<subseteq> T' \<Longrightarrow> only content T' e e'"
  by (auto simp: only_def)

lemmas only_refl_trans = only_reflp only_transp reflp_engine_rel [OF only_reflp] transp_engine_rel [OF only_transp]

lemma touches_mono: "touches content T m \<Longrightarrow> T \<subseteq> T' \<Longrightarrow> touches content T' m"
  unfolding touches_def by (erule keeps_mono) (auto simp: engine_rel_def intro: only_mono)

lemma touches_returnA [touch]: "touches content T (returnA x)"
  and touches_raiseA [touch]: "touches content T (raiseA e)"
  and touches_onStore [touch]: "touches content T (onStore f)"
  and touches_ctxErr [touch]: "touches content T ctxErr"
  and touches_writeEvent [touch]: "touches content T (writeEvent l t)"
  unfolding touches_def by (intro keeps_intro only_refl_trans)+

lemma touches_bindA [touch]:
  "touches content T m \<Longrightarrow> (\<And>x. touches content T (f x)) \<Longrightarrow> touches content T (bindA m f)"
  unfolding touches_def by (intro keeps_bindA only_refl_trans)

lemma touches_tryA [touch]: "touches content T m \<Longrightarrow> touches content T (tryA m)"
  and touches_wrapA [touch]: "touches content T m \<Longrightarrow> touches content T (wrapA f m)"
  and touches_ignoreA [touch]: "touches content T m \<Longrightarrow> touches content T (ignoreA m)"
  unfolding touches_def by (intro keeps_intro; assumption)+

lemma touches_retry [touch]: "touches content T m \<Longrightarrow> touches content T (retryTransient m)"
  unfolding touches_def by (intro keeps_retryTransient only_refl_trans)

lemma touches_forA [touch]: "(\<And>x. touches content T (f x)) \<Longrightarrow> touches content T (forA f xs)"
  unfolding touches_def by (intro keeps_forA only_refl_trans)

lemma touches_if [touch]:
  "(b \<Longrightarrow> touches content T m) \<Longrightarrow> (\<not> b \<Longrightarrow> touches content T n) \<Longrightarrow> touches content T (if b then m else n)"
  by simp

lemma touches_option [touch]:
  "(x = None \<Longrightarrow> touches content T m) \<Longrightarrow> (\<And>y. x = Some y \<Longrightarrow> touches content T (f y)) \<Longrightarrow>
     touches content T (case x of None \<Rightarrow> m | Some y \<Rightarrow> f y)"
  by (cases x) auto

lemma touches_sum [touch]:
  "(\<And>p. x = Inl p \<Longrightarrow> touches content T (f p)) \<Longrightarrow> (\<And>q. x = Inr q \<Longrightarrow> touches content T (g q)) \<Longrightarrow>
     touches content T (case x of Inl p \<Rightarrow> f p | Inr q \<Rightarrow> g q)"
  by (cases x) auto

lemma touches_prod [touch]:
  "(\<And>p q. x = (p, q) \<Longrightarrow> touches content T (f p q)) \<Longrightarrow> touches content T (case x of (p, q) \<Rightarrow> f p q)"
  by (cases x) auto

lemma touches_bool [touch]:
  "touches content T m \<Longrightarrow> touches content T n \<Longrightarrow> touches content T (case b of True \<Rightarrow> m | False \<Rightarrow> n)"
  by (cases b) auto

lemma touches_onEngine: "(\<And>e r e'. f e = (r, e') \<Longrightarrow> only content T e e') \<Longrightarrow> touches content T (onEngine f)"
  unfolding touches_def by (rule keeps_engine)

lemma touches_result: "touches content T m \<Longrightarrow> m w = (r, w') \<Longrightarrow> ns \<notin> T \<Longrightarrow> content (engine w') ns = content (engine w) ns"
  unfolding touches_def by (drule (1) keepsD) (auto simp: engine_rel_def only_def)

section \<open>The laws\<close>

locale ns_driver =
  fixes D :: "'e nsDriver"
    and content :: "'e \<Rightarrow> string \<Rightarrow> 'c option"
  assumes exists_sound: "nsExists D ns e = (Inr b, e') \<Longrightarrow> b = (content e ns \<noteq> None)"
    and exists_frame: "nsExists D ns e = (r, e') \<Longrightarrow> only content {} e e'"
    and capture_frame: "nsCapture D src dst e = (q, e') \<Longrightarrow> only content {dst} e e'"
    and capture_copy: "nsCapture D src dst e = (Inr u, e') \<Longrightarrow> src \<noteq> dst \<Longrightarrow> content e src \<noteq> None \<Longrightarrow>
      content e' dst = content e src"
    and restore_frame: "nsRestore D src dst e = (q, e') \<Longrightarrow> only content {dst} e e'"
    and restore_copy: "nsRestore D src dst e = (Inr u, e') \<Longrightarrow> src \<noteq> dst \<Longrightarrow> content e src \<noteq> None \<Longrightarrow>
      content e' dst = content e src"
    and parent_frame: "nsRestoreParent D src dst keep e = (q, e') \<Longrightarrow> only content {dst} e e'"
    and empty_frame: "nsEmpty D ns e = (q, e') \<Longrightarrow> only content {ns} e e'"
    and drop_frame: "nsDrop D ns e = (q, e') \<Longrightarrow> only content {ns} e e'"
    and drop_gone: "nsDrop D ns e = (Inr u, e') \<Longrightarrow> content e' ns = None"
    and durable_frame: "nsDropDurable D ns e = (q, e') \<Longrightarrow> only content {ns} e e'"
    and durable_gone: "nsDropDurable D ns e = (Inr u, e') \<Longrightarrow> content e' ns = None"
    and watermark_frame: "nsWatermark D ns e = (w, e') \<Longrightarrow> only content {} e e'"
    and sample_frame: "nsSampler D = Some rs \<Longrightarrow> RowCountSample rs ns e = (c, e') \<Longrightarrow> only content {} e e'"
    and counts_frame: "nsSampler D = Some rs \<Longrightarrow> RowCountsFor rs ns ts e = (c, e') \<Longrightarrow> only content {} e e'"
begin

lemma touches_driver [touch]:
  "touches content T (onEngine (nsExists D ns))"
  "dst \<in> T \<Longrightarrow> touches content T (onEngine (nsCapture D src dst))"
  "dst \<in> T \<Longrightarrow> touches content T (onEngine (nsRestore D src dst))"
  "dst \<in> T \<Longrightarrow> touches content T (onEngine (nsRestoreParent D src dst keep))"
  "dst \<in> T \<Longrightarrow> touches content T (onEngine (nsEmpty D dst))"
  "dst \<in> T \<Longrightarrow> touches content T (onEngine (nsDrop D dst))"
  "dst \<in> T \<Longrightarrow> touches content T (onEngine (nsDropDurable D dst))"
  "touches content T (onEngine (nsWatermark D ns))"
  "nsSampler D = Some rs \<Longrightarrow> touches content T (onEngine (RowCountSample rs ns))"
  "nsSampler D = Some rs \<Longrightarrow> touches content T (onEngine (RowCountsFor rs ns ts))"
  by (rule touches_onEngine, rule only_mono,
      (erule exists_frame capture_frame restore_frame parent_frame empty_frame drop_frame durable_frame
         watermark_frame sample_frame counts_frame, simp?); simp; fail)+

lemma touches_sampling [touch]:
  "touches content T (sampleRows D ns)" "touches content T (sampleMissingRows D ns sample)"
  unfolding sampleRows_def sampleMissingRows_def Let_def by (intro touch; assumption?; simp)+

lemma touches_captureVerified [touch]: "dur \<in> T \<Longrightarrow> touches content T (captureVerified D active dur)"
  unfolding captureVerified_def captureRetrying_def by (intro touch; assumption)

lemma touches_freshest [touch]: "touches content T (freshest D lbl base cs durs best)"
  by (induction durs arbitrary: best) (auto intro!: touch)

end

text \<open>
  The write counter: a token of the engine that a non-empty watermark shows, and that looking does not
  change.
\<close>

locale watermark_driver = ns_driver D content
  for D :: "'e nsDriver" and content :: "'e \<Rightarrow> string \<Rightarrow> 'c option" +
  fixes token :: "'e \<Rightarrow> string \<Rightarrow> string"
  assumes watermark_token: "nsWatermark D ns e = (Inr wm, e') \<Longrightarrow> wm \<noteq> [] \<Longrightarrow> wm = token e ns"
    and watermark_same: "nsWatermark D ns e = (x, e') \<Longrightarrow> token e' = token e"
    and exists_same: "nsExists D ns e = (b, e') \<Longrightarrow> token e' = token e"

text \<open>The laws for the driver of a run, and what its parameters may touch.\<close>

locale swap_run = watermark_driver "drv (eng a)" content token
  for a :: "'e branchScopedArgs" and content :: "'e \<Rightarrow> string \<Rightarrow> 'c option" and token +
  assumes dump_frame: "loadDump a = Some load \<Longrightarrow> load active dr e = (q, e') \<Longrightarrow> only content {active} e e'"
    and migrate_frame: "migrateStepFn a = Some mig \<Longrightarrow> mig active e = (q, e') \<Longrightarrow> only content {active} e e'"
    and seed_frame: "seedStepFn a = Some seed \<Longrightarrow> seed active e = (q, e') \<Longrightarrow> only content {active} e e'"
begin

lemma touches_steps [touch]:
  "loadDump a = Some load \<Longrightarrow> active \<in> T \<Longrightarrow> touches content T (onEngine (load active dr))"
  "migrateStepFn a = Some mig \<Longrightarrow> active \<in> T \<Longrightarrow> touches content T (onEngine (mig active))"
  "seedStepFn a = Some seed \<Longrightarrow> active \<in> T \<Longrightarrow> touches content T (onEngine (seed active))"
  by (rule touches_onEngine, rule only_mono, (erule (1) dump_frame migrate_frame seed_frame), simp)+

lemma touches_reads [touch]:
  "touches content T (repoPath a)" "touches content T (parentDB a branch)" "touches content T (mainFallbackDB a branch)"
  "touches content T (baseBranchName a branch)" "touches content T (parentSourceKeep a p)"
  "touches content T (adoptBranch a branch)" "touches content T (markActive a active branch)"
  "touches content T (setClean a active branch clean wm)" "touches content T (recordDurable row)"
  unfolding repoPath_def parentDB_def mainFallbackDB_def baseBranchName_def parentSourceKeep_def adoptBranch_def
    markActive_def setClean_def recordDurable_def Let_def
  by (intro touch)+

lemma touches_baseBranchDurable [touch]: "touches content T (baseBranchDurable a branch)"
  unfolding baseBranchDurable_def Let_def by (intro touch)

lemma touches_resume [touch]:
  "active \<in> T \<Longrightarrow> durableName a active branch \<in> T \<Longrightarrow> touches content T (resumeDurableVerified a active branch)"
  unfolding resumeDurableVerified_def Let_def by (intro touch)

lemma touches_seedParent [touch]: "active \<in> T \<Longrightarrow> touches content T (seedParentVerified a p active)"
  unfolding seedParentVerified_def Let_def by (intro touch)

lemma touches_seedFrom [touch]: "active \<in> T \<Longrightarrow> touches content T (seedFrom a active found)"
  unfolding seedFrom_def by (intro touch)

lemma touches_fillPast [touch]: "active \<in> T \<Longrightarrow> touches content T (fillPast a active branch)"
  unfolding fillPast_def by (intro touch)

lemma touches_fill [touch]:
  "active \<in> T \<Longrightarrow> (useDurable \<Longrightarrow> durableName a active branch \<in> T) \<Longrightarrow>
     touches content T (fill a active branch useDurable)"
  unfolding fill_def by (intro touch) auto

lemma touches_seedFreshFrom [touch]:
  "active \<in> T \<Longrightarrow> (useDurable \<Longrightarrow> durableName a active branch \<in> T) \<Longrightarrow>
     touches content T (seedFreshFrom a active branch useDurable)"
  unfolding seedFreshFrom_def by (intro touch)

lemma touches_captureDurable [touch]:
  "durableName a active branch \<in> T \<Longrightarrow> touches content T (captureDurable a active branch)"
  unfolding captureDurable_def Let_def by (intro touch)

lemma touches_captureRedundant [touch]: "touches content T (captureRedundant a active old)"
  unfolding captureRedundant_def Let_def by (intro touch)

lemma touches_recordClean [touch]: "touches content T (recordClean a active branch dec mg sd)"
  unfolding recordClean_def by (intro touch)

lemma touches_swapBranch [touch]:
  "active \<in> T \<Longrightarrow> durableName a active old \<in> T \<Longrightarrow> durableName a active branch \<in> T \<Longrightarrow>
     touches content T (swapBranch a active old branch)"
  unfolding swapBranch_def by (intro touch)

lemma touches_migrateStep [touch]:
  "active \<in> T \<Longrightarrow> durableName a active branch \<in> T \<Longrightarrow> touches content T (migrateStep a active branch be dec)"
  unfolding migrateStep_def reseedPastDurable_def Let_def by (intro touch; simp)

end

end
