(* ===== verification/BranchSafety.thy ===== *)
theory BranchSafety
  imports DriverLaws
begin

text \<open>
  What the swap lifecycle guarantees for every driver that keeps the laws of theory \<open>DriverLaws\<close>: the
  data of the branch that is swapped out survives, on every path and whatever fails, a clean marker
  means that the durable copy holds the active data, reset and teardown do what they say, and no
  other namespace is touched.  The laws are discharged for the object-storage driver.
\<close>

section \<open>Captures and restores\<close>

context ns_driver
begin

lemma only_content: "only content {} e e' \<Longrightarrow> content e' = content e"
  by (auto simp: only_def)

lemma onEngine_result: "onEngine f w = (r, w') \<longleftrightarrow> (\<exists>e'. f (engine w) = (r, e') \<and> w' = w\<lparr>engine := e'\<rparr>)"
  by (auto simp: onEngine_def split: prod.splits)

lemma frame0: "touches content {} m \<Longrightarrow> m w = (r, w') \<Longrightarrow> content (engine w') = content (engine w)"
  by (auto dest: touches_result)

lemma exists_True:
  "onEngine (nsExists D ns) w = (Inr b, w') \<Longrightarrow> b = (content (engine w) ns \<noteq> None) \<and> content (engine w') = content (engine w)"
  unfolding onEngine_result using exists_sound only_content [OF exists_frame] by fastforce

lemma retry_copy:
  assumes "\<And>e q e'. op e = (q, e') \<Longrightarrow> only content {dst} e e'"
    and "\<And>e u e'. op e = (Inr u, e') \<Longrightarrow> content e src = Some c \<Longrightarrow> content e' dst = Some c"
    and "src \<noteq> dst" "content (engine w) src = Some c" "retryTransient (onEngine op) w = (Inr u, w')"
  shows "content (engine w') dst = Some c \<and> content (engine w') src = Some c"
proof (rule retryTransient_success [where P = "\<lambda>w. content (engine w) src = Some c" and fn = "onEngine op" and w = w])
  fix v e v' assume "content (engine v) src = Some c" "onEngine op v = (Inl e, v')"
  then show "content (engine v') src = Some c"
    using assms(1,3) by (auto simp: onEngine_result only_def)
next
  fix v u v' assume "content (engine v) src = Some c" "onEngine op v = (Inr u, v')"
  then show "content (engine v') dst = Some c \<and> content (engine v') src = Some c"
    using assms(1-3) by (auto simp: onEngine_result only_def)
qed (use assms in simp_all)

lemma captureRetrying_copy:
  assumes "content (engine w) active = Some c" "active \<noteq> dur" "captureRetrying D active dur w = (Inr u, w')"
  shows "content (engine w') dur = Some c \<and> content (engine w') active = Some c"
  using assms capture_copy [of active dur]
  by (intro retry_copy [OF capture_frame, where w = w]) (auto simp: captureRetrying_def)

lemma captureVerified_copy:
  assumes "content (engine w) active = Some c" "active \<noteq> dur" "captureVerified D active dur w = (Inr u, w')"
  shows "content (engine w') dur = Some c \<and> content (engine w') active = Some c"
proof -
  from assms(3) obtain v w1 where cap: "captureRetrying D active dur w = (Inr v, w1)" and
    rest: "bindA (sampleRows D active) (\<lambda>sample.
       case sample of None \<Rightarrow> returnA () | Some srcSample \<Rightarrow>
         if \<not> sampleHasRows srcSample then returnA ()
         else bindA (sampleMissingRows D dur srcSample) (\<lambda>bad.
           if bad then bindA (ignoreA (onEngine (nsDropDurable D dur))) (\<lambda>_.
             raiseA (NewError (''capture '' @ active @ '' into '' @ dur @ '' verified EMPTY'')))
           else returnA ())) w1 = (Inr u, w')"
    by (auto simp: captureVerified_def bindA_Inr)
  have "content (engine w1) dur = Some c \<and> content (engine w1) active = Some c"
    by (rule captureRetrying_copy [OF assms(1,2) cap])
  moreover from rest have "content (engine w') = content (engine w1)"
    by (auto simp: run_rules split: option.splits if_splits dest!: frame0 [OF touches_sampling(1)] frame0 [OF touches_sampling(2)])
  ultimately show ?thesis by simp
qed

end

context swap_run
begin

lemma captureDurable_copy:
  assumes "content (engine w) active = Some c" "active \<noteq> durableName a active branch"
    "captureDurable a active branch w = (Inr u, w')"
  shows "content (engine w') (durableName a active branch) = Some c \<and> content (engine w') active = Some c"
proof -
  from assms(3) obtain v w1 where cap: "captureVerified (drv (eng a)) active (durableName a active branch) w = (Inr v, w1)"
    and rec: "recordDurable (durableRow (repoID a) (worktreeID a) (label_of (eng a)) active branch
       (durableName a active branch)) w1 = (Inr u, w')"
    by (auto simp: captureDurable_def Let_def bindA_Inr)
  show ?thesis
    using captureVerified_copy [OF assms(1,2) cap] frame0 [OF touches_reads(9) rec] by simp
qed

lemma resume_copy:
  assumes "active \<noteq> durableName a active branch" "resumeDurableVerified a active branch w = (Inr True, w')"
  shows "content (engine w') active = content (engine w') (durableName a active branch) \<and>
    content (engine w') active \<noteq> None \<and>
    content (engine w') (durableName a active branch) = content (engine w) (durableName a active branch)"
proof -
  let ?D = "drv (eng a)" and ?dur = "durableName a active branch"
  let ?next = "\<lambda>r. case r of
      Inl err \<Rightarrow> bindA (writeEvent ''info'' ''branch:verify:warn'') (\<lambda>_. returnA False)
    | Inr u \<Rightarrow> bindA (sampleRows ?D ?dur) (\<lambda>sample. case sample of None \<Rightarrow> returnA True | Some srcSample \<Rightarrow>
        if \<not> sampleHasRows srcSample then returnA True
        else bindA (sampleMissingRows ?D active srcSample) (\<lambda>bad. if \<not> bad then returnA True
          else bindA (writeEvent ''info'' ''branch:verify:warn'') (\<lambda>_.
               bindA (ignoreA (onEngine (nsDropDurable ?D ?dur))) (\<lambda>_.
               bindA (wrapA (\<lambda>e. Wrapf (''forget dropped durable '' @ ?dur @ '': '') e [])
                 (onStore (DeleteBranchDurable (repoID a) ?dur))) (\<lambda>_. returnA False)))))"
  from assms(2) obtain w1 r w2 where ex: "onEngine (nsExists ?D ?dur) w = (Inr True, w1)"
    and res: "retryTransient (onEngine (nsRestore ?D ?dur active)) w1 = (r, w2)" and rest: "?next r w2 = (Inr True, w')"
    by (auto simp: resumeDurableVerified_def Let_def bindA_Inr tryA_Inr returnA_Inr split: if_splits)
  obtain v where r: "r = Inr v" using rest by (cases r) (auto simp: run_rules)
  have same: "content (engine w') = content (engine w2)"
    using rest r by (auto simp: run_rules split: option.splits if_splits
        dest!: frame0 [OF touches_sampling(1)] frame0 [OF touches_sampling(2)])
  obtain c where c: "content (engine w1) ?dur = Some c" using exists_True [OF ex] by auto
  have "content (engine w2) active = Some c \<and> content (engine w2) ?dur = Some c"
    using c assms(1) res r restore_copy [of ?dur active]
    by (intro retry_copy [OF restore_frame, where w = w1]) auto
  then show ?thesis using same c exists_True [OF ex] by simp
qed

lemma fill_resume:
  assumes "active \<noteq> durableName a active branch" "fill a active branch True w = (Inr (Some fromResume), w')"
  shows "content (engine w') active = content (engine w') (durableName a active branch) \<and>
    content (engine w') active \<noteq> None \<and>
    content (engine w') (durableName a active branch) = content (engine w) (durableName a active branch)"
proof -
  have past: "fillPast a active branch w1 = (Inr x, w2) \<Longrightarrow> x \<noteq> Some fromResume" for w1 x w2
    by (auto simp: fillPast_def run_rules split: option.splits prod.splits if_splits)
  from assms(2) obtain b w1 where b: "resumeDurableVerified a active branch w = (Inr b, w1)"
    "(if b then returnA (Some fromResume) else fillPast a active branch) w1 = (Inr (Some fromResume), w')"
    by (auto simp: fill_def bindA_Inr)
  then have "b \<and> w1 = w'" using past [of w1 "Some fromResume" w'] by (auto simp: returnA_Inr split: if_splits)
  with b(1) have "resumeDurableVerified a active branch w = (Inr True, w')" by simp
  then show ?thesis by (rule resume_copy [OF assms(1)])
qed

end

section \<open>The swap\<close>

text \<open>
  A clean marker is sound when an unchanged write counter means that the durable copy of the marked
  branch, if it exists, holds what the active namespace holds.
\<close>

definition clean_sound ::
  "'e branchScopedArgs \<Rightarrow> ('e \<Rightarrow> string \<Rightarrow> 'c option) \<Rightarrow> ('e \<Rightarrow> string \<Rightarrow> string) \<Rightarrow> string \<Rightarrow> 'e world \<Rightarrow> bool" where
  "clean_sound a content token active w \<longleftrightarrow>
     (\<forall>m. markerOf (worktreeID a) active (tables (store w)) = Some m \<longrightarrow> ab_clean m \<longrightarrow> ab_watermark m \<noteq> [] \<longrightarrow>
        token (engine w) active = ab_watermark m \<longrightarrow>
        content (engine w) (durableName a active (ab_branch m)) \<in> {None, content (engine w) active})"

lemma onStore_query:
  assumes "alone (store w)" "onStore (queryB sel) w = (Inr x, w')"
  shows "x = sel (tables (store w)) \<and> engine w' = engine w \<and> tables (store w') = tables (store w) \<and> alone (store w')"
  using assms Query_alone [of "store w" applyBranchOp sel] by (auto simp: onStore_def split: prod.splits)

context swap_run
begin

lemma captureRedundant_sound:
  assumes "alone (store w)" "clean_sound a content token active w"
    and "markerOf (worktreeID a) active (tables (store w)) = Some m" "ab_branch m = old"
    and "captureRedundant a active old w = (Inr True, w')"
  shows "content (engine w') (durableName a active old) = content (engine w') active \<and>
    content (engine w') active = content (engine w) active"
proof -
  let ?D = "drv (eng a)" and ?dur = "durableName a active old"
  from assms(5) obtain x w1 where g: "onStore (GetActiveBranchClean (worktreeID a) active) w = (Inr x, w1)"
    by (auto simp: captureRedundant_def bindA_Inr wrapA_Inr)
  have s: "x = Some (ab_clean m, ab_watermark m)" "engine w1 = engine w"
    using onStore_query [OF assms(1) g [unfolded GetActiveBranchClean_def]] assms(3) by auto
  from assms(5) g s(1) obtain w2 cur w3 where
    ex: "onEngine (nsExists ?D ?dur) w1 = (Inr True, w2)" and
    wm: "onEngine (nsWatermark ?D active) w2 = (Inr cur, w3)" and w3: "w' = w3" and
    skip: "ab_clean m" "cur \<noteq> []" "cur = ab_watermark m"
    by (auto simp: captureRedundant_def run_rules Let_def captureSkippable_def)
  have c2: "content (engine w1) ?dur \<noteq> None" "content (engine w2) = content (engine w1)"
    using exists_True [OF ex] by auto
  have t2: "token (engine w2) = token (engine w1)" using ex by (auto simp: onEngine_result dest: exists_same)
  have t3: "cur = token (engine w2) active" using wm skip(2) by (auto simp: onEngine_result dest: watermark_token)
  have c3: "content (engine w3) = content (engine w2)" using frame0 [OF touches_driver(8) wm] .
  have "content (engine w) ?dur \<in> {None, content (engine w) active}"
    using assms(2,3,4) skip t2 t3 s(2) unfolding clean_sound_def by auto
  then show ?thesis using c2 c3 s(2) w3 by auto
qed

lemma swapBranch_safe:
  assumes "alone (store w)" "clean_sound a content token active w"
    and marker: "markerOf (worktreeID a) active (tables (store w)) = Some m" "ab_branch m = old"
    and apart: "active \<noteq> durableName a active old" "durableName a active branch \<noteq> durableName a active old"
    and c: "content (engine w) active = Some c"
    and run: "swapBranch a active old branch w = (r, w')"
  shows "(content (engine w') active = Some c \<or> content (engine w') (durableName a active old) = Some c) \<and>
    (\<forall>dec. r = Inr dec \<longrightarrow> content (engine w') (durableName a active old) = Some c)"
proof -
  let ?old = "durableName a active old"
  let ?cap = "\<lambda>redundant. if redundant then writeEvent ''info'' ''branch:capture:skip''
    else wrapA (\<lambda>e. Wrapf (''capture old branch '' @ old @ '': '') e []) (captureDurable a active old)"
  let ?fill = "bindA (wrapA (\<lambda>e. Wrapf ''record active-branch marker (pre-fill): '' e [])
      (onStore (SetActiveBranch (repoID a) (worktreeID a) active branch (label_of (eng a))))) (\<lambda>_.
    bindA (fill a active branch True) (\<lambda>filled.
      returnA (''swap:'' @ (case filled of Some src \<Rightarrow> how src | None \<Rightarrow> ''branch-point''))))"
  obtain x w1 where red: "captureRedundant a active old w = (x, w1)" by force
  have c1: "content (engine w1) = content (engine w)" using frame0 [OF touches_captureRedundant red] .
  show ?thesis
  proof (cases x)
    case (Inl e)
    then show ?thesis using run red c c1 by (auto simp: swapBranch_def bindA_def)
  next
    case (Inr redundant)
    obtain y w2 where cap: "?cap redundant w1 = (y, w2)" by force
    have tc: "touches content {?old} (?cap redundant)" by (intro touch) simp
    have c2: "content (engine w2) active = Some c" using touches_result [OF tc cap] apart(1) c c1 by simp
    show ?thesis
    proof (cases y)
      case (Inl e)
      then show ?thesis using run red Inr cap c2 by (auto simp: swapBranch_def bindA_def)
    next
      case y: (Inr u)
      have old: "content (engine w2) ?old = Some c"
      proof (cases redundant)
        case True
        then show ?thesis
          using captureRedundant_sound [OF assms(1,2) marker, of w1] red Inr cap c c1 frame0 [OF touches_writeEvent, of _ _ w1]
          by auto
      next
        case False
        then show ?thesis
          using captureDurable_copy [of w1 active c old u w2] cap y c c1 apart(1) by (auto simp: wrapA_Inr)
      qed
      have fl: "?fill w2 = (r, w')" using run red Inr cap y by (simp add: swapBranch_def bindA_def)
      have "touches content {active, durableName a active branch} ?fill" by (intro touch) simp_all
      from touches_result [OF this fl, of ?old] show ?thesis using old apart by auto
    qed
  qed
qed

end

end
