(* ===== verification/S3Laws.thy ===== *)
theory S3Laws
  imports S3Driver BranchSafety
begin

text \<open>
  The object-storage driver keeps the driver laws: a bucket copy changes its target only and leaves it
  with the objects of the source, for small objects and for those copied in parts.
\<close>

section \<open>Frames\<close>

definition s3_content :: "s3 \<Rightarrow> string \<Rightarrow> (string \<rightharpoonup> string) option" where
  "s3_content s b = map_option map_of (buckets s b)"

lemma s3_faults [simp]: "s3_content (s\<lparr>faults := xs\<rparr>) = s3_content s"
  by (simp add: fun_eq_iff s3_content_def)

abbreviation s3_keeps :: "string set \<Rightarrow> (s3, 'a) action \<Rightarrow> bool" where
  "s3_keeps T m \<equiv> keeps (only s3_content T) m"

lemma keeps_request:
  assumes "s3_keeps T f" shows "s3_keeps T (request f)"
proof (rule keepsI)
  fix s r s' assume "request f s = (r, s')"
  then obtain s0 where "s3_content s0 = s3_content s" "f s0 = (r, s') \<or> s3_content s' = s3_content s"
    by (auto simp: request_def split: list.splits option.splits) (metis s3_faults)
  then show "only s3_content T s s'"
    using keepsD [OF assms, of s0 r s'] by (auto simp: only_def)
qed

lemma keeps_pure: "s3_keeps T (\<lambda>s. (f s, s))"
  by (rule keepsI) (auto simp: only_def)

lemma keeps_server:
  "s3_keeps T (HeadBucket b)" "s3_keeps T (ListObjects b)"
  "b \<in> T \<Longrightarrow> s3_keeps T (CreateBucket b)" "b \<in> T \<Longrightarrow> s3_keeps T (DeleteObjects b ks)"
  "b \<in> T \<Longrightarrow> s3_keeps T (PutObject b k v)" "b \<in> T \<Longrightarrow> s3_keeps T (CopyObject src b k)"
  "b \<in> T \<Longrightarrow> s3_keeps T (DeleteBucket b)" "s3_keeps T (request (returnA ()))"
  unfolding HeadBucket_def ListObjects_def CreateBucket_def DeleteObjects_def CopyObject_def DeleteBucket_def
  by ((intro keeps_request)?, (rule keepsI)?,
      force simp: only_def s3_content_def PutObject_def returnA_def split: if_splits option.splits)+

lemmas s3_intro = keeps_server keeps_returnA [OF only_reflp] keeps_raiseA [OF only_reflp] keeps_bindA [OF only_transp]
  keeps_tryA keeps_wrapA keeps_if keeps_option keeps_sum keeps_forA [OF only_reflp only_transp]

lemma keeps_deleteBatch: "b \<in> T \<Longrightarrow> s3_keeps T (deleteBatch b ids)"
proof (induction b ids rule: deleteBatch.induct)
  case (1 b ids)
  then show ?case by (subst deleteBatch.simps) (intro s3_intro; simp)
qed

lemma keeps_walkObjects: "(\<And>objs. s3_keeps T (handle objs)) \<Longrightarrow> s3_keeps T (walkObjects b handle)"
  unfolding walkObjects_def by (intro s3_intro; simp)

lemma keeps_emptyListed: "b \<in> T \<Longrightarrow> s3_keeps T (emptyListed b)"
  unfolding emptyListed_def by (intro keeps_walkObjects keeps_deleteBatch)

lemma keeps_abort: "s3_keeps T (abortMultiparts b)"
  unfolding abortMultiparts_def
  by (intro s3_intro keeps_request) (auto intro!: keepsI simp: only_def)

lemma keeps_emptyBucket: "b \<in> T \<Longrightarrow> s3_keeps T (emptyBucket b)"
  unfolding emptyBucket_def emptyObjects_def by (intro s3_intro keeps_abort keeps_emptyListed)

lemma keeps_EnsureBucket: "b \<in> T \<Longrightarrow> s3_keeps T (EnsureBucket b)"
  unfolding EnsureBucket_def by (intro s3_intro)

lemma keeps_BucketExists: "s3_keeps T (BucketExists b)"
  unfolding BucketExists_def by (intro s3_intro)

lemma keeps_DropBucket: "b \<in> T \<Longrightarrow> s3_keeps T (DropBucket b)"
  unfolding DropBucket_def by (intro s3_intro keeps_emptyBucket)

lemma keeps_copyParts: "s3_keeps T (copyParts src k rs)"
  by (induction rs) (simp_all, (intro s3_intro keeps_request keeps_pure; assumption)+)

lemma keeps_copyObject: "dst \<in> T \<Longrightarrow> s3_keeps T (copyObject src dst k n)"
  unfolding copyObject_def copyObjectMultipart_def
  by (intro s3_intro keeps_copyParts keeps_request)

lemma keeps_CopyBucket: "dst \<in> T \<Longrightarrow> s3_keeps T (CopyBucket src dst)"
  unfolding CopyBucket_def
  by (intro s3_intro keeps_EnsureBucket keeps_emptyBucket keeps_walkObjects keeps_copyObject)

section \<open>Effects\<close>

lemma request_Inr: "request f s = (Inr x, s') \<Longrightarrow> \<exists>s0. f s0 = (Inr x, s') \<and> buckets s0 = buckets s"
  by (auto simp: request_def split: list.splits option.splits intro: exI)

lemma request_Inl:
  "request f s = (Inl e, s') \<Longrightarrow>
     (\<exists>s0. f s0 = (Inl e, s') \<and> buckets s0 = buckets s) \<or> (buckets s' = buckets s \<and> (\<exists>ft. e = faultError ft))"
  by (auto simp: request_def split: list.splits option.splits intro: exI)

lemma fault_kinds [simp]: "\<not> isNotFound (faultError ft)" "\<not> isAlreadyOwned (faultError ft)"
  by (cases ft; simp add: isNotFound_def isAlreadyOwned_def faultError_def noSuchBucket_def noSuchKey_def
      alreadyOwned_def notImplemented_def)+

lemma not_found_kinds [simp]: "isNotFound noSuchBucket" "isAlreadyOwned alreadyOwned" "\<not> isNotFound alreadyOwned"
  "isNotFound (Wrapf x e y) = (isNotFound e)" "isNotImplemented (Wrapf x e y) = isNotImplemented e"
  by (auto simp: isNotFound_def isAlreadyOwned_def noSuchBucket_def alreadyOwned_def noSuchKey_def isNotImplemented_def notImplemented_def)

lemma BucketExists_sound:
  assumes "BucketExists b s = (Inr x, s')"
  shows "x = (s3_content s b \<noteq> None)"
proof -
  obtain r s1 where h: "HeadBucket b s = (r, s1)" by force
  show ?thesis
  proof (cases r)
    case (Inl e)
    then have "isNotFound e" "\<not> x" using assms h by (auto simp: BucketExists_def run_rules)
    with request_Inl [OF h [unfolded HeadBucket_def Inl]] have "buckets s b = None" by (auto split: if_splits)
    then show ?thesis using \<open>\<not> x\<close> by (simp add: s3_content_def)
  next
    case (Inr u)
    then have "x" using assms h by (auto simp: BucketExists_def run_rules)
    moreover have "buckets s b \<noteq> None"
      using request_Inr [OF h [unfolded HeadBucket_def Inr]] by (auto split: if_splits)
    ultimately show ?thesis by (simp add: s3_content_def)
  qed
qed

lemma EnsureBucket_present:
  assumes "EnsureBucket b s = (Inr u, s')"
  shows "buckets s' b \<noteq> None"
proof -
  obtain r s1 where h: "CreateBucket b s = (r, s1)" by force
  have s1: "s' = s1" using assms h by (auto simp: EnsureBucket_def run_rules)
  show ?thesis
  proof (cases r)
    case (Inl e)
    then have "isAlreadyOwned e" using assms h by (auto simp: EnsureBucket_def run_rules)
    with request_Inl [OF h [unfolded CreateBucket_def Inl]] show ?thesis using s1 by (auto split: if_splits)
  next
    case (Inr v)
    then show ?thesis using request_Inr [OF h [unfolded CreateBucket_def Inr]] s1 by (auto split: if_splits)
  qed
qed

text \<open>Emptying neither removes nor creates the bucket itself.\<close>

definition alive :: "string \<Rightarrow> s3 \<Rightarrow> s3 \<Rightarrow> bool" where
  "alive b s s' \<longleftrightarrow> (buckets s' b = None) = (buckets s b = None)"

lemma alive_refl: "reflp (alive b)" and alive_trans: "transp (alive b)"
  by (auto simp: reflp_def transp_def alive_def)

lemma alive_request:
  assumes "keeps (alive b) f" shows "keeps (alive b) (request f)"
proof (rule keepsI)
  fix s r s' assume "request f s = (r, s')"
  then show "alive b s s'"
    using request_Inl [of f s _ s'] request_Inr [of f s _ s'] keepsD [OF assms]
    by (cases r) (fastforce simp: alive_def)+
qed

lemma alive_server: "keeps (alive b) (ListObjects c)" "keeps (alive b) (DeleteObjects c ks)"
  unfolding ListObjects_def DeleteObjects_def
  by (intro alive_request keepsI; auto simp: alive_def split: option.splits if_splits)+

lemmas alive_intro = alive_server keeps_returnA [OF alive_refl] keeps_raiseA [OF alive_refl] keeps_bindA [OF alive_trans]
  keeps_tryA keeps_wrapA keeps_if keeps_option keeps_sum

lemma alive_deleteBatch: "keeps (alive b) (deleteBatch c ids)"
proof (induction c ids rule: deleteBatch.induct)
  case (1 c ids)
  then show ?case by (subst deleteBatch.simps) (intro alive_intro; simp)
qed

lemma alive_emptyListed: "keeps (alive b) (emptyListed c)"
  unfolding emptyListed_def walkObjects_def by (intro alive_intro alive_deleteBatch)

lemma alive_abort: "keeps (alive b) (abortMultiparts c)"
  unfolding abortMultiparts_def by (intro alive_intro alive_request) (auto simp: keeps_def alive_def)

lemma alive_emptyBucket: "keeps (alive b) (emptyBucket c)"
  unfolding emptyBucket_def emptyObjects_def by (intro alive_intro alive_emptyListed alive_abort)

lemma deleteBatch_effect:
  "deleteBatch b ids s = (Inr u, s') \<Longrightarrow> buckets s b = Some os \<Longrightarrow>
     buckets s' b = Some (filter (\<lambda>ob. fst ob \<notin> set ids) os)"
proof (induction b ids arbitrary: s os rule: deleteBatch.induct)
  case (1 b ids)
  show ?case
  proof (cases "ids = []")
    case True
    then show ?thesis using 1(2,3) by (simp add: deleteBatch.simps returnA_def)
  next
    case False
    with 1(2) obtain v s1 where d: "DeleteObjects b (take maxKeys ids) s = (Inr v, s1)"
      "deleteBatch b (drop maxKeys ids) s1 = (Inr u, s')"
      by (subst (asm) deleteBatch.simps) (auto simp: run_rules)
    have "buckets s1 b = Some (filter (\<lambda>ob. fst ob \<notin> set (take maxKeys ids)) os)"
      using request_Inr [OF d(1) [unfolded DeleteObjects_def]] 1(3) by auto
    from 1(1) [OF False d(2) this] have "buckets s' b = Some (filter (\<lambda>ob. fst ob \<notin> set (drop maxKeys ids))
      (filter (\<lambda>ob. fst ob \<notin> set (take maxKeys ids)) os))" .
    moreover have "set ids = set (take maxKeys ids) \<union> set (drop maxKeys ids)"
      using set_append [of "take maxKeys ids" "drop maxKeys ids"] by simp
    ultimately show ?thesis by (simp add: conj_commute)
  qed
qed

lemma ListObjects_run:
  assumes "ListObjects b s = (r, s')" "buckets s b = Some os"
  shows "buckets s' = buckets s \<and> (r = Inr (listing os) \<or> (\<exists>ft. r = Inl (faultError ft)))"
proof (cases r)
  case (Inl e)
  then show ?thesis using request_Inl [OF assms(1) [unfolded ListObjects_def Inl]] assms(2) by auto
next
  case (Inr x)
  then show ?thesis using request_Inr [OF assms(1) [unfolded ListObjects_def Inr]] assms(2) by auto
qed

lemma listing_keys: "fst ` set (listing os) = fst ` set os"
  by (force simp: listing_def image_iff)

lemma listing_Nil: "listing os = [] \<longleftrightarrow> os = []"
  by (cases os) (auto simp: listing_def)

lemma distinct_listing: "distinct (map fst (listing os))"
  by (simp add: listing_def o_def)

lemma map_of_listing: "map_of (listing os) = map_of os"
proof
  fix k
  have "map_of (map (\<lambda>k. (k, f k)) ks) k = (if k \<in> set ks then Some (f k) else None)" for f :: "string \<Rightarrow> string" and ks
    by (induction ks) auto
  then show "map_of (listing os) k = map_of os k"
    by (cases "map_of os k") (auto simp: listing_def map_of_eq_None_iff [symmetric] dest: map_of_SomeD intro: rev_image_eqI)
qed

lemma walkObjects_Inr:
  assumes "walkObjects b handle s = (Inr u, s')" "buckets s b = Some os"
  shows "\<exists>s1. buckets s1 = buckets s \<and>
           (if os = [] then s' = s1 else handle (listing os) s1 = (Inr u, s'))"
proof -
  obtain r s1 where l: "ListObjects b s = (r, s1)" by force
  from ListObjects_run [OF this assms(2)] have s1: "buckets s1 = buckets s"
    and r: "r = Inr (listing os) \<or> (\<exists>ft. r = Inl (faultError ft))" by auto
  have "r = Inr (listing os)"
    using assms(1) l r by (auto simp: walkObjects_def bindA_def tryA_def wrapA_def raiseA_def)
  then show ?thesis using assms(1) l s1
    by (intro exI [of _ s1])
      (auto simp: walkObjects_def bindA_def tryA_def wrapA_def returnA_def listing_Nil split: if_splits)
qed

lemma emptyListed_effect:
  assumes "emptyListed b s = (Inr u, s')" "buckets s b \<noteq> None"
  shows "buckets s' b = Some []"
proof -
  obtain os where os: "buckets s b = Some os" using assms(2) by auto
  from walkObjects_Inr [OF assms(1) [unfolded emptyListed_def] os]
  obtain s1 where s1: "buckets s1 = buckets s"
    and run: "if os = [] then s' = s1 else deleteBatch b (map fst (listing os)) s1 = (Inr u, s')" by auto
  show ?thesis
  proof (cases "os = []")
    case False
    then have "deleteBatch b (map fst (listing os)) s1 = (Inr u, s')" "buckets s1 b = Some os"
      using run s1 os by simp_all
    from deleteBatch_effect [OF this] show ?thesis
      by (auto simp: filter_empty_conv listing_keys)
  qed (use run s1 os in simp)
qed

lemma emptyObjects_effect:
  assumes "emptyObjects b s = (Inr u, s')" "buckets s b \<noteq> None"
  shows "buckets s' b = Some []"
proof -
  obtain r s1 where e: "emptyListed b s = (r, s1)" by force
  show ?thesis
  proof (cases r)
    case (Inl err)
    then have "emptyListed b s1 = (Inr u, s')"
      using assms(1) e by (auto simp: emptyObjects_def bindA_def tryA_def raiseA_def split: if_splits)
    moreover have "buckets s1 b \<noteq> None" using keepsD [OF alive_emptyListed e] assms(2) by (auto simp: alive_def)
    ultimately show ?thesis by (rule emptyListed_effect)
  next
    case (Inr v)
    then have "s' = s1" using assms(1) e by (auto simp: emptyObjects_def bindA_def tryA_def returnA_def)
    then show ?thesis using emptyListed_effect [of b s v s1] e Inr assms(2) by simp
  qed
qed

lemma abort_same:
  assumes "abortMultiparts b s = (r, s')" shows "buckets s' = buckets s"
proof -
  have "keeps (\<lambda>s s'. buckets s' = buckets s) (abortMultiparts b)"
    unfolding abortMultiparts_def
    by (intro keeps_bindA keeps_tryA keeps_sum keeps_if keeps_returnA keeps_raiseA)
      (auto simp: keeps_def request_def reflp_def transp_def split: list.splits option.splits)
  from keepsD [OF this assms] show ?thesis .
qed

lemma emptyBucket_effect:
  assumes "emptyBucket b s = (Inr u, s')" "buckets s b \<noteq> None"
  shows "buckets s' b = Some []"
proof -
  obtain r s1 where a: "abortMultiparts b s = (r, s1)" by force
  then have "emptyObjects b s1 = (Inr u, s')"
    using assms(1) by (cases r) (auto simp: emptyBucket_def bindA_def tryA_def raiseA_def split: if_splits)
  moreover have "buckets s1 b \<noteq> None" using abort_same [OF a] assms(2) by simp
  ultimately show ?thesis by (rule emptyObjects_effect)
qed

subsection \<open>Copies\<close>

lemma getObject_content: "getObject s b k = (case s3_content s b of None \<Rightarrow> None | Some m \<Rightarrow> m k)"
  by (auto simp: getObject_def s3_content_def split: option.splits)

lemma map_of_put: "[k \<mapsto> v] ++ map_of (filter (\<lambda>ob. fst ob \<noteq> k) os) = (map_of os)(k \<mapsto> v)"
  by (auto simp: fun_eq_iff map_add_def map_of_drop_key split: option.splits)

lemma content_eq: "buckets s = buckets s' \<Longrightarrow> s3_content s = s3_content s'"
  by (simp add: fun_eq_iff s3_content_def)

lemma PutObject_effect:
  "PutObject b k v s = (Inr u, s') \<Longrightarrow> s3_content s b = Some m \<Longrightarrow> s3_content s' b = Some (m(k \<mapsto> v))"
  by (auto simp: PutObject_def s3_content_def map_of_put split: option.splits)

lemma request_step:
  assumes "request f s = (Inr x, s')"
  obtains s0 where "f s0 = (Inr x, s')" "s3_content s0 = s3_content s"
  using request_Inr [OF assms] content_eq by blast

lemma copyParts_effect:
  "copyParts src k rs s = (Inr ps, s') \<Longrightarrow> getObject s src k = Some v \<Longrightarrow>
     ps = concat (map (\<lambda>r. bytesOf r v) rs)"
proof (induction rs arbitrary: s ps s')
  case (Cons r rs)
  from Cons.prems(1) obtain p s1 ps' s2 where
    p: "request (\<lambda>s. (case getObject s src k of None \<Rightarrow> Inl noSuchKey | Some v \<Rightarrow> Inr (bytesOf r v), s)) s = (Inr p, s1)"
    and ps: "copyParts src k rs s1 = (Inr ps', s2)" "ps = p @ ps'" by (auto simp: run_rules)
  from request_step [OF p] obtain s0 where s0: "s3_content s0 = s3_content s"
    "(case getObject s0 src k of None \<Rightarrow> Inl noSuchKey | Some v \<Rightarrow> Inr (bytesOf r v)) = Inr p" "s1 = s0" by auto
  then have "getObject s1 src k = Some v" "p = bytesOf r v"
    using Cons.prems(2) by (auto simp: getObject_content)
  then show ?case using Cons.IH [OF ps(1)] ps(2) by simp
qed (simp add: returnA_def)

lemma copied_parts:
  "concat (map (\<lambda>r. bytesOf r v) (map (partRange (length v) copyPartBytes) [0 ..< partCount (length v) copyPartBytes])) = v"
proof -
  have "0 < copyPartBytes" by (simp add: copyPartBytes_def)
  from parts_tile [OF this order_refl, of v] partCount_covers [OF this, of "length v"]
  show ?thesis by (simp add: o_def)
qed

lemma copyObject_effect:
  assumes "copyObject src dst k (length v) s = (Inr u, s')"
    and "getObject s src k = Some v" "s3_content s dst = Some m"
  shows "s3_content s' dst = Some (m(k \<mapsto> v))"
proof (cases "maxSingleCopyBytes \<le> length v")
  case False
  with assms(1) have "CopyObject src dst k s = (Inr u, s')" by (simp add: copyObject_def run_rules)
  from request_step [OF this [unfolded CopyObject_def]]
  obtain s0 where "(case getObject s0 src k of None \<Rightarrow> (Inl noSuchKey, s0) | Some v \<Rightarrow> PutObject dst k v s0) = (Inr u, s')"
    and s0: "s3_content s0 = s3_content s" by blast
  then have "PutObject dst k v s0 = (Inr u, s')" using assms(2) by (simp add: getObject_content)
  then show ?thesis using PutObject_effect s0 assms(3) by metis
next
  case True
  let ?rs = "map (partRange (length v) copyPartBytes) [0 ..< partCount (length v) copyPartBytes]"
  from assms(1) True obtain s1 r s2 where c: "request (returnA ()) s = (Inr (), s1)" "copyParts src k ?rs s1 = (r, s2)"
    and rest: "(case r of Inl err \<Rightarrow> False | Inr body \<Rightarrow> request (PutObject dst k body) s2 = (Inr u, s'))"
    unfolding copyObject_def copyObjectMultipart_def by (auto simp: run_rules split: sum.splits)
  then obtain body where body: "r = Inr body" "request (PutObject dst k body) s2 = (Inr u, s')"
    by (cases r) auto
  have s1: "s3_content s1 = s3_content s"
    using keepsD [OF keeps_server(8) [of "{}"] c(1)] by (auto simp: only_def)
  have s2: "s3_content s2 = s3_content s"
    using keepsD [OF keeps_copyParts [of "{}"] c(2)] s1 by (auto simp: only_def)
  have "getObject s1 src k = Some v" using s1 assms(2) by (simp add: getObject_content)
  then have "body = v"
    using copyParts_effect [OF c(2) [unfolded body(1)]] copied_parts [of v] by simp
  moreover obtain s3' where "PutObject dst k body s3' = (Inr u, s')" "s3_content s3' = s3_content s2"
    using request_step [OF body(2)] .
  ultimately show ?thesis using PutObject_effect s2 assms(3) by metis
qed

lemma copies_effect:
  "forA (\<lambda>ob. copyObject src dst (fst ob) (length (snd ob))) objs s = (Inr u, s') \<Longrightarrow> src \<noteq> dst \<Longrightarrow>
     distinct (map fst objs) \<Longrightarrow> (\<forall>ob \<in> set objs. getObject s src (fst ob) = Some (snd ob)) \<Longrightarrow>
     s3_content s dst = Some m \<Longrightarrow> s3_content s' dst = Some (m ++ map_of objs)"
proof (induction objs arbitrary: s m)
  case (Cons ob objs)
  from Cons.prems(1) obtain s1 where c: "copyObject src dst (fst ob) (length (snd ob)) s = (Inr (), s1)"
    "forA (\<lambda>ob. copyObject src dst (fst ob) (length (snd ob))) objs s1 = (Inr u, s')" by (auto simp: run_rules)
  have d: "s3_content s1 dst = Some (m(fst ob \<mapsto> snd ob))"
    using copyObject_effect [OF c(1)] Cons.prems(4,5) by simp
  have src: "s3_content s1 src = s3_content s src"
    using keepsD [OF keeps_copyObject [of dst "{dst}"] c(1)] Cons.prems(2) by (auto simp: only_def)
  have "s3_content s' dst = Some (m(fst ob \<mapsto> snd ob) ++ map_of objs)"
    by (rule Cons.IH [OF c(2) Cons.prems(2) _ _ d]) (use Cons.prems(3,4) src in \<open>simp_all add: getObject_content\<close>)
  moreover have "m(fst ob \<mapsto> snd ob) ++ map_of objs = m ++ map_of (ob # objs)"
    using Cons.prems(3) by (simp add: map_add_upd_left map_of_eq_None_iff [symmetric] domIff)
  ultimately show ?case by (simp only:)
qed (simp add: returnA_def)

lemma CopyBucket_copy:
  assumes "CopyBucket src dst s = (Inr u, s')" "src \<noteq> dst" "s3_content s src \<noteq> None"
  shows "s3_content s' dst = s3_content s src"
proof -
  from assms(1) obtain s1 s2 where e: "EnsureBucket dst s = (Inr (), s1)" "emptyBucket dst s1 = (Inr (), s2)"
    and w: "walkObjects src (\<lambda>objs. forA (\<lambda>ob. copyObject src dst (fst ob) (length (snd ob))) objs) s2 = (Inr u, s')"
    by (auto simp: CopyBucket_def run_rules)
  have same: "s3_content s2 src = s3_content s src"
    using keepsD [OF keeps_EnsureBucket [of dst "{dst}"] e(1)] keepsD [OF keeps_emptyBucket [of dst "{dst}"] e(2)]
      assms(2) by (auto simp: only_def)
  then obtain os where os: "buckets s2 src = Some os" "s3_content s src = Some (map_of os)"
    using assms(3) by (auto simp: s3_content_def)
  have dst: "s3_content s2 dst = Some Map.empty"
    using emptyBucket_effect [OF e(2) EnsureBucket_present [OF e(1)]] by (simp add: s3_content_def)
  from walkObjects_Inr [OF w os(1)] obtain s3' where s3': "s3_content s3' = s3_content s2"
    and run: "if os = [] then s' = s3'
      else forA (\<lambda>ob. copyObject src dst (fst ob) (length (snd ob))) (listing os) s3' = (Inr u, s')"
    using content_eq by blast
  show ?thesis
  proof (cases "os = []")
    case True
    then show ?thesis using run s3' dst os(2) by simp
  next
    case False
    have "\<forall>ob \<in> set (listing os). getObject s3' src (fst ob) = Some (snd ob)"
      using map_of_listing [of os] same s3' os(2)
      by (auto simp: getObject_content distinct_listing intro: map_of_is_SomeI dest: sym)
    then show ?thesis using copies_effect [of src dst "listing os" s3' u s' Map.empty] run False dst s3' assms(2) os(2)
      by (simp add: distinct_listing map_of_listing)
  qed
qed

subsection \<open>Drops\<close>

text \<open>On a bucket that exists, no step of emptying it reports that the bucket is missing.\<close>

definition finds :: "string \<Rightarrow> (s3, 'a) action \<Rightarrow> bool" where
  "finds b m \<longleftrightarrow> (\<forall>s e s'. m s = (Inl e, s') \<longrightarrow> buckets s b \<noteq> None \<longrightarrow> \<not> isNotFound e)"

lemma findsD: "finds b m \<Longrightarrow> m s = (Inl e, s') \<Longrightarrow> buckets s b \<noteq> None \<Longrightarrow> \<not> isNotFound e"
  by (auto simp: finds_def)

lemma finds_request:
  "(\<And>s e s'. f s = (Inl e, s') \<Longrightarrow> buckets s b \<noteq> None \<Longrightarrow> \<not> isNotFound e) \<Longrightarrow> finds b (request f)"
  unfolding finds_def using request_Inl by fastforce

lemma finds_server: "finds b (ListObjects b)" "finds b (DeleteObjects b ks)" "finds b (HeadBucket b)"
  unfolding ListObjects_def DeleteObjects_def HeadBucket_def
  by (auto intro!: finds_request split: option.splits if_splits)

lemma finds_bindA:
  assumes "finds b m" "keeps (alive b) m" "\<And>x. finds b (f x)" shows "finds b (bindA m f)"
  unfolding finds_def bindA_def
proof (intro allI impI)
  fix s e s'
  assume run: "(case m s of (Inl e, s') \<Rightarrow> (Inl e, s') | (Inr x, s') \<Rightarrow> f x s') = (Inl e, s')" and b: "buckets s b \<noteq> None"
  obtain r s1 where m: "m s = (r, s1)" by force
  then have "buckets s1 b \<noteq> None" using keepsD [OF assms(2)] b by (fastforce simp: alive_def)
  then show "\<not> isNotFound e"
    using run m b findsD [OF assms(1)] findsD [OF assms(3)] by (cases r) auto
qed

lemma finds_try:
  assumes "finds b m" "keeps (alive b) m"
    and "\<And>x. finds b (f (Inr x))" "\<And>e. \<not> isNotFound e \<Longrightarrow> finds b (f (Inl e))"
  shows "finds b (bindA (tryA m) f)"
  unfolding finds_def
proof (intro allI impI)
  fix s e s' assume run: "bindA (tryA m) f s = (Inl e, s')" and b: "buckets s b \<noteq> None"
  obtain r s1 where m: "m s = (r, s1)" by force
  then have s1: "buckets s1 b \<noteq> None" using keepsD [OF assms(2)] b by (fastforce simp: alive_def)
  have f: "f r s1 = (Inl e, s')" using run m by (simp add: bindA_def tryA_def)
  have "finds b (f r)" using assms(3,4) findsD [OF assms(1)] m b by (cases r) auto
  from findsD [OF this f s1] show "\<not> isNotFound e" .
qed

lemma finds_wrap: "finds b m \<Longrightarrow> finds b (wrapA (\<lambda>e. Wrapf x e y) m)"
  by (fastforce simp: finds_def wrapA_def map_sum_def split: prod.splits sum.splits)

lemma finds_raise: "\<not> isNotFound e \<Longrightarrow> finds b (raiseA e)"
  by (simp add: finds_def raiseA_def)

lemma finds_return: "finds b (returnA x)"
  by (simp add: finds_def returnA_def)

lemma finds_deleteBatch: "finds b (deleteBatch b ids)"
proof (induction b ids rule: deleteBatch.induct)
  case (1 b ids)
  then show ?case
    by (subst deleteBatch.simps) (auto intro!: finds_bindA finds_wrap finds_server alive_intro finds_return)
qed

lemma finds_emptyListed: "finds b (emptyListed b)"
  unfolding emptyListed_def walkObjects_def
  by (intro finds_try finds_wrap finds_server alive_intro)
    (auto intro!: finds_return finds_raise finds_deleteBatch)

lemma finds_emptyBucket: "finds b (emptyBucket b)"
proof -
  have "finds b (emptyObjects b)"
    unfolding emptyObjects_def
    by (intro finds_try finds_emptyListed alive_emptyListed) (auto intro!: finds_return finds_raise finds_emptyListed)
  moreover have "finds b (abortMultiparts b)"
    unfolding abortMultiparts_def
    by (intro finds_try finds_request alive_request)
      (auto intro!: finds_return finds_raise simp: keeps_def alive_def split: if_splits)
  ultimately show ?thesis
    unfolding emptyBucket_def by (intro finds_try alive_abort) (auto intro!: finds_raise)
qed

lemma not_empty_kind: "\<not> isNotFound (NewError ''BucketNotEmpty'')"
  by (simp add: isNotFound_def noSuchBucket_def noSuchKey_def)

lemma DeleteBucket_gone:
  assumes "DeleteBucket b s = (d, s')" "d = Inr () \<or> (\<exists>err. d = Inl err \<and> isNotFound err)"
  shows "buckets s' b = None"
proof -
  let ?f = "\<lambda>s. case buckets s b of None \<Rightarrow> (Inl noSuchBucket, s) | Some os \<Rightarrow>
    if os = [] then (Inr (), s\<lparr>buckets := (buckets s)(b := None)\<rparr>) else (Inl (NewError ''BucketNotEmpty''), s)"
  have run: "request ?f s = (d, s')" using assms(1) by (simp only: DeleteBucket_def)
  have "\<exists>s0. ?f s0 = (d, s')"
  proof (cases d)
    case (Inl err)
    then have "err \<noteq> faultError ft" for ft using assms(2) fault_kinds(1) [of ft] by auto
    then show ?thesis using request_Inl [OF run [unfolded Inl]] Inl by blast
  next
    case (Inr v)
    then show ?thesis using request_Inr [OF run [unfolded Inr]] by blast
  qed
  then obtain s0 where f: "?f s0 = (d, s')" ..
  show ?thesis
  proof (cases "buckets s0 b")
    case None
    then show ?thesis using f by auto
  next
    case (Some os)
    then show ?thesis using f assms(2) not_empty_kind by (cases "os = []") auto
  qed
qed

lemma DropBucket_gone:
  assumes "DropBucket b s = (Inr u, s')"
  shows "s3_content s' b = None"
proof -
  obtain r s1 where e: "emptyBucket b s = (r, s1)" by force
  note live = keepsD [OF alive_emptyBucket [of b b] e, unfolded alive_def]
  have "buckets s' b = None"
  proof (cases r)
    case (Inl err)
    then have "isNotFound err" "s' = s1"
      using assms e by (auto simp: DropBucket_def run_rules)
    then show ?thesis using findsD [OF finds_emptyBucket e [unfolded Inl]] live by (cases "buckets s b") auto
  next
    case (Inr v)
    then obtain d where "DeleteBucket b s1 = (d, s')" "d = Inr () \<or> (\<exists>err. d = Inl err \<and> isNotFound err)"
      using assms e by (auto simp: DropBucket_def run_rules)
    then show ?thesis by (rule DeleteBucket_gone)
  qed
  then show ?thesis by (simp add: s3_content_def)
qed

section \<open>The driver laws\<close>

interpretation s3d: ns_driver s3NS s3_content
proof unfold_locales
  fix src dst ns :: string and s s' :: s3 and u :: unit and q :: "go_error + unit" and keep
  show "nsCapture s3NS src dst s = (q, s') \<Longrightarrow> only s3_content {dst} s s'"
    "nsRestore s3NS src dst s = (q, s') \<Longrightarrow> only s3_content {dst} s s'"
    "nsRestoreParent s3NS src dst keep s = (q, s') \<Longrightarrow> only s3_content {dst} s s'"
    by (auto simp: s3NS_def intro: keepsD [OF keeps_CopyBucket])
  show "nsCapture s3NS src dst s = (Inr u, s') \<Longrightarrow> src \<noteq> dst \<Longrightarrow> s3_content s src \<noteq> None \<Longrightarrow>
      s3_content s' dst = s3_content s src"
    "nsRestore s3NS src dst s = (Inr u, s') \<Longrightarrow> src \<noteq> dst \<Longrightarrow> s3_content s src \<noteq> None \<Longrightarrow>
      s3_content s' dst = s3_content s src"
    by (simp_all add: s3NS_def CopyBucket_copy)
  show "nsEmpty s3NS ns s = (q, s') \<Longrightarrow> only s3_content {ns} s s'"
    by (auto simp: s3NS_def Empty_def intro!: keepsD [where m = "bindA (EnsureBucket ns) (\<lambda>_. emptyBucket ns)"]
        s3_intro keeps_EnsureBucket keeps_emptyBucket)
  show "nsDrop s3NS ns s = (q, s') \<Longrightarrow> only s3_content {ns} s s'"
    "nsDropDurable s3NS ns s = (q, s') \<Longrightarrow> only s3_content {ns} s s'"
    by (auto simp: s3NS_def intro: keepsD [OF keeps_DropBucket])
  show "nsDrop s3NS ns s = (Inr u, s') \<Longrightarrow> s3_content s' ns = None"
    "nsDropDurable s3NS ns s = (Inr u, s') \<Longrightarrow> s3_content s' ns = None"
    by (simp_all add: s3NS_def DropBucket_gone)
next
  fix ns :: string and s s' :: s3 and b :: bool and x :: "go_error + bool"
  show "nsExists s3NS ns s = (Inr b, s') \<Longrightarrow> b = (s3_content s ns \<noteq> None)"
    unfolding s3NS_def by (simp only: nsDriver.simps) (rule BucketExists_sound)
  show "nsExists s3NS ns s = (x, s') \<Longrightarrow> only s3_content {} s s'"
    unfolding s3NS_def by (simp only: nsDriver.simps) (rule keepsD [OF keeps_BucketExists])
qed (auto simp: s3NS_def returnA_def only_def)

text \<open>No write counter: the driver never lets a capture be skipped.\<close>

interpretation s3w: watermark_driver s3NS s3_content "\<lambda>s ns. []"
  by unfold_locales (simp_all add: s3NS_def returnA_def)

text \<open>The run of an object-storage entry: no dump loader, and commands that may be absent.\<close>

definition s3Args ::
  "Config \<Rightarrow> DatabaseConfig \<Rightarrow> nat \<Rightarrow> string \<Rightarrow> int \<Rightarrow> int \<Rightarrow> nameEnv \<Rightarrow> git \<Rightarrow> go_error + dumpFile list \<Rightarrow> string \<Rightarrow>
     (string \<Rightarrow> (s3, unit) action) option \<Rightarrow> (string \<Rightarrow> (s3, unit) action) option \<Rightarrow> (go_error \<Rightarrow> bool) \<Rightarrow>
     s3 branchScopedArgs" where
  "s3Args C db idx path repo w N git ds fp mig seed missing =
     \<lparr>cfg = C, dbConf = db, dbIdx = idx, worktreePath = path, repoID = repo, worktreeID = w, migrateFP = fp,
      eng = \<lparr>drv = s3NS, scope = scopePrefix, label_of = ''s3''\<rparr>, names = N, git_of = git, dumps = ds,
      loadDump = None, migrateStepFn = mig, seedStepFn = seed, commandNotFound = missing\<rparr>"

lemma s3_swap_run:
  assumes "\<And>m active s q s'. mig = Some m \<Longrightarrow> m active s = (q, s') \<Longrightarrow> only s3_content {active} s s'"
    and "\<And>m active s q s'. seed = Some m \<Longrightarrow> m active s = (q, s') \<Longrightarrow> only s3_content {active} s s'"
  shows "swap_run (s3Args C db idx path repo w N git ds fp mig seed missing) s3_content (\<lambda>s ns. [])"
  by (intro swap_run.intro swap_run_axioms.intro; (simp add: s3Args_def s3w.watermark_driver_axioms)?)
    (auto simp: s3Args_def intro: assms)

interpretation s3r: swap_run "s3Args C db idx path repo w N git ds fp None None missing" s3_content "\<lambda>s ns. []"
  by (rule s3_swap_run) simp_all

end
