(* ===== verification/StoreFrames.thy ===== *)
theory StoreFrames
  imports BranchOps
begin

text \<open>
  Isolation of the store: when no other process writes before an operation of the lifecycle, none
  does during it or after it.  One rule per function, so that the proofs about a run can use the
  reads and writes of the store at any point of it.
\<close>

named_theorems calm

definition calmS :: "branchDB \<Rightarrow> branchDB \<Rightarrow> bool" where
  "calmS s s' \<longleftrightarrow> (alone s \<longrightarrow> alone s')"

definition calmW :: "'e world \<Rightarrow> 'e world \<Rightarrow> bool" where
  "calmW w w' \<longleftrightarrow> (alone (store w) \<longrightarrow> alone (store w'))"

lemma calm_refl_trans: "reflp calmS" "transp calmS" "reflp calmW" "transp calmW"
  by (auto simp: reflp_def transp_def calmS_def calmW_def)

lemma calm_pure [calm]:
  "keeps calmS (returnA x)" "keeps calmS (raiseA e)" "keeps calmW (returnA y)" "keeps calmW (raiseA e)"
  by (intro keeps_returnA keeps_raiseA calm_refl_trans)+

lemma calm_bind [calm]:
  "keeps calmS m \<Longrightarrow> (\<And>x. keeps calmS (f x)) \<Longrightarrow> keeps calmS (bindA m f)"
  "keeps calmW n \<Longrightarrow> (\<And>x. keeps calmW (g x)) \<Longrightarrow> keeps calmW (bindA n g)"
  by (intro keeps_bindA calm_refl_trans; assumption)+

lemmas calm_cases [calm] = keeps_tryA keeps_wrapA keeps_ignoreA keeps_if keeps_option keeps_sum keeps_prod

lemma calm_forA [calm]: "(\<And>x. keeps calmW (f x)) \<Longrightarrow> keeps calmW (forA f xs)"
  by (intro keeps_forA calm_refl_trans)

lemma calm_statements [calm]:
  "keeps calmS (queryB sel)" "keeps calmS (execB stmt)" "keeps calmS (\<lambda>s. execB (stmt' s) s)"
  by (rule keepsI; fastforce simp: calmS_def optionA_def split: prod.splits option.splits dest: Query_alone Exec_alone)+

lemma calm_world [calm]:
  "keeps calmS f \<Longrightarrow> keeps calmW (onStore f)" "keeps calmW (onEngine g)" "keeps calmW ctxErr" "keeps calmW (writeEvent l t)"
  by (fastforce simp: keeps_def calmS_def calmW_def onStore_def onEngine_def ctxErr_def writeEvent_def modifyA_def
      split: prod.splits list.splits)+

lemma calm_retry [calm]: "keeps calmW fn \<Longrightarrow> keeps calmW (retryTransient fn)"
  unfolding retryTransient_def by (intro keeps_retryFrom calm_refl_trans calm_world)

lemma calm_writes [calm]:
  "keeps calmS (SetActiveBranchClean repo w k branch lbl clean wm)" "keeps calmS (SetActiveBranch repo w k branch lbl)"
  "keeps calmS (RecordBranchDurable row)" "keeps calmS (TouchBranchDurable repo name)"
  "keeps calmS (SetBranchMigrated w k branch fp)" "keeps calmS (DeleteBranchDurable repo name)"
  "keeps calmS (ClearActiveBranch w k)" "keeps calmS (ClearBranchMigratedForKey w k)"
  unfolding SetActiveBranchClean_def [abs_def] SetActiveBranch_def [abs_def] RecordBranchDurable_def [abs_def]
    TouchBranchDurable_def [abs_def] SetBranchMigrated_def [abs_def] DeleteBranchDurable_def ClearActiveBranch_def
    ClearBranchMigratedForKey_def Let_def
  by (rule calm)+

lemma calm_reads [calm]:
  "keeps calmS (GetActiveBranch w k)" "keeps calmS (GetActiveBranchClean w k)" "keeps calmS (GetBranchMigrated w k branch)"
  "keeps calmS (LookupMainWorktree repo)" "keeps calmS (ListWorktreesForRepo repo)" "keeps calmS (RepoPath repo)"
  "keeps calmS (WorktreeBranch w)" "keeps calmS (WorktreePathByID w)" "keeps calmS (ListBranchDurables repo)"
  unfolding GetActiveBranch_def GetActiveBranchClean_def GetBranchMigrated_def LookupMainWorktree_def
    ListWorktreesForRepo_def RepoPath_def WorktreeBranch_def WorktreePathByID_def worktreeField_def ListBranchDurables_def
  by (intro calm)+

lemma calm_baseRef [calm]:
  "keeps calmS (resolveBaseBranch git root repo branch)"
  "keeps calmS (resolveBaseSourceDB git N C root repo idx sc branch)"
  "keeps calmS (mainWorktreeBaseDB git N C root repo idx sc branch)"
  unfolding resolveBaseSourceDB_def mainWorktreeBaseDB_def resolveBaseBranch_def baseCandidates_def lookupMainBranch_def
    renderMainBaseDB_def renderWorktreeBaseDB_def renderA_def Let_def
  by (intro calm)+

lemma calm_sampling [calm]:
  "keeps calmW (sampleRows D ns)" "keeps calmW (sampleMissingRows D ns sample)" "keeps calmW (captureVerified D active dur)"
  "keeps calmW (recordDurable row)" "keeps calmW (captureDurable a active branch)"
  unfolding sampleRows_def sampleMissingRows_def captureVerified_def captureRetrying_def recordDurable_def captureDurable_def
    Let_def
  by (intro calm)+

lemma calm_freshest [calm]: "keeps calmW (freshest D lbl base cs durs best)"
  by (induction durs arbitrary: best) (auto intro!: calm)

lemma calm_fill [calm]: "keeps calmW (fill a active branch useDurable)"
  unfolding fill_def fillPast_def seedFrom_def seedParentVerified_def resumeDurableVerified_def baseBranchDurable_def
    parentDB_def mainFallbackDB_def baseBranchName_def repoPath_def parentSourceKeep_def Let_def
  by (intro calm)

lemma calm_choose [calm]: "keeps calmW (chooseData a active branch old exists)"
  unfolding chooseData_def seedFresh_def seedFreshFrom_def adoptExisting_def adoptBranch_def swapBranch_def
    captureRedundant_def markActive_def Let_def
  by (intro calm)

lemma calm_migrate [calm]: "keeps calmW (migrateStep a active branch be dec)"
  unfolding migrateStep_def reseedPastDurable_def seedFreshFrom_def Let_def by (intro calm)

lemma calm_setClean [calm]: "keeps calmW (setClean a active branch clean wm)"
  unfolding setClean_def by (intro calm)

lemma calm_recordClean [calm]: "keeps calmW (recordClean a active branch dec migrated seeded)"
proof -
  have case_marker: "keeps calmW (case m of Some (True, p) \<Rightarrow> f p | _ \<Rightarrow> g)"
    if "\<And>p. keeps calmW (f p)" "keeps calmW g" for m :: "(bool \<times> string) option" and f and g :: "('e world, unit) action"
    using that by (auto split: option.splits prod.splits bool.splits)
  show ?thesis unfolding recordClean_def by (intro calm case_marker)
qed

end
