(* ===== verification/Lifecycle.thy ===== *)
theory Lifecycle
  imports S3Laws StoreFrames
begin

text \<open>
  The properties of the branch lifecycle: no run touches a foreign namespace, the data of the branch
  that is swapped out survives every run, the clean marker stays sound along any sequence of
  checkouts, writes of the application and runs, and teardown, reset and save keep their promises.
\<close>

section \<open>Lemmas\<close>

definition ownNames :: "'e branchScopedArgs \<Rightarrow> string \<Rightarrow> string set" where
  "ownNames a active = insert active (range (durableName a active))"

lemma ownNames_mem [simp]: "active \<in> ownNames a active" "durableName a active b \<in> ownNames a active"
  by (auto simp: ownNames_def)

definition currentBranch :: "'e branchScopedArgs \<Rightarrow> branchTables \<Rightarrow> string" where
  "currentBranch a t =
     (let b = (if worktreeID a \<le> 0 then []
               else case find (\<lambda>r. wt_id r = worktreeID a) (worktree_rows t) of Some r \<Rightarrow> wt_branch r | None \<Rightarrow> [])
      in if b = [] then ''_detached'' else b)"

text \<open>What a run does once the active namespace is known, and after the data is in place.\<close>

definition finishRun :: "'e branchScopedArgs \<Rightarrow> string \<Rightarrow> string \<Rightarrow> bool \<times> string \<Rightarrow> ('e world, string) action" where
  "finishRun a active branch bd =
     bindA (migrateStep a active branch (fst bd) (snd bd)) (\<lambda>m.
     case m of (migrated, builtEmpty, decision) \<Rightarrow>
     bindA (case seedStepFn a of
              Some seed \<Rightarrow> if builtEmpty then bindA (onEngine (seed active)) (\<lambda>_. returnA True) else returnA False
            | None \<Rightarrow> returnA False) (\<lambda>seeded.
     bindA (recordClean a active branch decision migrated seeded) (\<lambda>_.
     bindA (writeEvent ''info'' ''prepare:end'') (\<lambda>_.
       returnA decision))))"

definition runFrom :: "'e branchScopedArgs \<Rightarrow> string \<Rightarrow> string \<Rightarrow> string option \<Rightarrow> bool \<Rightarrow> ('e world, string) action" where
  "runFrom a active branch old exists =
     bindA (writeEvent ''info'' ''prepare:start'') (\<lambda>_.
     bindA (chooseData a active branch old exists) (finishRun a active branch))"

definition renderedActive :: "'e branchScopedArgs \<Rightarrow> string option" where
  "renderedActive a =
     (case activeNamespace (slugs (names a)) (redis (names a)) (dbConf a) (scope (eng a)) (worktreePath a) of
        Inl e \<Rightarrow> None | Inr act \<Rightarrow> Some act)"

text \<open>The decisions after which the durable copy holds the active data.\<close>

definition mirrorDecision :: "string \<Rightarrow> bool" where
  "mirrorDecision dec \<longleftrightarrow> dec = ''adopt'' \<or> isResume dec"

lemma mirror_how:
  "mirrorDecision (''seed:'' @ how src) \<Longrightarrow> src = fromResume" "mirrorDecision (''swap:'' @ how src) \<Longrightarrow> src = fromResume"
  by (cases src; simp add: mirrorDecision_def isResume_def HasSuffix_def)+

lemmas mirror_seed = mirror_how(1) [simplified] and mirror_swap = mirror_how(2) [simplified]

lemma mirror_other [simp]:
  "\<not> mirrorDecision ''seed:dump''" "\<not> mirrorDecision ''seed:empty''" "\<not> mirrorDecision ''swap:branch-point''"
  "\<not> mirrorDecision ''noop''"
  by (simp_all add: mirrorDecision_def isResume_def HasSuffix_def)

lemma bindA_assoc: "bindA (bindA m f) g = bindA m (\<lambda>x. bindA (f x) g)"
  by (auto simp: fun_eq_iff bindA_def split: prod.splits sum.splits)

lemma bindA_return [simp]: "bindA (returnA x) f = f x"
  by (simp add: fun_eq_iff bindA_def returnA_def)

lemma bindA_prod: "bindA (case m of (x, y, z) \<Rightarrow> f x y z) g = (case m of (x, y, z) \<Rightarrow> bindA (f x y z) g)"
  by (cases m) simp

lemma run_eq:
  assumes "renderedActive a = Some active"
  shows "runBranchScoped a =
    bindA (wrapA (\<lambda>e. Wrapf (''read the branch of worktree '' @ Itoa (worktreeID a) @ '': '') e [])
            (onStore (WorktreeBranch (worktreeID a)))) (\<lambda>b.
    bindA (onStore (GetActiveBranch (worktreeID a) active)) (\<lambda>old.
    bindA (onEngine (nsExists (drv (eng a)) active)) (\<lambda>exists.
    bindA (runFrom a active (if b = [] then ''_detached'' else b) old exists) (\<lambda>dec. returnA (active, dec)))))"
  using assms
  by (auto simp: renderedActive_def runBranchScoped_def runFrom_def finishRun_def bindA_assoc bindA_prod Let_def split: sum.splits)

lemma run_None: "renderedActive a = None \<Longrightarrow> runBranchScoped a w = (r, w') \<Longrightarrow> w' = w"
  by (auto simp: renderedActive_def runBranchScoped_def bindA_def raiseA_def split: sum.splits)

lemma bindA_cases:
  assumes "bindA m f s = (r, s')"
  obtains e where "m s = (Inl e, s')" "r = Inl e" | x s1 where "m s = (Inr x, s1)" "f x s1 = (r, s')"
  using assms by (auto simp: bindA_def split: prod.splits sum.splits)

lemma onStore_read:
  assumes "alone (store w)" "onStore (queryB sel) w = (r, w')"
  shows "(\<forall>x. r = Inr x \<longrightarrow> x = sel (tables (store w))) \<and> engine w' = engine w \<and>
    tables (store w') = tables (store w) \<and> alone (store w')"
  using assms Query_alone [of "store w" applyBranchOp sel] by (auto simp: onStore_def split: prod.splits)

lemma branch_read:
  assumes "alone (store w)" "onStore (WorktreeBranch i) w = (r, w')"
  shows "(\<forall>b. r = Inr b \<longrightarrow> b = (if i \<le> 0 then [] else
      case find (\<lambda>r. wt_id r = i) (worktree_rows (tables (store w))) of Some r \<Rightarrow> wt_branch r | None \<Rightarrow> [])) \<and>
    engine w' = engine w \<and> tables (store w') = tables (store w) \<and> alone (store w')"
proof (cases "i \<le> 0")
  case True
  then show ?thesis using assms
    by (auto simp: WorktreeBranch_def worktreeField_def onStore_def returnA_def split: prod.splits)
next
  case False
  then show ?thesis
    using onStore_read [OF assms(1), of "\<lambda>t. case find (\<lambda>r. wt_id r = i) (worktree_rows t) of Some r \<Rightarrow> wt_branch r | None \<Rightarrow> []" r w']
      assms(2) by (simp add: WorktreeBranch_def worktreeField_def)
qed

context swap_run
begin

lemma exists_read:
  "onEngine (nsExists (drv (eng a)) ns) w = (r, w') \<Longrightarrow>
     content (engine w') = content (engine w) \<and> token (engine w') = token (engine w) \<and> store w' = store w \<and>
     (\<forall>b. r = Inr b \<longrightarrow> b = (content (engine w) ns \<noteq> None))"
  unfolding onEngine_result using only_content [OF exists_frame] exists_same exists_sound by fastforce

lemma run_split:
  assumes "renderedActive a = Some active" "alone (store w)" "runBranchScoped a w = (r, w')"
  obtains e where "r = Inl e" "content (engine w') = content (engine w)"
  | w1 r0 where "runFrom a active (currentBranch a (tables (store w)))
       (map_option ab_branch (markerOf (worktreeID a) active (tables (store w)))) (content (engine w) active \<noteq> None) w1 = (r0, w')"
      "content (engine w1) = content (engine w)" "token (engine w1) = token (engine w)"
      "tables (store w1) = tables (store w)" "alone (store w1)" "r = map_sum id (Pair active) r0"
proof -
  note run = assms(3) [unfolded run_eq [OF assms(1)]]
  from run show thesis
  proof (rule bindA_cases)
    fix e assume "wrapA (\<lambda>e. Wrapf (''read the branch of worktree '' @ Itoa (worktreeID a) @ '': '') e [])
      (onStore (WorktreeBranch (worktreeID a))) w = (Inl e, w')" "r = Inl e"
    then show thesis using that(1) branch_read [OF assms(2)] by (auto simp: wrapA_def split: prod.splits)
  next
    fix b w1 assume b: "wrapA (\<lambda>e. Wrapf (''read the branch of worktree '' @ Itoa (worktreeID a) @ '': '') e [])
        (onStore (WorktreeBranch (worktreeID a))) w = (Inr b, w1)"
      and run: "bindA (onStore (GetActiveBranch (worktreeID a) active)) (\<lambda>old.
        bindA (onEngine (nsExists (drv (eng a)) active)) (\<lambda>exists.
        bindA (runFrom a active (if b = [] then ''_detached'' else b) old exists) (\<lambda>dec. returnA (active, dec)))) w1 = (r, w')"
    have w1: "engine w1 = engine w" "tables (store w1) = tables (store w)" "alone (store w1)"
      and cur: "currentBranch a (tables (store w)) = (if b = [] then ''_detached'' else b)"
      using branch_read [OF assms(2)] b by (auto simp: wrapA_Inr currentBranch_def Let_def)
    from run show thesis
    proof (rule bindA_cases)
      fix e assume "onStore (GetActiveBranch (worktreeID a) active) w1 = (Inl e, w')" "r = Inl e"
      then show thesis using that(1) onStore_read [OF w1(3)] w1(1) by (metis GetActiveBranch_def)
    next
      fix old w2 assume old: "onStore (GetActiveBranch (worktreeID a) active) w1 = (Inr old, w2)"
        and run: "bindA (onEngine (nsExists (drv (eng a)) active)) (\<lambda>exists.
          bindA (runFrom a active (if b = [] then ''_detached'' else b) old exists) (\<lambda>dec. returnA (active, dec))) w2 = (r, w')"
      have w2: "engine w2 = engine w" "tables (store w2) = tables (store w)" "alone (store w2)"
        "old = map_option ab_branch (markerOf (worktreeID a) active (tables (store w)))"
        using onStore_read [OF w1(3) old [unfolded GetActiveBranch_def]] w1 by auto
      from run show thesis
      proof (rule bindA_cases)
        fix e assume "onEngine (nsExists (drv (eng a)) active) w2 = (Inl e, w')" "r = Inl e"
        then show thesis using that(1) exists_read w2(1) by metis
      next
        fix ex w3 assume ex: "onEngine (nsExists (drv (eng a)) active) w2 = (Inr ex, w3)"
          and run: "bindA (runFrom a active (if b = [] then ''_detached'' else b) old ex) (\<lambda>dec. returnA (active, dec)) w3 = (r, w')"
        obtain r0 where "runFrom a active (if b = [] then ''_detached'' else b) old ex w3 = (r0, w')"
          "r = map_sum id (Pair active) r0"
          using run by (auto simp: bindA_def returnA_def split: prod.splits sum.splits)
        then show thesis using that(2) [of w3 r0] exists_read [OF ex] w2 cur by auto
      qed
    qed
  qed
qed

lemma touches_runFrom: "touches content (ownNames a active) (runFrom a active branch old exists)"
  unfolding runFrom_def finishRun_def chooseData_def seedFresh_def adoptExisting_def Let_def by (intro touch; simp)

lemma touches_run: "renderedActive a = Some active \<Longrightarrow> touches content (ownNames a active) (runBranchScoped a)"
  unfolding run_eq by (intro touch touches_runFrom)

lemma touches_finishRun:
  "touches content {active, durableName a active branch} (finishRun a active branch bd)"
  unfolding finishRun_def by (intro touch; simp)

lemma writeEvent_run: "writeEvent l ty w = (r, w') \<longleftrightarrow> r = Inr () \<and> w' = w\<lparr>event_log := event_log w @ [(l, ty)]\<rparr>"
  by (auto simp: writeEvent_def modifyA_def)

lemma clean_sound_cong:
  "engine w' = engine w \<Longrightarrow> tables (store w') = tables (store w) \<Longrightarrow>
     clean_sound a content token active w' = clean_sound a content token active w"
  by (simp add: clean_sound_def)

lemma clean_sound_content:
  "content (engine w') = content (engine w) \<Longrightarrow> token (engine w') = token (engine w) \<Longrightarrow>
     tables (store w') = tables (store w) \<Longrightarrow> clean_sound a content token active w' = clean_sound a content token active w"
  by (simp add: clean_sound_def)

lemma run_swap:
  assumes run: "renderedActive a = Some active" "alone (store w)" "runBranchScoped a w = (r, w')"
    and sound: "clean_sound a content token active w"
    and marker: "markerOf (worktreeID a) active (tables (store w)) = Some m" "ab_branch m \<noteq> currentBranch a (tables (store w))"
    and apart: "\<And>b. durableName a active b \<noteq> active"
      "durableName a active (currentBranch a (tables (store w))) \<noteq> durableName a active (ab_branch m)"
    and c: "content (engine w) active = Some c"
  shows "(content (engine w') active = Some c \<or> content (engine w') (durableName a active (ab_branch m)) = Some c) \<and>
    (\<forall>dec. r = Inr dec \<longrightarrow> content (engine w') (durableName a active (ab_branch m)) = Some c)"
  using run
proof (rule run_split)
  fix e assume "r = Inl e" "content (engine w') = content (engine w)"
  then show ?thesis using c by simp
next
  let ?cur = "currentBranch a (tables (store w))" and ?old = "durableName a active (ab_branch m)"
  fix w1 r0
  assume go: "runFrom a active ?cur (map_option ab_branch (markerOf (worktreeID a) active (tables (store w))))
      (content (engine w) active \<noteq> None) w1 = (r0, w')"
    and w1: "content (engine w1) = content (engine w)" "token (engine w1) = token (engine w)"
      "tables (store w1) = tables (store w)" "alone (store w1)" and r: "r = map_sum id (Pair active) r0"
  let ?w2 = "w1\<lparr>event_log := event_log w1 @ [(''info'', ''prepare:start'')]\<rparr>"
  have "bindA (bindA (swapBranch a active (ab_branch m) ?cur) (\<lambda>dec. returnA (False, dec))) (finishRun a active ?cur) ?w2 = (r0, w')"
    using go marker c by (simp add: runFrom_def chooseData_def bindA_def writeEvent_def modifyA_def)
  then have go: "bindA (swapBranch a active (ab_branch m) ?cur) (\<lambda>dec. finishRun a active ?cur (False, dec)) ?w2 = (r0, w')"
    by (simp add: bindA_assoc)
  have safe: "(content (engine v) active = Some c \<or> content (engine v) ?old = Some c) \<and>
      (\<forall>dec. q = Inr dec \<longrightarrow> content (engine v) ?old = Some c)"
    if "swapBranch a active (ab_branch m) ?cur ?w2 = (q, v)" for q v
    by (rule swapBranch_safe [where m = m and w = ?w2])
      (use that sound marker apart(1) [of "ab_branch m"] apart(2) w1 c in \<open>simp_all add: clean_sound_def\<close>)
  from go show ?thesis
  proof (rule bindA_cases)
    fix e assume "swapBranch a active (ab_branch m) ?cur ?w2 = (Inl e, w')" "r0 = Inl e"
    then show ?thesis using safe r by auto
  next
    fix dec v assume d: "swapBranch a active (ab_branch m) ?cur ?w2 = (Inr dec, v)" "finishRun a active ?cur (False, dec) v = (r0, w')"
    then have "content (engine v) ?old = Some c" using safe by blast
    then show ?thesis
      using touches_result [OF touches_finishRun d(2), of ?old] apart(1) [of "ab_branch m"] apart(2) by auto
  qed
qed

lemma migrateStep_idle:
  assumes "alone (store w)" "migrateStep a active branch be dec w = (Inr (False, be', dec'), w')"
  shows "be' = be \<and> dec' = dec \<and> engine w' = engine w \<and> tables (store w') = tables (store w)"
proof (cases "migrateStepFn a")
  case None
  then show ?thesis using assms(2) by (simp add: migrateStep_def run_rules)
next
  case (Some mig)
  with assms(2) obtain prev w1 where prev: "onStore (GetBranchMigrated (worktreeID a) active branch) w = (Inr prev, w1)"
    and idle: "be' = be" "dec' = dec" "w' = w1\<lparr>event_log := event_log w1 @ [(''info'', ''migrate:skip'')]\<rparr>"
    by (auto simp: migrateStep_def run_rules writeEvent_run split: if_splits)
  then show ?thesis using onStore_read [OF assms(1) prev [unfolded GetBranchMigrated_def]] by simp
qed

lemma setClean_marker:
  assumes "alone (store w)" "setClean a active branch clean wm w = (Inr u, w')"
  shows "engine w' = engine w \<and> (\<exists>m. markerOf (worktreeID a) active (tables (store w')) = Some m \<and>
    ab_branch m = branch \<and> ab_clean m = clean \<and> ab_watermark m = (if clean then wm else []))"
proof -
  from assms(2) obtain s' where s: "SetActiveBranchClean (repoID a) (worktreeID a) active branch (label_of (eng a)) clean wm (store w)
      = (Inr u, s')" "w' = w\<lparr>store := s'\<rparr>"
    by (auto simp: setClean_def wrapA_Inr onStore_def split: prod.splits)
  from execB_alone [OF assms(1) s(1) [unfolded SetActiveBranchClean_def]]
  have "upsertActive \<lparr>ab_repo = repoID a, ab_worktree = worktreeID a, ab_key = active, ab_branch = branch,
      ab_engine = label_of (eng a), ab_updated = nowMillis (store w), ab_clean = clean,
      ab_watermark = (if clean then wm else [])\<rparr> (tables (store w)) = Inr (tables s')" by simp
  from markerOf_upsert [OF this, of "worktreeID a" active] show ?thesis
    using s(2) by (auto simp: abKey_def split: option.splits)
qed

lemma dirty_sound:
  assumes "alone (store w)" "setClean a active branch False [] w = (Inr u, w')"
  shows "clean_sound a content token active w'"
  using setClean_marker [OF assms] by (auto simp: clean_sound_def)

lemma marked_sound:
  assumes "alone (store w)" "setClean a active branch True wm w = (Inr u, w')"
    and "content (engine w) (durableName a active branch) \<in> {None, content (engine w) active}"
  shows "clean_sound a content token active w'"
  using setClean_marker [OF assms(1,2)] assms(3) by (auto simp: clean_sound_def)

lemma watermark_read:
  "onEngine (nsWatermark (drv (eng a)) ns) w = (r, w') \<Longrightarrow>
     content (engine w') = content (engine w) \<and> token (engine w') = token (engine w) \<and> store w' = store w \<and>
     (\<forall>x. r = Inr x \<longrightarrow> x \<noteq> [] \<longrightarrow> x = token (engine w) ns)"
  unfolding onEngine_result using only_content [OF watermark_frame] watermark_same watermark_token by fastforce

lemma recordClean_sound:
  assumes "alone (store w)" "recordClean a active branch dec migrated seeded w = (Inr u, w')"
    and mirror: "\<not> migrated \<Longrightarrow> \<not> seeded \<Longrightarrow> mirrorDecision dec \<Longrightarrow>
      content (engine w) (durableName a active branch) \<in> {None, content (engine w) active}"
    and noop: "\<not> migrated \<Longrightarrow> \<not> seeded \<Longrightarrow> dec = ''noop'' \<Longrightarrow>
      clean_sound a content token active w \<and>
      (\<exists>m. markerOf (worktreeID a) active (tables (store w)) = Some m \<and> ab_branch m = branch)"
  shows "clean_sound a content token active w'"
proof -
  consider (dirty) "setClean a active branch False [] w = (Inr u, w')"
    | (noop) "\<not> migrated" "\<not> seeded" "dec = ''noop''"
    | (mirror) "\<not> migrated" "\<not> seeded" "dec \<noteq> ''noop''" "mirrorDecision dec"
    using assms(2) by (auto simp: recordClean_def mirrorDecision_def split: if_splits)
  then show ?thesis
  proof cases
    case dirty
    then show ?thesis by (rule dirty_sound [OF assms(1)])
  next
    case mirror
    with assms(2) obtain r w1 where wm: "onEngine (nsWatermark (drv (eng a)) active) w = (r, w1)"
      and rest: "setClean a active branch False [] w1 = (Inr u, w') \<or> (\<exists>x. setClean a active branch True x w1 = (Inr u, w'))"
      by (auto simp: recordClean_def mirrorDecision_def run_rules split: if_splits sum.splits)
    have w1: "alone (store w1)" "content (engine w1) = content (engine w)" using watermark_read [OF wm] assms(1) by auto
    then show ?thesis using rest dirty_sound [OF w1(1)] marked_sound [OF w1(1)] assms(3) mirror by auto
  next
    case noop
    then obtain m where m: "markerOf (worktreeID a) active (tables (store w)) = Some m" "ab_branch m = branch"
      and sound: "clean_sound a content token active w" using assms(4) by blast
    from assms(2) noop obtain w1 x where q: "onStore (GetActiveBranchClean (worktreeID a) active) w = (Inr x, w1)"
      by (auto simp: recordClean_def run_rules)
    have w1: "engine w1 = engine w" "tables (store w1) = tables (store w)" "alone (store w1)" "x = Some (ab_clean m, ab_watermark m)"
      using onStore_read [OF assms(1) q [unfolded GetActiveBranchClean_def]] m by auto
    show ?thesis
    proof (cases "ab_clean m")
      case False
      then have "setClean a active branch False [] w1 = (Inr u, w')"
        using assms(2) noop q w1(4) by (simp add: recordClean_def bindA_def wrapA_def)
      then show ?thesis by (rule dirty_sound [OF w1(3)])
    next
      case True
      with assms(2) noop q w1(4) obtain r w2 where wm: "onEngine (nsWatermark (drv (eng a)) active) w1 = (r, w2)"
        and rest: "(if r = Inr (ab_watermark m) \<and> ab_watermark m \<noteq> [] then setClean a active branch True (ab_watermark m)
          else setClean a active branch False []) w2 = (Inr u, w')"
        by (force simp: recordClean_def bindA_def wrapA_def tryA_def split: prod.splits)
      note w2 = watermark_read [OF wm]
      show ?thesis
      proof (cases "r = Inr (ab_watermark m) \<and> ab_watermark m \<noteq> []")
        case False
        then have "setClean a active branch False [] w2 = (Inr u, w')" using rest by (simp only: if_False)
        then show ?thesis using dirty_sound [of w2 active branch u w'] w1(3) w2 by simp
      next
        case yes: True
        then have "token (engine w) active = ab_watermark m" using w2 w1(1) by auto
        then have "content (engine w) (durableName a active branch) \<in> {None, content (engine w) active}"
          using sound m True yes by (auto simp: clean_sound_def)
        then show ?thesis
          using rest yes marked_sound [of w2 active branch "ab_watermark m" u w'] w1(1,3) w2 by simp
      qed
    qed
  qed
qed

lemma finishRun_sound:
  assumes "alone (store w)" "finishRun a active branch (be, dec) w = (Inr d, w')"
    and mirror: "mirrorDecision dec \<Longrightarrow> content (engine w) (durableName a active branch) \<in> {None, content (engine w) active}"
    and noop: "dec = ''noop'' \<Longrightarrow> clean_sound a content token active w \<and>
      (\<exists>m. markerOf (worktreeID a) active (tables (store w)) = Some m \<and> ab_branch m = branch)"
  shows "clean_sound a content token active w'"
proof -
  from assms(2) obtain mg be' dec' w1 sd w2 u w3 where
    mig: "migrateStep a active branch be dec w = (Inr (mg, be', dec'), w1)" and
    seed: "(case seedStepFn a of
        Some seed \<Rightarrow> if be' then bindA (onEngine (seed active)) (\<lambda>_. returnA True) else returnA False
      | None \<Rightarrow> returnA False) w1 = (Inr sd, w2)" and
    rec: "recordClean a active branch dec' mg sd w2 = (Inr u, w3)" and
    w': "w' = w3\<lparr>event_log := event_log w3 @ [(''info'', ''prepare:end'')]\<rparr>"
    by (auto simp: finishRun_def bindA_Inr returnA_Inr writeEvent_run split: prod.splits)
  have w1: "alone (store w1)" using keepsD [OF calm_migrate mig] assms(1) by (simp add: calmW_def)
  have w2: "alone (store w2)"
    using seed w1 by (auto simp: run_rules onEngine_result split: option.splits if_splits)
  have idle: "\<not> sd \<Longrightarrow> w2 = w1" using seed by (auto simp: run_rules split: option.splits if_splits)
  have same: "dec' = dec \<and> engine w1 = engine w \<and> tables (store w1) = tables (store w)" if "\<not> mg"
    using migrateStep_idle [OF assms(1), of active branch be dec be' dec' w1] mig that by simp
  have "clean_sound a content token active w3"
  proof (rule recordClean_sound [OF w2 rec])
    assume q: "\<not> mg" "\<not> sd" "mirrorDecision dec'"
    then show "content (engine w2) (durableName a active branch) \<in> {None, content (engine w2) active}"
      using same idle mirror by auto
  next
    assume q: "\<not> mg" "\<not> sd" "dec' = ''noop''"
    then have "dec = ''noop''" "engine w2 = engine w" "tables (store w2) = tables (store w)" using same idle by auto
    then show "clean_sound a content token active w2 \<and>
      (\<exists>m. markerOf (worktreeID a) active (tables (store w2)) = Some m \<and> ab_branch m = branch)"
      using noop clean_sound_cong [where w' = w2 and w = w] by auto
  qed
  then show ?thesis using w' clean_sound_cong [where w' = w' and w = w3] by simp
qed

lemma adopt_label:
  assumes "adoptBranch a branch w = (Inr lbl, w')"
  shows "lbl = branch \<or> (\<exists>p. lbl = defaultBranch a p)"
  using assms by (auto simp: adoptBranch_def bindA_Inr returnA_Inr if_Inr Let_def split: if_splits)

lemma markActive_engine: "markActive a active branch w = (r, w') \<Longrightarrow> engine w' = engine w"
  by (auto simp: markActive_def wrapA_def onStore_def split: prod.splits)

lemma chooseData_mirror:
  assumes run: "chooseData a active branch old exists w = (Inr (be, dec), w')"
    and apart: "\<And>b. durableName a active b \<noteq> active"
    and label_ok: "\<And>p. \<not> isResume (''adopt:'' @ defaultBranch a p)"
    and exists: "exists = (content (engine w) active \<noteq> None)"
    and dec: "mirrorDecision dec"
  shows "content (engine w') (durableName a active branch) = content (engine w') active"
proof -
  have apart': "active \<noteq> durableName a active b" for b using apart [of b] by simp
  consider (seed) "\<not> exists" | (adopt) "exists" "old = None" | (swap) ob where "exists" "old = Some ob" "ob \<noteq> branch"
    using run dec by (cases old) (auto simp: chooseData_def returnA_Inr split: if_splits)
  then show ?thesis
  proof cases
    case seed
    with run obtain w1 u where s: "seedFreshFrom a active branch True w = (Inr (be, dec), w1)"
      "markActive a active branch w1 = (Inr u, w')"
      by (auto simp: chooseData_def seedFresh_def bindA_Inr returnA_Inr)
    then have "fill a active branch True w = (Inr (Some fromResume), w1)"
      using dec by (auto simp: seedFreshFrom_def bindA_Inr returnA_Inr run_rules dest: mirror_seed split: option.splits sum.splits if_splits)
    then show ?thesis using fill_resume [OF apart'] markActive_engine [OF s(2)] by metis
  next
    case adopt
    with run obtain lbl w1 w2 w3 u v where l: "adoptBranch a branch w = (Inr lbl, w1)"
      and c: "captureDurable a active lbl w1 = (Inr v, w2)" and k: "markActive a active branch w2 = (Inr u, w')"
      and d: "dec = (if lbl \<noteq> branch then ''adopt:'' @ lbl else ''adopt'')"
      by (auto simp: chooseData_def adoptExisting_def run_rules)
    have "content (engine w1) = content (engine w)" using frame0 [OF touches_reads(6) l] .
    moreover have "lbl = branch"
      using d dec adopt_label [OF l] label_ok by (auto simp: mirrorDecision_def split: if_splits)
    moreover obtain x where "content (engine w) active = Some x" using exists adopt by auto
    ultimately show ?thesis
      using captureDurable_copy [of w1 active x lbl v w2] apart' c markActive_engine [OF k] by simp
  next
    case swap
    with run have "swapBranch a active ob branch w = (Inr dec, w')"
      by (auto simp: chooseData_def bindA_Inr returnA_Inr)
    then obtain w1 filled where "fill a active branch True w1 = (Inr filled, w')"
      "dec = ''swap:'' @ (case filled of Some src \<Rightarrow> how src | None \<Rightarrow> ''branch-point'')"
      by (auto simp: swapBranch_def bindA_Inr returnA_Inr)
    then show ?thesis
      using dec fill_resume [OF apart', of branch w1 w'] by (auto dest: mirror_swap split: option.splits)
  qed
qed

lemma chooseData_noop:
  assumes "chooseData a active branch old exists w = (Inr (be, ''noop''), w')"
  shows "w' = w \<and> old = Some branch"
proof -
  have "how src \<noteq> x" if "x = ''noop''" for src x using that by (cases src) auto
  then show ?thesis using assms
    by (auto simp: chooseData_def seedFresh_def seedFreshFrom_def adoptExisting_def swapBranch_def run_rules
        split: option.splits sum.splits if_splits)
qed

lemma run_clean_sound:
  assumes run: "renderedActive a = Some active" "alone (store w)" "runBranchScoped a w = (Inr out, w')"
    and sound: "clean_sound a content token active w"
    and apart: "\<And>b. durableName a active b \<noteq> active"
    and label_ok: "\<And>p. \<not> isResume (''adopt:'' @ defaultBranch a p)"
  shows "clean_sound a content token active w'"
  using run
proof (rule run_split)
  let ?cur = "currentBranch a (tables (store w))"
    and ?old = "map_option ab_branch (markerOf (worktreeID a) active (tables (store w)))"
  fix w1 r0
  assume go: "runFrom a active ?cur ?old (content (engine w) active \<noteq> None) w1 = (r0, w')"
    and w1: "content (engine w1) = content (engine w)" "token (engine w1) = token (engine w)"
      "tables (store w1) = tables (store w)" "alone (store w1)" and r: "Inr out = map_sum id (Pair active) r0"
  obtain d where d: "r0 = Inr d" using r by (cases r0) auto
  let ?w2 = "w1\<lparr>event_log := event_log w1 @ [(''info'', ''prepare:start'')]\<rparr>"
  from go d obtain be dec w3 where
    ch: "chooseData a active ?cur ?old (content (engine w) active \<noteq> None) ?w2 = (Inr (be, dec), w3)"
    and fin: "finishRun a active ?cur (be, dec) w3 = (Inr d, w')"
    by (auto simp: runFrom_def bindA_Inr writeEvent_run)
  have w3: "alone (store w3)" using keepsD [OF calm_choose ch] w1(4) by (simp add: calmW_def)
  show ?thesis
  proof (rule finishRun_sound [OF w3 fin])
    assume "mirrorDecision dec"
    then show "content (engine w3) (durableName a active ?cur) \<in> {None, content (engine w3) active}"
      using chooseData_mirror [OF ch apart label_ok] w1(1) by simp
  next
    assume "dec = ''noop''"
    with ch have "w3 = ?w2 \<and> ?old = Some ?cur" by (intro chooseData_noop) simp
    then show "clean_sound a content token active w3 \<and>
      (\<exists>m. markerOf (worktreeID a) active (tables (store w3)) = Some m \<and> ab_branch m = ?cur)"
      using sound w1 clean_sound_content [where w' = w3 and w = w] by auto
  qed
qed simp

lemma recordClean_marker:
  assumes "alone (store w)" "recordClean a active branch dec migrated seeded w = (Inr u, w')"
  shows "\<exists>m. markerOf (worktreeID a) active (tables (store w')) = Some m \<and> ab_branch m = branch"
proof -
  consider (dirty) "setClean a active branch False [] w = (Inr u, w')"
    | (noop) "\<not> migrated" "\<not> seeded" "dec = ''noop''"
    | (mirror) "\<not> migrated" "\<not> seeded" "dec \<noteq> ''noop''" "mirrorDecision dec"
    using assms(2) by (auto simp: recordClean_def mirrorDecision_def split: if_splits)
  then show ?thesis
  proof cases
    case dirty
    then show ?thesis using setClean_marker [OF assms(1)] by blast
  next
    case mirror
    then obtain x w1 where wm: "onEngine (nsWatermark (drv (eng a)) active) w = (x, w1)" by force
    with assms(2) mirror have
      "(case x of Inr wm \<Rightarrow> if wm \<noteq> [] then setClean a active branch True wm else setClean a active branch False []
        | Inl err \<Rightarrow> setClean a active branch False []) w1 = (Inr u, w')"
      by (simp add: recordClean_def mirrorDecision_def bindA_def tryA_def)
    then have "setClean a active branch False [] w1 = (Inr u, w') \<or> (\<exists>x. setClean a active branch True x w1 = (Inr u, w'))"
      by (cases x) (auto split: if_splits)
    moreover have "alone (store w1)" using watermark_read [OF wm] assms(1) by simp
    ultimately show ?thesis using setClean_marker by blast
  next
    case noop
    obtain q w1 where q: "onStore (GetActiveBranchClean (worktreeID a) active) w = (q, w1)" by force
    have w1: "alone (store w1)" using onStore_read [OF assms(1) q [unfolded GetActiveBranchClean_def]] by simp
    obtain x w2 where wm: "onEngine (nsWatermark (drv (eng a)) active) w1 = (x, w2)" by force
    have w2: "alone (store w2)" using watermark_read [OF wm] w1 by simp
    have "setClean a active branch False [] w1 = (Inr u, w') \<or> setClean a active branch False [] w2 = (Inr u, w') \<or>
      (\<exists>pw. setClean a active branch True pw w2 = (Inr u, w'))"
    proof (cases q)
      case (Inl e)
      then show ?thesis using assms(2) noop q by (simp add: recordClean_def bindA_def wrapA_def)
    next
      case (Inr y)
      then have rest: "(case y of Some (True, prevWM) \<Rightarrow>
              bindA (tryA (onEngine (nsWatermark (drv (eng a)) active))) (\<lambda>w.
                if w = Inr prevWM \<and> prevWM \<noteq> [] then setClean a active branch True prevWM
                else setClean a active branch False [])
          | _ \<Rightarrow> setClean a active branch False []) w1 = (Inr u, w')"
        using assms(2) noop q by (simp add: recordClean_def bindA_def wrapA_def)
      show ?thesis
      proof (cases "\<exists>pw. y = Some (True, pw)")
        case True
        then obtain pw where "y = Some (True, pw)" ..
        with rest wm have "(if x = Inr pw \<and> pw \<noteq> [] then setClean a active branch True pw
            else setClean a active branch False []) w2 = (Inr u, w')" by (simp add: bindA_def tryA_def)
        then show ?thesis unfolding if_Inr by blast
      next
        case False
        then have "y = None \<or> (\<exists>pw. y = Some (False, pw))" by (cases y) auto
        then have "setClean a active branch False [] w1 = (Inr u, w')" using rest by (elim disjE exE) simp_all
        then show ?thesis by blast
      qed
    qed
    then show ?thesis using setClean_marker [OF w1] setClean_marker [OF w2] by blast
  qed
qed

lemma finishRun_marker:
  assumes "alone (store w)" "finishRun a active branch bd w = (Inr d, w')"
  shows "\<exists>m. markerOf (worktreeID a) active (tables (store w')) = Some m \<and> ab_branch m = branch"
proof -
  from assms(2) obtain mg be' dec' w1 sd w2 u w3 where
    mig: "migrateStep a active branch (fst bd) (snd bd) w = (Inr (mg, be', dec'), w1)" and
    seed: "(case seedStepFn a of
        Some seed \<Rightarrow> if be' then bindA (onEngine (seed active)) (\<lambda>_. returnA True) else returnA False
      | None \<Rightarrow> returnA False) w1 = (Inr sd, w2)" and
    rec: "recordClean a active branch dec' mg sd w2 = (Inr u, w3)" and
    w': "w' = w3\<lparr>event_log := event_log w3 @ [(''info'', ''prepare:end'')]\<rparr>"
    by (auto simp: finishRun_def bindA_Inr returnA_Inr writeEvent_run split: prod.splits)
  have "alone (store w1)" using keepsD [OF calm_migrate mig] assms(1) by (simp add: calmW_def)
  then have "alone (store w2)"
    using seed by (auto simp: run_rules onEngine_result split: option.splits if_splits)
  from recordClean_marker [OF this rec] show ?thesis using w' by simp
qed

text \<open>A successful run: the choice of the data and what follows it.\<close>

lemma run_success:
  assumes "renderedActive a = Some active" "alone (store w)" "runBranchScoped a w = (Inr out, w')"
  obtains w1 bd w2 where "content (engine w1) = content (engine w)" "token (engine w1) = token (engine w)"
    "tables (store w1) = tables (store w)" "alone (store w1)"
    "chooseData a active (currentBranch a (tables (store w)))
       (map_option ab_branch (markerOf (worktreeID a) active (tables (store w)))) (content (engine w) active \<noteq> None) w1 = (Inr bd, w2)"
    "alone (store w2)" "finishRun a active (currentBranch a (tables (store w))) bd w2 = (Inr (snd out), w')"
  using assms
proof (rule run_split)
  fix w1 r0
  assume go: "runFrom a active (currentBranch a (tables (store w)))
       (map_option ab_branch (markerOf (worktreeID a) active (tables (store w)))) (content (engine w) active \<noteq> None) w1 = (r0, w')"
    and w1: "content (engine w1) = content (engine w)" "token (engine w1) = token (engine w)"
      "tables (store w1) = tables (store w)" "alone (store w1)" and r: "Inr out = map_sum id (Pair active) r0"
  have d: "r0 = Inr (snd out)" using r by (cases r0) auto
  let ?v = "w1\<lparr>event_log := event_log w1 @ [(''info'', ''prepare:start'')]\<rparr>"
  from go d obtain bd w3 where
    ch: "chooseData a active (currentBranch a (tables (store w)))
      (map_option ab_branch (markerOf (worktreeID a) active (tables (store w)))) (content (engine w) active \<noteq> None) ?v = (Inr bd, w3)"
    and fin: "finishRun a active (currentBranch a (tables (store w))) bd w3 = (Inr (snd out), w')"
    by (auto simp: runFrom_def bindA_Inr writeEvent_run)
  have "alone (store w3)" using keepsD [OF calm_choose ch] w1(4) by (simp add: calmW_def)
  then show thesis using that [of ?v bd w3] w1 ch fin by simp
qed simp

lemma run_marker:
  assumes "renderedActive a = Some active" "alone (store w)" "runBranchScoped a w = (Inr out, w')"
  shows "\<exists>m. markerOf (worktreeID a) active (tables (store w')) = Some m \<and> ab_branch m = currentBranch a (tables (store w))"
  by (rule run_success [OF assms]) (rule finishRun_marker)

lemma touches_marked:
  "touches content {active, durableName a active ob, durableName a active branch} (chooseData a active branch (Some ob) exists)"
  unfolding chooseData_def seedFresh_def Let_def by (intro touch; simp)

lemma run_frame:
  assumes "renderedActive a = Some active" "alone (store w)" "runBranchScoped a w = (Inr out, w')"
    and "markerOf (worktreeID a) active (tables (store w)) = Some m"
    and "ns \<notin> {active, durableName a active (ab_branch m), durableName a active (currentBranch a (tables (store w)))}"
  shows "content (engine w') ns = content (engine w) ns"
proof (rule run_success [OF assms(1-3)])
  let ?cur = "currentBranch a (tables (store w))"
  fix w1 bd w2
  assume w1: "content (engine w1) = content (engine w)"
    and ch: "chooseData a active ?cur (map_option ab_branch (markerOf (worktreeID a) active (tables (store w))))
      (content (engine w) active \<noteq> None) w1 = (Inr bd, w2)"
    and fin: "finishRun a active ?cur bd w2 = (Inr (snd out), w')"
  have "content (engine w2) ns = content (engine w1) ns"
    by (rule touches_result [OF touches_marked [of active "ab_branch m" ?cur]]) (use ch assms(4,5) in simp_all)
  moreover have "content (engine w') ns = content (engine w2) ns"
    by (rule touches_result [OF touches_finishRun fin]) (use assms(5) in simp)
  ultimately show ?thesis using w1 by simp
qed

lemma migrateStep_none:
  "migrateStepFn a = None \<Longrightarrow> migrateStep a active branch be dec = returnA (False, be, dec)"
  by (simp add: migrateStep_def)

lemma run_resume:
  assumes "renderedActive a = Some active" "alone (store w)" "runBranchScoped a w = (Inr out, w')"
    and "migrateStepFn a = None" "snd out = ''swap:resume''"
    and marker: "markerOf (worktreeID a) active (tables (store w)) = Some m"
    and apart: "\<And>b. durableName a active b \<noteq> active"
      "durableName a active (currentBranch a (tables (store w))) \<noteq> durableName a active (ab_branch m)"
  shows "content (engine w') active = content (engine w) (durableName a active (currentBranch a (tables (store w))))"
proof (rule run_success [OF assms(1-3)])
  let ?cur = "currentBranch a (tables (store w))" and ?old = "durableName a active (ab_branch m)"
  let ?dur = "durableName a active ?cur"
  fix w1 bd w2
  assume w1: "content (engine w1) = content (engine w)"
    and ch: "chooseData a active ?cur (map_option ab_branch (markerOf (worktreeID a) active (tables (store w))))
      (content (engine w) active \<noteq> None) w1 = (Inr bd, w2)"
    and fin: "finishRun a active ?cur bd w2 = (Inr (snd out), w')"
  have dec: "snd bd = ''swap:resume''"
    using fin assms(4,5) by (cases bd) (auto simp: finishRun_def migrateStep_none run_rules split: option.splits)
  have be: "\<not> fst bd" and swap: "swapBranch a active (ab_branch m) ?cur w1 = (Inr ''swap:resume'', w2)"
    using ch dec marker by (auto simp: chooseData_def seedFresh_def seedFreshFrom_def run_rules
        split: if_splits option.splits sum.splits)
  from swap obtain red w3 w4 w5 filled where
    red: "captureRedundant a active (ab_branch m) w1 = (Inr red, w3)" and
    cap: "(if red then writeEvent ''info'' ''branch:capture:skip''
       else wrapA (\<lambda>e. Wrapf (''capture old branch '' @ ab_branch m @ '': '') e []) (captureDurable a active (ab_branch m))) w3 = (Inr (), w4)" and
    mk: "onStore (SetActiveBranch (repoID a) (worktreeID a) active ?cur (label_of (eng a))) w4 = (Inr (), w5)" and
    fl: "fill a active ?cur True w5 = (Inr filled, w2)" and
    how: "''swap:'' @ (case filled of Some src \<Rightarrow> how src | None \<Rightarrow> ''branch-point'') = ''swap:resume''"
    by (auto simp: swapBranch_def bindA_Inr returnA_Inr wrapA_Inr)
  have src: "filled = Some fromResume"
  proof (cases filled)
    case (Some s)
    then show ?thesis using how by (cases s) simp_all
  qed (use how in simp)
  have c3: "content (engine w3) ?dur = content (engine w) ?dur" using frame0 [OF touches_captureRedundant red] w1 by simp
  have tc: "touches content {?old} (if red then writeEvent ''info'' ''branch:capture:skip''
       else wrapA (\<lambda>e. Wrapf (''capture old branch '' @ ab_branch m @ '': '') e []) (captureDurable a active (ab_branch m)))"
    by (intro touch) simp
  have "content (engine w4) ?dur = content (engine w) ?dur" using touches_result [OF tc cap] apart(2) c3 by simp
  moreover have "content (engine w5) = content (engine w4)" using frame0 [OF touches_onStore mk] .
  moreover
  have ne: "active \<noteq> ?dur" using apart(1) [of ?cur] by simp
  have "content (engine w2) active = content (engine w5) ?dur" using fill_resume [OF ne, of w5 w2] fl src by simp
  moreover have "content (engine w') active = content (engine w2) active"
  proof -
    from fin be assms(4) obtain u w6 where rc: "recordClean a active ?cur (snd bd) False False w2 = (Inr u, w6)"
      "engine w' = engine w6"
      by (cases bd) (auto simp: finishRun_def migrateStep_none run_rules writeEvent_run split: option.splits)
    then show ?thesis using frame0 [OF touches_recordClean rc(1)] by simp
  qed
  ultimately show ?thesis by simp
qed

end

text \<open>
  The data of every branch, the abstract view of the active namespace and its durable copies: the marked
  branch is the one whose data is in the active namespace, all others live in their copies.
\<close>

definition dataOf ::
  "'e branchScopedArgs \<Rightarrow> ('e \<Rightarrow> string \<Rightarrow> 'c option) \<Rightarrow> string \<Rightarrow> 'e world \<Rightarrow> string \<Rightarrow> 'c option" where
  "dataOf a content active w b =
     (if map_option ab_branch (markerOf (worktreeID a) active (tables (store w))) = Some b then content (engine w) active
      else content (engine w) (durableName a active b))"

end
