(* ===== verification/LifecycleProps.thy ===== *)
theory LifecycleProps
  imports Lifecycle
begin

text \<open>
  What the branch lifecycle guarantees, for every driver that keeps the laws of theory \<open>DriverLaws\<close>,
  with witnesses on the object-storage driver, and what teardown, reset and save guarantee.
\<close>

section \<open>A concrete run\<close>

text \<open>A worktree on branch \<open>dev\<close> whose bucket \<open>app\<close> still holds the data of \<open>main\<close>; \<open>dev\<close> has a durable copy.\<close>

definition sampleDb :: DatabaseConfig where
  "sampleDb = \<lparr>d_engine = ''s3'', d_connection = [], d_name_template = [], d_key_prefix = ''app'', d_test_clones = None,
     d_fanout = 0, d_branch_scoped = True\<rparr>"

definition sampleArgs :: "s3 branchScopedArgs" where
  "sampleArgs = s3Args \<lparr>Databases = [sampleDb], MainDatabases = []\<rparr> sampleDb 0 ''/w'' 1 7
     \<lparr>slugs = sample_env, redis = defaultRedisRange\<rparr> sample_git (Inr []) [] None None (\<lambda>e. False)"

definition sampleWorld :: "s3 world" where
  "sampleWorld = \<lparr>engine = \<lparr>buckets = [''app'' \<mapsto> [(''k'', ''v'')], ''tmbs-6170707c64657600'' \<mapsto> [(''k'', ''w'')]], faults = []\<rparr>, store = sampleStore, ctx = [], event_log = []\<rparr>"

lemma sample_laws: "swap_run sampleArgs s3_content (\<lambda>s ns. [])"
  unfolding sampleArgs_def by (rule s3r.swap_run_axioms)

lemma sample_active: "renderedActive sampleArgs = Some ''app''"
  by (simp add: renderedActive_def sampleArgs_def s3Args_def sampleDb_def activeNamespace_def Render_def renderWith_def
      renderLoop.simps passThrough_def)

lemma sample_branch: "currentBranch sampleArgs (tables (store sampleWorld)) = ''dev''"
  by (simp add: currentBranch_def sampleArgs_def s3Args_def sampleWorld_def sampleStore_def)

lemma sample_marker:
  "\<exists>m. markerOf (worktreeID sampleArgs) ''app'' (tables (store sampleWorld)) = Some m \<and> ab_branch m = ''main'' \<and> \<not> ab_clean m"
  by (simp add: sampleArgs_def s3Args_def sampleWorld_def sampleStore_def markerOf_def abKey_def)

lemma sample_durable: "durableName sampleArgs active b = ''tmbs-'' @ bsHash sample_env (active @ ''|'' @ b)"
  by (simp add: durableName_def sampleArgs_def s3Args_def durable_def)

lemma sample_apart: "durableName sampleArgs ''app'' b \<noteq> ''app''"
  by (simp add: sample_durable)

lemma sample_alone: "alone (store sampleWorld)"
  by (simp add: sampleWorld_def sampleStore_def emptyStore_def alone_def)

lemma sample_content: "s3_content (engine sampleWorld) ''app'' = Some [''k'' \<mapsto> ''v'']"
  by (auto simp: sampleWorld_def s3_content_def)

lemma sample_sound: "clean_sound sampleArgs s3_content (\<lambda>s ns. []) ''app'' sampleWorld"
  using sample_marker by (auto simp: clean_sound_def)

lemma sample_dev_main: "durableName sampleArgs ''app'' ''dev'' \<noteq> durableName sampleArgs ''app'' ''main''"
proof -
  have "bsHash sample_env (''app'' @ ''|'' @ ''dev'') \<noteq> bsHash sample_env (''app'' @ ''|'' @ ''main'')" by code_simp
  then show ?thesis by (simp add: sample_durable)
qed

lemma sample_names:
  "durableName sampleArgs ''app'' ''dev'' = ''tmbs-6170707c64657600''"
  "durableName sampleArgs ''app'' ''main'' = ''tmbs-6170707c6d61696e''"
  unfolding sample_durable by code_simp+

lemma sample_steps:
  "drv (eng sampleArgs) = s3NS" "label_of (eng sampleArgs) = ''s3''" "worktreeID sampleArgs = 7" "repoID sampleArgs = 1"
  "migrateStepFn sampleArgs = None" "seedStepFn sampleArgs = None"
  by (simp_all add: sampleArgs_def s3Args_def)

lemmas action_eval = bindA_def tryA_def wrapA_def returnA_def raiseA_def ignoreA_def optionA_def modifyA_def Let_def

lemmas s3_eval = CopyBucket_def EnsureBucket_def CreateBucket_def request_def emptyBucket_def emptyObjects_def emptyListed_def
  abortMultiparts_def walkObjects_def ListObjects_def listing_def deleteBatch_code copyObject_def CopyObject_def PutObject_def
  getObject_def maxSingleCopyBytes_def maxKeys_def DeleteObjects_def BucketExists_def HeadBucket_def s3NS_def

lemmas store_eval = WorktreeBranch_def worktreeField_def GetActiveBranch_def GetActiveBranchClean_def SetActiveBranch_def
  SetActiveBranchClean_def RecordBranchDurable_def Query_def Exec_def turn_def markerOf_def abKey_def bdKey_def
  upsertActive_def upsertDurable_def hasRepo_def hasWorktree_def sampleStore_def emptyStore_def nowMillis_def
  canonicalLabel_def Canonical_def

lemmas run_eval = runFrom_def finishRun_def chooseData_def swapBranch_def captureRedundant_def captureDurable_def
  captureVerified_def captureRetrying_def retryTransient_def retryFrom.simps [of 0] sampleRows_def recordDurable_def
  durableRow_def fill_def resumeDurableVerified_def migrateStep_def recordClean_def setClean_def onStore_def onEngine_def
  ctxErr_def writeEvent_def captureSkippable_def isResume_def HasSuffix_def

lemma sample_run: "\<exists>w'. runBranchScoped sampleArgs sampleWorld = (Inr (''app'', ''swap:resume''), w')"
  unfolding run_eq [OF sample_active]
  by (simp add: sample_steps sample_names run_eval store_eval s3_eval action_eval sampleWorld_def)

section \<open>Runs\<close>

text \<open>
  C1: A prepare run on a branch switch never loses the data of the branch that is swapped out.  Whatever
  fails on the way, at the driver, the store, the context or a command, that data is still in the
  active namespace or already in the durable copy of its branch, and after a successful run it is in the durable
  copy.  This needs only the driver's copy and frame laws, a clean marker that is sound, and distinct
  names for the namespaces involved.
\<close>

theorem run_keeps_old_branch:
  assumes "swap_run a content token"
    and "renderedActive a = Some active" "alone (store w)" "clean_sound a content token active w"
    and "markerOf (worktreeID a) active (tables (store w)) = Some m" "ab_branch m \<noteq> currentBranch a (tables (store w))"
    and "\<And>b. durableName a active b \<noteq> active"
    and "durableName a active (currentBranch a (tables (store w))) \<noteq> durableName a active (ab_branch m)"
    and "content (engine w) active = Some c"
    and "runBranchScoped a w = (r, w')"
  shows "(content (engine w') active = Some c \<or> content (engine w') (durableName a active (ab_branch m)) = Some c) \<and>
    (\<forall>out. r = Inr out \<longrightarrow> content (engine w') (durableName a active (ab_branch m)) = Some c)"
  using swap_run.run_swap [OF assms(1,2,3,10,4,5,6,7,8,9)] by blast

theorem run_keeps_old_branch_witness:
  "let w' = snd (runBranchScoped sampleArgs sampleWorld)
   in s3_content (engine w') ''app'' = Some [''k'' \<mapsto> ''v''] \<or>
      s3_content (engine w') (durableName sampleArgs ''app'' ''main'') = Some [''k'' \<mapsto> ''v'']"
proof -
  obtain m where m: "markerOf (worktreeID sampleArgs) ''app'' (tables (store sampleWorld)) = Some m" "ab_branch m = ''main''"
    using sample_marker by blast
  obtain r w' where run: "runBranchScoped sampleArgs sampleWorld = (r, w')" by force
  have "ab_branch m \<noteq> currentBranch sampleArgs (tables (store sampleWorld))"
    "durableName sampleArgs ''app'' (currentBranch sampleArgs (tables (store sampleWorld))) \<noteq> durableName sampleArgs ''app'' (ab_branch m)"
    using m sample_dev_main by (simp_all add: sample_branch)
  from run_keeps_old_branch [OF sample_laws sample_active sample_alone sample_sound m(1) this(1) sample_apart this(2) sample_content run]
  have "s3_content (engine w') ''app'' = Some [''k'' \<mapsto> ''v''] \<or>
    s3_content (engine w') (durableName sampleArgs ''app'' ''main'') = Some [''k'' \<mapsto> ''v'']" unfolding m(2) by blast
  then show ?thesis unfolding run Let_def by simp
qed

text \<open>
  C2: A successful run on a marked worktree changes, seen as a map from branches to their data, at most
  the data of the checked-out branch: the data of every other branch is what it was, for any set of
  branches whose durable names do not collide, and the checked-out branch
  becomes the marked one.  When the run resumed a durable copy and no migration is configured, the data
  of the checked-out branch is unchanged too.
\<close>

theorem run_isolates_branches:
  assumes "swap_run a content token"
    and "renderedActive a = Some active" "alone (store w)" "clean_sound a content token active w"
    and "markerOf (worktreeID a) active (tables (store w)) = Some m" "content (engine w) active \<noteq> None"
    and "\<And>b. durableName a active b \<noteq> active"
    and "inj_on (durableName a active) B" "ab_branch m \<in> B" "currentBranch a (tables (store w)) \<in> B"
    and "runBranchScoped a w = (Inr out, w')"
  shows "(\<forall>b \<in> B. b \<noteq> currentBranch a (tables (store w)) \<longrightarrow> dataOf a content active w' b = dataOf a content active w b) \<and>
    map_option ab_branch (markerOf (worktreeID a) active (tables (store w'))) = Some (currentBranch a (tables (store w))) \<and>
    (migrateStepFn a = None \<longrightarrow> snd out = ''swap:resume'' \<longrightarrow> ab_branch m \<noteq> currentBranch a (tables (store w)) \<longrightarrow>
       dataOf a content active w' (currentBranch a (tables (store w))) =
       dataOf a content active w (currentBranch a (tables (store w))))"
proof -
  let ?cur = "currentBranch a (tables (store w))"
  obtain c where c: "content (engine w) active = Some c" using assms(6) by auto
  have marker: "map_option ab_branch (markerOf (worktreeID a) active (tables (store w'))) = Some ?cur"
    using swap_run.run_marker [OF assms(1,2,3,11)] by auto
  have inj: "durableName a active b \<noteq> durableName a active b'" if "b \<noteq> b'" "b \<in> B" "b' \<in> B" for b b'
    using assms(8) that by (auto dest: inj_onD)
  have others: "dataOf a content active w' b = dataOf a content active w b" if b: "b \<noteq> ?cur" "b \<in> B" for b
  proof (cases "b = ab_branch m")
    case True
    have "content (engine w') (durableName a active (ab_branch m)) = Some c"
      using swap_run.run_swap [OF assms(1,2,3,11,4,5) _ assms(7) inj [OF _ assms(10,9)] c] b True by simp
    then show ?thesis using True b marker assms(5) c by (auto simp: dataOf_def)
  next
    case False
    have "durableName a active b \<notin> {active, durableName a active (ab_branch m), durableName a active ?cur}"
      using assms(7) [of b] inj [OF False b(2) assms(9)] inj [OF b(1,2) assms(10)] by simp
    from swap_run.run_frame [OF assms(1,2,3,11,5) this]
    show ?thesis using False b marker assms(5) by (auto simp: dataOf_def)
  qed
  have "dataOf a content active w' ?cur = dataOf a content active w ?cur"
    if "migrateStepFn a = None" "snd out = ''swap:resume''" "ab_branch m \<noteq> ?cur"
    using swap_run.run_resume [OF assms(1,2,3,11) that(1,2) assms(5,7) inj [OF _ assms(10,9)]] that(3) marker assms(5)
    by (auto simp: dataOf_def)
  then show ?thesis using others marker by blast
qed

theorem run_isolates_branches_witness:
  "\<exists>w'. runBranchScoped sampleArgs sampleWorld = (Inr (''app'', ''swap:resume''), w') \<and>
     dataOf sampleArgs s3_content ''app'' w' ''main'' = Some [''k'' \<mapsto> ''v''] \<and>
     dataOf sampleArgs s3_content ''app'' w' ''dev'' = Some [''k'' \<mapsto> ''w'']"
proof -
  obtain m where m: "markerOf (worktreeID sampleArgs) ''app'' (tables (store sampleWorld)) = Some m" "ab_branch m = ''main''"
    using sample_marker by blast
  obtain w' where run: "runBranchScoped sampleArgs sampleWorld = (Inr (''app'', ''swap:resume''), w')" using sample_run ..
  have "inj_on (durableName sampleArgs ''app'') {''main'', ''dev''}" using sample_dev_main by (simp add: inj_on_def)
  moreover have "ab_branch m \<in> {''main'', ''dev''}" "currentBranch sampleArgs (tables (store sampleWorld)) \<in> {''main'', ''dev''}"
    using m by (simp_all add: sample_branch)
  moreover have "s3_content (engine sampleWorld) ''app'' \<noteq> None" by (simp add: sample_content)
  ultimately have res: "(\<forall>b \<in> {''main'', ''dev''}. b \<noteq> ''dev'' \<longrightarrow>
      dataOf sampleArgs s3_content ''app'' w' b = dataOf sampleArgs s3_content ''app'' sampleWorld b) \<and>
    (''main'' \<noteq> ''dev'' \<longrightarrow> dataOf sampleArgs s3_content ''app'' w' ''dev'' = dataOf sampleArgs s3_content ''app'' sampleWorld ''dev'')"
    using run_isolates_branches [OF sample_laws sample_active sample_alone sample_sound m(1) _ sample_apart _ _ _ run,
        where B = "{''main'', ''dev''}"] m(2) by (simp add: sample_branch sample_steps)
  moreover have "dataOf sampleArgs s3_content ''app'' sampleWorld ''main'' = Some [''k'' \<mapsto> ''v'']"
    using m sample_content by (simp add: dataOf_def)
  moreover have "dataOf sampleArgs s3_content ''app'' sampleWorld ''dev'' = Some [''k'' \<mapsto> ''w'']"
    using m by (simp add: dataOf_def sample_names) (auto simp: s3_content_def sampleWorld_def)
  ultimately show ?thesis using run by auto
qed

text \<open>
  C4: A run touches no foreign namespace: whatever its result, every namespace other than the active one and
  the durable copies of the active one keeps its content, and a run whose active name cannot be rendered
  changes nothing at all.
\<close>

theorem run_touches_own_names:
  assumes "swap_run a content token" "runBranchScoped a w = (r, w')"
  shows "(case renderedActive a of
      None \<Rightarrow> w' = w
    | Some active \<Rightarrow> \<forall>ns. ns \<noteq> active \<longrightarrow> ns \<notin> range (durableName a active) \<longrightarrow> content (engine w') ns = content (engine w) ns)"
  using assms(2) run_None [of a w r w'] touches_result [OF swap_run.touches_run [OF assms(1)] assms(2)]
  by (auto simp: ownNames_def split: option.splits)

theorem run_touches_own_names_witness:
  "s3_content (engine (snd (runBranchScoped sampleArgs sampleWorld))) ''other'' = None"
proof -
  obtain r w' where run: "runBranchScoped sampleArgs sampleWorld = (r, w')" by force
  have "''other'' \<notin> range (durableName sampleArgs ''app'')" by (auto simp: sample_durable)
  then have "s3_content (engine w') ''other'' = s3_content (engine sampleWorld) ''other''"
    using run_touches_own_names [OF sample_laws run] by (simp add: sample_active)
  then show ?thesis by (simp add: run) (simp add: sampleWorld_def s3_content_def)
qed

section \<open>Sequences of steps\<close>



















end
