(* ===== verification/BranchOpsProps.thy ===== *)
theory BranchOpsProps
  imports LifecycleProps
begin

text \<open>
  What teardown, reset and save guarantee, for every driver that keeps the laws of theory \<open>DriverLaws\<close>, and
  what the object-storage copies guarantee.
\<close>

section \<open>Lemmas\<close>

lemma markerOf_clear: "markerOf w k (t\<lparr>active_branch_db := filter (\<lambda>r. abKey r \<noteq> (w, k)) (active_branch_db t)\<rparr>) = None"
  by (auto simp: markerOf_def find_None_iff)

lemma onStore_write:
  assumes "alone (store w)" "onStore (execB stmt) w = (r, w')"
  shows "engine w' = engine w \<and> alone (store w') \<and>
    (case r of Inr u \<Rightarrow> stmt (tables (store w)) = Inr (tables (store w')) | Inl e \<Rightarrow> tables (store w') = tables (store w))"
  using assms execB_alone [of "store w" stmt] by (cases r) (auto simp: onStore_def split: prod.splits)

lemma clearActiveMarkers_done:
  assumes "alone (store w)" "clearActiveMarkers i active w = (Inr u, w')"
  shows "engine w' = engine w \<and> markerOf i active (tables (store w')) = None \<and>
    branch_durables (tables (store w')) = branch_durables (tables (store w))"
proof -
  from assms(2) obtain v w1 where a: "onStore (ClearBranchMigratedForKey i active) w = (Inr v, w1)"
    and b: "onStore (ClearActiveBranch i active) w1 = (Inr u, w')"
    by (auto simp: clearActiveMarkers_def run_rules)
  note s1 = onStore_write [OF assms(1) a [unfolded ClearBranchMigratedForKey_def]]
  then have w1: "alone (store w1)" by simp
  note s2 = onStore_write [OF w1 b [unfolded ClearActiveBranch_def]]
  then have "tables (store w') = (tables (store w1))\<lparr>active_branch_db := filter (\<lambda>r. abKey r \<noteq> (i, active)) (active_branch_db (tables (store w1)))\<rparr>"
    by simp
  moreover from s1 have "tables (store w1) = (tables (store w))\<lparr>branch_db_migrated :=
      filter (\<lambda>r. \<not> (bm_worktree r = i \<and> bm_key r = active)) (branch_db_migrated (tables (store w)))\<rparr>" by simp
  ultimately show ?thesis using s1 s2 by (simp add: markerOf_def find_None_iff)
qed

context ns_driver
begin

lemma exists_frame0: "onEngine (nsExists D ns) w = (r, w') \<Longrightarrow> content (engine w') = content (engine w) \<and> store w' = store w"
  unfolding onEngine_result using only_content [OF exists_frame] by fastforce

end

text \<open>The capture before a teardown: on success the durable copy holds the data, on failure only it was touched.\<close>

lemma teardown_capture:
  assumes laws: "ns_driver (drv E) content" and "alone (store w)"
    and m: "markerOf i active (tables (store w)) = Some m" "ab_branch m \<noteq> []" and c: "content (engine w) active = Some c"
    and ne: "engDurable env E active (ab_branch m) \<noteq> active"
    and run: "captureBranchScopedOnTeardown env E repo i active w = (r, w')"
  shows "alone (store w') \<and> content (engine w') active = Some c \<and>
    (\<forall>u. r = Inr u \<longrightarrow> content (engine w') (engDurable env E active (ab_branch m)) = Some c) \<and>
    (\<forall>ns. ns \<noteq> engDurable env E active (ab_branch m) \<longrightarrow> content (engine w') ns = content (engine w) ns)"
proof -
  let ?dur = "engDurable env E active (ab_branch m)"
  let ?row = "durableRow repo i (label_of E) active (ab_branch m) ?dur"
  have "keeps calmW (captureBranchScopedOnTeardown env E repo i active)"
    unfolding captureBranchScopedOnTeardown_def Let_def by (intro calm)
  from keepsD [OF this run] have calm_w: "alone (store w')" using assms(2) by (simp add: calmW_def)
  note touch_rules = touch ns_driver.touches_driver [OF laws] ns_driver.touches_captureVerified [OF laws]
  have frame: "touches content {?dur} (bindA (captureVerified (drv E) active ?dur) (\<lambda>_. recordDurable ?row))"
    unfolding recordDurable_def by (intro touch_rules) simp
  obtain x w1 where q: "onStore (GetActiveBranch i active) w = (x, w1)" by force
  note w1 = onStore_read [OF assms(2) q [unfolded GetActiveBranch_def]]
  show ?thesis
  proof (cases x)
    case (Inl e)
    then show ?thesis using run q w1 c calm_w by (auto simp: captureBranchScopedOnTeardown_def bindA_def)
  next
    case (Inr y)
    then have y: "y = Some (ab_branch m)" using w1 m by simp
    obtain z w2 where ex: "onEngine (nsExists (drv E) active) w1 = (z, w2)" by force
    note w2 = ns_driver.exists_frame0 [OF laws ex]
    show ?thesis
    proof (cases z)
      case (Inl e)
      then show ?thesis using run q Inr y ex m w1 w2 c calm_w
        by (auto simp: captureBranchScopedOnTeardown_def bindA_def)
    next
      case z: (Inr b)
      then have "b" using ns_driver.exists_True [OF laws, of active w1 b w2] ex w1 c by simp
      then have go: "bindA (captureVerified (drv E) active ?dur) (\<lambda>_. recordDurable ?row) w2 = (r, w')"
        using run q Inr y ex z m by (simp add: captureBranchScopedOnTeardown_def bindA_def [of "onStore _"] bindA_def [of "onEngine _"] Let_def)
      have fr: "content (engine w') ns = content (engine w) ns" if "ns \<noteq> ?dur" for ns
        using touches_result [OF frame go, of ns] that w1 w2 by simp
      moreover have "content (engine w') ?dur = Some c" if "r = Inr u" for u
      proof -
        from go that obtain v w3 where cap: "captureVerified (drv E) active ?dur w2 = (Inr v, w3)"
          and rec: "recordDurable ?row w3 = (Inr u, w')" by (auto simp: bindA_Inr)
        have "content (engine w2) active = Some c" using w1 w2 c by simp
        then have "content (engine w3) ?dur = Some c"
          using ns_driver.captureVerified_copy [OF laws _ ne [symmetric] cap] by blast
        moreover have "engine w' = engine w3" using rec by (auto simp: recordDurable_def wrapA_def onStore_def split: prod.splits)
        ultimately show ?thesis by simp
      qed
      ultimately show ?thesis using calm_w c ne by simp
    qed
  qed
qed

text \<open>Saving, once the marker names a branch and the active namespace exists.\<close>

definition saveTail ::
  "slug_env \<Rightarrow> 'e branchEngine \<Rightarrow> int \<Rightarrow> int \<Rightarrow> string \<Rightarrow> string \<Rightarrow> ('e world, BranchScopedSave) action" where
  "saveTail env E repo w active branch =
     (let dur = engDurable env E active branch;
          out = \<lparr>sv_engine = label_of E, sv_active = active, sv_branch = branch, sv_durable = dur, sv_skipped = []\<rparr>
      in bindA (wrapA (\<lambda>e. Wrapf (''read the clean marker of '' @ active @ '': '') e [])
                 (onStore (GetActiveBranchClean w active))) (\<lambda>m.
         bindA (case m of
                  None \<Rightarrow> returnA False
                | Some (prevClean, prevWM) \<Rightarrow>
                    bindA (tryA (onEngine (nsExists (drv E) dur))) (\<lambda>ex.
                    bindA (tryA (onEngine (nsWatermark (drv E) active))) (\<lambda>wm.
                      case wm of
                        Inl e \<Rightarrow> returnA False
                      | Inr curWM \<Rightarrow> returnA (captureSkippable prevClean (ex = Inr True) prevWM curWM)))) (\<lambda>skip.
           if skip then returnA (out\<lparr>sv_skipped := ''unchanged since last capture (watermark match)''\<rparr>)
           else
             bindA (wrapA (\<lambda>e. Wrapf (''capture '' @ active @ '' into durable copy for '' @ branch @ '': '') e [])
                     (captureRetrying (drv E) active dur)) (\<lambda>_.
             bindA (recordDurable (durableRow repo w (label_of E) active branch dur)) (\<lambda>_.
             bindA (tryA (onEngine (nsWatermark (drv E) active))) (\<lambda>wm.
             bindA (case wm of
                      Inr cur \<Rightarrow>
                        if cur \<noteq> [] then
                          wrapA (\<lambda>e. Wrapf (''record the clean marker of '' @ active @ '': '') e [])
                            (onStore (SetActiveBranchClean repo w active branch (label_of E) True cur))
                        else returnA ()
                    | Inl e \<Rightarrow> returnA ()) (\<lambda>_.
               returnA out)))))))"

lemma saveTail_captures:
  assumes laws: "watermark_driver (drv E) content token" and "alone (store w)"
    and m: "markerOf i active (tables (store w)) = Some m" and c: "content (engine w) active = Some c"
    and ne: "engDurable env E active (ab_branch m) \<noteq> active"
    and sound: "ab_clean m \<Longrightarrow> ab_watermark m \<noteq> [] \<Longrightarrow> token (engine w) active = ab_watermark m \<Longrightarrow>
      content (engine w) (engDurable env E active (ab_branch m)) \<in> {None, Some c}"
    and run: "saveTail env E repo i active (ab_branch m) w = (r, w')"
  shows "content (engine w') active = Some c \<and>
    (\<forall>s. r = Inr s \<longrightarrow> sv_branch s = ab_branch m \<and> sv_durable s = engDurable env E active (ab_branch m) \<and>
       content (engine w') (engDurable env E active (ab_branch m)) = Some c)"
proof -
  let ?dur = "engDurable env E active (ab_branch m)"
  note D = watermark_driver.axioms(1) [OF laws]
  note touch_rules = touch ns_driver.touches_driver [OF D]
  have "touches content {?dur} (saveTail env E repo i active (ab_branch m))"
    unfolding saveTail_def captureRetrying_def recordDurable_def Let_def by (intro touch_rules) simp_all
  from touches_result [OF this run, of active] have act: "content (engine w') active = Some c" using ne c by simp
  have "sv_branch s = ab_branch m \<and> sv_durable s = ?dur \<and> content (engine w') ?dur = Some c" if r: "r = Inr s" for s
  proof -
    let ?skip = "bindA (tryA (onEngine (nsExists (drv E) ?dur))) (\<lambda>ex.
      bindA (tryA (onEngine (nsWatermark (drv E) active))) (\<lambda>wm.
        case wm of Inl e \<Rightarrow> returnA False
        | Inr curWM \<Rightarrow> returnA (captureSkippable (ab_clean m) (ex = Inr True) (ab_watermark m) curWM)))"
    from run r obtain y w1 where q: "onStore (GetActiveBranchClean i active) w = (Inr y, w1)"
      by (auto simp: saveTail_def Let_def bindA_Inr wrapA_Inr)
    note w1 = onStore_read [OF assms(2) q [unfolded GetActiveBranchClean_def]]
    then have y: "y = Some (ab_clean m, ab_watermark m)" using m by simp
    let ?out = "\<lparr>sv_engine = label_of E, sv_active = active, sv_branch = ab_branch m, sv_durable = ?dur, sv_skipped = []\<rparr>"
    let ?after = "bindA (recordDurable (durableRow repo i (label_of E) active (ab_branch m) ?dur)) (\<lambda>_.
             bindA (tryA (onEngine (nsWatermark (drv E) active))) (\<lambda>wm.
             bindA (case wm of
                      Inr cur \<Rightarrow>
                        if cur \<noteq> [] then
                          wrapA (\<lambda>e. Wrapf (''record the clean marker of '' @ active @ '': '') e [])
                            (onStore (SetActiveBranchClean repo i active (ab_branch m) (label_of E) True cur))
                        else returnA ()
                    | Inl e \<Rightarrow> returnA ()) (\<lambda>_. returnA ?out)))"
    from run r q y obtain skip w2 where sk: "?skip w1 = (Inr skip, w2)"
      and rest: "(if skip then returnA (?out\<lparr>sv_skipped := ''unchanged since last capture (watermark match)''\<rparr>)
        else bindA (wrapA (\<lambda>e. Wrapf (''capture '' @ active @ '' into durable copy for '' @ ab_branch m @ '': '') e [])
               (captureRetrying (drv E) active ?dur)) (\<lambda>_. ?after)) w2 = (Inr s, w')"
      by (simp add: saveTail_def Let_def bindA_def [of "wrapA _ (onStore (GetActiveBranchClean i active))"]
          wrapA_def [of _ "onStore (GetActiveBranchClean i active)"] bindA_Inr [of ?skip]) blast
    have "touches content {} ?skip" by (intro touch_rules)
    from ns_driver.frame0 [OF D this sk] have c2: "content (engine w2) = content (engine w)" using w1 by simp
    show ?thesis
    proof (cases skip)
      case True
      then have w': "w' = w2" "sv_branch s = ab_branch m" "sv_durable s = ?dur" using rest by (auto simp: returnA_def)
      from sk True obtain w3 cur w4 where ex: "onEngine (nsExists (drv E) ?dur) w1 = (Inr True, w3)"
        and wm: "onEngine (nsWatermark (drv E) active) w3 = (Inr cur, w4)"
        and skp: "ab_clean m" "cur \<noteq> []" "cur = ab_watermark m"
        by (auto simp: run_rules captureSkippable_def split: sum.splits)
      have t3: "token (engine w3) = token (engine w)"
        using ex w1 watermark_driver.exists_same [OF laws] by (auto simp: ns_driver.onEngine_result [OF D])
      from wm obtain e' where "nsWatermark (drv E) active (engine w3) = (Inr cur, e')"
        by (auto simp: ns_driver.onEngine_result [OF D])
      from watermark_driver.watermark_token [OF laws this skp(2)] t3 skp(3)
      have "token (engine w) active = ab_watermark m" by simp
      moreover have "content (engine w) ?dur \<noteq> None" using ns_driver.exists_True [OF D ex] w1 by simp
      ultimately have "content (engine w) ?dur = Some c" using sound skp by auto
      then show ?thesis using w' c2 by simp
    next
      case False
      with rest obtain u w3 where cap: "captureRetrying (drv E) active ?dur w2 = (Inr u, w3)" and af: "?after w3 = (Inr s, w')"
        by (auto simp: bindA_Inr [of "wrapA _ _"] wrapA_Inr)
      have "touches content {} ?after" unfolding recordDurable_def by (intro touch_rules)
      from ns_driver.frame0 [OF D this af] have "content (engine w') = content (engine w3)" .
      moreover have "content (engine w3) ?dur = Some c"
        using ns_driver.captureRetrying_copy [OF D _ ne [symmetric] cap] c c2 by simp
      moreover have "s = ?out" using af by (auto simp: bindA_Inr returnA_Inr)
      ultimately show ?thesis by simp
    qed
  qed
  then show ?thesis using act by blast
qed

section \<open>Properties\<close>

text \<open>
  C5: Tearing down a worktree never destroys the only copy of its branch's data: whatever fails, the data
  is in the active namespace or in the durable copy; after a successful teardown it is in the durable copy,
  the active namespace and its marker are gone, and no other namespace was touched.
\<close>

theorem teardown_keeps_data:
  assumes laws: "ns_driver (drv E) content" and "alone (store w)"
    and m: "markerOf i active (tables (store w)) = Some m" "ab_branch m \<noteq> []" and c: "content (engine w) active = Some c"
    and ne: "engDurable env E active (ab_branch m) \<noteq> active"
    and run: "teardownActive env E repo i active w = (r, w')"
  shows "(content (engine w') active = Some c \<or> content (engine w') (engDurable env E active (ab_branch m)) = Some c) \<and>
    (r = Inr () \<longrightarrow> content (engine w') (engDurable env E active (ab_branch m)) = Some c \<and>
       content (engine w') active = None \<and> markerOf i active (tables (store w')) = None) \<and>
    (\<forall>ns. ns \<noteq> active \<longrightarrow> ns \<noteq> engDurable env E active (ab_branch m) \<longrightarrow> content (engine w') ns = content (engine w) ns)"
proof -
  let ?dur = "engDurable env E active (ab_branch m)"
  obtain x w1 where cap: "captureBranchScopedOnTeardown env E repo i active w = (x, w1)" by force
  note w1 = teardown_capture [OF assms(1-6) cap]
  show ?thesis
  proof (cases x)
    case (Inl e)
    then have "engine w' = engine w1" "r \<noteq> Inr ()"
      using run cap by (auto simp: teardownActive_def bindA_def tryA_def writeEvent_def modifyA_def raiseA_def)
    then show ?thesis using w1 by simp
  next
    case (Inr u)
    let ?rest = "bindA (onEngine (nsDrop (drv E) active)) (\<lambda>_. bindA (clearActiveMarkers i active) (\<lambda>_. writeEvent ''info'' ''db:drop''))"
    have go: "?rest w1 = (r, w')" using run cap Inr by (simp add: teardownActive_def bindA_def [of "tryA _"] tryA_def)
    note touch_rules = touch ns_driver.touches_driver [OF laws]
    have "touches content {active} ?rest" unfolding clearActiveMarkers_def by (intro touch_rules) simp
    from touches_result [OF this go] have fr: "ns \<noteq> active \<Longrightarrow> content (engine w') ns = content (engine w1) ns" for ns by simp
    have done_: "content (engine w') active = None \<and> markerOf i active (tables (store w')) = None" if r: "r = Inr ()"
    proof -
      from go r obtain v w2 w3 where d: "onEngine (nsDrop (drv E) active) w1 = (Inr v, w2)"
        and cl: "clearActiveMarkers i active w2 = (Inr (), w3)"
        and w': "w' = w3\<lparr>event_log := event_log w3 @ [(''info'', ''db:drop'')]\<rparr>"
        by (auto simp: bindA_Inr writeEvent_def modifyA_def)
      have w2: "content (engine w2) active = None" "store w2 = store w1"
        using d ns_driver.drop_gone [OF laws] by (auto simp: ns_driver.onEngine_result [OF laws])
      then show ?thesis using clearActiveMarkers_done [OF _ cl] w1 w' by simp
    qed
    then show ?thesis using w1 Inr fr ne by auto
  qed
qed

lemma sample_engine: "ns_driver (drv (eng sampleArgs)) s3_content"
  unfolding sample_steps by (rule s3d.ns_driver_axioms)

lemma sample_engDurable: "engDurable sample_env (eng sampleArgs) ''app'' b = ''tmbs-'' @ bsHash sample_env (''app'' @ ''|'' @ b)"
  by (simp add: engDurable_def durable_def sampleArgs_def s3Args_def)

theorem teardown_keeps_data_witness:
  "let w' = snd (teardownActive sample_env (eng sampleArgs) 1 7 ''app'' sampleWorld)
   in s3_content (engine w') ''app'' = Some [''k'' \<mapsto> ''v''] \<or>
      s3_content (engine w') (engDurable sample_env (eng sampleArgs) ''app'' ''main'') = Some [''k'' \<mapsto> ''v'']"
proof -
  obtain m where m: "markerOf 7 ''app'' (tables (store sampleWorld)) = Some m" "ab_branch m = ''main''"
    using sample_marker sample_steps(3) by auto
  obtain r w' where run: "teardownActive sample_env (eng sampleArgs) 1 7 ''app'' sampleWorld = (r, w')" by force
  have "ab_branch m \<noteq> []" "engDurable sample_env (eng sampleArgs) ''app'' (ab_branch m) \<noteq> ''app''"
    using m by (simp_all add: sample_engDurable)
  from teardown_keeps_data [OF sample_engine sample_alone m(1) this(1) sample_content this(2) run]
  show ?thesis unfolding m(2) run Let_def snd_conv by blast
qed

text \<open>The rows a reset deletes, table by table: the record of the durable copy, the migration records, the marker.\<close>

definition forgetDurable :: "int \<Rightarrow> string \<Rightarrow> branchTables \<Rightarrow> branchTables" where
  "forgetDurable repo dur t = t\<lparr>branch_durables := filter (\<lambda>r. \<not> (bd_repo r = repo \<and> bd_name r = dur)) (branch_durables t)\<rparr>"

definition forgetMigrated :: "int \<Rightarrow> string \<Rightarrow> branchTables \<Rightarrow> branchTables" where
  "forgetMigrated i active t =
     t\<lparr>branch_db_migrated := filter (\<lambda>r. \<not> (bm_worktree r = i \<and> bm_key r = active)) (branch_db_migrated t)\<rparr>"

definition forgetMarker :: "int \<Rightarrow> string \<Rightarrow> branchTables \<Rightarrow> branchTables" where
  "forgetMarker i active t = t\<lparr>active_branch_db := filter (\<lambda>r. \<not> (ab_worktree r = i \<and> ab_key r = active)) (active_branch_db t)\<rparr>"

lemma clearActiveMarkers_tables:
  assumes "alone (store w)" "clearActiveMarkers i active w = (r, w')"
  shows "engine w' = engine w \<and> tables (store w') \<in> {tables (store w), forgetMigrated i active (tables (store w)),
      forgetMarker i active (forgetMigrated i active (tables (store w)))} \<and>
    (r = Inr () \<longrightarrow> tables (store w') = forgetMarker i active (forgetMigrated i active (tables (store w))))"
proof -
  obtain x w1 where a: "onStore (ClearBranchMigratedForKey i active) w = (x, w1)" by force
  note s1 = onStore_write [OF assms(1) a [unfolded ClearBranchMigratedForKey_def]]
  show ?thesis
  proof (cases x)
    case (Inl e)
    then show ?thesis using assms(2) a s1 by (auto simp: clearActiveMarkers_def bindA_def wrapA_def)
  next
    case (Inr u)
    obtain y w2 where b: "onStore (ClearActiveBranch i active) w1 = (y, w2)" by force
    have "alone (store w1)" using s1 by simp
    note s2 = onStore_write [OF this b [unfolded ClearActiveBranch_def]]
    have "w' = w2" "r = Inr () \<longleftrightarrow> y = Inr ()"
      using assms(2) a b Inr by (cases y; auto simp: clearActiveMarkers_def bindA_def wrapA_def)+
    moreover have "tables (store w1) = forgetMigrated i active (tables (store w))" using s1 Inr by (simp add: forgetMigrated_def)
    moreover have "(\<lambda>r. abKey r \<noteq> (i, active)) = (\<lambda>r. \<not> (ab_worktree r = i \<and> ab_key r = active))" by (auto simp: abKey_def)
    ultimately show ?thesis using s1 s2 by (cases y) (auto simp: forgetMarker_def)
  qed
qed

text \<open>
  C7: A reset that succeeds leaves no active namespace and no marker, and forgets the durable copy of the marked
  branch, so that the next run seeds afresh.  It deletes the row of that durable copy in this
  repository, the migration records and the marker of this namespace in this worktree, in this order, and no
  other row of any table; one that fails has done a part of it.  Whatever its result, it touches no
  namespace but the active one and that durable copy.
\<close>

theorem reset_clears:
  assumes laws: "ns_driver (drv E) content" and "alone (store w)"
    and m: "markerOf i active (tables (store w)) = Some m" "ab_branch m \<noteq> []"
    and run: "resetActiveNamespace env E repo i active w = (r, w')"
  shows "let dur = engDurable env E active (ab_branch m); t = tables (store w); t1 = forgetDurable repo dur t;
        t2 = forgetMigrated i active t1; t3 = forgetMarker i active t2
    in tables (store w') \<in> {t, t1, t2, t3} \<and>
       (r = Inr () \<longrightarrow> content (engine w') active = None \<and> tables (store w') = t3 \<and> markerOf i active t3 = None) \<and>
       (\<forall>ns. ns \<noteq> active \<longrightarrow> ns \<noteq> dur \<longrightarrow> content (engine w') ns = content (engine w) ns)"
proof -
  let ?dur = "engDurable env E active (ab_branch m)" and ?t = "tables (store w)"
  let ?forget = "bindA (ignoreA (onEngine (nsDropDurable (drv E) ?dur))) (\<lambda>_.
    wrapA (\<lambda>e. Wrapf (''forget dropped durable '' @ ?dur @ '': '') e []) (onStore (DeleteBranchDurable repo ?dur)))"
  let ?rest = "bindA ?forget (\<lambda>_. bindA (onEngine (nsDrop (drv E) active)) (\<lambda>_. clearActiveMarkers i active))"
  let ?t1 = "forgetDurable repo ?dur ?t"
  let ?t2 = "forgetMigrated i active ?t1"
  let ?t3 = "forgetMarker i active ?t2"
  have gone: "markerOf i active ?t3 = None" by (auto simp: markerOf_def forgetMarker_def find_None_iff abKey_def)
  obtain x w1 where q: "onStore (GetActiveBranch i active) w = (x, w1)" by force
  note w1 = onStore_read [OF assms(2) q [unfolded GetActiveBranch_def]]
  show ?thesis
  proof (cases x)
    case (Inl e)
    then show ?thesis using run q w1 by (auto simp: resetActiveNamespace_def bindA_def wrapA_def Let_def)
  next
    case (Inr y)
    then have "y = Some (ab_branch m)" using w1 m by simp
    then have go: "?rest w1 = (r, w')"
      using run q Inr m by (simp add: resetActiveNamespace_def bindA_def [of "wrapA _ (onStore (GetActiveBranch i active))"] wrapA_def [of _ "onStore (GetActiveBranch i active)"] Let_def)
    note touch_rules = touch ns_driver.touches_driver [OF laws]
    have "touches content {active, ?dur} ?rest" unfolding clearActiveMarkers_def by (intro touch_rules) simp_all
    note fr = touches_result [OF this go]
    obtain z w2 where d: "onEngine (nsDropDurable (drv E) ?dur) w1 = (z, w2)" by force
    obtain f w3 where f: "onStore (DeleteBranchDurable repo ?dur) w2 = (f, w3)" by force
    have w2: "store w2 = store w1" using d by (auto simp: ns_driver.onEngine_result [OF laws])
    then have "alone (store w2)" using w1 by simp
    note w3 = onStore_write [OF this f [unfolded DeleteBranchDurable_def]]
    have key: "(\<lambda>r. bdKey r \<noteq> (repo, ?dur)) = (\<lambda>r. \<not> (bd_repo r = repo \<and> bd_name r = ?dur))" by (auto simp: bdKey_def)
    have "tables (store w') \<in> {?t, ?t1, ?t2, ?t3} \<and> (r = Inr () \<longrightarrow> content (engine w') active = None \<and> tables (store w') = ?t3)"
    proof (cases f)
      case (Inl e)
      then show ?thesis using go d f w1 w2 w3 by (auto simp: bindA_def ignoreA_def wrapA_def)
    next
      case fok: (Inr u)
      have t1: "tables (store w3) = ?t1" using w3 fok w1 w2 by (simp add: forgetDurable_def key)
      obtain v w4 where dr: "onEngine (nsDrop (drv E) active) w3 = (v, w4)" by force
      have w4: "store w4 = store w3" using dr by (auto simp: ns_driver.onEngine_result [OF laws])
      show ?thesis
      proof (cases v)
        case (Inl e)
        then show ?thesis using go d f fok dr t1 w4 by (auto simp: bindA_def ignoreA_def wrapA_def)
      next
        case (Inr u')
        then have cl: "clearActiveMarkers i active w4 = (r, w')" using go d f fok dr by (simp add: bindA_def ignoreA_def wrapA_def)
        have "content (engine w4) active = None"
          using dr Inr ns_driver.drop_gone [OF laws] by (auto simp: ns_driver.onEngine_result [OF laws])
        then show ?thesis using clearActiveMarkers_tables [OF _ cl] w3 w4 t1 by auto
      qed
    qed
    then show ?thesis using fr w1 gone by (simp add: Let_def)
  qed
qed

theorem reset_clears_witness:
  "\<exists>w'. resetActiveNamespace sample_env (eng sampleArgs) 1 7 ''app'' sampleWorld = (Inr (), w') \<and>
     s3_content (engine w') ''app'' = None"
proof -
  obtain m where m: "markerOf 7 ''app'' (tables (store sampleWorld)) = Some m" "ab_branch m = ''main''" "ab_branch m \<noteq> []"
    using sample_marker sample_steps(3) by auto
  have "\<exists>w'. resetActiveNamespace sample_env (eng sampleArgs) 1 7 ''app'' sampleWorld = (Inr (), w')"
    by (simp add: sample_steps resetActiveNamespace_def run_eval store_eval s3_eval action_eval sampleWorld_def DropBucket_def
        DeleteBucket_def DeleteBranchDurable_def clearActiveMarkers_def ClearBranchMigratedForKey_def ClearActiveBranch_def
        isNotFound_def noSuchBucket_def)
  then obtain w' where run: "resetActiveNamespace sample_env (eng sampleArgs) 1 7 ''app'' sampleWorld = (Inr (), w')" by blast
  show ?thesis using reset_clears [OF sample_engine sample_alone m(1,3) run] run by (auto simp: Let_def)
qed

text \<open>
  C6: Saving never changes the active namespace.  A save that reports a durable copy and no reason to skip has
  copied the active data into it, and when the marker is sound a save skipped because nothing
  changed leaves a durable copy that already holds the active data.
\<close>

theorem save_captures:
  assumes laws: "watermark_driver (drv E) content token" and "alone (store w)"
    and m: "markerOf i active (tables (store w)) = Some m" "ab_branch m \<noteq> []" and c: "content (engine w) active = Some c"
    and ne: "engDurable env E active (ab_branch m) \<noteq> active"
    and sound: "ab_clean m \<Longrightarrow> ab_watermark m \<noteq> [] \<Longrightarrow> token (engine w) active = ab_watermark m \<Longrightarrow>
      content (engine w) (engDurable env E active (ab_branch m)) \<in> {None, Some c}"
    and run: "saveActiveNamespace env E repo i active w = (r, w')"
  shows "content (engine w') active = Some c \<and>
    (\<forall>s. r = Inr s \<longrightarrow> sv_branch s = ab_branch m \<and> sv_durable s = engDurable env E active (ab_branch m) \<and>
       content (engine w') (engDurable env E active (ab_branch m)) = Some c)"
proof -
  let ?dur = "engDurable env E active (ab_branch m)"
  note D = watermark_driver.axioms(1) [OF laws]
  obtain x w1 where q: "onStore (GetActiveBranch i active) w = (x, w1)" by force
  note w1 = onStore_read [OF assms(2) q [unfolded GetActiveBranch_def]]
  obtain z w2 where ex: "onEngine (nsExists (drv E) active) w1 = (z, w2)" by force
  note w2 = ns_driver.exists_frame0 [OF D ex]
  have t2: "token (engine w2) = token (engine w)"
    using ex w1 watermark_driver.exists_same [OF laws] by (auto simp: ns_driver.onEngine_result [OF D])
  have c2: "content (engine w2) = content (engine w)" "alone (store w2)" "tables (store w2) = tables (store w)"
    using w1 w2 by auto
  consider (early) e where "r = Inl e" "content (engine w') = content (engine w)"
    | (late) "saveTail env E repo i active (ab_branch m) w2 = (r, w')"
  proof (cases x)
    case (Inl e)
    then show thesis using early run q w1 by (auto simp: saveActiveNamespace_def Let_def bindA_def)
  next
    case (Inr y)
    then have y: "y = Some (ab_branch m)" using w1 m by simp
    show thesis
    proof (cases z)
      case z: (Inl e)
      then show thesis using early run q Inr y ex m w1 c2 by (auto simp: saveActiveNamespace_def Let_def bindA_def)
    next
      case z: (Inr b)
      then have "b" using ns_driver.exists_True [OF D, of active w1 b w2] ex w1 c by simp
      then show thesis
        using late run q Inr y ex z m
        by (simp add: saveActiveNamespace_def saveTail_def Let_def bindA_def [of "onStore (GetActiveBranch i active)"]
            bindA_def [of "onEngine (nsExists (drv E) active)"])
    qed
  qed
  then show ?thesis
  proof cases
    case early
    then show ?thesis using c by simp
  next
    case late
    then show ?thesis using saveTail_captures [OF laws c2(2) _ _ ne _ late] m c sound c2 t2 by simp
  qed
qed

theorem save_captures_witness:
  "\<exists>s w'. saveActiveNamespace sample_env (eng sampleArgs) 1 7 ''app'' sampleWorld = (Inr s, w') \<and>
     s3_content (engine w') (engDurable sample_env (eng sampleArgs) ''app'' ''main'') = Some [''k'' \<mapsto> ''v'']"
proof -
  obtain m where m: "markerOf 7 ''app'' (tables (store sampleWorld)) = Some m" "ab_branch m = ''main''" "ab_branch m \<noteq> []" "\<not> ab_clean m"
    using sample_marker sample_steps(3) by auto
  have laws: "watermark_driver (drv (eng sampleArgs)) s3_content (\<lambda>s ns. [])"
    unfolding sample_steps by (rule s3w.watermark_driver_axioms)
  have ne: "engDurable sample_env (eng sampleArgs) ''app'' (ab_branch m) \<noteq> ''app''" by (simp add: sample_engDurable)
  have main: "bsHash sample_env ''app|main'' = ''6170707c6d61696e''" by code_simp
  have "\<exists>s w'. saveActiveNamespace sample_env (eng sampleArgs) 1 7 ''app'' sampleWorld = (Inr s, w')"
    by (simp add: sample_steps sample_engDurable main saveActiveNamespace_def run_eval store_eval s3_eval action_eval sampleWorld_def)
  then obtain s w' where run: "saveActiveNamespace sample_env (eng sampleArgs) 1 7 ''app'' sampleWorld = (Inr s, w')" by blast
  have "s3_content (engine w') (engDurable sample_env (eng sampleArgs) ''app'' (ab_branch m)) = Some [''k'' \<mapsto> ''v'']"
    using save_captures [OF laws sample_alone m(1,3) sample_content ne _ run] m(4) by blast
  then show ?thesis using run unfolding m(2) by blast
qed

section \<open>Object storage\<close>

lemma deleteBatch_ok:
  "faults s = [] \<Longrightarrow> buckets s b \<noteq> None \<Longrightarrow> \<exists>s'. deleteBatch b ids s = (Inr (), s') \<and> faults s' = []"
proof (induction b ids arbitrary: s rule: deleteBatch.induct)
  case (1 b ids)
  show ?case
  proof (cases "ids = []")
    case True
    then show ?thesis using 1(2) by (simp add: deleteBatch.simps returnA_def)
  next
    case False
    obtain s1 where s1: "DeleteObjects b (take maxKeys ids) s = (Inr (), s1)" "faults s1 = []" "buckets s1 b \<noteq> None"
      using 1(2,3) by (auto simp: DeleteObjects_def request_def)
    from 1(1) [OF False s1(2,3)] show ?thesis
      using False s1(1) by (subst deleteBatch.simps) (simp add: bindA_def wrapA_def)
  qed
qed

lemma emptyBucket_ok:
  assumes "faults s = []" "buckets s b \<noteq> None"
  shows "\<exists>s'. emptyBucket b s = (Inr (), s') \<and> faults s' = []"
proof -
  have "abortMultiparts b s = (Inr (), s)"
    using assms by (auto simp: abortMultiparts_def request_def bindA_def tryA_def returnA_def)
  moreover obtain os where os: "buckets s b = Some os" using assms(2) by auto
  then have list_: "ListObjects b s = (Inr (listing os), s)" using assms(1) by (simp add: ListObjects_def request_def)
  have "\<exists>s'. emptyListed b s = (Inr (), s') \<and> faults s' = []"
    using deleteBatch_ok [OF assms, of "map fst (listing os)"] list_ assms(1)
    by (auto simp: emptyListed_def walkObjects_def bindA_def tryA_def wrapA_def returnA_def)
  ultimately show ?thesis by (auto simp: emptyBucket_def emptyObjects_def bindA_def tryA_def returnA_def)
qed

text \<open>
  A bucket copy that succeeds leaves the target with exactly the objects of the source, small ones and
  ones copied in parts, and nothing of what it held before; whatever fails, the source and every other
  bucket keep their objects.
\<close>

theorem bucket_copy_exact:
  assumes "CopyBucket src dst s = (r, s')" "src \<noteq> dst" "s3_content s src \<noteq> None"
  shows "(r = Inr () \<longrightarrow> s3_content s' dst = s3_content s src) \<and>
    (\<forall>b. b \<noteq> dst \<longrightarrow> s3_content s' b = s3_content s b)"
  using assms CopyBucket_copy [of src dst s "()" s'] keepsD [OF keeps_CopyBucket [of dst "{dst}"] assms(1)]
  by (auto simp: only_def)

theorem bucket_copy_exact_witness:
  "\<exists>s'. CopyBucket ''app'' ''copy'' (engine sampleWorld) = (Inr (), s') \<and> s3_content s' ''copy'' = Some [''k'' \<mapsto> ''v'']"
proof -
  have "\<exists>s'. CopyBucket ''app'' ''copy'' (engine sampleWorld) = (Inr (), s')"
    by (simp add: s3_eval action_eval sampleWorld_def)
  then show ?thesis using bucket_copy_exact [of "''app''" "''copy''" "engine sampleWorld"] sample_content by auto
qed

text \<open>
  The parts of a multipart copy tile the object: for every size and part size, each byte is in exactly the
  part of its offset, so the parts read one after the other give the object back, and there are as many
  parts as the size divided by the part size, rounded up.
\<close>

theorem multipart_tiles:
  assumes "0 < p"
  shows "concat (map (\<lambda>i. bytesOf (partRange (length v) p i) v) [0 ..< partCount (length v) p]) = v \<and>
    (\<forall>i < partCount (length v) p. case partRange (length v) p i of (start, stop) \<Rightarrow>
       start = i * p \<and> start \<le> stop \<and> stop < length v \<and> stop + 1 - start \<le> p \<and>
       (stop + 1 = length v \<or> stop + 1 = (i + 1) * p))"
proof -
  have "concat (map (\<lambda>i. bytesOf (partRange (length v) p i) v) [0 ..< partCount (length v) p]) = v"
    using parts_tile [OF assms order_refl, of v] partCount_covers [OF assms, of "length v"] by simp
  moreover have "case partRange (length v) p i of (start, stop) \<Rightarrow>
       start = i * p \<and> start \<le> stop \<and> stop < length v \<and> stop + 1 - start \<le> p \<and>
       (stop + 1 = length v \<or> stop + 1 = (i + 1) * p)" if "i < partCount (length v) p" for i
    using partCount_le [OF assms that] assms by (auto simp: partRange_def Let_def min_def)
  ultimately show ?thesis by blast
qed

theorem multipart_tiles_witness:
  "concat (map (\<lambda>i. bytesOf (partRange (length ''hello'') 2 i) ''hello'') [0 ..< partCount (length ''hello'') 2]) = ''hello''"
  by (rule multipart_tiles [THEN conjunct1]) simp

text \<open>
  Copying from a bucket that does not exist is not an error: with no request failing, the copy succeeds and leaves
  the target as an empty bucket, even when it held objects before.
\<close>

theorem copy_missing_source:
  assumes "faults s = []" "buckets s src = None" "src \<noteq> dst"
  shows "\<exists>s'. CopyBucket src dst s = (Inr (), s') \<and> s3_content s' dst = Some Map.empty"
proof -
  obtain s1 where s1: "EnsureBucket dst s = (Inr (), s1)" "faults s1 = []"
    using assms(1) by (cases "buckets s dst") (auto simp: EnsureBucket_def CreateBucket_def request_def bindA_def tryA_def returnA_def)
  have p1: "buckets s1 dst \<noteq> None" by (rule EnsureBucket_present [OF s1(1)])
  from emptyBucket_ok [OF s1(2) p1] obtain s2 where s2: "emptyBucket dst s1 = (Inr (), s2)" "faults s2 = []" by blast
  have "s3_content s2 src = None"
    using keepsD [OF keeps_EnsureBucket [of dst "{dst}"] s1(1)] keepsD [OF keeps_emptyBucket [of dst "{dst}"] s2(1)] assms(2,3)
    by (auto simp: only_def s3_content_def)
  then have "buckets s2 src = None" by (simp add: s3_content_def)
  then have "CopyBucket src dst s = (Inr (), s2)"
    using s1 s2 by (simp add: CopyBucket_def walkObjects_def ListObjects_def request_def bindA_def tryA_def wrapA_def returnA_def)
  then show ?thesis using emptyBucket_effect [OF s2(1) p1] by (simp add: s3_content_def)
qed

theorem copy_missing_source_witness:
  "\<exists>s'. CopyBucket ''gone'' ''app'' (engine sampleWorld) = (Inr (), s') \<and> s3_content s' ''app'' = Some Map.empty"
  by (rule copy_missing_source) (simp_all add: sampleWorld_def)

end
