(* ===== verification/SnapshotStore.thy ===== *)
theory SnapshotStore
  imports Db Engine Action "HOL-Library.Multiset"
begin

text \<open>
  The table of cached templates, \<open>internal/store/snapshots.go\<close>: recording and touching rows, the search for an
  ancestor a new build can start from, and the lists the retention sweeps work on.

  A Go map is an association list; a column of JSON text is its decoded value with a flag that says whether
  decoding succeeds, since a row that does not decode is an error for one reader and skipped by another.
  Rows that compare equal in an \<open>ORDER BY\<close> come in table order, or in reverse order for a descending scan
  of the index.
\<close>

section \<open>Model\<close>

record FileHash =
  fh_path :: string
  fh_hash :: string

type_synonym InputVector = "FileHash list"

type_synonym inputMap = "(string \<times> InputVector) list"

record SnapshotRecord =
  sn_fingerprint :: string
  sn_engine :: string
  sn_engine_version :: string
  sn_source_db :: string
  sn_template :: string
  sn_migrations_hash :: string
  sn_dump_hash :: string
  sn_lockfiles :: "(string \<times> string) list"
  sn_connection :: string
  sn_inputs :: inputMap
  sn_size :: int
  sn_created :: int
  sn_used :: int
  sn_uses :: int
  sn_repo :: int

record snapshotRow =
  row_rec :: SnapshotRecord
  row_lock_ok :: bool
  row_inputs_ok :: bool

record snapTables =
  snapshots :: "snapshotRow list"
  snap_repos :: "int list"

abbreviation fpOf :: "snapshotRow \<Rightarrow> string" where
  "fpOf r \<equiv> sn_fingerprint (row_rec r)"

abbreviation usedOf :: "snapshotRow \<Rightarrow> int" where
  "usedOf r \<equiv> sn_used (row_rec r)"

abbreviation sourceOf :: "snapshotRow \<Rightarrow> string" where
  "sourceOf r \<equiv> sn_migrations_hash (row_rec r)"

abbreviation sizeOf :: "snapshotRow \<Rightarrow> int" where
  "sizeOf r \<equiv> sn_size (row_rec r)"

definition touchRow :: "int \<Rightarrow> snapshotRow \<Rightarrow> snapshotRow" where
  "touchRow now r = r\<lparr>row_rec := (row_rec r)\<lparr>sn_used := now, sn_uses := sn_uses (row_rec r) + 1\<rparr>\<rparr>"

definition touchFp :: "string \<Rightarrow> int \<Rightarrow> snapTables \<Rightarrow> snapTables" where
  "touchFp fp now t = t\<lparr>snapshots := map (\<lambda>r. if fpOf r = fp then touchRow now r else r) (snapshots t)\<rparr>"

definition deleteFp :: "string \<Rightarrow> snapTables \<Rightarrow> snapTables" where
  "deleteFp fp t = t\<lparr>snapshots := filter (\<lambda>r. fpOf r \<noteq> fp) (snapshots t)\<rparr>"

text \<open>On a conflict the engine, the creation time and the use count of the old row stay.\<close>

fun upsertSnap :: "SnapshotRecord \<Rightarrow> snapshotRow list \<Rightarrow> snapshotRow list" where
  "upsertSnap r [] = [\<lparr>row_rec = r, row_lock_ok = True, row_inputs_ok = True\<rparr>]"
| "upsertSnap r (x # xs) =
     (if fpOf x = sn_fingerprint r then
        \<lparr>row_rec = r\<lparr>sn_engine := sn_engine (row_rec x), sn_created := sn_created (row_rec x),
                      sn_uses := sn_uses (row_rec x)\<rparr>,
         row_lock_ok = True, row_inputs_ok = True\<rparr> # xs
      else x # upsertSnap r xs)"

definition recordStmt :: "SnapshotRecord \<Rightarrow> snapTables \<Rightarrow> go_error + snapTables" where
  "recordStmt r t =
     (if sn_repo r = 0 \<or> sn_repo r \<in> set (snap_repos t) then Inr (t\<lparr>snapshots := upsertSnap r (snapshots t)\<rparr>)
      else Inl (NewError ''constraint failed: FOREIGN KEY constraint failed (787)''))"

datatype snapOp = SRecord SnapshotRecord | STouch string int | SDelete string | SRepo int | SCorrupt snapshotRow

fun applySnapOp :: "snapOp \<Rightarrow> snapTables \<Rightarrow> snapTables" where
  "applySnapOp (SRecord r) t = (case recordStmt r t of Inl e \<Rightarrow> t | Inr t' \<Rightarrow> t')"
| "applySnapOp (STouch fp now) t = touchFp fp now t"
| "applySnapOp (SDelete fp) t = deleteFp fp t"
| "applySnapOp (SRepo i) t = t\<lparr>snap_repos := i # snap_repos t\<rparr>"
| "applySnapOp (SCorrupt r) t =
     t\<lparr>snapshots := map (\<lambda>x. if fpOf x = fpOf r then x\<lparr>row_lock_ok := row_lock_ok r, row_inputs_ok := row_inputs_ok r\<rparr> else x)
       (snapshots t)\<rparr>"

type_synonym snapDB = "(snapTables, snapOp) db"

abbreviation execS :: "(snapTables \<Rightarrow> go_error + snapTables) \<Rightarrow> (snapDB, unit) action" where
  "execS stmt \<equiv> optionA (Exec applySnapOp stmt)"

abbreviation queryS :: "(snapTables \<Rightarrow> 'a) \<Rightarrow> (snapDB, 'a) action" where
  "queryS sel \<equiv> Query applySnapOp sel"

subsection \<open>Rows\<close>

definition decodeRow :: "snapshotRow \<Rightarrow> go_error + SnapshotRecord" where
  "decodeRow r =
     (if \<not> row_lock_ok r then
        Inl (Wrapf (''decode lockfile_hashes_json for '' @ fpOf r @ '': '') (NewError ''invalid character'') [])
      else if \<not> row_inputs_ok r then
        Inl (Wrapf (''decode inputs_json for '' @ fpOf r @ '': '') (NewError ''invalid character'') [])
      else Inr (row_rec r))"

definition liftResult :: "go_error + 'a \<Rightarrow> ('s, 'a) action" where
  "liftResult r = (case r of Inl e \<Rightarrow> raiseA e | Inr x \<Rightarrow> returnA x)"

definition LookupSnapshot :: "string \<Rightarrow> (snapDB, SnapshotRecord option) action" where
  "LookupSnapshot fingerprint =
     bindA (queryS (\<lambda>t. find (\<lambda>r. fpOf r = fingerprint) (snapshots t))) (\<lambda>row.
       case row of
         None \<Rightarrow> returnA None
       | Some r \<Rightarrow> bindA (liftResult (decodeRow r)) (\<lambda>rec. returnA (Some rec)))"

text \<open>The statement updates and returns the row; the connection and the repository are not among its columns.\<close>

definition LookupAndTouchSnapshot :: "string \<Rightarrow> (snapDB, SnapshotRecord option) action" where
  "LookupAndTouchSnapshot fingerprint s =
     bindA (execS (\<lambda>t. Inr (touchFp fingerprint (nowMillis s) t))) (\<lambda>_.
     bindA (readA (\<lambda>s. find (\<lambda>r. fpOf r = fingerprint) (snapshots (tables s)))) (\<lambda>row.
       case row of
         None \<Rightarrow> returnA None
       | Some r \<Rightarrow> bindA (liftResult (decodeRow r)) (\<lambda>rec. returnA (Some (rec\<lparr>sn_connection := [], sn_repo := 0\<rparr>))))) s"

definition canonicalEngine :: "string \<Rightarrow> string" where
  "canonicalEngine eng = (case Canonical eng of Some fam \<Rightarrow> label fam | None \<Rightarrow> eng)"

definition RecordSnapshot :: "SnapshotRecord \<Rightarrow> (snapDB, unit) action" where
  "RecordSnapshot r s =
     (let now = nowMillis s;
          row = r\<lparr>sn_engine := canonicalEngine (sn_engine r),
                  sn_created := (if sn_created r = 0 then now else sn_created r),
                  sn_used := (if sn_used r = 0 then now else sn_used r),
                  sn_repo := (if 0 < sn_repo r then sn_repo r else 0)\<rparr>
      in execS (recordStmt row) s)"

definition TouchSnapshot :: "string \<Rightarrow> (snapDB, unit) action" where
  "TouchSnapshot fingerprint s = execS (\<lambda>t. Inr (touchFp fingerprint (nowMillis s) t)) s"

definition DeleteSnapshot :: "string \<Rightarrow> (snapDB, unit) action" where
  "DeleteSnapshot fingerprint = execS (\<lambda>t. Inr (deleteFp fingerprint t))"

subsection \<open>Ancestors\<close>

definition CommandsHashKey :: string where
  "CommandsHashKey = ''__commands__''"

definition DumpOnlyMarkerKey :: string where
  "DumpOnlyMarkerKey = ''__dump_only__''"

definition mapStr :: "(string \<times> string) list \<Rightarrow> string \<Rightarrow> string" where
  "mapStr m k = (case map_of m k of Some v \<Rightarrow> v | None \<Rightarrow> [])"

definition vectorOf :: "inputMap \<Rightarrow> string \<Rightarrow> InputVector" where
  "vectorOf m glob = (case map_of m glob of Some v \<Rightarrow> v | None \<Rightarrow> [])"

definition vectorTotalLen :: "inputMap \<Rightarrow> nat" where
  "vectorTotalLen m = sum_list (map (\<lambda>p. length (snd p)) m)"

definition vectorsAreAncestor :: "inputMap \<Rightarrow> inputMap \<Rightarrow> bool" where
  "vectorsAreAncestor cand current =
     list_all (\<lambda>p. case map_of current (fst p) of
         None \<Rightarrow> False
       | Some curVec \<Rightarrow> length (snd p) \<le> length curVec \<and> take (length (snd p)) curVec = snd p) cand"

definition candidateRows :: "int \<Rightarrow> string \<Rightarrow> string \<Rightarrow> string \<Rightarrow> snapTables \<Rightarrow> SnapshotRecord list" where
  "candidateRows repo eng version dumpHash t =
     map (\<lambda>r. (row_rec r)\<lparr>sn_connection := [], sn_repo := 0\<rparr>)
       (filter (\<lambda>r. row_lock_ok r \<and> row_inputs_ok r \<and> mapStr (sn_lockfiles (row_rec r)) DumpOnlyMarkerKey \<noteq> ''1'')
         (filter (\<lambda>r. sn_repo (row_rec r) = repo \<and> repo \<noteq> 0 \<and> sn_engine (row_rec r) = canonicalEngine eng \<and>
                      sn_engine_version (row_rec r) = version \<and> sn_dump_hash (row_rec r) = dumpHash) (snapshots t)))"

definition candidateSnapshots :: "int \<Rightarrow> string \<Rightarrow> string \<Rightarrow> string \<Rightarrow> (snapDB, SnapshotRecord list) action" where
  "candidateSnapshots repo eng version dumpHash = queryS (candidateRows repo eng version dumpHash)"

fun ancestorLoop ::
  "string \<Rightarrow> inputMap \<Rightarrow> nat \<Rightarrow> SnapshotRecord list \<Rightarrow> SnapshotRecord option \<times> int \<Rightarrow> SnapshotRecord option \<times> int" where
  "ancestorLoop commands cur curTotal [] best = best"
| "ancestorLoop commands cur curTotal (r # rs) best =
     (if mapStr (sn_lockfiles r) CommandsHashKey \<noteq> commands then ancestorLoop commands cur curTotal rs best
      else if \<not> vectorsAreAncestor (sn_inputs r) cur then ancestorLoop commands cur curTotal rs best
      else
        let total = vectorTotalLen (sn_inputs r)
        in if curTotal \<le> total then ancestorLoop commands cur curTotal rs best
           else if snd best < int total then ancestorLoop commands cur curTotal rs (Some r, int total)
           else ancestorLoop commands cur curTotal rs best)"

definition FindAncestorSnapshot ::
  "int \<Rightarrow> string \<Rightarrow> string \<Rightarrow> string \<Rightarrow> string \<Rightarrow> inputMap \<Rightarrow> (snapDB, SnapshotRecord option) action" where
  "FindAncestorSnapshot repo eng version dumpHash commands cur =
     bindA (candidateSnapshots repo eng version dumpHash) (\<lambda>cands.
       returnA (fst (ancestorLoop commands cur (vectorTotalLen cur) cands (None, -1))))"

definition pathBase :: "string \<Rightarrow> string" where
  "pathBase p = rev (takeWhile (\<lambda>c. c \<noteq> CHR ''/'' \<and> c \<noteq> CHR 0x5C) (rev p))"

definition mergeVectorsByBasename :: "inputMap \<Rightarrow> FileHash list" where
  "mergeVectorsByBasename m =
     sort_key (\<lambda>fh. pathBase (fh_path fh)) (sort_key fh_path (concat (map snd m)))"

fun commonPrefixLen :: "'a list \<Rightarrow> 'a list \<Rightarrow> nat" where
  "commonPrefixLen (x # xs) (y # ys) = (if x = y then Suc (commonPrefixLen xs ys) else 0)"
| "commonPrefixLen _ _ = 0"

definition withoutGlobs :: "inputMap \<Rightarrow> string list \<Rightarrow> inputMap" where
  "withoutGlobs m globs = filter (\<lambda>p. fst p \<notin> set globs) m"

definition lockfilesEqual :: "inputMap \<Rightarrow> inputMap \<Rightarrow> string list \<Rightarrow> bool" where
  "lockfilesEqual a b globs = list_all (\<lambda>g. vectorOf a g = vectorOf b g) globs"

text \<open>The map from paths to hashes keeps the last entry of a path.\<close>

definition hashAt :: "FileHash list \<Rightarrow> string \<Rightarrow> string option" where
  "hashAt ledger p = map_of (rev (map (\<lambda>fh. (fh_path fh, fh_hash fh)) ledger)) p"

fun unchangedLeadLen :: "FileHash list \<Rightarrow> (string \<rightharpoonup> string) \<Rightarrow> nat" where
  "unchangedLeadLen [] cur = 0"
| "unchangedLeadLen (fh # fhs) cur = (if cur (fh_path fh) \<noteq> Some (fh_hash fh) then 0 else Suc (unchangedLeadLen fhs cur))"

definition unwindableTail :: "FileHash list \<Rightarrow> string set \<Rightarrow> bool" where
  "unwindableTail tail curNames = list_all (\<lambda>fh. pathBase (fh_path fh) \<in> curNames) tail"

text \<open>How many of its migrations a candidate keeps, when it can be rolled back at all.\<close>

definition rollbackKept :: "string \<Rightarrow> string list \<Rightarrow> inputMap \<Rightarrow> SnapshotRecord \<Rightarrow> nat option" where
  "rollbackKept commands lockfileGlobs cur r =
     (let curLedger = mergeVectorsByBasename (withoutGlobs cur lockfileGlobs);
          candLedger = mergeVectorsByBasename (withoutGlobs (sn_inputs r) lockfileGlobs);
          kept = unchangedLeadLen candLedger (hashAt curLedger)
      in if mapStr (sn_lockfiles r) CommandsHashKey \<noteq> commands then None
         else if commonPrefixLen candLedger curLedger = length candLedger \<and> lockfilesEqual (sn_inputs r) cur lockfileGlobs then None
         else if \<not> unwindableTail (drop kept candLedger) ((\<lambda>fh. pathBase (fh_path fh)) ` set curLedger) then None
         else Some kept)"

definition ledgerLen :: "string list \<Rightarrow> SnapshotRecord \<Rightarrow> nat" where
  "ledgerLen lockfileGlobs r = length (mergeVectorsByBasename (withoutGlobs (sn_inputs r) lockfileGlobs))"

fun rollbackLoop ::
  "string \<Rightarrow> string list \<Rightarrow> inputMap \<Rightarrow> SnapshotRecord list \<Rightarrow> SnapshotRecord option \<times> nat \<times> int \<Rightarrow>
     SnapshotRecord option \<times> nat \<times> int" where
  "rollbackLoop commands globs cur [] best = best"
| "rollbackLoop commands globs cur (r # rs) best =
     (case rollbackKept commands globs cur r of
        None \<Rightarrow> rollbackLoop commands globs cur rs best
      | Some kept \<Rightarrow>
          let steps = ledgerLen globs r - kept
          in case best of (b, bestSteps, bestKept) \<Rightarrow>
               if bestKept < int kept \<or> (int kept = bestKept \<and> steps < bestSteps)
               then rollbackLoop commands globs cur rs (Some r, steps, int kept)
               else rollbackLoop commands globs cur rs best)"

definition FindRollbackAncestor ::
  "int \<Rightarrow> string \<Rightarrow> string \<Rightarrow> string \<Rightarrow> string \<Rightarrow> string list \<Rightarrow> inputMap \<Rightarrow>
     (snapDB, SnapshotRecord option \<times> nat) action" where
  "FindRollbackAncestor repo eng version dumpHash commands lockfileGlobs cur =
     bindA (candidateSnapshots repo eng version dumpHash) (\<lambda>cands.
       let res = rollbackLoop commands lockfileGlobs cur cands (None, 0, -1)
       in returnA (fst res, fst (snd res)))"

subsection \<open>Eviction candidates\<close>

record SnapshotEvictionCandidate =
  ev_fingerprint :: string
  ev_engine :: string
  ev_template :: string
  ev_source :: string
  ev_connection :: string

definition candidateOf :: "snapshotRow \<Rightarrow> SnapshotEvictionCandidate" where
  "candidateOf r =
     \<lparr>ev_fingerprint = fpOf r, ev_engine = sn_engine (row_rec r), ev_template = sn_template (row_rec r),
      ev_source = sn_source_db (row_rec r), ev_connection = sn_connection (row_rec r)\<rparr>"

definition repoRows :: "int \<Rightarrow> snapTables \<Rightarrow> snapshotRow list" where
  "repoRows repo t = filter (\<lambda>r. sn_repo (row_rec r) = repo) (snapshots t)"

definition lruEvictable :: "int \<Rightarrow> nat \<Rightarrow> snapTables \<Rightarrow> snapshotRow list" where
  "lruEvictable repo keep t = drop keep (rev (sort_key usedOf (repoRows repo t)))"

definition ListLRUEvictable :: "int \<Rightarrow> nat \<Rightarrow> (snapDB, SnapshotEvictionCandidate list) action" where
  "ListLRUEvictable repo keep =
     (if keep = 0 \<or> repo = 0 then returnA [] else queryS (\<lambda>t. map candidateOf (lruEvictable repo keep t)))"

definition ListAllTemplateNames :: "(snapDB, string list) action" where
  "ListAllTemplateNames = queryS (\<lambda>t. map (\<lambda>r. sn_template (row_rec r)) (snapshots t))"

definition ListSnapshotsOlderThan :: "int \<Rightarrow> (snapDB, SnapshotEvictionCandidate list) action" where
  "ListSnapshotsOlderThan cutoff =
     queryS (\<lambda>t. map candidateOf (sort_key usedOf (filter (\<lambda>r. usedOf r < cutoff) (snapshots t))))"

definition SumSnapshotBytes :: "(snapDB, int) action" where
  "SumSnapshotBytes = queryS (\<lambda>t. sum_list (map sizeOf (snapshots t)))"

definition ListSnapshotsForRepo :: "int \<Rightarrow> (snapDB, SnapshotEvictionCandidate list) action" where
  "ListSnapshotsForRepo repo =
     (if repo = 0 then returnA [] else queryS (\<lambda>t. map candidateOf (sort_key usedOf (repoRows repo t))))"

definition newer :: "snapshotRow \<Rightarrow> snapshotRow \<Rightarrow> bool" where
  "newer s2 s \<longleftrightarrow> usedOf s < usedOf s2 \<or> (usedOf s2 = usedOf s \<and> fpOf s < fpOf s2)"

definition beyondPerSource :: "nat \<Rightarrow> snapTables \<Rightarrow> snapshotRow list" where
  "beyondPerSource keep t =
     filter (\<lambda>s. keep \<le> length (filter (\<lambda>s2. sourceOf s2 = sourceOf s \<and> newer s2 s) (snapshots t))) (snapshots t)"

definition ListSnapshotsBeyondPerSource :: "nat \<Rightarrow> (snapDB, SnapshotEvictionCandidate list) action" where
  "ListSnapshotsBeyondPerSource keep =
     (if keep = 0 then returnA []
      else queryS (\<lambda>t. map candidateOf (sort_key sourceOf (sort_key usedOf (beyondPerSource keep t)))))"

definition largestLRU :: "snapTables \<Rightarrow> snapshotRow list" where
  "largestLRU t = sort_key (\<lambda>r. - sizeOf r) (sort_key usedOf (snapshots t))"

definition ListSnapshotsLargestLRU :: "(snapDB, (SnapshotEvictionCandidate \<times> int) list) action" where
  "ListSnapshotsLargestLRU = queryS (\<lambda>t. map (\<lambda>r. (candidateOf r, sizeOf r)) (largestLRU t))"

section \<open>Lemmas\<close>

definition fps_ok :: "snapTables \<Rightarrow> bool" where
  "fps_ok t \<longleftrightarrow> distinct (map fpOf (snapshots t))"

lemma upsertSnap_keys:
  "map fpOf (upsertSnap r xs) = (if sn_fingerprint r \<in> fpOf ` set xs then map fpOf xs else map fpOf xs @ [sn_fingerprint r])"
  by (induction xs) auto

lemma fps_ok_map:
  assumes "\<And>r. fpOf (f r) = fpOf r" "fps_ok t"
  shows "fps_ok (t\<lparr>snapshots := map f (snapshots t)\<rparr>)"
proof -
  have "map fpOf (map f (snapshots t)) = map fpOf (snapshots t)" using assms(1) by (simp add: comp_def)
  then show ?thesis using assms(2) unfolding fps_ok_def snapTables.select_convs snapTables.update_convs
    by (cases t) (simp only: snapTables.select_convs snapTables.update_convs)
qed

lemma fps_ok_stmts:
  "fps_ok t \<Longrightarrow> recordStmt r t = Inr t' \<Longrightarrow> fps_ok t'" "fps_ok t \<Longrightarrow> fps_ok (touchFp fp now t)"
  "fps_ok t \<Longrightarrow> fps_ok (deleteFp fp t)" "fps_ok (t\<lparr>snap_repos := x\<rparr>) = fps_ok t"
proof -
  show "fps_ok t \<Longrightarrow> recordStmt r t = Inr t' \<Longrightarrow> fps_ok t'"
    by (auto simp: fps_ok_def recordStmt_def upsertSnap_keys split: if_splits)
  show "fps_ok t \<Longrightarrow> fps_ok (touchFp fp now t)" unfolding touchFp_def by (rule fps_ok_map) (simp_all add: touchRow_def)
qed (simp_all add: fps_ok_def deleteFp_def distinct_map_filter)

interpretation snaps: table_invariant applySnapOp fps_ok
proof
  fix t op assume ok: "fps_ok t"
  show "fps_ok (applySnapOp op t)"
  proof (cases op)
    case (SCorrupt r)
    show ?thesis unfolding SCorrupt applySnapOp.simps by (rule fps_ok_map [OF _ ok]) simp
  qed (use ok in \<open>auto simp: fps_ok_stmts split: sum.splits intro: fps_ok_stmts\<close>)
qed

lemma vectorsAreAncestor_prefix:
  "vectorsAreAncestor cand cur \<longleftrightarrow> (\<forall>(g, v) \<in> set cand. \<exists>u. map_of cur g = Some u \<and> prefix v u)"
proof -
  have "length v \<le> length u \<and> take (length v) u = v \<longleftrightarrow> prefix v u" for v u :: InputVector
    by (metis append_eq_conv_conj append_take_drop_id prefix_def prefix_length_le)
  then show ?thesis by (fastforce simp: vectorsAreAncestor_def list_all_iff split: option.splits)
qed

text \<open>A template a build can start from: same commands, every input a prefix, strictly fewer files.\<close>

definition isAncestorOf :: "string \<Rightarrow> inputMap \<Rightarrow> SnapshotRecord \<Rightarrow> bool" where
  "isAncestorOf commands cur r \<longleftrightarrow>
     mapStr (sn_lockfiles r) CommandsHashKey = commands \<and>
     (\<forall>(g, v) \<in> set (sn_inputs r). \<exists>u. map_of cur g = Some u \<and> prefix v u) \<and>
     vectorTotalLen (sn_inputs r) < vectorTotalLen cur"

definition bestAncestor :: "string \<Rightarrow> inputMap \<Rightarrow> SnapshotRecord set \<Rightarrow> SnapshotRecord option \<times> int \<Rightarrow> bool" where
  "bestAncestor commands cur P best \<longleftrightarrow>
     (case fst best of
        None \<Rightarrow> snd best = -1 \<and> (\<forall>r \<in> P. \<not> isAncestorOf commands cur r)
      | Some b \<Rightarrow> b \<in> P \<and> isAncestorOf commands cur b \<and> snd best = int (vectorTotalLen (sn_inputs b)) \<and>
          (\<forall>r \<in> P. isAncestorOf commands cur r \<longrightarrow> vectorTotalLen (sn_inputs r) \<le> vectorTotalLen (sn_inputs b)))"

lemma ancestorLoop_step:
  "ancestorLoop commands cur (vectorTotalLen cur) (r # rs) best =
     ancestorLoop commands cur (vectorTotalLen cur) rs
       (if isAncestorOf commands cur r \<and> snd best < int (vectorTotalLen (sn_inputs r))
        then (Some r, int (vectorTotalLen (sn_inputs r))) else best)"
  by (simp add: isAncestorOf_def vectorsAreAncestor_prefix [symmetric] Let_def)

lemma ancestorLoop_best:
  "bestAncestor commands cur P best \<Longrightarrow>
     bestAncestor commands cur (P \<union> set rs) (ancestorLoop commands cur (vectorTotalLen cur) rs best)"
proof (induction rs arbitrary: P best)
  case (Cons r rs)
  let ?best = "if isAncestorOf commands cur r \<and> snd best < int (vectorTotalLen (sn_inputs r))
        then (Some r, int (vectorTotalLen (sn_inputs r))) else best"
  have "bestAncestor commands cur (insert r P) ?best"
    using Cons.prems by (cases best; cases "fst best") (auto simp: bestAncestor_def)
  from Cons.IH [OF this] show ?case by (simp only: ancestorLoop_step list.set Un_insert_left Un_insert_right)
qed simp

text \<open>The same for rollbacks: the most migrations kept, then the fewest unwound.\<close>

definition bestRollback ::
  "string \<Rightarrow> string list \<Rightarrow> inputMap \<Rightarrow> SnapshotRecord set \<Rightarrow> SnapshotRecord option \<times> nat \<times> int \<Rightarrow> bool" where
  "bestRollback commands globs cur P best \<longleftrightarrow>
     (case best of
        (None, steps, kept) \<Rightarrow> steps = 0 \<and> kept = -1 \<and> (\<forall>r \<in> P. rollbackKept commands globs cur r = None)
      | (Some b, steps, kept) \<Rightarrow> b \<in> P \<and> 0 \<le> kept \<and> rollbackKept commands globs cur b = Some (nat kept) \<and>
          steps = ledgerLen globs b - nat kept \<and>
          (\<forall>r \<in> P. \<forall>k. rollbackKept commands globs cur r = Some k \<longrightarrow>
             int k < kept \<or> int k = kept \<and> steps \<le> ledgerLen globs r - k))"

lemma rollbackLoop_best:
  "bestRollback commands globs cur P best \<Longrightarrow>
     bestRollback commands globs cur (P \<union> set rs) (rollbackLoop commands globs cur rs best)"
proof (induction rs arbitrary: P best)
  case (Cons r rs)
  obtain b steps kept where best: "best = (b, steps, kept)" by (cases best) auto
  show ?case
  proof (cases "rollbackKept commands globs cur r")
    case None
    then have "bestRollback commands globs cur (insert r P) best"
      using Cons.prems best by (cases b) (auto simp: bestRollback_def)
    from Cons.IH [OF this] show ?thesis using None by simp
  next
    case (Some k)
    let ?best = "if kept < int k \<or> (int k = kept \<and> ledgerLen globs r - k < steps)
      then (Some r, ledgerLen globs r - k, int k) else best"
    have "bestRollback commands globs cur (insert r P) ?best"
      using Cons.prems best Some by (cases b) (fastforce simp: bestRollback_def)+
    from Cons.IH [OF this] have loop: "bestRollback commands globs cur (P \<union> set (r # rs)) (rollbackLoop commands globs cur rs ?best)"
      by (simp only: list.set Un_insert_left Un_insert_right)
    have "rollbackLoop commands globs cur (r # rs) best = rollbackLoop commands globs cur rs ?best"
      using Some best by (simp add: Let_def)
    then show ?thesis using loop by (simp only:)
  qed
qed simp

lemma unchangedLeadLen_le: "unchangedLeadLen fhs cur \<le> length fhs"
  by (induction fhs) auto

lemma unchangedLeadLen_take:
  "fh \<in> set (take (unchangedLeadLen fhs cur) fhs) \<Longrightarrow> cur (fh_path fh) = Some (fh_hash fh)"
  by (induction fhs) (auto split: if_splits)

lemma unchangedLeadLen_next:
  "drop (unchangedLeadLen fhs cur) fhs = fh # rest \<Longrightarrow> cur (fh_path fh) \<noteq> Some (fh_hash fh)"
  by (induction fhs) (auto split: if_splits)

text \<open>Ranks in a strict linear order.\<close>

lemma rank_count:
  fixes R :: "'a \<Rightarrow> 'a \<Rightarrow> bool"
  assumes S: "finite S" and irr: "\<And>x. \<not> R x x" and trans: "\<And>x y z. R x y \<Longrightarrow> R y z \<Longrightarrow> R x z"
    and lin: "\<And>x y. x \<in> S \<Longrightarrow> y \<in> S \<Longrightarrow> x \<noteq> y \<Longrightarrow> R x y \<or> R y x"
  shows "card {x \<in> S. card {y \<in> S. R y x} < k} = min k (card S)"
proof -
  let ?rank = "\<lambda>x. card {y \<in> S. R y x}"
  have less: "?rank x < ?rank y" if "R x y" "x \<in> S" for x y
  proof (rule psubset_card_mono)
    have "x \<in> {z \<in> S. R z y}" "x \<notin> {z \<in> S. R z x}" using that irr by auto
    moreover have "{z \<in> S. R z x} \<subseteq> {z \<in> S. R z y}" using trans that by blast
    ultimately show "{z \<in> S. R z x} \<subset> {z \<in> S. R z y}" by blast
  qed (use S in auto)
  have inj: "inj_on ?rank S"
  proof (rule inj_onI, rule ccontr)
    fix x y assume xy: "x \<in> S" "y \<in> S" "?rank x = ?rank y" "x \<noteq> y"
    then have "R x y \<or> R y x" using lin by simp
    then show False using less [of x y] less [of y x] xy by auto
  qed
  have bound: "?rank x < card S" if "x \<in> S" for x
  proof (rule psubset_card_mono [OF S])
    show "{y \<in> S. R y x} \<subset> S" using that irr by blast
  qed
  have "?rank ` S \<subseteq> {..<card S}" using bound by auto
  then have img: "?rank ` S = {..<card S}" using S inj by (intro card_subset_eq) (auto simp: card_image)
  have "?rank ` {x \<in> S. ?rank x < k} = {..<min k (card S)}"
  proof
    show "?rank ` {x \<in> S. ?rank x < k} \<subseteq> {..<min k (card S)}" using bound by auto
    show "{..<min k (card S)} \<subseteq> ?rank ` {x \<in> S. ?rank x < k}"
    proof
      fix n assume "n \<in> {..<min k (card S)}"
      then have "n \<in> ?rank ` S" "n < k" using img by auto
      then show "n \<in> ?rank ` {x \<in> S. ?rank x < k}" by auto
    qed
  qed
  then have "card (?rank ` {x \<in> S. ?rank x < k}) = min k (card S)" by simp
  moreover have "inj_on ?rank {x \<in> S. ?rank x < k}" using inj by (rule inj_on_subset) auto
  ultimately show ?thesis by (simp add: card_image)
qed

text \<open>Rows are compared by their last use, then by fingerprint: a strict linear order when fingerprints are unique.\<close>

lemma newer_irrefl: "\<not> newer r r"
  by (simp add: newer_def)

lemma newer_trans: "newer a b \<Longrightarrow> newer b c \<Longrightarrow> newer a c"
  by (auto simp: newer_def)

lemma newer_linear: "fpOf a \<noteq> fpOf b \<Longrightarrow> newer a b \<or> newer b a"
  by (auto simp: newer_def)

lemma fps_ok_inj: "fps_ok t \<Longrightarrow> inj_on fpOf (set (snapshots t)) \<and> distinct (snapshots t)"
  by (simp add: fps_ok_def distinct_map)

definition newerSiblings :: "snapTables \<Rightarrow> snapshotRow \<Rightarrow> nat" where
  "newerSiblings t r = length (filter (\<lambda>s. sourceOf s = sourceOf r \<and> newer s r) (snapshots t))"

lemma newerSiblings_card:
  assumes "fps_ok t"
  shows "newerSiblings t r = card {s \<in> {x \<in> set (snapshots t). sourceOf x = sourceOf r}. newer s r}"
proof -
  have "newerSiblings t r = card (set (filter (\<lambda>s. sourceOf s = sourceOf r \<and> newer s r) (snapshots t)))"
    unfolding newerSiblings_def using fps_ok_inj [OF assms] by (intro distinct_card [symmetric]) simp
  also have "set (filter (\<lambda>s. sourceOf s = sourceOf r \<and> newer s r) (snapshots t)) =
      {s \<in> {x \<in> set (snapshots t). sourceOf x = sourceOf r}. newer s r}" by auto
  finally show ?thesis .
qed

lemma beyondPerSource_iff:
  "r \<in> set (beyondPerSource keep t) \<longleftrightarrow> r \<in> set (snapshots t) \<and> keep \<le> newerSiblings t r"
  by (simp add: beyondPerSource_def newerSiblings_def)

lemma kept_count:
  assumes ok: "fps_ok t"
  shows "card {r \<in> set (snapshots t). sourceOf r = h \<and> r \<notin> set (beyondPerSource keep t)} =
    min keep (card {r \<in> set (snapshots t). sourceOf r = h})"
proof -
  let ?S = "{r \<in> set (snapshots t). sourceOf r = h}"
  have "{r \<in> set (snapshots t). sourceOf r = h \<and> r \<notin> set (beyondPerSource keep t)} =
      {r \<in> ?S. card {s \<in> ?S. newer s r} < keep}"
    by (auto simp: beyondPerSource_iff newerSiblings_card [OF ok])
  moreover have "card {r \<in> ?S. card {s \<in> ?S. newer s r} < keep} = min keep (card ?S)"
  proof (rule rank_count)
    show "newer a b \<or> newer b a" if "a \<in> ?S" "b \<in> ?S" "a \<noteq> b" for a b
      using that fps_ok_inj [OF ok] by (intro newer_linear) (auto dest: inj_onD)
  qed (auto intro: newer_trans simp: newer_irrefl)
  ultimately show ?thesis by simp
qed

lemma kept_newer:
  assumes ok: "fps_ok t" and evicted: "e \<in> set (beyondPerSource keep t)"
    and kept: "r \<in> set (snapshots t)" "r \<notin> set (beyondPerSource keep t)" and src: "sourceOf r = sourceOf e"
  shows "newer r e"
proof (rule ccontr)
  assume not_newer: "\<not> newer r e"
  have e: "e \<in> set (snapshots t)" using evicted by (simp add: beyondPerSource_iff)
  have "r \<noteq> e" using evicted kept by auto
  then have "fpOf r \<noteq> fpOf e" using fps_ok_inj [OF ok] kept(1) e by (auto dest: inj_onD)
  then have "newer e r" using newer_linear not_newer by blast
  then have "newerSiblings t e \<le> newerSiblings t r"
    unfolding newerSiblings_card [OF ok] using newer_trans src by (intro card_mono) auto
  then show False using evicted kept by (simp add: beyondPerSource_iff)
qed

lemma candidateOf_fp [simp]: "ev_fingerprint (candidateOf r) = fpOf r"
  by (simp add: candidateOf_def)

text \<open>A candidate is one row: its fingerprint names it.\<close>

lemma candidate_row:
  assumes "fps_ok t" "set rows \<subseteq> set (snapshots t)" "r \<in> set (snapshots t)"
  shows "fpOf r \<in> ev_fingerprint ` candidateOf ` set rows \<longleftrightarrow> r \<in> set rows"
  using assms fps_ok_inj [OF assms(1)] by (auto simp: image_iff dest: inj_onD)

lemma queryS_quiet: "quiet s \<Longrightarrow> \<exists>s'. queryS sel s = (Inr (sel (tables s)), s') \<and> quiet s' \<and> tables s' = tables s"
  by (rule Query_quiet)

text \<open>What a rollback ancestor promises: the files kept have their current hashes, and every file unwound still has its name.\<close>

abbreviation candLedger :: "string list \<Rightarrow> SnapshotRecord \<Rightarrow> FileHash list" where
  "candLedger globs r \<equiv> mergeVectorsByBasename (withoutGlobs (sn_inputs r) globs)"

definition canUnwind :: "string \<Rightarrow> string list \<Rightarrow> inputMap \<Rightarrow> SnapshotRecord \<Rightarrow> nat \<Rightarrow> bool" where
  "canUnwind commands globs cur r kept \<longleftrightarrow>
     (let curLedger = mergeVectorsByBasename (withoutGlobs cur globs) in
      mapStr (sn_lockfiles r) CommandsHashKey = commands \<and> kept \<le> ledgerLen globs r \<and>
      (\<forall>fh \<in> set (take kept (candLedger globs r)). hashAt curLedger (fh_path fh) = Some (fh_hash fh)) \<and>
      (\<forall>fh \<in> set (drop kept (candLedger globs r)). \<exists>f \<in> set curLedger. pathBase (fh_path f) = pathBase (fh_path fh)))"

lemma rollbackKept_unwinds:
  assumes "rollbackKept commands globs cur r = Some k"
  shows "canUnwind commands globs cur r k"
proof -
  let ?cur = "mergeVectorsByBasename (withoutGlobs cur globs)"
  from assms have "k = unchangedLeadLen (candLedger globs r) (hashAt ?cur)" "mapStr (sn_lockfiles r) CommandsHashKey = commands"
    "unwindableTail (drop k (candLedger globs r)) ((\<lambda>fh. pathBase (fh_path fh)) ` set ?cur)"
    by (auto simp: rollbackKept_def Let_def split: if_splits)
  then show ?thesis
    by (fastforce simp: canUnwind_def Let_def ledgerLen_def unwindableTail_def list_all_iff image_iff
        dest: unchangedLeadLen_take intro: unchangedLeadLen_le)
qed

definition sampleSnap :: "string \<Rightarrow> string \<Rightarrow> int \<Rightarrow> nat \<Rightarrow> snapshotRow" where
  "sampleSnap fp src used n =
     \<lparr>row_rec = \<lparr>sn_fingerprint = fp, sn_engine = ''mysql'', sn_engine_version = ''8'', sn_source_db = ''app'',
        sn_template = ''_tm_'' @ fp, sn_migrations_hash = src, sn_dump_hash = [], sn_lockfiles = [],
        sn_connection = [], sn_inputs = [(''m/*.sql'', take n [\<lparr>fh_path = ''m/1'', fh_hash = ''a''\<rparr>, \<lparr>fh_path = ''m/2'', fh_hash = ''b''\<rparr>])],
        sn_size = 10 * used, sn_created = 0, sn_used = used, sn_uses = 1, sn_repo = 1\<rparr>,
      row_lock_ok = True, row_inputs_ok = True\<rparr>"

definition sampleSnapDB :: snapDB where
  "sampleSnapDB =
     \<lparr>tables = \<lparr>snapshots = [sampleSnap ''f1'' ''h'' 1 1, sampleSnap ''f2'' ''h'' 2 2, sampleSnap ''f3'' ''h'' 3 1], snap_repos = [1]\<rparr>,
      clock = 5, script = []\<rparr>"

definition sampleInputs :: inputMap where
  "sampleInputs = [(''m/*.sql'', [\<lparr>fh_path = ''m/1'', fh_hash = ''a''\<rparr>, \<lparr>fh_path = ''m/2'', fh_hash = ''b''\<rparr>, \<lparr>fh_path = ''m/3'', fh_hash = ''c''\<rparr>])]"

definition changedInputs :: inputMap where
  "changedInputs = [(''m/*.sql'', [\<lparr>fh_path = ''m/1'', fh_hash = ''a''\<rparr>, \<lparr>fh_path = ''m/2'', fh_hash = ''x''\<rparr>])]"

lemma sample_quiet: "quiet sampleSnapDB"
  by (simp add: sampleSnapDB_def quiet_def)

lemma sample_fps: "fps_ok (tables sampleSnapDB)"
  by (simp add: sampleSnapDB_def fps_ok_def sampleSnap_def)

section \<open>Properties\<close>

text \<open>
  C34: On a database nobody else writes to, \<open>FindAncestorSnapshot\<close> returns a template whose recorded inputs are,
  glob by glob, prefixes of the current ones with strictly fewer files in total and the same commands, and
  none with that property has more files; it returns nothing exactly when there is none.
\<close>

theorem find_ancestor_longest:
  assumes "quiet s"
  shows "\<exists>res s'. FindAncestorSnapshot repo fam version dumpHash commands cur s = (Inr res, s') \<and> tables s' = tables s \<and>
    (case res of
       None \<Rightarrow> \<forall>r \<in> set (candidateRows repo fam version dumpHash (tables s)). \<not> isAncestorOf commands cur r
     | Some b \<Rightarrow> b \<in> set (candidateRows repo fam version dumpHash (tables s)) \<and> isAncestorOf commands cur b \<and>
         (\<forall>r \<in> set (candidateRows repo fam version dumpHash (tables s)).
            isAncestorOf commands cur r \<longrightarrow> vectorTotalLen (sn_inputs r) \<le> vectorTotalLen (sn_inputs b)))"
proof -
  let ?c = "candidateRows repo fam version dumpHash (tables s)"
  let ?best = "ancestorLoop commands cur (vectorTotalLen cur) ?c (None, -1)"
  obtain s' where "queryS (candidateRows repo fam version dumpHash) s = (Inr ?c, s')" "tables s' = tables s"
    using queryS_quiet [OF assms] by metis
  then have run: "FindAncestorSnapshot repo fam version dumpHash commands cur s = (Inr (fst ?best), s')"
    by (simp add: FindAncestorSnapshot_def candidateSnapshots_def bindA_def returnA_def)
  have "bestAncestor commands cur ({} \<union> set ?c) ?best" by (rule ancestorLoop_best) (simp add: bestAncestor_def)
  then show ?thesis using run \<open>tables s' = tables s\<close> by (auto simp: bestAncestor_def split: option.splits)
qed

theorem find_ancestor_longest_witness:
  "quiet sampleSnapDB \<and>
   (\<exists>res s'. FindAncestorSnapshot 1 ''mysql'' ''8'' [] [] sampleInputs sampleSnapDB = (Inr res, s') \<and>
     map_option sn_fingerprint res = Some ''f2'' \<and> tables s' = tables sampleSnapDB)"
proof -
  obtain res s' where run: "FindAncestorSnapshot 1 ''mysql'' ''8'' [] [] sampleInputs sampleSnapDB = (Inr res, s')"
    and t: "tables s' = tables sampleSnapDB"
    using find_ancestor_longest [OF sample_quiet] by blast
  have "map_option (map_option sn_fingerprint) (case fst (FindAncestorSnapshot 1 ''mysql'' ''8'' [] [] sampleInputs sampleSnapDB) of
      Inl e \<Rightarrow> None | Inr x \<Rightarrow> Some x) = Some (Some ''f2'')" by code_simp
  then show ?thesis using run t sample_quiet by simp
qed

text \<open>
  On a database nobody else writes to, \<open>FindRollbackAncestor\<close> returns a template that keeps as many leading
  migrations as any candidate does and, among those, unwinds the fewest; the migrations it keeps are
  unchanged, every migration it unwinds still exists under its file name, and the step count is their number.
  It returns nothing, with zero steps, exactly when no candidate can be rolled back.
\<close>

theorem rollback_ancestor_best:
  assumes "quiet s"
  shows "\<exists>res steps s'. FindRollbackAncestor repo fam version dumpHash commands globs cur s = (Inr (res, steps), s') \<and>
    tables s' = tables s \<and>
    (case res of
       None \<Rightarrow> steps = 0 \<and>
         (\<forall>r \<in> set (candidateRows repo fam version dumpHash (tables s)). rollbackKept commands globs cur r = None)
     | Some b \<Rightarrow> b \<in> set (candidateRows repo fam version dumpHash (tables s)) \<and>
         (\<exists>kept. rollbackKept commands globs cur b = Some kept \<and> canUnwind commands globs cur b kept \<and>
            steps = ledgerLen globs b - kept \<and>
            (\<forall>r \<in> set (candidateRows repo fam version dumpHash (tables s)). \<forall>k.
               rollbackKept commands globs cur r = Some k \<longrightarrow>
               k < kept \<or> k = kept \<and> steps \<le> ledgerLen globs r - k)))"
proof -
  let ?c = "candidateRows repo fam version dumpHash (tables s)"
  obtain s' where q: "queryS (candidateRows repo fam version dumpHash) s = (Inr ?c, s')" "tables s' = tables s"
    using queryS_quiet [OF assms] by metis
  obtain b steps kept where loop: "rollbackLoop commands globs cur ?c (None, 0, -1) = (b, steps, kept)"
    by (metis prod_cases3)
  have run: "FindRollbackAncestor repo fam version dumpHash commands globs cur s = (Inr (b, steps), s')"
    using q loop by (simp add: FindRollbackAncestor_def candidateSnapshots_def bindA_def returnA_def Let_def)
  have "bestRollback commands globs cur ({} \<union> set ?c) (rollbackLoop commands globs cur ?c (None, 0, -1))"
    by (rule rollbackLoop_best) (simp add: bestRollback_def)
  then have best: "bestRollback commands globs cur (set ?c) (b, steps, kept)" using loop by simp
  show ?thesis
  proof (cases b)
    case None
    then show ?thesis using best run q(2) by (auto simp: bestRollback_def)
  next
    case (Some r)
    then have "rollbackKept commands globs cur r = Some (nat kept)" "0 \<le> kept" using best by (auto simp: bestRollback_def)
    then show ?thesis using best run q(2) Some rollbackKept_unwinds by (fastforce simp: bestRollback_def)
  qed
qed

theorem rollback_ancestor_best_witness:
  "quiet sampleSnapDB \<and>
   (\<exists>b s'. FindRollbackAncestor 1 ''mysql'' ''8'' [] [] [] changedInputs sampleSnapDB = (Inr (Some b, 1), s') \<and>
     sn_fingerprint b = ''f2'' \<and> canUnwind [] [] changedInputs b 1)"
proof -
  let ?run = "FindRollbackAncestor 1 ''mysql'' ''8'' [] [] [] changedInputs sampleSnapDB"
  have "(case fst ?run of Inl e \<Rightarrow> None | Inr (x, n) \<Rightarrow>
      map_option (\<lambda>b. (sn_fingerprint b, n, rollbackKept [] [] changedInputs b)) x) = Some (''f2'', 1, Some 1)"
    by code_simp
  then obtain b s' where run: "?run = (Inr (Some b, 1), s')" and b: "sn_fingerprint b = ''f2''" "rollbackKept [] [] changedInputs b = Some 1"
    by (cases ?run) (auto split: sum.splits)
  have "canUnwind [] [] changedInputs b 1"
    using rollback_ancestor_best [OF sample_quiet, of 1 "''mysql''" "''8''" "[]" "[]" "[]" changedInputs] run b(2) by auto
  then show ?thesis using run b sample_quiet by auto
qed

text \<open>
  The per-source sweep leaves, for every source, exactly as many templates as the limit allows (all of them
  if there are fewer), and each one it leaves was used more recently than each one it evicts.
\<close>

theorem per_source_retention:
  assumes "quiet s" "fps_ok (tables s)" "0 < keep"
  shows "\<exists>cands s'. ListSnapshotsBeyondPerSource keep s = (Inr cands, s') \<and> tables s' = tables s \<and>
    (let rows = set (snapshots (tables s)); evicted = {r \<in> rows. fpOf r \<in> ev_fingerprint ` set cands} in
     (\<forall>h. card {r \<in> rows - evicted. sourceOf r = h} = min keep (card {r \<in> rows. sourceOf r = h})) \<and>
     (\<forall>r \<in> rows - evicted. \<forall>e \<in> evicted. sourceOf r = sourceOf e \<longrightarrow> newer r e))"
proof -
  let ?rows = "snapshots (tables s)"
  let ?b = "beyondPerSource keep (tables s)"
  let ?cands = "map candidateOf (sort_key sourceOf (sort_key usedOf ?b))"
  obtain s' where run: "ListSnapshotsBeyondPerSource keep s = (Inr ?cands, s')" "tables s' = tables s"
    using queryS_quiet [OF assms(1), of "\<lambda>t. map candidateOf (sort_key sourceOf (sort_key usedOf (beyondPerSource keep t)))"] assms(3)
    by (auto simp: ListSnapshotsBeyondPerSource_def)
  have b: "set ?b \<subseteq> set ?rows" by (auto simp: beyondPerSource_def)
  have evicted: "{r \<in> set ?rows. fpOf r \<in> ev_fingerprint ` set ?cands} = set ?b"
    using candidate_row [OF assms(2) b] b by auto
  have "{r \<in> set ?rows - set ?b. sourceOf r = h} = {r \<in> set ?rows. sourceOf r = h \<and> r \<notin> set ?b}" for h
    by auto
  then have "card {r \<in> set ?rows - set ?b. sourceOf r = h} = min keep (card {r \<in> set ?rows. sourceOf r = h})" for h
    using kept_count [OF assms(2)] by simp
  moreover have "newer r e" if "r \<in> set ?rows - set ?b" "e \<in> set ?b" "sourceOf r = sourceOf e" for r e
    using kept_newer [OF assms(2)] that by auto
  ultimately have "let rows = set ?rows; evicted = {r \<in> rows. fpOf r \<in> ev_fingerprint ` set ?cands} in
     (\<forall>h. card {r \<in> rows - evicted. sourceOf r = h} = min keep (card {r \<in> rows. sourceOf r = h})) \<and>
     (\<forall>r \<in> rows - evicted. \<forall>e \<in> evicted. sourceOf r = sourceOf e \<longrightarrow> newer r e)"
    unfolding Let_def evicted by blast
  then show ?thesis using run by blast
qed

theorem per_source_retention_witness:
  "quiet sampleSnapDB \<and> fps_ok (tables sampleSnapDB) \<and>
   (\<exists>cands s'. ListSnapshotsBeyondPerSource 2 sampleSnapDB = (Inr cands, s') \<and> map ev_fingerprint cands = [''f1''] \<and>
     card {r \<in> set (snapshots (tables sampleSnapDB)). fpOf r \<notin> ev_fingerprint ` set cands \<and> sourceOf r = ''h''} = 2)"
proof -
  let ?rows = "set (snapshots (tables sampleSnapDB))"
  obtain cands s' where run: "ListSnapshotsBeyondPerSource 2 sampleSnapDB = (Inr cands, s')"
    and kept: "card {r \<in> ?rows - {r \<in> ?rows. fpOf r \<in> ev_fingerprint ` set cands}. sourceOf r = ''h''} =
      min 2 (card {r \<in> ?rows. sourceOf r = ''h''})"
    using per_source_retention [OF sample_quiet sample_fps, of 2] by (auto simp: Let_def)
  have "(case fst (ListSnapshotsBeyondPerSource 2 sampleSnapDB) of Inl e \<Rightarrow> [] | Inr cs \<Rightarrow> map ev_fingerprint cs) = [''f1'']"
    by code_simp
  moreover have "{r \<in> ?rows - {r \<in> ?rows. fpOf r \<in> ev_fingerprint ` set cands}. sourceOf r = ''h''} =
      {r \<in> ?rows. fpOf r \<notin> ev_fingerprint ` set cands \<and> sourceOf r = ''h''}" by auto
  moreover have "card {r \<in> ?rows. sourceOf r = ''h''} = 3"
  proof -
    have "{r \<in> ?rows. sourceOf r = ''h''} = {sampleSnap ''f1'' ''h'' 1 1, sampleSnap ''f2'' ''h'' 2 2, sampleSnap ''f3'' ''h'' 3 1}"
      by (auto simp: sampleSnapDB_def sampleSnap_def)
    then show ?thesis by (simp add: sampleSnap_def)
  qed
  ultimately show ?thesis using run kept sample_quiet sample_fps by simp
qed

end
