(* ===== verification/SnapshotKey.thy ===== *)
theory SnapshotKey
  imports Slug
begin

text \<open>
  Cache keys and template names: the key of \<open>internal/snapshot/snapshot.go\<close> with the byte stream its
  fingerprint hashes, the spare names of \<open>internal/snapshot/prewarm.go\<close>, and the name patterns of
  \<open>internal/snapshot/orphans.go\<close>.  A Go map is an association list with distinct keys; BLAKE3 is the parameter
  \<open>slug_env\<close>.
\<close>

section \<open>Model\<close>

subsection \<open>Keys\<close>

definition FormatVersion :: u32 where
  "FormatVersion = 7"

record Key =
  k_format :: u32
  k_engine :: string
  k_engine_version :: string
  k_connection :: string
  k_hash_mode :: string
  k_migrations :: string
  k_dump :: string
  k_lockfiles :: "(string \<times> string) list"

definition New :: "string \<Rightarrow> string \<Rightarrow> string \<Rightarrow> string \<Rightarrow> string \<Rightarrow> string \<Rightarrow> (string \<times> string) list \<Rightarrow> Key" where
  "New eng version conn mode migrations dump lockfiles =
     \<lparr>k_format = FormatVersion, k_engine = eng, k_engine_version = version, k_connection = conn, k_hash_mode = mode,
      k_migrations = migrations, k_dump = dump, k_lockfiles = lockfiles\<rparr>"

definition NUL :: char where
  "NUL = CHR 0x00"

text \<open>\<open>binary.LittleEndian.PutUint32\<close>; \<open>char_of\<close> keeps the low byte.\<close>

definition PutUint32 :: "u32 \<Rightarrow> string" where
  "PutUint32 w = map (\<lambda>i. char_of (unat (drop_bit (8 * i) w))) [0, 1, 2, 3]"

definition field :: "string \<Rightarrow> string" where
  "field s = s @ [NUL]"

definition keyStream :: "Key \<Rightarrow> string" where
  "keyStream k =
     (let names = sort (map fst (k_lockfiles k)) in
      PutUint32 (k_format k) @ [NUL] @
      concat (map field [k_engine k, k_engine_version k, k_connection k, k_hash_mode k, k_migrations k, k_dump k]) @
      PutUint32 (of_nat (length names)) @ [NUL] @
      concat (map (\<lambda>name. field name @ field (case map_of (k_lockfiles k) name of Some v \<Rightarrow> v | None \<Rightarrow> [])) names))"

definition Fingerprint :: "slug_env \<Rightarrow> Key \<Rightarrow> string" where
  "Fingerprint env k = hexEncode (blake3_Sum256 env (keyStream k))"

definition TemplateName :: "slug_env \<Rightarrow> Key \<Rightarrow> string" where
  "TemplateName env k = ''_tm_'' @ take 16 (Fingerprint env k)"

definition IndexPrefix :: "slug_env \<Rightarrow> Key \<Rightarrow> string" where
  "IndexPrefix env k = ''tm_'' @ take 16 (Fingerprint env k)"

subsection \<open>Spares\<close>

definition PrewarmSuffix :: string where
  "PrewarmSuffix = ''_spare''"

definition SpareName :: "string \<Rightarrow> int \<Rightarrow> string" where
  "SpareName template slot = template @ PrewarmSuffix @ Itoa slot"

text \<open>\<open>strconv.Atoi\<close>: an optional sign and decimal digits, within 64 bits.\<close>

definition Atoi :: "string \<Rightarrow> int option" where
  "Atoi s =
     (let neg = (case s of c # _ \<Rightarrow> c = CHR ''-'' | [] \<Rightarrow> False);
          ds = (case s of c # cs \<Rightarrow> if c = CHR ''-'' \<or> c = CHR ''+'' then cs else s | [] \<Rightarrow> []);
          n = (if neg then - int (digits_val ds) else int (digits_val ds))
      in if ds = [] \<or> \<not> list_all is_digit ds then None
         else if - (2 ^ 63) \<le> n \<and> n < 2 ^ 63 then Some n else None)"

definition SpareSlot :: "string \<Rightarrow> string \<Rightarrow> int option" where
  "SpareSlot name template =
     (case CutPrefix name (template @ PrewarmSuffix) of
        None \<Rightarrow> None
      | Some slot \<Rightarrow>
          if slot = [] then None
          else case Atoi slot of None \<Rightarrow> None | Some n \<Rightarrow> if n < 1 then None else Some n)"

subsection \<open>Name patterns\<close>

definition is_hex :: "char \<Rightarrow> bool" where
  "is_hex c \<longleftrightarrow> is_digit c \<or> (97::nat) \<le> of_char c \<and> of_char c \<le> (102::nat)"

text \<open>\<open>[0-9a-f]{16}\<close>: the sixteen characters and what follows them.\<close>

definition hex16 :: "string \<Rightarrow> (string \<times> string) option" where
  "hex16 s = (if length (take 16 s) = 16 \<and> list_all is_hex (take 16 s) then Some (take 16 s, drop 16 s) else None)"

text \<open>\<open>^(_tm_(?:tmpl_[a-z]+_)?[0-9a-f]{16})\<close>: group 1 and what follows it.  The two alternatives exclude each other.\<close>

definition templateHead :: "string \<Rightarrow> (string \<times> string) option" where
  "templateHead s =
     (case CutPrefix s ''_tm_'' of
        None \<Rightarrow> None
      | Some t \<Rightarrow>
          (case CutPrefix t ''tmpl_'' of
             None \<Rightarrow> map_option (\<lambda>(h, after). (''_tm_'' @ h, after)) (hex16 t)
           | Some u \<Rightarrow>
               let letters = takeWhile is_lower u
               in case dropWhile is_lower u of
                    [] \<Rightarrow> None
                  | c # v \<Rightarrow> if letters = [] \<or> c \<noteq> CHR ''_'' then None
                             else map_option (\<lambda>(h, after). (''_tm_tmpl_'' @ letters @ ''_'' @ h, after)) (hex16 v)))"

text \<open>\<open>_spare[0-9]+$\<close>\<close>

definition spareTail :: "string \<Rightarrow> bool" where
  "spareTail after = (case CutPrefix after PrewarmSuffix of None \<Rightarrow> False | Some ds \<Rightarrow> ds \<noteq> [] \<and> list_all is_digit ds)"

definition nameScopedTemplate :: "string \<Rightarrow> string option" where
  "nameScopedTemplate s =
     (case templateHead s of None \<Rightarrow> None | Some (base, after) \<Rightarrow> if after = [] \<or> spareTail after then Some base else None)"

definition spareNamePattern :: "string \<Rightarrow> string option" where
  "spareNamePattern s =
     (case templateHead s of None \<Rightarrow> None | Some (base, after) \<Rightarrow> if spareTail after then Some base else None)"

definition prefixTemplate :: "string \<Rightarrow> char \<Rightarrow> string \<Rightarrow> string option" where
  "prefixTemplate lead sep s =
     (case CutPrefix s lead of
        None \<Rightarrow> None
      | Some t \<Rightarrow>
          (case hex16 t of
             Some (h, c # _) \<Rightarrow> if c = sep then Some (lead @ h @ [sep]) else None
           | _ \<Rightarrow> None))"

definition esTemplatePrefix :: "string \<Rightarrow> string option" where
  "esTemplatePrefix = prefixTemplate ''tm_'' (CHR ''_'')"

definition redisTemplatePrefix :: "string \<Rightarrow> string option" where
  "redisTemplatePrefix = prefixTemplate ''_tm:'' (CHR '':'')"

section \<open>Lemmas\<close>

lemma length_PutUint32 [simp]: "length (PutUint32 w) = 4"
  by (simp add: PutUint32_def)

lemma byte_step: "a mod 256 = b mod 256 \<Longrightarrow> a div 256 = b div 256 \<Longrightarrow> a = (b::nat)"
  by (metis div_mult_mod_eq)

lemma bytes_inject:
  fixes m n :: nat
  assumes "m < 2 ^ 32" "n < 2 ^ 32" "m mod 256 = n mod 256" "m div 256 mod 256 = n div 256 mod 256"
    and "m div 65536 mod 256 = n div 65536 mod 256" "m div 16777216 mod 256 = n div 16777216 mod 256"
  shows "m = n"
proof -
  have div: "x div 256 div 256 = x div 65536" "x div 65536 div 256 = x div 16777216" for x :: nat
    by (simp_all add: div_mult2_eq [symmetric])
  have "m div 16777216 < 256" "n div 16777216 < 256" using assms(1,2) by (simp_all add: less_mult_imp_div_less)
  then have "m div 16777216 = n div 16777216" using assms(6) by simp
  then have "m div 65536 = n div 65536" using assms(5) byte_step [of "m div 65536" "n div 65536"] by (simp only: div)
  then have "m div 256 = n div 256" using assms(4) byte_step [of "m div 256" "n div 256"] by (simp only: div)
  then show ?thesis using assms(3) by (rule byte_step [rotated])
qed

lemma u32_bound: "unat (w :: u32) < 2 ^ 32"
  using unsigned_less [of w, where ?'a = nat] by simp

lemma PutUint32_inject:
  assumes eq: "PutUint32 v = PutUint32 w"
  shows "v = w"
proof -
  have byte: "a mod 256 = b mod 256" if "(char_of a :: char) = char_of b" for a b :: nat
    using of_char_of [of a] of_char_of [of b] that by simp
  have "unat v mod 256 = unat w mod 256" "unat v div 256 mod 256 = unat w div 256 mod 256"
    "unat v div 65536 mod 256 = unat w div 65536 mod 256" "unat v div 16777216 mod 256 = unat w div 16777216 mod 256"
    using eq by (auto simp: PutUint32_def unat_drop_bit_eq drop_bit_eq_div unat_div dest!: byte)
  then have "unat v = unat w" by (rule bytes_inject [OF u32_bound u32_bound])
  then show ?thesis by (simp only: word_unat_eq_iff)
qed

lemma field_inject:
  assumes "NUL \<notin> set a" "NUL \<notin> set b" "field a @ x = field b @ y"
  shows "a = b \<and> x = y"
  using assms by (simp add: field_def append_eq_append_conv2) (auto simp: append_eq_Cons_conv Cons_eq_append_conv)

lemma fields_inject:
  assumes "length as = length bs" "\<forall>a \<in> set as. NUL \<notin> set a" "\<forall>b \<in> set bs. NUL \<notin> set b"
    and "concat (map field as) @ x = concat (map field bs) @ y"
  shows "as = bs \<and> x = y"
  using assms
proof (induction as bs rule: list_induct2)
  case (Cons a as b bs)
  then have "field a @ (concat (map field as) @ x) = field b @ (concat (map field bs) @ y)" by simp
  moreover have "NUL \<notin> set a" "NUL \<notin> set b" using Cons.prems by auto
  ultimately have "a = b" "concat (map field as) @ x = concat (map field bs) @ y" using field_inject [of a b] by blast+
  then show ?case using Cons by simp
qed simp

text \<open>A whole stream of fields decodes, even without knowing how many there are.\<close>

lemma field_stream_inject:
  "\<forall>a \<in> set as. NUL \<notin> set a \<Longrightarrow> \<forall>b \<in> set bs. NUL \<notin> set b \<Longrightarrow> concat (map field as) = concat (map field bs) \<Longrightarrow> as = bs"
proof (induction as arbitrary: bs)
  case Nil
  then show ?case by (cases bs) (simp_all add: field_def)
next
  case (Cons a as)
  show ?case
  proof (cases bs)
    case Nil
    then show ?thesis using Cons.prems(3) by (simp add: field_def)
  next
    case (Cons b bs')
    then have "field a @ concat (map field as) = field b @ concat (map field bs')" using Cons.prems(3) by simp
    moreover have "NUL \<notin> set a" "NUL \<notin> set b" using Cons.prems(1,2) Cons by simp_all
    ultimately have "a = b \<and> concat (map field as) = concat (map field bs')" by (intro field_inject)
    then show ?thesis using Cons.IH [of bs'] Cons.prems(1,2) Cons by simp
  qed
qed

definition lockOf :: "Key \<Rightarrow> string \<Rightarrow> string" where
  "lockOf k name = (case map_of (k_lockfiles k) name of Some v \<Rightarrow> v | None \<Rightarrow> [])"

definition lockFields :: "Key \<Rightarrow> string list" where
  "lockFields k = concat (map (\<lambda>name. [name, lockOf k name]) (sort (map fst (k_lockfiles k))))"

definition scalars :: "Key \<Rightarrow> string list" where
  "scalars k = [k_engine k, k_engine_version k, k_connection k, k_hash_mode k, k_migrations k, k_dump k]"

lemma concat_pairs: "concat (concat (map (\<lambda>x. [f x, g x]) xs)) = concat (map (\<lambda>x. f x @ g x) xs)"
  by (induction xs) auto

lemma keyStream_alt:
  "keyStream k =
     PutUint32 (k_format k) @ NUL # concat (map field (scalars k)) @
     PutUint32 (of_nat (length (k_lockfiles k))) @ NUL # concat (map field (lockFields k))"
  by (simp add: keyStream_def Let_def scalars_def lockFields_def lockOf_def map_concat comp_def concat_pairs)

definition nulFree :: "Key \<Rightarrow> bool" where
  "nulFree k \<longleftrightarrow> (\<forall>a \<in> set (scalars k). NUL \<notin> set a) \<and> (\<forall>(n, v) \<in> set (k_lockfiles k). NUL \<notin> set n \<and> NUL \<notin> set v) \<and>
     distinct (map fst (k_lockfiles k))"

lemma lockFields_nul: "nulFree k \<Longrightarrow> a \<in> set (lockFields k) \<Longrightarrow> NUL \<notin> set a"
  by (fastforce simp: lockFields_def lockOf_def nulFree_def split: option.splits dest: map_of_SomeD)

lemma pairs_inject:
  "concat (map (\<lambda>n. [n, f n]) xs) = concat (map (\<lambda>n. [n, g n]) ys) \<Longrightarrow> xs = ys \<and> (\<forall>n \<in> set xs. f n = g n)"
proof (induction xs arbitrary: ys)
  case Nil
  then show ?case by (cases ys) auto
next
  case (Cons x xs)
  then show ?case by (cases ys) auto
qed

lemma map_of_lockOf: "map_of (k_lockfiles k) n = (if n \<in> set (map fst (k_lockfiles k)) then Some (lockOf k n) else None)"
  by (auto simp: lockOf_def map_of_eq_None_iff split: option.splits)

definition sameKey :: "Key \<Rightarrow> Key \<Rightarrow> bool" where
  "sameKey k k' \<longleftrightarrow> k_format k = k_format k' \<and> scalars k = scalars k' \<and> map_of (k_lockfiles k) = map_of (k_lockfiles k')"

lemma keyStream_cong:
  assumes "sameKey k k'" "distinct (map fst (k_lockfiles k))" "distinct (map fst (k_lockfiles k'))"
  shows "keyStream k = keyStream k'"
proof -
  have maps: "map_of (k_lockfiles k) = map_of (k_lockfiles k')" using assms(1) by (simp add: sameKey_def)
  then have dom: "set (map fst (k_lockfiles k)) = set (map fst (k_lockfiles k'))" by (metis dom_map_of_conv_image_fst list.set_map)
  then have "sort (map fst (k_lockfiles k)) = sort (map fst (k_lockfiles k'))"
    using assms(2,3) by (intro sorted_distinct_set_unique) auto
  moreover have "lockOf k = lockOf k'" using maps by (simp add: lockOf_def fun_eq_iff)
  moreover have "length (k_lockfiles k) = length (k_lockfiles k')"
    using dom assms(2,3) by (metis distinct_card length_map)
  ultimately show ?thesis using assms(1) by (simp add: keyStream_alt sameKey_def lockFields_def)
qed

lemma keyStream_inject:
  assumes k: "nulFree k" and k': "nulFree k'" and eq: "keyStream k = keyStream k'"
  shows "sameKey k k'"
proof -
  from eq have "PutUint32 (k_format k) = PutUint32 (k_format k')"
    and scal: "concat (map field (scalars k)) @ PutUint32 (of_nat (length (k_lockfiles k))) @ NUL # concat (map field (lockFields k)) =
      concat (map field (scalars k')) @ PutUint32 (of_nat (length (k_lockfiles k'))) @ NUL # concat (map field (lockFields k'))"
    by (simp_all add: keyStream_alt append_eq_append_conv)
  have "scalars k = scalars k' \<and> PutUint32 (of_nat (length (k_lockfiles k))) @ NUL # concat (map field (lockFields k)) =
      PutUint32 (of_nat (length (k_lockfiles k'))) @ NUL # concat (map field (lockFields k'))"
    using k k' by (intro fields_inject [OF _ _ _ scal]) (auto simp: nulFree_def scalars_def)
  then have "concat (map field (lockFields k)) = concat (map field (lockFields k'))" "scalars k = scalars k'"
    by (simp_all add: append_eq_append_conv)
  then have "lockFields k = lockFields k'" using lockFields_nul k k' by (intro field_stream_inject) auto
  then have "sort (map fst (k_lockfiles k)) = sort (map fst (k_lockfiles k')) \<and>
      (\<forall>n \<in> set (sort (map fst (k_lockfiles k))). lockOf k n = lockOf k' n)"
    unfolding lockFields_def by (rule pairs_inject)
  then have "set (map fst (k_lockfiles k)) = set (map fst (k_lockfiles k'))" "\<forall>n \<in> set (map fst (k_lockfiles k)). lockOf k n = lockOf k' n"
    by (metis set_sort)+
  then have "map_of (k_lockfiles k) = map_of (k_lockfiles k')" by (simp only: fun_eq_iff map_of_lockOf) auto
  then show ?thesis using \<open>scalars k = scalars k'\<close> \<open>PutUint32 (k_format k) = PutUint32 (k_format k')\<close>
    by (simp add: sameKey_def) (rule PutUint32_inject)
qed

lemma hex_char_is_hex: "hex_char c \<Longrightarrow> is_hex c"
  by (auto simp: hex_char_def is_hex_def is_digit_def)

lemma hex16_append: "length h = 16 \<Longrightarrow> \<forall>c \<in> set h. is_hex c \<Longrightarrow> hex16 (h @ t) = Some (h, t)"
  by (simp add: hex16_def list_all_iff)

lemma hex16_Some: "hex16 s = Some (h, t) \<Longrightarrow> s = h @ t \<and> length h = 16 \<and> (\<forall>c \<in> set h. is_hex c)"
  by (auto simp: hex16_def list_all_iff split: if_splits)

lemma CutPrefix_append [simp]: "CutPrefix (p @ r) p = Some r"
  by (simp add: CutPrefix_Some)

definition shortPrint :: "slug_env \<Rightarrow> Key \<Rightarrow> string" where
  "shortPrint env k = take 16 (Fingerprint env k)"

lemma shortPrint_hex: "blake3_ok env \<Longrightarrow> length (shortPrint env k) = 16 \<and> (\<forall>c \<in> set (shortPrint env k). is_hex c)"
  using hexEncode_hex hex_char_is_hex
  by (auto simp: shortPrint_def Fingerprint_def length_hexEncode blake3_ok_def dest!: in_set_takeD)

lemma not_tmpl:
  assumes "length h = 16" "\<forall>c \<in> set h. is_hex c"
  shows "CutPrefix (h @ t) ''tmpl_'' = None"
proof (rule ccontr)
  assume "CutPrefix (h @ t) ''tmpl_'' \<noteq> None"
  then obtain u where "h @ t = ''tmpl_'' @ u" by (auto simp: CutPrefix_Some)
  then have "hd h = CHR ''t''" using assms(1) by (cases h) auto
  moreover have "is_hex (hd h)" using assms by (cases h) auto
  ultimately show False by (simp add: is_hex_def is_digit_def)
qed

lemma templateHead_hex:
  assumes "length h = 16" "\<forall>c \<in> set h. is_hex c"
  shows "templateHead (''_tm_'' @ h @ t) = Some (''_tm_'' @ h, t)"
proof -
  have "CutPrefix (''_tm_'' @ h @ t) ''_tm_'' = Some (h @ t)" by (rule CutPrefix_append)
  then show ?thesis using not_tmpl [OF assms] hex16_append [OF assms] by (simp add: templateHead_def)
qed

lemma templateHead_template:
  assumes "blake3_ok env"
  shows "templateHead (TemplateName env k @ t) = Some (TemplateName env k, t)"
  using templateHead_hex [of "shortPrint env k" t] shortPrint_hex [OF assms, of k]
  by (simp add: TemplateName_def shortPrint_def)

lemma templateHead_Some:
  assumes "templateHead s = Some (b, t)"
  shows "s = b @ t \<and> HasPrefix b ''_tm_''"
proof -
  obtain u where u: "s = ''_tm_'' @ u" using assms by (auto simp: templateHead_def CutPrefix_Some split: option.splits)
  show ?thesis
  proof (cases "CutPrefix u ''tmpl_''")
    case None
    then have "map_option (\<lambda>(h, after). (''_tm_'' @ h, after)) (hex16 u) = Some (b, t)"
      using assms u CutPrefix_append [of "''_tm_''" u] by (simp add: templateHead_def)
    then show ?thesis using u by (auto dest!: hex16_Some simp: HasPrefix_iff)
  next
    case (Some v)
    then have v: "u = ''tmpl_'' @ v" by (simp only: CutPrefix_Some)
    obtain c w where w: "dropWhile is_lower v = c # w" "c = CHR ''_''"
      "map_option (\<lambda>(h, after). (''_tm_tmpl_'' @ takeWhile is_lower v @ ''_'' @ h, after)) (hex16 w) = Some (b, t)"
      using assms u Some CutPrefix_append [of "''_tm_''" u]
      by (auto simp: templateHead_def Let_def split: list.splits if_splits)
    have "v = takeWhile is_lower v @ CHR ''_'' # w" using w takeWhile_dropWhile_id [of is_lower v] by simp
    then show ?thesis using u v w(3) by (auto dest!: hex16_Some simp: HasPrefix_iff)
  qed
qed

lemma Atoi_Itoa:
  assumes "0 \<le> n" "n < 2 ^ 63"
  shows "Atoi (Itoa n) = Some n"
proof -
  let ?ds = "nat_digits (nat n)"
  have itoa: "Itoa n = ?ds" using assms(1) by (simp add: Itoa_def)
  obtain d ds where cons: "?ds = d # ds" using nat_digits_nonempty by (cases ?ds) blast+
  have dig: "\<forall>c \<in> set ?ds. is_digit c" by (rule nat_digits_is_digit)
  have "d \<noteq> CHR ''-''" "d \<noteq> CHR ''+''" using dig cons by (auto simp: is_digit_def)
  moreover have "int (digits_val (d # ds)) = n" using assms(1) digits_val_nat_digits [of "nat n"] cons by simp
  ultimately show ?thesis using assms dig cons unfolding itoa cons by (simp add: Atoi_def Let_def list_all_iff)
qed

lemma spareTail_Itoa: "0 \<le> n \<Longrightarrow> spareTail (PrewarmSuffix @ Itoa n)"
  using nat_digits_is_digit by (simp add: spareTail_def Itoa_def list_all_iff)

definition sampleKey :: Key where
  "sampleKey = New ''mysql'' ''8.0'' [] ''content'' ''ab'' [] [(''composer.lock'', ''cd'')]"

section \<open>Properties\<close>

text \<open>
  C35: The byte stream a fingerprint hashes determines the key: for keys whose fields hold no NUL byte, two
  streams are equal exactly when the format version, the six text fields and the map of lockfile hashes are;
  the order in which the map is iterated does not matter.
\<close>

theorem key_stream_faithful:
  assumes "nulFree k" "nulFree k'"
  shows "keyStream k = keyStream k' \<longleftrightarrow> sameKey k k'"
  using keyStream_inject [OF assms] keyStream_cong [of k k'] assms by (auto simp: nulFree_def)

theorem key_stream_faithful_witness:
  "nulFree sampleKey \<and> keyStream sampleKey \<noteq> keyStream (sampleKey\<lparr>k_connection := ''b''\<rparr>)"
proof -
  have "nulFree sampleKey" "nulFree (sampleKey\<lparr>k_connection := ''b''\<rparr>)"
    by (simp_all add: nulFree_def scalars_def sampleKey_def New_def NUL_def)
  moreover have "\<not> sameKey sampleKey (sampleKey\<lparr>k_connection := ''b''\<rparr>)"
    by (simp add: sameKey_def scalars_def sampleKey_def New_def)
  ultimately show ?thesis using key_stream_faithful by simp
qed

text \<open>
  Spare names round-trip: the slot of a spare's name is the slot it was made with, and the orphan probe
  folds a template and each of its spares into the template's own name; a name the probe takes is such a
  template name, or one followed by \<open>_spare\<close> and digits.
\<close>

theorem spare_names_roundtrip:
  assumes "blake3_ok env" "1 \<le> n" "n < 2 ^ 63"
  shows "SpareSlot (SpareName (TemplateName env k) n) (TemplateName env k) = Some n \<and>
    nameScopedTemplate (TemplateName env k) = Some (TemplateName env k) \<and>
    nameScopedTemplate (SpareName (TemplateName env k) n) = Some (TemplateName env k) \<and>
    (\<forall>s b. nameScopedTemplate s = Some b \<longrightarrow>
       HasPrefix s ''_tm_'' \<and> (s = b \<or> (\<exists>ds. s = b @ PrewarmSuffix @ ds \<and> ds \<noteq> [] \<and> (\<forall>c \<in> set ds. is_digit c))))"
proof (intro conjI allI impI)
  have "CutPrefix (SpareName t n) (t @ PrewarmSuffix) = Some (Itoa n)" for t
    using CutPrefix_append [of "t @ PrewarmSuffix" "Itoa n"] by (simp add: SpareName_def)
  moreover have "Itoa n \<noteq> []" using assms by (simp add: Itoa_def)
  ultimately show "SpareSlot (SpareName (TemplateName env k) n) (TemplateName env k) = Some n"
    using assms by (simp add: SpareSlot_def Atoi_Itoa)
  show "nameScopedTemplate (TemplateName env k) = Some (TemplateName env k)"
    using templateHead_template [OF assms(1), of k "[]"] by (simp add: nameScopedTemplate_def)
  show "nameScopedTemplate (SpareName (TemplateName env k) n) = Some (TemplateName env k)"
    using templateHead_template [OF assms(1), of k "PrewarmSuffix @ Itoa n"] spareTail_Itoa [of n] assms
    by (simp add: nameScopedTemplate_def SpareName_def)
next
  fix s b assume "nameScopedTemplate s = Some b"
  then obtain t where "templateHead s = Some (b, t)" "t = [] \<or> spareTail t"
    by (auto simp: nameScopedTemplate_def split: option.splits prod.splits if_splits)
  then show "HasPrefix s ''_tm_''" "s = b \<or> (\<exists>ds. s = b @ PrewarmSuffix @ ds \<and> ds \<noteq> [] \<and> (\<forall>c \<in> set ds. is_digit c))"
    by (auto simp: spareTail_def list_all_iff CutPrefix_Some HasPrefix_iff split: option.splits dest!: templateHead_Some)
qed

theorem spare_names_roundtrip_witness:
  "blake3_ok sample_env \<and> SpareSlot (SpareName (TemplateName sample_env sampleKey) 3) (TemplateName sample_env sampleKey) = Some 3"
  using spare_names_roundtrip [OF sample_env_ok, of 3 sampleKey] sample_env_ok by simp

end
