(* ===== verification/FileDb.thy ===== *)
theory FileDb
  imports Action Slug
begin

text \<open>
  The file-backed engines: \<open>internal/db/filedb/filedb.go\<close> and the connection view
  \<open>internal/db/engineconn/fileconn.go\<close>, over a file system whose next calls may fail.

  A path is a string with \<open>/\<close> as its separator, a directory is in \<open>fs_dirs\<close>, and a regular file has its bytes
  in \<open>fs_files\<close>.  Every call first consumes an entry of \<open>fs_faults\<close>: \<open>Some e\<close> makes it fail with
  the message \<open>e\<close>, an error other than that of a missing file.
\<close>

section \<open>Model\<close>

subsection \<open>Paths\<close>

definition SLASH :: char where
  "SLASH = CHR ''/''"

fun splitSlash :: "string \<Rightarrow> string list" where
  "splitSlash [] = [[]]"
| "splitSlash (c # cs) =
     (if c = SLASH then [] # splitSlash cs
      else case splitSlash cs of [] \<Rightarrow> [[c]] | w # ws \<Rightarrow> (c # w) # ws)"

fun joinSlash :: "string list \<Rightarrow> string" where
  "joinSlash [] = []"
| "joinSlash [w] = w"
| "joinSlash (w # ws) = w @ SLASH # joinSlash ws"

definition IsAbs :: "string \<Rightarrow> bool" where
  "IsAbs p \<longleftrightarrow> (case p of c # _ \<Rightarrow> c = SLASH | [] \<Rightarrow> False)"

text \<open>\<open>filepath.Clean\<close>, with the elements kept so far in reverse.\<close>

fun cleanElems :: "bool \<Rightarrow> string list \<Rightarrow> string list \<Rightarrow> string list" where
  "cleanElems rooted kept [] = rev kept"
| "cleanElems rooted kept (w # ws) =
     (if w = [] \<or> w = ''.'' then cleanElems rooted kept ws
      else if w = ''..'' then
        (case kept of
           [] \<Rightarrow> cleanElems rooted (if rooted then [] else [''..'']) ws
         | k # ks \<Rightarrow> if k = ''..'' then cleanElems rooted (''..'' # kept) ws else cleanElems rooted ks ws)
      else cleanElems rooted (w # kept) ws)"

definition Clean :: "string \<Rightarrow> string" where
  "Clean p =
     (let rooted = IsAbs p; body = joinSlash (cleanElems rooted [] (splitSlash p))
      in if rooted then SLASH # body else if body = [] then ''.'' else body)"

definition Join2 :: "string \<Rightarrow> string \<Rightarrow> string" where
  "Join2 a b = (if a = [] \<and> b = [] then [] else Clean (joinSlash (filter (\<lambda>w. w \<noteq> []) [a, b])))"

text \<open>\<open>filepath.Dir\<close> and \<open>filepath.Ext\<close>\<close>

definition lastElem :: "string \<Rightarrow> string" where
  "lastElem p = rev (takeWhile (\<lambda>c. c \<noteq> SLASH) (rev p))"

definition Dir :: "string \<Rightarrow> string" where
  "Dir p = Clean (take (length p - length (lastElem p)) p)"

definition Ext :: "string \<Rightarrow> string" where
  "Ext p =
     (let e = lastElem p; t = rev (takeWhile (\<lambda>c. c \<noteq> CHR ''.'') (rev e))
      in if CHR ''.'' \<in> set e then CHR ''.'' # t else [])"

definition TrimSuffix :: "string \<Rightarrow> string \<Rightarrow> string" where
  "TrimSuffix s suf = (if HasSuffix s suf then take (length s - length suf) s else s)"

text \<open>\<open>%q\<close> on printable text without quotes and backslashes.\<close>

definition quoted :: "string \<Rightarrow> string" where
  "quoted s = CHR 0x22 # s @ [CHR 0x22]"

subsection \<open>File system\<close>

record fs =
  fs_files :: "(string \<times> string) list"
  fs_dirs :: "string list"
  fs_faults :: "string option list"

definition ErrNotExist :: go_error where
  "ErrNotExist = NewError ''no such file or directory''"

definition IsNotExist :: "go_error \<Rightarrow> bool" where
  "IsNotExist e \<longleftrightarrow> e = ErrNotExist"

definition syscall :: "(fs, 'a) action \<Rightarrow> (fs, 'a) action" where
  "syscall m s =
     (case fs_faults s of
        [] \<Rightarrow> m s
      | Some e # fl \<Rightarrow> (Inl (Wrapf [] (NewError e) []), s\<lparr>fs_faults := fl\<rparr>)
      | None # fl \<Rightarrow> m (s\<lparr>fs_faults := fl\<rparr>))"

definition fileAt :: "fs \<Rightarrow> string \<Rightarrow> string option" where
  "fileAt s p = map_of (fs_files s) p"

definition setFile :: "string \<Rightarrow> string \<Rightarrow> fs \<Rightarrow> fs" where
  "setFile p bytes s = s\<lparr>fs_files := (p, bytes) # filter (\<lambda>f. fst f \<noteq> p) (fs_files s)\<rparr>"

definition unsetFile :: "string \<Rightarrow> fs \<Rightarrow> fs" where
  "unsetFile p s = s\<lparr>fs_files := filter (\<lambda>f. fst f \<noteq> p) (fs_files s)\<rparr>"

text \<open>\<open>os.Stat\<close>: the size of a regular file, nothing for a directory.\<close>

definition Stat :: "string \<Rightarrow> (fs, nat option) action" where
  "Stat p = syscall (\<lambda>s.
     case fileAt s p of
       Some bytes \<Rightarrow> (Inr (Some (length bytes)), s)
     | None \<Rightarrow> if p \<in> set (fs_dirs s) then (Inr None, s) else (Inl ErrNotExist, s))"

definition childrenOf :: "fs \<Rightarrow> string \<Rightarrow> string list" where
  "childrenOf s dir = sort (map lastElem (filter (\<lambda>p. Dir p = dir \<and> p \<noteq> dir) (map fst (fs_files s) @ fs_dirs s)))"

definition Remove :: "string \<Rightarrow> (fs, unit) action" where
  "Remove p = syscall (\<lambda>s.
     if fileAt s p \<noteq> None then (Inr (), unsetFile p s)
     else if p \<in> set (fs_dirs s) then
       (if childrenOf s p = [] then (Inr (), s\<lparr>fs_dirs := removeAll p (fs_dirs s)\<rparr>)
        else (Inl (NewError ''directory not empty''), s))
     else (Inl ErrNotExist, s))"

definition ReadDir :: "string \<Rightarrow> (fs, string list) action" where
  "ReadDir dir = syscall (\<lambda>s.
     if dir \<in> set (fs_dirs s) then (Inr (childrenOf s dir), s)
     else if fileAt s dir \<noteq> None then (Inl (NewError ''not a directory''), s)
     else (Inl ErrNotExist, s))"

text \<open>\<open>os.MkdirAll\<close>: the directory and those above it.\<close>

definition pathsTo :: "string \<Rightarrow> string list" where
  "pathsTo dir =
     (let ws = cleanElems (IsAbs dir) [] (splitSlash dir)
      in map (\<lambda>n. (if IsAbs dir then [SLASH] else []) @ joinSlash (take n ws)) [1..<Suc (length ws)])"

definition MkdirAll :: "string \<Rightarrow> (fs, unit) action" where
  "MkdirAll dir = syscall (\<lambda>s.
     if list_ex (\<lambda>p. fileAt s p \<noteq> None) (pathsTo dir) then (Inl (NewError ''not a directory''), s)
     else (Inr (), s\<lparr>fs_dirs := filter (\<lambda>p. p \<notin> set (fs_dirs s)) (pathsTo dir) @ fs_dirs s\<rparr>))"

text \<open>
  \<open>os.Open\<close> with the bytes it sees (a directory opens but cannot be read), \<open>os.OpenFile\<close> with
  \<open>O_CREATE|O_TRUNC\<close>, a read of an opened file, a write into an opened file, which may stop after any of its
  bytes and leaves those written before, and \<open>Close\<close>.
\<close>

definition Open :: "string \<Rightarrow> (fs, string option) action" where
  "Open p = syscall (\<lambda>s. case fileAt s p of Some bytes \<Rightarrow> (Inr (Some bytes), s) | None \<Rightarrow>
     if p \<in> set (fs_dirs s) then (Inr None, s) else (Inl ErrNotExist, s))"

definition OpenTrunc :: "string \<Rightarrow> (fs, unit) action" where
  "OpenTrunc p = syscall (\<lambda>s.
     if p \<in> set (fs_dirs s) then (Inl (NewError ''is a directory''), s) else (Inr (), setFile p [] s))"

definition Read :: "string \<Rightarrow> (fs, string) action" where
  "Read p = syscall (\<lambda>s. case fileAt s p of None \<Rightarrow> (Inl (NewError ''is a directory''), s) | Some bytes \<Rightarrow> (Inr bytes, s))"

definition appendByte :: "string \<Rightarrow> char \<Rightarrow> (fs, unit) action" where
  "appendByte p b = syscall (\<lambda>s. (Inr (), setFile p (case fileAt s p of None \<Rightarrow> [b] | Some bytes \<Rightarrow> bytes @ [b]) s))"

fun writeBytes :: "string \<Rightarrow> string \<Rightarrow> (fs, unit) action" where
  "writeBytes p [] = returnA ()"
| "writeBytes p (b # bs) = bindA (appendByte p b) (\<lambda>_. writeBytes p bs)"

definition Close :: "(fs, unit) action" where
  "Close = syscall (\<lambda>s. (Inr (), s))"

subsection \<open>Database files\<close>

definition sidecarSuffixes :: "string list" where
  "sidecarSuffixes = [''-wal'', ''-shm'', ''.wal'', ''.wal2'', ''.tmp'']"

definition SidecarPaths :: "string \<Rightarrow> string list" where
  "SidecarPaths path = map (\<lambda>suf. path @ suf) sidecarSuffixes"

definition Exists :: "string \<Rightarrow> (fs, bool) action" where
  "Exists path =
     bindA (tryA (Stat path)) (\<lambda>r.
       case r of
         Inl e \<Rightarrow> if IsNotExist e then returnA False else raiseA e
       | Inr info \<Rightarrow> returnA (info \<noteq> None))"

text \<open>A directory has a size too, of no consequence here: its entry counts as 0.\<close>

definition SizeKB :: "string \<Rightarrow> (fs, nat) action" where
  "SizeKB path =
     bindA (wrapA (\<lambda>e. Wrapf (''size of '' @ path @ '': '') e []) (Stat path)) (\<lambda>info.
       returnA (case info of Some n \<Rightarrow> n div 1024 | None \<Rightarrow> 0))"

text \<open>
  The destination is truncated before the source is read: by the reflink, which takes all of the source or fails
  without effect, or by the streamed copy.  A file copied onto itself ends empty.
\<close>

definition reflink :: "string \<Rightarrow> string \<Rightarrow> (fs, unit) action" where
  "reflink dst src = syscall (\<lambda>s.
     case fileAt s src of None \<Rightarrow> (Inl (NewError ''is a directory''), s) | Some bytes \<Rightarrow> (Inr (), setFile dst bytes s))"

definition streamCopy :: "string \<Rightarrow> string \<Rightarrow> (fs, unit) action" where
  "streamCopy dst src = bindA (Read src) (writeBytes dst)"

definition copyFileReflink :: "string \<Rightarrow> string \<Rightarrow> (fs, unit) action" where
  "copyFileReflink src dst =
     bindA (wrapA (\<lambda>e. Wrapf (''create parent dir for '' @ dst @ '': '') e []) (MkdirAll (Dir dst))) (\<lambda>_.
     bindA (Stat src) (\<lambda>_.
     bindA (Open src) (\<lambda>_.
     bindA (OpenTrunc dst) (\<lambda>_.
     bindA (tryA (reflink dst src)) (\<lambda>r.
       case r of
         Inr _ \<Rightarrow> Close
       | Inl _ \<Rightarrow>
           bindA (tryA (streamCopy dst src)) (\<lambda>c.
             case c of Inr _ \<Rightarrow> Close | Inl err \<Rightarrow> bindA (ignoreA Close) (\<lambda>_. raiseA err)))))))"

fun copySidecars :: "string \<Rightarrow> string \<Rightarrow> string list \<Rightarrow> (fs, unit) action" where
  "copySidecars src dst [] = returnA ()"
| "copySidecars src dst (side # sides) =
     bindA (tryA (Stat side)) (\<lambda>r.
       case r of
         Inl _ \<Rightarrow> copySidecars src dst sides
       | Inr _ \<Rightarrow>
           bindA (wrapA (\<lambda>e. Wrapf (''copy sidecar '' @ side @ '': '') e [])
             (copyFileReflink side (dst @ TrimPrefix side src))) (\<lambda>_. copySidecars src dst sides))"

definition CopyDatabase :: "string \<Rightarrow> string \<Rightarrow> (fs, unit) action" where
  "CopyDatabase src dst =
     bindA (wrapA (\<lambda>e. Wrapf (''copy '' @ src @ '' '' @ [CHR 0xE2, CHR 0x86, CHR 0x92] @ '' '' @ dst @ '': '') e []) (copyFileReflink src dst)) (\<lambda>_.
       copySidecars src dst (SidecarPaths src))"

fun removeLoop :: "string list \<Rightarrow> string list \<Rightarrow> (fs, string list) action" where
  "removeLoop removed [] = returnA removed"
| "removeLoop removed (p # ps) =
     bindA (tryA (Remove p)) (\<lambda>r.
       case r of
         Inl e \<Rightarrow> if IsNotExist e then removeLoop removed ps else raiseA (Wrapf (''remove '' @ p @ '': '') e [])
       | Inr _ \<Rightarrow> removeLoop (removed @ [p]) ps)"

definition RemoveDatabase :: "string \<Rightarrow> (fs, string list) action" where
  "RemoveDatabase path = removeLoop [] (path # SidecarPaths path)"

definition CloneSiblings :: "string \<Rightarrow> string \<Rightarrow> (fs, string list) action" where
  "CloneSiblings dir base =
     bindA (tryA (ReadDir dir)) (\<lambda>r.
       case r of
         Inl e \<Rightarrow> if IsNotExist e then returnA [] else raiseA e
       | Inr names \<Rightarrow>
           let stem = TrimSuffix base (Ext base)
           in returnA (map (Join2 dir) (filter (\<lambda>n. HasPrefix n (stem @ ''_'')) names)))"

definition SourcePath :: "string \<Rightarrow> string \<Rightarrow> string \<Rightarrow> go_error + string" where
  "SourcePath baseDir worktreePath rendered =
     (if baseDir \<noteq> [] \<and> \<not> IsAbs baseDir then Inl (NewError (''sqlite: base_dir '' @ quoted baseDir @ '' must be absolute''))
      else
        let base = (if baseDir \<noteq> [] then baseDir else worktreePath); p = Join2 base rendered
        in if \<not> HasPrefix p (base @ [SLASH]) then Inl (NewError (''sqlite: rendered path '' @ quoted p @ '' escapes '' @ quoted base))
           else Inr p)"

definition TemplatePath :: "string \<Rightarrow> string \<Rightarrow> string" where
  "TemplatePath sourcePath fingerprint = Join2 (Dir sourcePath) (''_tm_'' @ take 16 fingerprint @ Ext sourcePath)"

subsection \<open>The connection view\<close>

definition absName :: "string \<Rightarrow> (fs, string) action" where
  "absName name =
     (if IsAbs name then returnA name
      else raiseA (Wrapf [] (NewError ''file engine: database path must be absolute (prepare/teardown resolve rendered name_templates onto the family base)'') ('': '' @ quoted name)))"

definition fileConn_Exists :: "string \<Rightarrow> (fs, bool) action" where
  "fileConn_Exists n = bindA (absName n) Exists"

fun dropSiblings :: "string list \<Rightarrow> nat \<Rightarrow> (fs, nat) action" where
  "dropSiblings [] dropped = returnA dropped"
| "dropSiblings (p # ps) dropped = bindA (RemoveDatabase p) (\<lambda>removed. dropSiblings ps (dropped + length removed))"

definition fileConn_DropMatching :: "string \<Rightarrow> (fs, nat) action" where
  "fileConn_DropMatching n =
     bindA (absName n) (\<lambda>p.
     bindA (RemoveDatabase p) (\<lambda>dropped.
     bindA (CloneSiblings (Dir p) (filepath_Base p)) (\<lambda>siblings.
       dropSiblings siblings (length dropped))))"

definition fileConn_DropSnapshot :: "string \<Rightarrow> (fs, unit) action" where
  "fileConn_DropSnapshot n = bindA (absName n) (\<lambda>p. bindA (RemoveDatabase p) (\<lambda>_. returnA ()))"

definition fileConn_ListMatching :: "string \<Rightarrow> (fs, string list) action" where
  "fileConn_ListMatching n =
     bindA (absName n) (\<lambda>p.
     bindA (tryA (ReadDir (Dir p))) (\<lambda>r.
       case r of
         Inl e \<Rightarrow> if IsNotExist e then returnA [] else raiseA e
       | Inr names \<Rightarrow>
           returnA (map (Join2 (Dir p)) (filter (\<lambda>m. HasPrefix m (TrimSuffix (filepath_Base p) (Ext p))) names))))"

definition fileConn_SizeKB :: "string \<Rightarrow> (fs, nat) action" where
  "fileConn_SizeKB n = bindA (absName n) SizeKB"

section \<open>Lemmas\<close>

subsection \<open>Paths\<close>

lemma splitSlash_nonempty [simp]: "splitSlash p \<noteq> []"
  by (induction p) (auto split: list.splits)

lemma splitSlash_word: "SLASH \<notin> set w \<Longrightarrow> splitSlash w = [w]"
  by (induction w) auto

lemma splitSlash_Cons: "c \<noteq> SLASH \<Longrightarrow> splitSlash (c # p) = (c # hd (splitSlash p)) # tl (splitSlash p)"
  by (simp split: list.splits)

lemma splitSlash_append: "splitSlash (a @ SLASH # b) = splitSlash a @ splitSlash b"
proof (induction a)
  case (Cons c a)
  show ?case
  proof (cases "c = SLASH")
    case False
    then have "splitSlash (c # a @ SLASH # b) = (c # hd (splitSlash a @ splitSlash b)) # tl (splitSlash a @ splitSlash b)"
      using splitSlash_Cons [OF False, of "a @ SLASH # b"] Cons by simp
    then show ?thesis using splitSlash_Cons [OF False, of a] by simp
  qed (use Cons in simp)
qed simp

lemma splitSlash_no_slash: "w \<in> set (splitSlash p) \<Longrightarrow> SLASH \<notin> set w"
proof (induction p arbitrary: w)
  case (Cons c p)
  show ?case
  proof (cases "c = SLASH")
    case False
    obtain v vs where vs: "splitSlash p = v # vs" by (cases "splitSlash p") simp_all
    then have "splitSlash (c # p) = (c # v) # vs" using splitSlash_Cons [OF False, of p] by simp
    then show ?thesis using Cons.prems Cons.IH [of v] Cons.IH [of w] vs False by auto
  qed (use Cons in auto)
qed simp

lemma splitSlash_joinSlash: "ws \<noteq> [] \<Longrightarrow> \<forall>w \<in> set ws. SLASH \<notin> set w \<Longrightarrow> splitSlash (joinSlash ws) = ws"
  by (induction ws rule: joinSlash.induct) (auto simp: splitSlash_word splitSlash_append)

text \<open>An element that names a child: neither empty, nor this directory, nor the one above.\<close>

definition properElem :: "string \<Rightarrow> bool" where
  "properElem w \<longleftrightarrow> w \<noteq> [] \<and> w \<noteq> ''.'' \<and> w \<noteq> ''..'' \<and> SLASH \<notin> set w"

lemma cleanElems_proper:
  "\<forall>w \<in> set ws. SLASH \<notin> set w \<Longrightarrow> \<forall>k \<in> set kept. properElem k \<Longrightarrow> w \<in> set (cleanElems True kept ws) \<Longrightarrow> properElem w"
proof (induction ws arbitrary: kept)
  case (Cons v ws)
  show ?case
  proof (cases kept)
    case Nil
    then show ?thesis using Cons.prems Cons.IH [of "[]"] Cons.IH [of "[v]"] by (auto simp: properElem_def split: if_splits)
  next
    case (Cons k ks)
    have "k \<noteq> ''..''" using Cons.prems(2) Cons by (simp add: properElem_def)
    then show ?thesis
      using Cons.prems Cons Cons.IH [of kept] Cons.IH [of ks] Cons.IH [of "v # kept"]
      by (auto simp: properElem_def split: if_splits)
  qed
qed auto

lemma Clean_abs:
  assumes "IsAbs p"
  obtains ws where "Clean p = SLASH # joinSlash ws" "\<forall>w \<in> set ws. properElem w"
proof
  show "Clean p = SLASH # joinSlash (cleanElems True [] (splitSlash p))" using assms by (simp add: Clean_def Let_def)
  show "\<forall>w \<in> set (cleanElems True [] (splitSlash p)). properElem w"
    using cleanElems_proper [of "splitSlash p" "[]"] splitSlash_no_slash by auto
qed

lemma proper_split:
  assumes "\<forall>w \<in> set ws. properElem w"
  shows "splitSlash (SLASH # joinSlash ws) = (if ws = [] then [[], []] else [] # ws)"
  using assms splitSlash_joinSlash [of ws] by (auto simp: properElem_def)

lemma Join2_abs: "IsAbs a \<Longrightarrow> IsAbs (joinSlash (filter (\<lambda>w. w \<noteq> []) [a, b])) \<and> Join2 a b = Clean (joinSlash (filter (\<lambda>w. w \<noteq> []) [a, b]))"
  by (cases a) (auto simp: IsAbs_def Join2_def)

lemma SourcePath_Inr:
  assumes "SourcePath baseDir wt rendered = Inr p"
  defines "base \<equiv> if baseDir \<noteq> [] then baseDir else wt"
  assumes abs: "IsAbs base"
  obtains ws rel where "p = SLASH # joinSlash ws" "ws \<noteq> []" "\<forall>w \<in> set ws. properElem w" "p = base @ SLASH # rel"
    "splitSlash base @ splitSlash rel = [] # ws"
proof -
  have p: "p = Join2 base rendered" "HasPrefix p (base @ [SLASH])"
    using assms(1) by (auto simp: SourcePath_def base_def Let_def split: if_splits)
  obtain ws where ws: "p = SLASH # joinSlash ws" "\<forall>w \<in> set ws. properElem w"
    using p(1) Join2_abs [OF abs, of rendered] Clean_abs by metis
  obtain rel where rel: "p = base @ SLASH # rel" using p(2) by (auto simp: HasPrefix_iff)
  have "ws \<noteq> []"
  proof
    assume "ws = []"
    then have "length p = 1" using ws by simp
    then show False using rel abs by (cases base) (auto simp: IsAbs_def)
  qed
  moreover have "splitSlash base @ splitSlash rel = [] # ws"
    using proper_split [OF ws(2)] \<open>ws \<noteq> []\<close> ws(1) rel splitSlash_append [of base rel] by simp
  ultimately show thesis using that ws rel by blast
qed

text \<open>A base directory written with a trailing slash is refused with every name.\<close>

theorem base_dir_trailing_slash:
  assumes "IsAbs b"
  shows "\<exists>e. SourcePath (b @ [SLASH]) wt rendered = Inl e"
proof (rule ccontr)
  assume "\<not> ?thesis"
  then obtain p where run: "SourcePath (b @ [SLASH]) wt rendered = Inr p"
    by (cases "SourcePath (b @ [SLASH]) wt rendered") auto
  have "IsAbs (if b @ [SLASH] \<noteq> [] then b @ [SLASH] else wt)" using assms by (cases b) (auto simp: IsAbs_def)
  with run show False
  proof (rule SourcePath_Inr)
    fix ws rel
    assume ws: "\<forall>w \<in> set ws. properElem w"
      and split: "splitSlash (if b @ [SLASH] \<noteq> [] then b @ [SLASH] else wt) @ splitSlash rel = [] # ws"
    have "splitSlash b @ [[]] @ splitSlash rel = [] # ws" using split splitSlash_append [of b "[]"] by simp
    moreover obtain w vs where "splitSlash b = w # vs" using splitSlash_nonempty by (cases "splitSlash b") blast+
    ultimately have "[] \<in> set ws" by auto
    then show False using ws by (auto simp: properElem_def)
  qed
qed

subsection \<open>Files\<close>

lemma fileAt_setFile [simp]: "fileAt (setFile p bytes s) q = (if q = p then Some bytes else fileAt s q)"
  by (simp add: fileAt_def setFile_def map_of_drop_key)

lemma fileAt_unsetFile [simp]: "fileAt (unsetFile p s) q = (if q = p then None else fileAt s q)"
  by (simp add: fileAt_def unsetFile_def map_of_drop_key)

lemma fileAt_dirs [simp]: "fileAt (s\<lparr>fs_dirs := ds\<rparr>) q = fileAt s q" "fileAt (s\<lparr>fs_faults := fl\<rparr>) q = fileAt s q"
  by (simp_all add: fileAt_def)

text \<open>Files are removed among \<open>Q\<close>, none is written.\<close>

definition removesOnly :: "string set \<Rightarrow> fs \<Rightarrow> fs \<Rightarrow> bool" where
  "removesOnly Q s s' \<longleftrightarrow> (\<forall>q. fileAt s' q = fileAt s q \<or> q \<in> Q \<and> fileAt s' q = None)"

lemma removesOnly_refl: "reflp (removesOnly Q)"
  by (simp add: reflp_def removesOnly_def)

lemma removesOnly_trans: "transp (removesOnly Q)"
  by (rule transpI) (unfold removesOnly_def, metis)

lemma removesOnly_mono: "removesOnly Q s s' \<Longrightarrow> Q \<subseteq> Q' \<Longrightarrow> removesOnly Q' s s'"
  by (auto simp: removesOnly_def)

lemma removesOnly_gone: "removesOnly Q s s' \<Longrightarrow> fileAt s q = None \<Longrightarrow> fileAt s' q = None"
  by (metis removesOnly_def)

lemma keeps_syscall:
  assumes "\<And>s. R s (snd (m s))" "transp R" "\<And>s fl. R s (s\<lparr>fs_faults := fl\<rparr>)"
  shows "keeps R (syscall m)"
  using assms(1,3) transpD [OF assms(2)]
  by (auto simp: keeps_def syscall_def split: list.splits option.splits) blast+

lemma removes_calls:
  "p \<in> Q \<Longrightarrow> keeps (removesOnly Q) (Remove p)" "keeps (removesOnly Q) (Stat p)" "keeps (removesOnly Q) (ReadDir p)"
  unfolding Remove_def Stat_def ReadDir_def
  by (rule keeps_syscall [OF _ removesOnly_trans]; auto simp: removesOnly_def split: option.splits)+

lemma Remove_gone:
  "Remove p s = (Inr u, s') \<or> Remove p s = (Inl ErrNotExist, s') \<Longrightarrow> fileAt s' p = None"
  by (auto simp: Remove_def syscall_def ErrNotExist_def split: list.splits option.splits if_splits)

lemma removeLoop_keeps: "set ps \<subseteq> Q \<Longrightarrow> keeps (removesOnly Q) (removeLoop removed ps)"
  by (induction ps arbitrary: removed) (auto intro!: keeps_intro removesOnly_refl removesOnly_trans removes_calls)

lemma removeLoop_gone:
  "removeLoop removed ps s = (Inr r, s') \<Longrightarrow> q \<in> set ps \<Longrightarrow> fileAt s' q = None"
proof (induction ps arbitrary: removed s)
  case (Cons p ps)
  obtain x s1 where x: "Remove p s = (x, s1)" by force
  obtain removed' where loop: "removeLoop removed' ps s1 = (Inr r, s')" and ok: "(\<exists>u. x = Inr u) \<or> x = Inl ErrNotExist"
    using Cons.prems(1) x by (cases x) (auto simp: bindA_def tryA_def raiseA_def IsNotExist_def split: if_splits)
  show ?case
  proof (cases "q \<in> set ps")
    case True
    then show ?thesis using Cons.IH loop by blast
  next
    case False
    then have "fileAt s1 q = None" using Cons.prems(2) Remove_gone x ok by fastforce
    then show ?thesis using keepsD [OF removeLoop_keeps [OF subset_refl] loop] by (rule removesOnly_gone [rotated])
  qed
qed simp

text \<open>The files of one database.\<close>

definition dbFiles :: "string \<Rightarrow> string set" where
  "dbFiles p = set (p # SidecarPaths p)"

lemma RemoveDatabase_keeps: "dbFiles p \<subseteq> Q \<Longrightarrow> keeps (removesOnly Q) (RemoveDatabase p)"
  unfolding RemoveDatabase_def dbFiles_def by (rule removeLoop_keeps)

lemma RemoveDatabase_gone: "RemoveDatabase p s = (Inr r, s') \<Longrightarrow> q \<in> dbFiles p \<Longrightarrow> fileAt s' q = None"
  unfolding RemoveDatabase_def dbFiles_def by (rule removeLoop_gone)

text \<open>The files a drop of a whole family may remove.\<close>

definition cloneNames :: "string \<Rightarrow> string set" where
  "cloneNames p = {Join2 (Dir p) n | n. SLASH \<notin> set n \<and> HasPrefix n (TrimSuffix (filepath_Base p) (Ext (filepath_Base p)) @ ''_'')}"

definition familyFiles :: "string \<Rightarrow> string set" where
  "familyFiles p = dbFiles p \<union> (\<Union>n \<in> cloneNames p. dbFiles n)"

lemma dropSiblings_keeps:
  "(\<And>p. p \<in> set ps \<Longrightarrow> dbFiles p \<subseteq> Q) \<Longrightarrow> keeps (removesOnly Q) (dropSiblings ps n)"
  by (induction ps arbitrary: n) (auto intro!: keeps_intro removesOnly_refl removesOnly_trans RemoveDatabase_keeps)

lemma CloneSiblings_keeps: "keeps (removesOnly Q) (CloneSiblings dir base)"
  unfolding CloneSiblings_def Let_def by (auto intro!: keeps_intro removesOnly_refl removesOnly_trans removes_calls)

lemma lastElem_no_slash: "SLASH \<notin> set (lastElem p)"
  using set_takeWhileD [of SLASH "\<lambda>c. c \<noteq> SLASH" "rev p"] by (auto simp: lastElem_def)

lemma ReadDir_names: "ReadDir dir s = (Inr ns, s') \<Longrightarrow> n \<in> set ns \<Longrightarrow> SLASH \<notin> set n"
  by (auto simp: ReadDir_def syscall_def childrenOf_def lastElem_no_slash split: list.splits option.splits if_splits)

lemma CloneSiblings_names:
  assumes "CloneSiblings (Dir p) (filepath_Base p) s = (Inr xs, s')"
  shows "set xs \<subseteq> cloneNames p"
proof -
  obtain r s1 where r: "ReadDir (Dir p) s = (r, s1)" by force
  let ?stem = "TrimSuffix (filepath_Base p) (Ext (filepath_Base p))"
  show ?thesis
  proof (cases r)
    case (Inl e)
    then show ?thesis using assms r
      by (auto simp: CloneSiblings_def bindA_def tryA_def returnA_def raiseA_def split: if_splits)
  next
    case (Inr ns)
    then have "xs = map (Join2 (Dir p)) (filter (\<lambda>n. HasPrefix n (?stem @ ''_'')) ns)"
      using assms r by (simp add: CloneSiblings_def bindA_def tryA_def returnA_def Let_def)
    moreover have "n \<in> set ns \<Longrightarrow> SLASH \<notin> set n" for n using r ReadDir_names Inr by blast
    ultimately show ?thesis by (auto simp: cloneNames_def)
  qed
qed

lemma bind_absName:
  "bindA (absName p) f =
     (if IsAbs p then f p
      else raiseA (Wrapf [] (NewError ''file engine: database path must be absolute (prepare/teardown resolve rendered name_templates onto the family base)'') ('': '' @ quoted p)))"
  by (rule ext) (simp add: absName_def bindA_def returnA_def raiseA_def)

lemma DropSnapshot_keeps: "keeps (removesOnly (dbFiles p)) (fileConn_DropSnapshot p)"
  unfolding fileConn_DropSnapshot_def bind_absName
  by (intro keeps_intro removesOnly_refl removesOnly_trans RemoveDatabase_keeps subset_refl)

lemma DropSnapshot_gone: "fileConn_DropSnapshot p s = (Inr u, s') \<Longrightarrow> q \<in> dbFiles p \<Longrightarrow> fileAt s' q = None"
  by (auto simp: fileConn_DropSnapshot_def bind_absName bindA_def returnA_def raiseA_def
      split: if_splits prod.splits sum.splits dest: RemoveDatabase_gone)

lemma DropMatching_keeps: "keeps (removesOnly (familyFiles p)) (fileConn_DropMatching p)"
proof (rule keepsI)
  fix s r s' assume run: "fileConn_DropMatching p s = (r, s')"
  let ?R = "removesOnly (familyFiles p)"
  obtain r1 s1 where rm: "RemoveDatabase p s = (r1, s1)" by force
  obtain r2 s2 where sib: "CloneSiblings (Dir p) (filepath_Base p) s1 = (r2, s2)" by force
  have step1: "?R s s1" using keepsD [OF RemoveDatabase_keeps rm] by (simp add: familyFiles_def)
  have step2: "?R s1 s2" using keepsD [OF CloneSiblings_keeps sib] .
  have step3: "?R s2 s'" if "r2 = Inr xs" "dropSiblings xs n s2 = (r, s')" for xs n
  proof (rule keepsD [OF dropSiblings_keeps that(2)])
    show "dbFiles q \<subseteq> familyFiles p" if "q \<in> set xs" for q
      using CloneSiblings_names [of p s1 xs s2] sib \<open>r2 = Inr xs\<close> that by (auto simp: familyFiles_def)
  qed
  show "?R s s'"
  proof (cases "IsAbs p \<and> (\<exists>xs. r1 = Inr xs)")
    case False
    then have "s' = s \<or> s' = s1" using run rm
      by (cases r1) (auto simp: fileConn_DropMatching_def bind_absName bindA_def raiseA_def split: if_splits)
    then show ?thesis using step1 removesOnly_refl by (auto dest: reflpD)
  next
    case True
    then have "s' = s2 \<or> (\<exists>xs n. r2 = Inr xs \<and> dropSiblings xs n s2 = (r, s'))" using run rm sib
      by (cases r2) (auto simp: fileConn_DropMatching_def bind_absName bindA_def)
    then show ?thesis using step1 step2 step3 removesOnly_trans by (metis transpD)
  qed
qed

subsection \<open>Copies\<close>

lemma syscall_calm: "fs_faults s = [] \<Longrightarrow> syscall m s = m s"
  by (simp add: syscall_def)

lemma setFile_faults [simp]: "fs_faults (setFile p b s) = fs_faults s" "fs_dirs (setFile p b s) = fs_dirs s"
  by (simp_all add: setFile_def)

text \<open>The parent directory of a copy can be made, and no directory is in the way.\<close>

definition roomFor :: "fs \<Rightarrow> string \<Rightarrow> bool" where
  "roomFor s dst \<longleftrightarrow> (\<forall>p \<in> set (pathsTo (Dir dst)). fileAt s p = None) \<and> dst \<notin> set (pathsTo (Dir dst)) \<and> dst \<notin> set (fs_dirs s)"

definition withDirs :: "string \<Rightarrow> fs \<Rightarrow> fs" where
  "withDirs dst s = s\<lparr>fs_dirs := filter (\<lambda>p. p \<notin> set (fs_dirs s)) (pathsTo (Dir dst)) @ fs_dirs s\<rparr>"

lemma copyFileReflink_ok:
  assumes "fs_faults s = []" "fileAt s src = Some bytes" "roomFor s dst" "src \<noteq> dst"
  shows "copyFileReflink src dst s = (Inr (), setFile dst bytes (setFile dst [] (withDirs dst s)))"
  using assms
  by (simp add: copyFileReflink_def MkdirAll_def Stat_def Open_def OpenTrunc_def reflink_def Close_def bindA_def wrapA_def tryA_def
      returnA_def syscall_calm roomFor_def withDirs_def list_ex_iff)

text \<open>A database file copied onto itself is lost.\<close>

lemma copy_onto_itself:
  assumes "fs_faults s = []" "fileAt s p = Some bytes" "roomFor s p"
  shows "\<exists>s'. copyFileReflink p p s = (Inr (), s') \<and> fileAt s' p = Some []"
  using assms
  by (simp add: copyFileReflink_def MkdirAll_def Stat_def Open_def OpenTrunc_def reflink_def Close_def bindA_def wrapA_def tryA_def
      returnA_def syscall_calm roomFor_def list_ex_iff)

lemma lastElem_append: "SLASH \<notin> set suf \<Longrightarrow> lastElem (p @ suf) = lastElem p @ suf"
proof -
  assume "SLASH \<notin> set suf"
  then have "\<forall>c \<in> set (rev suf). c \<noteq> SLASH" by auto
  then have "takeWhile (\<lambda>c. c \<noteq> SLASH) (rev suf @ rev p) = rev suf @ takeWhile (\<lambda>c. c \<noteq> SLASH) (rev p)"
    by (intro takeWhile_append2) auto
  then show ?thesis by (simp add: lastElem_def)
qed

lemma length_lastElem: "length (lastElem p) \<le> length p"
  by (simp add: lastElem_def) (metis length_rev length_takeWhile_le)

lemma Dir_append: "SLASH \<notin> set suf \<Longrightarrow> Dir (p @ suf) = Dir p"
  using length_lastElem [of p] by (simp add: Dir_def lastElem_append)

lemma sidecar_no_slash: "suf \<in> set sidecarSuffixes \<Longrightarrow> SLASH \<notin> set suf"
  by (auto simp: sidecarSuffixes_def SLASH_def)

text \<open>
  Room for a copy of a whole database: the parent directories can be made, no directory has the name of a
  file of either database, and the two databases share no file.
\<close>

definition copyRoom :: "string \<Rightarrow> string \<Rightarrow> fs \<Rightarrow> bool" where
  "copyRoom src dst s \<longleftrightarrow> fs_faults s = [] \<and> dbFiles src \<inter> dbFiles dst = {} \<and>
     (\<forall>p \<in> set (pathsTo (Dir dst)). fileAt s p = None) \<and>
     (\<forall>p \<in> dbFiles src \<union> dbFiles dst. p \<notin> set (pathsTo (Dir dst)) \<and> p \<notin> set (fs_dirs s))"

lemma dbFiles_mem: "p \<in> dbFiles p" "suf \<in> set sidecarSuffixes \<Longrightarrow> p @ suf \<in> dbFiles p"
  by (auto simp: dbFiles_def SidecarPaths_def)

lemma copy_one:
  assumes room: "copyRoom src dst s" and suf: "suf = [] \<or> suf \<in> set sidecarSuffixes" and present: "fileAt s (src @ suf) = Some bytes"
  shows "\<exists>s'. copyFileReflink (src @ suf) (dst @ suf) s = (Inr (), s') \<and> copyRoom src dst s' \<and>
    (\<forall>q. fileAt s' q = (if q = dst @ suf then Some bytes else fileAt s q))"
proof (intro exI conjI allI)
  let ?s' = "setFile (dst @ suf) bytes (setFile (dst @ suf) [] (withDirs (dst @ suf) s))"
  have dir: "Dir (dst @ suf) = Dir dst" using suf sidecar_no_slash Dir_append [of suf dst] by auto
  have mem: "dst @ suf \<in> dbFiles dst" using suf dbFiles_mem(1) [of dst] dbFiles_mem(2) [of suf dst] by auto
  have "src @ suf \<in> dbFiles src" using suf dbFiles_mem(1) [of src] dbFiles_mem(2) [of suf src] by auto
  then have apart: "src @ suf \<noteq> dst @ suf" using room mem by (auto simp: copyRoom_def)
  have "roomFor s (dst @ suf)" using room mem by (simp add: roomFor_def copyRoom_def dir)
  then show "copyFileReflink (src @ suf) (dst @ suf) s = (Inr (), ?s')"
    using room present apart by (intro copyFileReflink_ok) (simp_all add: copyRoom_def)
  show "fileAt ?s' q = (if q = dst @ suf then Some bytes else fileAt s q)" for q by (simp add: withDirs_def)
  show "copyRoom src dst ?s'" using room mem by (auto simp: copyRoom_def withDirs_def dir)
qed

text \<open>Where the files of a copy come from.\<close>

definition landed :: "string \<Rightarrow> string \<Rightarrow> string list \<Rightarrow> fs \<Rightarrow> string \<Rightarrow> string option" where
  "landed src dst sufs s q =
     (if q \<in> (@) dst ` set sufs \<and> fileAt s (src @ drop (length dst) q) \<noteq> None
      then fileAt s (src @ drop (length dst) q) else fileAt s q)"

lemma Stat_calm: "fs_faults s = [] \<Longrightarrow> p \<notin> set (fs_dirs s) \<Longrightarrow>
    Stat p s = (case fileAt s p of Some b \<Rightarrow> Inr (Some (length b)) | None \<Rightarrow> Inl ErrNotExist, s)"
  by (simp add: Stat_def syscall_calm split: option.splits)

lemma copySidecars_ok:
  "copyRoom src dst s \<Longrightarrow> set sufs \<subseteq> set sidecarSuffixes \<Longrightarrow>
     \<exists>s'. copySidecars src dst (map ((@) src) sufs) s = (Inr (), s') \<and> (\<forall>q. fileAt s' q = landed src dst sufs s q)"
proof (induction sufs arbitrary: s)
  case Nil
  then show ?case by (simp add: returnA_def landed_def)
next
  case (Cons suf sufs)
  have suf: "suf \<in> set sidecarSuffixes" and sufs: "set sufs \<subseteq> set sidecarSuffixes" using Cons.prems(2) by auto
  have stat: "Stat (src @ suf) s = (case fileAt s (src @ suf) of Some b \<Rightarrow> Inr (Some (length b)) | None \<Rightarrow> Inl ErrNotExist, s)"
    using Cons.prems(1) dbFiles_mem(2) [OF suf] by (intro Stat_calm) (auto simp: copyRoom_def)
  show ?case
  proof (cases "fileAt s (src @ suf)")
    case None
    then have "copySidecars src dst (map ((@) src) (suf # sufs)) s = copySidecars src dst (map ((@) src) sufs) s"
      using stat by (simp add: bindA_def tryA_def)
    moreover have "landed src dst (suf # sufs) s q = landed src dst sufs s q" for q using None by (auto simp: landed_def)
    ultimately show ?thesis using Cons.IH [OF Cons.prems(1) sufs] by simp
  next
    case (Some bytes)
    obtain s1 where s1: "copyFileReflink (src @ suf) (dst @ suf) s = (Inr (), s1)" "copyRoom src dst s1"
      "\<And>q. fileAt s1 q = (if q = dst @ suf then Some bytes else fileAt s q)"
      using copy_one [OF Cons.prems(1) _ Some] suf by blast
    have "TrimPrefix (src @ suf) src = suf" by (simp add: TrimPrefix_def)
    then have run: "copySidecars src dst (map ((@) src) (suf # sufs)) s = copySidecars src dst (map ((@) src) sufs) s1"
      using stat Some s1(1) by (simp add: bindA_def tryA_def wrapA_def)
    have "src @ x \<noteq> dst @ suf" if "x \<in> set sidecarSuffixes" for x
      using Cons.prems(1) dbFiles_mem(2) [OF that, of src] dbFiles_mem(2) [OF suf, of dst] by (auto simp: copyRoom_def)
    then have "landed src dst sufs s1 q = landed src dst (suf # sufs) s q" for q
      using Some sufs by (auto simp: landed_def s1(3))
    then show ?thesis using Cons.IH [OF s1(2) sufs] run by simp
  qed
qed

section \<open>Properties\<close>

text \<open>
  \<open>SourcePath\<close> confines a rendered name: whatever the template rendered to, a path it returns is the base
  directory followed by elements that name children, so neither \<open>..\<close> nor an empty or \<open>.\<close> element leads out.
\<close>

theorem source_path_contained:
  assumes "SourcePath baseDir wt rendered = Inr p" "IsAbs (if baseDir \<noteq> [] then baseDir else wt)"
  shows "\<exists>rel. p = (if baseDir \<noteq> [] then baseDir else wt) @ SLASH # rel \<and> (\<forall>w \<in> set (splitSlash rel). properElem w)"
  using assms
proof (rule SourcePath_Inr)
  let ?base = "if baseDir \<noteq> [] then baseDir else wt"
  fix ws rel
  assume ws: "\<forall>w \<in> set ws. properElem w" "p = ?base @ SLASH # rel" "splitSlash ?base @ splitSlash rel = [] # ws"
  obtain v vs where "splitSlash ?base = v # vs" using splitSlash_nonempty by (cases "splitSlash ?base") blast+
  then have "set (splitSlash rel) \<subseteq> set ws" using ws(3) by auto
  then show ?thesis using ws by blast
qed

theorem source_path_contained_witness:
  "SourcePath [] ''/w'' ''a/../b.db'' = Inr ''/w/b.db'' \<and>
   (\<exists>rel. ''/w/b.db'' = ''/w'' @ SLASH # rel \<and> (\<forall>w \<in> set (splitSlash rel). properElem w))"
proof -
  have "SourcePath [] ''/w'' ''a/../b.db'' = Inr ''/w/b.db''" by code_simp
  then show ?thesis using source_path_contained [of "[]" "''/w''" "''a/../b.db''" "''/w/b.db''"] by (simp add: IsAbs_def SLASH_def)
qed

text \<open>
  On a file system where no call fails, \<open>CopyDatabase\<close> gives the target the source's bytes and, for every
  sidecar the source has, the source's sidecar; every other file stays as it was.  So a sidecar of the target
  that the source does not have survives the copy.
\<close>

theorem copy_database_exact:
  assumes "copyRoom src dst s" "fileAt s src = Some bytes"
  shows "\<exists>s'. CopyDatabase src dst s = (Inr (), s') \<and> fileAt s' dst = Some bytes \<and>
    (\<forall>suf \<in> set sidecarSuffixes. fileAt s' (dst @ suf) =
       (case fileAt s (src @ suf) of Some b \<Rightarrow> Some b | None \<Rightarrow> fileAt s (dst @ suf))) \<and>
    (\<forall>q. q \<notin> dbFiles dst \<longrightarrow> fileAt s' q = fileAt s q)"
proof -
  obtain s1 where s1: "copyFileReflink src dst s = (Inr (), s1)" "copyRoom src dst s1"
      "\<And>q. fileAt s1 q = (if q = dst then Some bytes else fileAt s q)"
    using copy_one [OF assms(1), of "[]"] assms(2) by auto
  obtain s' where s': "copySidecars src dst (SidecarPaths src) s1 = (Inr (), s')"
      "\<And>q. fileAt s' q = landed src dst sidecarSuffixes s1 q"
    using copySidecars_ok [OF s1(2) subset_refl] by (auto simp: SidecarPaths_def)
  have "CopyDatabase src dst s = (Inr (), s')" using s1(1) s'(1) by (simp add: CopyDatabase_def bindA_def wrapA_def)
  moreover have "fileAt s' dst = Some bytes" using s'(2) s1(3) by (auto simp: landed_def sidecarSuffixes_def)
  moreover have "fileAt s' (dst @ suf) = (case fileAt s (src @ suf) of Some b \<Rightarrow> Some b | None \<Rightarrow> fileAt s (dst @ suf))"
    if suf: "suf \<in> set sidecarSuffixes" for suf
  proof -
    have "src @ suf \<noteq> dst" using assms(1) dbFiles_mem(2) [OF suf, of src] dbFiles_mem(1) [of dst] by (auto simp: copyRoom_def)
    moreover have "dst @ suf \<noteq> dst" using suf by (auto simp: sidecarSuffixes_def)
    ultimately show ?thesis using suf by (auto simp: s'(2) landed_def s1(3) split: option.splits)
  qed
  moreover have "fileAt s' q = fileAt s q" if "q \<notin> dbFiles dst" for q
    using that dbFiles_mem by (auto simp: s'(2) landed_def s1(3))
  ultimately show ?thesis by blast
qed

text \<open>A target with a leftover write-ahead log, and a template without one.\<close>

definition sampleFs :: fs where
  "sampleFs = \<lparr>fs_files = [(''/w/_tm_0.db'', ''new''), (''/w/a.db'', ''old''), (''/w/a.db-wal'', ''log'')], fs_dirs = [''/w''], fs_faults = []\<rparr>"

theorem copy_database_exact_witness:
  "\<exists>s'. CopyDatabase ''/w/_tm_0.db'' ''/w/a.db'' sampleFs = (Inr (), s') \<and> fileAt s' ''/w/a.db'' = Some ''new'' \<and>
     fileAt s' ''/w/a.db-wal'' = Some ''log''"
proof -
  have paths: "pathsTo (Dir ''/w/a.db'') = [''/w'']" by code_simp
  have room: "copyRoom ''/w/_tm_0.db'' ''/w/a.db'' sampleFs"
    by (simp add: copyRoom_def paths dbFiles_def SidecarPaths_def sidecarSuffixes_def sampleFs_def fileAt_def)
  have present: "fileAt sampleFs ''/w/_tm_0.db'' = Some ''new''" by (simp add: sampleFs_def fileAt_def)
  obtain s' where run: "CopyDatabase ''/w/_tm_0.db'' ''/w/a.db'' sampleFs = (Inr (), s')" "fileAt s' ''/w/a.db'' = Some ''new''"
    and side: "\<forall>suf \<in> set sidecarSuffixes. fileAt s' (''/w/a.db'' @ suf) =
       (case fileAt sampleFs (''/w/_tm_0.db'' @ suf) of Some b \<Rightarrow> Some b | None \<Rightarrow> fileAt sampleFs (''/w/a.db'' @ suf))"
    using copy_database_exact [OF room present] by blast
  have "fileAt s' (''/w/a.db'' @ ''-wal'') = Some ''log''"
    using side by (simp add: sidecarSuffixes_def sampleFs_def fileAt_def)
  then show ?thesis using run by simp
qed

end
