(* ===== verification/EngineConn.thy ===== *)
theory EngineConn
  imports SnapshotStore SnapshotKey FileDb
begin

text \<open>
  The connection interface of \<open>internal/db/engineconn/engineconn.go\<close> as the collectors of cached templates use it,
  and their connection pool (\<open>dropPool\<close> of \<open>internal/snapshot/gc.go\<close>).  The servers are a parameter: a record of
  the interface's operations over an engine state; \<open>fileConnOps\<close> is the instance for the file-backed engines.

  Drops of several templates run as concurrent jobs.  A job is a state machine with one step per call it makes,
  and a schedule is the order in which the jobs' steps happen.
\<close>

section \<open>Model\<close>

record 'e connOps =
  op_configured :: "Family \<Rightarrow> string \<Rightarrow> bool"
  op_dial :: "Family \<Rightarrow> string \<Rightarrow> ('e, unit) action"
  op_exists :: "Family \<Rightarrow> string \<Rightarrow> string \<Rightarrow> ('e, bool) action"
  op_dropMatching :: "Family \<Rightarrow> string \<Rightarrow> string \<Rightarrow> ('e, nat) action"
  op_dropSnapshot :: "Family \<Rightarrow> string \<Rightarrow> string \<Rightarrow> ('e, unit) action"
  op_listMatching :: "Family \<Rightarrow> string \<Rightarrow> string \<Rightarrow> ('e, string list) action"
  op_close :: "Family \<Rightarrow> string \<Rightarrow> ('e, unit) action"

subsection \<open>The pool\<close>

type_synonym connKey = "Family \<times> string"

type_synonym 'e pool = "connKey list \<times> 'e"

definition onEngine :: "('e, 'a) action \<Rightarrow> ('e pool, 'a) action" where
  "onEngine m p = (case m (snd p) of (r, e) \<Rightarrow> (r, (fst p, e)))"

definition notConfigured :: "Family \<Rightarrow> go_error" where
  "notConfigured fam = NewError (''connections.'' @ label fam @ '' not configured'')"

definition pool_get :: "'e connOps \<Rightarrow> Family \<Rightarrow> string \<Rightarrow> ('e pool, unit) action" where
  "pool_get ops fam name =
     bindA (readA fst) (\<lambda>conns.
       if (fam, name) \<in> set conns then returnA ()
       else if \<not> op_configured ops fam name then raiseA (notConfigured fam)
       else bindA (onEngine (op_dial ops fam name)) (\<lambda>_. modifyA (\<lambda>(cs, e). ((fam, name) # cs, e))))"

definition pool_close :: "'e connOps \<Rightarrow> ('e pool, unit) action" where
  "pool_close ops = bindA (readA fst) (\<lambda>conns. forA (\<lambda>(fam, name). ignoreA (onEngine (op_close ops fam name))) conns)"

definition unsupportedEngine :: "string \<Rightarrow> go_error" where
  "unsupportedEngine eng = NewError (''eviction: unsupported engine '' @ quoted eng)"

definition dropSpares :: "'e connOps \<Rightarrow> Family \<Rightarrow> SnapshotEvictionCandidate \<Rightarrow> ('e pool, nat) action" where
  "dropSpares ops fam c =
     wrapA (\<lambda>e. Wrapf (''drop spare family '' @ ev_template c @ PrewarmSuffix @ ''*: '') e [])
       (onEngine (op_dropMatching ops fam (ev_connection c) (ev_template c @ PrewarmSuffix)))"

definition pool_drop :: "'e connOps \<Rightarrow> SnapshotEvictionCandidate \<Rightarrow> ('e pool, unit) action" where
  "pool_drop ops c =
     (case Canonical (ev_engine c) of
        None \<Rightarrow> raiseA (unsupportedEngine (ev_engine c))
      | Some fam \<Rightarrow>
          bindA (pool_get ops fam (ev_connection c)) (\<lambda>_.
          bindA (onEngine (op_dropSnapshot ops fam (ev_connection c) (ev_template c))) (\<lambda>_.
          bindA (dropSpares ops fam c) (\<lambda>_. returnA ()))))"

definition DropTemplate :: "'e connOps \<Rightarrow> SnapshotEvictionCandidate \<Rightarrow> ('e, unit) action" where
  "DropTemplate ops c e =
     (case pool_drop ops c ([], e) of (r, p) \<Rightarrow> (r, snd (snd (pool_close ops p))))"

subsection \<open>Concurrent drops\<close>

datatype dropJob = Waiting | Connected | Dropped | Finished "go_error option"

definition outcome :: "(go_error + 'a) \<times> 'p \<Rightarrow> dropJob \<Rightarrow> dropJob \<times> 'p" where
  "outcome r next = (case r of (Inl e, p) \<Rightarrow> (Finished (Some e), p) | (Inr _, p) \<Rightarrow> (next, p))"

fun jobStep :: "'e connOps \<Rightarrow> SnapshotEvictionCandidate \<Rightarrow> dropJob \<Rightarrow> 'e pool \<Rightarrow> dropJob \<times> 'e pool" where
  "jobStep ops c Waiting p =
     (case Canonical (ev_engine c) of
        None \<Rightarrow> (Finished (Some (unsupportedEngine (ev_engine c))), p)
      | Some fam \<Rightarrow> outcome (pool_get ops fam (ev_connection c) p) Connected)"
| "jobStep ops c Connected p =
     (case Canonical (ev_engine c) of
        None \<Rightarrow> (Finished (Some (unsupportedEngine (ev_engine c))), p)
      | Some fam \<Rightarrow> outcome (onEngine (op_dropSnapshot ops fam (ev_connection c) (ev_template c)) p) Dropped)"
| "jobStep ops c Dropped p =
     (case Canonical (ev_engine c) of
        None \<Rightarrow> (Finished (Some (unsupportedEngine (ev_engine c))), p)
      | Some fam \<Rightarrow> outcome (dropSpares ops fam c p) (Finished None))"
| "jobStep ops c (Finished r) p = (Finished r, p)"

definition stepJob ::
  "'e connOps \<Rightarrow> SnapshotEvictionCandidate list \<Rightarrow> nat \<Rightarrow> dropJob list \<times> 'e pool \<Rightarrow> dropJob list \<times> 'e pool" where
  "stepJob ops cands i st =
     (case st of (jobs, p) \<Rightarrow>
        if i < length cands \<and> i < length jobs
        then case jobStep ops (cands ! i) (jobs ! i) p of (j, p') \<Rightarrow> (jobs[i := j], p')
        else (jobs, p))"

text \<open>The schedule first, then whatever is left of each job: \<open>g.Wait\<close> returns when all jobs have finished.\<close>

definition runJobs ::
  "'e connOps \<Rightarrow> SnapshotEvictionCandidate list \<Rightarrow> nat list \<Rightarrow> dropJob list \<times> 'e pool \<Rightarrow> dropJob list \<times> 'e pool" where
  "runJobs ops cands sched st =
     fold (stepJob ops cands) (sched @ concat (map (\<lambda>i. [i, i, i]) [0..<length cands])) st"

definition jobResult :: "dropJob \<Rightarrow> go_error option" where
  "jobResult j = (case j of Finished r \<Rightarrow> r | _ \<Rightarrow> None)"

subsection \<open>The file-backed engines\<close>

definition fileOnly :: "Family \<Rightarrow> (fs, 'a) action \<Rightarrow> (fs, 'a) action" where
  "fileOnly fam m = (if fam = FamilyFile then m else raiseA (notConfigured fam))"

definition fileConnOps :: "fs connOps" where
  "fileConnOps =
     \<lparr>op_configured = (\<lambda>fam name. fam = FamilyFile), op_dial = (\<lambda>fam name. returnA ()),
      op_exists = (\<lambda>fam name n. fileOnly fam (fileConn_Exists n)),
      op_dropMatching = (\<lambda>fam name n. fileOnly fam (fileConn_DropMatching n)),
      op_dropSnapshot = (\<lambda>fam name n. fileOnly fam (fileConn_DropSnapshot n)),
      op_listMatching = (\<lambda>fam name n. fileOnly fam (fileConn_ListMatching n)),
      op_close = (\<lambda>fam name. returnA ())\<rparr>"

section \<open>Lemmas\<close>

text \<open>A drop is its three steps in a row.\<close>

lemma pool_drop_steps:
  assumes "pool_drop ops c p = (r, p')"
  shows "(let (j1, p1) = jobStep ops c Waiting p; (j2, p2) = jobStep ops c j1 p1 in jobStep ops c j2 p2) =
    (Finished (case r of Inl e \<Rightarrow> Some e | Inr _ \<Rightarrow> None), p')"
proof (cases "Canonical (ev_engine c)")
  case None
  then show ?thesis using assms by (auto simp: pool_drop_def raiseA_def)
next
  case (Some fam)
  obtain r1 p1 where g: "pool_get ops fam (ev_connection c) p = (r1, p1)" by (meson surj_pair)
  obtain r2 p2 where dr: "onEngine (op_dropSnapshot ops fam (ev_connection c) (ev_template c)) p1 = (r2, p2)" by (meson surj_pair)
  obtain r3 p3 where sp: "dropSpares ops fam c p2 = (r3, p3)" by (meson surj_pair)
  show ?thesis using assms Some g dr sp
    by (cases r1; cases r2; cases r3) (auto simp: pool_drop_def bindA_def returnA_def outcome_def)
qed

lemma length_stepJob [simp]: "length (fst (stepJob ops cands i st)) = length (fst st)"
  by (simp add: stepJob_def split: prod.splits)

lemma length_fold_stepJob [simp]: "length (fst (fold (stepJob ops cands) sched st)) = length (fst st)"
  by (induction sched arbitrary: st) auto

text \<open>Every job finishes: three of its steps are enough.\<close>

fun stepsLeft :: "dropJob \<Rightarrow> nat" where
  "stepsLeft Waiting = 3"
| "stepsLeft Connected = 2"
| "stepsLeft Dropped = 1"
| "stepsLeft (Finished r) = 0"

lemma jobStep_stepsLeft: "stepsLeft (fst (jobStep ops c j p)) \<le> stepsLeft j - 1"
  by (cases j) (auto simp: outcome_def split: option.splits prod.splits sum.splits)

lemma stepJob_stepsLeft:
  assumes "k < length cands" "length jobs = length cands"
  shows "stepsLeft (fst (stepJob ops cands i (jobs, p)) ! k) \<le> stepsLeft (jobs ! k) - (if i = k then 1 else 0)"
  using assms jobStep_stepsLeft [of ops "cands ! k" "jobs ! k" p]
  by (auto simp: stepJob_def nth_list_update split: prod.splits)

lemma fold_stepsLeft:
  assumes "k < length cands" "length (fst st) = length cands"
  shows "stepsLeft (fst (fold (stepJob ops cands) sched st) ! k) \<le> stepsLeft (fst st ! k) - count_list sched k"
  using assms
proof (induction sched arbitrary: st)
  case (Cons i sched)
  obtain jobs p where st: "st = (jobs, p)" by (meson surj_pair)
  have "stepsLeft (fst (stepJob ops cands i st) ! k) \<le> stepsLeft (fst st ! k) - (if i = k then 1 else 0)"
    using stepJob_stepsLeft [of k cands jobs ops i p] Cons.prems st by (simp only: fst_conv)
  moreover have "stepsLeft (fst (fold (stepJob ops cands) sched (stepJob ops cands i st)) ! k) \<le>
      stepsLeft (fst (stepJob ops cands i st) ! k) - count_list sched k"
    using Cons.prems by (intro Cons.IH) simp_all
  ultimately show ?case by (auto split: if_splits)
qed simp

lemma count_rounds: "count_list (concat (map (\<lambda>i. [i, i, i]) xs)) k = 3 * count_list xs k"
  by (induction xs) auto

lemma count_upt: "k < n \<Longrightarrow> count_list [0..<n] k = 1"
  by (induction n) (auto simp: count_list_0_iff less_Suc_eq)

lemma runJobs_finished:
  assumes "length (fst st) = length cands" "k < length cands"
  shows "\<exists>r. fst (runJobs ops cands sched st) ! k = Finished r"
proof -
  let ?rounds = "sched @ concat (map (\<lambda>i. [i, i, i]) [0..<length cands])"
  have "3 \<le> count_list ?rounds k" using assms(2) by (simp add: count_rounds count_upt)
  moreover have "stepsLeft (fst st ! k) \<le> 3" by (cases "fst st ! k") auto
  ultimately have "stepsLeft (fst (runJobs ops cands sched st) ! k) = 0"
    using fold_stepsLeft [OF assms(2,1), of ops ?rounds] by (simp add: runJobs_def)
  then show ?thesis by (cases "fst (runJobs ops cands sched st) ! k") auto
qed

section \<open>What a server promises\<close>

text \<open>Namespaces disappear among \<open>F\<close>, none appears.\<close>

definition dropsOnly ::
  "('e \<Rightarrow> Family \<Rightarrow> string \<Rightarrow> string \<Rightarrow> bool) \<Rightarrow> (Family \<times> string) set \<Rightarrow> 'e \<Rightarrow> 'e \<Rightarrow> bool" where
  "dropsOnly live F e e' \<longleftrightarrow> (\<forall>fam c m. live e' fam c m = live e fam c m \<or> (fam, m) \<in> F \<and> \<not> live e' fam c m)"

lemma dropsOnly_refl: "reflp (dropsOnly live F)"
  by (simp add: reflp_def dropsOnly_def)

lemma dropsOnly_same [simp]: "dropsOnly live F e e"
  by (simp add: dropsOnly_def)

lemma dropsOnly_trans: "transp (dropsOnly live F)"
  by (rule transpI) (unfold dropsOnly_def, metis)

lemma dropsOnly_comp: "dropsOnly live F e e1 \<Longrightarrow> dropsOnly live F e1 e' \<Longrightarrow> dropsOnly live F e e'"
  by (rule transpD [OF dropsOnly_trans])

lemma dropsOnly_mono: "dropsOnly live F e e' \<Longrightarrow> F \<subseteq> G \<Longrightarrow> dropsOnly live G e e'"
  by (auto simp: dropsOnly_def)

lemma dropsOnly_gone: "dropsOnly live F e e' \<Longrightarrow> \<not> live e fam c m \<Longrightarrow> \<not> live e' fam c m"
  by (metis dropsOnly_def)

lemma dropsOnly_frame: "dropsOnly live F e e' \<Longrightarrow> (fam, m) \<notin> F \<Longrightarrow> live e' fam c m = live e fam c m"
  by (metis dropsOnly_def)

text \<open>What dropping a candidate may remove, and that its template is gone.\<close>

definition candTouch :: "(Family \<Rightarrow> string \<Rightarrow> string set) \<Rightarrow> SnapshotEvictionCandidate \<Rightarrow> (Family \<times> string) set" where
  "candTouch family c = (case Canonical (ev_engine c) of None \<Rightarrow> {} | Some fam \<Rightarrow> Pair fam ` family fam (ev_template c))"

definition candGone :: "('e \<Rightarrow> Family \<Rightarrow> string \<Rightarrow> string \<Rightarrow> bool) \<Rightarrow> 'e \<Rightarrow> SnapshotEvictionCandidate \<Rightarrow> bool" where
  "candGone live e c \<longleftrightarrow> (\<forall>fam. Canonical (ev_engine c) = Some fam \<longrightarrow> \<not> live e fam (ev_connection c) (ev_template c))"

locale template_server =
  fixes ops :: "'e connOps"
    and live :: "'e \<Rightarrow> Family \<Rightarrow> string \<Rightarrow> string \<Rightarrow> bool"
    and family :: "Family \<Rightarrow> string \<Rightarrow> string set"
  assumes dial_calm: "keeps (dropsOnly live {}) (op_dial ops fam c)"
    and close_calm: "keeps (dropsOnly live {}) (op_close ops fam c)"
    and exists_calm: "keeps (dropsOnly live {}) (op_exists ops fam c n)"
    and drop_only: "keeps (dropsOnly live (Pair fam ` family fam n)) (op_dropSnapshot ops fam c n)"
    and spares_only: "keeps (dropsOnly live (Pair fam ` family fam n)) (op_dropMatching ops fam c (n @ PrewarmSuffix))"
    and drop_gone: "op_dropSnapshot ops fam c n e = (Inr u, e') \<Longrightarrow> \<not> live e' fam c n"
    and exists_right: "op_exists ops fam c n e = (Inr b, e') \<Longrightarrow> b = live e fam c n"
begin

abbreviation calm :: "'e pool \<Rightarrow> 'e pool \<Rightarrow> bool" where
  "calm p p' \<equiv> dropsOnly live {} (snd p) (snd p')"

abbreviation touch :: "SnapshotEvictionCandidate \<Rightarrow> (Family \<times> string) set" where
  "touch \<equiv> candTouch family"

abbreviation gone :: "'e \<Rightarrow> SnapshotEvictionCandidate \<Rightarrow> bool" where
  "gone \<equiv> candGone live"

lemma gone_stays: "dropsOnly live F e e' \<Longrightarrow> gone e c \<Longrightarrow> gone e' c"
  unfolding candGone_def by (blast dest: dropsOnly_gone)

lemma onEngine_drops:
  assumes "keeps (dropsOnly live F) m" "onEngine m p = (r, p')"
  shows "dropsOnly live F (snd p) (snd p')"
proof -
  obtain x e where "m (snd p) = (x, e)" by (meson surj_pair)
  then show ?thesis using assms(2) keepsD [OF assms(1)] by (auto simp: onEngine_def)
qed

lemma pool_get_calm: "pool_get ops fam name p = (r, p') \<Longrightarrow> dropsOnly live F (snd p) (snd p')"
proof -
  assume run: "pool_get ops fam name p = (r, p')"
  obtain x p1 where d: "onEngine (op_dial ops fam name) p = (x, p1)" by (meson surj_pair)
  have "dropsOnly live F (snd p) (snd p1)" using onEngine_drops [OF dial_calm d] by (rule dropsOnly_mono) simp
  moreover have "snd p' = snd p \<or> snd p' = snd p1"
    using run d by (cases x; cases p1)
      (auto simp: pool_get_def bindA_def readA_def returnA_def raiseA_def modifyA_def split: if_splits)
  ultimately show ?thesis by auto
qed

lemma dropSpares_drops:
  assumes "dropSpares ops fam c p = (r, p')"
  shows "dropsOnly live (Pair fam ` family fam (ev_template c)) (snd p) (snd p')"
proof -
  obtain x p1 where d: "onEngine (op_dropMatching ops fam (ev_connection c) (ev_template c @ PrewarmSuffix)) p = (x, p1)"
    by (meson surj_pair)
  then have "p' = p1" using assms by (simp add: dropSpares_def wrapA_def)
  then show ?thesis using onEngine_drops [OF spares_only d] by simp
qed

lemma jobStep_effect:
  assumes "jobStep ops c j p = (j', p')" "j = Dropped \<Longrightarrow> gone (snd p) c" "j \<noteq> Finished None"
  shows "dropsOnly live (touch c) (snd p) (snd p') \<and> (j' = Dropped \<or> j' = Finished None \<longrightarrow> gone (snd p') c)"
proof (cases "Canonical (ev_engine c)")
  case None
  then show ?thesis using assms(1,3) by (cases j) (auto simp: candGone_def)
next
  case (Some fam)
  have touch: "touch c = Pair fam ` family fam (ev_template c)" using Some by (simp add: candTouch_def)
  show ?thesis
  proof (cases j)
    case Waiting
    then show ?thesis using assms(1) Some pool_get_calm [of fam "ev_connection c" p]
      by (cases "pool_get ops fam (ev_connection c) p") (auto simp: outcome_def split: sum.splits)
  next
    case Connected
    obtain x p1 where d: "onEngine (op_dropSnapshot ops fam (ev_connection c) (ev_template c)) p = (x, p1)" by (meson surj_pair)
    have "gone (snd p1) c" if "x = Inr u" for u
      using d that Some drop_gone by (auto simp: onEngine_def candGone_def split: prod.splits)
    then show ?thesis using assms(1) Connected Some d onEngine_drops [OF drop_only d]
      by (cases x) (auto simp: outcome_def touch)
  next
    case Dropped
    obtain x p1 where d: "dropSpares ops fam c p = (x, p1)" by (meson surj_pair)
    have "gone (snd p1) c" using assms(2) [OF Dropped] dropSpares_drops [OF d] by (rule gone_stays [rotated])
    then show ?thesis using assms(1) Dropped Some d dropSpares_drops [OF d]
      by (cases x) (auto simp: outcome_def touch)
  next
    case (Finished r)
    then show ?thesis using assms(1,3) by auto
  qed
qed

text \<open>
  The state of a batch in which the candidates of \<open>S\<close> are being dropped: the templates of finished jobs are gone,
  and nothing but what the candidates of \<open>S\<close> name has been removed.
\<close>

definition batchInv ::
  "SnapshotEvictionCandidate list \<Rightarrow> nat set \<Rightarrow> 'e \<Rightarrow> dropJob list \<times> 'e pool \<Rightarrow> bool" where
  "batchInv cands S e0 st \<longleftrightarrow>
     (case st of (jobs, p) \<Rightarrow>
        length jobs = length cands \<and> S \<subseteq> {..<length cands} \<and>
        (\<forall>i < length cands. i \<notin> S \<longrightarrow> jobs ! i = Finished None) \<and>
        (\<forall>i \<in> S. jobs ! i = Dropped \<or> jobs ! i = Finished None \<longrightarrow> gone (snd p) (cands ! i)) \<and>
        dropsOnly live (\<Union>i \<in> S. touch (cands ! i)) e0 (snd p))"

lemma stepJob_batchInv:
  assumes "batchInv cands S e0 st"
  shows "batchInv cands S e0 (stepJob ops cands k st)"
proof -
  obtain jobs p where st: "st = (jobs, p)" by (meson surj_pair)
  have len: "length jobs = length cands" using assms st by (simp add: batchInv_def)
  show ?thesis
  proof (cases "k \<in> S \<and> jobs ! k \<noteq> Finished None")
    case False
    then have "stepJob ops cands k st = st"
      using assms st by (auto simp: stepJob_def batchInv_def list_update_same_conv)
    then show ?thesis using assms by simp
  next
    case True
    obtain j p' where step: "jobStep ops (cands ! k) (jobs ! k) p = (j, p')" by (meson surj_pair)
    have k: "k < length cands" using True assms st by (auto simp: batchInv_def)
    have eff: "dropsOnly live (touch (cands ! k)) (snd p) (snd p')" "j = Dropped \<or> j = Finished None \<longrightarrow> gone (snd p') (cands ! k)"
      using jobStep_effect [OF step] True assms st by (auto simp: batchInv_def)
    have "dropsOnly live (\<Union>i \<in> S. touch (cands ! i)) (snd p) (snd p')"
      using eff(1) by (rule dropsOnly_mono) (use True in blast)
    moreover have "dropsOnly live (\<Union>i \<in> S. touch (cands ! i)) e0 (snd p)" using assms st by (simp add: batchInv_def)
    ultimately have "dropsOnly live (\<Union>i \<in> S. touch (cands ! i)) e0 (snd p')" by (rule dropsOnly_comp [rotated])
    moreover have "gone (snd p') (cands ! i)" if "gone (snd p) (cands ! i)" for i
      using gone_stays [OF eff(1) that] .
    moreover have "stepJob ops cands k st = (jobs[k := j], p')" using step st k len by (simp add: stepJob_def)
    ultimately show ?thesis using assms st True eff(2) k by (auto simp: batchInv_def nth_list_update)
  qed
qed

lemma runJobs_batchInv: "batchInv cands S e0 st \<Longrightarrow> batchInv cands S e0 (runJobs ops cands sched st)"
  unfolding runJobs_def
  by (induction "sched @ concat (map (\<lambda>i. [i, i, i]) [0..<length cands])" arbitrary: st rule: rev_induct)
    (auto intro: fold_invariant [where Q = "\<lambda>_. True" and P = "batchInv cands S e0"] stepJob_batchInv)

lemma pool_close_calm: "snd (pool_close ops p) = p' \<Longrightarrow> dropsOnly live F (snd p) (snd p')"
proof -
  have "keeps calm (onEngine (op_close ops fam name))" for fam name
    using onEngine_drops [OF close_calm] by (rule keepsI)
  moreover have "reflp calm" "transp calm"
    using dropsOnly_trans [of live "{}"] by (auto simp: reflp_def transp_def)
  ultimately have "keeps calm (pool_close ops)"
    unfolding pool_close_def by (intro keeps_intro) auto
  then have "calm p (snd (pool_close ops p))" unfolding keeps_def by blast
  then show "snd (pool_close ops p) = p' \<Longrightarrow> ?thesis" by (auto intro: dropsOnly_mono)
qed

text \<open>A batch as a whole: what failed has an error, what did not is gone.\<close>

lemma batch_effect:
  assumes S: "S \<subseteq> {..<length cands}"
    and run: "runJobs ops cands sched (map (\<lambda>i. if i \<in> S then Waiting else Finished None) [0..<length cands], conns, e) = (jobs, p)"
    and closed: "snd (pool_close ops p) = p'"
  shows "length jobs = length cands \<and> dropsOnly live (\<Union>i \<in> S. touch (cands ! i)) e (snd p') \<and>
    (\<forall>i \<in> S. jobResult (jobs ! i) = None \<longrightarrow> gone (snd p') (cands ! i)) \<and>
    (\<forall>i < length cands. i \<notin> S \<longrightarrow> jobResult (jobs ! i) = None)"
proof -
  let ?st = "(map (\<lambda>i. if i \<in> S then Waiting else Finished None) [0..<length cands], conns, e)"
  have "batchInv cands S e ?st" using S by (auto simp: batchInv_def)
  from runJobs_batchInv [OF this, of sched] have inv: "batchInv cands S e (jobs, p)" using run by simp
  have close: "dropsOnly live F (snd p) (snd p')" for F using pool_close_calm [OF closed] .
  have fin: "\<exists>r. jobs ! i = Finished r" if "i < length cands" for i
    using runJobs_finished [of ?st cands i ops sched] run that by simp
  have "gone (snd p') (cands ! i)" if i: "i \<in> S" "jobResult (jobs ! i) = None" for i
  proof -
    obtain r where "jobs ! i = Finished r" using fin [of i] i(1) S by blast
    then have "jobs ! i = Finished None" using i(2) by (simp add: jobResult_def)
    then have "gone (snd p) (cands ! i)" using inv i by (simp add: batchInv_def)
    then show ?thesis using close by (rule gone_stays [rotated])
  qed
  moreover have "dropsOnly live (\<Union>i \<in> S. touch (cands ! i)) e (snd p')"
    using inv close by (auto simp: batchInv_def intro: dropsOnly_comp)
  ultimately show ?thesis using inv by (auto simp: batchInv_def jobResult_def)
qed

end

text \<open>The file-backed engines keep the promise: a database file with its sidecars and clones is a family.\<close>

definition fileLive :: "fs \<Rightarrow> Family \<Rightarrow> string \<Rightarrow> string \<Rightarrow> bool" where
  "fileLive s fam name n \<longleftrightarrow> fam = FamilyFile \<and> fileAt s n \<noteq> None"

definition fileFamily :: "Family \<Rightarrow> string \<Rightarrow> string set" where
  "fileFamily fam n = dbFiles n \<union> familyFiles (n @ PrewarmSuffix)"

lemma removesOnly_drops: "removesOnly Q s s' \<Longrightarrow> dropsOnly fileLive (Pair FamilyFile ` Q) s s'"
  unfolding removesOnly_def dropsOnly_def fileLive_def by (metis image_eqI)

lemma Exists_result: "Exists p s = (Inr b, s') \<Longrightarrow> b = (fileAt s p \<noteq> None)"
  by (auto simp: Exists_def Stat_def syscall_def bindA_def tryA_def returnA_def raiseA_def IsNotExist_def ErrNotExist_def
      split: list.splits option.splits if_splits)

lemma fileOnly_keeps: "(fam = FamilyFile \<Longrightarrow> keeps (dropsOnly fileLive F) m) \<Longrightarrow> keeps (dropsOnly fileLive F) (fileOnly fam m)"
  unfolding fileOnly_def by (auto intro: keeps_intro dropsOnly_refl)

interpretation files: template_server fileConnOps fileLive fileFamily
proof
  fix fam :: Family and c n :: string
  show "keeps (dropsOnly fileLive {}) (op_dial fileConnOps fam c)" "keeps (dropsOnly fileLive {}) (op_close fileConnOps fam c)"
    by (simp_all add: fileConnOps_def keeps_returnA dropsOnly_refl)
  have "keeps (removesOnly {}) (fileConn_Exists n)"
    unfolding fileConn_Exists_def bind_absName Exists_def
    by (intro keeps_intro removesOnly_refl removesOnly_trans removes_calls)
  then show "keeps (dropsOnly fileLive {}) (op_exists fileConnOps fam c n)"
    using removesOnly_drops [of "{}"] by (auto simp: fileConnOps_def intro!: fileOnly_keeps elim!: keeps_mono)
  have "keeps (removesOnly (fileFamily fam n)) (fileConn_DropSnapshot n)"
    using DropSnapshot_keeps by (rule keeps_mono) (auto simp: fileFamily_def intro: removesOnly_mono)
  then show "keeps (dropsOnly fileLive (Pair fam ` fileFamily fam n)) (op_dropSnapshot fileConnOps fam c n)"
    by (auto simp: fileConnOps_def intro!: fileOnly_keeps intro: removesOnly_drops elim: keeps_mono)
  have "keeps (removesOnly (fileFamily fam n)) (fileConn_DropMatching (n @ PrewarmSuffix))"
    using DropMatching_keeps by (rule keeps_mono) (auto simp: fileFamily_def intro: removesOnly_mono)
  then show "keeps (dropsOnly fileLive (Pair fam ` fileFamily fam n)) (op_dropMatching fileConnOps fam c (n @ PrewarmSuffix))"
    by (auto simp: fileConnOps_def intro!: fileOnly_keeps intro: removesOnly_drops elim: keeps_mono)
next
  fix fam :: Family and c n :: string and e e' :: fs and u
  assume "op_dropSnapshot fileConnOps fam c n e = (Inr u, e')"
  then show "\<not> fileLive e' fam c n"
    using dbFiles_mem(1) [of n] by (auto simp: fileConnOps_def fileOnly_def fileLive_def raiseA_def split: if_splits dest: DropSnapshot_gone)
next
  fix fam :: Family and c n :: string and e e' :: fs and b
  assume "op_exists fileConnOps fam c n e = (Inr b, e')"
  then show "b = fileLive e fam c n"
    by (auto simp: fileConnOps_def fileOnly_def fileLive_def raiseA_def fileConn_Exists_def bind_absName split: if_splits dest: Exists_result)
qed

end
