(* ===== verification/SnapshotGC.thy ===== *)
theory SnapshotGC
  imports EngineConn
begin

text \<open>
  The collectors of cached templates: pins (\<open>internal/snapshot/pin.go\<close>), the retention sweeps, the purge of a
  repository and the pruning of rows whose template is gone (\<open>internal/snapshot/gc.go\<close>), and the search for
  templates without a row (\<open>internal/snapshot/orphans.go\<close>).

  Pins belong to other goroutines: before each look at a pin the next batch of \<open>gc_pinScript\<close> happens, and
  \<open>gc_ctx\<close> scripts what \<open>ctx.Err()\<close> returns.  \<open>gc_log\<close> holds the events written.
\<close>

section \<open>Model\<close>

subsection \<open>Pins\<close>

text \<open>A handle is the release function a caller got: its fingerprint, and whether releasing it still does something.\<close>

record pinState =
  pinCount :: "string \<rightharpoonup> int"
  handles :: "(string \<times> bool) list"

definition countOf :: "(string \<rightharpoonup> int) \<Rightarrow> string \<Rightarrow> int" where
  "countOf m fp = (case m fp of Some n \<Rightarrow> n | None \<Rightarrow> 0)"

definition Pin :: "string \<Rightarrow> pinState \<Rightarrow> pinState" where
  "Pin fingerprint st =
     (if fingerprint = [] then st\<lparr>handles := handles st @ [(fingerprint, False)]\<rparr>
      else st\<lparr>pinCount := (pinCount st)(fingerprint \<mapsto> countOf (pinCount st) fingerprint + 1),
              handles := handles st @ [(fingerprint, True)]\<rparr>)"

definition release :: "nat \<Rightarrow> pinState \<Rightarrow> pinState" where
  "release h st =
     (if h < length (handles st) \<and> snd (handles st ! h) then
        let fp = fst (handles st ! h)
        in st\<lparr>handles := (handles st)[h := (fp, False)],
              pinCount := (if countOf (pinCount st) fp \<le> 1 then (pinCount st)(fp := None)
                           else (pinCount st)(fp \<mapsto> countOf (pinCount st) fp - 1))\<rparr>
      else st)"

definition IsPinned :: "string \<Rightarrow> pinState \<Rightarrow> bool" where
  "IsPinned fingerprint st \<longleftrightarrow> fingerprint \<noteq> [] \<and> 0 < countOf (pinCount st) fingerprint"

datatype pinOp = PinOp string | ReleaseOp nat

fun applyPin :: "pinOp \<Rightarrow> pinState \<Rightarrow> pinState" where
  "applyPin (PinOp fp) st = Pin fp st"
| "applyPin (ReleaseOp h) st = release h st"

definition noPins :: pinState where
  "noPins = \<lparr>pinCount = Map.empty, handles = []\<rparr>"

inductive pinReach :: "pinState \<Rightarrow> bool" where
  "pinReach noPins"
| "pinReach st \<Longrightarrow> pinReach (applyPin op st)"

subsection \<open>The collectors' world\<close>

record 'e gcWorld =
  gc_db :: snapDB
  gc_engine :: 'e
  gc_pins :: pinState
  gc_pinScript :: "pinOp list list"
  gc_ctx :: "go_error option list"
  gc_log :: "(string \<times> string \<times> int \<times> string) list"

definition onDB :: "(snapDB, 'a) action \<Rightarrow> ('e gcWorld, 'a) action" where
  "onDB m w = (case m (gc_db w) of (r, d) \<Rightarrow> (r, w\<lparr>gc_db := d\<rparr>))"

definition onServer :: "('e, 'a) action \<Rightarrow> ('e gcWorld, 'a) action" where
  "onServer m w = (case m (gc_engine w) of (r, e) \<Rightarrow> (r, w\<lparr>gc_engine := e\<rparr>))"

definition checkPin :: "string \<Rightarrow> ('e gcWorld, bool) action" where
  "checkPin fp w =
     (case gc_pinScript w of
        [] \<Rightarrow> (Inr (IsPinned fp (gc_pins w)), w)
      | ops # later \<Rightarrow>
          let pins = fold applyPin ops (gc_pins w)
          in (Inr (IsPinned fp pins), w\<lparr>gc_pins := pins, gc_pinScript := later\<rparr>))"

definition ctxErr :: "('e gcWorld, go_error option) action" where
  "ctxErr w = (case gc_ctx w of [] \<Rightarrow> (Inr None, w) | e # later \<Rightarrow> (Inr e, w\<lparr>gc_ctx := later\<rparr>))"

definition WriteEvent :: "string \<Rightarrow> string \<Rightarrow> int \<Rightarrow> string \<Rightarrow> ('e gcWorld, unit) action" where
  "WriteEvent eventType msg repo fp = modifyA (\<lambda>w. w\<lparr>gc_log := gc_log w @ [(eventType, msg, repo, fp)]\<rparr>)"

subsection \<open>Eviction\<close>

fun checkPins :: "SnapshotEvictionCandidate list \<Rightarrow> ('e gcWorld, bool list) action" where
  "checkPins [] = returnA []"
| "checkPins (c # cs) = bindA (checkPin (ev_fingerprint c)) (\<lambda>b. bindA (checkPins cs) (\<lambda>bs. returnA (b # bs)))"

text \<open>The first pass: a job for every candidate that is not pinned; the result of the others is nil.\<close>

definition dropPhase ::
  "'e connOps \<Rightarrow> nat list \<Rightarrow> SnapshotEvictionCandidate list \<Rightarrow> bool list \<Rightarrow> ('e gcWorld, go_error option list) action" where
  "dropPhase ops sched cands pinned w =
     (let start = map (\<lambda>i. if i < length pinned \<and> \<not> pinned ! i then Waiting else Finished None) [0..<length cands]
      in case runJobs ops cands sched (start, [], gc_engine w) of
           (jobs, p) \<Rightarrow> (Inr (map jobResult jobs), w\<lparr>gc_engine := snd (snd (pool_close ops p))\<rparr>))"

fun rowPhase ::
  "string \<Rightarrow> (SnapshotEvictionCandidate \<Rightarrow> string) \<Rightarrow> int \<Rightarrow> (SnapshotEvictionCandidate \<times> go_error option) list \<Rightarrow>
     ('e gcWorld, unit) action" where
  "rowPhase eventType msg repo [] = returnA ()"
| "rowPhase eventType msg repo ((c, res) # rs) =
     (if res \<noteq> None then rowPhase eventType msg repo rs
      else
        bindA (checkPin (ev_fingerprint c)) (\<lambda>pinned.
          if pinned then rowPhase eventType msg repo rs
          else
            bindA (ignoreA (onDB (DeleteSnapshot (ev_fingerprint c)))) (\<lambda>_.
            bindA (WriteEvent eventType (msg c) repo (ev_fingerprint c)) (\<lambda>_.
              rowPhase eventType msg repo rs))))"

definition evictCandidates ::
  "'e connOps \<Rightarrow> nat list \<Rightarrow> SnapshotEvictionCandidate list \<Rightarrow> int \<Rightarrow> string \<Rightarrow> (SnapshotEvictionCandidate \<Rightarrow> string) \<Rightarrow>
     ('e gcWorld, unit) action" where
  "evictCandidates ops sched cands repo eventType msg =
     bindA (checkPins cands) (\<lambda>pinned.
     bindA (dropPhase ops sched cands pinned) (\<lambda>results.
       rowPhase eventType msg repo (zip cands results)))"

text \<open>A sweep whose query fails logs the error and stops.\<close>

definition sweep ::
  "(snapDB, 'c) action \<Rightarrow> ('c \<Rightarrow> ('e gcWorld, unit) action) \<Rightarrow> ('e gcWorld, unit) action" where
  "sweep query evict =
     bindA (tryA (onDB query)) (\<lambda>r. case r of Inl _ \<Rightarrow> returnA () | Inr cands \<Rightarrow> evict cands)"

definition EvictExcess :: "'e connOps \<Rightarrow> nat list \<Rightarrow> u32 \<Rightarrow> int \<Rightarrow> ('e gcWorld, unit) action" where
  "EvictExcess ops sched capPerRepo repo =
     sweep (ListLRUEvictable repo (unat capPerRepo)) (\<lambda>cands.
       evictCandidates ops sched cands repo ''snapshots:evict:cap''
         (\<lambda>c. ''evicted '' @ ev_template c @ '' ('' @ ev_engine c @ '')''))"

definition SweepBySource :: "'e connOps \<Rightarrow> nat list \<Rightarrow> u32 \<Rightarrow> ('e gcWorld, unit) action" where
  "SweepBySource ops sched keep =
     (if keep = 0 then returnA ()
      else sweep (ListSnapshotsBeyondPerSource (unat keep)) (\<lambda>cands.
        evictCandidates ops sched cands 0 ''snapshots:evict:source''
          (\<lambda>c. ''evicted '' @ ev_template c @ '' (over keep_per_source='' @ Itoa (uint keep) @ '')'')))"

text \<open>\<open>-time.Duration(days) * 24 * time.Hour\<close>, in nanoseconds on 64 bits, and the cutoff in milliseconds.\<close>

definition ageDuration :: "u32 \<Rightarrow> int" where
  "ageDuration days = sint (- (ucast days :: 64 word) * 24 * 3600000000000)"

definition ageCutoff :: "int \<Rightarrow> u32 \<Rightarrow> int" where
  "ageCutoff now days = (now * 1000000 + ageDuration days) div 1000000"

definition SweepByAge :: "'e connOps \<Rightarrow> nat list \<Rightarrow> u32 \<Rightarrow> ('e gcWorld, unit) action" where
  "SweepByAge ops sched days w =
     (if days = 0 then returnA ()
      else sweep (ListSnapshotsOlderThan (ageCutoff (nowMillis (gc_db w)) days)) (\<lambda>cands.
        evictCandidates ops sched cands 0 ''snapshots:evict:age''
          (\<lambda>c. ''evicted '' @ ev_template c @ '' (older than '' @ Itoa (uint days) @ ''d)''))) w"

text \<open>\<open>int64(gb) * 1024 * 1024 * 1024\<close>\<close>

definition capBytes :: "u32 \<Rightarrow> int" where
  "capBytes gb = sint ((ucast gb :: 64 word) * 1024 * 1024 * 1024)"

fun sizeLoop ::
  "'e connOps \<Rightarrow> int \<Rightarrow> int \<Rightarrow> (SnapshotEvictionCandidate \<times> int) list \<Rightarrow> ('e gcWorld, unit) action" where
  "sizeLoop ops cap tot [] = returnA ()"
| "sizeLoop ops cap tot ((c, sz) # cs) =
     (if tot \<le> cap then returnA ()
      else
        bindA (checkPin (ev_fingerprint c)) (\<lambda>pinned.
          if pinned then sizeLoop ops cap tot cs
          else
            bindA (tryA (onServer (DropTemplate ops c))) (\<lambda>r.
              case r of
                Inl _ \<Rightarrow> sizeLoop ops cap tot cs
              | Inr _ \<Rightarrow>
                  bindA (ignoreA (onDB (DeleteSnapshot (ev_fingerprint c)))) (\<lambda>_.
                  bindA (WriteEvent ''snapshots:evict:size''
                      (''evicted '' @ ev_template c @ '' (size='' @ Itoa sz @ '')'') 0 (ev_fingerprint c)) (\<lambda>_.
                    sizeLoop ops cap (tot - sz) cs)))))"

definition SweepBySize :: "'e connOps \<Rightarrow> u32 \<Rightarrow> ('e gcWorld, unit) action" where
  "SweepBySize ops gb =
     (if gb = 0 then returnA ()
      else
        sweep SumSnapshotBytes (\<lambda>tot.
          if tot \<le> capBytes gb then returnA ()
          else sweep ListSnapshotsLargestLRU (\<lambda>cands. sizeLoop ops (capBytes gb) tot cands)))"

subsection \<open>Purge and pruning\<close>

fun purgeLoop ::
  "'e connOps \<Rightarrow> int \<Rightarrow> SnapshotEvictionCandidate list \<Rightarrow> connKey list \<Rightarrow> nat \<Rightarrow> go_error list \<Rightarrow>
     ('e gcWorld, connKey list \<times> nat \<times> go_error list) action" where
  "purgeLoop ops repo [] conns dropped errs = returnA (conns, dropped, errs)"
| "purgeLoop ops repo (c # cs) conns dropped errs =
     bindA ctxErr (\<lambda>stop.
       case stop of
         Some e \<Rightarrow> returnA (conns, dropped, errs @ [Wrapf (''purge stopped before '' @ ev_template c @ '': '') e []])
       | None \<Rightarrow>
           bindA (onServer (\<lambda>e. case pool_drop ops c (conns, e) of (r, (conns', e')) \<Rightarrow> (Inr (r, conns'), e'))) (\<lambda>(r, conns').
             case r of
               Inl e \<Rightarrow> purgeLoop ops repo cs conns' dropped
                 (errs @ [Wrapf (''drop '' @ ev_template c @ '' ('' @ ev_engine c @ ''): '') e []])
             | Inr _ \<Rightarrow>
                 bindA (tryA (onDB (DeleteSnapshot (ev_fingerprint c)))) (\<lambda>d.
                   case d of
                     Inl e \<Rightarrow> purgeLoop ops repo cs conns' dropped
                       (errs @ [Wrapf (''delete row '' @ ev_fingerprint c @ '': '') e []])
                   | Inr _ \<Rightarrow>
                       bindA (WriteEvent ''snapshots:purge'' (''purged '' @ ev_template c @ '' ('' @ ev_engine c @ '')'')
                         repo (ev_fingerprint c)) (\<lambda>_.
                         purgeLoop ops repo cs conns' (dropped + 1) errs))))"

definition PurgeRepo :: "'e connOps \<Rightarrow> int \<Rightarrow> ('e gcWorld, nat \<times> go_error list) action" where
  "PurgeRepo ops repo =
     bindA (tryA (onDB (ListSnapshotsForRepo repo))) (\<lambda>r.
       case r of
         Inl e \<Rightarrow> returnA (0, [e])
       | Inr cands \<Rightarrow>
           bindA (purgeLoop ops repo cands [] 0 []) (\<lambda>(conns, dropped, errs).
           bindA (onServer (\<lambda>e. (Inr (), snd (snd (pool_close ops (conns, e)))))) (\<lambda>_.
             returnA (dropped, errs))))"

record PruneResult =
  pr_engine :: string
  pr_template :: string
  pr_fingerprint :: string

definition pruneOf :: "SnapshotEvictionCandidate \<Rightarrow> PruneResult" where
  "pruneOf c = \<lparr>pr_engine = ev_engine c, pr_template = ev_template c, pr_fingerprint = ev_fingerprint c\<rparr>"

text \<open>An engine that is unconfigured, unreachable or cannot answer contributes nothing.\<close>

fun orphanRows ::
  "'e connOps \<Rightarrow> SnapshotEvictionCandidate list \<Rightarrow> connKey list \<Rightarrow> PruneResult list \<Rightarrow>
     ('e gcWorld, connKey list \<times> PruneResult list) action" where
  "orphanRows ops [] conns orphans = returnA (conns, orphans)"
| "orphanRows ops (c # cs) conns orphans =
     bindA (checkPin (ev_fingerprint c)) (\<lambda>pinned.
       if pinned then orphanRows ops cs conns orphans
       else
         case Canonical (ev_engine c) of
           None \<Rightarrow> orphanRows ops cs conns orphans
         | Some fam \<Rightarrow>
             bindA (onServer (\<lambda>e. case pool_get ops fam (ev_connection c) (conns, e) of (r, (conns', e')) \<Rightarrow> (Inr (r, conns'), e')))
               (\<lambda>(r, conns').
                 case r of
                   Inl _ \<Rightarrow> orphanRows ops cs conns' orphans
                 | Inr _ \<Rightarrow>
                     bindA (tryA (onServer (op_exists ops fam (ev_connection c) (ev_template c)))) (\<lambda>p.
                       case p of
                         Inr False \<Rightarrow> orphanRows ops cs conns' (orphans @ [pruneOf c])
                       | _ \<Rightarrow> orphanRows ops cs conns' orphans)))"

definition FindRowOrphans :: "'e connOps \<Rightarrow> int \<Rightarrow> ('e gcWorld, PruneResult list \<times> go_error list) action" where
  "FindRowOrphans ops repo =
     bindA (tryA (onDB (ListSnapshotsForRepo repo))) (\<lambda>r.
       case r of
         Inl e \<Rightarrow> returnA ([], [Wrapf ''list snapshots: '' e []])
       | Inr cands \<Rightarrow>
           bindA (orphanRows ops cands [] []) (\<lambda>(conns, orphans).
           bindA (onServer (\<lambda>e. (Inr (), snd (snd (pool_close ops (conns, e)))))) (\<lambda>_.
             returnA (orphans, []))))"

fun pruneLoop ::
  "int \<Rightarrow> PruneResult list \<Rightarrow> PruneResult list \<Rightarrow> go_error list \<Rightarrow> ('e gcWorld, PruneResult list \<times> go_error list) action" where
  "pruneLoop repo [] pruned errs = returnA (pruned, errs)"
| "pruneLoop repo (o1 # orphans) pruned errs =
     bindA (tryA (onDB (DeleteSnapshot (pr_fingerprint o1)))) (\<lambda>d.
       case d of
         Inl e \<Rightarrow> pruneLoop repo orphans pruned (errs @ [Wrapf (''delete row '' @ pr_fingerprint o1 @ '': '') e []])
       | Inr _ \<Rightarrow>
           bindA (WriteEvent ''snapshots:prune:orphan''
             (''pruned orphan snapshot row '' @ pr_template o1 @ '' ('' @ pr_engine o1 @ '': template gone)'') repo (pr_fingerprint o1)) (\<lambda>_.
             pruneLoop repo orphans (pruned @ [o1]) errs))"

definition PruneRowOrphans :: "'e connOps \<Rightarrow> int \<Rightarrow> ('e gcWorld, PruneResult list \<times> go_error list) action" where
  "PruneRowOrphans ops repo =
     bindA (FindRowOrphans ops repo) (\<lambda>(orphans, errs). pruneLoop repo orphans [] errs)"

subsection \<open>Templates without a row\<close>

record Orphan =
  or_family :: Family
  or_name :: string

definition orphanFamilies :: "Family list" where
  "orphanFamilies = [FamilyMySQL, FamilyPostgres, FamilyMongo, FamilyES, FamilyRedis]"

definition templatePattern :: "Family \<Rightarrow> string \<times> (string \<Rightarrow> string option)" where
  "templatePattern fam =
     (if fam = FamilyES then (''tm_'', esTemplatePrefix)
      else if fam = FamilyRedis then (''_tm:'', redisTemplatePrefix)
      else (''_tm_'', nameScopedTemplate))"

fun dedupe :: "(string \<Rightarrow> string option) \<Rightarrow> string list \<Rightarrow> string list \<Rightarrow> string list" where
  "dedupe re [] out = out"
| "dedupe re (n # ns) out =
     (case re n of None \<Rightarrow> dedupe re ns out | Some m \<Rightarrow> if m \<in> set out then dedupe re ns out else dedupe re ns (out @ [m]))"

definition listTemplates :: "'e connOps \<Rightarrow> Family \<Rightarrow> ('e, string list) action" where
  "listTemplates ops fam =
     (if fam = FamilyFile then returnA []
      else bindA (op_listMatching ops fam [] (fst (templatePattern fam))) (\<lambda>names.
        returnA (dedupe (snd (templatePattern fam)) names [])))"

fun orphanLoop ::
  "'e connOps \<Rightarrow> string list \<Rightarrow> Family list \<Rightarrow> Orphan list \<Rightarrow> ('e, Orphan list \<times> go_error option) action" where
  "orphanLoop ops known [] out = returnA (out, None)"
| "orphanLoop ops known (fam # fams) out =
     (if \<not> op_configured ops fam [] then orphanLoop ops known fams out
      else
        bindA (tryA (op_dial ops fam [])) (\<lambda>dialled.
          case dialled of
            Inl e \<Rightarrow> returnA (out, Some (Wrapf (''connect '' @ label fam @ '': '') e []))
          | Inr _ \<Rightarrow>
              bindA (tryA (listTemplates ops fam)) (\<lambda>names.
              bindA (ignoreA (op_close ops fam [])) (\<lambda>_.
                case names of
                  Inl e \<Rightarrow> returnA (out, Some (Wrapf (''list '' @ label fam @ '' templates: '') e []))
                | Inr ns \<Rightarrow> orphanLoop ops known fams
                    (out @ map (\<lambda>n. \<lparr>or_family = fam, or_name = n\<rparr>) (filter (\<lambda>n. n \<notin> set known) ns))))))"

text \<open>On an error the orphans found so far are returned unsorted.\<close>

definition FindOrphans :: "'e connOps \<Rightarrow> ('e gcWorld, Orphan list \<times> go_error option) action" where
  "FindOrphans ops =
     bindA (tryA (onDB ListAllTemplateNames)) (\<lambda>r.
       case r of
         Inl e \<Rightarrow> returnA ([], Some (Wrapf ''list snapshot rows: '' e []))
       | Inr known \<Rightarrow>
           bindA (onServer (orphanLoop ops known orphanFamilies [])) (\<lambda>(out, err).
             returnA (if err = None then (sort_key (\<lambda>x. label (or_family x)) (sort_key or_name out), None) else (out, err))))"

fun dropOrphansLoop ::
  "'e connOps \<Rightarrow> Orphan list \<Rightarrow> nat \<Rightarrow> go_error list \<Rightarrow> ('e pool, nat \<times> go_error list) action" where
  "dropOrphansLoop ops [] dropped errs = returnA (dropped, errs)"
| "dropOrphansLoop ops (x # xs) dropped errs =
     bindA (tryA (pool_get ops (or_family x) [])) (\<lambda>g.
       case g of
         Inl e \<Rightarrow> dropOrphansLoop ops xs dropped
           (errs @ [if op_configured ops (or_family x) [] then Wrapf (''connect '' @ label (or_family x) @ '': configured=true err='') e []
                    else NewError (''connect '' @ label (or_family x) @ '': configured=false err=%!w(<nil>)'')])
       | Inr _ \<Rightarrow>
           bindA (tryA (onEngine (op_dropSnapshot ops (or_family x) [] (or_name x)))) (\<lambda>r.
             case r of
               Inl e \<Rightarrow> dropOrphansLoop ops xs dropped
                 (errs @ [Wrapf (''drop '' @ label (or_family x) @ '' '' @ or_name x @ '': '') e []])
             | Inr _ \<Rightarrow>
                 bindA (tryA (onEngine (op_dropMatching ops (or_family x) [] (or_name x @ PrewarmSuffix)))) (\<lambda>r2.
                   case r2 of
                     Inl e \<Rightarrow> dropOrphansLoop ops xs dropped
                       (errs @ [Wrapf (''drop '' @ label (or_family x) @ '' spare family '' @ or_name x @ PrewarmSuffix @ ''*: '') e []])
                   | Inr _ \<Rightarrow> dropOrphansLoop ops xs (dropped + 1) errs)))"

definition DropOrphans :: "'e connOps \<Rightarrow> Orphan list \<Rightarrow> ('e, nat \<times> go_error list) action" where
  "DropOrphans ops orphans e =
     (case dropOrphansLoop ops orphans 0 [] ([], e) of (r, p) \<Rightarrow> (r, snd (snd (pool_close ops p))))"

definition SpareCounts :: "'e connOps \<Rightarrow> ('e, string \<Rightarrow> nat) action" where
  "SpareCounts ops =
     (if \<not> op_configured ops FamilyPostgres [] then returnA (\<lambda>_. 0)
      else
        bindA (op_dial ops FamilyPostgres []) (\<lambda>_.
        bindA (tryA (op_listMatching ops FamilyPostgres [] ''_tm_'')) (\<lambda>names.
        bindA (ignoreA (op_close ops FamilyPostgres [])) (\<lambda>_.
          case names of
            Inl e \<Rightarrow> raiseA e
          | Inr ns \<Rightarrow> returnA (count_list (List.map_filter spareNamePattern ns))))))"

section \<open>Lemmas\<close>

subsection \<open>Pins\<close>

definition liveHandles :: "pinState \<Rightarrow> string \<Rightarrow> nat" where
  "liveHandles st fp = count (mset (handles st)) (fp, True)"

definition pinInv :: "pinState \<Rightarrow> bool" where
  "pinInv st \<longleftrightarrow> ([], True) \<notin> set (handles st) \<and>
     (\<forall>fp. pinCount st fp = (if liveHandles st fp = 0 then None else Some (int (liveHandles st fp))))"

lemma countOf_live: "pinInv st \<Longrightarrow> countOf (pinCount st) fp = int (liveHandles st fp)"
  by (auto simp: pinInv_def countOf_def)

lemma Pin_inv: "pinInv st \<Longrightarrow> pinInv (Pin fp st)"
  using countOf_live [of st fp] by (auto simp: pinInv_def Pin_def liveHandles_def)

lemma release_inv:
  assumes inv: "pinInv st"
  shows "pinInv (release h st)"
proof (cases "h < length (handles st) \<and> snd (handles st ! h)")
  case True
  define fp where "fp = fst (handles st ! h)"
  have h: "handles st ! h = (fp, True)" "h < length (handles st)" using True by (auto simp: fp_def prod_eq_iff)
  then have mem: "(fp, True) \<in># mset (handles st)" by (metis nth_mem set_mset_mset)
  then have pos: "0 < liveHandles st fp" by (simp add: liveHandles_def)
  have "count (mset ((handles st)[h := (fp, False)])) (x, True) = liveHandles st x - (if x = fp then 1 else 0)" for x
    using h by (simp add: mset_update liveHandles_def)
  then have live: "liveHandles (release h st) x = liveHandles st x - (if x = fp then 1 else 0)" for x
    using True h by (simp add: release_def Let_def liveHandles_def [of "release h st"] liveHandles_def)
  have cnt: "pinCount (release h st) = (if countOf (pinCount st) fp \<le> 1 then (pinCount st)(fp := None)
      else (pinCount st)(fp \<mapsto> countOf (pinCount st) fp - 1))"
    using True h by (simp add: release_def Let_def)
  have "([], True) \<notin> set (handles (release h st))"
    using inv True h set_update_subset_insert [of "handles st" h "(fp, False)"] by (auto simp: release_def Let_def pinInv_def)
  moreover have "pinCount (release h st) x = (if liveHandles (release h st) x = 0 then None else Some (int (liveHandles (release h st) x)))" for x
    using inv pos countOf_live [OF inv, of fp] by (auto simp: live cnt pinInv_def)
  ultimately show ?thesis by (simp add: pinInv_def)
next
  case False
  then have "release h st = st" by (simp only: release_def if_False)
  then show ?thesis using inv by simp
qed

lemma pinReach_inv: "pinReach st \<Longrightarrow> pinInv st"
proof (induction rule: pinReach.induct)
  case 1
  then show ?case by (simp add: pinInv_def noPins_def liveHandles_def)
next
  case (2 st op)
  then show ?case by (cases op) (simp_all add: Pin_inv release_inv)
qed

text \<open>Nobody pins or releases while a collector runs.\<close>

definition pinsHeld :: "'e gcWorld \<Rightarrow> bool" where
  "pinsHeld w \<longleftrightarrow> list_all (\<lambda>ops. ops = []) (gc_pinScript w)"

lemma checkPin_held:
  assumes "pinsHeld w"
  shows "\<exists>w'. checkPin fp w = (Inr (IsPinned fp (gc_pins w)), w') \<and> pinsHeld w' \<and> gc_pins w' = gc_pins w \<and>
    gc_db w' = gc_db w \<and> gc_engine w' = gc_engine w"
  using assms by (cases "gc_pinScript w") (auto simp: checkPin_def pinsHeld_def)

lemma checkPins_held:
  "pinsHeld w \<Longrightarrow> \<exists>w'. checkPins cands w = (Inr (map (\<lambda>c. IsPinned (ev_fingerprint c) (gc_pins w)) cands), w') \<and> pinsHeld w' \<and>
    gc_pins w' = gc_pins w \<and> gc_db w' = gc_db w \<and> gc_engine w' = gc_engine w"
proof (induction cands arbitrary: w)
  case (Cons c cands)
  obtain w1 where w1: "checkPin (ev_fingerprint c) w = (Inr (IsPinned (ev_fingerprint c) (gc_pins w)), w1)" "pinsHeld w1"
    "gc_pins w1 = gc_pins w" "gc_db w1 = gc_db w" "gc_engine w1 = gc_engine w" using checkPin_held [OF Cons.prems] by blast
  then show ?case using Cons.IH [OF w1(2)] by (auto simp: bindA_def returnA_def)
qed (simp add: returnA_def)

subsection \<open>Rows\<close>

abbreviation rowsOf :: "'e gcWorld \<Rightarrow> snapshotRow list" where
  "rowsOf w \<equiv> snapshots (tables (gc_db w))"

lemma delete_alone:
  assumes "alone (gc_db w)" "onDB (DeleteSnapshot fp) w = (r, w')"
  shows "\<exists>d. w' = w\<lparr>gc_db := d\<rparr> \<and> alone d \<and>
    snapshots (tables d) = (case r of Inl _ \<Rightarrow> rowsOf w | Inr _ \<Rightarrow> filter (\<lambda>x. fpOf x \<noteq> fp) (rowsOf w))"
proof -
  obtain r1 d where run: "Exec applySnapOp (\<lambda>t. Inr (deleteFp fp t)) (gc_db w) = (r1, d)" by (meson surj_pair)
  have eff: "alone d" "tables d = (case r1 of None \<Rightarrow> deleteFp fp (tables (gc_db w)) | Some e \<Rightarrow> tables (gc_db w))"
    using Exec_alone [OF assms(1) run] by (auto split: option.splits)
  have "w' = w\<lparr>gc_db := d\<rparr> \<and> r = (case r1 of None \<Rightarrow> Inr () | Some e \<Rightarrow> Inl e)"
    using assms(2) run by (cases r1) (simp_all add: onDB_def DeleteSnapshot_def optionA_def)
  then show ?thesis using eff by (cases r1) (auto simp: deleteFp_def)
qed

lemma delete_quiet:
  assumes "quiet (gc_db w)" "onDB (DeleteSnapshot fp) w = (r, w')"
  shows "r = Inr () \<and> quiet (gc_db w')"
proof -
  obtain d where "Exec applySnapOp (\<lambda>t. Inr (deleteFp fp t)) (gc_db w) = (None, d\<lparr>tables := deleteFp fp (tables (gc_db w))\<rparr>)" "quiet d"
    using Exec_quiet [OF assms(1), of applySnapOp "\<lambda>t. Inr (deleteFp fp t)"] by auto
  then show ?thesis using assms(2) by (auto simp: onDB_def DeleteSnapshot_def optionA_def deleteFp_def)
qed

text \<open>The second pass deletes exactly the rows whose drop did not fail and that are not pinned.\<close>

definition evicts :: "pinState \<Rightarrow> (SnapshotEvictionCandidate \<times> go_error option) list \<Rightarrow> string set" where
  "evicts pins rs = {ev_fingerprint c | c. (c, None) \<in> set rs \<and> \<not> IsPinned (ev_fingerprint c) pins}"

lemma evicts_Cons:
  "evicts pins ((c, res) # rs) =
     (if res = None \<and> \<not> IsPinned (ev_fingerprint c) pins then insert (ev_fingerprint c) (evicts pins rs) else evicts pins rs)"
  by (auto simp: evicts_def)

lemma filter_two: "filter (\<lambda>r. f r \<notin> D) (filter (\<lambda>r. f r \<noteq> x) rs) = filter (\<lambda>r. f r \<notin> insert x D) rs"
  by (simp add: conj_commute)

lemma rowPhase_effect:
  "alone (gc_db w) \<Longrightarrow> pinsHeld w \<Longrightarrow>
     \<exists>w' D. rowPhase eventType msg repo rs w = (Inr (), w') \<and> gc_engine w' = gc_engine w \<and>
       alone (gc_db w') \<and> rowsOf w' = filter (\<lambda>r. fpOf r \<notin> D) (rowsOf w) \<and> D \<subseteq> evicts (gc_pins w) rs \<and>
       (quiet (gc_db w) \<longrightarrow> D = evicts (gc_pins w) rs)"
proof (induction rs arbitrary: w)
  case Nil
  then show ?case by (auto simp: returnA_def evicts_def)
next
  case (Cons x rs)
  obtain c res where x: "x = (c, res)" by (meson surj_pair)
  obtain w1 where w1: "checkPin (ev_fingerprint c) w = (Inr (IsPinned (ev_fingerprint c) (gc_pins w)), w1)" "pinsHeld w1"
    "gc_pins w1 = gc_pins w" "gc_db w1 = gc_db w" "gc_engine w1 = gc_engine w" using checkPin_held [OF Cons.prems(2)] by blast
  show ?case
  proof (cases "res = None \<and> \<not> IsPinned (ev_fingerprint c) (gc_pins w)")
    case False
    then have same: "evicts (gc_pins w) (x # rs) = evicts (gc_pins w) rs" using x by (simp only: evicts_Cons if_False)
    show ?thesis
    proof (cases "res = None")
      case True
      then have "rowPhase eventType msg repo (x # rs) w = rowPhase eventType msg repo rs w1"
        using False x w1(1) by (simp add: bindA_def)
      then show ?thesis using Cons.IH [of w1] Cons.prems w1 unfolding same by simp
    next
      case False
      then have "rowPhase eventType msg repo (x # rs) w = rowPhase eventType msg repo rs w" using x by simp
      then show ?thesis using Cons.IH [of w] Cons.prems unfolding same by simp
    qed
  next
    case True
    let ?fp = "ev_fingerprint c"
    have ev: "evicts (gc_pins w) (x # rs) = insert ?fp (evicts (gc_pins w) rs)" using True x by (simp add: evicts_Cons)
    obtain r wd where del: "onDB (DeleteSnapshot ?fp) w1 = (r, wd)" by (meson surj_pair)
    then obtain d where d: "wd = w1\<lparr>gc_db := d\<rparr>" "alone d"
      "snapshots (tables d) = (case r of Inl _ \<Rightarrow> rowsOf w1 | Inr _ \<Rightarrow> filter (\<lambda>y. fpOf y \<noteq> ?fp) (rowsOf w1))"
      using delete_alone [OF _ del] Cons.prems(1) w1(4) by auto
    let ?w2 = "wd\<lparr>gc_log := gc_log wd @ [(eventType, msg c, repo, ?fp)]\<rparr>"
    have run: "rowPhase eventType msg repo (x # rs) w = rowPhase eventType msg repo rs ?w2"
      using True x w1(1) del by (simp add: bindA_def ignoreA_def WriteEvent_def modifyA_def)
    have "alone (gc_db ?w2)" "pinsHeld ?w2" "gc_pins ?w2 = gc_pins w" using d w1(2,3) by (simp_all add: pinsHeld_def)
    from Cons.IH [OF this(1,2)] this(3) obtain w' D where w': "rowPhase eventType msg repo rs ?w2 = (Inr (), w')"
      "gc_engine w' = gc_engine ?w2" "alone (gc_db w')" "rowsOf w' = filter (\<lambda>r. fpOf r \<notin> D) (rowsOf ?w2)"
      "D \<subseteq> evicts (gc_pins w) rs" "quiet (gc_db ?w2) \<longrightarrow> D = evicts (gc_pins w) rs" by auto
    have quiet: "r = Inr () \<and> quiet (gc_db ?w2)" if "quiet (gc_db w)" using delete_quiet [OF _ del] that w1(4) by simp
    have rows: "rowsOf w' = filter (\<lambda>y. fpOf y \<notin> (case r of Inl _ \<Rightarrow> D | Inr _ \<Rightarrow> insert ?fp D)) (rowsOf w)"
      using w'(4) d(1,3) w1(4) by (cases r) (simp_all add: filter_two del: filter_filter)
    show ?thesis
    proof (intro exI conjI)
      show "rowPhase eventType msg repo (x # rs) w = (Inr (), w')" using run w'(1) by simp
      show "(case r of Inl _ \<Rightarrow> D | Inr _ \<Rightarrow> insert ?fp D) \<subseteq> evicts (gc_pins w) (x # rs)" using w'(5) ev by (cases r) auto
      show "quiet (gc_db w) \<longrightarrow> (case r of Inl _ \<Rightarrow> D | Inr _ \<Rightarrow> insert ?fp D) = evicts (gc_pins w) (x # rs)"
        using quiet w'(6) ev by auto
    qed (use rows w'(2,3) d(1) w1(5) in simp_all)
  qed
qed

text \<open>One eviction: the templates named by \<open>D\<close> are gone, and so are exactly their rows.\<close>

definition dropResults ::
  "'e connOps \<Rightarrow> nat list \<Rightarrow> SnapshotEvictionCandidate list \<Rightarrow> bool list \<Rightarrow> 'e \<Rightarrow> go_error option list" where
  "dropResults ops sched cands pinned e =
     map jobResult (fst (runJobs ops cands sched
       (map (\<lambda>i. if i < length pinned \<and> \<not> pinned ! i then Waiting else Finished None) [0..<length cands], [], e)))"

abbreviation pinnedNow :: "pinState \<Rightarrow> SnapshotEvictionCandidate list \<Rightarrow> bool list" where
  "pinnedNow pins cands \<equiv> map (\<lambda>c. IsPinned (ev_fingerprint c) pins) cands"

context template_server
begin

lemma dropPhase_effect:
  assumes "dropPhase ops sched cands (pinnedNow pins cands) w = (r, w')"
  shows "r = Inr (dropResults ops sched cands (pinnedNow pins cands) (gc_engine w)) \<and>
    (\<exists>e. w' = w\<lparr>gc_engine := e\<rparr> \<and>
      dropsOnly live (\<Union>c \<in> {c \<in> set cands. \<not> IsPinned (ev_fingerprint c) pins}. touch c) (gc_engine w) e \<and>
      (\<forall>c. (c, None) \<in> set (zip cands (dropResults ops sched cands (pinnedNow pins cands) (gc_engine w))) \<and>
         \<not> IsPinned (ev_fingerprint c) pins \<longrightarrow> gone e c))"
proof -
  let ?S = "{i. i < length cands \<and> \<not> IsPinned (ev_fingerprint (cands ! i)) pins}"
  let ?pinned = "pinnedNow pins cands"
  let ?start = "map (\<lambda>i. if i < length ?pinned \<and> \<not> ?pinned ! i then Waiting else Finished None) [0..<length cands]"
  obtain jobs p where run: "runJobs ops cands sched (?start, [], gc_engine w) = (jobs, p)" by (meson surj_pair)
  have start: "?start = map (\<lambda>i. if i \<in> ?S then Waiting else Finished None) [0..<length cands]" by simp
  have "runJobs ops cands sched (map (\<lambda>i. if i \<in> ?S then Waiting else Finished None) [0..<length cands], [], gc_engine w) = (jobs, p)"
    using run unfolding start .
  from batch_effect [OF _ this refl] have eff: "length jobs = length cands"
    "dropsOnly live (\<Union>i \<in> ?S. touch (cands ! i)) (gc_engine w) (snd (snd (pool_close ops p)))"
    "\<And>i. i \<in> ?S \<Longrightarrow> jobResult (jobs ! i) = None \<Longrightarrow> gone (snd (snd (pool_close ops p))) (cands ! i)" by auto
  have res: "dropResults ops sched cands ?pinned (gc_engine w) = map jobResult jobs" using run by (simp add: dropResults_def)
  have out: "r = Inr (map jobResult jobs)" "w' = w\<lparr>gc_engine := snd (snd (pool_close ops p))\<rparr>"
    using assms run by (simp_all add: dropPhase_def)
  have "(\<Union>i \<in> ?S. touch (cands ! i)) \<subseteq> (\<Union>c \<in> {c \<in> set cands. \<not> IsPinned (ev_fingerprint c) pins}. touch c)"
    by auto (metis nth_mem)
  with eff(2) have "dropsOnly live (\<Union>c \<in> {c \<in> set cands. \<not> IsPinned (ev_fingerprint c) pins}. touch c) (gc_engine w)
      (snd (snd (pool_close ops p)))" by (rule dropsOnly_mono)
  moreover have "gone (snd (snd (pool_close ops p))) c"
    if "(c, None) \<in> set (zip cands (map jobResult jobs))" "\<not> IsPinned (ev_fingerprint c) pins" for c
    using that eff(1,3) by (auto simp: set_zip)
  ultimately show ?thesis using out res by (intro conjI exI [of _ "snd (snd (pool_close ops p))"]) auto
qed

lemma evict_effect:
  assumes db: "alone (gc_db w)" and held: "pinsHeld w"
  shows "\<exists>w' D. evictCandidates ops sched cands repo eventType msg w = (Inr (), w') \<and> alone (gc_db w') \<and>
    rowsOf w' = filter (\<lambda>r. fpOf r \<notin> D) (rowsOf w) \<and>
    (\<forall>fp \<in> D. \<not> IsPinned fp (gc_pins w) \<and> (\<exists>c \<in> set cands. ev_fingerprint c = fp \<and> gone (gc_engine w') c)) \<and>
    dropsOnly live (\<Union>c \<in> {c \<in> set cands. \<not> IsPinned (ev_fingerprint c) (gc_pins w)}. touch c) (gc_engine w) (gc_engine w') \<and>
    (quiet (gc_db w) \<longrightarrow>
       D = evicts (gc_pins w) (zip cands (dropResults ops sched cands (pinnedNow (gc_pins w) cands) (gc_engine w))))"
proof -
  let ?pinned = "pinnedNow (gc_pins w) cands"
  let ?res = "dropResults ops sched cands ?pinned (gc_engine w)"
  obtain w1 where w1: "checkPins cands w = (Inr ?pinned, w1)" "pinsHeld w1" "gc_pins w1 = gc_pins w" "gc_db w1 = gc_db w"
    "gc_engine w1 = gc_engine w" using checkPins_held [OF held] by blast
  obtain r w2 where ph: "dropPhase ops sched cands ?pinned w1 = (r, w2)" by (meson surj_pair)
  from dropPhase_effect [OF ph] obtain e where e: "r = Inr ?res" "w2 = w1\<lparr>gc_engine := e\<rparr>"
    "dropsOnly live (\<Union>c \<in> {c \<in> set cands. \<not> IsPinned (ev_fingerprint c) (gc_pins w)}. touch c) (gc_engine w) e"
    "\<And>c. (c, None) \<in> set (zip cands ?res) \<Longrightarrow> \<not> IsPinned (ev_fingerprint c) (gc_pins w) \<Longrightarrow> gone e c"
    unfolding w1(5) by blast
  have w2: "gc_db w2 = gc_db w" "gc_engine w2 = e" "gc_pins w2 = gc_pins w" using e(2) w1 by simp_all
  have ok: "alone (gc_db w2)" "pinsHeld w2" using w2(1) db e(2) w1(2) by (simp_all add: pinsHeld_def)
  from rowPhase_effect [OF ok, of eventType msg repo "zip cands ?res", unfolded w2] obtain w' D where w': "rowPhase eventType msg repo (zip cands ?res) w2 = (Inr (), w')"
    "gc_engine w' = e" "alone (gc_db w')" "rowsOf w' = filter (\<lambda>r. fpOf r \<notin> D) (rowsOf w)" "D \<subseteq> evicts (gc_pins w) (zip cands ?res)"
    "quiet (gc_db w) \<longrightarrow> D = evicts (gc_pins w) (zip cands ?res)"
    by blast
  have "evictCandidates ops sched cands repo eventType msg w = (Inr (), w')"
    using w1(1) ph e(1) w'(1) by (simp add: evictCandidates_def bindA_def)
  moreover have "\<not> IsPinned fp (gc_pins w) \<and> (\<exists>c \<in> set cands. ev_fingerprint c = fp \<and> gone (gc_engine w') c)" if "fp \<in> D" for fp
  proof -
    obtain c where "fp = ev_fingerprint c" "(c, None) \<in> set (zip cands ?res)" "\<not> IsPinned (ev_fingerprint c) (gc_pins w)"
      using w'(5) \<open>fp \<in> D\<close> by (auto simp: evicts_def)
    moreover have "gone e c" "c \<in> set cands" using e(4) calculation by (auto dest: set_zip_leftD)
    ultimately show ?thesis using w'(2) by auto
  qed
  ultimately show ?thesis using w' e(3) by blast
qed

end

end
