(* ===== verification/SnapshotGCProps.thy ===== *)
theory SnapshotGCProps
  imports SnapshotGC
begin

text \<open>
  What the collectors of cached templates guarantee: pins count live handles, an evicted row's template is gone and
  nothing else is, the size sweep ends under its cap, a purge empties a repository, pruning spares live templates,
  and the orphan search reports no template that has a row.
\<close>

section \<open>Lemmas\<close>

subsection \<open>Sizes\<close>

lemma uint32_bounds: "0 \<le> uint (w :: u32)" "uint (w :: u32) < 2 ^ 32"
  using uint_lt2p [of w] by simp_all

lemma sint_64: "sint (word_of_int k :: 64 word) = signed_take_bit 63 k"
  by (simp add: signed_of_int)

lemma capBytes_exact: "capBytes gb = uint gb * 2 ^ 30"
proof -
  have "(ucast gb :: 64 word) * 1024 * 1024 * 1024 = word_of_int (uint gb * 1024 * 1024 * 1024)"
    by (simp only: ucast_eq word_numeral_alt wi_homs)
  then have "capBytes gb = signed_take_bit 63 (uint gb * 1024 * 1024 * 1024)" unfolding capBytes_def by (simp only: sint_64)
  also have "uint gb * 1024 * 1024 * 1024 = uint gb * 2 ^ 30" by simp
  finally have "capBytes gb = signed_take_bit 63 (uint gb * 2 ^ 30)" .
  moreover have "- (2 ^ 63) \<le> uint gb * 2 ^ 30" "uint gb * 2 ^ 30 < 2 ^ 63" using uint32_bounds [of gb] by (simp_all, linarith)
  ultimately show ?thesis by (simp only: signed_take_bit_int_eq_self)
qed

lemma ageDuration_wraps: "ageDuration days = signed_take_bit 63 (- (uint days * 86400000000000))"
proof -
  have "- (ucast days :: 64 word) * 24 * 3600000000000 = word_of_int (- uint days * 24 * 3600000000000)"
    by (simp only: ucast_eq word_numeral_alt wi_homs)
  then have "ageDuration days = signed_take_bit 63 (- uint days * 24 * 3600000000000)"
    unfolding ageDuration_def by (simp only: sint_64)
  then show ?thesis by (simp add: mult.commute)
qed

text \<open>Up to 106751 days the cutoff is that many days back; beyond, the product wraps around.\<close>

lemma ageCutoff_exact:
  assumes "uint days \<le> 106751"
  shows "ageCutoff now days = now - uint days * 86400000"
proof -
  have "- (2 ^ 63) \<le> - (uint days * 86400000000000)" "- (uint days * 86400000000000) < 2 ^ 63"
    using assms uint32_bounds(1) [of days] by (simp_all, linarith+)
  then have "ageDuration days = - (uint days * 86400000000000)"
    unfolding ageDuration_wraps by (rule signed_take_bit_int_eq_self)
  then have "now * 1000000 + ageDuration days = (now - uint days * 86400000) * 1000000" by simp
  then show ?thesis unfolding ageCutoff_def by simp
qed

theorem age_cutoff_in_future: "now < ageCutoff now 200000"
proof -
  have "ageDuration 200000 = 1166744073709551616" unfolding ageDuration_wraps by code_simp
  then show ?thesis by (simp add: ageCutoff_def)
qed

text \<open>Drops of these candidates succeed as long as \<open>P\<close> holds of the servers.\<close>

definition dropsWork :: "'e connOps \<Rightarrow> ('e \<Rightarrow> bool) \<Rightarrow> SnapshotEvictionCandidate set \<Rightarrow> bool" where
  "dropsWork ops P C \<longleftrightarrow> (\<forall>c \<in> C. \<forall>e. P e \<longrightarrow> (\<exists>e'. DropTemplate ops c e = (Inr (), e') \<and> P e'))"

definition noPinned :: "'e gcWorld \<Rightarrow> bool" where
  "noPinned w \<longleftrightarrow> pinsHeld w \<and> (\<forall>fp. \<not> IsPinned fp (gc_pins w))"

abbreviation sizedOf :: "snapshotRow \<Rightarrow> SnapshotEvictionCandidate \<times> int" where
  "sizedOf r \<equiv> (candidateOf r, sizeOf r)"

lemma mset_remove_fp:
  assumes "distinct (map fpOf rows)" "mset rows = mset (x # xs)"
  shows "mset (filter (\<lambda>r. fpOf r \<noteq> fpOf x) rows) = mset xs" "distinct (map fpOf (filter (\<lambda>r. fpOf r \<noteq> fpOf x) rows))"
proof -
  have "mset (map fpOf rows) = mset (map fpOf (x # xs))" using assms(2) by (metis mset_map)
  then have "distinct (map fpOf (x # xs))" using assms(1) by (metis distinct_count_atmost_1 mset_eq_setD)
  then have "filter (\<lambda>r. fpOf r \<noteq> fpOf x) (x # xs) = xs" by (auto simp: filter_id_conv) (metis image_eqI)
  then show "mset (filter (\<lambda>r. fpOf r \<noteq> fpOf x) rows) = mset xs" using assms(2) by (metis mset_filter)
  show "distinct (map fpOf (filter (\<lambda>r. fpOf r \<noteq> fpOf x) rows))" using assms(1) by (rule distinct_map_filter)
qed

lemma sum_list_mset: "mset ys = mset zs \<Longrightarrow> sum_list (map f ys) = sum_list (map (f :: 'a \<Rightarrow> int) zs)"
  by (metis mset_map sum_mset_sum_list)

lemma sizeLoop_under_cap:
  assumes "quiet (gc_db w)" "noPinned w" "P (gc_engine w)" "dropsWork ops P (candidateOf ` set xs)"
    and "distinct (map fpOf (rowsOf w))" "mset (rowsOf w) = mset xs" "tot = sum_list (map sizeOf (rowsOf w))" "0 \<le> cap"
  shows "\<exists>w'. sizeLoop ops cap tot (map sizedOf xs) w = (Inr (), w') \<and> sum_list (map sizeOf (rowsOf w')) \<le> cap"
  using assms
proof (induction xs arbitrary: tot w)
  case Nil
  then show ?case by (simp add: returnA_def)
next
  case (Cons x xs)
  show ?case
  proof (cases "tot \<le> cap")
    case True
    then show ?thesis using Cons.prems by (simp add: returnA_def)
  next
    case False
    let ?c = "candidateOf x"
    obtain w1 where w1: "checkPin (ev_fingerprint ?c) w = (Inr False, w1)" "pinsHeld w1" "gc_pins w1 = gc_pins w" "gc_db w1 = gc_db w"
      "gc_engine w1 = gc_engine w" using checkPin_held [of w] Cons.prems(2) unfolding noPinned_def by metis
    obtain e where e: "DropTemplate ops ?c (gc_engine w1) = (Inr (), e)" "P e"
      using Cons.prems(3,4) w1(5) by (auto simp: dropsWork_def)
    let ?w2 = "w1\<lparr>gc_engine := e\<rparr>"
    obtain r wd where del: "onDB (DeleteSnapshot (fpOf x)) ?w2 = (r, wd)" by (meson surj_pair)
    have q: "quiet (gc_db ?w2)" using Cons.prems(1) w1(4) by simp
    obtain d where d: "wd = ?w2\<lparr>gc_db := d\<rparr>" "snapshots (tables d) = filter (\<lambda>y. fpOf y \<noteq> fpOf x) (rowsOf w)"
      "quiet d"
    proof -
      have "r = Inr ()" "quiet (gc_db wd)" using delete_quiet [OF q del] by simp_all
      moreover obtain d where "wd = ?w2\<lparr>gc_db := d\<rparr>"
        "snapshots (tables d) = (case r of Inl _ \<Rightarrow> rowsOf ?w2 | Inr _ \<Rightarrow> filter (\<lambda>y. fpOf y \<noteq> fpOf x) (rowsOf ?w2))"
        using delete_alone [OF quiet_alone [OF q] del] by blast
      ultimately show thesis using that [of d] w1(4) by simp
    qed
    let ?w3 = "wd\<lparr>gc_log := gc_log wd @ [(''snapshots:evict:size'', ''evicted '' @ ev_template ?c @ '' (size='' @ Itoa (sizeOf x) @ '')'', 0, fpOf x)]\<rparr>"
    have run: "sizeLoop ops cap tot (map sizedOf (x # xs)) w = sizeLoop ops cap (tot - sizeOf x) (map sizedOf xs) ?w3"
      using False w1(1) e(1) del by (simp add: bindA_def tryA_def onServer_def ignoreA_def WriteEvent_def modifyA_def)
    have rows: "rowsOf ?w3 = filter (\<lambda>y. fpOf y \<noteq> fpOf x) (rowsOf w)" using d(1,2) by simp
    have m: "mset (rowsOf ?w3) = mset xs" "distinct (map fpOf (rowsOf ?w3))"
      unfolding rows using mset_remove_fp [OF Cons.prems(5,6)] by simp_all
    have "sum_list (map sizeOf (rowsOf w)) = sizeOf x + sum_list (map sizeOf (rowsOf ?w3))"
      using sum_list_mset [OF Cons.prems(6), of sizeOf] sum_list_mset [OF m(1), of sizeOf] by simp
    then have tot: "tot - sizeOf x = sum_list (map sizeOf (rowsOf ?w3))" using Cons.prems(7) by simp
    have "noPinned ?w3" using Cons.prems(2) w1 d(1) by (simp add: noPinned_def pinsHeld_def)
    moreover have "dropsWork ops P (candidateOf ` set xs)" using Cons.prems(4) by (simp add: dropsWork_def)
    ultimately show ?thesis
      using Cons.IH [of ?w3 "tot - sizeOf x"] d(1,3) e(2) m tot Cons.prems(8) run by simp
  qed
qed

subsection \<open>Purge and pruning\<close>

lemma ctxErr_result: "\<exists>stop w1. ctxErr w = (Inr stop, w1) \<and> gc_db w1 = gc_db w \<and> gc_engine w1 = gc_engine w"
  by (cases "gc_ctx w") (simp_all add: ctxErr_def)

context template_server
begin

lemma pool_drop_effect:
  assumes "pool_drop ops c p = (r, p')"
  shows "dropsOnly live (touch c) (snd p) (snd p') \<and> (r = Inr () \<longrightarrow> gone (snd p') c)"
proof -
  let ?st = "stepJob ops [c] 0"
  obtain j1 p1 where s1: "jobStep ops c Waiting p = (j1, p1)" by (meson surj_pair)
  obtain j2 p2 where s2: "jobStep ops c j1 p1 = (j2, p2)" by (meson surj_pair)
  have s3: "jobStep ops c j2 p2 = (Finished (case r of Inl e \<Rightarrow> Some e | Inr _ \<Rightarrow> None), p')"
    using pool_drop_steps [OF assms] s1 s2 by simp
  have "batchInv [c] {0} (snd p) ([Waiting], p)" by (simp add: batchInv_def)
  then have "batchInv [c] {0} (snd p) (?st (?st (?st ([Waiting], p))))" by (intro stepJob_batchInv)
  then have "batchInv [c] {0} (snd p) ([Finished (case r of Inl e \<Rightarrow> Some e | Inr _ \<Rightarrow> None)], p')"
    using s1 s2 s3 by (simp add: stepJob_def)
  then show ?thesis by (auto simp: batchInv_def)
qed

lemma purgeLoop_effect:
  assumes "alone (gc_db w)" "purgeLoop ops repo cands conns dropped errs w = (Inr (conns', n, []), w')"
  shows "errs = [] \<and> alone (gc_db w') \<and> n = dropped + length cands \<and>
    rowsOf w' = filter (\<lambda>r. fpOf r \<notin> ev_fingerprint ` set cands) (rowsOf w) \<and>
    (\<forall>c \<in> set cands. gone (gc_engine w') c) \<and> dropsOnly live (\<Union>c \<in> set cands. touch c) (gc_engine w) (gc_engine w')"
  using assms
proof (induction cands arbitrary: conns dropped errs w)
  case Nil
  then show ?case by (auto simp: returnA_def)
next
  case (Cons c cs)
  obtain stop w1 where ctx: "ctxErr w = (Inr stop, w1)" "gc_db w1 = gc_db w" "gc_engine w1 = gc_engine w"
    using ctxErr_result by blast
  obtain r conns1 e1 where drop: "pool_drop ops c (conns, gc_engine w1) = (r, (conns1, e1))" by (metis surj_pair)
  let ?w2 = "w1\<lparr>gc_engine := e1\<rparr>"
  obtain x w3 where del: "onDB (DeleteSnapshot (ev_fingerprint c)) ?w2 = (x, w3)" by (meson surj_pair)
  have "alone (gc_db ?w2)" using Cons.prems(1) ctx(2) by simp
  from delete_alone [OF this del] obtain d where d: "w3 = ?w2\<lparr>gc_db := d\<rparr>" "alone d"
    "snapshots (tables d) = (case x of Inl _ \<Rightarrow> rowsOf ?w2 | Inr _ \<Rightarrow> filter (\<lambda>y. fpOf y \<noteq> ev_fingerprint c) (rowsOf ?w2))" by blast
  have stop: "stop = None" using Cons.prems(2) ctx(1) by (cases stop) (auto simp: bindA_def returnA_def)
  have r: "r = Inr ()"
  proof (cases r)
    case (Inl e)
    have "purgeLoop ops repo cs conns1 dropped (errs @ [Wrapf (''drop '' @ ev_template c @ '' ('' @ ev_engine c @ ''): '') e []]) ?w2 =
        (Inr (conns', n, []), w')"
      using Cons.prems(2) ctx(1) stop drop Inl by (simp add: bindA_def onServer_def)
    from Cons.IH [OF \<open>alone (gc_db ?w2)\<close> this] show ?thesis by simp
  qed simp
  have x: "x = Inr ()"
  proof (cases x)
    case (Inl e)
    have "purgeLoop ops repo cs conns1 dropped (errs @ [Wrapf (''delete row '' @ ev_fingerprint c @ '': '') e []]) w3 =
        (Inr (conns', n, []), w')"
      using Cons.prems(2) ctx(1) stop drop r del Inl by (simp add: bindA_def onServer_def tryA_def)
    from Cons.IH [OF _ this] show ?thesis using d by simp
  qed simp
  let ?w4 = "w3\<lparr>gc_log := gc_log w3 @ [(''snapshots:purge'', ''purged '' @ ev_template c @ '' ('' @ ev_engine c @ '')'', repo, ev_fingerprint c)]\<rparr>"
  have "purgeLoop ops repo cs conns1 (dropped + 1) errs ?w4 = (Inr (conns', n, []), w')"
    using Cons.prems(2) ctx(1) stop drop r del x by (simp add: bindA_def onServer_def tryA_def WriteEvent_def modifyA_def)
  from Cons.IH [OF _ this] have ih: "errs = []" "alone (gc_db w')" "n = dropped + 1 + length cs"
    "rowsOf w' = filter (\<lambda>r. fpOf r \<notin> ev_fingerprint ` set cs) (rowsOf ?w4)" "\<forall>c \<in> set cs. gone (gc_engine w') c"
    "dropsOnly live (\<Union>c \<in> set cs. touch c) e1 (gc_engine w')" using d(1,2) by auto
  have eff: "dropsOnly live (touch c) (gc_engine w) e1" "gone e1 c" using pool_drop_effect [OF drop] r ctx(3) by simp_all
  have "rowsOf w' = filter (\<lambda>r. fpOf r \<notin> ev_fingerprint ` set (c # cs)) (rowsOf w)"
    using ih(4) d(1,3) x ctx(2) by (simp add: filter_two del: filter_filter)
  moreover have "dropsOnly live (\<Union>c \<in> set (c # cs). touch c) (gc_engine w) (gc_engine w')"
    using eff(1) ih(6) by (auto intro: dropsOnly_comp dropsOnly_mono)
  moreover have "gone (gc_engine w') c" using gone_stays [OF ih(6) eff(2)] .
  ultimately show ?case using ih by auto
qed

lemma orphanRows_effect:
  "pinsHeld w \<Longrightarrow> \<exists>conns' out w'. orphanRows ops cands conns orphans w = (Inr (conns', out), w') \<and> gc_db w' = gc_db w \<and>
     dropsOnly live {} (gc_engine w) (gc_engine w') \<and>
     (\<forall>o1 \<in> set out. o1 \<in> set orphans \<or>
        (\<exists>c \<in> set cands. o1 = pruneOf c \<and> \<not> IsPinned (ev_fingerprint c) (gc_pins w) \<and> gone (gc_engine w') c))"
proof (induction cands arbitrary: conns orphans w)
  case Nil
  then show ?case by (simp add: returnA_def)
next
  case (Cons c cs)
  obtain w1 where w1: "checkPin (ev_fingerprint c) w = (Inr (IsPinned (ev_fingerprint c) (gc_pins w)), w1)" "pinsHeld w1"
    "gc_pins w1 = gc_pins w" "gc_db w1 = gc_db w" "gc_engine w1 = gc_engine w" using checkPin_held [OF Cons.prems] by blast
  have skip: ?case if "orphanRows ops (c # cs) conns orphans w = orphanRows ops cs conns2 orphans2 w2" "pinsHeld w2"
    "gc_pins w2 = gc_pins w" "gc_db w2 = gc_db w" "dropsOnly live {} (gc_engine w) (gc_engine w2)"
    "set orphans2 \<subseteq> set orphans \<or> set orphans2 \<subseteq> insert (pruneOf c) (set orphans) \<and>
       \<not> IsPinned (ev_fingerprint c) (gc_pins w) \<and> gone (gc_engine w2) c" for conns2 orphans2 w2
  proof -
    note step = that
    obtain conns' out w' where ih: "orphanRows ops cs conns2 orphans2 w2 = (Inr (conns', out), w')" "gc_db w' = gc_db w2"
      "dropsOnly live {} (gc_engine w2) (gc_engine w')"
      "\<forall>o1 \<in> set out. o1 \<in> set orphans2 \<or>
        (\<exists>c \<in> set cs. o1 = pruneOf c \<and> \<not> IsPinned (ev_fingerprint c) (gc_pins w2) \<and> gone (gc_engine w') c)"
      using Cons.IH [OF step(2)] by blast
    have "gone (gc_engine w2) c \<Longrightarrow> gone (gc_engine w') c" using gone_stays [OF ih(3)] .
    then have "\<forall>o1 \<in> set out. o1 \<in> set orphans \<or>
        (\<exists>c \<in> set (c # cs). o1 = pruneOf c \<and> \<not> IsPinned (ev_fingerprint c) (gc_pins w) \<and> gone (gc_engine w') c)"
      using ih(4) that(3,6) by fastforce
    moreover have "dropsOnly live {} (gc_engine w) (gc_engine w')" using that(5) ih(3) by (rule dropsOnly_comp)
    ultimately show ?thesis using that(1,4) ih(1,2) by auto
  qed
  show ?case
  proof (cases "IsPinned (ev_fingerprint c) (gc_pins w) \<or> Canonical (ev_engine c) = None")
    case True
    then have "orphanRows ops (c # cs) conns orphans w = orphanRows ops cs conns orphans w1"
      using w1(1) by (auto simp: bindA_def)
    from skip [OF this w1(2-4)] show ?thesis using w1(5) by simp
  next
    case False
    then obtain fam where fam: "Canonical (ev_engine c) = Some fam" "\<not> IsPinned (ev_fingerprint c) (gc_pins w)" by auto
    obtain r conns1 e1 where g: "pool_get ops fam (ev_connection c) (conns, gc_engine w1) = (r, (conns1, e1))" by (metis surj_pair)
    let ?w2 = "w1\<lparr>gc_engine := e1\<rparr>"
    obtain b e2 where ex: "op_exists ops fam (ev_connection c) (ev_template c) e1 = (b, e2)" by (meson surj_pair)
    let ?w3 = "w1\<lparr>gc_engine := e2\<rparr>"
    have calm1: "dropsOnly live {} (gc_engine w) e1" using pool_get_calm [OF g, of "{}"] w1(5) by simp
    have calm2: "dropsOnly live {} e1 e2" using keepsD [OF exists_calm ex] .
    have held: "pinsHeld ?w2" "pinsHeld ?w3" using w1(2) by (simp_all add: pinsHeld_def)
    show ?thesis
    proof (cases r)
      case (Inl e)
      then have "orphanRows ops (c # cs) conns orphans w = orphanRows ops cs conns1 orphans ?w2"
        using w1(1) fam g by (simp add: bindA_def onServer_def)
      from skip [OF this held(1)] show ?thesis using w1 calm1 by simp
    next
      case (Inr u)
      have run: "orphanRows ops (c # cs) conns orphans w =
          orphanRows ops cs conns1 (if b = Inr False then orphans @ [pruneOf c] else orphans) ?w3"
        using w1(1) fam g Inr ex by (cases b) (auto simp: bindA_def onServer_def tryA_def split: bool.splits)
      have "gone e2 c" if "b = Inr False"
      proof -
        have "\<not> live e1 fam (ev_connection c) (ev_template c)" using exists_right ex that by blast
        then have "gone e1 c" using fam(1) by (simp add: candGone_def)
        then show ?thesis using calm2 by (rule gone_stays [rotated])
      qed
      moreover have "dropsOnly live {} (gc_engine w) e2" using calm1 calm2 by (rule dropsOnly_comp)
      ultimately show ?thesis using skip [OF run held(2)] w1 fam(2) by auto
    qed
  qed
qed

end

lemma pruneLoop_effect:
  "alone (gc_db w) \<Longrightarrow> \<exists>ps errs' w'. pruneLoop repo os pruned errs w = (Inr (pruned @ ps, errs'), w') \<and> set ps \<subseteq> set os \<and>
     gc_engine w' = gc_engine w \<and> rowsOf w' = filter (\<lambda>r. fpOf r \<notin> pr_fingerprint ` set ps) (rowsOf w)"
proof (induction os arbitrary: pruned errs w)
  case Nil
  then show ?case by (simp add: returnA_def)
next
  case (Cons o1 os)
  obtain x w1 where del: "onDB (DeleteSnapshot (pr_fingerprint o1)) w = (x, w1)" by (meson surj_pair)
  obtain d where d: "w1 = w\<lparr>gc_db := d\<rparr>" "alone d"
    "snapshots (tables d) = (case x of Inl _ \<Rightarrow> rowsOf w | Inr _ \<Rightarrow> filter (\<lambda>y. fpOf y \<noteq> pr_fingerprint o1) (rowsOf w))"
    using delete_alone [OF Cons.prems del] by blast
  show ?case
  proof (cases x)
    case (Inl e)
    then have "pruneLoop repo (o1 # os) pruned errs w =
        pruneLoop repo os pruned (errs @ [Wrapf (''delete row '' @ pr_fingerprint o1 @ '': '') e []]) w1"
      using del by (simp add: bindA_def tryA_def)
    then show ?thesis using Cons.IH [of w1 pruned] d Inl by fastforce
  next
    case (Inr u)
    let ?w2 = "w1\<lparr>gc_log := gc_log w1 @ [(''snapshots:prune:orphan'',
      ''pruned orphan snapshot row '' @ pr_template o1 @ '' ('' @ pr_engine o1 @ '': template gone)'', repo, pr_fingerprint o1)]\<rparr>"
    have run: "pruneLoop repo (o1 # os) pruned errs w = pruneLoop repo os (pruned @ [o1]) errs ?w2"
      using del Inr by (simp add: bindA_def tryA_def WriteEvent_def modifyA_def)
    have "alone (gc_db ?w2)" using d by simp
    from Cons.IH [OF this, of "pruned @ [o1]" errs] obtain ps errs' w' where ih:
      "pruneLoop repo os (pruned @ [o1]) errs ?w2 = (Inr ((pruned @ [o1]) @ ps, errs'), w')" "set ps \<subseteq> set os"
      "gc_engine w' = gc_engine ?w2" "rowsOf w' = filter (\<lambda>r. fpOf r \<notin> pr_fingerprint ` set ps) (rowsOf ?w2)" by blast
    have "rowsOf w' = filter (\<lambda>r. fpOf r \<notin> pr_fingerprint ` set (o1 # ps)) (rowsOf w)"
      using ih(4) d(1,3) Inr by (simp add: filter_two del: filter_filter)
    then show ?thesis using run ih d(1) by (intro exI [of _ "o1 # ps"] exI [of _ errs'] exI [of _ w']) auto
  qed
qed

subsection \<open>Queries\<close>

lemma onDB_query_quiet:
  assumes "quiet (gc_db w)"
  shows "\<exists>d. onDB (queryS sel) w = (Inr (sel (tables (gc_db w))), w\<lparr>gc_db := d\<rparr>) \<and> quiet d \<and> tables d = tables (gc_db w)"
  using queryS_quiet [OF assms, of sel] by (auto simp: onDB_def)

lemma onDB_query_alone:
  assumes "alone (gc_db w)"
  shows "\<exists>r d. onDB (queryS sel) w = (r, w\<lparr>gc_db := d\<rparr>) \<and> alone d \<and> tables d = tables (gc_db w) \<and>
    (\<forall>x. r = Inr x \<longrightarrow> x = sel (tables (gc_db w)))"
proof -
  obtain r d where "queryS sel (gc_db w) = (r, d)" by (meson surj_pair)
  with Query_alone [OF assms this] show ?thesis by (auto simp: onDB_def)
qed

lemma list_repo:
  assumes "alone (gc_db w)" "repo \<noteq> 0"
  shows "\<exists>r d. onDB (ListSnapshotsForRepo repo) w = (r, w\<lparr>gc_db := d\<rparr>) \<and> alone d \<and> tables d = tables (gc_db w) \<and>
    (\<forall>x. r = Inr x \<longrightarrow> mset x = mset (map candidateOf (repoRows repo (tables (gc_db w)))))"
proof -
  let ?sel = "\<lambda>t. map candidateOf (sort_key usedOf (repoRows repo t))"
  obtain r d where q: "onDB (queryS ?sel) w = (r, w\<lparr>gc_db := d\<rparr>)" "alone d" "tables d = tables (gc_db w)"
    "\<And>x. r = Inr x \<Longrightarrow> x = ?sel (tables (gc_db w))" using onDB_query_alone [OF assms(1), of ?sel] by blast
  have "mset (?sel t) = mset (map candidateOf (repoRows repo t))" for t by (simp only: mset_map mset_sort)
  then show ?thesis using q assms(2) unfolding ListSnapshotsForRepo_def by auto
qed

lemma finished_batch_idle:
  "\<forall>j \<in> set (fst st). \<exists>r. j = Finished r \<Longrightarrow> fold (stepJob ops cands) sched st = st"
proof (induction sched)
  case (Cons i sched)
  obtain jobs p where st: "st = (jobs, p)" by (meson surj_pair)
  have "stepJob ops cands i st = st"
  proof (cases "i < length jobs")
    case True
    then obtain r where "jobs ! i = Finished r" using Cons.prems st by (auto dest: nth_mem)
    then show ?thesis using st by (simp add: stepJob_def list_update_same_conv)
  qed (simp add: stepJob_def st)
  then show ?case using Cons by simp
qed simp

lemma dedupe_set: "set (dedupe re ns out) \<subseteq> set out \<union> {m. \<exists>n \<in> set ns. re n = Some m}"
  by (induction ns arbitrary: out) (fastforce split: option.splits if_splits)+

lemma templatePattern_prefix: "snd (templatePattern fam) n = Some m \<Longrightarrow> HasPrefix m (fst (templatePattern fam))"
  by (auto simp: templatePattern_def esTemplatePrefix_def redisTemplatePrefix_def prefixTemplate_def nameScopedTemplate_def HasPrefix_iff
      split: if_splits option.splits prod.splits list.splits dest!: templateHead_Some)

lemma listTemplates_names:
  "listTemplates ops fam e = (Inr ns, e') \<Longrightarrow> m \<in> set ns \<Longrightarrow> HasPrefix m (fst (templatePattern fam))"
  using dedupe_set templatePattern_prefix
  by (fastforce simp: listTemplates_def bindA_def returnA_def split: if_splits prod.splits sum.splits)

lemma orphanLoop_names:
  "\<exists>out' err e'. orphanLoop ops known fams out e = (Inr (out', err), e') \<and>
     (\<forall>x \<in> set out'. x \<in> set out \<or> or_family x \<in> set fams \<and> or_name x \<notin> set known \<and> HasPrefix (or_name x) (fst (templatePattern (or_family x))))"
proof (induction fams arbitrary: out e)
  case Nil
  then show ?case by (simp add: returnA_def)
next
  case (Cons fam fams)
  show ?case
  proof (cases "op_configured ops fam []")
    case False
    then show ?thesis using Cons.IH [of out e] by fastforce
  next
    case True
    obtain r1 e1 where dial: "op_dial ops fam [] e = (r1, e1)" by (meson surj_pair)
    obtain r2 e2 where list: "listTemplates ops fam e1 = (r2, e2)" by (meson surj_pair)
    obtain r3 e3 where close: "op_close ops fam [] e2 = (r3, e3)" by (meson surj_pair)
    show ?thesis
    proof (cases "\<exists>ns. r1 = Inr () \<and> r2 = Inr ns")
      case False
      then have "\<exists>err e'. orphanLoop ops known (fam # fams) out e = (Inr (out, err), e')"
        using True dial list close
        by (cases r1; cases r2) (auto simp: bindA_def tryA_def ignoreA_def returnA_def)
      then show ?thesis by blast
    next
      case ok: True
      then obtain ns where ns: "r1 = Inr ()" "r2 = Inr ns" by blast
      let ?new = "map (\<lambda>n. \<lparr>or_family = fam, or_name = n\<rparr>) (filter (\<lambda>n. n \<notin> set known) ns)"
      have run: "orphanLoop ops known (fam # fams) out e = orphanLoop ops known fams (out @ ?new) e3"
        using True dial list close ns by (simp add: bindA_def tryA_def ignoreA_def)
      have "\<forall>x \<in> set ?new. or_family x = fam \<and> or_name x \<notin> set known \<and> HasPrefix (or_name x) (fst (templatePattern fam))"
        using listTemplates_names list ns(2) by auto
      then show ?thesis using run Cons.IH [of "out @ ?new" e3] by fastforce
    qed
  qed
qed

text \<open>One cached template on disk, with its row.\<close>

definition sampleFileRow :: snapshotRow where
  "sampleFileRow = (sampleSnap ''f'' ''h'' 1 1)\<lparr>row_rec := (row_rec (sampleSnap ''f'' ''h'' 1 1))\<lparr>sn_engine := ''sqlite'', sn_template := ''/w/_tm_0.db''\<rparr>\<rparr>"

definition sampleGC :: "fs gcWorld" where
  "sampleGC =
     \<lparr>gc_db = \<lparr>tables = \<lparr>snapshots = [sampleFileRow], snap_repos = [1]\<rparr>, clock = 5, script = []\<rparr>, gc_engine = sampleFs,
      gc_pins = noPins, gc_pinScript = [], gc_ctx = [], gc_log = []\<rparr>"

definition emptyFs :: fs where
  "emptyFs = \<lparr>fs_files = [], fs_dirs = [''/w''], fs_faults = []\<rparr>"

text \<open>A server on which everything succeeds, and a cached template of five gigabytes.\<close>

definition calmOps :: "unit connOps" where
  "calmOps =
     \<lparr>op_configured = (\<lambda>_ _. True), op_dial = (\<lambda>_ _. returnA ()), op_exists = (\<lambda>_ _ _. returnA True),
      op_dropMatching = (\<lambda>_ _ _. returnA 0), op_dropSnapshot = (\<lambda>_ _ _. returnA ()),
      op_listMatching = (\<lambda>_ _ _. returnA [''_tm_0123456789abcdef_spare1'', ''_tm_f'']), op_close = (\<lambda>_ _. returnA ())\<rparr>"

definition bigGC :: "unit gcWorld" where
  "bigGC =
     \<lparr>gc_db = \<lparr>tables = \<lparr>snapshots = [sampleSnap ''f'' ''h'' 536870912 1], snap_repos = [1]\<rparr>, clock = 5, script = []\<rparr>,
      gc_engine = (), gc_pins = noPins, gc_pinScript = [], gc_ctx = [], gc_log = []\<rparr>"

section \<open>Properties\<close>

text \<open>
  A fingerprint is pinned exactly while a caller holds an unreleased handle on it, whatever sequence of pins
  and (repeated) releases led there.
\<close>

theorem pin_iff_handle:
  assumes "pinReach st"
  shows "IsPinned fp st \<longleftrightarrow> (fp, True) \<in> set (handles st)"
proof -
  have inv: "pinInv st" using assms by (rule pinReach_inv)
  then have "0 < liveHandles st fp \<longleftrightarrow> (fp, True) \<in> set (handles st)" by (simp add: liveHandles_def)
  then show ?thesis using countOf_live [OF inv, of fp] inv by (auto simp: IsPinned_def pinInv_def)
qed

theorem pin_iff_handle_witness:
  "IsPinned ''f'' (release 0 (release 0 (Pin ''f'' (Pin ''f'' noPins))))"
proof -
  let ?st = "applyPin (ReleaseOp 0) (applyPin (ReleaseOp 0) (applyPin (PinOp ''f'') (applyPin (PinOp ''f'') noPins)))"
  have "pinReach ?st" by (intro pinReach.intros)
  moreover have "(''f'', True) \<in> set (handles ?st)" by (simp add: Pin_def release_def noPins_def Let_def)
  ultimately show ?thesis using pin_iff_handle [of ?st "''f''"] by simp
qed

text \<open>
  C33: An eviction whose candidates' pins do not change meanwhile keeps rows and templates in step, for every
  interleaving of the drops and every failure of a server or of the database: a row it deletes is that of an unpinned
  candidate whose template is gone, and no namespace disappears but those the unpinned candidates name.
  When the database does not fail, the rows deleted are exactly those whose drop succeeded.
\<close>

theorem evict_in_step:
  assumes "template_server ops live family" "alone (gc_db w)" "pinsHeld w"
  shows "\<exists>w' D. evictCandidates ops sched cands repo eventType msg w = (Inr (), w') \<and> alone (gc_db w') \<and>
    rowsOf w' = filter (\<lambda>r. fpOf r \<notin> D) (rowsOf w) \<and>
    (\<forall>fp \<in> D. \<not> IsPinned fp (gc_pins w) \<and> (\<exists>c \<in> set cands. ev_fingerprint c = fp \<and> candGone live (gc_engine w') c)) \<and>
    dropsOnly live (\<Union>c \<in> {c \<in> set cands. \<not> IsPinned (ev_fingerprint c) (gc_pins w)}. candTouch family c) (gc_engine w) (gc_engine w') \<and>
    (quiet (gc_db w) \<longrightarrow>
       D = evicts (gc_pins w) (zip cands (dropResults ops sched cands (pinnedNow (gc_pins w) cands) (gc_engine w))))"
  by (rule template_server.evict_effect [OF assms])

theorem evict_in_step_witness:
  "template_server fileConnOps fileLive fileFamily \<and> alone (gc_db sampleGC) \<and> pinsHeld sampleGC \<and>
   (\<exists>w'. evictCandidates fileConnOps [0] [candidateOf sampleFileRow] 1 [] (\<lambda>_. []) sampleGC = (Inr (), w') \<and>
      rowsOf w' = [] \<and> \<not> fileLive (gc_engine w') FamilyFile [] ''/w/_tm_0.db'')"
proof -
  let ?c = "candidateOf sampleFileRow"
  have pre: "alone (gc_db sampleGC)" "quiet (gc_db sampleGC)" "pinsHeld sampleGC"
    by (simp_all add: sampleGC_def alone_def quiet_def pinsHeld_def)
  have res: "dropResults fileConnOps [0] [?c] (pinnedNow (gc_pins sampleGC) [?c]) (gc_engine sampleGC) = [None]"
    by code_simp
  have "\<not> IsPinned fp (gc_pins sampleGC)" for fp by (simp add: sampleGC_def noPins_def IsPinned_def countOf_def)
  then have ev: "evicts (gc_pins sampleGC) [(?c, None)] = {''f''}" by (auto simp: evicts_def sampleFileRow_def sampleSnap_def)
  obtain w' D where run: "evictCandidates fileConnOps [0] [?c] 1 [] (\<lambda>_. []) sampleGC = (Inr (), w')"
    and rows: "rowsOf w' = filter (\<lambda>r. fpOf r \<notin> D) (rowsOf sampleGC)" and D: "D = {''f''}"
    and gone: "\<forall>fp \<in> D. \<exists>c \<in> set [?c]. ev_fingerprint c = fp \<and> candGone fileLive (gc_engine w') c"
    using evict_in_step [OF files.template_server_axioms pre(1,3), of "[0]" "[?c]" 1 "[]" "\<lambda>_. []"] pre(2) unfolding res
    by (auto simp: ev)
  have "Canonical (ev_engine ?c) = Some FamilyFile" by code_simp
  then have "\<not> fileLive (gc_engine w') FamilyFile [] ''/w/_tm_0.db''"
    using gone D by (simp add: candGone_def candidateOf_def sampleFileRow_def sampleSnap_def)
  moreover have "rowsOf w' = []" using rows D by (simp add: sampleGC_def sampleFileRow_def sampleSnap_def)
  ultimately show ?thesis using run pre files.template_server_axioms by blast
qed

text \<open>
  A pin released between the two passes strands a template: the candidate is skipped when templates are dropped,
  its row is deleted and an eviction is reported, and the servers have not been touched.
\<close>

theorem evict_pin_race:
  assumes "quiet (gc_db w)" "gc_pinScript w = [before, between]"
    and "IsPinned (ev_fingerprint c) (fold applyPin before (gc_pins w))"
    and "\<not> IsPinned (ev_fingerprint c) (fold applyPin between (fold applyPin before (gc_pins w)))"
  shows "\<exists>w'. evictCandidates ops sched [c] repo eventType msg w = (Inr (), w') \<and> gc_engine w' = gc_engine w \<and>
    rowsOf w' = filter (\<lambda>r. fpOf r \<noteq> ev_fingerprint c) (rowsOf w) \<and>
    gc_log w' = gc_log w @ [(eventType, msg c, repo, ev_fingerprint c)]"
proof -
  let ?p1 = "fold applyPin before (gc_pins w)"
  let ?w1 = "w\<lparr>gc_pins := ?p1, gc_pinScript := [between]\<rparr>"
  let ?w2 = "w\<lparr>gc_pins := fold applyPin between ?p1, gc_pinScript := []\<rparr>"
  have pins: "checkPins [c] w = (Inr [True], ?w1)" using assms(2,3) by (simp add: bindA_def returnA_def checkPin_def Let_def)
  have "runJobs ops [c] sched ([Finished None], [], gc_engine w) = ([Finished None], [], gc_engine w)"
    unfolding runJobs_def by (rule finished_batch_idle) simp
  then have drops: "dropPhase ops sched [c] [True] ?w1 = (Inr [None], ?w1)"
    by (simp add: dropPhase_def jobResult_def pool_close_def bindA_def readA_def returnA_def)
  obtain r wd where del: "onDB (DeleteSnapshot (ev_fingerprint c)) ?w2 = (r, wd)" by (meson surj_pair)
  have q: "quiet (gc_db ?w2)" using assms(1) by simp
  obtain d where d: "wd = ?w2\<lparr>gc_db := d\<rparr>" "snapshots (tables d) = filter (\<lambda>r. fpOf r \<noteq> ev_fingerprint c) (rowsOf w)"
    using delete_alone [OF quiet_alone [OF q] del] delete_quiet [OF q del] by auto
  have "checkPin (ev_fingerprint c) ?w1 = (Inr False, ?w2)" using assms(4) by (simp add: checkPin_def Let_def)
  then have "rowPhase eventType msg repo [(c, None)] ?w1 =
      (Inr (), wd\<lparr>gc_log := gc_log wd @ [(eventType, msg c, repo, ev_fingerprint c)]\<rparr>)"
    using del by (simp add: bindA_def ignoreA_def WriteEvent_def modifyA_def returnA_def)
  then have "evictCandidates ops sched [c] repo eventType msg w =
      (Inr (), wd\<lparr>gc_log := gc_log wd @ [(eventType, msg c, repo, ev_fingerprint c)]\<rparr>)"
    using pins drops by (simp add: evictCandidates_def bindA_def)
  then show ?thesis using d by simp
qed

theorem evict_pin_race_witness:
  "\<exists>w'. evictCandidates fileConnOps [] [candidateOf sampleFileRow] 1 [] (\<lambda>_. [])
       (sampleGC\<lparr>gc_pins := Pin ''f'' noPins, gc_pinScript := [[], [ReleaseOp 0]]\<rparr>) = (Inr (), w') \<and>
     rowsOf w' = [] \<and> fileLive (gc_engine w') FamilyFile [] ''/w/_tm_0.db''"
proof -
  let ?w = "sampleGC\<lparr>gc_pins := Pin ''f'' noPins, gc_pinScript := [[], [ReleaseOp 0]]\<rparr>"
  let ?c = "candidateOf sampleFileRow"
  have fp: "ev_fingerprint ?c = ''f''" by (simp add: sampleFileRow_def sampleSnap_def)
  have pre: "quiet (gc_db ?w)" "gc_pinScript ?w = [[], [ReleaseOp 0]]" by (simp_all add: sampleGC_def quiet_def)
  have "IsPinned (ev_fingerprint ?c) (fold applyPin [] (gc_pins ?w))"
    unfolding fp by (simp add: IsPinned_def Pin_def noPins_def countOf_def)
  moreover have "\<not> IsPinned (ev_fingerprint ?c) (fold applyPin [ReleaseOp 0] (fold applyPin [] (gc_pins ?w)))"
    unfolding fp by (simp add: IsPinned_def Pin_def noPins_def countOf_def release_def Let_def)
  ultimately obtain w' where w': "evictCandidates fileConnOps [] [?c] 1 [] (\<lambda>_. []) ?w = (Inr (), w')" "gc_engine w' = gc_engine ?w"
    "rowsOf w' = filter (\<lambda>r. fpOf r \<noteq> ev_fingerprint ?c) (rowsOf ?w)"
    using evict_pin_race [OF pre, of ?c fileConnOps "[]" 1 "[]" "\<lambda>_. []"] by blast
  then have "rowsOf w' = []" "fileLive (gc_engine w') FamilyFile [] ''/w/_tm_0.db''"
    by (simp_all add: sampleGC_def fileLive_def sampleFs_def fileAt_def)
  then show ?thesis using w'(1) by blast
qed

text \<open>
  C36: On a database nobody else writes to, with nothing pinned and servers whose drops succeed, the size sweep ends
  with the recorded sizes at or under the configured number of gigabytes.
\<close>

theorem size_sweep_under_cap:
  assumes "quiet (gc_db w)" "noPinned w" "P (gc_engine w)" "dropsWork ops P (candidateOf ` set (rowsOf w))"
    and "fps_ok (tables (gc_db w))" "gb \<noteq> 0"
  shows "\<exists>w'. SweepBySize ops gb w = (Inr (), w') \<and> sum_list (map sizeOf (rowsOf w')) \<le> uint gb * 2 ^ 30"
proof -
  let ?tot = "sum_list (map sizeOf (rowsOf w))"
  obtain d where d: "onDB SumSnapshotBytes w = (Inr ?tot, w\<lparr>gc_db := d\<rparr>)" "quiet d" "tables d = tables (gc_db w)"
    unfolding SumSnapshotBytes_def using onDB_query_quiet [OF assms(1)] by blast
  let ?w1 = "w\<lparr>gc_db := d\<rparr>"
  show ?thesis
  proof (cases "?tot \<le> capBytes gb")
    case True
    then have "SweepBySize ops gb w = (Inr (), ?w1)"
      using d(1) assms(6) by (simp add: SweepBySize_def sweep_def bindA_def tryA_def returnA_def)
    then show ?thesis using True d(3) by (simp add: capBytes_exact)
  next
    case False
    let ?xs = "largestLRU (tables (gc_db w))"
    have "quiet (gc_db ?w1)" using d(2) by simp
    from onDB_query_quiet [OF this, of "\<lambda>t. map sizedOf (largestLRU t)"] obtain d2 where
      d2: "onDB ListSnapshotsLargestLRU ?w1 = (Inr (map sizedOf ?xs), ?w1\<lparr>gc_db := d2\<rparr>)" "quiet d2" "tables d2 = tables (gc_db w)"
      unfolding ListSnapshotsLargestLRU_def using d(3) by auto
    let ?w2 = "?w1\<lparr>gc_db := d2\<rparr>"
    have "SweepBySize ops gb w = sizeLoop ops (capBytes gb) ?tot (map sizedOf ?xs) ?w2"
      using d(1) d2(1) assms(6) False by (simp add: SweepBySize_def sweep_def bindA_def tryA_def)
    moreover have "\<exists>w'. sizeLoop ops (capBytes gb) ?tot (map sizedOf ?xs) ?w2 = (Inr (), w') \<and> sum_list (map sizeOf (rowsOf w')) \<le> capBytes gb"
    proof (rule sizeLoop_under_cap [where P = P])
      show "mset (rowsOf ?w2) = mset ?xs" "dropsWork ops P (candidateOf ` set ?xs)"
        using d2(3) assms(4) by (simp_all add: largestLRU_def)
      show "0 \<le> capBytes gb" using uint32_bounds(1) [of gb] by (simp add: capBytes_exact)
    qed (use assms d2 in \<open>simp_all add: noPinned_def pinsHeld_def fps_ok_def\<close>)
    ultimately show ?thesis by (simp add: capBytes_exact)
  qed
qed

theorem size_sweep_under_cap_witness:
  "\<exists>w'. SweepBySize calmOps 2 bigGC = (Inr (), w') \<and> sum_list (map sizeOf (rowsOf w')) \<le> 2 * 2 ^ 30"
proof -
  have "Canonical ''mysql'' = Some FamilyMySQL" by code_simp
  then have "dropsWork calmOps (\<lambda>_. True) (candidateOf ` set (rowsOf bigGC))"
    by (simp add: dropsWork_def bigGC_def candidateOf_def sampleSnap_def DropTemplate_def pool_drop_def pool_get_def calmOps_def
        dropSpares_def bindA_def readA_def returnA_def modifyA_def wrapA_def onEngine_def)
  moreover have "quiet (gc_db bigGC)" "noPinned bigGC" "fps_ok (tables (gc_db bigGC))"
    by (simp_all add: bigGC_def quiet_def noPinned_def pinsHeld_def noPins_def IsPinned_def countOf_def fps_ok_def)
  moreover have "(2 :: u32) \<noteq> 0" by simp
  ultimately show ?thesis using size_sweep_under_cap [of bigGC "\<lambda>_. True" calmOps 2] by simp
qed

text \<open>
  A purge that reports no error has deleted exactly the repository's rows, counts them, and none of their templates
  is left.
\<close>

theorem purge_complete:
  assumes "template_server ops live family" "alone (gc_db w)" "fps_ok (tables (gc_db w))" "repo \<noteq> 0"
    and "PurgeRepo ops repo w = (Inr (n, []), w')"
  shows "rowsOf w' = filter (\<lambda>r. sn_repo (row_rec r) \<noteq> repo) (rowsOf w) \<and>
    n = length (filter (\<lambda>r. sn_repo (row_rec r) = repo) (rowsOf w)) \<and>
    (\<forall>r \<in> set (rowsOf w). sn_repo (row_rec r) = repo \<longrightarrow> candGone live (gc_engine w') (candidateOf r))"
proof -
  obtain r d where l: "onDB (ListSnapshotsForRepo repo) w = (r, w\<lparr>gc_db := d\<rparr>)" "alone d" "tables d = tables (gc_db w)"
    "\<And>x. r = Inr x \<Longrightarrow> mset x = mset (map candidateOf (repoRows repo (tables (gc_db w))))"
    using list_repo [OF assms(2,4)] by blast
  obtain cands where cands: "r = Inr cands" using assms(5) l(1) by (cases r) (auto simp: PurgeRepo_def bindA_def tryA_def returnA_def)
  obtain res w1 where loop: "purgeLoop ops repo cands [] 0 [] (w\<lparr>gc_db := d\<rparr>) = (res, w1)" by (meson surj_pair)
  obtain conns where ok: "res = Inr (conns, n, [])" "w' = w1\<lparr>gc_engine := snd (snd (pool_close ops (conns, gc_engine w1)))\<rparr>"
    using assms(5) l(1) cands loop
    by (cases res) (auto simp: PurgeRepo_def bindA_def tryA_def returnA_def onServer_def split: prod.splits)
  have eff: "n = length cands" "rowsOf w1 = filter (\<lambda>r. fpOf r \<notin> ev_fingerprint ` set cands) (rowsOf w)"
    "\<forall>c \<in> set cands. candGone live (gc_engine w1) c"
    using template_server.purgeLoop_effect [OF assms(1) _ loop [unfolded ok(1)]] l(2,3) by simp_all
  have mem: "set cands = candidateOf ` set (repoRows repo (tables (gc_db w)))" using l(4) [OF cands] by (metis list.set_map mset_eq_setD)
  have "fpOf r \<in> ev_fingerprint ` set cands \<longleftrightarrow> sn_repo (row_rec r) = repo" if "r \<in> set (rowsOf w)" for r
    using candidate_row [OF assms(3) _ that, of "repoRows repo (tables (gc_db w))"] that unfolding mem by (auto simp: repoRows_def)
  then have "rowsOf w' = filter (\<lambda>r. sn_repo (row_rec r) \<noteq> repo) (rowsOf w)" using eff(2) ok(2) by (auto intro: filter_cong)
  moreover have "n = length (repoRows repo (tables (gc_db w)))" using eff(1) l(4) [OF cands] by (metis length_map size_mset)
  moreover have "candGone live (gc_engine w') c" if "c \<in> set cands" for c
    using template_server.gone_stays [OF assms(1) template_server.pool_close_calm [OF assms(1) refl]] eff(3) that ok(2) by fastforce
  ultimately show ?thesis using mem by (auto simp: repoRows_def)
qed

theorem purge_complete_witness:
  "\<exists>w'. PurgeRepo fileConnOps 1 sampleGC = (Inr (1, []), w') \<and> rowsOf w' = [] \<and>
     candGone fileLive (gc_engine w') (candidateOf sampleFileRow)"
proof -
  have "fst (PurgeRepo fileConnOps 1 sampleGC) = Inr (1, [])" by code_simp
  then obtain w' where run: "PurgeRepo fileConnOps 1 sampleGC = (Inr (1, []), w')" by (cases "PurgeRepo fileConnOps 1 sampleGC") auto
  have "alone (gc_db sampleGC)" "fps_ok (tables (gc_db sampleGC))" "(1::int) \<noteq> 0" "rowsOf sampleGC = [sampleFileRow]"
    by (simp_all add: sampleGC_def alone_def fps_ok_def)
  from purge_complete [OF files.template_server_axioms this(1-3) run] this(4) show ?thesis
    using run by (simp add: sampleFileRow_def sampleSnap_def)
qed

text \<open>
  Pruning rows touches no template, and every row it deletes is an unpinned row whose template does not exist.
\<close>

theorem prune_spares_live:
  assumes "template_server ops live family" "alone (gc_db w)" "pinsHeld w" "repo \<noteq> 0"
  shows "\<exists>pruned errs w'. PruneRowOrphans ops repo w = (Inr (pruned, errs), w') \<and>
    dropsOnly live {} (gc_engine w) (gc_engine w') \<and>
    rowsOf w' = filter (\<lambda>r. fpOf r \<notin> pr_fingerprint ` set pruned) (rowsOf w) \<and>
    (\<forall>x \<in> set pruned. \<exists>r \<in> set (rowsOf w). x = pruneOf (candidateOf r) \<and> sn_repo (row_rec r) = repo \<and>
       \<not> IsPinned (fpOf r) (gc_pins w) \<and> candGone live (gc_engine w') (candidateOf r))"
proof -
  obtain r d where l: "onDB (ListSnapshotsForRepo repo) w = (r, w\<lparr>gc_db := d\<rparr>)" "alone d" "tables d = tables (gc_db w)"
    "\<And>x. r = Inr x \<Longrightarrow> mset x = mset (map candidateOf (repoRows repo (tables (gc_db w))))"
    using list_repo [OF assms(2,4)] by blast
  let ?w1 = "w\<lparr>gc_db := d\<rparr>"
  show ?thesis
  proof (cases r)
    case (Inl e)
    then have "PruneRowOrphans ops repo w = (Inr ([], [Wrapf ''list snapshots: '' e []]), ?w1)"
      using l(1) by (simp add: PruneRowOrphans_def FindRowOrphans_def bindA_def tryA_def returnA_def)
    then show ?thesis using l(3) by simp
  next
    case (Inr cands)
    have "pinsHeld ?w1" using assms(3) by (simp add: pinsHeld_def)
    from template_server.orphanRows_effect [OF assms(1) this, of cands "[]" "[]"] obtain conns out w2 where
      o: "orphanRows ops cands [] [] ?w1 = (Inr (conns, out), w2)" "gc_db w2 = d" "dropsOnly live {} (gc_engine w) (gc_engine w2)"
      "\<And>x. x \<in> set out \<Longrightarrow> \<exists>c \<in> set cands. x = pruneOf c \<and> \<not> IsPinned (ev_fingerprint c) (gc_pins w) \<and> candGone live (gc_engine w2) c"
      by auto
    let ?w3 = "w2\<lparr>gc_engine := snd (snd (pool_close ops (conns, gc_engine w2)))\<rparr>"
    have close: "dropsOnly live {} (gc_engine w2) (gc_engine ?w3)"
      using template_server.pool_close_calm [OF assms(1) refl, of "{}" "(conns, gc_engine w2)"] by simp
    have find: "FindRowOrphans ops repo w = (Inr (out, []), ?w3)"
      using l(1) Inr o(1) by (simp add: FindRowOrphans_def bindA_def tryA_def returnA_def onServer_def)
    have "alone (gc_db ?w3)" using o(2) l(2) by simp
    from pruneLoop_effect [OF this, of repo out "[]" "[]"] obtain ps errs w' where
      p: "pruneLoop repo out [] [] ?w3 = (Inr (ps, errs), w')" "set ps \<subseteq> set out" "gc_engine w' = gc_engine ?w3"
      "rowsOf w' = filter (\<lambda>r. fpOf r \<notin> pr_fingerprint ` set ps) (rowsOf ?w3)" by auto
    have run: "PruneRowOrphans ops repo w = (Inr (ps, errs), w')" using find p(1) by (simp add: PruneRowOrphans_def bindA_def)
    have mem: "set cands = candidateOf ` set (repoRows repo (tables (gc_db w)))" using l(4) [OF Inr] by (metis list.set_map mset_eq_setD)
    have "\<exists>r \<in> set (rowsOf w). x = pruneOf (candidateOf r) \<and> sn_repo (row_rec r) = repo \<and>
       \<not> IsPinned (fpOf r) (gc_pins w) \<and> candGone live (gc_engine w') (candidateOf r)" if x: "x \<in> set ps" for x
    proof -
      obtain c where c: "c \<in> set cands" "x = pruneOf c" "\<not> IsPinned (ev_fingerprint c) (gc_pins w)" "candGone live (gc_engine w2) c"
        using o(4) [of x] p(2) x by blast
      have "candGone live (gc_engine w') c" unfolding p(3) using template_server.gone_stays [OF assms(1) close c(4)] .
      then show ?thesis using c mem by (auto simp: repoRows_def)
    qed
    moreover have "dropsOnly live {} (gc_engine w) (gc_engine w')" unfolding p(3) using o(3) close by (rule dropsOnly_comp)
    moreover have "rowsOf w' = filter (\<lambda>r. fpOf r \<notin> pr_fingerprint ` set ps) (rowsOf w)" using p(4) o(2) l(3) by simp
    ultimately show ?thesis using run by blast
  qed
qed

theorem prune_spares_live_witness:
  "\<exists>pruned errs w'. PruneRowOrphans fileConnOps 1 (sampleGC\<lparr>gc_engine := emptyFs\<rparr>) = (Inr (pruned, errs), w') \<and>
     map pr_fingerprint pruned = [''f''] \<and> rowsOf w' = []"
proof -
  let ?w = "sampleGC\<lparr>gc_engine := emptyFs\<rparr>"
  have "alone (gc_db ?w)" "pinsHeld ?w" "(1::int) \<noteq> 0" by (simp_all add: sampleGC_def alone_def pinsHeld_def)
  from prune_spares_live [OF files.template_server_axioms this] obtain pruned errs w' where
    run: "PruneRowOrphans fileConnOps 1 ?w = (Inr (pruned, errs), w')"
      "rowsOf w' = filter (\<lambda>r. fpOf r \<notin> pr_fingerprint ` set pruned) (rowsOf ?w)" by blast
  have "(case fst (PruneRowOrphans fileConnOps 1 ?w) of Inr (ps, es) \<Rightarrow> map pr_fingerprint ps | Inl e \<Rightarrow> []) = [''f'']" by code_simp
  then have "map pr_fingerprint pruned = [''f'']" using run(1) by simp
  moreover from this have "pr_fingerprint ` set pruned = {''f''}" by (metis empty_set list.set(2) list.set_map)
  ultimately show ?thesis using run by (simp add: sampleGC_def sampleFileRow_def sampleSnap_def)
qed

text \<open>
  The orphan search never reports a template that a row references, and every name it reports has the prefix treeman
  gives its templates on that engine; it reads the table and leaves it alone.
\<close>

theorem orphans_without_row:
  assumes "alone (gc_db w)"
  shows "\<exists>out err w'. FindOrphans ops w = (Inr (out, err), w') \<and> rowsOf w' = rowsOf w \<and>
    (\<forall>x \<in> set out. or_family x \<in> set orphanFamilies \<and> HasPrefix (or_name x) (fst (templatePattern (or_family x))) \<and>
       (\<forall>r \<in> set (rowsOf w). sn_template (row_rec r) \<noteq> or_name x))"
proof -
  let ?sel = "\<lambda>t. map (\<lambda>r. sn_template (row_rec r)) (snapshots t)"
  obtain r d where q: "onDB ListAllTemplateNames w = (r, w\<lparr>gc_db := d\<rparr>)" "tables d = tables (gc_db w)"
    "\<And>x. r = Inr x \<Longrightarrow> x = ?sel (tables (gc_db w))"
    unfolding ListAllTemplateNames_def using onDB_query_alone [OF assms, of ?sel] by blast
  let ?w1 = "w\<lparr>gc_db := d\<rparr>"
  show ?thesis
  proof (cases r)
    case (Inl e)
    then have "FindOrphans ops w = (Inr ([], Some (Wrapf ''list snapshot rows: '' e [])), ?w1)"
      using q(1) by (simp add: FindOrphans_def bindA_def tryA_def returnA_def)
    then show ?thesis using q(2) by simp
  next
    case (Inr known)
    obtain out err e where loop: "orphanLoop ops known orphanFamilies [] (gc_engine w) = (Inr (out, err), e)"
      "\<And>x. x \<in> set out \<Longrightarrow> or_family x \<in> set orphanFamilies \<and> or_name x \<notin> set known \<and> HasPrefix (or_name x) (fst (templatePattern (or_family x)))"
      using orphanLoop_names [of ops known orphanFamilies "[]" "gc_engine w"] by auto
    obtain out' err' where run: "FindOrphans ops w = (Inr (out', err'), ?w1\<lparr>gc_engine := e\<rparr>)" "set out' = set out"
    proof (cases err)
      case None
      then show thesis using that q(1) Inr loop(1) by (simp add: FindOrphans_def bindA_def tryA_def returnA_def onServer_def)
    next
      case (Some e)
      then show thesis using that q(1) Inr loop(1) by (simp add: FindOrphans_def bindA_def tryA_def returnA_def onServer_def)
    qed
    have "\<forall>x \<in> set out'. or_family x \<in> set orphanFamilies \<and> HasPrefix (or_name x) (fst (templatePattern (or_family x))) \<and>
       (\<forall>r \<in> set (rowsOf w). sn_template (row_rec r) \<noteq> or_name x)"
    proof (intro ballI conjI)
      fix x assume "x \<in> set out'"
      then have x: "or_family x \<in> set orphanFamilies" "or_name x \<notin> set known" "HasPrefix (or_name x) (fst (templatePattern (or_family x)))"
        using loop(2) run(2) by auto
      then show "or_family x \<in> set orphanFamilies" "HasPrefix (or_name x) (fst (templatePattern (or_family x)))" by simp_all
      show "sn_template (row_rec r) \<noteq> or_name x" if r: "r \<in> set (rowsOf w)" for r
      proof -
        have "sn_template (row_rec r) \<in> set known" unfolding q(3) [OF Inr] set_map using r by (rule imageI)
        then show ?thesis using x(2) by metis
      qed
    qed
    then show ?thesis using run(1) q(2) by simp
  qed
qed

theorem orphans_without_row_witness:
  "alone (gc_db bigGC) \<and> (\<exists>out err w'. FindOrphans calmOps bigGC = (Inr (out, err), w') \<and>
     map or_name out = [''_tm_0123456789abcdef'', ''_tm_0123456789abcdef'', ''_tm_0123456789abcdef''] \<and>
     (\<forall>x \<in> set out. \<forall>r \<in> set (rowsOf bigGC). sn_template (row_rec r) \<noteq> or_name x))"
proof -
  have al: "alone (gc_db bigGC)" by (simp add: bigGC_def alone_def)
  obtain out err w' where run: "FindOrphans calmOps bigGC = (Inr (out, err), w')"
    "\<forall>x \<in> set out. \<forall>r \<in> set (rowsOf bigGC). sn_template (row_rec r) \<noteq> or_name x"
    using orphans_without_row [OF al, of calmOps] by blast
  have "(case fst (FindOrphans calmOps bigGC) of Inr (xs, _) \<Rightarrow> map or_name xs | Inl _ \<Rightarrow> []) =
      [''_tm_0123456789abcdef'', ''_tm_0123456789abcdef'', ''_tm_0123456789abcdef'']" by code_simp
  then show ?thesis using run al by simp
qed

end
