(* ===== verification/BranchReap.thy ===== *)
theory BranchReap
  imports DriverLaws
begin

text \<open>
  Reclaiming the durable copies of branches, \<open>internal/prepare/branchreap.go\<close>: the forward reaper of a
  deleted branch, the sweeps over the recorded copies whose branch is gone or that expired, and the
  reconcile that drops copies no row of any repository references once they were seen untracked for
  a grace period.

  Connecting to a server, the listing of its names and the bulk drop of an index family are
  parameters; every server is identified by its engine label and the name of its connection.
\<close>

section \<open>Model\<close>

subsection \<open>Connecting an engine\<close>

record 'e connected = "'e branchEngine" +
  listMatching :: "(string \<Rightarrow> ('e, string list) action) option"
  dropMatching :: "(string \<Rightarrow> ('e, string list) action) option"

text \<open>
  \<open>re_dial label connection\<close> is \<open>Connect\<close> of the driver package, \<open>re_configured\<close> whether the connection
  resolves in the configuration, \<open>re_maxAgeDays\<close> is \<open>cfg.Durables.MaxAgeDays\<close>.
\<close>

record 'e reapEnv =
  re_cfg :: Config
  re_names :: nameEnv
  re_git :: git
  re_maxAgeDays :: "64 word"
  re_configured :: "string \<Rightarrow> string \<Rightarrow> bool"
  re_dial :: "string \<Rightarrow> string \<Rightarrow> ('e, 'e connected) action"

definition branchLabels :: "string list" where
  "branchLabels = [''mysql'', ''postgres'', ''mongodb'', ''redis'', ''elasticsearch'', ''s3'']"

text \<open>Object storage has one connection and ignores the name.\<close>

definition serverOf :: "string \<Rightarrow> string \<Rightarrow> string \<times> string" where
  "serverOf lbl conn = (lbl, if lbl = ''s3'' then [] else conn)"

definition connectBranchEngine ::
  "'e reapEnv \<Rightarrow> string \<Rightarrow> string \<Rightarrow> ('e world, 'e connected option) action" where
  "connectBranchEngine X en conn =
     (case branchScopeFor en of
        None \<Rightarrow> returnA None
      | Some (sc, lbl) \<Rightarrow>
          if lbl \<notin> set branchLabels then returnA None
          else
            (case serverOf lbl conn of (l, c) \<Rightarrow>
               if \<not> re_configured X l c then raiseA (NewError (''connections.'' @ lbl @ '' not configured''))
               else bindA (onEngine (re_dial X l c)) (\<lambda>be. returnA (Some (be\<lparr>scope := sc, label_of := lbl\<rparr>)))))"

subsection \<open>The copies of a deleted branch\<close>

record reapTarget =
  rt_wt :: int
  rt_active :: string

definition forgetDurable :: "int \<Rightarrow> string \<Rightarrow> ('e world, unit) action" where
  "forgetDurable repo dur =
     bindA (ignoreA (onStore (DeleteBranchDurable repo dur))) (\<lambda>_. writeEvent ''info'' ''branch:reap'')"

definition reapPair :: "'e reapEnv \<Rightarrow> 'e connected \<Rightarrow> int \<Rightarrow> reapTarget \<Rightarrow> string \<Rightarrow> ('e world, unit) action" where
  "reapPair X be repo tgt branch =
     (let dur = durable (slugs (re_names X)) (scope be) (label_of be) (rt_active tgt) branch
      in bindA (tryA (onEngine (nsExists (drv be) dur))) (\<lambda>ex.
           if ex \<noteq> Inr True then returnA ()
           else bindA (tryA (onEngine (nsDropDurable (drv be) dur))) (\<lambda>r.
             if isl r then returnA () else forgetDurable repo dur)))"

definition reapViaEngine ::
  "'e reapEnv \<Rightarrow> 'e connected \<Rightarrow> int \<Rightarrow> reapTarget list \<Rightarrow> string list \<Rightarrow> ('e world, unit) action" where
  "reapViaEngine X be repo targets branches = forA (\<lambda>tgt. forA (reapPair X be repo tgt) branches) targets"

definition reapTargets :: "'e reapEnv \<Rightarrow> bsScope \<Rightarrow> nat \<Rightarrow> DatabaseConfig \<Rightarrow> WorktreeRow list \<Rightarrow> reapTarget list" where
  "reapTargets X sc i d wts =
     (let mainDbs = Databases (ApplyMainWorktreeOverlay (re_cfg X))
      in List.map_filter (\<lambda>wt.
           let dbForWt = (if wt_main wt \<and> i < length mainDbs then mainDbs ! i else d)
           in case activeNamespace (slugs (re_names X)) (redis (re_names X)) dbForWt sc (wt_path wt) of
                Inl e \<Rightarrow> None
              | Inr act \<Rightarrow> Some \<lparr>rt_wt = wt_id wt, rt_active = act\<rparr>) wts)"

definition reapDatabase ::
  "'e reapEnv \<Rightarrow> int \<Rightarrow> WorktreeRow list \<Rightarrow> string list \<Rightarrow> nat \<times> DatabaseConfig \<Rightarrow> ('e world, unit) action" where
  "reapDatabase X repo wts branches entry =
     (case entry of (i, d) \<Rightarrow>
        if \<not> d_branch_scoped d then returnA ()
        else
          case branchScopeFor (d_engine d) of
            None \<Rightarrow> returnA ()
          | Some (sc, lbl) \<Rightarrow>
              bindA (tryA (connectBranchEngine X (d_engine d) (d_connection d))) (\<lambda>r.
                case r of
                  Inl err \<Rightarrow> returnA ()
                | Inr None \<Rightarrow> returnA ()
                | Inr (Some be) \<Rightarrow> reapViaEngine X be repo (reapTargets X sc i d wts) branches))"

definition ReapBranchDurablesMany :: "'e reapEnv \<Rightarrow> int \<Rightarrow> string list \<Rightarrow> ('e world, unit) action" where
  "ReapBranchDurablesMany X repo branches =
     (let filtered = filter (\<lambda>b. b \<noteq> []) branches
      in if filtered = [] then returnA ()
         else
           bindA (tryA (onStore (ListWorktreesForRepo repo))) (\<lambda>r.
             case r of
               Inl err \<Rightarrow> returnA ()
             | Inr wts \<Rightarrow>
                 if wts = [] then returnA ()
                 else forA (reapDatabase X repo wts filtered) (enumerate 0 (Databases (re_cfg X)))))"

definition ReapBranchDurables :: "'e reapEnv \<Rightarrow> int \<Rightarrow> string \<Rightarrow> ('e world, unit) action" where
  "ReapBranchDurables X repo branch =
     (if branch = [] then returnA () else ReapBranchDurablesMany X repo [branch])"

subsection \<open>The sweeps over recorded copies\<close>

definition dropTracked :: "'e connected \<Rightarrow> int \<Rightarrow> BranchDurableRow \<Rightarrow> ('e world, unit) action" where
  "dropTracked be repo d =
     bindA (tryA (onEngine (nsDropDurable (drv be) (bd_name d)))) (\<lambda>r.
       if isl r then returnA () else forgetDurable repo (bd_name d))"

definition dropTrackedEngine ::
  "'e reapEnv \<Rightarrow> int \<Rightarrow> BranchDurableRow list \<Rightarrow> string \<Rightarrow> ('e world, unit) action" where
  "dropTrackedEngine X repo durables en =
     bindA (tryA (connectBranchEngine X en [])) (\<lambda>r.
       case r of
         Inl err \<Rightarrow> returnA ()
       | Inr None \<Rightarrow> returnA ()
       | Inr (Some be) \<Rightarrow> forA (dropTracked be repo) (filter (\<lambda>d. bd_engine d = en) durables))"

definition dropTrackedDurables :: "'e reapEnv \<Rightarrow> int \<Rightarrow> BranchDurableRow list \<Rightarrow> ('e world, unit) action" where
  "dropTrackedDurables X repo durables =
     forA (dropTrackedEngine X repo durables) (sort (remdups (map bd_engine durables)))"

definition localBranchSet :: "git \<Rightarrow> string \<Rightarrow> string list option" where
  "localBranchSet git repoRoot =
     (case git repoRoot [''for-each-ref'', ''--format=%(refname:short)'', ''refs/heads/''] of
        Inl e \<Rightarrow> None
      | Inr out \<Rightarrow> Some (filter (\<lambda>b. b \<noteq> []) (map TrimSpace (splitLines (TrimSpace out)))))"

definition ReapOrphanDurables :: "'e reapEnv \<Rightarrow> int \<Rightarrow> string \<Rightarrow> ('e world, unit) action" where
  "ReapOrphanDurables X repo repoRoot =
     bindA (tryA (onStore (ListBranchDurables repo))) (\<lambda>r.
       case r of
         Inl err \<Rightarrow> returnA ()
       | Inr durables \<Rightarrow>
           if durables = [] then returnA ()
           else
             case localBranchSet (re_git X) repoRoot of
               None \<Rightarrow> returnA ()
             | Some live \<Rightarrow>
                 if live = [] then returnA ()
                 else dropTrackedDurables X repo (filter (\<lambda>d. bd_branch d \<notin> set live) durables))"

text \<open>The 64-bit product of the days and a day in nanoseconds, and the cutoff in milliseconds.\<close>

definition maxAge :: "64 word \<Rightarrow> 64 word" where
  "maxAge days = days * 24 * 3600000000000"

definition expiryCutoff :: "64 word \<Rightarrow> int \<Rightarrow> int" where
  "expiryCutoff days now = (now + sint (- maxAge days)) div 1000000"

definition ReapExpiredDurables :: "'e reapEnv \<Rightarrow> int \<Rightarrow> int \<Rightarrow> ('e world, unit) action" where
  "ReapExpiredDurables X repo now =
     (if sint (re_maxAgeDays X) < 0 then returnA ()
      else
        bindA (tryA (onStore (ListBranchDurablesUnusedSince repo (expiryCutoff (re_maxAgeDays X) now)))) (\<lambda>r.
          case r of
            Inl err \<Rightarrow> returnA ()
          | Inr expired \<Rightarrow> dropTrackedDurables X repo expired))"

subsection \<open>Recognising the spelling of a copy\<close>

definition esDurableMarker :: string where
  "esDurableMarker = ''tmbs_''"

definition isBSHash :: "string \<Rightarrow> bool" where
  "isBSHash s \<longleftrightarrow> length s = 16 \<and> list_all (\<lambda>c. is_digit c \<or> (CHR ''a'' \<le> c \<and> c \<le> CHR ''f'')) s"

definition esDurablePrefix :: "string \<Rightarrow> string option" where
  "esDurablePrefix index =
     (case CutPrefix index esDurableMarker of
        None \<Rightarrow> None
      | Some r \<Rightarrow>
          if length r < 17 \<or> r ! 16 \<noteq> CHR ''_'' \<or> \<not> isBSHash (take 16 r) then None
          else Some (esDurableMarker @ take 16 r @ ''_''))"

definition untrackedMarker :: "(string \<times> string) list" where
  "untrackedMarker =
     [(''mysql'', ''_tmbs_''), (''postgres'', ''_tmbs_''), (''mongodb'', ''_tmbs_''), (''s3'', ''tmbs-''),
      (''elasticsearch'', esDurableMarker)]"

definition durableFamily :: "string \<Rightarrow> string \<Rightarrow> string option" where
  "durableFamily en name =
     (if en = ''elasticsearch'' then esDurablePrefix name
      else
        case map_of untrackedMarker en of
          None \<Rightarrow> None
        | Some marker \<Rightarrow>
            (case CutPrefix name marker of
               None \<Rightarrow> None
             | Some r \<Rightarrow> if isBSHash r then Some name else None))"

subsection \<open>The clocks of untracked copies\<close>

text \<open>Times and durations are nanoseconds; a difference of times saturates at the range of 64 bits.\<close>

definition UntrackedGraceDefault :: int where
  "UntrackedGraceDefault = 10 * 60 * 1000000000"

definition timeSub :: "int \<Rightarrow> int \<Rightarrow> int" where
  "timeSub a b = max (- (2 ^ 63)) (min (2 ^ 63 - 1) (a - b))"

record UntrackedSeen =
  us_Grace :: int
  us_first :: "(string \<times> int) list"

definition graceOf :: "UntrackedSeen \<Rightarrow> int" where
  "graceOf u = (if us_Grace u \<le> 0 then UntrackedGraceDefault else us_Grace u)"

definition seenKey :: "string \<Rightarrow> string \<Rightarrow> string" where
  "seenKey en name = en @ [CHR 0x00] @ name"

definition forgetTracked :: "string \<Rightarrow> string list \<Rightarrow> (string \<times> int) list \<Rightarrow> (string \<times> int) list" where
  "forgetTracked en untracked first =
     filter (\<lambda>kv. case CutPrefix (fst kv) (en @ [CHR 0x00]) of None \<Rightarrow> True | Some name \<Rightarrow> name \<in> set untracked) first"

fun observeLoop ::
  "int \<Rightarrow> int \<Rightarrow> string \<Rightarrow> string list \<Rightarrow> (string \<times> int) list \<Rightarrow> string list \<times> (string \<times> int) list" where
  "observeLoop now grace en [] first = ([], first)"
| "observeLoop now grace en (name # ns) first =
     (case map_of first (seenKey en name) of
        None \<Rightarrow> observeLoop now grace en ns ((seenKey en name, now) # first)
      | Some t \<Rightarrow>
          (case observeLoop now grace en ns first of (due, first') \<Rightarrow>
             (if grace \<le> timeSub now t then name # due else due, first')))"

definition observe :: "int \<Rightarrow> string \<Rightarrow> string list \<Rightarrow> UntrackedSeen \<Rightarrow> string list \<times> UntrackedSeen" where
  "observe now en untracked u =
     (case observeLoop now (graceOf u) en untracked (forgetTracked en untracked (us_first u)) of
        (due, first) \<Rightarrow> (sort due, u\<lparr>us_first := first\<rparr>))"

subsection \<open>The reconcile of untracked copies\<close>

definition dropUntracked :: "'e connected \<Rightarrow> string \<Rightarrow> ('e world, unit) action" where
  "dropUntracked be fam =
     (case dropMatching be of
        Some dropAll \<Rightarrow>
          bindA (tryA (onEngine (dropAll fam))) (\<lambda>r.
            case r of
              Inl err \<Rightarrow> returnA ()
            | Inr idx \<Rightarrow> if idx = [] then returnA () else writeEvent ''info'' ''branch:reap'')
      | None \<Rightarrow>
          bindA (tryA (onEngine (nsDropDurable (drv be) fam))) (\<lambda>r.
            if isl r then returnA () else writeEvent ''info'' ''branch:reap''))"

definition untrackedOf :: "string \<Rightarrow> string list \<Rightarrow> string list \<Rightarrow> string list" where
  "untrackedOf en keep found =
     remdups (filter (\<lambda>fam. fam \<notin> set keep) (List.map_filter (durableFamily en) found))"

definition timeNow :: "('e world, int) action" where
  "timeNow = readA (\<lambda>w. clock (store w) * 1000000)"

definition reapUntrackedEngine ::
  "'e reapEnv \<Rightarrow> UntrackedSeen \<Rightarrow> string \<Rightarrow> string \<Rightarrow> ('e world, UntrackedSeen) action" where
  "reapUntrackedEngine X seen en conn =
     bindA (tryA (connectBranchEngine X en conn)) (\<lambda>c.
       case c of
         Inl err \<Rightarrow> returnA seen
       | Inr None \<Rightarrow> returnA seen
       | Inr (Some be) \<Rightarrow>
           bindA (tryA (onStore (ListAllDurableNamesByEngine en))) (\<lambda>k.
             case k of
               Inl err \<Rightarrow> bindA (writeEvent ''warn'' ''branch:reap'') (\<lambda>_. returnA seen)
             | Inr keep \<Rightarrow>
                 (case listMatching be of
                    None \<Rightarrow> returnA seen
                  | Some list_of \<Rightarrow>
                      bindA (tryA (onEngine (list_of (case map_of untrackedMarker en of Some m \<Rightarrow> m | None \<Rightarrow> [])))) (\<lambda>ns.
                        case ns of
                          Inl err \<Rightarrow> returnA seen
                        | Inr found \<Rightarrow>
                            bindA timeNow (\<lambda>now.
                              case observe now en (untrackedOf en keep found) seen of
                                (due, seen') \<Rightarrow> bindA (forA (dropUntracked be) due) (\<lambda>_. returnA seen'))))))"

definition untrackedTargets :: "Config \<Rightarrow> (string \<times> string) list" where
  "untrackedTargets C =
     rev (remdups (rev (List.map_filter (\<lambda>d.
       if \<not> d_branch_scoped d then None
       else
         case branchScopeFor (d_engine d) of
           None \<Rightarrow> None
         | Some (sc, lbl) \<Rightarrow>
             if map_of untrackedMarker lbl = None then None else Some (lbl, d_connection d)) (Databases C))))"

fun reapUntrackedAll :: "'e reapEnv \<Rightarrow> UntrackedSeen \<Rightarrow> (string \<times> string) list \<Rightarrow> ('e world, UntrackedSeen) action" where
  "reapUntrackedAll X seen [] = returnA seen"
| "reapUntrackedAll X seen (t # ts) =
     bindA (reapUntrackedEngine X seen (fst t) (snd t)) (\<lambda>seen'. reapUntrackedAll X seen' ts)"

definition ReapUntrackedDurables :: "'e reapEnv \<Rightarrow> UntrackedSeen \<Rightarrow> ('e world, UntrackedSeen) action" where
  "ReapUntrackedDurables X seen = reapUntrackedAll X seen (untrackedTargets (re_cfg X))"

section \<open>Lemmas\<close>

lemma set_map_filter: "x \<in> set (List.map_filter f xs) \<longleftrightarrow> (\<exists>y \<in> set xs. f y = Some x)"
  by (auto simp: List.map_filter_def image_iff)

subsection \<open>Spellings\<close>

lemma isBSHash_hex: "isBSHash h \<longleftrightarrow> length h = 16 \<and> list_all hex_char h"
proof -
  have "is_digit c \<or> (CHR ''a'' \<le> c \<and> c \<le> CHR ''f'') \<longleftrightarrow> hex_char c" for c
    by (cases c) (auto simp: is_digit_def hex_char_def less_eq_char_def)
  then show ?thesis by (simp add: isBSHash_def)
qed

text \<open>How an engine spells the copy with a given hash.\<close>

definition spelling :: "string \<Rightarrow> string \<Rightarrow> string" where
  "spelling en h =
     (if en = ''elasticsearch'' then ''tmbs_'' @ h @ ''_'' else if en = ''s3'' then ''tmbs-'' @ h else ''_tmbs_'' @ h)"

text \<open>The engine-side names a drop of a copy removes: a family of indices or keys, or one name.\<close>

definition family :: "string \<Rightarrow> string \<Rightarrow> string set" where
  "family en dur = (if en \<in> {''elasticsearch'', ''redis''} then {n. HasPrefix n dur} else {dur})"

definition covered :: "string set" where
  "covered = {''mysql'', ''postgres'', ''mongodb'', ''s3'', ''elasticsearch''}"

lemma covered_iff: "map_of untrackedMarker en \<noteq> None \<longleftrightarrow> en \<in> covered"
  by (auto simp: untrackedMarker_def covered_def)

lemma untrackedTargets_iff:
  "(en, conn) \<in> set (untrackedTargets C) \<longleftrightarrow>
     en \<in> covered \<and> (\<exists>d sc. d \<in> set (Databases C) \<and> d_branch_scoped d \<and> d_connection d = conn \<and>
       branchScopeFor (d_engine d) = Some (sc, en))"
proof -
  have "(if \<not> d_branch_scoped d then None
       else case branchScopeFor (d_engine d) of None \<Rightarrow> None
       | Some (sc, lbl) \<Rightarrow> if map_of untrackedMarker lbl = None then None else Some (lbl, d_connection d)) = Some (en, conn)
      \<longleftrightarrow> en \<in> covered \<and> d_branch_scoped d \<and> d_connection d = conn \<and> (\<exists>sc. branchScopeFor (d_engine d) = Some (sc, en))"
    for d
    using covered_iff by (cases "branchScopeFor (d_engine d)") (auto split: if_splits)
  note entry = this
  show ?thesis unfolding untrackedTargets_def set_rev set_remdups set_map_filter entry by blast
qed

lemma esDurablePrefix_iff:
  "esDurablePrefix n = Some fam \<longleftrightarrow> (\<exists>h. isBSHash h \<and> fam = ''tmbs_'' @ h @ ''_'' \<and> HasPrefix n fam)"
proof
  assume "esDurablePrefix n = Some fam"
  then obtain r where r: "n = ''tmbs_'' @ r" "17 \<le> length r" "r ! 16 = CHR ''_''" "isBSHash (take 16 r)"
      "fam = ''tmbs_'' @ take 16 r @ ''_''"
    by (auto simp: esDurablePrefix_def esDurableMarker_def CutPrefix_Some split: option.splits if_splits)
  have "r = take 16 r @ r ! 16 # drop 17 r" using r(2) id_take_nth_drop [of 16 r] by simp
  then have "n = fam @ drop 17 r" using r by simp
  then show "\<exists>h. isBSHash h \<and> fam = ''tmbs_'' @ h @ ''_'' \<and> HasPrefix n fam"
    using r by (metis HasPrefix_append)
next
  assume "\<exists>h. isBSHash h \<and> fam = ''tmbs_'' @ h @ ''_'' \<and> HasPrefix n fam"
  then obtain h r where h: "isBSHash h" "fam = ''tmbs_'' @ h @ ''_''" "n = ''tmbs_'' @ h @ ''_'' @ r"
    by (auto simp: HasPrefix_iff)
  have "CutPrefix n ''tmbs_'' = Some (h @ ''_'' @ r)" using h(3) by (simp add: CutPrefix_Some)
  moreover have "length h = 16" using h(1) by (simp add: isBSHash_def)
  ultimately show "esDurablePrefix n = Some fam"
    using h by (simp add: esDurablePrefix_def esDurableMarker_def nth_append)
qed

lemma durableFamily_iff:
  "durableFamily en n = Some fam \<longleftrightarrow> en \<in> covered \<and> (\<exists>h. isBSHash h \<and> fam = spelling en h \<and> n \<in> family en fam)"
proof (cases "en = ''elasticsearch''")
  case True
  then show ?thesis by (simp add: durableFamily_def esDurablePrefix_iff spelling_def family_def covered_def)
next
  case False
  define mk where "mk = (if en = ''s3'' then ''tmbs-'' else ''_tmbs_'')"
  have marker: "map_of untrackedMarker en = (if en \<in> covered then Some mk else None)"
    using False by (simp add: untrackedMarker_def covered_def mk_def)
  have spell: "spelling en h = mk @ h" for h using False by (simp add: spelling_def mk_def)
  have one: "en \<in> covered \<Longrightarrow> family en x = {x}" for x using False by (auto simp: family_def covered_def)
  have cut: "(case CutPrefix n mk of None \<Rightarrow> None | Some r \<Rightarrow> if isBSHash r then Some n else None) = Some fam
      \<longleftrightarrow> (\<exists>h. isBSHash h \<and> fam = mk @ h \<and> n = fam)"
  proof (cases "CutPrefix n mk")
    case None
    then have "n \<noteq> mk @ h" for h by (metis CutPrefix_Some option.distinct(1))
    then show ?thesis using None by auto
  next
    case (Some r)
    then have "n = mk @ r" by (simp add: CutPrefix_Some)
    then show ?thesis using Some by auto
  qed
  show ?thesis using False by (simp add: durableFamily_def marker spell one cut)
qed

lemma durableFamily_family: "durableFamily en m = Some fam \<Longrightarrow> n \<in> family en fam \<Longrightarrow> durableFamily en n = Some fam"
  by (auto simp: durableFamily_iff)

lemma durable_spelling:
  "branchScopeFor x = Some (sc, en) \<Longrightarrow> en \<in> covered \<Longrightarrow>
     durable env sc en active branch = spelling en (bsHash env (active @ ''|'' @ branch))"
proof -
  assume "branchScopeFor x = Some (sc, en)" "en \<in> covered"
  then obtain f where "Canonical x = Some f" "en = label f"
      "sc = (if Family_Scope f = ScopePrefix then scopePrefix else scopeName)" "f \<noteq> FamilyRedis" "f \<noteq> FamilyFile"
    by (fastforce simp: branchScopeFor_def covered_def split: option.splits if_splits)
  then show ?thesis by (cases f) (simp_all add: durable_def spelling_def Family_Scope_def)
qed

lemma bsHash_isBSHash: "blake3_ok env \<Longrightarrow> isBSHash (bsHash env s)"
  by (simp add: isBSHash_hex length_bsHash bsHash_hex)

subsection \<open>Clocks\<close>

lemma seenKey_eq: "CHR 0x00 \<notin> set en \<Longrightarrow> CHR 0x00 \<notin> set en' \<Longrightarrow> seenKey en n = seenKey en' n' \<longleftrightarrow> en = en' \<and> n = n'"
  unfolding seenKey_def by (induction en en' rule: list_induct2') auto

lemma CutPrefix_seenKey:
  assumes "CHR 0x00 \<notin> set en" "CHR 0x00 \<notin> set en'"
  shows "CutPrefix (seenKey en' n) (en @ [CHR 0x00]) = (if en' = en then Some n else None)"
proof (cases "CutPrefix (seenKey en' n) (en @ [CHR 0x00])")
  case None
  then show ?thesis using CutPrefix_Some [of "seenKey en n" "en @ [CHR 0x00]" n] by (auto simp: seenKey_def)
next
  case (Some r)
  then have "seenKey en' n = seenKey en r" by (simp add: CutPrefix_Some seenKey_def)
  then show ?thesis using Some seenKey_eq [OF assms(2,1)] by simp
qed

definition firstSeen :: "UntrackedSeen \<Rightarrow> string \<Rightarrow> string \<Rightarrow> int option" where
  "firstSeen u en name = map_of (us_first u) (seenKey en name)"

lemma map_of_filter_key: "map_of (filter (\<lambda>kv. P (fst kv)) xs) k = (if P k then map_of xs k else None)"
  by (induction xs) auto

lemma observeLoop_first:
  "map_of (snd (observeLoop now g en ns first)) k =
     (case map_of first k of Some t \<Rightarrow> Some t | None \<Rightarrow> if k \<in> seenKey en ` set ns then Some now else None)"
  by (induction now g en ns first rule: observeLoop.induct) (auto split: option.splits prod.splits)

lemma observeLoop_due:
  "distinct ns \<Longrightarrow> n \<in> set (fst (observeLoop now g en ns first)) \<longleftrightarrow>
     n \<in> set ns \<and> (\<exists>t. map_of first (seenKey en n) = Some t \<and> g \<le> timeSub now t)"
proof (induction now g en ns first rule: observeLoop.induct)
  case (2 now g en name ns first)
  have inj: "seenKey en n = seenKey en name \<longleftrightarrow> n = name" by (simp add: seenKey_def)
  show ?case
    using 2 inj by (cases "map_of first (seenKey en name)") (auto split: prod.splits)
qed simp

lemma observe_parts:
  "set (fst (observe now en U u)) = set (fst (observeLoop now (graceOf u) en U (forgetTracked en U (us_first u))))"
  "us_first (snd (observe now en U u)) = snd (observeLoop now (graceOf u) en U (forgetTracked en U (us_first u)))"
  by (simp_all add: observe_def split: prod.splits)

lemma firstSeen_observe:
  assumes "CHR 0x00 \<notin> set en" "CHR 0x00 \<notin> set en'"
  shows "firstSeen (snd (observe now en U u)) en' n =
    (if en' \<noteq> en then firstSeen u en' n
     else if n \<in> set U then Some (case firstSeen u en n of Some t \<Rightarrow> t | None \<Rightarrow> now) else None)"
proof -
  have key: "seenKey en' n \<in> seenKey en ` set U \<longleftrightarrow> en' = en \<and> n \<in> set U"
    using seenKey_eq [OF assms(2,1)] by auto
  have keep: "map_of (forgetTracked en U first) (seenKey en' n) =
      (if en' = en \<and> n \<notin> set U then None else map_of first (seenKey en' n))" for first
    unfolding forgetTracked_def
    by (subst map_of_filter_key [where P = "\<lambda>k. case CutPrefix k (en @ [CHR 0x00]) of None \<Rightarrow> True | Some name \<Rightarrow> name \<in> set U"])
      (auto simp: CutPrefix_seenKey [OF assms])
  show ?thesis
    using key keep by (cases "en' = en") (simp_all add: firstSeen_def observe_parts observeLoop_first split: option.splits)
qed

lemma graceOf_observe [simp]: "graceOf (snd (observe now en U u)) = graceOf u"
  by (simp add: graceOf_def observe_def split: prod.splits)

lemma observe_due:
  assumes "CHR 0x00 \<notin> set en" "distinct U"
  shows "n \<in> set (fst (observe now en U u)) \<longleftrightarrow>
     n \<in> set U \<and> (\<exists>t. firstSeen u en n = Some t \<and> graceOf u \<le> timeSub now t)"
proof -
  have keep: "n \<in> set U \<Longrightarrow> map_of (forgetTracked en U (us_first u)) (seenKey en n) = firstSeen u en n"
    unfolding forgetTracked_def firstSeen_def
    by (subst map_of_filter_key [where P = "\<lambda>k. case CutPrefix k (en @ [CHR 0x00]) of None \<Rightarrow> True | Some name \<Rightarrow> name \<in> set U"])
      (simp add: CutPrefix_seenKey [OF assms(1) assms(1)])
  show ?thesis using keep by (cases "n \<in> set U") (simp_all add: observe_parts observeLoop_due [OF assms(2)])
qed

text \<open>A history of sweeps: the engine, the time and the copies seen untracked.\<close>

type_synonym sweep = "string \<times> int \<times> string list"

definition observeAll :: "sweep list \<Rightarrow> UntrackedSeen \<Rightarrow> UntrackedSeen" where
  "observeAll hist u = fold (\<lambda>(en, now, U) u. snd (observe now en U u)) hist u"

text \<open>When the current streak of sightings of a copy began, reading the history backwards.\<close>

fun streak :: "string \<Rightarrow> string \<Rightarrow> sweep list \<Rightarrow> int option" where
  "streak en n [] = None"
| "streak en n ((en', now, U) # hist) =
     (if en' \<noteq> en then streak en n hist
      else if n \<notin> set U then None
      else Some (case streak en n hist of Some t \<Rightarrow> t | None \<Rightarrow> now))"

lemma observeAll_snoc: "observeAll (hist @ [(en, now, U)]) u = snd (observe now en U (observeAll hist u))"
  by (simp add: observeAll_def)

lemma graceOf_observeAll [simp]: "graceOf (observeAll hist u) = graceOf u"
  by (induction hist rule: rev_induct) (auto simp: observeAll_snoc, simp add: observeAll_def)

lemma firstSeen_streak:
  assumes "us_first u = []" "\<forall>s \<in> set hist. CHR 0x00 \<notin> set (fst s)" "CHR 0x00 \<notin> set en"
  shows "firstSeen (observeAll hist u) en n = streak en n (rev hist)"
  using assms
proof (induction hist rule: rev_induct)
  case Nil
  then show ?case by (simp add: observeAll_def firstSeen_def)
next
  case (snoc s hist)
  obtain en' now U where s: "s = (en', now, U)" by (metis prod_cases3)
  have "CHR 0x00 \<notin> set en'" using snoc.prems s by simp
  then show ?case using snoc s by (simp add: observeAll_snoc firstSeen_observe)
qed

text \<open>Seen in every sweep of the engine from the time \<open>t\<close> on.\<close>

definition untracked_since :: "string \<Rightarrow> string \<Rightarrow> sweep list \<Rightarrow> int \<Rightarrow> bool" where
  "untracked_since en n hist t \<longleftrightarrow>
     (\<exists>h1 U h2. hist = h1 @ (en, t, U) # h2 \<and> n \<in> set U \<and> (\<forall>(en', t', U') \<in> set h2. en' = en \<longrightarrow> n \<in> set U'))"

lemma untracked_since_Cons:
  "untracked_since en n (hist @ [(en', now, U)]) t \<longleftrightarrow>
     (if en' = en then n \<in> set U \<and> (t = now \<or> untracked_since en n hist t) else untracked_since en n hist t)"
proof -
  let ?Q = "\<lambda>h2. \<forall>(en', t', U') \<in> set h2. en' = en \<longrightarrow> n \<in> set U'"
  have "untracked_since en n (hist @ [(en', now, U)]) t \<longleftrightarrow>
      (en' = en \<and> now = t \<and> n \<in> set U) \<or> (?Q [(en', now, U)] \<and> untracked_since en n hist t)" (is "?L \<longleftrightarrow> ?R")
  proof
    assume ?L
    then obtain h1 V h2 where h: "hist @ [(en', now, U)] = h1 @ (en, t, V) # h2" "n \<in> set V" "?Q h2"
      by (auto simp: untracked_since_def)
    then show ?R by (cases h2 rule: rev_cases) (auto simp: untracked_since_def)
  next
    assume ?R
    then show ?L
    proof
      assume "en' = en \<and> now = t \<and> n \<in> set U"
      then show ?L unfolding untracked_since_def by (intro exI [of _ hist] exI [of _ U] exI [of _ "[]"]) simp
    next
      assume r: "?Q [(en', now, U)] \<and> untracked_since en n hist t"
      then obtain h1 V h2 where "hist = h1 @ (en, t, V) # h2" "n \<in> set V" "?Q h2"
        by (auto simp: untracked_since_def)
      then show ?L using r unfolding untracked_since_def
        by (intro exI [of _ h1] exI [of _ V] exI [of _ "h2 @ [(en', now, U)]"]) auto
    qed
  qed
  then show ?thesis by auto
qed

lemma streak_since: "streak en n (rev hist) = Some t \<Longrightarrow> untracked_since en n hist t"
proof (induction hist arbitrary: t rule: rev_induct)
  case (snoc s hist)
  obtain en' now U where "s = (en', now, U)" by (metis prod_cases3)
  then show ?case using snoc by (auto simp: untracked_since_Cons split: if_splits option.splits)
qed simp

lemma streak_earliest:
  assumes "untracked_since en n hist t" "sorted (map (fst \<circ> snd) hist)"
  shows "\<exists>t0 \<le> t. streak en n (rev hist) = Some t0"
  using assms
proof (induction hist rule: rev_induct)
  case Nil
  then show ?case by (simp add: untracked_since_def)
next
  case (snoc s hist)
  obtain en' now U where s: "s = (en', now, U)" by (metis prod_cases3)
  have IH: "untracked_since en n hist t \<Longrightarrow> \<exists>t0 \<le> t. streak en n (rev hist) = Some t0"
    using snoc by (simp add: sorted_append)
  have "t0 \<le> now" if st: "streak en n (rev hist) = Some t0" for t0
  proof -
    have "t0 \<in> (fst \<circ> snd) ` set hist"
      using streak_since [OF st] by (auto simp: untracked_since_def)
    then show ?thesis using snoc.prems(2) s by (auto simp: sorted_append)
  qed
  then show ?case using snoc.prems(1) IH s by (auto simp: untracked_since_Cons split: if_splits option.splits)
qed

lemma grace_timeSub: "0 < g \<Longrightarrow> g \<le> 2 ^ 63 - 1 \<Longrightarrow> g \<le> timeSub now t \<longleftrightarrow> g \<le> now - t"
  by (auto simp: timeSub_def)

lemma graceOf_pos: "0 < graceOf u"
  by (simp add: graceOf_def UntrackedGraceDefault_def)

section \<open>Properties\<close>

text \<open>
  The spelling of a durable copy can be recognised without its inputs: on each engine the reconcile
  covers, the family of an engine-side name is found exactly when the name is the marker of the
  engine with a 16-digit hash (for the search engines, any index below that prefix), and the name
  \<open>durable\<close> gives a copy is its own family.
\<close>

theorem durable_family_roundtrip:
  assumes "blake3_ok env" "branchScopeFor x = Some (sc, en)" "map_of untrackedMarker en \<noteq> None"
  shows "durableFamily en (durable env sc en active branch @ (if en = ''elasticsearch'' then index else [])) =
           Some (durable env sc en active branch) \<and>
         (durableFamily en n = Some fam \<longleftrightarrow>
           (\<exists>h. length h = 16 \<and> list_all hex_char h \<and> fam = spelling en h \<and> n \<in> family en fam))"
proof -
  have en: "en \<in> covered" using assms(3) covered_iff by blast
  have "n \<in> family en fam \<longleftrightarrow> (if en = ''elasticsearch'' then HasPrefix n fam else n = fam)" for n fam
    using en by (auto simp: family_def covered_def)
  then have "durableFamily en (durable env sc en active branch @ (if en = ''elasticsearch'' then index else [])) =
      Some (durable env sc en active branch)"
    unfolding durableFamily_iff durable_spelling [OF assms(2) en]
    using en bsHash_isBSHash [OF assms(1)] by auto
  then show ?thesis using en by (auto simp: durableFamily_iff isBSHash_hex)
qed

text \<open>
  A copy is due for a drop exactly when it is untracked now, was untracked at a sweep of its engine at
  least the grace period ago and at every sweep of that engine since; one sweep that found it
  tracked or gone restarts its clock.  This covers any interleaving of sweeps of several engines.
\<close>

theorem untracked_grace:
  assumes "us_first u = []" "CHR 0x00 \<notin> set en" "\<forall>s \<in> set hist. CHR 0x00 \<notin> set (fst s)"
    and "sorted (map (fst \<circ> snd) hist)" "distinct U" "us_Grace u \<le> 2 ^ 63 - 1"
  shows "n \<in> set (fst (observe now en U (observeAll hist u))) \<longleftrightarrow>
           n \<in> set U \<and> (\<exists>t. untracked_since en n hist t \<and> graceOf u \<le> now - t)"
proof -
  have g: "0 < graceOf u" "graceOf u \<le> 2 ^ 63 - 1"
    using assms(6) by (simp_all add: graceOf_pos, simp add: graceOf_def UntrackedGraceDefault_def)
  have "(\<exists>t. streak en n (rev hist) = Some t \<and> graceOf u \<le> now - t) \<longleftrightarrow>
      (\<exists>t. untracked_since en n hist t \<and> graceOf u \<le> now - t)"
    using streak_since [of en n hist] streak_earliest [OF _ assms(4), of en n] by force
  then show ?thesis
    by (simp add: observe_due [OF assms(2,5)] firstSeen_streak [OF assms(1,3,2)] grace_timeSub [OF g])
qed

lemma durable_family_roundtrip_witness:
  "durableFamily ''s3'' (durable sample_env scopePrefix ''s3'' ''a'' ''b'') =
     Some (durable sample_env scopePrefix ''s3'' ''a'' ''b'')"
proof -
  have "branchScopeFor ''s3'' = Some (scopePrefix, ''s3'')" "map_of untrackedMarker ''s3'' \<noteq> None" by code_simp+
  from durable_family_roundtrip [OF sample_env_ok this] show ?thesis by simp
qed

lemma untracked_grace_witness:
  "''d'' \<in> set (fst (observe (2 * UntrackedGraceDefault) ''s3'' [''d'']
     (observeAll [(''s3'', 0, [''d'']), (''mysql'', 1, []), (''s3'', 5, [''d''])] \<lparr>us_Grace = 0, us_first = []\<rparr>)))"
proof -
  let ?u = "\<lparr>us_Grace = 0, us_first = []\<rparr>" and ?hist = "[(''s3'', 0, [''d'']), (''mysql'', 1, []), (''s3'', 5, [''d''])]"
  have "untracked_since ''s3'' ''d'' ?hist 0"
    unfolding untracked_since_def
    by (intro exI [of _ "[]"] exI [of _ "[''d'']"] exI [of _ "[(''mysql'', 1, []), (''s3'', 5, [''d''])]"]) simp
  moreover have "graceOf ?u \<le> 2 * UntrackedGraceDefault - 0" by code_simp
  ultimately show ?thesis
    using untracked_grace [of ?u "''s3''" ?hist "[''d'']" "''d''" "2 * UntrackedGraceDefault"] by auto
qed

text \<open>
  Two connections of one engine are swept one after the other under the same clock keys: a copy that exists on the
  first only is missing from the sweep of the second, so its clock has restarted at every later sweep.
\<close>

lemma two_connections_never_due:
  assumes "CHR 0x00 \<notin> set en" "distinct U" "n \<notin> set V"
  shows "n \<notin> set (fst (observe now en U (observeAll (hist @ [(en, t, V)]) u)))"
  using assms(3) firstSeen_observe [OF assms(1,1)] by (simp add: observe_due [OF assms(1,2)] observeAll_snoc)

text \<open>From 106752 days on the 64-bit product is negative, and the cutoff lies in the future.\<close>

lemma maxAge_overflow: "sint (maxAge 106752) < 0" "now \<ge> 0 \<Longrightarrow> now < expiryCutoff 106752 (now * 1000000)"
proof -
  have "sint (- maxAge 106752) = 9223371273709551616" by code_simp
  then show "now \<ge> 0 \<Longrightarrow> now < expiryCutoff 106752 (now * 1000000)" by (simp add: expiryCutoff_def)
  show "sint (maxAge 106752) < 0" by code_simp
qed

end
