(* ===== verification/BranchReapProps.thy ===== *)
theory BranchReapProps
  imports BranchReap S3Laws
begin

text \<open>
  What the reaping of \<open>BranchReap\<close> guarantees, from the laws of the servers it connects to: a sweep changes
  only the names it may drop, and the rows it forgets.  The laws are discharged for object storage.
\<close>

type_synonym place = "(string \<times> string) \<times> string"

section \<open>What a sweep does to the rows\<close>

text \<open>Only rows of the repository with a name in \<open>S\<close> are removed; nothing else in the store changes.\<close>

definition without :: "int \<Rightarrow> string set \<Rightarrow> branchTables \<Rightarrow> branchTables" where
  "without repo G t =
     t\<lparr>branch_durables := filter (\<lambda>r. \<not> (bd_repo r = repo \<and> bd_name r \<in> G)) (branch_durables t)\<rparr>"

definition forgets :: "int \<Rightarrow> string set \<Rightarrow> 'e world \<Rightarrow> 'e world \<Rightarrow> bool" where
  "forgets repo S w w' \<longleftrightarrow>
     (alone (store w) \<longrightarrow> alone (store w') \<and> (\<exists>G \<subseteq> S. tables (store w') = without repo G (tables (store w))))"

named_theorems forget

lemma without_empty [simp]: "without repo {} t = t"
  by (simp add: without_def)

lemma without_without: "without repo G (without repo H t) = without repo (G \<union> H) t"
  by (auto simp: without_def intro!: arg_cong2 [of _ _ _ _ branch_durables_update] filter_cong)

lemma forgets_refl_trans: "reflp (forgets repo S)" "transp (forgets repo S)"
proof -
  show "reflp (forgets repo S)" by (auto simp: reflp_def forgets_def intro!: exI [of _ "{}"])
  show "transp (forgets repo S)"
    unfolding transp_def forgets_def by (metis (no_types, lifting) Un_least without_without)
qed

lemma forget_pure [forget]:
  "keeps (forgets repo S) (returnA x)" "keeps (forgets repo S) (raiseA err)" "keeps (forgets repo S) (readA f)"
  by (intro keeps_returnA keeps_raiseA keeps_readA forgets_refl_trans)+

lemma forget_bind [forget]:
  "keeps (forgets repo S) m \<Longrightarrow> (\<And>x. keeps (forgets repo S) (f x)) \<Longrightarrow> keeps (forgets repo S) (bindA m f)"
  by (intro keeps_bindA forgets_refl_trans)

lemma forget_forA:
  "(\<And>x. x \<in> set xs \<Longrightarrow> keeps (forgets repo S) (f x)) \<Longrightarrow> keeps (forgets repo S) (forA f xs)"
  by (induction xs) (auto intro: forget)

lemmas forget_cases [forget] = keeps_tryA keeps_ignoreA keeps_if keeps_option keeps_sum keeps_prod

lemma forget_same: "(\<And>r w'. m w = (r, w') \<Longrightarrow> store w' = store w) \<Longrightarrow> forgets repo S w (snd (m w))"
  using exI [of "\<lambda>G. G \<subseteq> S \<and> tables (store w) = without repo G (tables (store w))" "{}"]
  by (cases "m w") (auto simp: forgets_def)

lemma forget_world [forget]:
  "keeps (forgets repo S) (onEngine f)" "keeps (forgets repo S) (writeEvent l t)"
  unfolding keeps_def
  by (intro allI forget_same; auto simp: onEngine_def writeEvent_def modifyA_def split: prod.splits)+

lemma forget_query [forget]: "keeps (forgets repo S) (onStore (queryB sel))"
  by (rule keepsI)
    (auto simp: onStore_def forgets_def split: prod.splits dest: Query_alone intro!: exI [of _ "{}"])

lemma forget_connect [forget]: "keeps (forgets repo S) (connectBranchEngine X en conn)"
  unfolding connectBranchEngine_def by (intro forget)

lemma forget_delete: "n \<in> S \<Longrightarrow> keeps (forgets repo S) (onStore (DeleteBranchDurable repo n))"
proof (rule keepsI)
  fix w :: "'e world" and r w' assume n: "n \<in> S" and run: "onStore (DeleteBranchDurable repo n) w = (r, w')"
  obtain q s where ex: "Exec applyBranchOp (\<lambda>t. Inr (t\<lparr>branch_durables := filter (\<lambda>r. bdKey r \<noteq> (repo, n)) (branch_durables t)\<rparr>))
      (store w) = (q, s)" by (meson surj_pair)
  then have s: "store w' = s" using run
    by (auto simp: onStore_def DeleteBranchDurable_def optionA_def split: prod.splits option.splits)
  have "\<exists>G \<subseteq> S. tables s = without repo G (tables (store w))" if "alone (store w)"
  proof (cases q)
    case None
    then show ?thesis using Exec_alone [OF that ex] n
      by (intro exI [of _ "{n}"]) (auto simp: without_def bdKey_def)
  next
    case (Some e)
    then show ?thesis using Exec_alone [OF that ex] by (intro exI [of _ "{}"]) auto
  qed
  then show "forgets repo S w w'" using Exec_alone [OF _ ex] s by (auto simp: forgets_def)
qed

lemma forget_forgetDurable: "n \<in> S \<Longrightarrow> keeps (forgets repo S) (forgetDurable repo n)"
  unfolding forgetDurable_def by (intro forget forget_delete)

lemma forget_dropTracked: "bd_name d \<in> S \<Longrightarrow> keeps (forgets repo S) (dropTracked be repo d)"
  unfolding dropTracked_def by (intro forget forget_forgetDurable)

lemma forget_dropTrackedDurables: "bd_name ` set ds \<subseteq> S \<Longrightarrow> keeps (forgets repo S) (dropTrackedDurables X repo ds)"
  unfolding dropTrackedDurables_def dropTrackedEngine_def
  by (intro forget_forA forget forget_dropTracked) auto

lemma forget_dropUntracked [forget]: "keeps (forgets repo S) (dropUntracked be fam)"
  unfolding dropUntracked_def by (intro forget)

lemma forget_untrackedEngine [forget]: "keeps (forgets repo {}) (reapUntrackedEngine X seen en conn)"
  unfolding reapUntrackedEngine_def ListAllDurableNamesByEngine_def timeNow_def
  by (intro forget forget_forA)

lemma forget_untrackedAll [forget]: "keeps (forgets repo {}) (reapUntrackedAll X seen ts)"
  by (induction ts arbitrary: seen) (auto intro!: forget)

section \<open>Sweeps never fail\<close>

definition nofail :: "('s, 'a) action \<Rightarrow> bool" where
  "nofail m \<longleftrightarrow> (\<forall>s. \<not> isl (fst (m s)))"

named_theorems nofail

lemma nofail_pure [nofail]: "nofail (returnA x)" "nofail (readA f)" "nofail (tryA m)" "nofail (ignoreA m)"
  "nofail (writeEvent l t)"
  by (simp_all add: nofail_def returnA_def readA_def tryA_def ignoreA_def writeEvent_def modifyA_def split: prod.splits)

lemma nofail_bind [nofail]: "nofail m \<Longrightarrow> (\<And>x. nofail (f x)) \<Longrightarrow> nofail (bindA m f)"
  unfolding nofail_def bindA_def by (auto split: prod.splits sum.splits) (metis fst_conv isl_def)

lemma nofail_cases [nofail]:
  "nofail m \<Longrightarrow> nofail n \<Longrightarrow> nofail (if b then m else n)"
  "nofail m \<Longrightarrow> (\<And>y. nofail (f y)) \<Longrightarrow> nofail (case z of None \<Rightarrow> m | Some y \<Rightarrow> f y)"
  "(\<And>x. nofail (h x)) \<Longrightarrow> (\<And>y. nofail (f y)) \<Longrightarrow> nofail (case v of Inl x \<Rightarrow> h x | Inr y \<Rightarrow> f y)"
  "(\<And>x y. nofail (k x y)) \<Longrightarrow> nofail (case q of (x, y) \<Rightarrow> k x y)"
  by (simp_all split: option.splits sum.splits prod.splits)

lemma nofail_forA [nofail]: "(\<And>x. nofail (f x)) \<Longrightarrow> nofail (forA f xs)"
  by (induction xs) (auto intro: nofail)

lemma nofail_sweeps [nofail]:
  "nofail (dropTrackedDurables X repo ds)" "nofail (ReapOrphanDurables X repo root)"
  "nofail (ReapExpiredDurables X repo now)" "nofail (ReapBranchDurablesMany X repo bs)"
  "nofail (reapUntrackedEngine X seen en conn)"
  unfolding dropTrackedDurables_def dropTrackedEngine_def dropTracked_def forgetDurable_def ReapOrphanDurables_def
    ReapExpiredDurables_def ReapBranchDurablesMany_def reapDatabase_def reapViaEngine_def reapPair_def
    reapUntrackedEngine_def dropUntracked_def timeNow_def Let_def
  by (intro nofail)+

lemma nofail_untracked [nofail]: "nofail (ReapUntrackedDurables X seen)"
proof -
  have "nofail (reapUntrackedAll X seen ts)" for seen ts
    by (induction ts arbitrary: seen) (auto intro: nofail)
  then show ?thesis by (simp add: ReapUntrackedDurables_def)
qed

lemma nofail_run: "nofail m \<Longrightarrow> m w = (r, w') \<Longrightarrow> \<exists>x. r = Inr x"
  unfolding nofail_def by (metis fst_conv isl_def sum.exhaust_sel)

section \<open>Recorded copies\<close>

text \<open>Where the drop of a recorded copy reaches: its family on the unnamed connection of its engine.\<close>

definition trackedPlaces :: "BranchDurableRow list \<Rightarrow> place set" where
  "trackedPlaces ds =
     {((l, []), n) | l n. \<exists>d \<in> set ds. canonicalLabel (bd_engine d) = l \<and> n \<in> family l (bd_name d)}"

definition orphan :: "git \<Rightarrow> int \<Rightarrow> string \<Rightarrow> BranchDurableRow \<Rightarrow> bool" where
  "orphan git repo root d \<longleftrightarrow>
     bd_repo d = repo \<and> (\<exists>live. localBranchSet git root = Some live \<and> live \<noteq> [] \<and> bd_branch d \<notin> set live)"

definition registered :: "branchTables \<Rightarrow> string \<Rightarrow> string set" where
  "registered t en = {bd_name d | d. d \<in> set (branch_durables t) \<and> bd_engine d = canonicalLabel en}"

definition untrackedPlaces :: "branchTables \<Rightarrow> string \<Rightarrow> string \<Rightarrow> place set" where
  "untrackedPlaces t en conn =
     {(serverOf en conn, n) | n. \<exists>fam. durableFamily en n = Some fam \<and> fam \<notin> registered t en}"

section \<open>The laws of the servers\<close>

text \<open>
  A place is a server and a name on it.  Connecting, probing and listing change nothing, a drop of a
  copy changes at most the names of its family on that server.
\<close>

locale reap_servers =
  fixes X :: "'e reapEnv"
    and content :: "'e \<Rightarrow> place \<Rightarrow> 'c option"
  assumes dial_frame: "re_dial X l c e = (r, e') \<Longrightarrow> only content {} e e'"
    and probe_frame: "re_dial X l c e = (Inr be, e1) \<Longrightarrow> nsExists (drv be) ns s = (q, s') \<Longrightarrow> only content {} s s'"
    and drop_frame: "re_dial X l c e = (Inr be, e1) \<Longrightarrow> nsDropDurable (drv be) ns s = (d, s') \<Longrightarrow>
      only content (Pair (l, c) ` family l ns) s s'"
    and list_frame: "re_dial X l c e = (Inr be, e1) \<Longrightarrow> listMatching be = Some ls \<Longrightarrow> ls p s = (g, s') \<Longrightarrow>
      only content {} s s'"
    and bulk_frame: "re_dial X l c e = (Inr be, e1) \<Longrightarrow> dropMatching be = Some da \<Longrightarrow> da ns s = (g, s') \<Longrightarrow>
      only content (Pair (l, c) ` family l ns) s s'"
begin

text \<open>An engine handle that a successful connect gave for a server.\<close>

definition handle :: "string \<Rightarrow> string \<Rightarrow> 'e connected \<Rightarrow> bool" where
  "handle l c be \<longleftrightarrow> (\<exists>be0 sc e e1. re_dial X l c e = (Inr be0, e1) \<and> be = be0\<lparr>scope := sc, label_of := l\<rparr>)"

lemma touches_handle:
  assumes "handle l c be"
  shows "touches content T (onEngine (nsExists (drv be) ns))"
    "Pair (l, c) ` family l ns \<subseteq> T \<Longrightarrow> touches content T (onEngine (nsDropDurable (drv be) ns))"
    "listMatching be = Some ls \<Longrightarrow> touches content T (onEngine (ls p))"
    "dropMatching be = Some da \<Longrightarrow> Pair (l, c) ` family l ns \<subseteq> T \<Longrightarrow> touches content T (onEngine (da ns))"
proof -
  obtain be0 sc e e1 where be: "re_dial X l c e = (Inr be0, e1)" "be = be0\<lparr>scope := sc, label_of := l\<rparr>"
    using assms by (auto simp: handle_def)
  show "touches content T (onEngine (nsExists (drv be) ns))"
    using be by (intro touches_onEngine) (auto intro: only_mono probe_frame)
  show "Pair (l, c) ` family l ns \<subseteq> T \<Longrightarrow> touches content T (onEngine (nsDropDurable (drv be) ns))"
    using be by (intro touches_onEngine) (auto intro: only_mono drop_frame)
  show "listMatching be = Some ls \<Longrightarrow> touches content T (onEngine (ls p))"
    using be by (intro touches_onEngine) (auto intro: only_mono list_frame)
  show "dropMatching be = Some da \<Longrightarrow> Pair (l, c) ` family l ns \<subseteq> T \<Longrightarrow> touches content T (onEngine (da ns))"
    using be by (intro touches_onEngine) (auto intro: only_mono bulk_frame)
qed

lemma touches_connect: "touches content T (connectBranchEngine X en conn)"
proof -
  have "touches content T (onEngine (re_dial X l c))" for l c
    by (rule touches_onEngine) (auto intro: only_mono dial_frame)
  then show ?thesis unfolding connectBranchEngine_def by (intro touch)
qed

lemma connect_handle:
  assumes "connectBranchEngine X en conn w = (Inr (Some be), w')"
  shows "\<exists>lbl. canonicalLabel en = lbl \<and> lbl \<in> set branchLabels \<and> label_of be = lbl \<and>
    handle lbl (snd (serverOf lbl conn)) be"
  using assms
  by (auto simp: connectBranchEngine_def canonicalLabel_def branchScopeFor_def serverOf_def handle_def onEngine_def
      returnA_def raiseA_def bindA_def split: option.splits if_splits prod.splits sum.splits)

lemma touches_run:
  assumes "touches content T m" "\<And>x w w'. m w = (Inr x, w') \<Longrightarrow> touches content T (f x)"
  shows "touches content T (bindA m f)"
  unfolding touches_def
proof (rule keepsI)
  fix w r w' assume run: "bindA m f w = (r, w')"
  obtain x w1 where m: "m w = (x, w1)" by (meson surj_pair)
  then have 1: "engine_rel (only content T) w w1" using assms(1) unfolding touches_def by (rule keepsD [rotated])
  show "engine_rel (only content T) w w'"
  proof (cases x)
    case (Inl a)
    then show ?thesis using run m 1 by (simp add: bindA_def)
  next
    case (Inr b)
    then have "touches content T (f b)" using assms(2) m by blast
    then have "engine_rel (only content T) w1 w'"
      using run m Inr keepsD [of _ "f b"] unfolding touches_def by (simp add: bindA_def)
    then show ?thesis using 1 by (auto simp: engine_rel_def only_def)
  qed
qed

lemma touches_connected:
  assumes "\<And>lbl be. canonicalLabel en = lbl \<Longrightarrow> lbl \<in> set branchLabels \<Longrightarrow> label_of be = lbl \<Longrightarrow>
      handle lbl (snd (serverOf lbl conn)) be \<Longrightarrow> touches content T (f be)"
    and "\<And>err. touches content T (m err)" "touches content T n"
  shows "touches content T (bindA (tryA (connectBranchEngine X en conn)) (\<lambda>r.
    case r of Inl err \<Rightarrow> m err | Inr None \<Rightarrow> n | Inr (Some be) \<Rightarrow> f be))"
proof (rule touches_run)
  show "touches content T (tryA (connectBranchEngine X en conn))" by (intro touch touches_connect)
  fix x w w' assume "tryA (connectBranchEngine X en conn) w = (Inr x, w')"
  then have "connectBranchEngine X en conn w = (x, w')" by (simp add: tryA_Inr)
  then show "touches content T (case x of Inl err \<Rightarrow> m err | Inr None \<Rightarrow> n | Inr (Some be) \<Rightarrow> f be)"
    using assms connect_handle by (auto split: sum.splits option.splits)
qed

lemma touches_forA_in: "(\<And>x. x \<in> set xs \<Longrightarrow> touches content T (f x)) \<Longrightarrow> touches content T (forA f xs)"
  by (induction xs) (auto intro: touch)

lemma touches_forgetDurable [touch]: "touches content T (forgetDurable repo dur)"
  unfolding forgetDurable_def by (intro touch)

lemma touches_dropTracked: "touches content (trackedPlaces ds) (dropTrackedDurables X repo ds)"
proof -
  have server: "snd (serverOf lbl []) = []" for lbl by (simp add: serverOf_def)
  have places: "Pair (lbl, []) ` family lbl (bd_name d) \<subseteq> trackedPlaces ds"
    if "d \<in> set ds" "canonicalLabel (bd_engine d) = lbl" for d lbl
    using that by (auto simp: trackedPlaces_def)
  have "touches content (trackedPlaces ds) (dropTracked be repo d)"
    if "d \<in> set ds" "canonicalLabel (bd_engine d) = lbl" "handle lbl [] be" for d be lbl
    unfolding dropTracked_def by (intro touch touches_handle(2) [OF that(3)] places that)
  then show ?thesis
    unfolding dropTrackedDurables_def dropTrackedEngine_def
    by (intro touches_forA_in touches_connected touch) (auto simp: server)
qed

text \<open>Actions that leave the tables \<open>t\<close> alone and change at most the places in \<open>T\<close>.\<close>

definition frame :: "branchTables \<Rightarrow> place set \<Rightarrow> ('e world, 'a) action \<Rightarrow> bool" where
  "frame t T m \<longleftrightarrow> (\<forall>w r w'. alone (store w) \<and> tables (store w) = t \<and> m w = (r, w') \<longrightarrow>
     alone (store w') \<and> tables (store w') = t \<and> only content T (engine w) (engine w'))"

lemma frameI:
  assumes "touches content T m" "keeps (forgets 0 {}) m"
  shows "frame t T m"
  unfolding frame_def
proof (intro allI impI; elim conjE)
  fix w r w' assume w: "alone (store w)" "tables (store w) = t" "m w = (r, w')"
  show "alone (store w') \<and> tables (store w') = t \<and> only content T (engine w) (engine w')"
    using keepsD [OF assms(2) w(3)] keepsD [OF assms(1) [unfolded touches_def] w(3)] w(1,2)
    by (simp add: forgets_def engine_rel_def)
qed

lemma frameD:
  "frame t T m \<Longrightarrow> alone (store w) \<Longrightarrow> tables (store w) = t \<Longrightarrow> m w = (r, w') \<Longrightarrow>
     alone (store w') \<and> tables (store w') = t \<and> only content T (engine w) (engine w')"
  unfolding frame_def by blast

lemma frame_bind:
  assumes "frame t T m"
    and "\<And>x w w'. alone (store w) \<Longrightarrow> tables (store w) = t \<Longrightarrow> m w = (Inr x, w') \<Longrightarrow> frame t T (f x)"
  shows "frame t T (bindA m f)"
  unfolding frame_def
proof (intro allI impI; elim conjE)
  fix w r w' assume w: "alone (store w)" "tables (store w) = t" and run: "bindA m f w = (r, w')"
  obtain x w1 where m: "m w = (x, w1)" by (meson surj_pair)
  then have 1: "alone (store w1)" "tables (store w1) = t" "only content T (engine w) (engine w1)"
    using frameD [OF assms(1) w] by blast+
  show "alone (store w') \<and> tables (store w') = t \<and> only content T (engine w) (engine w')"
  proof (cases x)
    case (Inl a)
    then show ?thesis using run m 1 by (simp add: bindA_def)
  next
    case (Inr b)
    then have f: "frame t T (f b)" using assms(2) w m by blast
    have "f b w1 = (r, w')" using run m Inr by (simp add: bindA_def)
    then have 2: "alone (store w')" "tables (store w') = t" "only content T (engine w1) (engine w')"
      using frameD [OF f 1(1,2)] by blast+
    then show ?thesis using transpD [OF only_transp 1(3) 2(3)] by blast
  qed
qed

lemma frame_pure:
  "frame t T (returnA x)" "frame t T (readA f)" "frame t T (writeEvent l ev)"
proof -
  have "touches content T (readA f)" by (simp add: touches_def keeps_def readA_def engine_rel_def only_def)
  then show "frame t T (readA f)" by (intro frameI forget)
qed (intro frameI touch forget)+

lemma frame_list: "handle l c be \<Longrightarrow> listMatching be = Some ls \<Longrightarrow> frame t T (tryA (onEngine (ls p)))"
  by (intro frameI touch forget touches_handle(3))

lemma due_untracked: "set (fst (observe now en U seen)) \<subseteq> set U"
proof -
  have "set (fst (observeLoop now g en ns first)) \<subseteq> set ns" for g ns first
    by (induction now g en ns first rule: observeLoop.induct) (auto split: option.splits prod.splits)
  then show ?thesis by (simp add: observe_parts)
qed

lemma canonical_covered: "en \<in> covered \<Longrightarrow> canonicalLabel en = en"
  unfolding covered_def by (elim insertE emptyE) (simp_all add: canonicalLabel_def Canonical_def)

lemma frame_untrackedEngine:
  assumes en: "en \<in> covered"
  shows "frame t (untrackedPlaces t en conn) (reapUntrackedEngine X seen en conn)"
proof -
  let ?T = "untrackedPlaces t en conn"
  have drop: "touches content ?T (dropUntracked be fam)"
    if "handle en (snd (serverOf en conn)) be" "durableFamily en m = Some fam" "fam \<notin> registered t en" for be fam m
  proof -
    have "Pair (en, snd (serverOf en conn)) ` family en fam \<subseteq> ?T"
      using that durableFamily_family [OF that(2)] by (auto simp: untrackedPlaces_def serverOf_def)
    then show ?thesis unfolding dropUntracked_def
      by (intro touch touches_handle(2,4) [OF that(1)])
  qed
  have due: "frame t ?T (forA (dropUntracked be) due)"
    if be: "handle en (snd (serverOf en conn)) be" and U: "set due \<subseteq> set (untrackedOf en keep found)"
      and k: "set keep = registered t en" for be due keep found
  proof (intro frameI touches_forA_in forget_forA forget)
    fix fam assume "fam \<in> set due"
    then have "fam \<in> set (untrackedOf en keep found)" using U by blast
    then have fam: "fam \<notin> registered t en" "fam \<in> set (List.map_filter (durableFamily en) found)"
      using k by (simp_all add: untrackedOf_def)
    then obtain m where "durableFamily en m = Some fam" by (auto simp: List.map_filter_def)
    then show "touches content ?T (dropUntracked be fam)" using drop [OF be _ fam(1)] by blast
  qed
  have read: "set keep = registered t en"
    if "alone (store w)" "tables (store w) = t"
      "tryA (onStore (ListAllDurableNamesByEngine en)) w = (Inr (Inr keep), w')" for keep and w w' :: "'e world"
  proof -
    have "onStore (ListAllDurableNamesByEngine en) w = (Inr keep, w')" using that(3) by (simp add: tryA_Inr)
    then obtain s' where "Query applyBranchOp
        (\<lambda>t. map bd_name (filter (\<lambda>r. bd_engine r = canonicalLabel en) (branch_durables t))) (store w) = (Inr keep, s')"
      by (auto simp: onStore_def ListAllDurableNamesByEngine_def split: prod.splits)
    from Query_alone [OF that(1) this]
    have "keep = map bd_name (filter (\<lambda>r. bd_engine r = canonicalLabel en) (branch_durables t))" using that(2) by simp
    then show ?thesis by (auto simp: registered_def)
  qed
  define list_and_drop where "list_and_drop be keep =
      (case listMatching be of
         None \<Rightarrow> returnA seen
       | Some list_of \<Rightarrow>
           bindA (tryA (onEngine (list_of (case map_of untrackedMarker en of Some m \<Rightarrow> m | None \<Rightarrow> [])))) (\<lambda>ns.
             case ns of
               Inl err \<Rightarrow> returnA seen
             | Inr found \<Rightarrow>
                 bindA timeNow (\<lambda>now.
                   case observe now en (untrackedOf en keep found) seen of
                     (due, seen') \<Rightarrow> bindA (forA (dropUntracked be) due) (\<lambda>_. returnA seen'))))"
    for be :: "'e connected" and keep
  have last: "frame t ?T (list_and_drop be keep)"
    if be: "handle en (snd (serverOf en conn)) be" and k: "set keep = registered t en" for be keep
  proof -
    have "frame t ?T (case observe now en (untrackedOf en keep found) seen of
        (due, seen') \<Rightarrow> bindA (forA (dropUntracked be) due) (\<lambda>_. returnA seen'))" for now found
      using due_untracked [of now en "untrackedOf en keep found" seen] due [OF be _ k]
      by (auto split: prod.splits intro!: frame_bind frame_pure)
    then show ?thesis unfolding list_and_drop_def timeNow_def
      by (auto split: option.splits sum.splits intro!: frame_bind frame_pure frame_list [OF be])
  qed
  have "frame t ?T (bindA (tryA (onStore (ListAllDurableNamesByEngine en))) (\<lambda>k.
      case k of
        Inl err \<Rightarrow> bindA (writeEvent ''warn'' ''branch:reap'') (\<lambda>_. returnA seen)
      | Inr keep \<Rightarrow> list_and_drop be keep))"
    if be: "handle en (snd (serverOf en conn)) be" for be
  proof (rule frame_bind)
    show "frame t ?T (tryA (onStore (ListAllDurableNamesByEngine en)))"
      unfolding ListAllDurableNamesByEngine_def by (intro frameI touch forget)
    fix x and w w' :: "'e world"
    assume "alone (store w)" "tables (store w) = t" "tryA (onStore (ListAllDurableNamesByEngine en)) w = (Inr x, w')"
    then show "frame t ?T (case x of
        Inl err \<Rightarrow> bindA (writeEvent ''warn'' ''branch:reap'') (\<lambda>_. returnA seen)
      | Inr keep \<Rightarrow> list_and_drop be keep)"
      using read last [OF be] by (auto split: sum.splits intro!: frame_bind frame_pure)
  qed
  note after = this
  show ?thesis
    unfolding reapUntrackedEngine_def list_and_drop_def [symmetric]
  proof (rule frame_bind)
    show "frame t ?T (tryA (connectBranchEngine X en conn))" by (intro frameI touch touches_connect forget)
    fix x and w w' :: "'e world"
    assume "tryA (connectBranchEngine X en conn) w = (Inr x, w')"
    then have "connectBranchEngine X en conn w = (x, w')" by (simp add: tryA_Inr)
    then show "frame t ?T (case x of
        Inl err \<Rightarrow> returnA seen
      | Inr None \<Rightarrow> returnA seen
      | Inr (Some be) \<Rightarrow> bindA (tryA (onStore (ListAllDurableNamesByEngine en))) (\<lambda>k.
          case k of
            Inl err \<Rightarrow> bindA (writeEvent ''warn'' ''branch:reap'') (\<lambda>_. returnA seen)
          | Inr keep \<Rightarrow> list_and_drop be keep))"
      using connect_handle after canonical_covered [OF en]
      by (fastforce split: sum.splits option.splits intro: frame_pure)
  qed
qed

lemma frame_mono: "frame t T m \<Longrightarrow> T \<subseteq> T' \<Longrightarrow> frame t T' m"
  unfolding frame_def [of t T'] by (intro allI impI) (elim conjE, frule (3) frameD, auto intro: only_mono)

lemma frame_untrackedAll:
  "\<forall>x \<in> set ts. fst x \<in> covered \<and> untrackedPlaces t (fst x) (snd x) \<subseteq> T \<Longrightarrow> frame t T (reapUntrackedAll X seen ts)"
proof (induction ts arbitrary: seen)
  case (Cons x ts)
  then have "frame t T (reapUntrackedEngine X seen (fst x) (snd x))"
    by (intro frame_mono [OF frame_untrackedEngine]) auto
  then show ?case using Cons by (auto intro!: frame_bind)
qed (simp add: frame_pure)

lemma untracked_sweep:
  assumes "alone (store w)" "ReapUntrackedDurables X seen w = (r, w')"
  shows "tables (store w') = tables (store w) \<and>
    only content (\<Union>(en, conn) \<in> set (untrackedTargets (re_cfg X)). untrackedPlaces (tables (store w)) en conn)
      (engine w) (engine w')"
proof -
  have "fst x \<in> covered" if "x \<in> set (untrackedTargets (re_cfg X))" for x
    using that untrackedTargets_iff [of "fst x" "snd x"] by simp
  then have "frame (tables (store w))
      (\<Union>(en, conn) \<in> set (untrackedTargets (re_cfg X)). untrackedPlaces (tables (store w)) en conn)
      (reapUntrackedAll X seen (untrackedTargets (re_cfg X)))"
    by (intro frame_untrackedAll) auto
  from frameD [OF this assms(1) refl] show ?thesis using assms(2) by (simp add: ReapUntrackedDurables_def)
qed

lemma tracked_sweep:
  assumes "alone (store w)" "dropTrackedDurables X repo ds w = (r, w')"
  shows "(\<exists>G \<subseteq> bd_name ` set ds. tables (store w') = without repo G (tables (store w))) \<and>
    only content (trackedPlaces ds) (engine w) (engine w')"
  using keepsD [OF forget_dropTrackedDurables [OF order_refl] assms(2)] assms(1)
    keepsD [OF touches_dropTracked [unfolded touches_def] assms(2)]
  by (simp add: forgets_def engine_rel_def)

text \<open>A sweep that first reads the rows to drop from the store.\<close>

lemma read_then_sweep:
  assumes "alone (store w)"
    and "bindA (tryA (onStore (queryB sel))) (\<lambda>r. case r of Inl err \<Rightarrow> returnA () | Inr ds \<Rightarrow> g ds) w = (r, w')"
    and "\<And>w1. g (sel (tables (store w))) w1 = (r, w') \<Longrightarrow>
      w' = w1 \<or> dropTrackedDurables X repo (chosen (sel (tables (store w)))) w1 = (r, w')"
  shows "(\<exists>G \<subseteq> bd_name ` set (chosen (sel (tables (store w)))). tables (store w') = without repo G (tables (store w))) \<and>
    only content (trackedPlaces (chosen (sel (tables (store w))))) (engine w) (engine w')"
proof -
  obtain q s1 where q: "Query applyBranchOp sel (store w) = (q, s1)" by (meson surj_pair)
  let ?w1 = "w\<lparr>store := s1\<rparr>"
  have s1: "alone s1" "tables s1 = tables (store w)" using Query_alone [OF assms(1) q] by auto
  have same: "w' = ?w1 \<Longrightarrow> ?thesis" using s1 by (auto simp: only_def intro!: exI [of _ "{}"])
  show ?thesis
  proof (cases q)
    case (Inl err)
    then have "w' = ?w1" using assms(2) q by (simp add: bindA_def tryA_def onStore_def returnA_def)
    then show ?thesis by (rule same)
  next
    case (Inr ds)
    then have "ds = sel (tables (store w))" using Query_alone [OF assms(1) q] by auto
    then have "g (sel (tables (store w))) ?w1 = (r, w')" using assms(2) q Inr by (simp add: bindA_def tryA_def onStore_def)
    from assms(3) [OF this] show ?thesis
    proof
      assume "dropTrackedDurables X repo (chosen (sel (tables (store w)))) ?w1 = (r, w')"
      from tracked_sweep [OF _ this] show ?thesis using s1 by simp
    qed (rule same)
  qed
qed

lemma orphan_sweep:
  assumes "alone (store w)" "ReapOrphanDurables X repo root w = (r, w')"
  shows "\<exists>ds. (\<forall>d \<in> set ds. d \<in> set (branch_durables (tables (store w))) \<and> orphan (re_git X) repo root d) \<and>
    (\<exists>G \<subseteq> bd_name ` set ds. tables (store w') = without repo G (tables (store w))) \<and>
    only content (trackedPlaces ds) (engine w) (engine w')"
proof -
  define chosen where "chosen durables = (case localBranchSet (re_git X) root of
      None \<Rightarrow> [] | Some live \<Rightarrow> if live = [] then [] else filter (\<lambda>d. bd_branch d \<notin> set live) durables)"
    for durables :: "BranchDurableRow list"
  define sel where "sel t = (if repo = 0 then [] else sort_key bd_branch (sort_key bd_name
             (filter (\<lambda>r. bd_repo r = repo) (branch_durables t))))" for t :: branchTables
  have chosen: "\<forall>d \<in> set (chosen (sel t)). d \<in> set (branch_durables t) \<and> orphan (re_git X) repo root d" for t
    by (cases "localBranchSet (re_git X) root") (auto simp: chosen_def sel_def orphan_def split: if_splits)
  show ?thesis
  proof (cases "repo = 0")
    case True
    then have "w' = w" using assms(2)
      by (simp add: ReapOrphanDurables_def ListBranchDurables_def bindA_def tryA_def onStore_def returnA_def)
    then show ?thesis by (intro exI [of _ "[]"]) (auto simp: only_def intro!: exI [of _ "{}"])
  next
    case False
    have "(\<exists>G \<subseteq> bd_name ` set (chosen (sel (tables (store w)))). tables (store w') = without repo G (tables (store w))) \<and>
      only content (trackedPlaces (chosen (sel (tables (store w))))) (engine w) (engine w')"
    proof (rule read_then_sweep [OF assms(1), where chosen = chosen and sel = sel])
      show "bindA (tryA (onStore (queryB sel))) (\<lambda>r. case r of Inl err \<Rightarrow> returnA () | Inr durables \<Rightarrow>
          if durables = [] then returnA ()
          else case localBranchSet (re_git X) root of
                 None \<Rightarrow> returnA ()
               | Some live \<Rightarrow> if live = [] then returnA ()
                   else dropTrackedDurables X repo (filter (\<lambda>d. bd_branch d \<notin> set live) durables)) w = (r, w')"
        using assms(2) False by (simp add: ReapOrphanDurables_def ListBranchDurables_def sel_def [abs_def])
    qed (auto simp: chosen_def returnA_def split: option.splits if_splits)
    then show ?thesis using chosen by blast
  qed
qed

lemma expired_sweep:
  assumes "alone (store w)" "ReapExpiredDurables X repo now w = (r, w')"
  shows "\<exists>ds. (\<forall>d \<in> set ds. 0 \<le> sint (re_maxAgeDays X) \<and>
      d \<in> set (unusedSince repo (expiryCutoff (re_maxAgeDays X) now) (tables (store w)))) \<and>
    (\<exists>G \<subseteq> bd_name ` set ds. tables (store w') = without repo G (tables (store w))) \<and>
    only content (trackedPlaces ds) (engine w) (engine w')"
proof (cases "sint (re_maxAgeDays X) < 0")
  case True
  then have "w' = w" using assms(2) by (simp add: ReapExpiredDurables_def returnA_def)
  then show ?thesis by (intro exI [of _ "[]"]) (auto simp: only_def intro!: exI [of _ "{}"])
next
  case False
  define cut where "cut = expiryCutoff (re_maxAgeDays X) now"
  have "(\<exists>G \<subseteq> bd_name ` set (unusedSince repo cut (tables (store w))).
        tables (store w') = without repo G (tables (store w))) \<and>
      only content (trackedPlaces (unusedSince repo cut (tables (store w)))) (engine w) (engine w')"
  proof (rule read_then_sweep [OF assms(1), where chosen = "\<lambda>ds. ds"])
    show "bindA (tryA (onStore (queryB (unusedSince repo cut)))) (\<lambda>r. case r of Inl err \<Rightarrow> returnA () | Inr expired \<Rightarrow>
        dropTrackedDurables X repo expired) w = (r, w')"
      using assms(2) False by (simp add: ReapExpiredDurables_def ListBranchDurablesUnusedSince_def cut_def)
  qed simp
  then show ?thesis using False by (intro exI [of _ "unusedSince repo cut (tables (store w))"]) (simp add: cut_def)
qed

end

section \<open>Object storage\<close>

text \<open>The one engine with a modelled server: its listing gives the buckets of the account.\<close>

definition s3Reap :: "Config \<Rightarrow> nameEnv \<Rightarrow> git \<Rightarrow> 64 word \<Rightarrow> string list \<Rightarrow> s3 reapEnv" where
  "s3Reap C N git days allBuckets =
     \<lparr>re_cfg = C, re_names = N, re_git = git, re_maxAgeDays = days, re_configured = (\<lambda>l c. l = ''s3''),
      re_dial = (\<lambda>l c.
        if l = ''s3'' \<and> c = [] then
          returnA \<lparr>drv = s3NS, scope = scopePrefix, label_of = ''s3'', listMatching = Some (ListMatching allBuckets),
                   dropMatching = None\<rparr>
        else raiseA (NewError ''unreachable''))\<rparr>"

definition s3_places :: "s3 \<Rightarrow> place \<Rightarrow> (string \<rightharpoonup> string) option" where
  "s3_places s p = (if fst (fst p) = ''s3'' \<and> snd (fst p) = [] then s3_content s (snd p) else None)"

lemma s3_reap_servers: "reap_servers (s3Reap C N git days allBuckets) s3_places"
proof
  let ?X = "s3Reap C N git days allBuckets"
  have dial: "re_dial ?X l c e = (Inr be, e1) \<Longrightarrow> l = ''s3'' \<and> c = [] \<and> drv be = s3NS \<and>
      listMatching be = Some (ListMatching allBuckets) \<and> dropMatching be = None" for l c e be e1
    by (auto simp: s3Reap_def returnA_def raiseA_def split: if_splits)
  fix l c ns p e e' e1 s s' and r :: "go_error + s3 connected" and be q and d :: "go_error + unit" and g ls da
  show "re_dial ?X l c e = (r, e') \<Longrightarrow> only s3_places {} e e'"
    by (auto simp: s3Reap_def returnA_def raiseA_def only_def split: if_splits)
  show "only s3_places {} s s'" if "re_dial ?X l c e = (Inr be, e1)" "nsExists (drv be) ns s = (q, s')"
    using s3d.exists_frame [of ns s q s'] dial [OF that(1)] that(2) by (simp add: only_def s3_places_def)
  show "only s3_places (Pair (l, c) ` family l ns) s s'"
    if "re_dial ?X l c e = (Inr be, e1)" "nsDropDurable (drv be) ns s = (d, s')"
  proof -
    have "only s3_content {ns} s s'" using dial [OF that(1)] that(2) s3d.durable_frame by auto
    then show ?thesis using dial [OF that(1)] by (auto simp: only_def s3_places_def family_def)
  qed
  show "only s3_places {} s s'"
    if "re_dial ?X l c e = (Inr be, e1)" "listMatching be = Some ls" "ls p s = (g, s')"
  proof -
    have "ListMatching allBuckets p s = (g, s')" using dial [OF that(1)] that(2,3) by simp
    moreover have "s3_keeps {} (ListMatching allBuckets p)"
      unfolding ListMatching_def by (intro keeps_wrapA keeps_request keeps_pure)
    ultimately have "only s3_content {} s s'" by (metis keepsD)
    then show ?thesis by (simp add: only_def s3_places_def)
  qed
  show "re_dial ?X l c e = (Inr be, e1) \<Longrightarrow> dropMatching be = Some da \<Longrightarrow> da ns s = (g, s') \<Longrightarrow>
      only s3_places (Pair (l, c) ` family l ns) s s'"
    using dial by fastforce
qed

interpretation s3reap: reap_servers "s3Reap C N git days allBuckets" s3_places
  by (rule s3_reap_servers)

section \<open>Properties\<close>

text \<open>The rows a sweep removed are among the rows it was given, since names are unique in a repository.\<close>

lemma removed_rows:
  assumes "keys_ok t" "\<forall>d \<in> set ds. d \<in> set (branch_durables t) \<and> bd_repo d = repo"
    and "G \<subseteq> bd_name ` set ds" "d \<in> set (branch_durables t)" "d \<notin> set (branch_durables (without repo G t))"
  shows "d \<in> set ds"
proof -
  have "bd_repo d = repo" "bd_name d \<in> G" using assms(4,5) by (auto simp: without_def)
  then obtain d' where d': "d' \<in> set ds" "bd_name d' = bd_name d" using assms(3) by force
  then have "bdKey d' = bdKey d" "d' \<in> set (branch_durables t)"
    using assms(2) \<open>bd_repo d = repo\<close> by (auto simp: bdKey_def)
  then show ?thesis
    using assms(1,4) d' by (auto simp: keys_ok_def distinct_map dest: inj_onD)
qed

lemma maxAge_exact:
  assumes "0 \<le> sint days" "sint days \<le> 106751"
  shows "sint (- maxAge days) = - (sint days * 86400000000000)"
proof -
  have "- maxAge days = of_int (- (sint days * 86400000000000))" by (simp add: maxAge_def)
  then show ?thesis using assms by (simp only: signed_of_int) (simp add: signed_take_bit_int_eq_self)
qed

text \<open>
  C29: The sweep for copies of vanished branches never fails, and forgets or drops nothing but copies of this
  repository whose branch is missing from a non-empty list of local branches: when git cannot be
  read or names no branch, no row and no name on any server changes, and a copy of a live branch
  keeps its row and its data.
\<close>

theorem orphan_sweep_safe:
  assumes "reap_servers X content" "alone (store w)" "keys_ok (tables (store w))"
    and "ReapOrphanDurables X repo root w = (r, w')"
  shows "r = Inr () \<and>
    set (branch_durables (tables (store w'))) \<subseteq> set (branch_durables (tables (store w))) \<and>
    (\<forall>d \<in> set (branch_durables (tables (store w))) - set (branch_durables (tables (store w'))).
       orphan (re_git X) repo root d) \<and>
    (\<forall>l c n. content (engine w') ((l, c), n) \<noteq> content (engine w) ((l, c), n) \<longrightarrow>
       c = [] \<and> (\<exists>d \<in> set (branch_durables (tables (store w))).
         orphan (re_git X) repo root d \<and> canonicalLabel (bd_engine d) = l \<and> n \<in> family l (bd_name d)))"
proof -
  obtain ds G where ds: "\<forall>d \<in> set ds. d \<in> set (branch_durables (tables (store w))) \<and> orphan (re_git X) repo root d"
    and G: "G \<subseteq> bd_name ` set ds" "tables (store w') = without repo G (tables (store w))"
    and eng: "only content (trackedPlaces ds) (engine w) (engine w')"
    using reap_servers.orphan_sweep [OF assms(1,2,4)] by blast
  have "r = Inr ()" using nofail_run [OF nofail_sweeps(2) assms(4)] by auto
  moreover have "set (branch_durables (tables (store w'))) \<subseteq> set (branch_durables (tables (store w)))"
    using G(2) by (auto simp: without_def)
  moreover have "orphan (re_git X) repo root d"
    if "d \<in> set (branch_durables (tables (store w)))" "d \<notin> set (branch_durables (tables (store w')))" for d
    using removed_rows [OF assms(3) _ G(1) that(1)] that(2) G(2) ds by (auto simp: orphan_def)
  ultimately show ?thesis using eng ds by (fastforce simp: only_def trackedPlaces_def)
qed

text \<open>
  The expiry sweep with a maximum age of up to 106751 days (the range a 64-bit duration can hold) forgets
  and drops only copies of this repository that were last used more than that long ago and that no
  worktree's active namespace mirrors; a negative age turns it off.
\<close>

theorem expired_sweep_safe:
  assumes "reap_servers X content" "alone (store w)" "keys_ok (tables (store w))"
    and "ReapExpiredDurables X repo now w = (r, w')" "sint (re_maxAgeDays X) \<le> 106751"
  shows "r = Inr () \<and>
    (\<forall>d \<in> set (branch_durables (tables (store w))) - set (branch_durables (tables (store w'))).
       bd_repo d = repo \<and> 0 \<le> sint (re_maxAgeDays X) \<and> \<not> mirrored (tables (store w)) d \<and>
       bd_used d * 1000000 < now - sint (re_maxAgeDays X) * 86400000000000) \<and>
    (\<forall>l c n. content (engine w') ((l, c), n) \<noteq> content (engine w) ((l, c), n) \<longrightarrow>
       (\<exists>d \<in> set (branch_durables (tables (store w))).
         bd_repo d = repo \<and> \<not> mirrored (tables (store w)) d \<and> canonicalLabel (bd_engine d) = l \<and>
         n \<in> family l (bd_name d)))"
proof -
  let ?t = "tables (store w)"
  obtain ds G where ds: "\<forall>d \<in> set ds. 0 \<le> sint (re_maxAgeDays X) \<and>
      d \<in> set (unusedSince repo (expiryCutoff (re_maxAgeDays X) now) ?t)"
    and G: "G \<subseteq> bd_name ` set ds" "tables (store w') = without repo G ?t"
    and eng: "only content (trackedPlaces ds) (engine w) (engine w')"
    using reap_servers.expired_sweep [OF assms(1,2,4)] by blast
  have row: "d \<in> set (branch_durables ?t) \<and> bd_repo d = repo \<and> \<not> mirrored ?t d \<and> 0 \<le> sint (re_maxAgeDays X) \<and>
      bd_used d < expiryCutoff (re_maxAgeDays X) now" if "d \<in> set ds" for d
    using ds that by (auto simp: unusedSince_def)
  have cut: "bd_used d * 1000000 < now - sint (re_maxAgeDays X) * 86400000000000" if "d \<in> set ds" for d
  proof -
    have "bd_used d < (now - sint (re_maxAgeDays X) * 86400000000000) div 1000000"
      using row [OF that] maxAge_exact [OF _ assms(5)] by (simp add: expiryCutoff_def)
    then show ?thesis by linarith
  qed
  have "d \<in> set ds" if "d \<in> set (branch_durables ?t)" "d \<notin> set (branch_durables (tables (store w')))" for d
    using removed_rows [OF assms(3) _ G(1) that(1)] that(2) G(2) row by auto
  then have "\<forall>d \<in> set (branch_durables ?t) - set (branch_durables (tables (store w'))).
       bd_repo d = repo \<and> 0 \<le> sint (re_maxAgeDays X) \<and> \<not> mirrored ?t d \<and>
       bd_used d * 1000000 < now - sint (re_maxAgeDays X) * 86400000000000" using row cut by blast
  moreover have "r = Inr ()" using nofail_run [OF nofail_sweeps(3) assms(4)] by auto
  moreover have "\<exists>d \<in> set (branch_durables ?t). bd_repo d = repo \<and> \<not> mirrored ?t d \<and>
      canonicalLabel (bd_engine d) = l \<and> n \<in> family l (bd_name d)"
    if "content (engine w') ((l, c), n) \<noteq> content (engine w) ((l, c), n)" for l c n
  proof -
    have "((l, c), n) \<in> trackedPlaces ds" using eng that by (auto simp: only_def)
    then show ?thesis using row by (auto simp: trackedPlaces_def)
  qed
  ultimately show ?thesis by blast
qed

text \<open>
  C30: The reconcile never fails, leaves every row alone, and changes a name on a server only when that server is one
  the configuration scopes by branch and the name belongs to a copy in its exact spelling that no
  row of any repository records for that engine.
\<close>

theorem untracked_sweep_safe:
  assumes "reap_servers X content" "alone (store w)" "ReapUntrackedDurables X seen w = (r, w')"
  shows "(\<exists>seen'. r = Inr seen') \<and> tables (store w') = tables (store w) \<and>
    (\<forall>server n. content (engine w') (server, n) \<noteq> content (engine w) (server, n) \<longrightarrow>
       (\<exists>en conn fam. (en, conn) \<in> set (untrackedTargets (re_cfg X)) \<and> server = serverOf en conn \<and>
          durableFamily en n = Some fam \<and> fam \<notin> registered (tables (store w)) en))"
proof -
  note sweep = reap_servers.untracked_sweep [OF assms]
  have "\<exists>seen'. r = Inr seen'" using nofail_run [OF nofail_untracked assms(3)] .
  moreover have "\<exists>en conn fam. (en, conn) \<in> set (untrackedTargets (re_cfg X)) \<and> server = serverOf en conn \<and>
      durableFamily en n = Some fam \<and> fam \<notin> registered (tables (store w)) en"
    if ch: "content (engine w') (server, n) \<noteq> content (engine w) (server, n)" for server n
  proof -
    have "(server, n) \<in> (\<Union>(en, conn) \<in> set (untrackedTargets (re_cfg X)).
        untrackedPlaces (tables (store w)) en conn)"
      using sweep ch unfolding only_def by blast
    then show ?thesis by (auto simp: untrackedPlaces_def)
  qed
  ultimately show ?thesis using sweep by blast
qed

section \<open>Concrete sweeps\<close>

text \<open>
  Three buckets in the spelling of a copy: one recorded for the live branch, one for a deleted branch, one that no
  row records.  The repository has the single branch \<open>main\<close>.
\<close>

definition reapRow :: "string \<Rightarrow> string \<Rightarrow> BranchDurableRow" where
  "reapRow name branch = (durableRow 1 7 ''s3'' ''app'' branch name)\<lparr>bd_used := 5\<rparr>"

definition reapWorld :: "s3 world" where
  "reapWorld =
     \<lparr>engine = \<lparr>buckets = [''tmbs-0000000000000001'' \<mapsto> [], ''tmbs-0000000000000002'' \<mapsto> [], ''tmbs-0000000000000003'' \<mapsto> []],
                faults = []\<rparr>,
      store = emptyStore\<lparr>tables := (tables emptyStore)\<lparr>branch_durables :=
        [reapRow ''tmbs-0000000000000001'' ''main'', reapRow ''tmbs-0000000000000002'' ''gone'']\<rparr>, clock := 3000000\<rparr>,
      ctx = [], event_log = []\<rparr>"

definition reapDb :: DatabaseConfig where
  "reapDb = \<lparr>d_engine = ''s3'', d_connection = [], d_name_template = [], d_key_prefix = ''app'', d_test_clones = None,
     d_fanout = 0, d_branch_scoped = True\<rparr>"

definition reapX :: "s3 reapEnv" where
  "reapX = s3Reap \<lparr>Databases = [reapDb], MainDatabases = []\<rparr>
     \<lparr>slugs = sample_env, redis = defaultRedisRange\<rparr> (\<lambda>dir args. Inr ''main'') 30
     [''tmbs-0000000000000001'', ''tmbs-0000000000000002'', ''tmbs-0000000000000003'']"

definition reapSeen :: UntrackedSeen where
  "reapSeen = \<lparr>us_Grace = 0, us_first = [(seenKey ''s3'' ''tmbs-0000000000000003'', 0)]\<rparr>"

lemma reap_laws: "reap_servers reapX s3_places"
  unfolding reapX_def by (rule s3reap.reap_servers_axioms)

lemma reap_alone: "alone (store reapWorld)" "keys_ok (tables (store reapWorld))"
  by (simp_all add: reapWorld_def emptyStore_def alone_def keys_ok_def bdKey_def reapRow_def durableRow_def)

lemma reap_rows: "reapRow ''tmbs-0000000000000001'' ''main'' \<in> set (branch_durables (tables (store reapWorld)))"
  by (simp add: reapWorld_def)

lemma reap_live: "\<not> orphan (re_git reapX) 1 ''/r'' (reapRow ''tmbs-0000000000000001'' ''main'')"
proof -
  have "localBranchSet (re_git reapX) ''/r'' = Some [''main'']" by code_simp
  moreover have "bd_branch (reapRow ''tmbs-0000000000000001'' ''main'') = ''main''" by (simp add: reapRow_def durableRow_def)
  ultimately show ?thesis by (simp add: orphan_def)
qed

lemma orphan_sweep_safe_witness:
  "fst (ReapOrphanDurables reapX 1 ''/r'' reapWorld) = Inr () \<and>
   reapRow ''tmbs-0000000000000001'' ''main'' \<in>
     set (branch_durables (tables (store (snd (ReapOrphanDurables reapX 1 ''/r'' reapWorld)))))"
  using orphan_sweep_safe [OF reap_laws reap_alone, of 1 "''/r''" "fst (ReapOrphanDurables reapX 1 ''/r'' reapWorld)"
      "snd (ReapOrphanDurables reapX 1 ''/r'' reapWorld)"] reap_rows reap_live
  by (metis Diff_iff prod.collapse)

lemma expired_sweep_safe_witness:
  "fst (ReapExpiredDurables reapX 1 2592000004000000 reapWorld) = Inr () \<and>
   reapRow ''tmbs-0000000000000001'' ''main'' \<in>
     set (branch_durables (tables (store (snd (ReapExpiredDurables reapX 1 2592000004000000 reapWorld)))))"
proof -
  have days: "sint (re_maxAgeDays reapX) = 30" by code_simp
  have used: "bd_used (reapRow ''tmbs-0000000000000001'' ''main'') = 5" by (simp add: reapRow_def durableRow_def)
  let ?run = "ReapExpiredDurables reapX 1 2592000004000000 reapWorld"
  have limit: "sint (re_maxAgeDays reapX) \<le> 106751" by (simp add: days)
  note safe = expired_sweep_safe [OF reap_laws reap_alone prod.collapse [symmetric, of ?run] limit]
  have "bd_used d * 1000000 < 2592000004000000 - 30 * 86400000000000"
    if "d \<in> set (branch_durables (tables (store reapWorld)))" "d \<notin> set (branch_durables (tables (store (snd ?run))))" for d
    using safe that unfolding days by blast
  from this [OF reap_rows] show ?thesis using safe used by auto
qed

lemma untracked_sweep_safe_witness:
  "s3_places (engine (snd (ReapUntrackedDurables reapX reapSeen reapWorld))) ((''s3'', []), ''tmbs-0000000000000001'') =
   s3_places (engine reapWorld) ((''s3'', []), ''tmbs-0000000000000001'')"
proof (rule ccontr)
  let ?run = "ReapUntrackedDurables reapX reapSeen reapWorld"
  assume changed: "\<not> ?thesis"
  have targets: "untrackedTargets (re_cfg reapX) = [(''s3'', [])]" by code_simp
  have fam: "durableFamily ''s3'' ''tmbs-0000000000000001'' = Some ''tmbs-0000000000000001''" by code_simp
  have row: "bd_name (reapRow ''tmbs-0000000000000001'' ''main'') = ''tmbs-0000000000000001''"
    "bd_engine (reapRow ''tmbs-0000000000000001'' ''main'') = canonicalLabel ''s3''" by code_simp+
  have "''tmbs-0000000000000001'' \<in> registered (tables (store reapWorld)) ''s3''"
    using reap_rows row by (force simp: registered_def)
  then show False
    using untracked_sweep_safe [OF reap_laws reap_alone(1), of reapSeen "fst ?run" "snd ?run"] changed targets fam
    by fastforce
qed

end
