(* ===== verification/FanOut.thy ===== *)
theory FanOut
  imports DriverLaws
begin

text \<open>
  Restoring a template into many targets at once, \<open>fanOutClones\<close> of \<open>internal/prepare/prepare.go\<close> with its
  concurrency limit.  A restore is one step on the engine; a schedule decides which of the restores
  that have been started finishes next, and whether a restore that is still pending when the group
  has been cancelled gives up before it starts.  The group always waits for every restore.
\<close>

section \<open>Model\<close>

subsection \<open>The concurrency limit\<close>

text \<open>A lookup of a family without an entry, or of an unknown engine, gives 0.\<close>

definition fanOutLimits :: "Family option \<Rightarrow> int" where
  "fanOutLimits fam =
     (if fam = Some FamilyMySQL then 4
      else if fam = Some FamilyPostgres then 8
      else if fam = Some FamilyFile then 8
      else 0)"

definition mysqlInnerPerRestore :: int where
  "mysqlInnerPerRestore = 6"

definition innerConnsPerRestore :: "Family option \<Rightarrow> int" where
  "innerConnsPerRestore fam =
     (if fam = Some FamilyMySQL then mysqlInnerPerRestore else if fam = Some FamilyPostgres then 1 else 0)"

definition autoTuneOuter :: "Family option \<Rightarrow> int \<Rightarrow> int" where
  "autoTuneOuter fam maxConns =
     (let inner = max (innerConnsPerRestore fam) 1;
          defaultCap = (if fanOutLimits fam < 2 then 4 else fanOutLimits fam)
      in if maxConns \<le> 0 then defaultCap
         else
           let reserved = max (maxConns div 10) 5;
               available = maxConns - reserved
           in if available < inner then 2
              else
                let outer = max (available div inner) 2;
                    hardCap = defaultCap * 2
                in if outer > hardCap then hardCap else outer)"

text \<open>\<open>procs\<close> is \<open>runtime.GOMAXPROCS(0)\<close>.\<close>

definition fanOutLimit :: "int \<Rightarrow> u32 \<Rightarrow> int \<Rightarrow> int \<Rightarrow> string \<Rightarrow> int \<times> bool" where
  "fanOutLimit procs override maxConns numClones en =
     (let fam = Canonical en;
          (limit, autoTuned) =
            (if 0 < override then (uint override, False)
             else if 0 < maxConns then (autoTuneOuter fam maxConns, True)
             else (if fanOutLimits fam = 0 then procs else fanOutLimits fam, False));
          limit2 = (if limit < 2 then 2 else limit)
      in (if limit2 > numClones then numClones else limit2, autoTuned))"

subsection \<open>The group of restores\<close>

type_synonym 'e restorer = "string \<Rightarrow> string \<Rightarrow> ('e, unit) action"

text \<open>Which of the started restores finishes next, and whether it gives up when the group is cancelled.\<close>

type_synonym schedule = "(nat \<times> bool) list"

record fanState =
  fs_err :: "go_error option"
  fs_ok :: nat
  fs_fail :: nat

definition restoreError :: "string \<Rightarrow> string \<Rightarrow> go_error \<Rightarrow> go_error" where
  "restoreError tmpl c err =
     Wrapf (''restore '' @ tmpl @ '' '' @ [CHR 0xE2, CHR 0x86, CHR 0x92] @ '' '' @ c @ '': '') err []"

definition firstError :: "go_error option \<Rightarrow> go_error \<Rightarrow> go_error option" where
  "firstError old err = (case old of Some e \<Rightarrow> Some e | None \<Rightarrow> Some err)"

definition restoreJob ::
  "'e restorer \<Rightarrow> string \<Rightarrow> string \<Rightarrow> fanState \<Rightarrow> ('e world, fanState) action" where
  "restoreJob restore tmpl c st =
     bindA (tryA (retryTransient (onEngine (restore tmpl c)))) (\<lambda>r.
       case r of
         Inr u \<Rightarrow>
           bindA (writeEvent ''debug'' ''clones:restore:end'') (\<lambda>_. returnA (st\<lparr>fs_ok := fs_ok st + 1\<rparr>))
       | Inl err \<Rightarrow>
           if isCancellation err then returnA (st\<lparr>fs_err := firstError (fs_err st) err\<rparr>)
           else
             bindA (writeEvent ''warn'' ''clones:restore:error'') (\<lambda>_.
               returnA (st\<lparr>fs_err := firstError (fs_err st) (restoreError tmpl c err), fs_fail := fs_fail st + 1\<rparr>)))"

function fanLoop ::
  "'e restorer \<Rightarrow> string \<Rightarrow> nat \<Rightarrow> schedule \<Rightarrow> string list \<Rightarrow> fanState \<Rightarrow> ('e world, fanState) action" where
  "fanLoop restore tmpl limit sched [] st = returnA st"
| "fanLoop restore tmpl limit sched (c # cs) st =
     (let (pick, giveUp) = (case sched of [] \<Rightarrow> (0, False) | p # _ \<Rightarrow> p);
          i = pick mod (max 1 (min limit (length (c # cs))));
          job = (c # cs) ! i;
          waiting = take i (c # cs) @ drop (i + 1) (c # cs)
      in if fs_err st \<noteq> None \<and> giveUp then fanLoop restore tmpl limit (tl sched) waiting st
         else bindA (restoreJob restore tmpl job st) (\<lambda>st'. fanLoop restore tmpl limit (tl sched) waiting st'))"
  by pat_completeness auto
termination
proof (relation "measure (\<lambda>(restore, tmpl, limit, sched, cs, st). length cs)")
  fix restore :: "'e restorer" and tmpl limit sched c cs st x pick giveUp i job waiting
  assume "i = pick mod (max 1 (min limit (length (c # cs))))" "waiting = take i (c # cs) @ drop (i + 1) (c # cs)"
  moreover have "pick mod (max 1 (min limit (length (c # cs)))) < length (c # cs)"
    by (rule less_le_trans [OF mod_less_divisor]) auto
  ultimately have "length waiting < length (c # cs)" by simp
  then show "((restore, tmpl, limit, tl sched, waiting, st), restore, tmpl, limit, sched, c # cs, st)
      \<in> measure (\<lambda>(restore, tmpl, limit, sched, cs, st). length cs)"
    and "((restore, tmpl, limit, tl sched, waiting, x), restore, tmpl, limit, sched, c # cs, st)
      \<in> measure (\<lambda>(restore, tmpl, limit, sched, cs, st). length cs)" by simp_all
qed simp

definition fanOutClones ::
  "int \<Rightarrow> schedule \<Rightarrow> 'e restorer \<Rightarrow> string \<Rightarrow> string list \<Rightarrow> string \<Rightarrow> u32 \<Rightarrow> int \<Rightarrow> ('e world, unit) action" where
  "fanOutClones procs sched restore tmpl clones en override maxConns =
     (if clones = [] then returnA ()
      else
        let limit = nat (fst (fanOutLimit procs override maxConns (int (length clones)) en))
        in bindA (writeEvent ''info'' ''clones:start'') (\<lambda>_.
           bindA (fanLoop restore tmpl limit sched clones \<lparr>fs_err = None, fs_ok = 0, fs_fail = 0\<rparr>) (\<lambda>st.
           bindA (writeEvent (if 0 < fs_fail st then ''error'' else ''info'') ''clones:end'') (\<lambda>_.
             case fs_err st of None \<Rightarrow> returnA () | Some err \<Rightarrow> raiseA err))))"

section \<open>Lemmas\<close>

definition defaultCapOf :: "Family option \<Rightarrow> int" where
  "defaultCapOf fam = (if fanOutLimits fam < 2 then 4 else fanOutLimits fam)"

definition availableConns :: "int \<Rightarrow> int" where
  "availableConns maxConns = maxConns - max (maxConns div 10) 5"

definition innerOf :: "Family option \<Rightarrow> int" where
  "innerOf fam = max (innerConnsPerRestore fam) 1"

lemma cap_range: "2 \<le> defaultCapOf fam" "defaultCapOf fam \<le> 8" and inner_pos: "0 < innerOf fam"
  by (simp_all add: defaultCapOf_def fanOutLimits_def innerOf_def)

lemma autoTuneOuter_eq:
  "autoTuneOuter fam maxConns =
     (if maxConns \<le> 0 then defaultCapOf fam
      else if availableConns maxConns < innerOf fam then 2
      else min (max (availableConns maxConns div innerOf fam) 2) (2 * defaultCapOf fam))"
proof -
  have unfolded: "autoTuneOuter fam maxConns =
      (if maxConns \<le> 0 then defaultCapOf fam
       else if availableConns maxConns < innerOf fam then 2
       else if max (availableConns maxConns div innerOf fam) 2 > defaultCapOf fam * 2 then defaultCapOf fam * 2
       else max (availableConns maxConns div innerOf fam) 2)"
    unfolding autoTuneOuter_def Let_def defaultCapOf_def [symmetric] availableConns_def [symmetric] innerOf_def [symmetric] ..
  have capped: "(if x > c * 2 then c * 2 else x) = min x (2 * c)" for x c :: int by (simp add: min_def)
  show ?thesis unfolding unfolded capped ..
qed

text \<open>
  The tuned limit lies between 2 and twice the default of the family, and where the connections the server has left
  over allow two restores it stays within them.
\<close>

lemma autoTuneOuter_range: "2 \<le> autoTuneOuter fam maxConns" "autoTuneOuter fam maxConns \<le> 16"
  using cap_range [of fam] by (simp_all add: autoTuneOuter_eq min_def max_def)

lemma autoTuneOuter_budget:
  assumes "2 * innerOf fam \<le> availableConns maxConns"
  shows "autoTuneOuter fam maxConns * innerOf fam \<le> availableConns maxConns"
proof -
  let ?q = "availableConns maxConns div innerOf fam"
  have "\<not> maxConns \<le> 0"
  proof
    assume "maxConns \<le> 0"
    then have "availableConns maxConns \<le> 0" by (simp add: availableConns_def)
    then show False using assms inner_pos [of fam] by simp
  qed
  moreover have "2 \<le> ?q"
    using zdiv_mono1 [OF assms inner_pos [of fam]] inner_pos [of fam] by simp
  ultimately have "autoTuneOuter fam maxConns \<le> ?q"
    using assms inner_pos [of fam] by (simp add: autoTuneOuter_eq)
  then have "autoTuneOuter fam maxConns * innerOf fam \<le> ?q * innerOf fam"
    using inner_pos [of fam] by (simp add: mult_right_mono)
  also have "\<dots> \<le> availableConns maxConns"
    using div_mult_mod_eq [of "availableConns maxConns" "innerOf fam"] pos_mod_sign [OF inner_pos, of "availableConns maxConns" fam]
    by linarith
  finally show ?thesis .
qed

text \<open>Where two restores do not fit the limit is two all the same.\<close>

lemma autoTuneOuter_floor:
  assumes "\<not> 2 * innerOf fam \<le> availableConns maxConns" "0 < maxConns"
  shows "autoTuneOuter fam maxConns = 2"
proof -
  have "availableConns maxConns div innerOf fam < 2"
    using assms(1) mult_right_mono [of 2 "availableConns maxConns div innerOf fam" "innerOf fam"] inner_pos [of fam]
      pos_mod_sign [OF inner_pos, of "availableConns maxConns" fam] div_mult_mod_eq [of "availableConns maxConns" "innerOf fam"]
    by linarith
  then show ?thesis using assms(2) cap_range [of fam] by (simp add: autoTuneOuter_eq)
qed

text \<open>
  C38: The concurrency limit of a fan-out is at least one and never more than the number of targets.  Without an
  override and with a known connection count it is tuned: at most 16, and its restores need no more than the
  connections the server has to spare (a tenth of them, five at least, kept back), provided these allow for two
  restores; where they do not, the limit is two all the same and exceeds them.  An override
  is taken as it is, from two on.
\<close>

theorem fan_out_within_budget:
  assumes "1 \<le> numClones" "fanOutLimit procs override maxConns numClones en = (limit, tuned)"
  shows "1 \<le> limit \<and> limit \<le> numClones \<and> tuned = (override = 0 \<and> 0 < maxConns) \<and>
    (tuned \<longrightarrow> limit \<le> 16 \<and>
      (if 2 * innerOf (Canonical en) \<le> availableConns maxConns then limit * innerOf (Canonical en) \<le> availableConns maxConns
       else limit = min numClones 2)) \<and>
    (override \<noteq> 0 \<longrightarrow> limit = min numClones (max 2 (uint override)))"
proof -
  let ?t = "autoTuneOuter (Canonical en) maxConns"
  have pos: "(0 < override) = (override \<noteq> 0)" by (simp add: word_gt_0)
  have lim: "limit = min numClones (max 2 (if override \<noteq> 0 then uint override else if 0 < maxConns then ?t
      else if fanOutLimits (Canonical en) = 0 then procs else fanOutLimits (Canonical en)))"
    and tuned: "tuned = (override = 0 \<and> 0 < maxConns)"
    using assms(2) by (auto simp: fanOutLimit_def Let_def pos min_def max_def split: if_splits)
  have tune: "limit \<le> ?t" if tuned
    using that lim tuned autoTuneOuter_range [of "Canonical en" maxConns] by simp
  have "limit * innerOf (Canonical en) \<le> availableConns maxConns" if tuned "2 * innerOf (Canonical en) \<le> availableConns maxConns"
    using mult_right_mono [OF tune [OF that(1)], of "innerOf (Canonical en)"] autoTuneOuter_budget [OF that(2)] inner_pos [of "Canonical en"]
    by linarith
  moreover have "limit = min numClones 2" if "\<not> 2 * innerOf (Canonical en) \<le> availableConns maxConns" tuned
    using lim that(2) tuned autoTuneOuter_floor [OF that(1)] by simp
  moreover have "limit \<le> 16" if tuned using tune [OF that] autoTuneOuter_range(2) order_trans by blast
  moreover have "1 \<le> limit" "limit \<le> numClones" using lim assms(1) by simp_all
  ultimately show ?thesis using lim tuned by simp
qed

text \<open>MySQL with 15 connections: ten are to spare, and the two restores the tuning allows need twelve.\<close>

lemma fan_out_floor_over_budget:
  "fanOutLimit 8 0 15 4 ''mysql'' = (2, True) \<and> 2 * innerOf (Canonical ''mysql'') = 12 \<and> availableConns 15 = 10"
  by code_simp

theorem fan_out_within_budget_witness: "\<exists>limit. fanOutLimit 8 0 100 12 ''postgres'' = (limit, True) \<and> 1 \<le> limit \<and> limit \<le> 12"
proof -
  obtain limit tuned where run: "fanOutLimit 8 0 100 12 ''postgres'' = (limit, tuned)" by (cases "fanOutLimit 8 0 100 12 ''postgres''")
  from fan_out_within_budget [OF _ run] show ?thesis using run by simp
qed

text \<open>
  The laws of a restore that a fan-out relies on: it changes at most the footprint of its target, and one that
  succeeds leaves in the target what the template holds.
\<close>

locale restoring =
  fixes restore :: "'e restorer"
    and content :: "'e \<Rightarrow> string \<Rightarrow> 'c option"
    and own :: "string \<Rightarrow> string set"
    and is_template :: "string \<Rightarrow> bool"
  assumes restore_frame: "restore tmpl c e = (r, e') \<Longrightarrow> only content (own c) e e'"
    and restore_copy: "restore tmpl c e = (Inr u, e') \<Longrightarrow> is_template tmpl \<Longrightarrow> tmpl \<notin> own c \<Longrightarrow> content e tmpl \<noteq> None \<Longrightarrow>
      content e' c = content e tmpl"
begin

lemma touches_restore: "own c \<subseteq> T \<Longrightarrow> touches content T (retryTransient (onEngine (restore tmpl c)))"
  by (intro touches_retry touches_onEngine) (auto intro: only_mono restore_frame)

lemma touches_job: "own c \<subseteq> T \<Longrightarrow> touches content T (restoreJob restore tmpl c st)"
  unfolding restoreJob_def by (intro touch touches_restore)

lemma restore_retried:
  assumes "retryTransient (onEngine (restore tmpl c)) w = (Inr u, w')"
    and "is_template tmpl" "tmpl \<notin> own c" "content (engine w) tmpl = Some x"
  shows "content (engine w') c = Some x"
proof (rule retryTransient_success [where P = "\<lambda>w. content (engine w) tmpl = Some x", OF _ _ _ assms(4,1)])
  fix v :: "'e world" and err v' assume v: "content (engine v) tmpl = Some x"
  show "onEngine (restore tmpl c) v = (Inl err, v') \<Longrightarrow> content (engine v') tmpl = Some x"
    using v restore_frame assms(3) by (auto simp: onEngine_def only_def split: prod.splits)
  show "onEngine (restore tmpl c) v = (Inr z, v') \<Longrightarrow> content (engine v') c = Some x" for z
    using v restore_copy [of tmpl c] assms(2,3) by (auto simp: onEngine_def split: prod.splits)
qed simp

lemma job_run:
  assumes "restoreJob restore tmpl c st w = (r, w')"
  shows "\<exists>st'. r = Inr st' \<and> (fs_err st' = None \<longrightarrow> fs_err st = None \<and>
    (is_template tmpl \<and> tmpl \<notin> own c \<and> content (engine w) tmpl \<noteq> None \<longrightarrow>
       content (engine w') c = content (engine w) tmpl))"
proof -
  obtain q w1 where q: "retryTransient (onEngine (restore tmpl c)) w = (q, w1)" by (meson surj_pair)
  have ev: "writeEvent l t v = (Inr (), v\<lparr>event_log := event_log v @ [(l, t)]\<rparr>)" for l t and v :: "'e world"
    by (simp add: writeEvent_def modifyA_def)
  show ?thesis
  proof (cases q)
    case (Inl err)
    then show ?thesis using assms q
      by (auto simp: restoreJob_def bindA_def tryA_def returnA_def ev firstError_def split: if_splits option.splits)
  next
    case (Inr u)
    then have "r = Inr (st\<lparr>fs_ok := fs_ok st + 1\<rparr>)" "engine w' = engine w1"
      using assms q by (auto simp: restoreJob_def bindA_def tryA_def returnA_def ev)
    moreover have "is_template tmpl \<and> tmpl \<notin> own c \<and> content (engine w) tmpl \<noteq> None \<longrightarrow>
       content (engine w1) c = content (engine w) tmpl"
      using restore_retried q Inr by auto
    ultimately show ?thesis by simp
  qed
qed

lemma fanLoop_run:
  assumes "fanLoop restore tmpl limit sched cs st w = (r, w')" "\<forall>c \<in> set cs. tmpl \<notin> own c"
    and "\<forall>c \<in> set cs. \<forall>d \<in> set cs. c \<noteq> d \<longrightarrow> c \<notin> own d"
  shows "\<exists>st'. r = Inr st' \<and> only content (\<Union>c \<in> set cs. own c) (engine w) (engine w') \<and>
    (fs_err st' = None \<longrightarrow> fs_err st = None \<and>
      (is_template tmpl \<and> content (engine w) tmpl \<noteq> None \<longrightarrow> (\<forall>c \<in> set cs. content (engine w') c = content (engine w) tmpl)))"
  using assms
proof (induction "length cs" arbitrary: cs sched st w rule: less_induct)
  case less
  show ?case
  proof (cases cs)
    case Nil
    then show ?thesis using less.prems(1) by (auto simp: returnA_def only_def)
  next
    case (Cons c0 cs0)
    obtain pick giveUp where p: "(case sched of [] \<Rightarrow> (0, False) | p # _ \<Rightarrow> p) = (pick, giveUp)" by (meson surj_pair)
    define i where "i = pick mod (max 1 (min limit (length cs)))"
    define job where "job = cs ! i"
    define waiting where "waiting = take i cs @ drop (i + 1) cs"
    have i: "i < length cs" unfolding i_def by (rule less_le_trans [OF mod_less_divisor]) (auto simp: Cons)
    have "set cs = set (take i cs @ job # drop (Suc i) cs)" unfolding job_def using id_take_nth_drop [OF i] by (rule arg_cong)
    then have sets: "set cs = insert job (set waiting)" "length waiting < length cs"
      using i by (simp_all add: waiting_def)
    have loop: "fanLoop restore tmpl limit sched cs st =
        (if fs_err st \<noteq> None \<and> giveUp then fanLoop restore tmpl limit (tl sched) waiting st
         else bindA (restoreJob restore tmpl job st) (\<lambda>st'. fanLoop restore tmpl limit (tl sched) waiting st'))"
      unfolding i_def job_def waiting_def Cons by (subst fanLoop.simps(2)) (simp only: p Let_def prod.case)
    have sub: "\<forall>c \<in> set waiting. tmpl \<notin> own c" "\<forall>c \<in> set waiting. \<forall>d \<in> set waiting. c \<noteq> d \<longrightarrow> c \<notin> own d"
      using less.prems(2,3) sets(1) by auto
    show ?thesis
    proof (cases "fs_err st \<noteq> None \<and> giveUp")
      case True
      then have "fanLoop restore tmpl limit (tl sched) waiting st w = (r, w')" using loop less.prems(1) by simp
      from less.hyps [OF sets(2) this sub] obtain st' where st': "r = Inr st' \<and>
          only content (\<Union>c \<in> set waiting. own c) (engine w) (engine w') \<and> (fs_err st' = None \<longrightarrow> fs_err st = None \<and>
            (is_template tmpl \<and> content (engine w) tmpl \<noteq> None \<longrightarrow>
              (\<forall>c \<in> set waiting. content (engine w') c = content (engine w) tmpl)))" ..
      have "(\<Union>c \<in> set waiting. own c) \<subseteq> (\<Union>c \<in> set cs. own c)" using sets(1) by auto
      from only_mono [OF conjunct1 [OF conjunct2 [OF st']] this]
      have "only content (\<Union>c \<in> set cs. own c) (engine w) (engine w')" .
      moreover have "fs_err st' \<noteq> None" using True st' by auto
      ultimately show ?thesis using st' by (cases "fs_err st'") simp_all
    next
      case False
      obtain q w1 where run: "restoreJob restore tmpl job st w = (q, w1)" by (meson surj_pair)
      obtain st1 where st1: "q = Inr st1" "fs_err st1 = None \<longrightarrow> fs_err st = None \<and>
          (is_template tmpl \<and> tmpl \<notin> own job \<and> content (engine w) tmpl \<noteq> None \<longrightarrow>
             content (engine w1) job = content (engine w) tmpl)"
        using job_run [OF run] by (elim exE conjE)
      have first: "only content (own job) (engine w) (engine w1)"
        using keepsD [OF touches_job [of job "own job", unfolded touches_def, OF order_refl] run] by (simp add: engine_rel_def)
      have tm: "content (engine w1) tmpl = content (engine w) tmpl"
        using first less.prems(2) sets(1) by (auto simp: only_def)
      have "bindA (restoreJob restore tmpl job st) (\<lambda>st'. fanLoop restore tmpl limit (tl sched) waiting st') w = (r, w')"
        using less.prems(1) unfolding loop if_not_P [OF False] .
      then have "fanLoop restore tmpl limit (tl sched) waiting st1 w1 = (r, w')"
        using run st1(1) by (simp add: bindA_def)
      from less.hyps [OF sets(2) this sub] obtain st' where
        st': "r = Inr st'" "only content (\<Union>c \<in> set waiting. own c) (engine w1) (engine w')"
          "fs_err st' = None \<longrightarrow> fs_err st1 = None \<and>
            (is_template tmpl \<and> content (engine w1) tmpl \<noteq> None \<longrightarrow>
               (\<forall>c \<in> set waiting. content (engine w') c = content (engine w1) tmpl))" by (elim exE conjE)
      have keep: "job \<notin> set waiting \<Longrightarrow> content (engine w') job = content (engine w1) job"
        using st'(2) less.prems(3) sets(1) by (auto simp: only_def)
      have "only content (\<Union>c \<in> set cs. own c) (engine w) (engine w')"
        using first st'(2) sets(1) by (auto simp: only_def)
      moreover have "content (engine w') c = content (engine w) tmpl"
        if "fs_err st' = None" "is_template tmpl" "content (engine w) tmpl \<noteq> None" "c \<in> set cs" for c
      proof (cases "c \<in> set waiting")
        case True
        then show ?thesis using st'(3) that(1-3) tm by simp
      next
        case False
        then have "c = job" using that(4) sets(1) by simp
        then show ?thesis using keep False st1(2) st'(3) that(1-3) less.prems(2) sets(1) by simp
      qed
      moreover have "fs_err st' = None \<longrightarrow> fs_err st = None" using st1(2) st'(3) by auto
      ultimately show ?thesis using st'(1) by auto
    qed
  qed
qed

lemma fanOut_run:
  assumes "fanOutClones procs sched restore tmpl clones en override maxConns w = (r, w')" "\<forall>c \<in> set clones. tmpl \<notin> own c"
    and "\<forall>c \<in> set clones. \<forall>d \<in> set clones. c \<noteq> d \<longrightarrow> c \<notin> own d"
  shows "only content (\<Union>c \<in> set clones. own c) (engine w) (engine w') \<and>
    (r = Inr () \<and> is_template tmpl \<and> content (engine w) tmpl \<noteq> None \<longrightarrow>
       (\<forall>c \<in> set clones. content (engine w') c = content (engine w) tmpl))"
proof (cases "clones = []")
  case True
  then show ?thesis using assms(1) by (auto simp: fanOutClones_def returnA_def only_def)
next
  case False
  have ev: "writeEvent l t v = (Inr (), v\<lparr>event_log := event_log v @ [(l, t)]\<rparr>)" for l t and v :: "'e world"
    by (simp add: writeEvent_def modifyA_def)
  let ?w = "w\<lparr>event_log := event_log w @ [(''info'', ''clones:start'')]\<rparr>"
  let ?limit = "nat (fst (fanOutLimit procs override maxConns (int (length clones)) en))"
  obtain q w1 where loop: "fanLoop restore tmpl ?limit sched clones \<lparr>fs_err = None, fs_ok = 0, fs_fail = 0\<rparr> ?w = (q, w1)"
    by (meson surj_pair)
  obtain st where st: "q = Inr st" "only content (\<Union>c \<in> set clones. own c) (engine w) (engine w1)"
      "fs_err st = None \<longrightarrow> is_template tmpl \<and> content (engine w) tmpl \<noteq> None \<longrightarrow>
         (\<forall>c \<in> set clones. content (engine w1) c = content (engine w) tmpl)"
    using fanLoop_run [OF loop assms(2,3)] by auto
  have "engine w' = engine w1" "r = Inr () \<longrightarrow> fs_err st = None"
    using assms(1) False loop st(1)
    by (auto simp: fanOutClones_def bindA_def ev Let_def returnA_def raiseA_def split: option.splits)
  then show ?thesis using st by auto
qed

end

end
