(* ===== verification/TemplateBuilt.thy ===== *)
theory TemplateBuilt
  imports BranchStore
begin

text \<open>
  The table \<open>template_db_built\<close> (\<open>internal/store/template_built.go\<close>): for each templated database of a worktree,
  the input fingerprint its source and clones were last populated at.  The prepare engine skips a
  restore when the recorded fingerprint is the current one.
\<close>

section \<open>Model\<close>

record builtRow =
  tb_worktree :: int
  tb_key :: string
  tb_engine :: string
  tb_connection :: string
  tb_fingerprint :: string
  tb_updated :: int

record builtTables =
  template_db_built :: "builtRow list"
  tb_worktrees :: "int list"

definition tbKey :: "builtRow \<Rightarrow> int \<times> string \<times> string \<times> string" where
  "tbKey r = (tb_worktree r, tb_key r, tb_engine r, tb_connection r)"

definition upsertBuilt :: "builtRow \<Rightarrow> builtTables \<Rightarrow> go_error + builtTables" where
  "upsertBuilt row t =
     (if tb_worktree row \<in> set (tb_worktrees t) then
        Inr (t\<lparr>template_db_built :=
          upsertBy tbKey (\<lambda>r. r\<lparr>tb_fingerprint := tb_fingerprint row, tb_updated := tb_updated row\<rparr>)
            row (template_db_built t)\<rparr>)
      else Inl foreignKey)"

text \<open>Other processes: their own upserts and clears, and the removal of a worktree, which cascades.\<close>

datatype builtOp = TSet builtRow | TClearKey int string | TClearWorktree int | TAddWorktree int | TDropWorktree int

fun applyBuiltOp :: "builtOp \<Rightarrow> builtTables \<Rightarrow> builtTables" where
  "applyBuiltOp (TSet row) t = (case upsertBuilt row t of Inl e \<Rightarrow> t | Inr t' \<Rightarrow> t')"
| "applyBuiltOp (TClearKey w k) t =
     t\<lparr>template_db_built := filter (\<lambda>r. \<not> (tb_worktree r = w \<and> tb_key r = k)) (template_db_built t)\<rparr>"
| "applyBuiltOp (TClearWorktree w) t = t\<lparr>template_db_built := filter (\<lambda>r. tb_worktree r \<noteq> w) (template_db_built t)\<rparr>"
| "applyBuiltOp (TAddWorktree w) t = t\<lparr>tb_worktrees := w # tb_worktrees t\<rparr>"
| "applyBuiltOp (TDropWorktree w) t =
     t\<lparr>template_db_built := filter (\<lambda>r. tb_worktree r \<noteq> w) (template_db_built t),
       tb_worktrees := filter (\<lambda>x. x \<noteq> w) (tb_worktrees t)\<rparr>"

type_synonym builtDB = "(builtTables, builtOp) db"

abbreviation execT :: "(builtTables \<Rightarrow> go_error + builtTables) \<Rightarrow> (builtDB, unit) action" where
  "execT stmt \<equiv> optionA (Exec applyBuiltOp stmt)"

abbreviation queryT :: "(builtTables \<Rightarrow> 'a) \<Rightarrow> (builtDB, 'a) action" where
  "queryT sel \<equiv> Query applyBuiltOp sel"

definition builtAt :: "builtTables \<Rightarrow> int \<Rightarrow> string \<Rightarrow> string \<Rightarrow> string \<Rightarrow> string option" where
  "builtAt t w k en conn = map_option tb_fingerprint (find (\<lambda>r. tbKey r = (w, k, en, conn)) (template_db_built t))"

definition GetTemplateBuilt :: "int \<Rightarrow> string \<Rightarrow> string \<Rightarrow> string \<Rightarrow> (builtDB, string option) action" where
  "GetTemplateBuilt w k en conn = queryT (\<lambda>t. builtAt t w k en conn)"

definition SetTemplateBuilt :: "int \<Rightarrow> string \<Rightarrow> string \<Rightarrow> string \<Rightarrow> string \<Rightarrow> (builtDB, unit) action" where
  "SetTemplateBuilt w k en conn fp s =
     execT (upsertBuilt \<lparr>tb_worktree = w, tb_key = k, tb_engine = en, tb_connection = conn, tb_fingerprint = fp,
       tb_updated = nowMillis s\<rparr>) s"

definition ClearTemplateBuiltForKey :: "int \<Rightarrow> string \<Rightarrow> (builtDB, unit) action" where
  "ClearTemplateBuiltForKey w k =
     execT (\<lambda>t. Inr (t\<lparr>template_db_built := filter (\<lambda>r. \<not> (tb_worktree r = w \<and> tb_key r = k)) (template_db_built t)\<rparr>))"

definition ClearTemplateBuiltForWorktree :: "int \<Rightarrow> (builtDB, unit) action" where
  "ClearTemplateBuiltForWorktree w =
     execT (\<lambda>t. Inr (t\<lparr>template_db_built := filter (\<lambda>r. tb_worktree r \<noteq> w) (template_db_built t)\<rparr>))"

section \<open>Lemmas\<close>

lemma builtAt_upsert:
  assumes "upsertBuilt row t = Inr t'"
  shows "builtAt t' w k en conn =
    (if tbKey row = (w, k, en, conn) then Some (tb_fingerprint row) else builtAt t w k en conn)"
proof -
  let ?upd = "\<lambda>r. r\<lparr>tb_fingerprint := tb_fingerprint row, tb_updated := tb_updated row\<rparr>"
  have key: "tbKey (?upd r) = tbKey r" for r by (simp add: tbKey_def)
  have rows: "template_db_built t' = upsertBy tbKey ?upd row (template_db_built t)"
    using assms by (auto simp: upsertBuilt_def split: if_splits)
  show ?thesis
    unfolding builtAt_def rows using find_upsertBy [of tbKey ?upd, OF key] by (auto split: option.splits)
qed

text \<open>On a store no one else writes to, a marker that was set is the marker that is read, and only that one changes.\<close>

lemma SetTemplateBuilt_alone:
  assumes "alone s" "SetTemplateBuilt w k en conn fp s = (r, s')"
  shows "alone s' \<and> (case r of
      Inr _ \<Rightarrow> builtAt (tables s') = (builtAt (tables s))(w := (builtAt (tables s) w)(k := (builtAt (tables s) w k)(en :=
        (builtAt (tables s) w k en)(conn := Some fp))))
    | Inl _ \<Rightarrow> tables s' = tables s)"
proof -
  let ?row = "\<lparr>tb_worktree = w, tb_key = k, tb_engine = en, tb_connection = conn, tb_fingerprint = fp, tb_updated = nowMillis s\<rparr>"
  obtain q s1 where ex: "Exec applyBuiltOp (upsertBuilt ?row) s = (q, s1)" by (meson surj_pair)
  have s': "s' = s1" "r = (case q of None \<Rightarrow> Inr () | Some e \<Rightarrow> Inl e)"
    using assms(2) ex by (auto simp: SetTemplateBuilt_def optionA_def split: option.splits)
  note out = Exec_alone [OF assms(1) ex]
  show ?thesis
  proof (cases q)
    case None
    then have up: "upsertBuilt ?row (tables s) = Inr (tables s1)" using out by simp
    show ?thesis using out None s' by (simp add: fun_eq_iff builtAt_upsert [OF up] tbKey_def)
  qed (use out s' in simp)
qed

section \<open>The table is well formed\<close>

text \<open>At most one marker per worktree, key, engine and connection, and each belongs to a worktree of the store.\<close>

definition built_wf :: "builtTables \<Rightarrow> bool" where
  "built_wf t \<longleftrightarrow> distinct (map tbKey (template_db_built t)) \<and> (\<forall>r \<in> set (template_db_built t). tb_worktree r \<in> set (tb_worktrees t))"

lemma wf_filter: "built_wf t \<Longrightarrow> built_wf (t\<lparr>template_db_built := filter P (template_db_built t)\<rparr>)"
  by (auto simp: built_wf_def distinct_map_filter)

lemma set_upsertBy: "set (upsertBy key upd row rs) \<subseteq> insert row (set rs \<union> upd ` set rs)"
  by (induction rs) auto

lemma wf_upsert:
  assumes "built_wf t" "upsertBuilt row t = Inr t'"
  shows "built_wf t'"
proof -
  let ?upd = "\<lambda>r. r\<lparr>tb_fingerprint := tb_fingerprint row, tb_updated := tb_updated row\<rparr>"
  have t': "tb_worktree row \<in> set (tb_worktrees t)" "t' = t\<lparr>template_db_built := upsertBy tbKey ?upd row (template_db_built t)\<rparr>"
    using assms(2) by (auto simp: upsertBuilt_def split: if_splits)
  have "tbKey (?upd r) = tbKey r" for r by (simp add: tbKey_def)
  then have "distinct (map tbKey (upsertBy tbKey ?upd row (template_db_built t)))"
    using assms(1) by (subst upsertBy_keys) (auto simp: built_wf_def)
  moreover have "tb_worktree r \<in> set (tb_worktrees t)" if "r \<in> set (upsertBy tbKey ?upd row (template_db_built t))" for r
    using set_upsertBy [of tbKey ?upd row "template_db_built t"] that assms(1) t'(1) by (fastforce simp: built_wf_def)
  ultimately show ?thesis by (simp add: built_wf_def t'(2))
qed

interpretation built: table_invariant applyBuiltOp built_wf
proof
  fix t op assume wf: "built_wf t"
  show "built_wf (applyBuiltOp op t)"
  proof (cases op)
    case (TSet row)
    then show ?thesis using wf wf_upsert [OF wf] by (cases "upsertBuilt row t") simp_all
  qed (use wf in \<open>auto simp: built_wf_def distinct_map_filter\<close>)
qed

lemma wf_exec:
  assumes "built_wf (tables s)" "\<And>t t'. built_wf t \<Longrightarrow> stmt t = Inr t' \<Longrightarrow> built_wf t'"
  shows "built_wf (tables (snd (execT stmt s)))"
proof -
  obtain q s1 where ex: "Exec applyBuiltOp stmt s = (q, s1)" by force
  have "built_wf (tables s1)" by (rule built.Exec_inv [OF assms(1) ex assms(2)])
  then show ?thesis using ex by (simp add: optionA_def split: option.splits)
qed

text \<open>
  Whatever other processes write in between and whatever fails, every operation on the built-at markers keeps the
  table well formed: no key has two markers, and no marker belongs to a worktree the store does not
  have.
\<close>

theorem built_markers_well_formed:
  assumes "built_wf (tables s)"
  shows "built_wf (tables (snd (SetTemplateBuilt w k en conn fp s))) \<and> built_wf (tables (snd (ClearTemplateBuiltForKey w k s))) \<and>
    built_wf (tables (snd (ClearTemplateBuiltForWorktree w s))) \<and> built_wf (tables (snd (GetTemplateBuilt w k en conn s)))"
proof (intro conjI)
  show "built_wf (tables (snd (SetTemplateBuilt w k en conn fp s)))"
    unfolding SetTemplateBuilt_def by (rule wf_exec [OF assms wf_upsert])
  show "built_wf (tables (snd (ClearTemplateBuiltForKey w k s)))" "built_wf (tables (snd (ClearTemplateBuiltForWorktree w s)))"
    unfolding ClearTemplateBuiltForKey_def ClearTemplateBuiltForWorktree_def by (rule wf_exec [OF assms]; auto dest: wf_filter)+
  show "built_wf (tables (snd (GetTemplateBuilt w k en conn s)))"
    unfolding GetTemplateBuilt_def using built.Query_inv [OF assms] by (metis prod.collapse)
qed

theorem built_markers_well_formed_witness:
  "built_wf (tables (snd (SetTemplateBuilt 1 ''a'' ''mysql'' [] ''f''
     \<lparr>tables = \<lparr>template_db_built = [], tb_worktrees = [1]\<rparr>, clock = 0, script = [\<lparr>others = [TDropWorktree 1], tick = 1, fault = None\<rparr>]\<rparr>)))"
proof -
  let ?s = "\<lparr>tables = \<lparr>template_db_built = [], tb_worktrees = [1]\<rparr>, clock = 0, script = [\<lparr>others = [TDropWorktree 1], tick = 1, fault = None\<rparr>]\<rparr> :: builtDB"
  have "built_wf (tables ?s)" by (simp add: built_wf_def)
  from built_markers_well_formed [OF this] show ?thesis by simp
qed

section \<open>The table is a map\<close>

text \<open>The fingerprint recorded for a worktree, a key, an engine and a connection.\<close>

definition markers :: "builtTables \<Rightarrow> int \<times> string \<times> string \<times> string \<rightharpoonup> string" where
  "markers t = (\<lambda>(w, k, en, conn). builtAt t w k en conn)"

lemma find_filter_key:
  "find (\<lambda>r. key r = x) (filter (\<lambda>r. P (key r)) rs) = (if P x then find (\<lambda>r. key r = x) rs else None)"
  by (induction rs) auto

lemma markers_filter:
  assumes "\<And>r. Q r \<longleftrightarrow> P (tbKey r)"
  shows "markers (t\<lparr>template_db_built := filter Q (template_db_built t)\<rparr>) = markers t |` {x. P x}"
proof -
  have Q: "Q = (\<lambda>r. P (tbKey r))" using assms by (simp add: fun_eq_iff)
  show ?thesis unfolding Q by (rule ext) (auto simp: markers_def builtAt_def restrict_map_def find_filter_key split: prod.splits)
qed

lemma execT_alone:
  assumes "alone s" "execT stmt s = (r, s')"
  shows "case r of Inr _ \<Rightarrow> stmt (tables s) = Inr (tables s') | Inl _ \<Rightarrow> tables s' = tables s"
proof -
  obtain q s1 where ex: "Exec applyBuiltOp stmt s = (q, s1)" by force
  show ?thesis using Exec_alone [OF assms(1) ex] assms(2) ex by (cases q) (auto simp: optionA_def)
qed

text \<open>
  C39: Seen as a map from worktree, key, engine and connection to a fingerprint, and with no one else writing, the table
  of built-at markers does what its operations promise.  Setting a marker updates the map at its key alone,
  and needs a worktree the store has; clearing a key removes the markers of that worktree and key for every
  engine and connection and no other; clearing a worktree removes exactly its markers; a read gives the value of the map; and an
  operation that fails leaves the table as it was.
\<close>

theorem built_markers_refine_map:
  assumes "alone s"
  shows "(case SetTemplateBuilt w k en conn fp s of
            (Inr _, s') \<Rightarrow> markers (tables s') = (markers (tables s))((w, k, en, conn) \<mapsto> fp) \<and> w \<in> set (tb_worktrees (tables s))
          | (Inl _, s') \<Rightarrow> tables s' = tables s) \<and>
    (case ClearTemplateBuiltForKey w k s of
       (Inr _, s') \<Rightarrow> markers (tables s') = markers (tables s) |` {(w', k', en', conn'). \<not> (w' = w \<and> k' = k)}
     | (Inl _, s') \<Rightarrow> tables s' = tables s) \<and>
    (case ClearTemplateBuiltForWorktree w s of
       (Inr _, s') \<Rightarrow> markers (tables s') = markers (tables s) |` {(w', k', en', conn'). w' \<noteq> w}
     | (Inl _, s') \<Rightarrow> tables s' = tables s) \<and>
    (case GetTemplateBuilt w k en conn s of
       (Inr found, s') \<Rightarrow> found = markers (tables s) (w, k, en, conn) \<and> tables s' = tables s
     | (Inl _, s') \<Rightarrow> tables s' = tables s)"
proof (intro conjI)
  obtain r s' where set: "SetTemplateBuilt w k en conn fp s = (r, s')" by force
  note up = execT_alone [OF assms set [unfolded SetTemplateBuilt_def]]
  show "case SetTemplateBuilt w k en conn fp s of
      (Inr _, s') \<Rightarrow> markers (tables s') = (markers (tables s))((w, k, en, conn) \<mapsto> fp) \<and> w \<in> set (tb_worktrees (tables s))
    | (Inl _, s') \<Rightarrow> tables s' = tables s"
  proof (cases r)
    case (Inr u)
    then have "w \<in> set (tb_worktrees (tables s))" using up by (auto simp: upsertBuilt_def split: if_splits)
    then show ?thesis using SetTemplateBuilt_alone [OF assms set] Inr unfolding set by (auto simp: markers_def fun_eq_iff)
  qed (use up set in simp)
next
  obtain r s' where clr: "ClearTemplateBuiltForKey w k s = (r, s')" by force
  have "markers (t\<lparr>template_db_built := filter (\<lambda>r. \<not> (tb_worktree r = w \<and> tb_key r = k)) (template_db_built t)\<rparr>) =
      markers t |` {(w', k', en', conn'). \<not> (w' = w \<and> k' = k)}" for t
    by (subst markers_filter [where P = "\<lambda>(w', k', en', conn'). \<not> (w' = w \<and> k' = k)"]) (auto simp: tbKey_def)
  then show "case ClearTemplateBuiltForKey w k s of
      (Inr _, s') \<Rightarrow> markers (tables s') = markers (tables s) |` {(w', k', en', conn'). \<not> (w' = w \<and> k' = k)}
    | (Inl _, s') \<Rightarrow> tables s' = tables s"
    using execT_alone [OF assms clr [unfolded ClearTemplateBuiltForKey_def]] unfolding clr by (cases r) (auto dest: sym)
next
  obtain r s' where clr: "ClearTemplateBuiltForWorktree w s = (r, s')" by force
  have "markers (t\<lparr>template_db_built := filter (\<lambda>r. tb_worktree r \<noteq> w) (template_db_built t)\<rparr>) =
      markers t |` {(w', k', en', conn'). w' \<noteq> w}" for t
    by (subst markers_filter [where P = "\<lambda>(w', k', en', conn'). w' \<noteq> w"]) (auto simp: tbKey_def)
  then show "case ClearTemplateBuiltForWorktree w s of
      (Inr _, s') \<Rightarrow> markers (tables s') = markers (tables s) |` {(w', k', en', conn'). w' \<noteq> w}
    | (Inl _, s') \<Rightarrow> tables s' = tables s"
    using execT_alone [OF assms clr [unfolded ClearTemplateBuiltForWorktree_def]] unfolding clr by (cases r) (auto dest: sym)
next
  obtain r s' where get: "GetTemplateBuilt w k en conn s = (r, s')" by force
  show "case GetTemplateBuilt w k en conn s of
      (Inr found, s') \<Rightarrow> found = markers (tables s) (w, k, en, conn) \<and> tables s' = tables s
    | (Inl _, s') \<Rightarrow> tables s' = tables s"
    using Query_alone [OF assms get [unfolded GetTemplateBuilt_def]] unfolding get
    by (cases r) (auto simp: markers_def)
qed

theorem built_markers_refine_map_witness:
  "\<exists>s'. SetTemplateBuilt 1 ''a'' ''mysql'' [] ''f'' \<lparr>tables = \<lparr>template_db_built = [], tb_worktrees = [1]\<rparr>, clock = 0, script = []\<rparr> = (Inr (), s') \<and>
     markers (tables s') = [(1, ''a'', ''mysql'', []) \<mapsto> ''f'']"
proof -
  let ?s = "\<lparr>tables = \<lparr>template_db_built = [], tb_worktrees = [1]\<rparr>, clock = 0, script = []\<rparr> :: builtDB"
  have al: "alone ?s" by code_simp
  have "fst (SetTemplateBuilt 1 ''a'' ''mysql'' [] ''f'' ?s) = Inr ()" by code_simp
  then obtain s' where run: "SetTemplateBuilt 1 ''a'' ''mysql'' [] ''f'' ?s = (Inr (), s')" by (metis prod.collapse)
  have "markers (tables ?s) = Map.empty" by (auto simp: markers_def builtAt_def)
  then show ?thesis
    using conjunct1 [OF built_markers_refine_map [OF al, of 1 "''a''" "''mysql''" "[]" "''f''"]] unfolding run by simp
qed

end
