(* ===== verification/Prepare.thy ===== *)
theory Prepare
  imports FanOut TemplateBuilt SnapshotGC
begin

text \<open>
  The templated path of the prepare engine, \<open>internal/prepare/prepare.go\<close>: the cache-hit fast path with its built-at
  gate, the incremental, rollback and dump-only builds, the shared tail that snapshots, records and
  fans out, and the flow of one database.  The steps of the configuration (migrate, seed, rollback),
  the walk of the inputs and the driver's primitives are parameters; another prepare of the same
  fingerprint shows up as the answer of \<open>waitForBuild\<close> and as statements in the store's script.
\<close>

section \<open>Model\<close>

subsection \<open>Data\<close>

record Outcome =
  o_engine :: string
  o_source :: string
  o_template :: string
  o_fingerprint :: string
  o_cache_hit :: bool
  o_clones :: "string list"
  o_decision :: string
  o_skipped :: bool
  o_base :: string

definition noOutcome :: Outcome where
  "noOutcome = \<lparr>o_engine = [], o_source = [], o_template = [], o_fingerprint = [], o_cache_hit = False, o_clones = [],
     o_decision = [], o_skipped = False, o_base = []\<rparr>"

text \<open>
  The state of a prepare: the engine with the run's context and events, the snapshot rows, the built-at markers, the
  pins, the map of the builds in flight in this process with the channel of each (\<open>pw_chans\<close> says of every channel made
  whether it is closed), and for each look at the map whether another prepare of the fingerprint has begun by then.
\<close>

record 'e prepWorld =
  pw_run :: "'e world"
  pw_snaps :: snapDB
  pw_built :: builtDB
  pw_pins :: pinState
  pw_flights :: "string \<rightharpoonup> nat"
  pw_chans :: "bool list"
  pw_busy :: "bool list"

definition onRun :: "('e world, 'a) action \<Rightarrow> ('e prepWorld, 'a) action" where
  "onRun m w = (case m (pw_run w) of (r, v) \<Rightarrow> (r, w\<lparr>pw_run := v\<rparr>))"

definition onSnaps :: "(snapDB, 'a) action \<Rightarrow> ('e prepWorld, 'a) action" where
  "onSnaps m w = (case m (pw_snaps w) of (r, v) \<Rightarrow> (r, w\<lparr>pw_snaps := v\<rparr>))"

definition onBuilt :: "(builtDB, 'a) action \<Rightarrow> ('e prepWorld, 'a) action" where
  "onBuilt m w = (case m (pw_built w) of (r, v) \<Rightarrow> (r, w\<lparr>pw_built := v\<rparr>))"

abbreviation emit :: "string \<Rightarrow> string \<Rightarrow> ('e prepWorld, unit) action" where
  "emit level typ \<equiv> onRun (writeEvent level typ)"

abbreviation onDriver :: "('e, 'a) action \<Rightarrow> ('e prepWorld, 'a) action" where
  "onDriver m \<equiv> onRun (Retry.onEngine m)"

text \<open>\<open>unpin := snapshot.Pin(fp); defer unpin()\<close>\<close>

definition withPin :: "string \<Rightarrow> ('e prepWorld, 'a) action \<Rightarrow> ('e prepWorld, 'a) action" where
  "withPin fp m w =
     (let h = length (handles (pw_pins w))
      in case m (w\<lparr>pw_pins := Pin fp (pw_pins w)\<rparr>) of (r, v) \<Rightarrow> (r, v\<lparr>pw_pins := release h (pw_pins v)\<rparr>))"

record 'e incrementalOps =
  op_exists :: "string \<Rightarrow> ('e, bool) action"
  op_snapshotRestore :: "'e restorer"
  op_snapshotRestoreFanout :: "'e restorer option"
  op_snapshotCreate :: "string \<Rightarrow> string \<Rightarrow> ('e, unit) action"

type_synonym 'e step = "string \<Rightarrow> string \<Rightarrow> ('e, int) action"

text \<open>
  One database entry and its run.  A step is \<open>runner.Run\<close> with the path of its log and its target, and the exit code as
  its result; the dumps are what \<open>dumpsReady\<close> gives; \<open>pa_detected\<close> and \<open>pa_cpus\<close> are the counts of \<open>testfw\<close>.
\<close>

record 'e prepArgs =
  pa_db :: DatabaseConfig
  pa_ctx :: Context
  pa_wtPath :: string
  pa_repo :: int
  pa_worktree :: int
  pa_hash :: slug_env
  pa_procs :: int
  pa_sched :: schedule
  pa_detected :: u32
  pa_cpus :: u32
  pa_hasDump :: bool
  pa_dumps :: "go_error + dumpFile list"
  pa_migrate :: "'e step option"
  pa_seed :: "'e step option"
  pa_rollback :: "(nat \<Rightarrow> 'e step) option"
  pa_lockfileGlobs :: "string list"
  pa_version :: string
  pa_maxConns :: int

subsection \<open>Clone names\<close>

fun cloneLoop :: "string \<Rightarrow> Context \<Rightarrow> nat list \<Rightarrow> go_error + string list" where
  "cloneLoop tmpl c [] = Inr []"
| "cloneLoop tmpl c (i # is) =
     (case Render tmpl (WithN (int i) c) of
        Inl e \<Rightarrow> Inl (Wrapf ''render paratest name_template: '' (renderFailed e) [])
      | Inr name \<Rightarrow> (case cloneLoop tmpl c is of Inl e \<Rightarrow> Inl e | Inr rest \<Rightarrow> Inr (name # rest)))"

definition cloneCount :: "TestClonesSpec \<Rightarrow> u32 \<Rightarrow> u32 \<Rightarrow> u32" where
  "cloneCount p detected cpus =
     (if Auto (tcClones p) then if detected = 0 then cpus else detected else Fixed (tcClones p))"

definition resolveCloneNames ::
  "TestClonesSpec option \<Rightarrow> Context \<Rightarrow> u32 \<Rightarrow> u32 \<Rightarrow> go_error + string list" where
  "resolveCloneNames p c detected cpus =
     (case p of
        None \<Rightarrow> Inr []
      | Some spec \<Rightarrow> cloneLoop (tcNameTemplate spec) c [1..<unat (cloneCount spec detected cpus) + 1])"

definition resolveClones :: "'e prepArgs \<Rightarrow> ('e prepWorld, string list) action" where
  "resolveClones a =
     (case resolveCloneNames (d_test_clones (pa_db a)) (pa_ctx a) (pa_detected a) (pa_cpus a) of
        Inl e \<Rightarrow> raiseA e
      | Inr cs \<Rightarrow> returnA cs)"

subsection \<open>Rows and markers\<close>

definition recordTemplateBuilt :: "'e prepArgs \<Rightarrow> string \<Rightarrow> string \<Rightarrow> ('e prepWorld, unit) action" where
  "recordTemplateBuilt a source fp =
     wrapA (\<lambda>e. Wrapf (''record that '' @ d_engine (pa_db a) @ '' '' @ source @ '' was built at '' @ fp @ '': '') e [])
       (onBuilt (SetTemplateBuilt (pa_worktree a) source (d_engine (pa_db a)) (d_connection (pa_db a)) fp))"

definition liveSnapshot ::
  "(string \<Rightarrow> ('e, bool) action) \<Rightarrow> string \<Rightarrow> SnapshotRecord \<Rightarrow> ('e prepWorld, bool) action" where
  "liveSnapshot exists en row =
     bindA (wrapA (\<lambda>e. Wrapf (''probe '' @ en @ '' template '' @ sn_template row @ '': '') e [])
             (onDriver (exists (sn_template row)))) (\<lambda>alive.
       if alive then returnA True
       else
         bindA (wrapA (\<lambda>e. Wrapf (''forget '' @ en @ '' snapshot '' @ sn_template row @ '' whose template is gone: '') e [])
                 (onSnaps (DeleteSnapshot (sn_fingerprint row)))) (\<lambda>_. returnA False))"

fun allExist :: "(string \<Rightarrow> ('e, bool) action) \<Rightarrow> string \<Rightarrow> string list \<Rightarrow> ('e prepWorld, bool) action" where
  "allExist exists en [] = returnA True"
| "allExist exists en (t # ts) =
     bindA (wrapA (\<lambda>e. Wrapf (''probe '' @ en @ '' '' @ t @ '': '') e []) (onDriver (exists t))) (\<lambda>present.
       if \<not> present then returnA False else allExist exists en ts)"

text \<open>The source and the clones that are not the source.\<close>

definition targetsOf :: "string \<Rightarrow> string list \<Rightarrow> string list" where
  "targetsOf source clones = source # filter (\<lambda>c. c \<noteq> source) clones"

definition templateBuiltTargets ::
  "'e prepArgs \<Rightarrow> (string \<Rightarrow> ('e, bool) action) \<Rightarrow> string \<Rightarrow> string list \<Rightarrow> string \<Rightarrow> ('e prepWorld, bool) action" where
  "templateBuiltTargets a exists source clones fp =
     (let en = d_engine (pa_db a)
      in bindA (wrapA (\<lambda>e. Wrapf (''read the built-at fingerprint of '' @ en @ '' '' @ source @ '': '') e [])
                 (onBuilt (GetTemplateBuilt (pa_worktree a) source en (d_connection (pa_db a))))) (\<lambda>built.
           if built \<noteq> Some fp then returnA False else allExist exists en (targetsOf source clones)))"

text \<open>
  The builds in flight.  A wait ends when the other build has finished: its slot is gone and its channel closed.
\<close>

definition buildFlightKey :: "string \<Rightarrow> string \<Rightarrow> string" where
  "buildFlightKey en fp = en @ ''/'' @ fp"

definition closeChan :: "nat \<Rightarrow> bool list \<Rightarrow> bool list" where
  "closeChan ch chans = chans[ch := True]"

definition waitForBuild :: "string \<Rightarrow> string \<Rightarrow> ('e prepWorld, bool) action" where
  "waitForBuild en fp w =
     (let key = buildFlightKey en fp; v = w\<lparr>pw_busy := tl (pw_busy w)\<rparr>
      in case pw_flights w key of
           Some ch \<Rightarrow> (Inr True, v\<lparr>pw_flights := (pw_flights w)(key := None), pw_chans := closeChan ch (pw_chans w)\<rparr>)
         | None \<Rightarrow> (Inr (pw_busy w \<noteq> [] \<and> hd (pw_busy w)), v))"

definition lookupCachedSnapshot :: "string \<Rightarrow> string \<Rightarrow> ('e prepWorld, SnapshotRecord option) action" where
  "lookupCachedSnapshot en fp =
     (let look = wrapA (\<lambda>e. Wrapf (''look up the '' @ en @ '' snapshot '' @ fp @ '': '') e [])
                   (onSnaps (LookupAndTouchSnapshot fp))
      in bindA look (\<lambda>row.
           if row \<noteq> None then returnA row
           else
             bindA (emit ''info'' ''snapshots:cache:miss'') (\<lambda>_.
             bindA (waitForBuild en fp) (\<lambda>waited. if \<not> waited then returnA None else look))))"

text \<open>
  A build is in flight from \<open>beginBuild\<close> until \<open>finish\<close>; the zero flight releases nothing.  The slot of a key that is
  already in flight is overwritten, and whoever finishes deletes the key, whosever channel it holds by then.
\<close>

definition beginBuild :: "string \<Rightarrow> string \<Rightarrow> ('e prepWorld, (string \<times> nat) option) action" where
  "beginBuild en fp w =
     (let key = buildFlightKey en fp; ch = length (pw_chans w)
      in (Inr (Some (key, ch)), w\<lparr>pw_flights := (pw_flights w)(key \<mapsto> ch), pw_chans := pw_chans w @ [False]\<rparr>))"

definition finish :: "(string \<times> nat) option \<Rightarrow> ('e prepWorld, unit) action" where
  "finish flight w =
     (case flight of
        None \<Rightarrow> (Inr (), w)
      | Some (key, ch) \<Rightarrow>
          if ch < length (pw_chans w) \<and> pw_chans w ! ch then (Inr (), w)
          else (Inr (), w\<lparr>pw_flights := (pw_flights w)(key := None), pw_chans := closeChan ch (pw_chans w)\<rparr>))"

subsection \<open>The cache-hit path\<close>

definition fanOut ::
  "'e prepArgs \<Rightarrow> 'e restorer \<Rightarrow> string \<Rightarrow> string list \<Rightarrow> ('e prepWorld, unit) action" where
  "fanOut a restore tmpl targets =
     onRun (fanOutClones (pa_procs a) (pa_sched a) restore tmpl targets (d_engine (pa_db a)) (d_fanout (pa_db a))
       (pa_maxConns a))"

text \<open>Whether the template turned out to be gone.\<close>

definition cacheHitRestoreAndFanout ::
  "'e prepArgs \<Rightarrow> (string \<Rightarrow> ('e, bool) action) \<Rightarrow> 'e restorer \<Rightarrow> string \<Rightarrow> string \<Rightarrow> string list \<Rightarrow> string \<Rightarrow>
     ('e prepWorld, bool) action" where
  "cacheHitRestoreAndFanout a exists restore tmpl source clones fp =
     bindA (tryA (fanOut a restore tmpl (targetsOf source clones))) (\<lambda>r.
       case r of
         Inr _ \<Rightarrow> returnA False
       | Inl fanoutErr \<Rightarrow>
           if isCancellation fanoutErr then raiseA fanoutErr
           else
             bindA (tryA (onDriver (exists tmpl))) (\<lambda>alive.
               case alive of
                 Inl existsErr \<Rightarrow>
                   raiseA (Wrapf2 (''restore from '' @ tmpl @ '': '') fanoutErr '' (probe template: '' existsErr '')'')
               | Inr True \<Rightarrow> raiseA (Wrapf (''restore from cached template '' @ tmpl @ '': '') fanoutErr [])
               | Inr False \<Rightarrow>
                   bindA (emit ''warn'' ''snapshots:cache:fallback'') (\<lambda>_.
                   bindA (wrapA (\<lambda>e. Wrapf (''forget '' @ d_engine (pa_db a) @ '' snapshot '' @ tmpl @
                                         '' whose template is gone: '') e [])
                           (onSnaps (DeleteSnapshot fp))) (\<lambda>_. returnA True))))"

definition hitOutcome :: "'e prepArgs \<Rightarrow> string \<Rightarrow> string \<Rightarrow> string \<Rightarrow> string list \<Rightarrow> Outcome" where
  "hitOutcome a source tmpl fp clones =
     noOutcome\<lparr>o_engine := d_engine (pa_db a), o_source := source, o_template := tmpl, o_fingerprint := fp,
       o_cache_hit := True, o_clones := clones\<rparr>"

text \<open>The outcome, whether the caller is done, and the flight it must finish.\<close>

definition missed :: "'e prepArgs \<Rightarrow> string \<Rightarrow> ('e prepWorld, Outcome \<times> bool \<times> (string \<times> nat) option) action" where
  "missed a fp = bindA (beginBuild (d_engine (pa_db a)) fp) (\<lambda>flight. returnA (noOutcome, False, flight))"

definition cacheHitGeneric ::
  "'e prepArgs \<Rightarrow> (string \<Rightarrow> ('e, bool) action) \<Rightarrow> 'e restorer \<Rightarrow> string \<Rightarrow> string \<Rightarrow>
     ('e prepWorld, Outcome \<times> bool \<times> (string \<times> nat) option) action" where
  "cacheHitGeneric a exists restore source fp =
     (let en = d_engine (pa_db a)
      in bindA (lookupCachedSnapshot en fp) (\<lambda>found.
         case found of
           None \<Rightarrow> missed a fp
         | Some row \<Rightarrow>
             bindA (liveSnapshot exists en row) (\<lambda>alive.
               if \<not> alive then bindA (emit ''info'' ''snapshots:cache:miss'') (\<lambda>_. missed a fp)
               else
                 bindA (emit ''info'' ''snapshots:cache:hit'') (\<lambda>_.
                 bindA (resolveClones a) (\<lambda>clones.
                 bindA (templateBuiltTargets a exists source clones fp) (\<lambda>restored.
                   if restored then
                     bindA (emit ''info'' ''prepare:end'') (\<lambda>_.
                       returnA (hitOutcome a source (sn_template row) fp clones, True, None))
                   else
                     bindA (cacheHitRestoreAndFanout a exists restore (sn_template row) source clones fp) (\<lambda>gone.
                       if gone then missed a fp
                       else
                         bindA (recordTemplateBuilt a source fp) (\<lambda>_.
                         bindA (emit ''info'' ''prepare:end'') (\<lambda>_.
                           returnA (hitOutcome a source (sn_template row) fp clones, True, None)))))))))) "

subsection \<open>Steps of a build\<close>

text \<open>The log of a step, under the worktree: none without a worktree path.\<close>

definition noSlash :: "string \<Rightarrow> string" where
  "noSlash t = map (\<lambda>c. if c = SLASH then CHR ''_'' else c) t"

definition runnerLogPath :: "string \<Rightarrow> string \<Rightarrow> string \<Rightarrow> string \<Rightarrow> string" where
  "runnerLogPath wtPath en lbl target =
     (if wtPath = [] then []
      else Join2 wtPath (''.treeman-hooks/prepare-'' @ en @ ''-'' @ lbl @ ''-'' @ noSlash target @ ''.log''))"

abbreviation logOf :: "'e prepArgs \<Rightarrow> string \<Rightarrow> string \<Rightarrow> string" where
  "logOf a lbl target \<equiv> runnerLogPath (pa_wtPath a) (d_engine (pa_db a)) lbl target"

text \<open>\<open>runPhase\<close>: run a step with its log, turn a non-zero exit into a step error.\<close>

definition runPhase :: "'e prepArgs \<Rightarrow> string \<Rightarrow> string \<Rightarrow> 'e step \<Rightarrow> ('e prepWorld, unit) action" where
  "runPhase a target phase step =
     bindA (wrapA (\<lambda>e. Wrapf (phase @ '' '' @ target @ '': '') e []) (onDriver (step (logOf a phase target) target))) (\<lambda>code.
       if code \<noteq> 0 then
         bindA (emit ''error'' ''prepare:error'') (\<lambda>_. raiseA (StepError (phase @ '' source'') target code))
       else emit ''info'' ''prepare:phase'')"

definition stepFailure :: "string \<Rightarrow> string \<Rightarrow> go_error + int \<Rightarrow> go_error option" where
  "stepFailure phase target r =
     (case r of
        Inl err \<Rightarrow> Some (Wrapf (phase @ '' '' @ target @ '': '') err [])
      | Inr code \<Rightarrow> if code \<noteq> 0 then Some (StepError phase target code) else None)"

text \<open>The connection of the key is not copied into the row.\<close>

definition recordSnapshot ::
  "'e prepArgs \<Rightarrow> Key \<Rightarrow> string \<Rightarrow> string \<Rightarrow> inputMap \<Rightarrow> ('e prepWorld, unit) action" where
  "recordSnapshot a key source tmpl inputs =
     wrapA (\<lambda>e. Wrapf (''record '' @ d_engine (pa_db a) @ '' snapshot '' @ tmpl @ '' of '' @ source @ '': '') e [])
       (onSnaps (RecordSnapshot
         \<lparr>sn_fingerprint = Fingerprint (pa_hash a) key, sn_engine = d_engine (pa_db a), sn_engine_version = pa_version a,
          sn_source_db = source, sn_template = tmpl, sn_migrations_hash = k_migrations key, sn_dump_hash = k_dump key,
          sn_lockfiles = k_lockfiles key, sn_connection = [], sn_inputs = inputs, sn_size = 0, sn_created = 0,
          sn_used = 0, sn_uses = 0, sn_repo = pa_repo a\<rparr>))"

definition vectorDelta :: "inputMap \<Rightarrow> inputMap \<Rightarrow> nat" where
  "vectorDelta ancestor current =
     sum_list (map (\<lambda>(glob, curVec). length curVec - length (vectorOf ancestor glob)) current)"

definition dumpOnlySnapshotKey :: "string \<Rightarrow> string \<Rightarrow> string \<Rightarrow> string \<Rightarrow> Key" where
  "dumpOnlySnapshotKey en conn version dumpHash = New en version conn [] [] dumpHash [(DumpOnlyMarkerKey, ''1'')]"

definition fanoutRestore :: "'e incrementalOps \<Rightarrow> 'e restorer" where
  "fanoutRestore ops =
     (case op_snapshotRestoreFanout ops of Some r \<Rightarrow> r | None \<Rightarrow> op_snapshotRestore ops)"

definition seedDumpOnlyTemplate ::
  "'e prepArgs \<Rightarrow> 'e incrementalOps \<Rightarrow> string \<Rightarrow> Key \<Rightarrow> nat \<Rightarrow> ('e prepWorld, unit) action" where
  "seedDumpOnlyTemplate a ops source dumpKey dumpCount =
     (if dumpCount = 0 \<or> pa_migrate a = None then returnA ()
      else
        let dumpTpl = TemplateName (pa_hash a) dumpKey;
            create =
              bindA (tryA (onDriver (op_snapshotCreate ops source dumpTpl))) (\<lambda>r.
                if isl r then emit ''warn'' ''prepare:dumponly:fallback''
                else bindA (emit ''info'' ''prepare:phase'') (\<lambda>_. recordSnapshot a dumpKey source dumpTpl []))
        in bindA (wrapA (\<lambda>e. Wrapf (''look up the dump-only '' @ d_engine (pa_db a) @ '' template '' @ dumpTpl @ '': '') e [])
                   (onSnaps (LookupSnapshot (Fingerprint (pa_hash a) dumpKey)))) (\<lambda>found.
             case found of
               None \<Rightarrow> create
             | Some row \<Rightarrow>
                 bindA (tryA (onDriver (op_exists ops (sn_template row)))) (\<lambda>alive.
                   if alive = Inr True then returnA () else create)))"

text \<open>The shared tail: snapshot the source, record it, fan out the clones.\<close>

definition snapshotTail ::
  "string \<Rightarrow> 'e prepArgs \<Rightarrow> 'e incrementalOps \<Rightarrow> string \<Rightarrow> string \<Rightarrow> Key \<Rightarrow> inputMap \<Rightarrow> ('e prepWorld, string list) action" where
  "snapshotTail lbl a ops source tmpl key inputs =
     bindA (wrapA (\<lambda>e. Wrapf (lbl @ source @ '' '' @ [CHR 0xE2, CHR 0x86, CHR 0x92] @ '' '' @ tmpl @ '': '') e [])
             (onDriver (op_snapshotCreate ops source tmpl))) (\<lambda>_.
     bindA (emit ''info'' ''prepare:phase'') (\<lambda>_.
     bindA (recordSnapshot a key source tmpl inputs) (\<lambda>_.
     bindA (resolveClones a) (\<lambda>clones.
     bindA (fanOut a (fanoutRestore ops) tmpl clones) (\<lambda>_.
       returnA clones)))))"

definition snapshotRecordFanout ::
  "'e prepArgs \<Rightarrow> 'e incrementalOps \<Rightarrow> string \<Rightarrow> string \<Rightarrow> Key \<Rightarrow> inputMap \<Rightarrow> ('e prepWorld, string list) action" where
  "snapshotRecordFanout = snapshotTail ''snapshot create ''"

definition builtOutcome :: "'e prepArgs \<Rightarrow> string \<Rightarrow> string \<Rightarrow> Key \<Rightarrow> string list \<Rightarrow> string \<Rightarrow> Outcome" where
  "builtOutcome a source tmpl key clones base =
     noOutcome\<lparr>o_engine := d_engine (pa_db a), o_source := source, o_template := tmpl,
       o_fingerprint := Fingerprint (pa_hash a) key, o_clones := clones, o_base := base\<rparr>"

subsection \<open>Builds from an earlier template\<close>

definition commandsHashOf :: "Key \<Rightarrow> string" where
  "commandsHashOf key = mapStr (k_lockfiles key) CommandsHashKey"

definition tryIncrementalBuild ::
  "'e prepArgs \<Rightarrow> 'e incrementalOps \<Rightarrow> string \<Rightarrow> string \<Rightarrow> Key \<Rightarrow> inputMap \<Rightarrow> ('e prepWorld, Outcome \<times> bool) action" where
  "tryIncrementalBuild a ops source tmpl key inputs =
     bindA (wrapA (\<lambda>e. Wrapf (''find an ancestor '' @ d_engine (pa_db a) @ '' snapshot: '') e [])
             (onSnaps (FindAncestorSnapshot (pa_repo a) (d_engine (pa_db a)) (pa_version a) (k_dump key)
               (commandsHashOf key) inputs))) (\<lambda>found.
       case found of
         None \<Rightarrow> returnA (noOutcome, False)
       | Some anc \<Rightarrow>
           withPin (sn_fingerprint anc)
             (bindA (liveSnapshot (op_exists ops) (d_engine (pa_db a)) anc) (\<lambda>live.
                if \<not> live then returnA (noOutcome, False)
                else
                  bindA (emit ''info'' ''prepare:incremental:start'') (\<lambda>_.
                  bindA (tryA (onDriver (op_snapshotRestore ops (sn_template anc) source))) (\<lambda>r.
                    if isl r then
                      bindA (emit ''warn'' ''prepare:incremental:fallback'') (\<lambda>_. returnA (noOutcome, False))
                    else
                      bindA (emit ''info'' ''prepare:phase'') (\<lambda>_.
                      bindA (case pa_migrate a of
                               None \<Rightarrow> returnA ()
                             | Some step \<Rightarrow>
                                 bindA (wrapA (\<lambda>e. Wrapf (''incremental migrate '' @ source @ '': '') e []) (onDriver (step (logOf a ''migrate'' source) source)))
                                   (\<lambda>code.
                                      if code \<noteq> 0 then
                                        bindA (emit ''error'' ''prepare:error'') (\<lambda>_.
                                          raiseA (StepError ''incremental migrate'' source code))
                                      else emit ''info'' ''prepare:phase'')) (\<lambda>_.
                      bindA (snapshotTail ''incremental snapshot create '' a ops source tmpl key inputs) (\<lambda>clones.
                      bindA (emit ''info'' ''prepare:end'') (\<lambda>_.
                        returnA (builtOutcome a source tmpl key clones (sn_fingerprint anc), True))))))))))"

definition tryDumpOnlyBuild ::
  "'e prepArgs \<Rightarrow> 'e incrementalOps \<Rightarrow> string \<Rightarrow> string \<Rightarrow> Key \<Rightarrow> Key \<Rightarrow> inputMap \<Rightarrow> ('e prepWorld, Outcome \<times> bool) action" where
  "tryDumpOnlyBuild a ops source tmpl key dumpKey inputs =
     (case pa_migrate a of
        None \<Rightarrow> returnA (noOutcome, False)
      | Some migrate \<Rightarrow>
          if \<not> pa_hasDump a then returnA (noOutcome, False)
          else
            bindA (wrapA (\<lambda>e. Wrapf (''look up the dump-only '' @ d_engine (pa_db a) @ '' snapshot: '') e [])
                    (onSnaps (LookupAndTouchSnapshot (Fingerprint (pa_hash a) dumpKey)))) (\<lambda>found.
              case found of
                None \<Rightarrow> returnA (noOutcome, False)
              | Some anc \<Rightarrow>
                  withPin (sn_fingerprint anc)
                    (bindA (liveSnapshot (op_exists ops) (d_engine (pa_db a)) anc) (\<lambda>live.
                       if \<not> live then returnA (noOutcome, False)
                       else
                         bindA (emit ''info'' ''prepare:dumponly:start'') (\<lambda>_.
                         bindA (tryA (onDriver (op_snapshotRestore ops (sn_template anc) source))) (\<lambda>r.
                           if isl r then
                             bindA (emit ''warn'' ''prepare:dumponly:fallback'') (\<lambda>_. returnA (noOutcome, False))
                           else
                             bindA (emit ''info'' ''prepare:phase'') (\<lambda>_.
                             bindA (runPhase a source ''migrate'' migrate) (\<lambda>_.
                             bindA (case pa_seed a of None \<Rightarrow> returnA () | Some seed \<Rightarrow> runPhase a source ''seed'' seed) (\<lambda>_.
                             bindA (snapshotRecordFanout a ops source tmpl key inputs) (\<lambda>clones.
                             bindA (emit ''info'' ''prepare:end'') (\<lambda>_.
                               returnA (builtOutcome a source tmpl key clones (sn_fingerprint anc), True))))))))))))"

text \<open>
  A step of the rollback path: its failure is abandoned for a cold build, unless the command does not exist.  The
  result says whether to go on.
\<close>

definition rollbackStep ::
  "string \<Rightarrow> string \<Rightarrow> string \<Rightarrow> 'e step \<Rightarrow> ('e prepWorld, bool) action" where
  "rollbackStep phase source log step =
     bindA (tryA (onDriver (step log source))) (\<lambda>r.
       case stepFailure phase source r of
         Some err \<Rightarrow>
           if IsCommandNotFound err then raiseA err
           else bindA (emit ''warn'' ''prepare:rollback:fallback'') (\<lambda>_. returnA False)
       | None \<Rightarrow> bindA (emit ''info'' ''prepare:phase'') (\<lambda>_. returnA True))"

definition andThen :: "('e prepWorld, bool) action \<Rightarrow> ('e prepWorld, Outcome \<times> bool) action \<Rightarrow> ('e prepWorld, Outcome \<times> bool) action" where
  "andThen m k = bindA m (\<lambda>go. if go then k else returnA (noOutcome, False))"

definition tryRollbackIncrementalBuild ::
  "'e prepArgs \<Rightarrow> 'e incrementalOps \<Rightarrow> string \<Rightarrow> string \<Rightarrow> Key \<Rightarrow> inputMap \<Rightarrow> ('e prepWorld, Outcome \<times> bool) action" where
  "tryRollbackIncrementalBuild a ops source tmpl key inputs =
     (case pa_migrate a of
        None \<Rightarrow> returnA (noOutcome, False)
      | Some migrate \<Rightarrow>
          if pa_rollback a = None \<and> pa_lockfileGlobs a = [] then returnA (noOutcome, False)
          else
            bindA (wrapA (\<lambda>e. Wrapf (''find a rollback ancestor '' @ d_engine (pa_db a) @ '' snapshot: '') e [])
                    (onSnaps (FindRollbackAncestor (pa_repo a) (d_engine (pa_db a)) (pa_version a) (k_dump key)
                      (commandsHashOf key) (pa_lockfileGlobs a) inputs))) (\<lambda>found.
              case found of (ancestor, steps) \<Rightarrow>
                (case ancestor of
                   None \<Rightarrow> returnA (noOutcome, False)
                 | Some anc \<Rightarrow>
                     if 0 < steps \<and> pa_rollback a = None then returnA (noOutcome, False)
                     else
                       withPin (sn_fingerprint anc)
                         (bindA (liveSnapshot (op_exists ops) (d_engine (pa_db a)) anc) (\<lambda>live.
                            if \<not> live then returnA (noOutcome, False)
                            else
                              bindA (emit ''info'' ''prepare:rollback:start'') (\<lambda>_.
                              bindA (tryA (onDriver (op_snapshotRestore ops (sn_template anc) source))) (\<lambda>r.
                                if isl r then
                                  bindA (emit ''warn'' ''prepare:rollback:fallback'') (\<lambda>_. returnA (noOutcome, False))
                                else
                                  andThen (case pa_rollback a of
                                             Some rb \<Rightarrow> if 0 < steps then rollbackStep ''rollback'' source (logOf a ''rollback'' source) (rb steps) else returnA True
                                           | None \<Rightarrow> returnA True)
                                 (andThen (rollbackStep ''re-migrate'' source (logOf a ''migrate'' source) migrate)
                                 (andThen (case pa_seed a of None \<Rightarrow> returnA True | Some seed \<Rightarrow> rollbackStep ''seed'' source (logOf a ''seed'' source) seed)
                                 (bindA (snapshotRecordFanout a ops source tmpl key inputs) (\<lambda>clones.
                                  bindA (emit ''info'' ''prepare:end'') (\<lambda>_.
                                    returnA (builtOutcome a source tmpl key clones (sn_fingerprint anc), True)))))))))))))"

end
