(* ===== verification/PrepareRun.thy ===== *)
theory PrepareRun
  imports Prepare
begin

text \<open>
  One database from start to end and a whole run, \<open>internal/prepare/prepare.go\<close>: the Postgres flow
  (the other networked engines follow it), the file engine's flow over the modelled file system, the dispatch
  by family and \<open>RunFiltered\<close>.  The source runs the databases of a run in parallel, one goroutine each; here they run in
  any order, given by a schedule, one as a whole after the other.  What the other goroutines write into the store in
  the middle of a database's prepare is part of the scripts of the store, as for every other process.
\<close>

section \<open>Model\<close>

text \<open>\<open>defer f()\<close>\<close>

definition finallyA :: "('s, 'a) action \<Rightarrow> ('s, unit) action \<Rightarrow> ('s, 'a) action" where
  "finallyA m f w = (case m w of (r, v) \<Rightarrow> (r, snd (f v)))"

subsection \<open>Postgres\<close>

record 'e pgDriver =
  pg_exists :: "string \<Rightarrow> ('e, bool) action"
  pg_snapshotRestore :: "'e restorer"
  pg_snapshotCreate :: "string \<Rightarrow> string \<Rightarrow> ('e, unit) action"
  pg_drop :: "string \<Rightarrow> ('e, unit) action"
  pg_ensure :: "string \<Rightarrow> ('e, unit) action"
  pg_openScoped :: "string \<Rightarrow> ('e, unit) action"
  pg_load :: "string \<Rightarrow> dumpFile \<Rightarrow> ('e, unit) action"

definition phases :: "'e prepArgs \<Rightarrow> string \<Rightarrow> ('e prepWorld, unit) action" where
  "phases a source =
     bindA (case pa_migrate a of None \<Rightarrow> returnA () | Some m \<Rightarrow> runPhase a source ''migrate'' m) (\<lambda>_.
       case pa_seed a of None \<Rightarrow> returnA () | Some s \<Rightarrow> runPhase a source ''seed'' s)"

definition pgOps :: "'e pgDriver \<Rightarrow> 'e incrementalOps" where
  "pgOps P = \<lparr>op_exists = pg_exists P, op_snapshotRestore = pg_snapshotRestore P, op_snapshotRestoreFanout = None,
     op_snapshotCreate = pg_snapshotCreate P\<rparr>"

definition postgresColdBuildSteps ::
  "'e prepArgs \<Rightarrow> 'e pgDriver \<Rightarrow> string \<Rightarrow> Key \<Rightarrow> ('e prepWorld, unit) action" where
  "postgresColdBuildSteps a P source dumpKey =
     bindA (onDriver (pg_drop P source)) (\<lambda>_.
     bindA (emit ''info'' ''db:drop'') (\<lambda>_.
     bindA (onDriver (pg_ensure P source)) (\<lambda>_.
       case pa_dumps a of
         Inl e \<Rightarrow> raiseA e
       | Inr ds \<Rightarrow>
           bindA (if ds = [] then returnA ()
                  else
                    bindA (onDriver (pg_openScoped P source)) (\<lambda>_.
                      forA (\<lambda>dr.
                        bindA (wrapA (\<lambda>e. Wrapf (''load dump '' @ dumpPath dr @ '': '') e []) (onDriver (pg_load P source dr))) (\<lambda>_.
                          emit ''info'' ''prepare:phase'')) ds)) (\<lambda>_.
           bindA (seedDumpOnlyTemplate a (pgOps P) source dumpKey (length ds)) (\<lambda>_.
             phases a source)))))"

text \<open>
  \<open>pp_conn\<close> is \<open>ResolvePostgres\<close> (no connection block: skipped), \<open>pp_key\<close> the result of \<open>computeKeyAndVectors\<close>,
  \<open>pp_restore\<close> what \<open>restoreFor\<close> picked, \<open>pp_branch\<close> the arguments of the branch-scoped path.
\<close>

record 'e pgRun =
  pp_args :: "'e prepArgs"
  pp_driver :: "'e pgDriver"
  pp_conn :: "go_error + bool"
  pp_connect :: "('e, unit) action"
  pp_key :: "go_error + (Key \<times> inputMap)"
  pp_restore :: "'e restorer"
  pp_branch :: "'e branchScopedArgs"

definition liftResultP :: "go_error + 'a \<Rightarrow> ('s, 'a) action" where
  "liftResultP r = (case r of Inl e \<Rightarrow> raiseA e | Inr x \<Rightarrow> returnA x)"

definition emitPrepareSkipped :: "'e prepArgs \<Rightarrow> string \<Rightarrow> ('e prepWorld, Outcome) action" where
  "emitPrepareSkipped a source =
     bindA (emit ''info'' ''prepare:skip'') (\<lambda>_.
       returnA (noOutcome\<lparr>o_engine := d_engine (pa_db a), o_source := source, o_skipped := True\<rparr>))"

definition runBranchScopedAt :: "'e pgRun \<Rightarrow> ('e prepWorld, Outcome) action" where
  "runBranchScopedAt P =
     bindA (liftResultP (pp_key P)) (\<lambda>ki.
     bindA (onRun (runBranchScoped ((pp_branch P)\<lparr>migrateFP := Fingerprint (pa_hash (pp_args P)) (fst ki)\<rparr>))) (\<lambda>r.
       returnA (noOutcome\<lparr>o_engine := d_engine (pa_db (pp_args P)), o_source := fst r, o_decision := snd r\<rparr>)))"

text \<open>\<open>out, done, err = try(...); if done || err != nil { return out, err }\<close>\<close>

definition orElse :: "('s, Outcome \<times> bool) action \<Rightarrow> ('s, Outcome) action \<Rightarrow> ('s, Outcome) action" where
  "orElse m k = bindA m (\<lambda>r. if snd r then returnA (fst r) else k)"

definition postgresBuild :: "'e pgRun \<Rightarrow> string \<Rightarrow> Key \<Rightarrow> inputMap \<Rightarrow> ('e prepWorld, Outcome) action" where
  "postgresBuild P source key inputs =
     (let a = pp_args P; D = pp_driver P; ops = pgOps D; tmpl = TemplateName (pa_hash a) key;
          dumpKey = dumpOnlySnapshotKey (d_engine (pa_db a)) (d_connection (pa_db a)) (pa_version a) (k_dump key)
      in orElse (tryIncrementalBuild a ops source tmpl key inputs)
        (orElse (tryRollbackIncrementalBuild a ops source tmpl key inputs)
        (orElse (tryDumpOnlyBuild a ops source tmpl key dumpKey inputs)
          (bindA (postgresColdBuildSteps a D source dumpKey) (\<lambda>_.
           bindA (snapshotRecordFanout a ops source tmpl key inputs) (\<lambda>clones.
           bindA (emit ''info'' ''prepare:end'') (\<lambda>_.
             returnA (builtOutcome a source tmpl key clones []))))))))"

definition preparePostgres :: "'e pgRun \<Rightarrow> ('e prepWorld, Outcome) action" where
  "preparePostgres P =
     (let a = pp_args P; D = pp_driver P
      in case Render (d_name_template (pa_db a)) (pa_ctx a) of
           Inl e \<Rightarrow> raiseA (Wrapf ''render name_template: '' (renderFailed e) [])
         | Inr source \<Rightarrow>
             bindA (liftResultP (pp_conn P)) (\<lambda>configured.
               if \<not> configured then emitPrepareSkipped a source
               else
                 bindA (onDriver (pp_connect P)) (\<lambda>_.
                   if d_branch_scoped (pa_db a) then runBranchScopedAt P
                   else
                     bindA (liftResultP (pp_key P)) (\<lambda>(key, inputs).
                       let fp = Fingerprint (pa_hash a) key
                       in withPin fp
                            (bindA (emit ''info'' ''prepare:start'') (\<lambda>_.
                             bindA (cacheHitGeneric a (pg_exists D) (pp_restore P) source fp) (\<lambda>(out, done, flight).
                               finallyA
                                 (if done then returnA out else postgresBuild P source key inputs)
                                 (finish flight))))))))"

subsection \<open>A run over the databases\<close>

record RunOptions =
  OnlyDBIndex :: int
  FilterDBs :: bool
  Fresh :: bool

definition Includes :: "RunOptions \<Rightarrow> nat \<Rightarrow> bool" where
  "Includes opts idx \<longleftrightarrow> \<not> FilterDBs opts \<or> OnlyDBIndex opts = int idx"

record DBError =
  de_index :: nat
  de_engine :: string
  de_err :: go_error

text \<open>The name of each database in this run; \<open>base_of\<close> is the base directory of a connection of the file engines.\<close>

fun dbNames ::
  "(string \<Rightarrow> string) \<Rightarrow> string \<Rightarrow> Context \<Rightarrow> nat \<Rightarrow> DatabaseConfig list \<Rightarrow> go_error + string list" where
  "dbNames base_of wtPath c i [] = Inr []"
| "dbNames base_of wtPath c i (d # ds) =
     (let fam = Canonical (d_engine d);
          byPrefix = (case fam of Some f \<Rightarrow> Family_Scope f = ScopePrefix | None \<Rightarrow> False);
          (tmpl, fld) = (if byPrefix then (d_key_prefix d, ''key_prefix'') else (d_name_template d, ''name_template''))
      in case Render tmpl c of
           Inl e \<Rightarrow> Inl (Wrapf (''databases['' @ Itoa (int i) @ ''].'' @ fld @ '': '') (renderFailed e) [])
         | Inr name \<Rightarrow>
             (case (if fam = Some FamilyFile then SourcePath (base_of (d_connection d)) wtPath name else Inr name) of
                Inl e \<Rightarrow> Inl (Wrapf (''databases['' @ Itoa (int i) @ '']: '') e [])
              | Inr n \<Rightarrow> (case dbNames base_of wtPath c (i + 1) ds of Inl e \<Rightarrow> Inl e | Inr ns \<Rightarrow> Inr (n # ns))))"

definition withDBNamespaces ::
  "(string \<Rightarrow> string) \<Rightarrow> string \<Rightarrow> DatabaseConfig list \<Rightarrow> Context \<Rightarrow> go_error + Context" where
  "withDBNamespaces base_of wtPath dbs c = map_sum id (\<lambda>ns. c\<lparr>cDBs := ns\<rparr>) (dbNames base_of wtPath c 0 dbs)"

text \<open>
  \<open>rn_family\<close> is the prepare path of a family for the database at an index, in the context of the run, and \<open>rn_order\<close> the
  order in which its goroutines get to run.
\<close>

record 'e runEnv =
  rn_dbs :: "DatabaseConfig list"
  rn_ctx :: Context
  rn_wtPath :: string
  rn_base_of :: "string \<Rightarrow> string"
  rn_worktree :: int
  rn_lock :: "go_error + unit"
  rn_order :: "nat list"
  rn_family :: "Context \<Rightarrow> Family \<Rightarrow> nat \<Rightarrow> ('e prepWorld, Outcome) action"

definition prepareOneEngine :: "'e runEnv \<Rightarrow> Context \<Rightarrow> nat \<Rightarrow> DatabaseConfig \<Rightarrow> ('e prepWorld, Outcome) action" where
  "prepareOneEngine R c i d =
     (case Canonical (d_engine d) of
        None \<Rightarrow> bindA (emit ''warn'' ''prepare:unsupported'') (\<lambda>_. returnA noOutcome)
      | Some fam \<Rightarrow> rn_family R c fam i)"

definition runDatabase :: "'e runEnv \<Rightarrow> Context \<Rightarrow> nat \<Rightarrow> DatabaseConfig \<Rightarrow> ('e prepWorld, Outcome) action" where
  "runDatabase R c i d =
     bindA (prepareOneEngine R c i d) (\<lambda>out.
       if \<not> o_cache_hit out \<and> o_fingerprint out \<noteq> [] \<and> o_source out \<noteq> [] then
         bindA (wrapA (\<lambda>e. Wrapf (''record that '' @ d_engine d @ '' '' @ o_source out @ '' was built at '' @ o_fingerprint out @ '': '') e [])
                 (onBuilt (SetTemplateBuilt (rn_worktree R) (o_source out) (d_engine d) (d_connection d) (o_fingerprint out)))) (\<lambda>_.
           returnA out)
       else returnA out)"

text \<open>The order in which a schedule lets the goroutines run: each entry picks one of those left.\<close>

fun arrange :: "nat list \<Rightarrow> 'a list \<Rightarrow> 'a list" where
  "arrange [] xs = xs"
| "arrange (p # ps) xs =
     (if xs = [] then []
      else let i = p mod length xs in xs ! i # arrange ps (take i xs @ drop (i + 1) xs))"

type_synonym finished = "nat \<times> DatabaseConfig \<times> (go_error + Outcome)"

fun runGoroutines :: "'e runEnv \<Rightarrow> Context \<Rightarrow> (nat \<times> DatabaseConfig) list \<Rightarrow> ('e prepWorld, finished list) action" where
  "runGoroutines R c [] = returnA []"
| "runGoroutines R c ((i, d) # js) =
     bindA (tryA (runDatabase R c i d)) (\<lambda>r.
     bindA (runGoroutines R c js) (\<lambda>rs. returnA ((i, d, r) # rs)))"

text \<open>
  The arrays \<open>results\<close> and \<open>errs\<close>, one slot for each database (an unset result is \<open>hasResult\<close> being false), as the finished
  goroutines fill them, and the slots read in the order of the configuration.
\<close>

fun fillSlots :: "finished list \<Rightarrow> Outcome option list \<times> DBError option list \<Rightarrow> Outcome option list \<times> DBError option list" where
  "fillSlots [] slots = slots"
| "fillSlots ((i, d, r) # rs) (results, errs) =
     (case r of
        Inr out \<Rightarrow> fillSlots rs (results[i := Some out], errs)
      | Inl err \<Rightarrow> fillSlots rs (results, errs[i := Some \<lparr>de_index = i, de_engine = d_engine d, de_err = err\<rparr>]))"

definition setSlots :: "'a option list \<Rightarrow> 'a list" where
  "setSlots xs = List.map_filter id xs"

definition included :: "RunOptions \<Rightarrow> DatabaseConfig list \<Rightarrow> (nat \<times> DatabaseConfig) list" where
  "included opts dbs = filter (\<lambda>x. Includes opts (fst x)) (enumerate 0 dbs)"

definition runDatabases ::
  "'e runEnv \<Rightarrow> RunOptions \<Rightarrow> Context \<Rightarrow> ('e prepWorld, Outcome list \<times> DBError list) action" where
  "runDatabases R opts c =
     bindA (runGoroutines R c (arrange (rn_order R) (included opts (rn_dbs R)))) (\<lambda>rs.
       let n = length (rn_dbs R); (results, errs) = fillSlots rs (replicate n None, replicate n None)
       in returnA (setSlots results, setSlots errs))"

text \<open>The outcomes that landed and the failures; the source returns a \<open>RunError\<close> when there is a failure.\<close>

definition RunFiltered :: "'e runEnv \<Rightarrow> RunOptions \<Rightarrow> ('e prepWorld, Outcome list \<times> DBError list) action" where
  "RunFiltered R opts =
     bindA (wrapA (\<lambda>e. Wrapf ''wait for concurrent prepare: '' e []) (liftResultP (rn_lock R))) (\<lambda>_.
     bindA (if Fresh opts then
              wrapA (\<lambda>e. Wrapf (''clear built-at fingerprints of worktree '' @ Itoa (rn_worktree R) @ '' for a fresh prepare: '') e [])
                (onBuilt (ClearTemplateBuiltForWorktree (rn_worktree R)))
            else returnA ()) (\<lambda>_.
     bindA (liftResultP (withDBNamespaces (rn_base_of R) (rn_wtPath R) (rn_dbs R) (rn_ctx R))) (\<lambda>c.
       runDatabases R opts c)))"

definition RecoverDBIndices :: "DBError list \<Rightarrow> nat list" where
  "RecoverDBIndices failed = map de_index (filter (\<lambda>f. \<not> IsCommandNotFound (de_err f)) failed)"

end
