(* ===== verification/PrepareFile.thy ===== *)
theory PrepareFile
  imports PrepareRun FileDb
begin

text \<open>
  The prepare of a file-backed database, \<open>prepareFileEngine\<close> of \<open>internal/prepare/prepare.go\<close>, over the modelled file
  system: the cold build, the snapshot and the clones are copies of files.  The SQL engine that
  executes a text dump is a parameter.
\<close>

section \<open>Model\<close>

text \<open>
  \<open>ff_base\<close> is the base directory of the entry's connection (empty without one), \<open>ff_applySQL\<close> is \<open>ApplySQLDump\<close>, and
  \<open>ff_key\<close> the result of \<open>computeKeyAndVectors\<close>.
\<close>

record fileRun =
  ff_args :: "fs prepArgs"
  ff_base :: string
  ff_wtPath :: string
  ff_key :: "go_error + (Key \<times> inputMap)"
  ff_applySQL :: "string \<Rightarrow> string \<Rightarrow> (fs, unit) action"

text \<open>The calls of this engine pass an empty version and no connection limit.\<close>

definition fileArgs :: "fileRun \<Rightarrow> fs prepArgs" where
  "fileArgs F = (ff_args F)\<lparr>pa_wtPath := ff_wtPath F, pa_version := [], pa_maxConns := 0\<rparr>"

text \<open>
  \<open>runner.Run\<close> on the files: the log is created first, then the command runs, and what it prints lands in the log.  The
  command \<open>sh -c\<close> is a parameter that gives its exit code and its output, or fails to start; a log that cannot be
  written is an error unless the command has failed on its own.
\<close>

definition runnerRun :: "string \<Rightarrow> (string \<Rightarrow> (fs, int \<times> string) action) \<Rightarrow> fs step" where
  "runnerRun lbl cmd log target =
     bindA (if log = [] then returnA ()
            else
              bindA (wrapA (\<lambda>e. Wrapf (lbl @ '' log dir: '') e []) (MkdirAll (Dir log))) (\<lambda>_.
                wrapA (\<lambda>e. Wrapf (lbl @ '' log open: '') e []) (OpenTrunc log))) (\<lambda>_.
     bindA (cmd target) (\<lambda>(code, output).
     bindA (tryA (if log = [] then returnA () else writeBytes log output)) (\<lambda>r.
     bindA (if log = [] then returnA () else ignoreA Close) (\<lambda>_.
       case r of
         Inl err \<Rightarrow> if code \<noteq> 0 then returnA code else raiseA err
       | Inr _ \<Rightarrow> returnA code))))"

definition resolveFile :: "fileRun \<Rightarrow> string \<Rightarrow> go_error + string" where
  "resolveFile F name = (if IsAbs name then Inr name else SourcePath (ff_base F) (ff_wtPath F) name)"

definition fileExists :: "fileRun \<Rightarrow> string \<Rightarrow> (fs, bool) action" where
  "fileExists F name = bindA (liftResultP (resolveFile F name)) Exists"

definition fileRestore :: "fileRun \<Rightarrow> fs restorer" where
  "fileRestore F tmpl target = bindA (liftResultP (resolveFile F target)) (CopyDatabase tmpl)"

fun sourcePaths :: "fileRun \<Rightarrow> string list \<Rightarrow> go_error + string list" where
  "sourcePaths F [] = Inr []"
| "sourcePaths F (r # rs) =
     (case SourcePath (ff_base F) (ff_wtPath F) r of
        Inl e \<Rightarrow> Inl e
      | Inr p \<Rightarrow> (case sourcePaths F rs of Inl e \<Rightarrow> Inl e | Inr ps \<Rightarrow> Inr (p # ps)))"

definition fileCloneNames :: "fileRun \<Rightarrow> go_error + string list" where
  "fileCloneNames F =
     (let a = fileArgs F
      in case resolveCloneNames (d_test_clones (pa_db a)) (pa_ctx a) (pa_detected a) (pa_cpus a) of
           Inl e \<Rightarrow> Inl e
         | Inr rendered \<Rightarrow> sourcePaths F rendered)"

fun resolveClonePaths :: "fileRun \<Rightarrow> string list \<Rightarrow> go_error + string list" where
  "resolveClonePaths F [] = Inr []"
| "resolveClonePaths F (c # cs) =
     (case resolveFile F c of
        Inl e \<Rightarrow> Inl (Wrapf (''resolve clone '' @ c @ '': '') e [])
      | Inr p \<Rightarrow> (case resolveClonePaths F cs of Inl e \<Rightarrow> Inl e | Inr ps \<Rightarrow> Inr (p # ps)))"

text \<open>The template and the siblings are removed on a best effort, the source must go.\<close>

definition removeSiblings :: "string \<Rightarrow> (fs, unit) action" where
  "removeSiblings source =
     bindA (tryA (CloneSiblings (Dir source) (filepath_Base source))) (\<lambda>r.
       case r of Inl _ \<Rightarrow> returnA () | Inr sibs \<Rightarrow> forA (\<lambda>s. ignoreA (RemoveDatabase s)) sibs)"

definition loadFileDump :: "fileRun \<Rightarrow> string \<Rightarrow> dumpFile \<Rightarrow> (fs, unit) action" where
  "loadFileDump F source dr =
     wrapA (\<lambda>e. Wrapf (''load dump '' @ dumpPath dr @ '': '') e [])
       (if HasSuffix (lower_ascii (dumpPath dr)) ''.sql'' then ff_applySQL F source (dumpPath dr)
        else CopyDatabase (dumpPath dr) source)"

definition fileColdBuildSteps :: "fileRun \<Rightarrow> string \<Rightarrow> string \<Rightarrow> (fs prepWorld, unit) action" where
  "fileColdBuildSteps F source tmpl =
     bindA (onDriver (RemoveDatabase source)) (\<lambda>_.
     bindA (onDriver (ignoreA (RemoveDatabase tmpl))) (\<lambda>_.
     bindA (onDriver (removeSiblings source)) (\<lambda>_.
     bindA (emit ''info'' ''db:drop'') (\<lambda>_.
       case pa_dumps (fileArgs F) of
         Inl e \<Rightarrow> raiseA e
       | Inr ds \<Rightarrow>
           bindA (forA (\<lambda>dr. bindA (onDriver (loadFileDump F source dr)) (\<lambda>_. emit ''info'' ''prepare:phase'')) ds) (\<lambda>_.
             phases (fileArgs F) source)))))"

text \<open>Snapshot, record, fan out: the clones of a build are absolute paths.\<close>

definition fileSnapshotFanout ::
  "fileRun \<Rightarrow> string \<Rightarrow> string \<Rightarrow> Key \<Rightarrow> inputMap \<Rightarrow> (fs prepWorld, string list) action" where
  "fileSnapshotFanout F source tmpl key inputs =
     (let a = fileArgs F
      in bindA (wrapA (\<lambda>e. Wrapf (''file snapshot create '' @ source @ '' '' @ [CHR 0xE2, CHR 0x86, CHR 0x92] @ '' '' @ tmpl @ '': '') e [])
                  (onDriver (CopyDatabase source tmpl))) (\<lambda>_.
         bindA (emit ''info'' ''prepare:phase'') (\<lambda>_.
         bindA (recordSnapshot a key source tmpl inputs) (\<lambda>_.
         bindA (liftResultP (fileCloneNames F)) (\<lambda>clones.
         bindA (fanOut a (fileRestore F) tmpl clones) (\<lambda>_.
           returnA clones))))))"

definition fileBuild :: "fileRun \<Rightarrow> string \<Rightarrow> string \<Rightarrow> Key \<Rightarrow> inputMap \<Rightarrow> (fs prepWorld, Outcome) action" where
  "fileBuild F source tmpl key inputs =
     bindA (fileColdBuildSteps F source tmpl) (\<lambda>_.
     bindA (fileSnapshotFanout F source tmpl key inputs) (\<lambda>clones.
     bindA (emit ''info'' ''prepare:end'') (\<lambda>_.
       returnA (builtOutcome (fileArgs F) source tmpl key clones []))))"

definition fileHit :: "fileRun \<Rightarrow> Outcome \<Rightarrow> (fs prepWorld, Outcome) action" where
  "fileHit F out = bindA (liftResultP (resolveClonePaths F (o_clones out))) (\<lambda>ps. returnA (out\<lparr>o_clones := ps\<rparr>))"

definition fileTemplated :: "fileRun \<Rightarrow> string \<Rightarrow> Key \<Rightarrow> inputMap \<Rightarrow> (fs prepWorld, Outcome) action" where
  "fileTemplated F source key inputs =
     (let a = fileArgs F; fp = Fingerprint (pa_hash a) key; tmpl = TemplatePath source fp
      in withPin fp
           (bindA (emit ''info'' ''prepare:start'') (\<lambda>_.
            bindA (cacheHitGeneric a (fileExists F) (fileRestore F) source fp) (\<lambda>(out, done, flight).
              finallyA
                (if done then fileHit F out else fileBuild F source tmpl key inputs)
                (finish flight)))))"

definition prepareFileEngine :: "fileRun \<Rightarrow> (fs prepWorld, Outcome) action" where
  "prepareFileEngine F =
     (let a = fileArgs F
      in case Render (d_name_template (pa_db a)) (pa_ctx a) of
           Inl e \<Rightarrow> raiseA (Wrapf ''render name_template: '' (renderFailed e) [])
         | Inr rendered \<Rightarrow>
             bindA (liftResultP (SourcePath (ff_base F) (ff_wtPath F) rendered)) (\<lambda>source.
             bindA (liftResultP (ff_key F)) (\<lambda>(key, inputs).
               fileTemplated F source key inputs)))"

end
