(* ===== verification/PrepareProps.thy ===== *)
theory PrepareProps
  imports PrepareFile
begin

text \<open>
  What a prepare keeps: every pin and every build slot it takes is given back whatever fails, a row is forgotten only
  when its template is gone, and every database of a run is run and reported whatever the others do.
\<close>

section \<open>Pins and build slots\<close>

text \<open>Every handle taken meanwhile has been released.\<close>

definition samePins :: "pinState \<Rightarrow> pinState \<Rightarrow> bool" where
  "samePins p q \<longleftrightarrow> (pinInv p \<longrightarrow> pinInv q \<and> pinCount q = pinCount p) \<and>
     (\<exists>more. handles q = handles p @ more \<and> (\<forall>h \<in> set more. \<not> snd h))"

text \<open>The builds in flight are the same.\<close>

definition heldSame :: "'e prepWorld \<Rightarrow> 'e prepWorld \<Rightarrow> bool" where
  "heldSame w w' \<longleftrightarrow> pw_flights w' = pw_flights w \<and> pw_chans w' = pw_chans w \<and> samePins (pw_pins w) (pw_pins w')"

text \<open>
  The builds in flight after a prepare that may build under one key: those of the other keys are there as before, this
  key has the slot it had or none, every channel made meanwhile is closed, and of the channels there
  were before none changed but that of the build the prepare has waited for.
\<close>

definition slotsBack :: "string \<Rightarrow> 'e prepWorld \<Rightarrow> 'e prepWorld \<Rightarrow> bool" where
  "slotsBack key w w' \<longleftrightarrow>
     (\<forall>k. k \<noteq> key \<longrightarrow> pw_flights w' k = pw_flights w k) \<and>
     (pw_flights w' key = pw_flights w key \<or> pw_flights w' key = None) \<and>
     length (pw_chans w) \<le> length (pw_chans w') \<and>
     (\<forall>ch. length (pw_chans w) \<le> ch \<and> ch < length (pw_chans w') \<longrightarrow> pw_chans w' ! ch) \<and>
     (\<forall>ch < length (pw_chans w). pw_chans w' ! ch = pw_chans w ! ch \<or> pw_flights w key = Some ch \<and> pw_chans w' ! ch)"

definition balanced :: "string \<Rightarrow> 'e prepWorld \<Rightarrow> 'e prepWorld \<Rightarrow> bool" where
  "balanced key w w' \<longleftrightarrow> slotsBack key w w' \<and> samePins (pw_pins w) (pw_pins w')"

lemma samePins_refl: "samePins p p"
  by (simp add: samePins_def)

lemma samePins_trans: "samePins p q \<Longrightarrow> samePins q r \<Longrightarrow> samePins p r"
  by (auto simp: samePins_def)

lemma heldSame_refl: "reflp heldSame"
  by (simp add: reflp_def heldSame_def samePins_refl)

lemma heldSame_trans: "transp heldSame"
  by (rule transpI) (auto simp: heldSame_def intro: samePins_trans)

lemma slotsBack_refl: "slotsBack key w w"
  by (auto simp: slotsBack_def)

lemma slotsBack_empty: "slotsBack key w w' \<Longrightarrow> pw_flights w = Map.empty \<Longrightarrow> pw_flights w' = Map.empty"
  unfolding slotsBack_def by (metis ext)

lemma slotsBack_trans:
  assumes "slotsBack key w v" "slotsBack key v u"
  shows "slotsBack key w u"
  unfolding slotsBack_def
proof (intro conjI allI impI)
  fix ch assume ch: "length (pw_chans w) \<le> ch \<and> ch < length (pw_chans u)"
  show "pw_chans u ! ch"
    using assms ch unfolding slotsBack_def by (cases "ch < length (pw_chans v)") auto
next
  fix ch assume ch: "ch < length (pw_chans w)"
  show "pw_chans u ! ch = pw_chans w ! ch \<or> pw_flights w key = Some ch \<and> pw_chans u ! ch"
    using assms ch unfolding slotsBack_def by (metis less_le_trans option.distinct(1))
qed (use assms in \<open>auto simp: slotsBack_def\<close>)

lemma balanced_refl: "reflp (balanced key)"
  by (simp add: reflp_def balanced_def samePins_refl slotsBack_refl)

lemma balanced_trans: "transp (balanced key)"
  by (rule transpI) (auto simp: balanced_def intro: samePins_trans slotsBack_trans)

lemma heldSame_balanced: "heldSame w w' \<Longrightarrow> balanced key w w'"
  by (auto simp: heldSame_def balanced_def slotsBack_def)

lemma samePins_released:
  assumes "samePins (Pin fp p) q"
  shows "samePins p (release (length (handles p)) q)"
proof -
  obtain more where more: "handles q = handles p @ (fp, fp \<noteq> []) # more" "\<forall>h \<in> set more. \<not> snd h"
    using assms by (auto simp: samePins_def Pin_def split: if_splits)
  have idx: "handles q ! length (handles p) = (fp, fp \<noteq> [])" "length (handles p) < length (handles q)"
    using more(1) by simp_all
  show ?thesis
  proof (cases "fp = []")
    case True
    then have "release (length (handles p)) q = q" "pinCount (Pin fp p) = pinCount p"
      using idx by (simp_all add: release_def Pin_def)
    then show ?thesis using assms more True Pin_inv [of p fp] by (auto simp: samePins_def)
  next
    case False
    have h: "handles (release (length (handles p)) q) = handles p @ (fp, False) # more"
      using idx more(1) False by (simp add: release_def Let_def list_update_append)
    have "pinInv (release (length (handles p)) q) \<and> pinCount (release (length (handles p)) q) = pinCount p" if inv: "pinInv p"
    proof -
      have "pinInv q" "pinCount q = pinCount (Pin fp p)" using assms Pin_inv [OF inv, of fp] by (auto simp: samePins_def)
      then have q: "pinInv q" "pinCount q = (pinCount p)(fp \<mapsto> countOf (pinCount p) fp + 1)"
        using False by (simp_all add: Pin_def)
      have cnt: "countOf (pinCount q) fp = countOf (pinCount p) fp + 1" by (simp add: q(2) countOf_def)
      have "pinCount p fp = (if countOf (pinCount p) fp = 0 then None else Some (countOf (pinCount p) fp))"
        and nonneg: "0 \<le> countOf (pinCount p) fp"
        using inv countOf_live [OF inv, of fp] by (auto simp: pinInv_def)
      then have "pinCount (release (length (handles p)) q) = pinCount p"
        using idx False q(2) cnt by (auto simp: release_def Let_def fun_eq_iff)
      then show ?thesis using release_inv [OF q(1)] by simp
    qed
    then show ?thesis using h more(2) by (auto simp: samePins_def)
  qed
qed

section \<open>Frames of the builds\<close>

lemma keeps_bool: "(b \<Longrightarrow> keeps R m) \<Longrightarrow> (\<not> b \<Longrightarrow> keeps R n) \<Longrightarrow> keeps R (case b of True \<Rightarrow> m | False \<Rightarrow> n)"
  by (cases b) simp_all

text \<open>A relation on the states of a prepare that every step on the engine and every event keeps.\<close>

locale run_frame =
  fixes R :: "'e prepWorld \<Rightarrow> 'e prepWorld \<Rightarrow> bool"
  assumes R_refl: "reflp R" and R_trans: "transp R" and R_run: "R w (w\<lparr>pw_run := u\<rparr>)"
begin

named_theorems frame

lemma frame_onRun [frame]: "keeps R (onRun m)"
  by (rule keepsI) (auto simp: onRun_def R_run split: prod.splits)

lemmas frame_basic [frame] = keeps_returnA [OF R_refl] keeps_raiseA [OF R_refl] keeps_bindA [OF R_trans]
  keeps_tryA keeps_wrapA keeps_ignoreA keeps_if keeps_option keeps_sum keeps_prod keeps_forA [OF R_refl R_trans]

lemma frame_runs [frame]:
  "keeps R (resolveClones a)" "keeps R (fanOut a restore tmpl targets)" "keeps R (runPhase a target phase step)" "keeps R (liftResultP x)"
  unfolding resolveClones_def fanOut_def runPhase_def liftResultP_def by (intro frame)+

lemma frame_phases [frame]: "keeps R (phases a source)" "keeps R (rollbackStep phase source log step)"
  unfolding phases_def rollbackStep_def by (intro frame)+

lemma frame_andThen [frame]: "keeps R m \<Longrightarrow> keeps R k \<Longrightarrow> keeps R (andThen m k)"
  unfolding andThen_def by (intro frame)

lemma frame_orElse [frame]: "keeps R m \<Longrightarrow> keeps R k \<Longrightarrow> keeps R (orElse m k)"
  unfolding orElse_def by (intro frame)

lemma frame_skipped [frame]: "keeps R (runBranchScopedAt Q)" "keeps R (emitPrepareSkipped a source)"
  unfolding runBranchScopedAt_def emitPrepareSkipped_def by (intro frame)+

end

text \<open>
  Where statements on the snapshot rows and every pin with its release keep it too, it is kept by the builds
  as a whole.
\<close>

locale prep_frame = run_frame R for R :: "'e prepWorld \<Rightarrow> 'e prepWorld \<Rightarrow> bool" +
  assumes R_snaps: "R w (w\<lparr>pw_snaps := d\<rparr>)"
    and R_pin: "R (w\<lparr>pw_pins := Pin fp (pw_pins w)\<rparr>) v \<Longrightarrow>
      R w (v\<lparr>pw_pins := release (length (handles (pw_pins w))) (pw_pins v)\<rparr>)"
begin

lemma frame_onSnaps [frame]: "keeps R (onSnaps m)"
  by (rule keepsI) (auto simp: onSnaps_def R_snaps split: prod.splits)

lemma frame_withPin [frame]: "keeps R m \<Longrightarrow> keeps R (withPin fp m)"
  by (rule keepsI) (auto simp: withPin_def Let_def split: prod.splits intro!: R_pin elim: keepsD)

lemma frame_steps [frame]:
  "keeps R (liveSnapshot exists en row)" "keeps R (recordSnapshot a key source tmpl inputs)"
  unfolding liveSnapshot_def recordSnapshot_def by (intro frame)+

lemma frame_restoreFanout [frame]: "keeps R (cacheHitRestoreAndFanout a exists restore tmpl source clones fp)"
  unfolding cacheHitRestoreAndFanout_def by (intro frame keeps_bool)

lemma frame_seedDumpOnly [frame]: "keeps R (seedDumpOnlyTemplate a ops source dumpKey n)"
  unfolding seedDumpOnlyTemplate_def Let_def by (intro frame)

lemma frame_tail [frame]:
  "keeps R (snapshotTail lbl a ops source tmpl key inputs)" "keeps R (snapshotRecordFanout a ops source tmpl key inputs)"
  unfolding snapshotTail_def snapshotRecordFanout_def by (intro frame)+

lemma frame_builds [frame]:
  "keeps R (tryIncrementalBuild a ops source tmpl key inputs)"
  "keeps R (tryDumpOnlyBuild a ops source tmpl key dumpKey inputs)"
  "keeps R (tryRollbackIncrementalBuild a ops source tmpl key inputs)"
  unfolding tryIncrementalBuild_def tryDumpOnlyBuild_def tryRollbackIncrementalBuild_def by (intro frame)+

lemma frame_postgresBuild [frame]:
  "keeps R (postgresColdBuildSteps a P source dumpKey)" "keeps R (postgresBuild Q source key inputs)"
  unfolding postgresBuild_def postgresColdBuildSteps_def Let_def by (intro frame)+

end

text \<open>The same for the file engine, whose state is the file system.\<close>

locale file_run_frame = run_frame R for R :: "fs prepWorld \<Rightarrow> fs prepWorld \<Rightarrow> bool"
begin

lemma frame_fileCold [frame]: "keeps R (fileColdBuildSteps F source tmpl)" "keeps R (fileHit F out)"
  unfolding fileColdBuildSteps_def fileHit_def by (intro frame)+

end

locale file_frame = prep_frame R + file_run_frame R for R :: "fs prepWorld \<Rightarrow> fs prepWorld \<Rightarrow> bool"
begin

lemma frame_fileBuild [frame]: "keeps R (fileSnapshotFanout F source tmpl key inputs)"
  unfolding fileSnapshotFanout_def Let_def by (intro frame)

lemma frame_fileBuild_all [frame]: "keeps R (fileBuild F source tmpl key inputs)"
  unfolding fileBuild_def by (intro frame)

end

section \<open>Nothing held is left behind\<close>

interpretation bal: prep_frame heldSame
proof
  show "reflp heldSame" by (rule heldSame_refl)
  show "transp heldSame" by (rule heldSame_trans)
  show "heldSame (w\<lparr>pw_pins := Pin fp (pw_pins w)\<rparr>) v \<Longrightarrow>
      heldSame w (v\<lparr>pw_pins := release (length (handles (pw_pins w))) (pw_pins v)\<rparr>)" for w v :: "'a prepWorld" and fp
    using samePins_released [of fp "pw_pins w" "pw_pins v"] by (simp add: heldSame_def)
qed (simp_all add: heldSame_def samePins_refl)

interpretation balf: file_frame heldSame ..

lemma held_onBuilt: "keeps heldSame (onBuilt m)"
  by (rule keepsI) (auto simp: onBuilt_def heldSame_def samePins_refl split: prod.splits)

lemma held_allExist: "keeps heldSame (allExist exists en ts)"
  by (induction ts) (auto intro!: bal.frame)

lemma held_markers: "keeps heldSame (templateBuiltTargets a exists source clones fp)" "keeps heldSame (recordTemplateBuilt a source fp)"
  unfolding templateBuiltTargets_def recordTemplateBuilt_def Let_def by (intro bal.frame held_onBuilt held_allExist)+

text \<open>What keeps the builds in flight is balanced for every key.\<close>

lemma held_balanced: "keeps heldSame m \<Longrightarrow> keeps (balanced key) m"
  by (erule keeps_mono) (rule heldSame_balanced)

interpretation slots: run_frame "balanced key" for key
  by unfold_locales (auto simp: balanced_refl balanced_trans balanced_def slotsBack_def samePins_refl)

lemma balanced_wait: "keeps (balanced (buildFlightKey en fp)) (waitForBuild en fp)"
proof (rule keepsI)
  fix w r w' assume run: "waitForBuild en fp w = (r, w')"
  show "balanced (buildFlightKey en fp) w w'"
  proof (cases "pw_flights w (buildFlightKey en fp)")
    case None
    then show ?thesis using run by (auto simp: waitForBuild_def Let_def balanced_def slotsBack_def samePins_refl)
  next
    case (Some ch)
    have new: "(pw_chans w)[ch := True] ! i = (if i = ch then True else pw_chans w ! i)" if "i < length (pw_chans w)" for i
      using that by simp
    show ?thesis using run Some by (auto simp: waitForBuild_def Let_def balanced_def slotsBack_def samePins_refl closeChan_def new split: if_splits)
  qed
qed

lemma balanced_lookup: "keeps (balanced (buildFlightKey en fp)) (lookupCachedSnapshot en fp)"
  unfolding lookupCachedSnapshot_def Let_def
  by (intro slots.frame balanced_wait held_balanced [OF bal.frame_onSnaps])

text \<open>An action that returns a flight has taken that build slot and no other.\<close>

definition settles :: "string \<Rightarrow> ('e prepWorld, 'a \<times> bool \<times> (string \<times> nat) option) action \<Rightarrow> bool" where
  "settles key m \<longleftrightarrow> (\<forall>w r w'. m w = (r, w') \<longrightarrow>
     (case r of Inl _ \<Rightarrow> balanced key w w' | Inr (_, _, flight) \<Rightarrow> balanced key w (snd (finish flight w'))))"

lemma settles_missed: "settles (buildFlightKey (d_engine (pa_db a)) fp) (missed a fp)"
  by (auto simp: settles_def missed_def bindA_def returnA_def beginBuild_def finish_def balanced_def slotsBack_def closeChan_def
      samePins_refl Let_def nth_append nth_list_update)

lemma settles_done: "settles key (returnA (out, d, None))"
  by (auto simp: settles_def returnA_def finish_def balanced_def slotsBack_refl samePins_refl)

lemma settles_bindA:
  assumes "keeps (balanced key) m" "\<And>x. settles key (f x)"
  shows "settles key (bindA m f)"
  unfolding settles_def
proof (intro allI impI)
  fix w r w' assume run: "bindA m f w = (r, w')"
  obtain x w1 where m: "m w = (x, w1)" by force
  have first: "balanced key w w1" by (rule keepsD [OF assms(1) m])
  show "case r of Inl _ \<Rightarrow> balanced key w w' | Inr (_, _, flight) \<Rightarrow> balanced key w (snd (finish flight w'))"
  proof (cases x)
    case (Inl e)
    then show ?thesis using run m first by (auto simp: bindA_def)
  next
    case (Inr y)
    then have "f y w1 = (r, w')" using run m by (simp add: bindA_def)
    then have "case r of Inl _ \<Rightarrow> balanced key w1 w' | Inr (_, _, flight) \<Rightarrow> balanced key w1 (snd (finish flight w'))"
      using assms(2) [of y] unfolding settles_def by blast
    then show ?thesis using transpD [OF balanced_trans first] by (auto split: sum.splits)
  qed
qed

lemma settles_cases:
  "(b \<Longrightarrow> settles key m) \<Longrightarrow> (\<not> b \<Longrightarrow> settles key n) \<Longrightarrow> settles key (if b then m else n)"
  "(x = None \<Longrightarrow> settles key m) \<Longrightarrow> (\<And>y. x = Some y \<Longrightarrow> settles key (g y)) \<Longrightarrow>
     settles key (case x of None \<Rightarrow> m | Some y \<Rightarrow> g y)"
  by (auto split: option.splits)

lemma settles_cacheHit: "settles (buildFlightKey (d_engine (pa_db a)) fp) (cacheHitGeneric a exists restore source fp)"
  unfolding cacheHitGeneric_def Let_def
  by (intro settles_cases settles_bindA settles_missed settles_done balanced_lookup slots.frame_onRun held_balanced
      bal.frame_steps bal.frame_runs bal.frame_restoreFanout held_markers)

lemma finish_held: "heldSame w w' \<Longrightarrow> heldSame (snd (finish flight w)) (snd (finish flight w'))"
  by (cases flight) (auto simp: heldSame_def finish_def split: prod.splits)

lemma settles_finally:
  assumes "settles key m" "\<And>out d. keeps heldSame (k out d)"
  shows "keeps (balanced key) (bindA m (\<lambda>(out, d, flight). finallyA (k out d) (finish flight)))"
proof (rule keepsI)
  fix w r w' assume run: "bindA m (\<lambda>(out, d, flight). finallyA (k out d) (finish flight)) w = (r, w')"
  obtain x w1 where m: "m w = (x, w1)" by force
  have settled: "case x of Inl _ \<Rightarrow> balanced key w w1 | Inr (_, _, flight) \<Rightarrow> balanced key w (snd (finish flight w1))"
    using assms(1) m unfolding settles_def by blast
  show "balanced key w w'"
  proof (cases x)
    case (Inl e)
    then show ?thesis using run m settled by (simp add: bindA_def)
  next
    case (Inr y)
    obtain out d flight where y: "y = (out, d, flight)" by (metis prod_cases3)
    obtain q w2 where k: "k out d w1 = (q, w2)" by force
    have w': "w' = snd (finish flight w2)" using run m Inr y k by (simp add: bindA_def finallyA_def)
    have "heldSame w1 w2" by (rule keepsD [OF assms(2) k])
    then have "balanced key (snd (finish flight w1)) w'" unfolding w' by (intro heldSame_balanced finish_held)
    then show ?thesis using settled transpD [OF balanced_trans] by (simp add: Inr y) blast
  qed
qed

lemma balanced_pin: "balanced key (w\<lparr>pw_pins := Pin fp (pw_pins w)\<rparr>) v \<Longrightarrow>
    balanced key w (v\<lparr>pw_pins := release (length (handles (pw_pins w))) (pw_pins v)\<rparr>)"
  using samePins_released [of fp "pw_pins w" "pw_pins v"] by (simp add: balanced_def slotsBack_def)

lemma balanced_withPin: "keeps (balanced key) m \<Longrightarrow> keeps (balanced key) (withPin fp m)"
  by (rule keepsI) (auto simp: withPin_def Let_def split: prod.splits intro!: balanced_pin elim: keepsD)

text \<open>The slot of a database: that of its engine and its fingerprint, none while the key cannot be computed.\<close>

definition slotOf :: "'e prepArgs \<Rightarrow> go_error + (Key \<times> inputMap) \<Rightarrow> string" where
  "slotOf a key = (case key of Inl _ \<Rightarrow> [] | Inr (k, _) \<Rightarrow> buildFlightKey (d_engine (pa_db a)) (Fingerprint (pa_hash a) k))"

lemma balanced_keyed:
  assumes "\<And>k i. key = Inr (k, i) \<Longrightarrow> keeps (balanced (buildFlightKey (d_engine (pa_db a)) (Fingerprint (pa_hash a) k))) (f (k, i))"
  shows "keeps (balanced (slotOf a key)) (bindA (liftResultP key) f)"
proof (cases key)
  case (Inl e)
  then show ?thesis by (auto simp: keeps_def liftResultP_def bindA_def raiseA_def intro: reflpD [OF balanced_refl])
next
  case (Inr y)
  then show ?thesis using assms [of "fst y" "snd y"]
    by (cases y) (auto simp: keeps_def liftResultP_def bindA_def returnA_def slotOf_def)
qed

lemma keeps_preparePostgres: "keeps (balanced (slotOf (pp_args P) (pp_key P))) (preparePostgres P)"
proof -
  have flow: "keeps (balanced (buildFlightKey (d_engine (pa_db (pp_args P))) fp))
      (withPin fp (bindA (emit ''info'' ''prepare:start'') (\<lambda>_.
         bindA (cacheHitGeneric (pp_args P) ex re source fp) (\<lambda>(out, d, flight).
           finallyA (if d then returnA out else postgresBuild P source key inputs) (finish flight)))))" for fp ex re source key inputs
    by (intro balanced_withPin keeps_bindA [OF balanced_trans] slots.frame_onRun settles_finally settles_cacheHit bal.frame)
  show ?thesis unfolding preparePostgres_def Let_def
    by (intro slots.frame_basic slots.frame_runs slots.frame_onRun slots.frame_skipped balanced_keyed) (simp add: flow)
qed

lemma keeps_fileTemplated:
  "keeps (balanced (buildFlightKey (d_engine (pa_db (fileArgs F))) (Fingerprint (pa_hash (fileArgs F)) key))) (fileTemplated F source key inputs)"
  unfolding fileTemplated_def Let_def
  by (intro balanced_withPin keeps_bindA [OF balanced_trans] slots.frame_onRun settles_finally settles_cacheHit bal.frame
      balf.frame_fileCold balf.frame_fileBuild_all)

lemma keeps_prepareFile: "keeps (balanced (slotOf (fileArgs F) (ff_key F))) (prepareFileEngine F)"
  unfolding prepareFileEngine_def Let_def
  by (intro slots.frame_basic slots.frame_runs balanced_keyed) (simp add: keeps_fileTemplated)

lemma balanced_gives_back:
  assumes "balanced key w w'" "pinReach (pw_pins w)"
  shows "slotsBack key w w'" "IsPinned fp (pw_pins w') = IsPinned fp (pw_pins w)"
  using assms pinReach_inv [OF assms(2)] by (auto simp: balanced_def samePins_def IsPinned_def)

text \<open>
  C18: Whatever fails on the way, a prepare gives back what it has taken.  Its build is no longer in flight: the map has
  no entry for the prepare's key, or the one it had before; the entries of all other keys are untouched, and
  the channel the prepare made is closed, so nobody waits on it.  Every fingerprint
  it has pinned against eviction (that of its template, and that of the ancestor it builds on) is as
  pinned as before.
\<close>

theorem prepare_gives_back:
  assumes "pinReach (pw_pins w)" "preparePostgres P w = (r, w')"
    and "pinReach (pw_pins v)" "prepareFileEngine F v = (q, v')"
  shows "slotsBack (slotOf (pp_args P) (pp_key P)) w w' \<and> (\<forall>fp. IsPinned fp (pw_pins w') = IsPinned fp (pw_pins w)) \<and>
    slotsBack (slotOf (fileArgs F) (ff_key F)) v v' \<and> (\<forall>fp. IsPinned fp (pw_pins v') = IsPinned fp (pw_pins v))"
  using balanced_gives_back [OF keepsD [OF keeps_preparePostgres assms(2)] assms(1)]
    balanced_gives_back [OF keepsD [OF keeps_prepareFile assms(4)] assms(3)] by blast

text \<open>
  A build that begins while another of the same key is in flight takes over its slot, and whichever finishes first
  deletes it: here the second has finished, the first is still building, and a third prepare would not wait.
\<close>

lemma overlapping_builds_share_slot:
  assumes "beginBuild en fp w = (Inr first, w1)" "beginBuild en fp w1 = (Inr second, w2)" "finish second w2 = (Inr u, w3)"
  shows "pw_flights w3 (buildFlightKey en fp) = None \<and> \<not> pw_chans w3 ! length (pw_chans w)"
  using assms by (auto simp: beginBuild_def finish_def Let_def closeChan_def nth_append)

definition freshPrep :: "'e \<Rightarrow> 'e prepWorld" where
  "freshPrep e =
     \<lparr>pw_run = \<lparr>engine = e, store = emptyStore, ctx = [], event_log = []\<rparr>,
      pw_snaps = \<lparr>tables = \<lparr>snapshots = [], snap_repos = []\<rparr>, clock = 0, script = []\<rparr>,
      pw_built = \<lparr>tables = \<lparr>template_db_built = [], tb_worktrees = [1]\<rparr>, clock = 0, script = []\<rparr>,
      pw_pins = noPins, pw_flights = Map.empty, pw_chans = [], pw_busy = []\<rparr>"

theorem prepare_gives_back_witness:
  "\<forall>(P :: unit pgRun) F fp. pw_flights (snd (preparePostgres P (freshPrep ()))) = Map.empty \<and>
     \<not> IsPinned fp (pw_pins (snd (preparePostgres P (freshPrep ())))) \<and>
     \<not> IsPinned fp (pw_pins (snd (prepareFileEngine F (freshPrep \<lparr>fs_files = [], fs_dirs = [''/w''], fs_faults = []\<rparr>))))"
proof (intro allI)
  fix P :: "unit pgRun" and F fp
  let ?w = "freshPrep ()" and ?v = "freshPrep \<lparr>fs_files = [], fs_dirs = [''/w''], fs_faults = []\<rparr>"
  have "pinReach (pw_pins ?w)" "pinReach (pw_pins ?v)" by (simp_all add: freshPrep_def pinReach.intros(1))
  note got = prepare_gives_back [OF this(1) surjective_pairing [of "preparePostgres P ?w"] this(2) surjective_pairing [of "prepareFileEngine F ?v"]]
  have "pw_flights (snd (preparePostgres P ?w)) = Map.empty"
    by (rule slotsBack_empty [OF conjunct1 [OF got]]) (simp add: freshPrep_def)
  moreover have "\<not> IsPinned fp (pw_pins ?w)" "\<not> IsPinned fp (pw_pins ?v)"
    by (simp_all add: freshPrep_def noPins_def IsPinned_def countOf_def)
  ultimately
  show "pw_flights (snd (preparePostgres P ?w)) = Map.empty \<and> \<not> IsPinned fp (pw_pins (snd (preparePostgres P ?w))) \<and>
     \<not> IsPinned fp (pw_pins (snd (prepareFileEngine F ?v)))"
    using got by blast
qed

section \<open>A cached template is forgotten only when it is gone\<close>

definition sameSnaps :: "'e prepWorld \<Rightarrow> 'e prepWorld \<Rightarrow> bool" where
  "sameSnaps w w' \<longleftrightarrow> pw_snaps w' = pw_snaps w"

interpretation rows: run_frame sameSnaps
  by unfold_locales (simp_all add: reflp_def transp_def sameSnaps_def)

lemma rows_kept: "keeps sameSnaps m \<Longrightarrow> m w = (r, w') \<Longrightarrow> pw_snaps w' = pw_snaps w"
  by (drule (1) keepsD) (simp add: sameSnaps_def)

text \<open>
  C19: A restore from a cached template that fails deletes the template's row only when the restore was not cancelled
  and a probe has found the template gone; while the template is there, or cannot be probed, the
  failure is reported and the row stays.
\<close>

theorem row_forgotten_only_when_gone:
  assumes "cacheHitRestoreAndFanout a exists restore tmpl source clones fp w = (r, w')"
    and "pw_snaps w' \<noteq> pw_snaps w"
  shows "\<exists>err w1 w2. fanOut a restore tmpl (targetsOf source clones) w = (Inl err, w1) \<and> \<not> isCancellation err \<and>
    onDriver (exists tmpl) w1 = (Inr False, w2) \<and> r \<noteq> Inr False"
proof -
  obtain q w1 where fan: "fanOut a restore tmpl (targetsOf source clones) w = (q, w1)" by force
  have s1: "pw_snaps w1 = pw_snaps w" by (rule rows_kept [OF rows.frame_runs(2) fan])
  obtain p w2 where probe: "onDriver (exists tmpl) w1 = (p, w2)" by force
  have s2: "pw_snaps w2 = pw_snaps w1" by (rule rows_kept [OF rows.frame_onRun probe])
  obtain err where err: "q = Inl err" "\<not> isCancellation err"
    using assms fan s1 by (cases q) (auto simp: cacheHitRestoreAndFanout_def bindA_def tryA_def returnA_def raiseA_def split: if_splits)
  have "p = Inr False"
    using assms fan err probe s1 s2
    by (cases p) (auto simp: cacheHitRestoreAndFanout_def bindA_def tryA_def raiseA_def split: bool.splits)
  moreover have "r \<noteq> Inr False"
    using assms(1) fan err probe \<open>p = Inr False\<close>
    by (auto simp: cacheHitRestoreAndFanout_def bindA_def tryA_def returnA_def split: sum.splits prod.splits)
  ultimately show ?thesis using fan err probe by blast
qed

definition gonePrep :: "unit prepArgs" where
  "gonePrep =
     \<lparr>pa_db = \<lparr>d_engine = ''postgres'', d_connection = [], d_name_template = ''a'', d_key_prefix = [], d_test_clones = None, d_fanout = 0,
        d_branch_scoped = False\<rparr>,
      pa_ctx = \<lparr>cSlug = [], cSlugDash = [], cSlugRedisQueue = [], cSlugRedisCache = [], cN = 0, HasN = False, cTargetDB = [],
        HasTargetDB = False, cPorts = Map.empty, cDBs = []\<rparr>,
      pa_wtPath = [], pa_repo = 0, pa_worktree = 1, pa_hash = \<lparr>blake3_Sum256 = \<lambda>_. [], slugSuffix = [], filepath_Abs = \<lambda>_. None\<rparr>, pa_procs = 2, pa_sched = [],
      pa_detected = 0, pa_cpus = 1, pa_hasDump = False, pa_dumps = Inr [], pa_migrate = None, pa_seed = None, pa_rollback = None,
      pa_lockfileGlobs = [], pa_version = [], pa_maxConns = 0\<rparr>"

definition goneWorld :: "unit prepWorld" where
  "goneWorld = (freshPrep ())\<lparr>pw_snaps := \<lparr>tables = \<lparr>snapshots = [sampleSnap ''f1'' ''h'' 1 1], snap_repos = [1]\<rparr>, clock = 5, script = []\<rparr>\<rparr>"

theorem row_forgotten_only_when_gone_witness:
  "\<exists>w1 w2. fanOut gonePrep (\<lambda>_ _. raiseA (NewError ''template missing'')) ''_tm_f1'' [''a''] goneWorld = (Inl (restoreError ''_tm_f1'' ''a'' (NewError ''template missing'')), w1) \<and>
     onDriver (\<lambda>e. (Inr False, e)) w1 = (Inr False, w2)"
proof -
  let ?run = "cacheHitRestoreAndFanout gonePrep (\<lambda>_. returnA False) (\<lambda>_ _. raiseA (NewError ''template missing'')) ''_tm_f1'' ''a'' [] ''f1'' goneWorld"
  have "snapshots (tables (pw_snaps (snd ?run))) = []" by code_simp
  moreover have "snapshots (tables (pw_snaps goneWorld)) = [sampleSnap ''f1'' ''h'' 1 1]" by (simp add: goneWorld_def)
  ultimately have "pw_snaps (snd ?run) \<noteq> pw_snaps goneWorld" by (metis list.discI)
  from row_forgotten_only_when_gone [OF surjective_pairing [of ?run] this]
  obtain err w1 w2 where got: "fanOut gonePrep (\<lambda>_ _. raiseA (NewError ''template missing'')) ''_tm_f1'' (targetsOf ''a'' []) goneWorld = (Inl err, w1)"
    "onDriver (returnA False) w1 = (Inr False, w2)" by (elim exE conjE)
  have "fst (fanOut gonePrep (\<lambda>_ _. raiseA (NewError ''template missing'')) ''_tm_f1'' (targetsOf ''a'' []) goneWorld) =
      Inl (restoreError ''_tm_f1'' ''a'' (NewError ''template missing''))" by code_simp
  then have "err = restoreError ''_tm_f1'' ''a'' (NewError ''template missing'')" using got(1) by simp
  moreover have "returnA False = (\<lambda>e :: unit. (Inr False :: go_error + bool, e))" by (rule ext) (simp add: returnA_def)
  ultimately show ?thesis using got by (auto simp: targetsOf_def)
qed

section \<open>Every database of a run is reported\<close>

lemma arrange_perm: "mset (arrange ps xs) = mset xs"
proof (induction ps xs rule: arrange.induct)
  case (2 p ps xs)
  show ?case
  proof (cases "xs = []")
    case False
    define i where "i = p mod length xs"
    have i: "i < length xs" using False by (simp add: i_def)
    have "mset xs = mset (take i xs @ xs ! i # drop (i + 1) xs)" using id_take_nth_drop [OF i] by simp
    then show ?thesis using 2 False i_def by (simp add: Let_def)
  qed simp
qed simp

lemma runGoroutines_entries:
  "\<exists>rs. fst (runGoroutines R c js w) = Inr rs \<and> map (\<lambda>(i, d, _). (i, d)) rs = js"
proof (induction R c js arbitrary: w rule: runGoroutines.induct)
  case (2 R c i d js)
  obtain r w1 where r: "runDatabase R c i d w = (r, w1)" by force
  obtain rs where rs: "fst (runGoroutines R c js w1) = Inr rs" "map (\<lambda>(i, d, _). (i, d)) rs = js" using 2 by blast
  then obtain w2 where "runGoroutines R c js w1 = (Inr rs, w2)" by (metis prod.collapse)
  then show ?case using r rs(2) by (simp add: bindA_def tryA_def returnA_def)
qed (simp add: returnA_def)

lemma fillSlots_nth:
  assumes "distinct (map fst rs)" "\<forall>x \<in> set rs. fst x < n"
    and "length results = n" "length errs = n" "fillSlots rs (results, errs) = (results', errs')"
  shows "length results' = n \<and> length errs' = n \<and>
    (\<forall>i < n. (\<forall>d out. (i, d, Inr out) \<in> set rs \<longrightarrow> results' ! i = Some out \<and> errs' ! i = errs ! i) \<and>
      (\<forall>d e. (i, d, Inl e) \<in> set rs \<longrightarrow>
        results' ! i = results ! i \<and> errs' ! i = Some \<lparr>de_index = i, de_engine = d_engine d, de_err = e\<rparr>) \<and>
      (i \<notin> fst ` set rs \<longrightarrow> results' ! i = results ! i \<and> errs' ! i = errs ! i))"
  using assms
proof (induction rs "(results, errs)" arbitrary: results errs rule: fillSlots.induct)
  case (2 k d r rs results errs)
  show ?case
  proof (cases r)
    case (Inl e)
    let ?errs = "errs[k := Some \<lparr>de_index = k, de_engine = d_engine d, de_err = e\<rparr>]"
    have "length results' = n \<and> length errs' = n \<and>
      (\<forall>i < n. (\<forall>d out. (i, d, Inr out) \<in> set rs \<longrightarrow> results' ! i = Some out \<and> errs' ! i = ?errs ! i) \<and>
        (\<forall>d e. (i, d, Inl e) \<in> set rs \<longrightarrow>
          results' ! i = results ! i \<and> errs' ! i = Some \<lparr>de_index = i, de_engine = d_engine d, de_err = e\<rparr>) \<and>
        (i \<notin> fst ` set rs \<longrightarrow> results' ! i = results ! i \<and> errs' ! i = ?errs ! i))"
      using 2(3-) Inl by (intro 2(1) [OF Inl]) auto
    then show ?thesis using 2(3-) Inl by (auto simp: nth_list_update rev_image_eqI)
  next
    case (Inr out)
    let ?results = "results[k := Some out]"
    have "length results' = n \<and> length errs' = n \<and>
      (\<forall>i < n. (\<forall>d out. (i, d, Inr out) \<in> set rs \<longrightarrow> results' ! i = Some out \<and> errs' ! i = errs ! i) \<and>
        (\<forall>d e. (i, d, Inl e) \<in> set rs \<longrightarrow>
          results' ! i = ?results ! i \<and> errs' ! i = Some \<lparr>de_index = i, de_engine = d_engine d, de_err = e\<rparr>) \<and>
        (i \<notin> fst ` set rs \<longrightarrow> results' ! i = ?results ! i \<and> errs' ! i = errs ! i))"
      using 2(3-) Inr by (intro 2(2) [OF Inr]) auto
    then show ?thesis using 2(3-) Inr by (auto simp: nth_list_update rev_image_eqI)
  qed
qed simp

lemma setSlots_map: "setSlots (map f xs) = List.map_filter f xs"
  by (simp add: setSlots_def List.map_filter_def comp_def filter_map)

lemma setSlots_filled:
  assumes "distinct (map fst rs)" "\<forall>x \<in> set rs. fst x < n"
    and "fillSlots rs (replicate n None, replicate n None) = (results, errs)"
  shows "setSlots results = List.map_filter (\<lambda>i. case map_of rs i of Some (_, Inr out) \<Rightarrow> Some out | _ \<Rightarrow> None) [0..<n]"
    and "setSlots errs = List.map_filter (\<lambda>i. case map_of rs i of
        Some (d, Inl e) \<Rightarrow> Some \<lparr>de_index = i, de_engine = d_engine d, de_err = e\<rparr> | _ \<Rightarrow> None) [0..<n]"
proof -
  note filled = fillSlots_nth [OF assms(1,2) _ _ assms(3)]
  have at: "results ! i = (case map_of rs i of Some (_, Inr out) \<Rightarrow> Some out | _ \<Rightarrow> None) \<and>
      errs ! i = (case map_of rs i of Some (d, Inl e) \<Rightarrow> Some \<lparr>de_index = i, de_engine = d_engine d, de_err = e\<rparr> | _ \<Rightarrow> None)"
    if "i < n" for i
  proof (cases "map_of rs i")
    case None
    then have "i \<notin> fst ` set rs" by (simp add: map_of_eq_None_iff)
    then show ?thesis using filled that None by simp
  next
    case (Some x)
    then have "(i, x) \<in> set rs" by (rule map_of_SomeD)
    then show ?thesis using filled that Some by (cases x; cases "snd x") auto
  qed
  have len: "length results = n" "length errs = n" using filled by simp_all
  have results: "results = map (\<lambda>i. case map_of rs i of Some (_, Inr out) \<Rightarrow> Some out | _ \<Rightarrow> None) [0..<n]"
    using at len by (intro nth_equalityI) simp_all
  show "setSlots results = List.map_filter (\<lambda>i. case map_of rs i of Some (_, Inr out) \<Rightarrow> Some out | _ \<Rightarrow> None) [0..<n]"
    by (subst results) (rule setSlots_map)
  have errs: "errs = map (\<lambda>i. case map_of rs i of Some (d, Inl e) \<Rightarrow> Some \<lparr>de_index = i, de_engine = d_engine d, de_err = e\<rparr> | _ \<Rightarrow> None) [0..<n]"
    using at len by (intro nth_equalityI) (auto split: option.splits sum.splits)
  show "setSlots errs = List.map_filter (\<lambda>i. case map_of rs i of
        Some (d, Inl e) \<Rightarrow> Some \<lparr>de_index = i, de_engine = d_engine d, de_err = e\<rparr> | _ \<Rightarrow> None) [0..<n]"
    by (subst errs) (rule setSlots_map)
qed

lemma included_indices: "distinct (map fst (included opts dbs))" "\<forall>x \<in> set (included opts dbs). fst x < length dbs"
  by (auto simp: included_def distinct_map_filter in_set_enumerate_eq)

text \<open>
  In whatever order the databases of a run get to run, each included one runs once, whatever becomes of the others, and
  the outcomes and the failures come back in the order of the configuration, each failure under its index.
\<close>

theorem run_reports_in_order:
  assumes "RunFiltered R opts w = (Inr (outs, errs), w')"
  shows "\<exists>c w1 rs. withDBNamespaces (rn_base_of R) (rn_wtPath R) (rn_dbs R) (rn_ctx R) = Inr c \<and>
    runGoroutines R c (arrange (rn_order R) (included opts (rn_dbs R))) w1 = (Inr rs, w') \<and>
    mset (map (\<lambda>(i, d, _). (i, d)) rs) = mset (included opts (rn_dbs R)) \<and>
    outs = List.map_filter (\<lambda>i. case map_of rs i of Some (_, Inr out) \<Rightarrow> Some out | _ \<Rightarrow> None) [0..<length (rn_dbs R)] \<and>
    errs = List.map_filter (\<lambda>i. case map_of rs i of
        Some (d, Inl e) \<Rightarrow> Some \<lparr>de_index = i, de_engine = d_engine d, de_err = e\<rparr> | _ \<Rightarrow> None) [0..<length (rn_dbs R)]"
proof -
  obtain w1 c where c: "withDBNamespaces (rn_base_of R) (rn_wtPath R) (rn_dbs R) (rn_ctx R) = Inr c"
    and run: "runDatabases R opts c w1 = (Inr (outs, errs), w')"
    using assms
    by (auto simp: RunFiltered_def bindA_Inr wrapA_def liftResultP_def returnA_def raiseA_def onBuilt_def
        split: if_splits sum.splits prod.splits)
  let ?js = "arrange (rn_order R) (included opts (rn_dbs R))" and ?n = "length (rn_dbs R)"
  obtain rs where fin: "fst (runGoroutines R c ?js w1) = Inr rs" and ent: "map (\<lambda>(i, d, _). (i, d)) rs = ?js"
    using runGoroutines_entries by blast
  then obtain w2 where w2: "runGoroutines R c ?js w1 = (Inr rs, w2)" by (metis prod.collapse)
  obtain results es where slots: "fillSlots rs (replicate ?n None, replicate ?n None) = (results, es)" by force
  have out: "outs = setSlots results" "errs = setSlots es" "w' = w2"
    using run w2 slots by (simp_all add: runDatabases_def bindA_def returnA_def)
  have perm: "mset (map (\<lambda>(i, d, _). (i, d)) rs) = mset (included opts (rn_dbs R))" unfolding ent by (rule arrange_perm)
  have "map fst rs = map fst ?js" unfolding ent [symmetric] by (simp add: comp_def case_prod_beta)
  then have "mset (map fst rs) = mset (map fst (included opts (rn_dbs R)))" by (simp add: arrange_perm)
  then have dist: "distinct (map fst rs)" and "set (map fst rs) = set (map fst (included opts (rn_dbs R)))"
    using included_indices(1) mset_eq_imp_distinct_iff mset_eq_setD by blast+
  then have "fst ` set rs = fst ` set (included opts (rn_dbs R))" by (metis set_map)
  then have below: "\<forall>x \<in> set rs. fst x < ?n"
    using included_indices(2) [of opts "rn_dbs R"] by (metis (no_types, opaque_lifting) imageE image_eqI)
  show ?thesis using c w2 perm setSlots_filled [OF dist below slots] unfolding out by blast
qed

definition twoDbs :: "unit runEnv" where
  "twoDbs =
     \<lparr>rn_dbs = [\<lparr>d_engine = ''mysql'', d_connection = [], d_name_template = ''a'', d_key_prefix = [], d_test_clones = None, d_fanout = 0,
        d_branch_scoped = False\<rparr>, \<lparr>d_engine = ''postgres'', d_connection = [], d_name_template = ''b'', d_key_prefix = [],
        d_test_clones = None, d_fanout = 0, d_branch_scoped = False\<rparr>],
      rn_ctx = \<lparr>cSlug = ''s'', cSlugDash = ''s'', cSlugRedisQueue = [], cSlugRedisCache = [], cN = 0, HasN = False, cTargetDB = [],
        HasTargetDB = False, cPorts = Map.empty, cDBs = []\<rparr>,
      rn_wtPath = ''/w'', rn_base_of = \<lambda>_. [], rn_worktree = 1, rn_lock = Inr (), rn_order = [1],
      rn_family = \<lambda>c fam i. if i = 0 then raiseA (StepError ''migrate source'' ''a'' 1) else returnA (noOutcome\<lparr>o_source := ''b''\<rparr>)\<rparr>"

text \<open>The second database runs first and succeeds, the first fails; the failure is reported under its index.\<close>

lemma run_of_two:
  "fst (RunFiltered twoDbs \<lparr>OnlyDBIndex = 0, FilterDBs = False, Fresh = False\<rparr> (freshPrep ())) =
     Inr ([noOutcome\<lparr>o_source := ''b''\<rparr>], [\<lparr>de_index = 0, de_engine = ''mysql'', de_err = StepError ''migrate source'' ''a'' 1\<rparr>])"
  by code_simp

end
