(* ===== verification/PrepareFileProps.thy ===== *)
theory PrepareFileProps
  imports PrepareProps
begin

text \<open>
  The file engine end to end: the laws of a restore by copying files, what a prepare may touch, what a successful build
  leaves behind, and the marker that a failed build does not withdraw.
\<close>

section \<open>Copying files\<close>

lemma only_syscall:
  assumes "\<And>s. only fileAt T s (snd (m s))"
  shows "keeps (only fileAt T) (syscall m)"
  by (rule keeps_syscall [OF assms only_transp]) (simp add: only_def)

lemma only_calls:
  "keeps (only fileAt T) (Stat p)" "keeps (only fileAt T) (MkdirAll p)" "keeps (only fileAt T) (Open p)" "keeps (only fileAt T) (ReadDir p)"
  "keeps (only fileAt T) (Read p)" "keeps (only fileAt T) Close"
  "p \<in> T \<Longrightarrow> keeps (only fileAt T) (OpenTrunc p)" "p \<in> T \<Longrightarrow> keeps (only fileAt T) (appendByte p b)" "p \<in> T \<Longrightarrow> keeps (only fileAt T) (Remove p)"
  "p \<in> T \<Longrightarrow> keeps (only fileAt T) (reflink p q)"
  unfolding Stat_def MkdirAll_def Open_def ReadDir_def Read_def Close_def OpenTrunc_def appendByte_def Remove_def reflink_def
  by (rule only_syscall; auto simp: only_def split: option.splits)+

lemmas only_rules = keeps_returnA [OF only_reflp] keeps_raiseA [OF only_reflp] keeps_bindA [OF only_transp]
  keeps_tryA keeps_wrapA keeps_ignoreA keeps_if keeps_option keeps_sum keeps_prod keeps_forA [OF only_reflp only_transp]

lemma only_writeBytes: "p \<in> T \<Longrightarrow> keeps (only fileAt T) (writeBytes p bytes)"
  by (induction bytes) (auto intro!: only_rules only_calls)

lemma only_copyFile: "dst \<in> T \<Longrightarrow> keeps (only fileAt T) (copyFileReflink src dst)"
  unfolding copyFileReflink_def streamCopy_def by (intro only_rules only_calls only_writeBytes; assumption)

lemma only_copySidecars:
  "(\<And>side. side \<in> set sides \<Longrightarrow> dst @ TrimPrefix side src \<in> T) \<Longrightarrow> keeps (only fileAt T) (copySidecars src dst sides)"
  by (induction sides) (auto intro!: only_rules only_calls only_copyFile)

lemma sidecar_landing: "side \<in> set (SidecarPaths src) \<Longrightarrow> \<exists>suf \<in> set sidecarSuffixes. dst @ TrimPrefix side src = dst @ suf"
  by (auto simp: SidecarPaths_def TrimPrefix_def)

lemma only_CopyDatabase:
  assumes "dbFiles dst \<subseteq> T"
  shows "keeps (only fileAt T) (CopyDatabase src dst)"
proof -
  have "dst @ TrimPrefix side src \<in> T" if "side \<in> set (SidecarPaths src)" for side
    using sidecar_landing [OF that, of dst] dbFiles_mem(2) [of _ dst] assms by fastforce
  moreover have "dst \<in> T" using assms dbFiles_mem(1) by (rule subsetD)
  ultimately show ?thesis
    unfolding CopyDatabase_def by (intro only_rules only_copyFile only_copySidecars)
qed


lemma only_none: "keeps (only fileAt {}) m \<Longrightarrow> m s = (r, s') \<Longrightarrow> fileAt s' = fileAt s"
  by (drule (1) keepsD) (auto simp: only_def)

lemma appendByte_run: "appendByte p b s = (Inr u, s') \<Longrightarrow> fileAt s p = Some bytes \<Longrightarrow> fileAt s' p = Some (bytes @ [b])"
  by (auto simp: appendByte_def syscall_def split: list.splits option.splits)

lemma writeBytes_run: "writeBytes p xs s = (Inr u, s') \<Longrightarrow> fileAt s p = Some bytes \<Longrightarrow> fileAt s' p = Some (bytes @ xs)"
proof (induction xs arbitrary: s bytes)
  case (Cons b xs)
  then obtain s1 where "appendByte p b s = (Inr (), s1)" "writeBytes p xs s1 = (Inr u, s')" by (auto simp: bindA_Inr)
  then show ?case using Cons.IH [of s1 "bytes @ [b]"] appendByte_run Cons.prems(2) by fastforce
qed (simp add: returnA_def)

lemma OpenTrunc_run: "OpenTrunc p s = (Inr u, s') \<Longrightarrow> fileAt s' p = Some []"
  by (auto simp: OpenTrunc_def syscall_def split: list.splits option.splits if_splits)

lemma Read_run: "Read p s = (Inr bytes, s') \<Longrightarrow> fileAt s p = Some bytes"
  by (auto simp: Read_def syscall_def split: list.splits option.splits)

lemma reflink_run:
  "reflink dst src s = (Inr u, s') \<Longrightarrow> \<exists>bytes. fileAt s src = Some bytes \<and> fileAt s' dst = Some bytes"
  "reflink dst src s = (Inl e, s') \<Longrightarrow> fileAt s' = fileAt s"
  by (auto simp: reflink_def syscall_def fun_eq_iff split: list.splits option.splits)

lemma streamCopy_run:
  assumes "streamCopy dst src s = (Inr u, s')" "fileAt s dst = Some []"
  shows "\<exists>bytes. fileAt s src = Some bytes \<and> fileAt s' dst = Some bytes"
proof -
  obtain bytes s1 where run: "Read src s = (Inr bytes, s1)" "writeBytes dst bytes s1 = (Inr u, s')"
    using assms(1) unfolding streamCopy_def bindA_Inr by blast
  have "fileAt s1 = fileAt s" by (rule only_none [OF only_calls(5) run(1)])
  then show ?thesis using Read_run [OF run(1)] writeBytes_run [OF run(2), of "[]"] assms(2) by simp
qed

text \<open>The source is read after the destination was truncated, so it has to be another file.\<close>

lemma copyFile_copies:
  assumes "copyFileReflink src dst s = (Inr u, s')" "src \<noteq> dst"
  shows "\<exists>bytes. fileAt s src = Some bytes \<and> fileAt s' dst = Some bytes"
proof -
  from assms(1) obtain s1 s2 s3 s4 s5 u1 u2 u3 u4 q where
    mk: "MkdirAll (Dir dst) s = (Inr u1, s1)" and st: "Stat src s1 = (Inr u2, s2)" and op: "Open src s2 = (Inr u3, s3)"
    and tr: "OpenTrunc dst s3 = (Inr u4, s4)" and rl: "reflink dst src s4 = (q, s5)"
    and rest: "(case q of Inr _ \<Rightarrow> Close | Inl _ \<Rightarrow> bindA (tryA (streamCopy dst src)) (\<lambda>c.
             case c of Inr _ \<Rightarrow> Close | Inl err \<Rightarrow> bindA (ignoreA Close) (\<lambda>_. raiseA err))) s5 = (Inr u, s')"
    unfolding copyFileReflink_def bindA_Inr wrapA_Inr tryA_Inr by (elim exE conjE) (rule that)
  have "only fileAt {dst} s3 s4" by (rule keepsD [OF only_calls(7) tr]) simp
  then have src: "fileAt s4 src = fileAt s src"
    using only_none [OF only_calls(2) mk] only_none [OF only_calls(1) st] only_none [OF only_calls(3) op] assms(2)
    by (simp add: only_def)
  have closed: "fileAt v' = fileAt v" if "Close v = (Inr x, v')" for v v' x by (rule only_none [OF only_calls(6) that])
  have "\<exists>bytes. fileAt s4 src = Some bytes \<and> fileAt s' dst = Some bytes"
  proof (cases q)
    case (Inr x)
    then show ?thesis using reflink_run(1) [OF rl [unfolded Inr]] rest closed by simp
  next
    case (Inl e)
    have same: "fileAt s5 = fileAt s4" by (rule reflink_run(2) [OF rl [unfolded Inl]])
    obtain x s6 where "streamCopy dst src s5 = (Inr x, s6)" "Close s6 = (Inr u, s')"
      using rest Inl by (auto simp: run_rules bindA_Inr tryA_Inr raiseA_def split: sum.splits)
    then show ?thesis using streamCopy_run [of dst src s5] OpenTrunc_run [OF tr] same closed by auto
  qed
  then show ?thesis unfolding src .
qed

lemma CopyDatabase_copies:
  assumes "CopyDatabase src dst s = (Inr u, s')" "src \<noteq> dst"
  shows "\<exists>bytes. fileAt s src = Some bytes \<and> fileAt s' dst = Some bytes"
proof -
  from assms(1) obtain s1 where main: "\<exists>u1. copyFileReflink src dst s = (Inr u1, s1)"
    and sides: "copySidecars src dst (SidecarPaths src) s1 = (Inr u, s')"
    unfolding CopyDatabase_def bindA_Inr wrapA_Inr by blast
  have "only fileAt (- {dst}) s1 s'"
  proof (rule keepsD [OF only_copySidecars sides])
    show "dst @ TrimPrefix side src \<in> - {dst}" if "side \<in> set (SidecarPaths src)" for side
      using sidecar_landing [OF that, of dst] by (auto simp: sidecarSuffixes_def)
  qed
  then show ?thesis using main copyFile_copies assms(2) by (fastforce simp: only_def)
qed

section \<open>A restore is a copy\<close>

text \<open>Names are paths once they are resolved onto the base of the family.\<close>

definition pathOf :: "fileRun \<Rightarrow> string \<Rightarrow> string" where
  "pathOf F n = (case resolveFile F n of Inr p \<Rightarrow> p | Inl _ \<Rightarrow> n)"

definition fileContent :: "fileRun \<Rightarrow> fs \<Rightarrow> string \<Rightarrow> string option" where
  "fileContent F s n = fileAt s (pathOf F n)"

definition fileOwn :: "fileRun \<Rightarrow> string \<Rightarrow> string set" where
  "fileOwn F c = {n. pathOf F n \<in> dbFiles (pathOf F c)}"

lemma pathOf_abs [simp]: "IsAbs p \<Longrightarrow> pathOf F p = p"
  by (simp add: pathOf_def resolveFile_def)

lemma only_liftResult: "keeps (only fileAt T) (liftResultP x)"
  unfolding liftResultP_def by (intro only_rules)

lemma only_fileRestore: "dbFiles (pathOf F c) \<subseteq> T \<Longrightarrow> keeps (only fileAt T) (fileRestore F tmpl c)"
  unfolding fileRestore_def
  by (cases "resolveFile F c"; frule only_CopyDatabase [of _ _ tmpl])
    (auto simp: pathOf_def liftResultP_def keeps_def bindA_def raiseA_def returnA_def only_def)

lemma fileRestore_run:
  "fileRestore F tmpl c s = (Inr u, s') \<longleftrightarrow> (\<exists>p. resolveFile F c = Inr p \<and> CopyDatabase tmpl p s = (Inr u, s'))"
  by (auto simp: fileRestore_def liftResultP_def run_rules)

interpretation filefan: restoring "fileRestore F" "fileContent F" "fileOwn F" IsAbs for F
proof
  fix tmpl c s r s' assume run: "fileRestore F tmpl c s = (r, s')"
  show "only (fileContent F) (fileOwn F c) s s'"
    using keepsD [OF only_fileRestore [OF order_refl] run] by (auto simp: only_def fileContent_def fileOwn_def)
next
  fix tmpl c s u s'
  assume run: "fileRestore F tmpl c s = (Inr u, s')" and tmpl: "IsAbs tmpl" and apart: "tmpl \<notin> fileOwn F c"
  obtain p where p: "resolveFile F c = Inr p" "CopyDatabase tmpl p s = (Inr u, s')" using run by (auto simp: fileRestore_run)
  have "tmpl \<noteq> p" using apart tmpl p(1) dbFiles_mem(1) [of p] by (auto simp: fileOwn_def pathOf_def resolveFile_def)
  then show "fileContent F s' c = fileContent F s tmpl"
    using CopyDatabase_copies [OF p(2)] p(1) tmpl by (auto simp: fileContent_def pathOf_def resolveFile_def)
qed




section \<open>Footprints\<close>

definition fsOnly :: "string set \<Rightarrow> fs prepWorld \<Rightarrow> fs prepWorld \<Rightarrow> bool" where
  "fsOnly T w w' \<longleftrightarrow> only fileAt T (engine (pw_run w)) (engine (pw_run w'))"

lemma fsOnly_refl: "reflp (fsOnly T)"
  by (simp add: reflp_def fsOnly_def only_def)

lemma fsOnly_trans: "transp (fsOnly T)"
  by (auto simp: transp_def fsOnly_def only_def)

named_theorems foot

lemmas foot_basic [foot] = keeps_returnA [OF fsOnly_refl] keeps_raiseA [OF fsOnly_refl] keeps_bindA [OF fsOnly_trans]
  keeps_tryA keeps_wrapA keeps_ignoreA keeps_if keeps_option keeps_sum keeps_prod

lemma foot_onRun: "touches fileAt T m \<Longrightarrow> keeps (fsOnly T) (onRun m)"
  by (rule keepsI) (auto simp: onRun_def fsOnly_def touches_def engine_rel_def dest: keepsD split: prod.splits)

lemma foot_emit [foot]: "keeps (fsOnly T) (emit l t)"
  by (intro foot_onRun touch)

lemma foot_driver: "keeps (only fileAt T) m \<Longrightarrow> keeps (fsOnly T) (onDriver m)"
  by (intro foot_onRun touches_onEngine) (rule keepsD)

lemma foot_stores [foot]: "keeps (fsOnly T) (onSnaps m)" "keeps (fsOnly T) (onBuilt n)" "keeps (fsOnly T) (waitForBuild en fp)"
    "keeps (fsOnly T) (finish flight)" "keeps (fsOnly T) (missed a fp)"
  by (auto simp: keeps_def onSnaps_def onBuilt_def waitForBuild_def finish_def missed_def beginBuild_def bindA_def returnA_def
      fsOnly_def only_def Let_def split: prod.splits list.splits option.splits if_splits)

lemma foot_withPin [foot]: "keeps (fsOnly T) m \<Longrightarrow> keeps (fsOnly T) (withPin fp m)"
  by (rule keepsI) (auto simp: withPin_def Let_def fsOnly_def dest: keepsD split: prod.splits)

lemma foot_finally [foot]: "keeps (fsOnly T) m \<Longrightarrow> keeps (fsOnly T) k \<Longrightarrow> keeps (fsOnly T) (finallyA m k)"
  unfolding keeps_def finallyA_def case_prod_beta by (auto intro: transpD [OF fsOnly_trans])


lemma foot_lift [foot]: "keeps (fsOnly T) (liftResultP x)"
  unfolding liftResultP_def by (intro foot)

lemma foot_exists [foot]: "keeps (fsOnly T) (onDriver (fileExists F n))"
  unfolding fileExists_def Exists_def by (intro foot_driver only_rules only_liftResult only_calls)


lemma foot_allExist [foot]: "keeps (fsOnly T) (allExist (fileExists F) en ts)"
  by (induction ts) (auto intro!: foot)

lemma bind_lift: "bindA (liftResultP x) f = (case x of Inl e \<Rightarrow> raiseA e | Inr v \<Rightarrow> f v)"
  by (rule ext, cases x) (simp_all add: liftResultP_def bindA_def raiseA_def returnA_def)



definition builtClones :: "fileRun \<Rightarrow> string list" where
  "builtClones F = (case fileCloneNames F of Inl _ \<Rightarrow> [] | Inr cs \<Rightarrow> cs)"
















section \<open>What a build leaves behind\<close>

definition sameBuilt :: "'e prepWorld \<Rightarrow> 'e prepWorld \<Rightarrow> bool" where
  "sameBuilt w w' \<longleftrightarrow> pw_built w' = pw_built w"

interpretation filerows: file_run_frame sameSnaps
  by unfold_locales

interpretation marks: prep_frame sameBuilt
  by unfold_locales (simp_all add: reflp_def transp_def sameBuilt_def)


lemma marks_lookup: "keeps sameBuilt (lookupCachedSnapshot en fp)"
proof -
  have "keeps sameBuilt (waitForBuild en fp)"
    by (rule keepsI) (auto simp: waitForBuild_def Let_def sameBuilt_def split: option.splits)
  then show ?thesis unfolding lookupCachedSnapshot_def Let_def by (intro marks.frame)
qed

lemma upsertSnap_row:
  "\<exists>row \<in> set (upsertSnap r xs). fpOf row = sn_fingerprint r \<and> sn_template (row_rec row) = sn_template r \<and>
     sn_source_db (row_rec row) = sn_source_db r"
  by (induction xs) auto

text \<open>The snapshot table has a row that maps the fingerprint to the template.\<close>

definition rowFor :: "snapTables \<Rightarrow> string \<Rightarrow> string \<Rightarrow> bool" where
  "rowFor t fp tmpl \<longleftrightarrow> (\<exists>row \<in> set (snapshots t). fpOf row = fp \<and> sn_template (row_rec row) = tmpl)"

lemma RecordSnapshot_row:
  assumes "alone s" "RecordSnapshot r s = (Inr u, s')"
  shows "rowFor (tables s') (sn_fingerprint r) (sn_template r)"
proof -
  let ?now = "nowMillis s"
  define row where "row = r\<lparr>sn_engine := canonicalEngine (sn_engine r), sn_created := (if sn_created r = 0 then ?now else sn_created r),
    sn_used := (if sn_used r = 0 then ?now else sn_used r), sn_repo := (if 0 < sn_repo r then sn_repo r else 0)\<rparr>"
  have run: "execS (recordStmt row) s = (Inr u, s')" using assms(2) unfolding RecordSnapshot_def Let_def row_def .
  obtain q s1 where ex: "Exec applySnapOp (recordStmt row) s = (q, s1)" by force
  have "q = None" "s1 = s'" using run ex by (auto simp: optionA_def split: option.splits)
  then have "recordStmt row (tables s) = Inr (tables s')" using Exec_alone [OF assms(1) ex] by simp
  then have "tables s' = (tables s)\<lparr>snapshots := upsertSnap row (snapshots (tables s))\<rparr>"
    by (auto simp: recordStmt_def split: if_splits)
  then have "snapshots (tables s') = upsertSnap row (snapshots (tables s))" by simp
  moreover have "sn_fingerprint row = sn_fingerprint r" "sn_template row = sn_template r" by (simp_all add: row_def)
  ultimately show ?thesis using upsertSnap_row [of row "snapshots (tables s)"] by (auto simp: rowFor_def)
qed

lemma recordSnapshot_row:
  assumes "alone (pw_snaps w)" "recordSnapshot a key source tmpl inputs w = (Inr u, w')"
  shows "rowFor (tables (pw_snaps w')) (Fingerprint (pa_hash a) key) tmpl \<and> pw_run w' = pw_run w"
proof -
  obtain r s' where run: "RecordSnapshot r (pw_snaps w) = (Inr u, s')" "w' = w\<lparr>pw_snaps := s'\<rparr>"
    and r: "sn_fingerprint r = Fingerprint (pa_hash a) key" "sn_template r = tmpl"
    using assms(2) unfolding recordSnapshot_def wrapA_Inr onSnaps_def by (auto split: prod.splits)
  show ?thesis using RecordSnapshot_row [OF assms(1) run(1)] run(2) r by simp
qed

text \<open>No clone shares a file with the source, the template or another clone.\<close>

definition clonesApart :: "fileRun \<Rightarrow> string \<Rightarrow> string \<Rightarrow> bool" where
  "clonesApart F source tmpl \<longleftrightarrow> source \<notin> dbFiles tmpl \<and>
     (\<forall>c \<in> set (builtClones F). source \<notin> dbFiles (pathOf F c) \<and> tmpl \<notin> dbFiles (pathOf F c) \<and>
        (\<forall>d \<in> set (builtClones F). c \<noteq> d \<longrightarrow> pathOf F c \<notin> dbFiles (pathOf F d)))"

lemma onDriver_run: "onDriver m w = (Inr x, w') \<Longrightarrow> m (engine (pw_run w)) = (Inr x, engine (pw_run w')) \<and> pw_snaps w' = pw_snaps w"
  by (auto simp: onRun_def Retry.onEngine_def split: prod.splits)

lemma emit_run: "emit l t w = (Inr x, w') \<Longrightarrow> engine (pw_run w') = engine (pw_run w) \<and> pw_snaps w' = pw_snaps w"
  by (auto simp: onRun_def writeEvent_def modifyA_def)

lemma snapshotFanout_copies:
  assumes "fileSnapshotFanout F source tmpl key inputs w = (Inr clones, w')" "IsAbs source" "IsAbs tmpl"
    and apart: "clonesApart F source tmpl" and "alone (pw_snaps w)"
  shows "clones = builtClones F \<and> rowFor (tables (pw_snaps w')) (Fingerprint (pa_hash (fileArgs F)) key) tmpl \<and>
    (\<exists>bytes. \<forall>c \<in> set (source # tmpl # clones). fileContent F (engine (pw_run w')) c = Some bytes)"
proof -
  let ?e = "\<lambda>w :: fs prepWorld. engine (pw_run w)"
  obtain u1 u2 u3 u4 w1 w2 w3 where
    copy: "onDriver (CopyDatabase source tmpl) w = (Inr u1, w1)" and ev: "emit ''info'' ''prepare:phase'' w1 = (Inr u2, w2)"
    and rec: "recordSnapshot (fileArgs F) key source tmpl inputs w2 = (Inr u3, w3)"
    and names: "fileCloneNames F = Inr clones" and fan: "fanOut (fileArgs F) (fileRestore F) tmpl clones w3 = (Inr u4, w')"
    using assms(1) unfolding fileSnapshotFanout_def Let_def bindA_Inr wrapA_Inr returnA_Inr liftResultP_def
    by (auto simp: run_rules)
  have clones: "clones = builtClones F" using names by (simp add: builtClones_def)
  obtain bytes where bytes: "fileAt (?e w) source = Some bytes" "fileAt (?e w1) tmpl = Some bytes"
    using CopyDatabase_copies onDriver_run [OF copy] apart dbFiles_mem(1) [of tmpl] by (metis clonesApart_def)
  have "only fileAt (dbFiles tmpl) (?e w) (?e w1)"
    using keepsD [OF only_CopyDatabase [OF order_refl]] onDriver_run [OF copy] by blast
  then have src1: "fileAt (?e w1) source = Some bytes" using bytes apart by (simp add: only_def clonesApart_def)
  have e3: "?e w3 = ?e w1" and row: "rowFor (tables (pw_snaps w3)) (Fingerprint (pa_hash (fileArgs F)) key) tmpl"
    using recordSnapshot_row [OF _ rec] emit_run [OF ev] onDriver_run [OF copy] assms(5) by auto
  obtain v where v: "fanOutClones (pa_procs (fileArgs F)) (pa_sched (fileArgs F)) (fileRestore F) tmpl clones (d_engine (pa_db (fileArgs F)))
      (d_fanout (pa_db (fileArgs F))) (pa_maxConns (fileArgs F)) (pw_run w3) = (Inr (), v)" "w' = w3\<lparr>pw_run := v\<rparr>"
    using fan by (auto simp: fanOut_def onRun_def split: prod.splits)
  have "\<forall>c \<in> set clones. tmpl \<notin> fileOwn F c" "\<forall>c \<in> set clones. \<forall>d \<in> set clones. c \<noteq> d \<longrightarrow> c \<notin> fileOwn F d"
    using apart assms(3) by (simp_all add: clones clonesApart_def fileOwn_def)
  note fanned = filefan.fanOut_run [OF v(1) this]
  have tm3: "fileContent F (?e w3) tmpl = Some bytes" using bytes(2) assms(3) by (simp add: fileContent_def e3)
  have keep: "fileContent F (?e w') c = fileContent F (?e w3) c" if "c = source \<or> c = tmpl" for c
    using conjunct1 [OF fanned] that apart assms(2,3) v(2) by (auto simp: only_def fileOwn_def clonesApart_def clones)
  have "fileContent F (?e w') c = Some bytes" if "c \<in> set clones" for c
    using conjunct2 [OF fanned] that tm3 assms(3) v(2) by simp
  moreover have "fileContent F (?e w') source = Some bytes"
    using keep [of source] src1 assms(2) by (simp add: e3 fileContent_def)
  ultimately show ?thesis using clones row tm3 keep [of tmpl] v(2) by auto
qed

section \<open>What a hit leaves behind\<close>

abbreviation markerOfDb :: "'e prepArgs \<Rightarrow> string \<Rightarrow> 'e prepWorld \<Rightarrow> string option" where
  "markerOfDb a source w \<equiv> builtAt (tables (pw_built w)) (pa_worktree a) source (d_engine (pa_db a)) (d_connection (pa_db a))"

lemma foot_none: "keeps (fsOnly {}) m \<Longrightarrow> m w = (r, w') \<Longrightarrow> fileContent F (engine (pw_run w')) = fileContent F (engine (pw_run w))"
  by (drule (1) keepsD) (auto simp: fsOnly_def only_def fileContent_def)

lemma built_same: "keeps sameBuilt m \<Longrightarrow> m w = (r, w') \<Longrightarrow> pw_built w' = pw_built w"
  by (drule (1) keepsD) (simp add: sameBuilt_def)

lemma foot_lookup: "keeps (fsOnly {}) (lookupCachedSnapshot en fp)" "keeps (fsOnly {}) (liveSnapshot (fileExists F) en row)"
  "keeps (fsOnly {}) (resolveClones a)" "keeps (fsOnly {}) (templateBuiltTargets a (fileExists F) source clones fp)"
  "keeps (fsOnly {}) (recordTemplateBuilt a source fp)"
  unfolding lookupCachedSnapshot_def liveSnapshot_def resolveClones_def templateBuiltTargets_def recordTemplateBuilt_def Let_def
  by (intro foot)+

lemma Exists_true: "Exists p s = (Inr True, s') \<Longrightarrow> fileAt s p \<noteq> None"
  by (auto simp: Exists_def Stat_def syscall_def run_rules split: list.splits option.splits if_splits)

lemma liveSnapshot_alive:
  assumes "liveSnapshot (fileExists F) en row w = (Inr True, w')"
  shows "fileContent F (engine (pw_run w)) (sn_template row) \<noteq> None"
  using assms Exists_true
  by (fastforce simp: liveSnapshot_def run_rules onRun_def Retry.onEngine_def fileExists_def bind_lift fileContent_def pathOf_def
      split: prod.splits sum.splits)

lemma unbuilt_targets:
  assumes "alone (pw_built w)" "markerOfDb a source w \<noteq> Some fp" "templateBuiltTargets a exists source clones fp w = (Inr b, w')"
  shows "b = False \<and> alone (pw_built w')"
proof -
  from assms(3) obtain x w1 where q: "onBuilt (GetTemplateBuilt (pa_worktree a) source (d_engine (pa_db a)) (d_connection (pa_db a))) w = (Inr x, w1)"
    and rest: "(if x \<noteq> Some fp then returnA False else allExist exists (d_engine (pa_db a)) (targetsOf source clones)) w1 = (Inr b, w')"
    unfolding templateBuiltTargets_def Let_def bindA_Inr wrapA_Inr by blast
  obtain s1 where s1: "queryT (\<lambda>t. builtAt t (pa_worktree a) source (d_engine (pa_db a)) (d_connection (pa_db a))) (pw_built w) = (Inr x, s1)"
    "w1 = w\<lparr>pw_built := s1\<rparr>" using q by (auto simp: onBuilt_def GetTemplateBuilt_def split: prod.splits)
  have x: "x = markerOfDb a source w \<and> alone (pw_built w1)"
    using Query_alone [OF assms(1) s1(1)] s1(2) by simp
  then show ?thesis using rest assms(2) by (simp add: returnA_Inr)
qed

lemma restoreAndFanout_kept:
  "cacheHitRestoreAndFanout a exists restore tmpl source clones fp w = (Inr False, w') \<Longrightarrow>
     fanOut a restore tmpl (targetsOf source clones) w = (Inr (), w')"
  by (auto simp: cacheHitRestoreAndFanout_def run_rules split: if_splits bool.splits)

lemma recordTemplateBuilt_marks:
  assumes "alone (pw_built w)" "recordTemplateBuilt a source fp w = (Inr u, w')"
  shows "markerOfDb a source w' = Some fp"
proof -
  obtain s' where run: "SetTemplateBuilt (pa_worktree a) source (d_engine (pa_db a)) (d_connection (pa_db a)) fp (pw_built w) = (Inr u, s')"
    "w' = w\<lparr>pw_built := s'\<rparr>"
    using assms(2) unfolding recordTemplateBuilt_def wrapA_Inr onBuilt_def by (auto split: prod.splits)
  show ?thesis using SetTemplateBuilt_alone [OF assms(1) run(1)] run(2) by simp
qed

text \<open>A hit whose marker does not name the fingerprint went through the restore.\<close>

lemma hit_path:
  assumes "cacheHitGeneric a exists restore source fp w = (Inr (out, True, flight), w')"
    and "alone (pw_built w)" "markerOfDb a source w \<noteq> Some fp"
  obtains row clones w1 w2 w3 w4 w5 w6 u x y where
    "lookupCachedSnapshot (d_engine (pa_db a)) fp w = (Inr (Some row), w1)"
    "liveSnapshot exists (d_engine (pa_db a)) row w1 = (Inr True, w2)"
    "emit ''info'' ''snapshots:cache:hit'' w2 = (Inr x, w3)" "resolveClones a w3 = (Inr clones, w4)"
    "templateBuiltTargets a exists source clones fp w4 = (Inr False, w5)"
    "fanOut a restore (sn_template row) (targetsOf source clones) w5 = (Inr (), w6)"
    "bindA (recordTemplateBuilt a source fp) (\<lambda>_. emit ''info'' ''prepare:end'') w6 = (Inr y, w')"
    "out = hitOutcome a source (sn_template row) fp clones" "alone (pw_built w5)"
proof -
  have never: "missed a fp v \<noteq> (Inr (out, True, flight), v')" for v v'
    by (simp add: missed_def bindA_def beginBuild_def returnA_def Let_def)
  have same: "keeps sameBuilt (emit l t)" for l t by (rule marks.frame_onRun)
  obtain row clones w1 w2 w3 w4 w5 b x where run:
    "lookupCachedSnapshot (d_engine (pa_db a)) fp w = (Inr (Some row), w1)"
    "liveSnapshot exists (d_engine (pa_db a)) row w1 = (Inr True, w2)"
    "emit ''info'' ''snapshots:cache:hit'' w2 = (Inr x, w3)" "resolveClones a w3 = (Inr clones, w4)"
    "templateBuiltTargets a exists source clones fp w4 = (Inr b, w5)"
    and rest: "b \<or> (\<exists>w6 y. cacheHitRestoreAndFanout a exists restore (sn_template row) source clones fp w5 = (Inr False, w6) \<and>
      bindA (recordTemplateBuilt a source fp) (\<lambda>_. emit ''info'' ''prepare:end'') w6 = (Inr y, w'))"
    "out = hitOutcome a source (sn_template row) fp clones"
    using assms(1) never unfolding cacheHitGeneric_def Let_def by (auto simp: run_rules)
  have "pw_built w4 = pw_built w"
    using built_same [OF marks_lookup run(1)] built_same [OF marks.frame_steps(1) run(2)] built_same [OF same run(3)]
      built_same [OF marks.frame_runs(1) run(4)] by simp
  then have "\<not> b" "alone (pw_built w5)" using unbuilt_targets [OF _ _ run(5)] assms(2,3) by simp_all
  then show thesis using rest run by (auto dest: restoreAndFanout_kept intro: that)
qed

section \<open>Properties\<close>



lemma Clean_is_abs: "IsAbs p \<Longrightarrow> IsAbs (Clean p)"
  by (erule Clean_abs) (simp add: IsAbs_def)

lemma Dir_abs:
  assumes "IsAbs p"
  shows "IsAbs (Dir p)"
proof -
  obtain c cs where p: "p = SLASH # cs" using assms by (cases p) (auto simp: IsAbs_def)
  have "length (lastElem p) < length p"
  proof (rule ccontr)
    assume "\<not> ?thesis"
    then have "length (takeWhile (\<lambda>c. c \<noteq> SLASH) (rev p)) = length (rev p)"
      using length_lastElem [of p] by (simp add: lastElem_def)
    then have "takeWhile (\<lambda>c. c \<noteq> SLASH) (rev p) = rev p" by (metis takeWhile_eq_take take_all order_refl)
    then show False unfolding p takeWhile_eq_all_conv by auto
  qed
  then have "IsAbs (take (length p - length (lastElem p)) p)" by (auto simp: p IsAbs_def take_Cons split: nat.splits)
  then show ?thesis unfolding Dir_def by (rule Clean_is_abs)
qed

lemma TemplatePath_abs: "IsAbs source \<Longrightarrow> IsAbs (TemplatePath source fp)"
  using Join2_abs [OF Dir_abs, of source] by (simp add: TemplatePath_def Clean_is_abs)

text \<open>
  C14: A build of a file database that reports success has left the same bytes in the source, in the template and in
  every clone, whatever restore finished first, and the snapshot table maps the fingerprint to the
  template (with no clone sharing a file with another of these and no one else writing rows).
\<close>

theorem file_build_ready:
  assumes "fileBuild F source tmpl key inputs w = (Inr out, w')" "tmpl = TemplatePath source (Fingerprint (pa_hash (fileArgs F)) key)"
    and "IsAbs source" "clonesApart F source tmpl" "alone (pw_snaps w)"
  shows "o_source out = source \<and> o_template out = tmpl \<and> o_clones out = builtClones F \<and> \<not> o_cache_hit out \<and>
    rowFor (tables (pw_snaps w')) (o_fingerprint out) tmpl \<and>
    (\<exists>bytes. \<forall>c \<in> set (source # tmpl # o_clones out). fileContent F (engine (pw_run w')) c = Some bytes)"
proof -
  obtain w1 w2 clones u v where cold: "fileColdBuildSteps F source tmpl w = (Inr u, w1)"
    and tail: "fileSnapshotFanout F source tmpl key inputs w1 = (Inr clones, w2)"
    and ev: "emit ''info'' ''prepare:end'' w2 = (Inr v, w')" and out: "out = builtOutcome (fileArgs F) source tmpl key clones []"
    using assms(1) unfolding fileBuild_def bindA_Inr returnA_Inr by blast
  have "alone (pw_snaps w1)" using keepsD [OF filerows.frame_fileCold(1) cold] assms(5) by (simp add: sameSnaps_def)
  moreover have "IsAbs tmpl" unfolding assms(2) by (rule TemplatePath_abs [OF assms(3)])
  ultimately have "clones = builtClones F \<and> rowFor (tables (pw_snaps w2)) (Fingerprint (pa_hash (fileArgs F)) key) tmpl \<and>
    (\<exists>bytes. \<forall>c \<in> set (source # tmpl # clones). fileContent F (engine (pw_run w2)) c = Some bytes)"
    by (intro snapshotFanout_copies [OF tail assms(3) _ assms(4)])
  then obtain bytes where got: "clones = builtClones F" "rowFor (tables (pw_snaps w2)) (Fingerprint (pa_hash (fileArgs F)) key) tmpl"
    "\<forall>c \<in> set (source # tmpl # clones). fileContent F (engine (pw_run w2)) c = Some bytes" by (elim conjE exE)
  then have "\<forall>c \<in> set (source # tmpl # clones). fileContent F (engine (pw_run w')) c = Some bytes" using emit_run [OF ev] by simp
  then show ?thesis using emit_run [OF ev] got(1,2) unfolding out builtOutcome_def noOutcome_def by auto
qed

text \<open>
  C15: A cache hit on a database that is not marked as built at this fingerprint restores it: when it reports the hit,
  the source and every clone hold the bytes the template held, and the marker names the
  fingerprint.
\<close>

theorem hit_restores_targets:
  assumes "cacheHitGeneric (fileArgs F) (fileExists F) (fileRestore F) source fp w = (Inr (out, True, flight), w')"
    and "alone (pw_built w)" "markerOfDb (fileArgs F) source w \<noteq> Some fp" "IsAbs (o_template out)"
    and "\<forall>c \<in> set (targetsOf source (o_clones out)). o_template out \<notin> fileOwn F c"
    and "\<forall>c \<in> set (targetsOf source (o_clones out)). \<forall>d \<in> set (targetsOf source (o_clones out)). c \<noteq> d \<longrightarrow> c \<notin> fileOwn F d"
  shows "o_cache_hit out \<and> o_fingerprint out = fp \<and> markerOfDb (fileArgs F) source w' = Some fp \<and>
    fileContent F (engine (pw_run w)) (o_template out) \<noteq> None \<and>
    (\<forall>c \<in> set (source # o_clones out). fileContent F (engine (pw_run w')) c = fileContent F (engine (pw_run w)) (o_template out))"
proof (rule hit_path [OF assms(1-3)])
  let ?a = "fileArgs F" and ?e = "\<lambda>w :: fs prepWorld. engine (pw_run w)"
  fix row clones w1 w2 w3 w4 w5 w6 u x y
  assume look: "lookupCachedSnapshot (d_engine (pa_db ?a)) fp w = (Inr (Some row), w1)"
    and live: "liveSnapshot (fileExists F) (d_engine (pa_db ?a)) row w1 = (Inr True, w2)"
    and hit: "emit ''info'' ''snapshots:cache:hit'' w2 = (Inr x, w3)" and res: "resolveClones ?a w3 = (Inr clones, w4)"
    and gate: "templateBuiltTargets ?a (fileExists F) source clones fp w4 = (Inr False, w5)"
    and fan: "fanOut ?a (fileRestore F) (sn_template row) (targetsOf source clones) w5 = (Inr (), w6)"
    and mark: "bindA (recordTemplateBuilt ?a source fp) (\<lambda>_. emit ''info'' ''prepare:end'') w6 = (Inr y, w')"
    and out: "out = hitOutcome ?a source (sn_template row) fp clones" and al: "alone (pw_built w5)"
  have o: "o_template out = sn_template row" "o_clones out = clones" "o_cache_hit out" "o_fingerprint out = fp"
    by (simp_all add: out hitOutcome_def noOutcome_def)
  have c1: "fileContent F (?e w1) = fileContent F (?e w)" by (rule foot_none [OF foot_lookup(1) look])
  have c5: "fileContent F (?e w5) = fileContent F (?e w)"
    using c1 foot_none [OF foot_lookup(2) live] emit_run [OF hit] foot_none [OF foot_lookup(3) res] foot_none [OF foot_lookup(4) gate]
    by simp
  have tm: "fileContent F (?e w) (sn_template row) \<noteq> None" using liveSnapshot_alive [OF live] by (simp add: c1)
  obtain v where v: "fanOutClones (pa_procs ?a) (pa_sched ?a) (fileRestore F) (sn_template row) (targetsOf source clones)
      (d_engine (pa_db ?a)) (d_fanout (pa_db ?a)) (pa_maxConns ?a) (pw_run w5) = (Inr (), v)" "w6 = w5\<lparr>pw_run := v\<rparr>"
    using fan by (auto simp: fanOut_def onRun_def split: prod.splits)
  have "\<forall>c \<in> set (targetsOf source clones). fileContent F (?e w6) c = fileContent F (?e w) (sn_template row)"
    using conjunct2 [OF filefan.fanOut_run [OF v(1) assms(5,6) [unfolded o(1,2)]]] assms(4) tm c5 o(1) v(2) by simp
  moreover obtain u1 w7 where rec: "recordTemplateBuilt ?a source fp w6 = (Inr u1, w7)" "emit ''info'' ''prepare:end'' w7 = (Inr y, w')"
    using mark unfolding bindA_Inr by blast
  have "fileContent F (?e w') = fileContent F (?e w6)"
    using foot_none [OF foot_lookup(5) rec(1)] emit_run [OF rec(2)] by simp
  moreover have "markerOfDb ?a source w' = Some fp"
    using recordTemplateBuilt_marks [OF _ rec(1)] al v(2) built_same [OF marks.frame_onRun rec(2)] by simp
  moreover have "set (source # clones) = set (targetsOf source clones)" by (auto simp: targetsOf_def)
  ultimately show ?thesis using o tm by auto
qed

section \<open>A sample\<close>

definition prepDb :: DatabaseConfig where
  "prepDb = \<lparr>d_engine = ''sqlite'', d_connection = [], d_name_template = ''a.db'', d_key_prefix = [],
     d_test_clones = Some \<lparr>tcClones = \<lparr>Auto = False, Fixed = 2\<rparr>, tcNameTemplate = ''t{n}.db''\<rparr>, d_fanout = 0, d_branch_scoped = False\<rparr>"

definition prepCtx :: Context where
  "prepCtx = \<lparr>cSlug = ''s'', cSlugDash = ''s'', cSlugRedisQueue = [], cSlugRedisCache = [], cN = 0, HasN = False, cTargetDB = [],
     HasTargetDB = False, cPorts = Map.empty, cDBs = []\<rparr>"

definition prepHash :: slug_env where
  "prepHash = \<lparr>blake3_Sum256 = \<lambda>_. [171], slugSuffix = [], filepath_Abs = \<lambda>_. None\<rparr>"


definition prepRun :: "fs step option \<Rightarrow> fileRun" where
  "prepRun mig =
     \<lparr>ff_args = \<lparr>pa_db = prepDb, pa_ctx = prepCtx, pa_wtPath = [], pa_repo = 0, pa_worktree = 1, pa_hash = prepHash, pa_procs = 2, pa_sched = [(1, False)],
        pa_detected = 0, pa_cpus = 1, pa_hasDump = False, pa_dumps = Inr [], pa_migrate = mig, pa_seed = None, pa_rollback = None,
        pa_lockfileGlobs = [], pa_version = [], pa_maxConns = 0\<rparr>,
      ff_base = [], ff_wtPath = ''/w'', ff_key = Inr (New ''sqlite'' [] [] [] [] [] [], []), ff_applySQL = \<lambda>_ _. returnA ()\<rparr>"

definition prepRow :: snapshotRow where
  "prepRow = \<lparr>row_rec = \<lparr>sn_fingerprint = ''f'', sn_engine = ''sqlite'', sn_engine_version = [], sn_source_db = ''/w/a.db'',
     sn_template = ''/w/_tm_f.db'', sn_migrations_hash = [], sn_dump_hash = [], sn_lockfiles = [], sn_connection = [],
     sn_inputs = [], sn_size = 0, sn_created = 1, sn_used = 1, sn_uses = 1, sn_repo = 0\<rparr>, row_lock_ok = True, row_inputs_ok = True\<rparr>"

definition prepWorld0 :: "builtRow list \<Rightarrow> fs prepWorld" where
  "prepWorld0 marks =
     \<lparr>pw_run = \<lparr>engine = \<lparr>fs_files = [(''/w/a.db'', ''old''), (''/w/_tm_f.db'', ''good''), (''/w/t1.db'', ''old''), (''/w/t2.db'', ''old''), (''/o/x'', ''x'')],
        fs_dirs = [''/w'', ''/o''], fs_faults = []\<rparr>, store = emptyStore, ctx = [], event_log = []\<rparr>,
      pw_snaps = \<lparr>tables = \<lparr>snapshots = [prepRow], snap_repos = []\<rparr>, clock = 5, script = []\<rparr>,
      pw_built = \<lparr>tables = \<lparr>template_db_built = marks, tb_worktrees = [1]\<rparr>, clock = 5, script = []\<rparr>,
      pw_pins = noPins, pw_flights = Map.empty, pw_chans = [], pw_busy = []\<rparr>"


section \<open>A marker that outlives its database\<close>










definition okStep :: "fs step" where
  "okStep = runnerRun ''migrate'' (\<lambda>p s. (Inr (0, ''done''), setFile p ''new'' s))"

abbreviation prepKey :: Key where
  "prepKey \<equiv> New ''sqlite'' [] [] [] [] [] []"



abbreviation hitRun :: "(go_error + Outcome \<times> bool \<times> (string \<times> nat) option) \<times> fs prepWorld" where
  "hitRun \<equiv> cacheHitGeneric (fileArgs (prepRun None)) (fileExists (prepRun None)) (fileRestore (prepRun None)) ''/w/a.db'' ''f'' (prepWorld0 [])"

theorem hit_restores_targets_witness:
  "fileAt (engine (pw_run (snd hitRun))) ''/w/a.db'' = Some ''good'' \<and> fileAt (engine (pw_run (snd hitRun))) ''/w/t2.db'' = Some ''good'' \<and>
   markerOfDb (fileArgs (prepRun None)) ''/w/a.db'' (snd hitRun) = Some ''f''"
proof -
  let ?F = "prepRun None" and ?w = "prepWorld0 []"
  let ?out = "hitOutcome (fileArgs ?F) ''/w/a.db'' ''/w/_tm_f.db'' ''f'' [''t1.db'', ''t2.db'']"
  have "fst hitRun = Inr (?out, True, None)" by code_simp
  then have run: "cacheHitGeneric (fileArgs ?F) (fileExists ?F) (fileRestore ?F) ''/w/a.db'' ''f'' ?w = (Inr (?out, True, None), snd hitRun)"
    by (metis prod.collapse)
  have al: "alone (pw_built ?w)" by code_simp
  have m: "markerOfDb (fileArgs ?F) ''/w/a.db'' ?w \<noteq> Some ''f''" by code_simp
  have ab: "IsAbs (o_template ?out)" by code_simp
  have paths: "pathOf ?F ''/w/_tm_f.db'' = ''/w/_tm_f.db''" "pathOf ?F ''/w/a.db'' = ''/w/a.db''" "pathOf ?F ''t1.db'' = ''/w/t1.db''"
    "pathOf ?F ''t2.db'' = ''/w/t2.db''" by code_simp+
  have o: "o_template ?out = ''/w/_tm_f.db''" "o_clones ?out = [''t1.db'', ''t2.db'']"
    by code_simp+
  have apart: "\<forall>c \<in> set (targetsOf ''/w/a.db'' (o_clones ?out)). o_template ?out \<notin> fileOwn ?F c"
    "\<forall>c \<in> set (targetsOf ''/w/a.db'' (o_clones ?out)). \<forall>d \<in> set (targetsOf ''/w/a.db'' (o_clones ?out)). c \<noteq> d \<longrightarrow> c \<notin> fileOwn ?F d"
    unfolding o by (simp_all add: targetsOf_def fileOwn_def paths dbFiles_def SidecarPaths_def sidecarSuffixes_def)
  have tm: "fileAt (engine (pw_run ?w)) ''/w/_tm_f.db'' = Some ''good''" by code_simp
  show ?thesis
    using hit_restores_targets [OF run al m ab apart] unfolding o by (simp add: fileContent_def paths tm)
qed

abbreviation builtRun :: "(go_error + Outcome) \<times> fs prepWorld" where
  "builtRun \<equiv> fileBuild (prepRun (Some okStep)) ''/w/a.db'' ''/w/_tm_ab.db'' prepKey [] (prepWorld0 [])"

theorem file_build_ready_witness:
  "\<exists>bytes. fileAt (engine (pw_run (snd builtRun))) ''/w/a.db'' = Some bytes \<and> fileAt (engine (pw_run (snd builtRun))) ''/w/_tm_ab.db'' = Some bytes \<and>
     fileAt (engine (pw_run (snd builtRun))) ''/w/t1.db'' = Some bytes \<and> rowFor (tables (pw_snaps (snd builtRun))) ''ab'' ''/w/_tm_ab.db''"
proof -
  let ?F = "prepRun (Some okStep)" and ?w = "prepWorld0 []" and ?tmpl = "''/w/_tm_ab.db''"
  let ?out = "builtOutcome (fileArgs ?F) ''/w/a.db'' ?tmpl prepKey [''/w/t1.db'', ''/w/t2.db''] []"
  have "fst builtRun = Inr ?out" by code_simp
  then have run: "fileBuild ?F ''/w/a.db'' ?tmpl prepKey [] ?w = (Inr ?out, snd builtRun)" by (metis prod.collapse)
  have tmpl: "?tmpl = TemplatePath ''/w/a.db'' (Fingerprint (pa_hash (fileArgs ?F)) prepKey)" by code_simp
  have ab: "IsAbs ''/w/a.db''" by code_simp
  have cl: "builtClones ?F = [''/w/t1.db'', ''/w/t2.db'']" by code_simp
  have paths: "pathOf ?F ''/w/a.db'' = ''/w/a.db''" "pathOf ?F ?tmpl = ?tmpl" "pathOf ?F ''/w/t1.db'' = ''/w/t1.db''"
    "pathOf ?F ''/w/t2.db'' = ''/w/t2.db''" by code_simp+
  have apart: "clonesApart ?F ''/w/a.db'' ?tmpl"
    unfolding clonesApart_def cl by (simp add: paths dbFiles_def SidecarPaths_def sidecarSuffixes_def)
  have al: "alone (pw_snaps ?w)" by code_simp
  have out: "o_clones ?out = [''/w/t1.db'', ''/w/t2.db'']" "o_fingerprint ?out = ''ab''" by code_simp+
  show ?thesis
    using file_build_ready [OF run tmpl ab apart al] unfolding out by (auto simp: fileContent_def paths)
qed



text \<open>A clone whose name renders to an absolute path lands under the base after a build, and at that path after a hit.\<close>

lemma absolute_clone_two_places:
  "resolveFile (prepRun None) ''/t1.db'' = Inr ''/t1.db'' \<and> sourcePaths (prepRun None) [''/t1.db''] = Inr [''/w/t1.db'']"
  by code_simp

text \<open>The rebuild of one database removes a database of another worktree whose name extends its stem.\<close>

lemma cold_build_removes_neighbour:
  "fileAt (snd (removeSiblings ''/w/app.db'' \<lparr>fs_files = [(''/w/app_feature.db'', ''x'')], fs_dirs = [''/w''], fs_faults = []\<rparr>)) ''/w/app_feature.db'' = None"
  by code_simp

end
