(* ===== verification/Teardown.thy ===== *)
theory Teardown
  imports BranchOps TemplateBuilt EngineConn Prepare
begin

text \<open>
  Dropping the databases of a worktree: what it owns (\<open>internal/prepare/owned.go\<close>), the teardown of one worktree and of a
  batch of slugs (\<open>internal/prepare/prepare.go\<close>), the retry of failed teardowns
  (\<open>internal/store/teardown_pending.go\<close>, \<open>internal/daemon/teardown_retry.go\<close>), recovery after a failed prepare
  (\<open>internal/prepare/recover.go\<close>) and the preview of a teardown (\<open>internal/prepare/preview.go\<close>).  Databases are torn down
  one after the other here; they are independent.  A server is reached through the connection operations.
\<close>

section \<open>Model\<close>

subsection \<open>Pending teardowns\<close>

text \<open>The columns of the table of worktrees that the retry reads.\<close>

record pendRow =
  pr_id :: int
  pr_repo :: int
  pr_path :: string
  pr_slug :: string
  pr_error :: "string option"
  pr_deleted :: bool

datatype pendOp = PWorktree pendRow | PError int "string option" | PDelete int | PDrop int

fun applyPendOp :: "pendOp \<Rightarrow> pendRow list \<Rightarrow> pendRow list" where
  "applyPendOp (PWorktree r) t = upsertBy pr_id (\<lambda>_. r) r t"
| "applyPendOp (PError w e) t = map (\<lambda>r. if pr_id r = w then r\<lparr>pr_error := e\<rparr> else r) t"
| "applyPendOp (PDelete w) t = map (\<lambda>r. if pr_id r = w then r\<lparr>pr_deleted := True\<rparr> else r) t"
| "applyPendOp (PDrop w) t = filter (\<lambda>r. pr_id r \<noteq> w) t"

type_synonym pendDB = "(pendRow list, pendOp) db"

abbreviation execP :: "(pendRow list \<Rightarrow> go_error + pendRow list) \<Rightarrow> (pendDB, unit) action" where
  "execP stmt \<equiv> optionA (Exec applyPendOp stmt)"

definition SetTeardownError :: "int \<Rightarrow> string \<Rightarrow> (pendDB, unit) action" where
  "SetTeardownError w msg = execP (\<lambda>t. Inr (map (\<lambda>r. if pr_id r = w then r\<lparr>pr_error := Some msg\<rparr> else r) t))"

definition ClearTeardownError :: "int \<Rightarrow> (pendDB, unit) action" where
  "ClearTeardownError w = execP (\<lambda>t. Inr (map (\<lambda>r. if pr_id r = w \<and> pr_error r \<noteq> None then r\<lparr>pr_error := None\<rparr> else r) t))"

definition pendingOf :: "int \<Rightarrow> pendRow list \<Rightarrow> pendRow list" where
  "pendingOf repo t =
     sort_key pr_id (filter (\<lambda>w. pr_repo w = repo \<and> pr_error w \<noteq> None \<and> pr_deleted w \<and>
       \<not> list_ex (\<lambda>l. pr_slug l = pr_slug w \<and> pr_repo l = pr_repo w \<and> \<not> pr_deleted l) t) t)"

definition ListPendingTeardowns :: "int \<Rightarrow> (pendDB, pendRow list) action" where
  "ListPendingTeardowns repo = Query applyPendOp (pendingOf repo)"

subsection \<open>The state\<close>

text \<open>
  The run of the branch lifecycle (engine, branch tables, context, events) with the built-at markers and the pending
  teardowns.
\<close>

record 'e tdWorld =
  td_run :: "'e world"
  td_built :: builtDB
  td_pend :: pendDB

definition tdRun :: "('e world, 'a) action \<Rightarrow> ('e tdWorld, 'a) action" where
  "tdRun m w = (case m (td_run w) of (r, v) \<Rightarrow> (r, w\<lparr>td_run := v\<rparr>))"

definition tdBuilt :: "(builtDB, 'a) action \<Rightarrow> ('e tdWorld, 'a) action" where
  "tdBuilt m w = (case m (td_built w) of (r, v) \<Rightarrow> (r, w\<lparr>td_built := v\<rparr>))"

definition tdPend :: "(pendDB, 'a) action \<Rightarrow> ('e tdWorld, 'a) action" where
  "tdPend m w = (case m (td_pend w) of (r, v) \<Rightarrow> (r, w\<lparr>td_pend := v\<rparr>))"

text \<open>
  \<open>te_ops\<close> are the connections of the engines; \<open>te_connect\<close> dials one and says whether the engine is configured,
  \<open>te_dropper\<close> is the capability of dropping a single database, which a connection may lack.
  \<open>te_dial\<close> reaches the engine of a branch-scoped entry.
\<close>

record 'e tdEnv =
  te_cfg :: Config
  te_names :: nameEnv
  te_dial :: "'e dial"
  te_ops :: "'e connOps"
  te_connect :: "Family \<Rightarrow> string \<Rightarrow> ('e, bool) action"
  te_dropper :: "Family \<Rightarrow> (string \<Rightarrow> string \<Rightarrow> ('e, unit) action) option"
  te_base_of :: "string \<Rightarrow> string"

subsection \<open>What a worktree owns\<close>

definition fileTeardownTarget :: "'e tdEnv \<Rightarrow> int \<Rightarrow> string \<Rightarrow> string \<Rightarrow> ('e world, string) action" where
  "fileTeardownTarget X w connName rendered =
     bindA (onStore (WorktreePathByID w)) (\<lambda>wtPath.
       case SourcePath (te_base_of X connName) wtPath rendered of Inl e \<Rightarrow> raiseA e | Inr p \<Rightarrow> returnA p)"

definition teardownTarget ::
  "'e tdEnv \<Rightarrow> int \<Rightarrow> DatabaseConfig \<Rightarrow> Family \<Rightarrow> Context \<Rightarrow> ('e world, string) action" where
  "teardownTarget X w d fam c =
     (let (tmpl, fld) = (if Family_Scope fam = ScopePrefix then (d_key_prefix d, ''key_prefix'') else (d_name_template d, ''name_template''))
      in case Render tmpl c of
           Inl e \<Rightarrow> raiseA (Wrapf (label fam @ '': render '' @ fld @ '' '' @ quoted tmpl @ '': '') (renderFailed e) [])
         | Inr target \<Rightarrow>
             if target = [] then
               raiseA (NewError (label fam @ '': '' @ fld @ '' '' @ quoted tmpl @ '' renders empty; refusing to drop every namespace''))
             else if fam = FamilyFile then fileTeardownTarget X w (d_connection d) target
             else returnA target)"

text \<open>The parts of the clone template around its first \<open>{n}\<close>, when the database has clones.\<close>

definition clonePattern :: "TestClonesSpec option \<Rightarrow> Context \<Rightarrow> go_error + (string \<times> string) option" where
  "clonePattern spec c =
     (case spec of
        None \<Rightarrow> Inr None
      | Some p \<Rightarrow>
          if tcNameTemplate p = [] then Inr None
          else
            case Cut (tcNameTemplate p) ''{n}'' of
              None \<Rightarrow> Inl (NewError (''test_clones.name_template '' @ quoted (tcNameTemplate p) @ '' has no {n}''))
            | Some (before, after) \<Rightarrow>
                let failed = \<lambda>e. Inl (Wrapf (''render test_clones.name_template '' @ quoted (tcNameTemplate p) @ '': '') (renderFailed e) [])
                in case Render before c of
                     Inl e \<Rightarrow> failed e
                   | Inr pre \<Rightarrow> (case Render after c of Inl e \<Rightarrow> failed e | Inr suf \<Rightarrow> Inr (Some (pre, suf))))"

definition CutSuffix :: "string \<Rightarrow> string \<Rightarrow> string option" where
  "CutSuffix s suf = (if HasSuffix s suf then Some (take (length s - length suf) s) else None)"

definition isCloneName :: "string \<Rightarrow> string \<Rightarrow> string \<Rightarrow> bool" where
  "isCloneName name pre suf =
     (case CutPrefix name pre of
        None \<Rightarrow> False
      | Some rest \<Rightarrow>
          (case CutSuffix rest suf of
             None \<Rightarrow> False
           | Some mid \<Rightarrow> mid \<noteq> [] \<and> list_all is_digit mid))"

definition ownedDatabases ::
  "'e tdEnv \<Rightarrow> Family \<Rightarrow> string \<Rightarrow> string \<Rightarrow> TestClonesSpec option \<Rightarrow> Context \<Rightarrow> ('e, string list) action" where
  "ownedDatabases X fam conn target clones c =
     (case clonePattern clones c of
        Inl e \<Rightarrow> raiseA e
      | Inr None \<Rightarrow> returnA [target]
      | Inr (Some (pre, suf)) \<Rightarrow>
          bindA (wrapA (\<lambda>e. Wrapf (''list test clones under '' @ quoted pre @ '': '') e []) (op_listMatching (te_ops X) fam conn pre)) (\<lambda>live.
            returnA (target # filter (\<lambda>n. n \<noteq> target \<and> isCloneName n pre suf) live)))"

fun dropLoop ::
  "Family \<Rightarrow> (string \<Rightarrow> ('e, unit) action) \<Rightarrow> string list \<Rightarrow> nat \<Rightarrow> go_error list \<Rightarrow> ('e, nat \<times> go_error list) action" where
  "dropLoop fam drop1 [] dropped errs = returnA (dropped, errs)"
| "dropLoop fam drop1 (n # ns) dropped errs =
     bindA (tryA (drop1 n)) (\<lambda>r.
       case r of
         Inl err \<Rightarrow> dropLoop fam drop1 ns dropped (errs @ [Wrapf (label fam @ '': drop '' @ n @ '': '') err []])
       | Inr _ \<Rightarrow> dropLoop fam drop1 ns (dropped + 1) errs)"

definition dropOwned ::
  "'e tdEnv \<Rightarrow> Family \<Rightarrow> string \<Rightarrow> string \<Rightarrow> TestClonesSpec option \<Rightarrow> Context \<Rightarrow> ('e, nat) action" where
  "dropOwned X fam conn target clones c =
     (if Family_Scope fam = ScopePrefix \<or> fam = FamilyFile then op_dropMatching (te_ops X) fam conn target
      else
        case te_dropper X fam of
          None \<Rightarrow> raiseA (NewError (label fam @ '': connection cannot drop a single database''))
        | Some dropper \<Rightarrow>
            bindA (ownedDatabases X fam conn target clones c) (\<lambda>names.
            bindA (dropLoop fam (dropper conn) names 0 []) (\<lambda>(dropped, errs).
              case joinAll errs of None \<Rightarrow> returnA dropped | Some e \<Rightarrow> raiseA e)))"

subsection \<open>Teardown\<close>

definition slugContext :: "'e tdEnv \<Rightarrow> string \<Rightarrow> Context" where
  "slugContext X sl = FromSlug (redis (te_names X)) \<lparr>Value = sl, Source = SourceTicket\<rparr>"

definition teardownGeneric :: "string \<Rightarrow> (string \<Rightarrow> ('e, nat) action) \<Rightarrow> ('e world, unit) action" where
  "teardownGeneric target drop1 =
     bindA (Retry.onEngine (drop1 target)) (\<lambda>_. writeEvent ''info'' ''db:drop'')"

text \<open>\<open>defer conn.Close()\<close>\<close>

definition closing :: "'e tdEnv \<Rightarrow> Family \<Rightarrow> string \<Rightarrow> ('e world, 'a) action \<Rightarrow> ('e world, 'a) action" where
  "closing X fam name m w = (case m w of (r, v) \<Rightarrow> (r, snd (Retry.onEngine (op_close (te_ops X) fam name) v)))"

definition teardownOne ::
  "'e tdEnv \<Rightarrow> DatabaseConfig \<Rightarrow> Context \<Rightarrow> int \<Rightarrow> int \<Rightarrow> ('e world, unit) action" where
  "teardownOne X d c repo w =
     (if d_branch_scoped d then teardownBranchScoped (te_names X) (te_dial X) d repo w
      else
        case Canonical (d_engine d) of
          None \<Rightarrow> writeEvent ''warn'' ''db:teardown:skip''
        | Some fam \<Rightarrow>
            if \<not> op_configured (te_ops X) fam (d_connection d) then returnA ()
            else
              bindA (teardownTarget X w d fam c) (\<lambda>target.
              bindA (Retry.onEngine (te_connect X fam (d_connection d))) (\<lambda>_.
                closing X fam (d_connection d)
                  (teardownGeneric target (\<lambda>t. dropOwned X fam (d_connection d) t (d_test_clones d) c)))))"

text \<open>Every database is torn down; the failures come back in order.\<close>

fun teardownLoop ::
  "'e tdEnv \<Rightarrow> Context \<Rightarrow> string \<Rightarrow> int \<Rightarrow> int \<Rightarrow> nat \<Rightarrow> DatabaseConfig list \<Rightarrow> ('e world, go_error list) action" where
  "teardownLoop X c sl repo w i [] = returnA []"
| "teardownLoop X c sl repo w i (d # ds) =
     bindA (tryA (teardownOne X d c repo w)) (\<lambda>r.
     bindA (case r of Inl _ \<Rightarrow> writeEvent ''warn'' ''db:teardown:error'' | Inr _ \<Rightarrow> returnA ()) (\<lambda>_.
     bindA (teardownLoop X c sl repo w (i + 1) ds) (\<lambda>errs.
       case r of
         Inl err \<Rightarrow>
           returnA (Wrapf (''teardown '' @ d_engine d @ '' database '' @ Itoa (int i) @ '' (slug '' @ sl @ ''): '') err [] # errs)
       | Inr _ \<Rightarrow> returnA errs)))"

definition recordTeardownOutcome :: "int \<Rightarrow> go_error option \<Rightarrow> ('e tdWorld, unit) action" where
  "recordTeardownOutcome w teardownErr =
     (case teardownErr of
        Some err \<Rightarrow>
          wrapA (\<lambda>e. Wrapf (''record teardown error for worktree '' @ Itoa w @ '': '') e []) (tdPend (SetTeardownError w (Error err)))
      | None \<Rightarrow>
          bindA (wrapA (\<lambda>e. Wrapf (''clear active-branch markers for worktree '' @ Itoa w @ '': '') e [])
                  (tdRun (onStore (ClearActiveBranchesForWorktree w)))) (\<lambda>_.
            wrapA (\<lambda>e. Wrapf (''clear teardown error for worktree '' @ Itoa w @ '': '') e []) (tdPend (ClearTeardownError w))))"

definition TeardownDatabases :: "'e tdEnv \<Rightarrow> string \<Rightarrow> int \<Rightarrow> int \<Rightarrow> ('e tdWorld, unit) action" where
  "TeardownDatabases X sl repo w =
     bindA (tdRun (teardownLoop X (slugContext X sl) sl repo w 0 (Databases (te_cfg X)))) (\<lambda>errs.
       let err = joinAll errs
       in if w \<le> 0 then (case err of None \<Rightarrow> returnA () | Some e \<Rightarrow> raiseA e)
          else
            bindA (tryA (recordTeardownOutcome w err)) (\<lambda>r.
              case joinAll ((case err of None \<Rightarrow> [] | Some e \<Rightarrow> [e]) @ (case r of Inl e \<Rightarrow> [e] | Inr _ \<Rightarrow> [])) of
                None \<Rightarrow> returnA ()
              | Some e \<Rightarrow> raiseA e))"

text \<open>\<open>in_flight\<close>: another teardown of the path runs in this process.\<close>

definition retryTeardown :: "'e tdEnv \<Rightarrow> (string \<Rightarrow> bool) \<Rightarrow> pendRow \<Rightarrow> ('e tdWorld, unit) action" where
  "retryTeardown X in_flight p =
     (if in_flight (pr_path p) then returnA ()
      else
        bindA (tryA (TeardownDatabases X (pr_slug p) (pr_repo p) (pr_id p))) (\<lambda>r.
          tdRun (writeEvent (if isl r then ''warn'' else ''info'') ''db:teardown:retry'')))"

fun retryLoop :: "'e tdEnv \<Rightarrow> (string \<Rightarrow> bool) \<Rightarrow> pendRow list \<Rightarrow> ('e tdWorld, unit) action" where
  "retryLoop X in_flight [] = returnA ()"
| "retryLoop X in_flight (p # ps) =
     bindA (tdRun Retry.ctxErr) (\<lambda>e.
       if e \<noteq> None then returnA ()
       else bindA (retryTeardown X in_flight p) (\<lambda>_. retryLoop X in_flight ps))"

definition retryPendingTeardowns :: "'e tdEnv \<Rightarrow> (string \<Rightarrow> bool) \<Rightarrow> int \<Rightarrow> ('e tdWorld, unit) action" where
  "retryPendingTeardowns X in_flight repo =
     (if Databases (te_cfg X) = [] then returnA ()
      else
        bindA (tryA (tdPend (ListPendingTeardowns repo))) (\<lambda>r.
          case r of Inl _ \<Rightarrow> returnA () | Inr pending \<Rightarrow> retryLoop X in_flight pending))"

subsection \<open>A batch of slugs over shared connections\<close>

text \<open>The pool holds one connection for each family and connection name; the second component counts the dials.\<close>

definition pooledConnect ::
  "'e tdEnv \<Rightarrow> Family \<Rightarrow> string \<Rightarrow> (Family \<times> string) list \<Rightarrow> ('e world, (Family \<times> string) list) action" where
  "pooledConnect X fam name opened =
     (if (fam, name) \<in> set opened then returnA opened
      else bindA (Retry.onEngine (te_connect X fam name)) (\<lambda>_. returnA ((fam, name) # opened)))"

text \<open>One database of one slug: the pool afterwards and whether it failed.\<close>

definition batchOne ::
  "'e tdEnv \<Rightarrow> Context \<Rightarrow> int \<Rightarrow> int \<Rightarrow> DatabaseConfig \<Rightarrow> (Family \<times> string) list \<Rightarrow>
     ('e world, (Family \<times> string) list \<times> bool) action" where
  "batchOne X c repo w d opened =
     (if d_branch_scoped d then
        bindA (tryA (teardownBranchScoped (te_names X) (te_dial X) d repo w)) (\<lambda>r. returnA (opened, isl r))
      else
        case Canonical (d_engine d) of
          None \<Rightarrow> returnA (opened, False)
        | Some fam \<Rightarrow>
            if \<not> op_configured (te_ops X) fam (d_connection d) then returnA (opened, False)
            else
              bindA (tryA (teardownTarget X w d fam c)) (\<lambda>t.
                case t of
                  Inl _ \<Rightarrow> returnA (opened, True)
                | Inr target \<Rightarrow>
                    bindA (tryA (pooledConnect X fam (d_connection d) opened)) (\<lambda>p.
                      case p of
                        Inl _ \<Rightarrow> returnA (opened, True)
                      | Inr opened' \<Rightarrow>
                          bindA (tryA (teardownGeneric target (\<lambda>t. dropOwned X fam (d_connection d) t (d_test_clones d) c))) (\<lambda>r.
                            returnA (opened', isl r)))))"

fun batchDatabases ::
  "'e tdEnv \<Rightarrow> Context \<Rightarrow> int \<Rightarrow> int \<Rightarrow> DatabaseConfig list \<Rightarrow> (Family \<times> string) list \<Rightarrow> bool \<Rightarrow>
     ('e world, (Family \<times> string) list \<times> bool) action" where
  "batchDatabases X c repo w [] opened failed = returnA (opened, failed)"
| "batchDatabases X c repo w (d # ds) opened failed =
     bindA (batchOne X c repo w d opened) (\<lambda>(opened', f). batchDatabases X c repo w ds opened' (failed \<or> f))"

fun batchSlugs ::
  "'e tdEnv \<Rightarrow> int \<Rightarrow> int \<Rightarrow> string list \<Rightarrow> (Family \<times> string) list \<Rightarrow> nat \<Rightarrow>
     ('e world, (Family \<times> string) list \<times> nat) action" where
  "batchSlugs X repo w [] opened purged = returnA (opened, purged)"
| "batchSlugs X repo w (sl # sls) opened purged =
     bindA (batchDatabases X (slugContext X sl) repo w (Databases (te_cfg X)) opened False) (\<lambda>(opened', failed).
       batchSlugs X repo w sls opened' (if failed then purged else purged + 1))"

fun closeAll :: "'e tdEnv \<Rightarrow> (Family \<times> string) list \<Rightarrow> ('e world, unit) action" where
  "closeAll X [] = returnA ()"
| "closeAll X ((fam, name) # ps) = bindA (ignoreA (Retry.onEngine (op_close (te_ops X) fam name))) (\<lambda>_. closeAll X ps)"

definition TeardownSlugsConnReuse :: "'e tdEnv \<Rightarrow> string list \<Rightarrow> int \<Rightarrow> int \<Rightarrow> ('e world, nat) action" where
  "TeardownSlugsConnReuse X sls repo w =
     bindA (batchSlugs X repo w sls [] 0) (\<lambda>(opened, purged). bindA (closeAll X opened) (\<lambda>_. returnA purged))"

subsection \<open>Recovery\<close>

text \<open>The name whose marker is to be cleared, and the error.\<close>

definition recoverTestClone ::
  "'e tdEnv \<Rightarrow> DatabaseConfig \<Rightarrow> Context \<Rightarrow> int \<Rightarrow> ('e world, string \<times> go_error option) action" where
  "recoverTestClone X d c w =
     (case Canonical (d_engine d) of
        None \<Rightarrow> returnA ([], Some (NewError (''unknown engine '' @ quoted (d_engine d))))
      | Some fam \<Rightarrow>
          if fam = FamilyS3 then returnA ([], None)
          else
            bindA (tryA (Retry.onEngine (te_connect X fam (d_connection d)))) (\<lambda>k.
              case k of
                Inl e \<Rightarrow> returnA ([], Some e)
              | Inr False \<Rightarrow> returnA ([], None)
              | Inr True \<Rightarrow>
                  closing X fam (d_connection d) (
                  bindA (tryA (teardownTarget X w d fam c)) (\<lambda>t.
                    case t of
                      Inl e \<Rightarrow> returnA ([], Some e)
                    | Inr name \<Rightarrow>
                        bindA (tryA (Retry.onEngine (dropOwned X fam (d_connection d) name (d_test_clones d) c))) (\<lambda>r.
                          case r of
                            Inl e \<Rightarrow> returnA (name, Some e)
                          | Inr _ \<Rightarrow> bindA (writeEvent ''info'' ''worktree:recover:drop'') (\<lambda>_. returnA (name, None)))))))"

definition recoverBranchScoped ::
  "'e tdEnv \<Rightarrow> DatabaseConfig \<Rightarrow> string \<Rightarrow> int \<Rightarrow> int \<Rightarrow> ('e world, unit) action" where
  "recoverBranchScoped X d path repo w =
     (case branchScopeFor (d_engine d) of
        None \<Rightarrow> returnA ()
      | Some (sc, lbl) \<Rightarrow>
          if Canonical (d_engine d) = Some FamilyS3 then returnA ()
          else
            bindA (case activeNamespace (slugs (te_names X)) (redis (te_names X)) d sc path of
                     Inl err \<Rightarrow> raiseA (renderFailed err) | Inr act \<Rightarrow> returnA act) (\<lambda>active.
            bindA (onStore (siblingSlugs repo w)) (\<lambda>others.
              case te_dial X d others of
                Inl cerr \<Rightarrow> raiseA cerr
              | Inr None \<Rightarrow> returnA ()
              | Inr (Some E) \<Rightarrow>
                  bindA (Retry.onEngine (nsExists (drv E) active)) (\<lambda>present.
                    if \<not> present then returnA ()
                    else
                      bindA (Retry.onEngine (nsDrop (drv E) active)) (\<lambda>_.
                      bindA (ignoreA (onStore (ClearActiveBranch w active))) (\<lambda>_.
                        writeEvent ''info'' ''worktree:recover:drop''))))))"

definition recoverOne ::
  "'e tdEnv \<Rightarrow> Context \<Rightarrow> string \<Rightarrow> int \<Rightarrow> int \<Rightarrow> bool \<Rightarrow> DatabaseConfig \<Rightarrow> ('e tdWorld, unit) action" where
  "recoverOne X c path repo w filtered d =
     (if d_branch_scoped d then
        bindA (tryA (tdRun (recoverBranchScoped X d path repo w))) (\<lambda>r.
          if isl r then tdRun (writeEvent ''warn'' ''worktree:recover:error'') else returnA ())
      else
        bindA (tdRun (recoverTestClone X d c w)) (\<lambda>(name, err).
        bindA (if err \<noteq> None then tdRun (writeEvent ''warn'' ''worktree:recover:error'') else returnA ()) (\<lambda>_.
        bindA (tryA (if \<not> filtered then tdBuilt (ClearTemplateBuiltForWorktree w)
                     else if name \<noteq> [] then tdBuilt (ClearTemplateBuiltForKey w name)
                     else returnA ())) (\<lambda>r.
          if isl r then tdRun (writeEvent ''warn'' ''worktree:recover:error'') else returnA ()))))"

text \<open>\<open>None\<close> recovers every database, a list only those at its indices.\<close>

fun recoverLoop ::
  "'e tdEnv \<Rightarrow> Context \<Rightarrow> string \<Rightarrow> int \<Rightarrow> int \<Rightarrow> nat list option \<Rightarrow> nat \<Rightarrow> DatabaseConfig list \<Rightarrow>
     ('e tdWorld, unit) action" where
  "recoverLoop X c path repo w sel i [] = returnA ()"
| "recoverLoop X c path repo w sel i (d # ds) =
     bindA (case sel of
              Some is \<Rightarrow> if i \<in> set is then recoverOne X c path repo w True d else returnA ()
            | None \<Rightarrow> recoverOne X c path repo w False d) (\<lambda>_.
       recoverLoop X c path repo w sel (i + 1) ds)"

definition RecoverDatabases ::
  "'e tdEnv \<Rightarrow> string \<Rightarrow> string \<Rightarrow> int \<Rightarrow> int \<Rightarrow> nat list option \<Rightarrow> ('e tdWorld, unit) action" where
  "RecoverDatabases X sl path repo w sel = recoverLoop X (slugContext X sl) path repo w sel 0 (Databases (te_cfg X))"

definition RecoverStaleWorktree :: "'e tdEnv \<Rightarrow> string \<Rightarrow> string \<Rightarrow> int \<Rightarrow> int \<Rightarrow> ('e tdWorld, unit) action" where
  "RecoverStaleWorktree X sl path repo w = RecoverDatabases X sl path repo w None"

subsection \<open>Preview\<close>

record PlanEntry =
  pl_engine :: string
  pl_kind :: string
  pl_names :: "string list"

text \<open>\<open>detected\<close> and \<open>cpus\<close> are the counts behind an automatic number of clones.\<close>

definition planEntry ::
  "nameEnv \<Rightarrow> u32 \<Rightarrow> u32 \<Rightarrow> Context \<Rightarrow> string \<Rightarrow> string \<Rightarrow> DatabaseConfig \<Rightarrow> go_error + PlanEntry option" where
  "planEntry N detected cpus c path currentBranch d =
     (if d_branch_scoped d then
        case branchScopeFor (d_engine d) of
          None \<Rightarrow> Inr None
        | Some (sc, en) \<Rightarrow>
            (case activeNamespace (slugs N) (redis N) d sc path of
               Inl err \<Rightarrow> Inl (renderFailed err)
             | Inr active \<Rightarrow>
                 Inr (Some \<lparr>pl_engine = d_engine d, pl_kind = ''branch_scoped'',
                   pl_names = active # (if currentBranch = [] then [] else [durable (slugs N) sc en active currentBranch])\<rparr>))
      else if d_name_template d \<noteq> [] then
        case Render (d_name_template d) c of
          Inl err \<Rightarrow> Inl (renderFailed err)
        | Inr source \<Rightarrow>
            (case resolveCloneNames (d_test_clones d) c detected cpus of
               Inl err \<Rightarrow> Inl err
             | Inr clones \<Rightarrow> Inr (Some \<lparr>pl_engine = d_engine d, pl_kind = ''template'', pl_names = source # clones\<rparr>))
      else if d_key_prefix d \<noteq> [] then
        case Render (d_key_prefix d) c of
          Inl err \<Rightarrow> Inl (renderFailed err)
        | Inr pre \<Rightarrow> Inr (Some \<lparr>pl_engine = d_engine d, pl_kind = ''prefix'', pl_names = [pre]\<rparr>)
      else Inr None)"

fun planLoop ::
  "nameEnv \<Rightarrow> u32 \<Rightarrow> u32 \<Rightarrow> Context \<Rightarrow> string \<Rightarrow> string \<Rightarrow> DatabaseConfig list \<Rightarrow> go_error + PlanEntry list" where
  "planLoop N detected cpus c path branch [] = Inr []"
| "planLoop N detected cpus c path branch (d # ds) =
     (case planEntry N detected cpus c path branch d of
        Inl e \<Rightarrow> Inl e
      | Inr x \<Rightarrow>
          (case planLoop N detected cpus c path branch ds of
             Inl e \<Rightarrow> Inl e
           | Inr xs \<Rightarrow> Inr (case x of None \<Rightarrow> xs | Some p \<Rightarrow> p # xs)))"

definition PreviewTeardown ::
  "nameEnv \<Rightarrow> Config \<Rightarrow> u32 \<Rightarrow> u32 \<Rightarrow> string \<Rightarrow> string \<Rightarrow> string \<Rightarrow> go_error + PlanEntry list" where
  "PreviewTeardown N C detected cpus path slugValue currentBranch =
     (let sl = (if slugValue = [] then Value (For (slugs N) path []) else slugValue)
      in planLoop N detected cpus (FromSlug (redis N) \<lparr>Value = sl, Source = SourceTicket\<rparr>) path currentBranch (Databases C))"

definition PreviewBranchReset ::
  "nameEnv \<Rightarrow> Config \<Rightarrow> u32 \<Rightarrow> u32 \<Rightarrow> string \<Rightarrow> string \<Rightarrow> string \<Rightarrow> go_error + PlanEntry list" where
  "PreviewBranchReset N C detected cpus path slugValue currentBranch =
     map_sum id (filter (\<lambda>e. pl_kind e = ''branch_scoped'')) (PreviewTeardown N C detected cpus path slugValue currentBranch)"

end
