(* ===== verification/Postgres.thy ===== *)
theory Postgres
  imports EngineConn BranchState
begin

text \<open>
  The PostgreSQL driver (\<open>internal/db/postgres\<close>), the identifiers it interpolates (\<open>internal/db/ident\<close>), the private
  databases of a restore (\<open>internal/db/restorestage\<close>), the row counts that verify a capture
  (\<open>internal/db/rowcount\<close>), and its two adapters, \<open>postgresNS\<close> of \<open>internal/prepare/branchstate.go\<close> and \<open>postgresConn\<close>
  of \<open>internal/db/engineconn/engineconn.go\<close>.

  The server is a cluster of databases; a statement is what its documentation says of it, and a script gives what
  other clients do before it and the error it fails with, as for the store in theory \<open>Db\<close>.  A pool of
  connections is not part of the state.  The concurrent drops of \<open>DropMatching\<close> run one after the other.
\<close>

section \<open>Identifiers\<close>

definition identChar :: "char \<Rightarrow> bool" where
  "identChar c \<longleftrightarrow> is_upper c \<or> is_lower c \<or> is_digit c \<or> c = CHR ''_''"

definition validate :: "string \<Rightarrow> go_error option" where
  "validate s =
     (if s = [] then Some (NewError ''empty identifier'')
      else if \<not> list_all identChar s then Some (NewError (''invalid identifier: '' @ FileDb.quoted s))
      else None)"

definition QuoteMySQL :: "string \<Rightarrow> go_error + string" where
  "QuoteMySQL s = (case validate s of Some e \<Rightarrow> Inl e | None \<Rightarrow> Inr (CHR 0x60 # s @ [CHR 0x60]))"

definition QuotePostgres :: "string \<Rightarrow> go_error + string" where
  "QuotePostgres s = (case validate s of Some e \<Rightarrow> Inl e | None \<Rightarrow> Inr (CHR 0x22 # s @ [CHR 0x22]))"

section \<open>Restore stages\<close>

definition stagePrefix :: string where
  "stagePrefix = ''_tmrs_''"

text \<open>A day, in milliseconds.\<close>

definition MaxAge :: int where
  "MaxAge = 24 * 60 * 60 * 1000"

record Stage =
  Incoming :: string
  Retired :: string

text \<open>\<open>strconv.FormatInt(n, 16)\<close>\<close>

fun hexNat :: "nat \<Rightarrow> string" where
  "hexNat n = (if n < 16 then [hexDigit n] else hexNat (n div 16) @ [hexDigit (n mod 16)])"

declare hexNat.simps [simp del]

definition FormatHex :: "int \<Rightarrow> string" where
  "FormatHex i = (if i < 0 then CHR ''-'' # hexNat (nat (- i)) else hexNat (nat i))"

definition hexVal :: "char \<Rightarrow> nat" where
  "hexVal c = (if is_digit c then of_char c - 48 else of_char c - 87)"

definition ParseHex :: "string \<Rightarrow> nat" where
  "ParseHex s = foldl (\<lambda>n c. 16 * n + hexVal c) 0 s"

text \<open>A stage created at \<open>now\<close> (milliseconds) with eight random bytes.\<close>

definition newStage :: "int \<Rightarrow> u8 list \<Rightarrow> Stage" where
  "newStage now rnd =
     (let base = stagePrefix @ FormatHex (now div 1000) @ ''_'' @ hexEncode rnd
      in \<lparr>Incoming = base @ ''_n'', Retired = base @ ''_o''\<rparr>)"

text \<open>\<open>^_tmrs_([0-9a-f]{1,15})_[0-9a-f]{16}_[no]$\<close>: the first group, when the name matches.\<close>

definition stageName :: "string \<Rightarrow> string option" where
  "stageName name =
     (case CutPrefix name stagePrefix of
        None \<Rightarrow> None
      | Some body \<Rightarrow>
          (let sec = takeWhile (\<lambda>c. c \<noteq> CHR ''_'') body; r = drop (length sec) body
           in if 1 \<le> length sec \<and> length sec \<le> 15 \<and> list_all hex_char sec \<and>
                 length r = 19 \<and> r ! 0 = CHR ''_'' \<and> list_all hex_char (take 16 (drop 1 r)) \<and>
                 r ! 17 = CHR ''_'' \<and> (r ! 18 = CHR ''n'' \<or> r ! 18 = CHR ''o'')
              then Some sec else None))"

definition isStage :: "string \<Rightarrow> bool" where
  "isStage name \<longleftrightarrow> stageName name \<noteq> None"

text \<open>\<open>strconv.ParseInt\<close> succeeds on at most fifteen hexadecimal digits.\<close>

definition Stale :: "string list \<Rightarrow> int \<Rightarrow> string list" where
  "Stale ns now =
     filter (\<lambda>n. case stageName n of None \<Rightarrow> False | Some sec \<Rightarrow> MaxAge < now - int (ParseHex sec) * 1000) ns"

section \<open>The server\<close>

text \<open>\<open>LIKE\<close> with the backslash as its escape character.\<close>

fun like :: "string \<Rightarrow> string \<Rightarrow> bool" where
  "like [] s = (s = [])"
| "like (p # ps) s =
     (if p = CHR 0x5C then
        (case ps of [] \<Rightarrow> False | q # qs \<Rightarrow> (case s of [] \<Rightarrow> False | x # xs \<Rightarrow> x = q \<and> like qs xs))
      else if p = CHR ''%'' then like ps s \<or> (case s of [] \<Rightarrow> False | x # xs \<Rightarrow> like (p # ps) xs)
      else (case s of [] \<Rightarrow> False | x # xs \<Rightarrow> (p = CHR ''_'' \<or> x = p) \<and> like ps xs))"

declare like.simps(2) [simp del]

record 'c pgDatabase =
  datname :: string
  datallowconn :: bool
  sessions :: nat
  contents :: 'c
  tupWrites :: int

text \<open>A relation of the maintenance database \<open>postgres\<close>, the one the driver is connected to.\<close>

record pgRel =
  nspname :: string
  relname :: string
  relkind :: char
  reltuples :: int
  relrows :: int

record 'c pgCluster =
  pg_database :: "'c pgDatabase list"
  template1 :: 'c
  pg_class :: "pgRel list"

definition dbOf :: "'c pgCluster \<Rightarrow> string \<Rightarrow> 'c pgDatabase option" where
  "dbOf t n = find (\<lambda>d. datname d = n) (pg_database t)"

definition updDb :: "string \<Rightarrow> ('c pgDatabase \<Rightarrow> 'c pgDatabase) \<Rightarrow> 'c pgCluster \<Rightarrow> 'c pgCluster" where
  "updDb n f t = t\<lparr>pg_database := map (\<lambda>d. if datname d = n then f d else d) (pg_database t)\<rparr>"

definition newDb :: "string \<Rightarrow> 'c \<Rightarrow> 'c pgDatabase" where
  "newDb n c = \<lparr>datname = n, datallowconn = True, sessions = 0, contents = c, tupWrites = 0\<rparr>"

definition addDb :: "string \<Rightarrow> 'c \<Rightarrow> 'c pgCluster \<Rightarrow> 'c pgCluster" where
  "addDb n c t = t\<lparr>pg_database := pg_database t @ [newDb n c]\<rparr>"

definition delDb :: "string \<Rightarrow> 'c pgCluster \<Rightarrow> 'c pgCluster" where
  "delDb n t = t\<lparr>pg_database := filter (\<lambda>d. datname d \<noteq> n) (pg_database t)\<rparr>"

text \<open>A server error carries its SQLSTATE.\<close>

definition sqlStateObjectInUse :: string where
  "sqlStateObjectInUse = ''55006''"

definition sqlStateDuplicateDatabase :: string where
  "sqlStateDuplicateDatabase = ''42P04''"

definition sqlStateInvalidCatalogName :: string where
  "sqlStateInvalidCatalogName = ''3D000''"

definition PgError :: "string \<Rightarrow> string \<Rightarrow> go_error" where
  "PgError msg code = NewError (''ERROR: '' @ msg @ '' (SQLSTATE '' @ code @ '')'')"

fun asPgCode :: "go_error \<Rightarrow> string option" where
  "asPgCode (NewError s) =
     (if HasPrefix s ''ERROR: '' \<and> HasSuffix s '')'' \<and> HasSuffix (take (length s - 6) s) '' (SQLSTATE ''
      then Some (take 5 (drop (length s - 6) s)) else None)"
| "asPgCode (Wrapf a e b) = asPgCode e"
| "asPgCode (Wrapf2 a e b f c) = (case asPgCode e of Some x \<Rightarrow> Some x | None \<Rightarrow> asPgCode f)"
| "asPgCode e = None"

definition noDatabase :: "string \<Rightarrow> go_error" where
  "noDatabase n = PgError (''database '' @ FileDb.quoted n @ '' does not exist'') sqlStateInvalidCatalogName"

definition dupDatabase :: "string \<Rightarrow> go_error" where
  "dupDatabase n = PgError (''database '' @ FileDb.quoted n @ '' already exists'') sqlStateDuplicateDatabase"

definition inUse :: "string \<Rightarrow> go_error" where
  "inUse n = PgError (''database '' @ FileDb.quoted n @ '' is being accessed by other users'') sqlStateObjectInUse"

type_synonym 'c pgStmt = "'c pgCluster \<Rightarrow> go_error + 'c pgCluster"

definition stCreate :: "string \<Rightarrow> 'c pgStmt" where
  "stCreate n t = (if dbOf t n \<noteq> None then Inl (dupDatabase n) else Inr (addDb n (template1 t) t))"

definition stCreateFrom :: "string \<Rightarrow> string \<Rightarrow> 'c pgStmt" where
  "stCreateFrom n src t =
     (case dbOf t src of
        None \<Rightarrow> Inl (noDatabase src)
      | Some d \<Rightarrow>
          if dbOf t n \<noteq> None then Inl (dupDatabase n)
          else if 0 < sessions d then Inl (inUse src)
          else Inr (addDb n (contents d) t))"

definition stDropIfExists :: "string \<Rightarrow> 'c pgStmt" where
  "stDropIfExists n t =
     (case dbOf t n of
        None \<Rightarrow> Inr t
      | Some d \<Rightarrow> if 0 < sessions d then Inl (inUse n) else Inr (delDb n t))"

definition stRename :: "string \<Rightarrow> string \<Rightarrow> 'c pgStmt" where
  "stRename a b t =
     (case dbOf t a of
        None \<Rightarrow> Inl (noDatabase a)
      | Some d \<Rightarrow>
          if dbOf t b \<noteq> None then Inl (dupDatabase b)
          else if 0 < sessions d then Inl (inUse a)
          else Inr (updDb a (\<lambda>d. d\<lparr>datname := b\<rparr>) t))"

definition stAllow :: "string \<Rightarrow> bool \<Rightarrow> 'c pgStmt" where
  "stAllow n b t = (if dbOf t n = None then Inl (noDatabase n) else Inr (updDb n (\<lambda>d. d\<lparr>datallowconn := b\<rparr>) t))"

definition stTerminate :: "string \<Rightarrow> 'c pgStmt" where
  "stTerminate n t = Inr (updDb n (\<lambda>d. d\<lparr>sessions := 0\<rparr>) t)"

text \<open>What other clients do: connect where that is allowed, write, create and drop.\<close>

datatype 'c pgOp = PgConnect string | PgDisconnect string | PgWrite string 'c | PgCreate string 'c | PgDrop string

fun applyPgOp :: "'c pgOp \<Rightarrow> 'c pgCluster \<Rightarrow> 'c pgCluster" where
  "applyPgOp (PgConnect n) t = updDb n (\<lambda>d. if datallowconn d then d\<lparr>sessions := sessions d + 1\<rparr> else d) t"
| "applyPgOp (PgDisconnect n) t = updDb n (\<lambda>d. d\<lparr>sessions := sessions d - 1\<rparr>) t"
| "applyPgOp (PgWrite n c) t = updDb n (\<lambda>d. d\<lparr>contents := c, tupWrites := tupWrites d + 1\<rparr>) t"
| "applyPgOp (PgCreate n c) t = (if dbOf t n = None then addDb n c t else t)"
| "applyPgOp (PgDrop n) t = (case stDropIfExists n t of Inl e \<Rightarrow> t | Inr t' \<Rightarrow> t')"

text \<open>The server with the random bytes of the stages to come.\<close>

record 'c pg =
  pg_db :: "('c pgCluster, 'c pgOp) db"
  pg_rand :: "u8 list list"

definition onPg :: "(('c pgCluster, 'c pgOp) db, 'a) action \<Rightarrow> ('c pg, 'a) action" where
  "onPg m s = (case m (pg_db s) of (r, d) \<Rightarrow> (r, s\<lparr>pg_db := d\<rparr>))"

definition execOutsideTx :: "'c pgStmt \<Rightarrow> ('c pg, unit) action" where
  "execOutsideTx st = onPg (optionA (Exec applyPgOp st))"

definition queryPg :: "('c pgCluster \<Rightarrow> 'a) \<Rightarrow> ('c pg, 'a) action" where
  "queryPg sel = onPg (Query applyPgOp sel)"

text \<open>
  A transaction is the list of its statements: each is tried on the tables as the earlier ones leave them, other
  clients see none of them, and the commit runs them all or none.
\<close>

fun runStmts :: "'c pgStmt list \<Rightarrow> 'c pgStmt" where
  "runStmts [] t = Inr t"
| "runStmts (st # sts) t = (case st t of Inl e \<Rightarrow> Inl e | Inr t' \<Rightarrow> runStmts sts t')"

definition txExec :: "'c pgStmt list \<Rightarrow> 'c pgStmt \<Rightarrow> ('c pg, unit) action" where
  "txExec earlier st =
     bindA (queryPg (runStmts (earlier @ [st]))) (\<lambda>r. case r of Inl e \<Rightarrow> raiseA e | Inr _ \<Rightarrow> returnA ())"

definition txCommit :: "'c pgStmt list \<Rightarrow> ('c pg, unit) action" where
  "txCommit sts = execOutsideTx (runStmts sts)"

section \<open>The driver\<close>

definition orRaise :: "go_error + 'a \<Rightarrow> ('s, 'a) action" where
  "orRaise r = (case r of Inl e \<Rightarrow> raiseA e | Inr x \<Rightarrow> returnA x)"

definition pg_dbExists :: "string \<Rightarrow> ('c pg, bool) action" where
  "pg_dbExists n = queryPg (\<lambda>t. dbOf t n \<noteq> None)"

definition pg_DatabaseExists :: "string \<Rightarrow> ('c pg, bool) action" where
  "pg_DatabaseExists n = pg_dbExists n"

definition pg_terminateBackends :: "string \<Rightarrow> ('c pg, unit) action" where
  "pg_terminateBackends n =
     wrapA (\<lambda>e. Wrapf (''terminate the connections to '' @ n @ '': '') e []) (execOutsideTx (stTerminate n))"

text \<open>A missing row is an error of \<open>Scan\<close>; the counter is never null.\<close>

definition pg_WriteWatermark :: "string \<Rightarrow> ('c pg, string) action" where
  "pg_WriteWatermark n =
     bindA (queryPg (\<lambda>t. map_option tupWrites (dbOf t n))) (\<lambda>r.
       case r of
         None \<Rightarrow> raiseA (NewError ''sql: no rows in result set'')
       | Some k \<Rightarrow> returnA (''pg:'' @ Itoa k))"

definition pg_EnsureDB :: "string \<Rightarrow> ('c pg, unit) action" where
  "pg_EnsureDB n =
     bindA (orRaise (QuotePostgres n)) (\<lambda>_.
     bindA (pg_dbExists n) (\<lambda>present.
       if present then returnA () else execOutsideTx (stCreate n)))"

definition likeEscape :: "string \<Rightarrow> string" where
  "likeEscape s = concat (map (\<lambda>c. if c \<in> {CHR 0x5C, CHR ''_'', CHR ''%''} then [CHR 0x5C, c] else [c]) s)"

definition pg_ListMatching :: "string \<Rightarrow> ('c pg, string list) action" where
  "pg_ListMatching pre =
     (let pat = likeEscape pre @ ''%''
      in queryPg (\<lambda>t. sort (filter (like pat) (map datname (pg_database t)))))"

definition pg_dropOne :: "string \<Rightarrow> ('c pg, unit) action" where
  "pg_dropOne n =
     bindA (orRaise (QuotePostgres n)) (\<lambda>qn.
     bindA (pg_terminateBackends n) (\<lambda>_.
       wrapA (\<lambda>e. Wrapf (''DROP DATABASE '' @ qn @ '': '') e []) (execOutsideTx (stDropIfExists n))))"

text \<open>\<open>g.Wait\<close>: every job runs, the first failure is the result.\<close>

fun pg_dropJobs :: "string list \<Rightarrow> ('c pg, go_error option) action" where
  "pg_dropJobs [] = returnA None"
| "pg_dropJobs (n # ns) =
     bindA (tryA (pg_dropOne n)) (\<lambda>r.
     bindA (pg_dropJobs ns) (\<lambda>later.
       returnA (case r of Inl e \<Rightarrow> Some e | Inr _ \<Rightarrow> later)))"

definition pg_DropMatching :: "string \<Rightarrow> ('c pg, string list) action" where
  "pg_DropMatching pre =
     bindA (pg_ListMatching pre) (\<lambda>matched.
     bindA (pg_dropJobs matched) (\<lambda>failed.
       case failed of Some e \<Rightarrow> raiseA e | None \<Rightarrow> returnA matched))"

definition pg_FlushDatabase :: "string \<Rightarrow> ('c pg, unit) action" where
  "pg_FlushDatabase n = bindA (pg_DropMatching n) (\<lambda>_. pg_EnsureDB n)"

definition pg_DropDatabase :: "string \<Rightarrow> ('c pg, unit) action" where
  "pg_DropDatabase n = bindA (orRaise (QuotePostgres n)) (\<lambda>_. execOutsideTx (stDropIfExists n))"

definition pg_DropSnapshot :: "string \<Rightarrow> ('c pg, unit) action" where
  "pg_DropSnapshot n = bindA (orRaise (QuotePostgres n)) (\<lambda>_. execOutsideTx (stDropIfExists n))"

subsection \<open>Captures\<close>

text \<open>\<open>defer\<close> of a cleanup that joins its own failure into the result.\<close>

definition deferA :: "('s, unit) action \<Rightarrow> ('s, 'a) action \<Rightarrow> ('s, 'a) action" where
  "deferA cleanup m =
     bindA (tryA m) (\<lambda>r.
     bindA (tryA cleanup) (\<lambda>u.
       case u of
         Inr _ \<Rightarrow> orRaise r
       | Inl e \<Rightarrow> raiseA (case r of Inl x \<Rightarrow> Wrapf2 [] x [CHR 0x0A] e [] | Inr _ \<Rightarrow> Wrapf [] e [])))"

definition pg_SnapshotCreate :: "string \<Rightarrow> string \<Rightarrow> ('c pg, unit) action" where
  "pg_SnapshotCreate source template =
     bindA (orRaise (QuotePostgres source)) (\<lambda>_.
     bindA (orRaise (QuotePostgres template)) (\<lambda>_.
     bindA (execOutsideTx (stAllow source False)) (\<lambda>_.
       deferA
         (wrapA (\<lambda>e. Wrapf (''re-allow connections to '' @ source @ '' after cloning it: '') e [])
            (execOutsideTx (stAllow source True)))
         (bindA (pg_terminateBackends source) (\<lambda>_.
          bindA (wrapA (\<lambda>e. Wrapf (''drop the previous template '' @ template @ '': '') e [])
                   (execOutsideTx (stDropIfExists template))) (\<lambda>_.
            execOutsideTx (stCreateFrom template source)))))))"

subsection \<open>Restores\<close>

definition swapError :: "string \<Rightarrow> go_error \<Rightarrow> go_error" where
  "swapError target err =
     (case asPgCode err of
        None \<Rightarrow> err
      | Some code \<Rightarrow>
          if code = sqlStateObjectInUse then
            Wrapf (''other sessions are connected to '' @ target @ '', so the restore cannot replace it: '') err []
          else if code = sqlStateDuplicateDatabase \<or> code = sqlStateInvalidCatalogName then
            Wrapf (''another client created or dropped '' @ target @ '' while it was being restored: '') err []
          else err)"

definition pg_replaceDatabase :: "string \<Rightarrow> string \<Rightarrow> string \<Rightarrow> ('c pg, unit) action" where
  "pg_replaceDatabase from to retired =
     bindA (orRaise (QuotePostgres from)) (\<lambda>_.
     bindA (orRaise (QuotePostgres to)) (\<lambda>_.
     bindA (orRaise (QuotePostgres retired)) (\<lambda>_.
     bindA (wrapA (\<lambda>e. Wrapf (''begin swapping '' @ from @ '' into '' @ to @ '': '') e []) (queryPg (\<lambda>t. ()))) (\<lambda>_.
     bindA (wrapA (\<lambda>e. Wrapf (''look up '' @ to @ '': '') e []) (queryPg (\<lambda>t. dbOf t to \<noteq> None))) (\<lambda>present.
       let park = (if present then [stRename to retired] else []) in
     bindA (if present then
              wrapA (\<lambda>e. swapError to (Wrapf (''rename '' @ to @ '' to '' @ retired @ '': '') e [])) (txExec [] (stRename to retired))
            else returnA ()) (\<lambda>_.
     bindA (wrapA (\<lambda>e. swapError to (Wrapf (''rename '' @ from @ '' to '' @ to @ '': '') e [])) (txExec park (stRename from to))) (\<lambda>_.
       wrapA (\<lambda>e. swapError to (Wrapf (''commit swapping '' @ from @ '' into '' @ to @ '': '') e [])) (txCommit (park @ [stRename from to])))))))))"

fun pg_dropLoop :: "string list \<Rightarrow> ('c pg, go_error list) action" where
  "pg_dropLoop [] = returnA []"
| "pg_dropLoop (n # ns) =
     bindA (tryA (pg_DropDatabase n)) (\<lambda>r.
     bindA (pg_dropLoop ns) (\<lambda>errs.
       returnA (case r of Inl e \<Rightarrow> Wrapf (''drop '' @ n @ '': '') e [] # errs | Inr _ \<Rightarrow> errs)))"

definition pg_dropDatabases :: "string list \<Rightarrow> ('c pg, unit) action" where
  "pg_dropDatabases ns =
     bindA (pg_dropLoop ns) (\<lambda>errs. case joinAll errs of None \<Rightarrow> returnA () | Some e \<Rightarrow> raiseA e)"

definition pg_reapStaleRestoreStages :: "int \<Rightarrow> ('c pg, unit) action" where
  "pg_reapStaleRestoreStages now =
     bindA (tryA (pg_ListMatching stagePrefix)) (\<lambda>r.
       case r of
         Inl _ \<Rightarrow> returnA ()
       | Inr ns \<Rightarrow> if Stale ns now = [] then returnA () else ignoreA (pg_dropDatabases (Stale ns now)))"

text \<open>\<open>rand.Read\<close> takes the next eight bytes.\<close>

definition nextRand :: "('c pg, u8 list) action" where
  "nextRand s = (case pg_rand s of [] \<Rightarrow> (Inr (replicate 8 0), s) | b # bs \<Rightarrow> (Inr b, s\<lparr>pg_rand := bs\<rparr>))"

definition pg_beginRestoreStage :: "('c pg, Stage) action" where
  "pg_beginRestoreStage =
     bindA (readA (\<lambda>s. nowMillis (pg_db s))) (\<lambda>now.
     bindA (pg_reapStaleRestoreStages now) (\<lambda>_.
     bindA nextRand (\<lambda>rnd. returnA (newStage now rnd))))"

definition pg_dropRestoreStage :: "string \<Rightarrow> string \<Rightarrow> string list \<Rightarrow> ('c pg, unit) action" where
  "pg_dropRestoreStage from to ns =
     wrapA (\<lambda>e. Wrapf (''restore '' @ from @ '' into '' @ to @ '': '') e []) (pg_dropDatabases ns)"

definition pg_SnapshotRestore :: "string \<Rightarrow> string \<Rightarrow> ('c pg, unit) action" where
  "pg_SnapshotRestore template target =
     bindA (orRaise (QuotePostgres template)) (\<lambda>_.
     bindA (orRaise (QuotePostgres target)) (\<lambda>_.
     bindA pg_beginRestoreStage (\<lambda>st.
       deferA (pg_dropRestoreStage template target [Incoming st, Retired st])
         (bindA (orRaise (QuotePostgres (Incoming st))) (\<lambda>_.
          bindA (wrapA (\<lambda>e. Wrapf (''restore '' @ template @ '' into '' @ target @ '': clone into '' @ Incoming st @ '': '') e [])
                   (execOutsideTx (stCreateFrom (Incoming st) template))) (\<lambda>_.
            wrapA (\<lambda>e. Wrapf (''restore '' @ template @ '' into '' @ target @ '': '') e [])
              (pg_replaceDatabase (Incoming st) target (Retired st))))))))"

definition pg_ReplaceDatabase :: "string \<Rightarrow> string \<Rightarrow> ('c pg, unit) action" where
  "pg_ReplaceDatabase from to =
     bindA (orRaise (QuotePostgres from)) (\<lambda>_.
     bindA (orRaise (QuotePostgres to)) (\<lambda>_.
     bindA pg_beginRestoreStage (\<lambda>st.
       deferA (pg_dropRestoreStage from to [Retired st])
         (wrapA (\<lambda>e. Wrapf (''replace '' @ to @ '' with '' @ from @ '': '') e [])
            (pg_replaceDatabase from to (Retired st))))))"

subsection \<open>Row counts\<close>

definition SampleLimit :: nat where
  "SampleLimit = 3"

definition CountsFor ::
  "(string \<Rightarrow> string \<Rightarrow> ('s, int) action) \<Rightarrow> string \<Rightarrow> string list \<Rightarrow> ('s, (string \<times> int) list) action" where
  "CountsFor count1 db ts =
     foldr (\<lambda>t m. bindA (wrapA (\<lambda>e. Wrapf (''row count '' @ db @ ''.'' @ t @ '': '') e []) (count1 db t)) (\<lambda>n.
              bindA m (\<lambda>rows. returnA ((t, n) # rows)))) ts (returnA [])"

definition Sample ::
  "(string \<Rightarrow> ('s, string list) action) \<Rightarrow> (string \<Rightarrow> string \<Rightarrow> ('s, int) action) \<Rightarrow> string \<Rightarrow>
     ('s, (string \<times> int) list) action" where
  "Sample listTables count1 db = bindA (listTables db) (\<lambda>ts. CountsFor count1 db ts)"

definition pg_nonEmptyTables :: "string \<Rightarrow> ('c pg, string list) action" where
  "pg_nonEmptyTables db =
     wrapA (\<lambda>e. Wrapf (''row-count sample list '' @ db @ '': '') e [])
       (queryPg (\<lambda>t. map relname (take SampleLimit (sort_key reltuples
          (filter (\<lambda>r. nspname r = db \<and> relkind r = CHR ''r'' \<and> 0 < reltuples r) (pg_class t))))))"

definition noRelation :: "string \<Rightarrow> string \<Rightarrow> go_error" where
  "noRelation sch tab = PgError (''relation '' @ FileDb.quoted (sch @ ''.'' @ tab) @ '' does not exist'') ''42P01''"

definition pg_countOf :: "string \<Rightarrow> string \<Rightarrow> ('c pg, int) action" where
  "pg_countOf db tab =
     bindA (orRaise (QuotePostgres db)) (\<lambda>_.
     bindA (orRaise (QuotePostgres tab)) (\<lambda>_.
     bindA (queryPg (\<lambda>t. map_option relrows (find (\<lambda>r. nspname r = db \<and> relname r = tab) (pg_class t)))) (\<lambda>r.
       case r of None \<Rightarrow> raiseA (noRelation db tab) | Some n \<Rightarrow> returnA n)))"

definition pg_RowCountSample :: "string \<Rightarrow> ('c pg, (string \<times> int) list) action" where
  "pg_RowCountSample db = bindA (orRaise (QuotePostgres db)) (\<lambda>_. Sample pg_nonEmptyTables pg_countOf db)"

definition pg_RowCountsFor :: "string \<Rightarrow> string list \<Rightarrow> ('c pg, (string \<times> int) list) action" where
  "pg_RowCountsFor db ts = bindA (orRaise (QuotePostgres db)) (\<lambda>_. CountsFor pg_countOf db ts)"

subsection \<open>The adapters\<close>

definition pg_Empty :: "string \<Rightarrow> ('c pg, unit) action" where
  "pg_Empty active = bindA (pg_DropDatabase active) (\<lambda>_. pg_EnsureDB active)"

definition postgresNS :: "'c pg nsDriver" where
  "postgresNS =
     \<lparr>nsExists = pg_DatabaseExists, nsCapture = pg_SnapshotCreate, nsRestore = pg_SnapshotRestore,
      nsRestoreParent = (\<lambda>parent active keep. pg_SnapshotRestore parent active), nsEmpty = pg_Empty, nsDrop = pg_DropDatabase,
      nsDropDurable = pg_DropSnapshot, nsWatermark = pg_WriteWatermark,
      nsSampler = Some \<lparr>RowCountSample = pg_RowCountSample, RowCountsFor = pg_RowCountsFor\<rparr>\<rparr>"

definition pg_CreateSnapshot :: "string \<Rightarrow> string \<Rightarrow> ('c pg, unit) action" where
  "pg_CreateSnapshot template target = pg_SnapshotRestore template target"

definition pg_ClaimSpare :: "string \<Rightarrow> string \<Rightarrow> ('c pg, unit) action" where
  "pg_ClaimSpare spare target = pg_ReplaceDatabase spare target"

definition onlyPg :: "Family \<Rightarrow> ('c pg, 'a) action \<Rightarrow> ('c pg, 'a) action" where
  "onlyPg fam m = (if fam = FamilyPostgres then m else raiseA (notConfigured fam))"

text \<open>The connections of a configuration whose only server is this one.\<close>

definition postgresConn :: "'c pg connOps" where
  "postgresConn =
     \<lparr>op_configured = (\<lambda>fam name. fam = FamilyPostgres), op_dial = (\<lambda>fam name. onlyPg fam (queryPg (\<lambda>t. ()))),
      op_exists = (\<lambda>fam name n. onlyPg fam (pg_DatabaseExists n)),
      op_dropMatching = (\<lambda>fam name n. onlyPg fam (bindA (pg_DropMatching n) (\<lambda>ns. returnA (length ns)))),
      op_dropSnapshot = (\<lambda>fam name n. onlyPg fam (pg_DropSnapshot n)),
      op_listMatching = (\<lambda>fam name p. onlyPg fam (pg_ListMatching p)),
      op_close = (\<lambda>fam name. returnA ())\<rparr>"

definition postgresDropper :: "Family \<Rightarrow> (string \<Rightarrow> string \<Rightarrow> ('c pg, unit) action) option" where
  "postgresDropper fam = (if fam = FamilyPostgres then Some (\<lambda>conn. pg_DropDatabase) else None)"

end
