(* ===== verification/PostgresProps.thy ===== *)
theory PostgresProps
  imports Postgres
begin

text \<open>
  What the PostgreSQL driver promises: a prefix listing is exactly the names with the prefix, a restore swaps whole
  databases and leaves every other one alone, a capture copies and reopens its source, a spare is claimed once, stages
  are recognised by their names and only reaped a day later, and the row-count verification never looks at the copy.
\<close>

section \<open>Prefix patterns\<close>

lemma like_literal: "c \<notin> {CHR 0x5C, CHR ''_'', CHR ''%''} \<Longrightarrow> like (c # ps) s = (\<exists>xs. s = c # xs \<and> like ps xs)"
  by (auto simp: like.simps(2) split: list.splits)

lemma like_escaped: "like (CHR 0x5C # c # ps) s = (\<exists>xs. s = c # xs \<and> like ps xs)"
  by (auto simp: like.simps(2) split: list.splits)

lemma like_any: "like ''%'' s"
  by (induction s) (auto simp: like.simps(2))

lemma like_prefix: "like (likeEscape p @ ''%'') s \<longleftrightarrow> HasPrefix s p"
proof (induction p arbitrary: s)
  case Nil
  then show ?case by (simp add: likeEscape_def like_any)
next
  case (Cons c p)
  let ?rest = "likeEscape p @ ''%''"
  have "like (likeEscape (c # p) @ ''%'') s \<longleftrightarrow> (\<exists>xs. s = c # xs \<and> like ?rest xs)"
    by (auto simp: likeEscape_def like_escaped like_literal)
  also have "\<dots> \<longleftrightarrow> HasPrefix s (c # p)" unfolding Cons by (auto simp: HasPrefix_iff)
  finally show ?case .
qed

lemma like_prefix_fun: "like (likeEscape p @ ''%'') = (\<lambda>s. HasPrefix s p)"
  by (simp add: fun_eq_iff like_prefix)

section \<open>Databases after a statement\<close>

named_theorems db_of

lemma find_map_same:
  "(\<And>d. P (f d) = P d) \<Longrightarrow> find P (map f xs) = map_option f (find P xs)"
  by (induction xs) auto

lemma dbOf_name: "dbOf t n = Some d \<Longrightarrow> datname d = n"
  by (auto simp: dbOf_def find_Some_iff)

lemma dbOf_addDb [db_of]:
  "dbOf (addDb n c t) m = (case dbOf t m of Some d \<Rightarrow> Some d | None \<Rightarrow> if m = n then Some (newDb n c) else None)"
proof -
  have "find P (xs @ [x]) = (case find P xs of Some d \<Rightarrow> Some d | None \<Rightarrow> if P x then Some x else None)" for P and xs and x :: "'a pgDatabase"
    by (induction xs) auto
  then show ?thesis by (auto simp: dbOf_def addDb_def newDb_def split: option.splits)
qed

lemma dbOf_delDb [db_of]: "dbOf (delDb n t) m = (if m = n then None else dbOf t m)"
proof -
  have "find (\<lambda>d. datname d = m) (filter (\<lambda>d. datname d \<noteq> n) xs) = (if m = n then None else find (\<lambda>d. datname d = m) xs)"
    for xs :: "'a pgDatabase list"
    by (induction xs) auto
  then show ?thesis by (simp add: dbOf_def delDb_def)
qed

lemma dbOf_updDb [db_of]:
  assumes "\<And>d. datname (f d) = datname d"
  shows "dbOf (updDb n f t) m = (if m = n then map_option f (dbOf t m) else dbOf t m)"
proof -
  have "find (\<lambda>d. datname d = m) (map (\<lambda>d. if datname d = n then f d else d) xs) =
      (if m = n then map_option f (find (\<lambda>d. datname d = m) xs) else find (\<lambda>d. datname d = m) xs)"
    for xs :: "'a pgDatabase list"
    by (induction xs) (auto simp: assms)
  then show ?thesis by (simp add: dbOf_def updDb_def)
qed

lemma dbOf_rename:
  assumes "dbOf t b = None" "a \<noteq> b"
  shows "dbOf (updDb a (\<lambda>d. d\<lparr>datname := b\<rparr>) t) m =
    (if m = b then map_option (\<lambda>d. d\<lparr>datname := b\<rparr>) (dbOf t a) else if m = a then None else dbOf t m)"
proof -
  have "find (\<lambda>d. datname d = b) xs = None \<Longrightarrow>
      find (\<lambda>d. datname d = m) (map (\<lambda>d. if datname d = a then d\<lparr>datname := b\<rparr> else d) xs) =
      (if m = b then map_option (\<lambda>d. d\<lparr>datname := b\<rparr>) (find (\<lambda>d. datname d = a) xs)
       else if m = a then None else find (\<lambda>d. datname d = m) xs)"
    for xs :: "'a pgDatabase list"
    by (induction xs) (auto simp: assms(2) split: if_splits)
  then show ?thesis using assms(1) by (simp add: dbOf_def updDb_def)
qed

text \<open>Each statement that succeeds, by what it makes of every name.\<close>

lemma stCreate_Inr: "stCreate n t = Inr t' \<Longrightarrow> dbOf t n = None \<and> dbOf t' = (dbOf t)(n \<mapsto> newDb n (template1 t))"
  by (auto simp: stCreate_def fun_eq_iff db_of split: if_splits option.splits)

lemma stCreateFrom_Inr:
  "stCreateFrom n src t = Inr t' \<Longrightarrow>
     \<exists>d. dbOf t src = Some d \<and> sessions d = 0 \<and> dbOf t n = None \<and> dbOf t' = (dbOf t)(n \<mapsto> newDb n (contents d))"
  by (auto simp: stCreateFrom_def fun_eq_iff db_of split: if_splits option.splits)

lemma stDropIfExists_Inr: "stDropIfExists n t = Inr t' \<Longrightarrow> dbOf t' = (dbOf t)(n := None)"
  by (auto simp: stDropIfExists_def fun_eq_iff db_of split: if_splits option.splits)

lemma stRename_Inr:
  "stRename a b t = Inr t' \<Longrightarrow>
     \<exists>d. dbOf t a = Some d \<and> dbOf t b = None \<and> a \<noteq> b \<and> sessions d = 0 \<and> dbOf t' = (dbOf t)(a := None, b \<mapsto> d\<lparr>datname := b\<rparr>)"
  by (cases "a = b") (auto simp: stRename_def fun_eq_iff dbOf_rename split: if_splits option.splits)

lemma stAllow_Inr: "stAllow n b t = Inr t' \<Longrightarrow>
  \<exists>d. dbOf t n = Some d \<and> dbOf t' = (dbOf t)(n \<mapsto> d\<lparr>datallowconn := b\<rparr>)"
  by (auto simp: stAllow_def fun_eq_iff db_of split: if_splits option.splits)

lemma stTerminate_Inr: "stTerminate n t = Inr t' \<Longrightarrow>
  dbOf t' = (dbOf t)(n := map_option (\<lambda>d. d\<lparr>sessions := 0\<rparr>) (dbOf t n))"
  by (auto simp: stTerminate_def fun_eq_iff db_of)

lemmas stmt_Inr = stCreate_Inr stCreateFrom_Inr stDropIfExists_Inr stRename_Inr stAllow_Inr stTerminate_Inr

section \<open>Runs without other clients\<close>

abbreviation cluster :: "'c pg \<Rightarrow> 'c pgCluster" where
  "cluster e \<equiv> tables (pg_db e)"

text \<open>
  \<open>wps m Q E t\<close>: from a server with the tables \<open>t\<close>, whatever statements fail, \<open>m\<close> ends in \<open>Q\<close> or, with an error, in \<open>E\<close>.
\<close>

definition wps ::
  "('c pg, 'a) action \<Rightarrow> ('a \<Rightarrow> 'c pgCluster \<Rightarrow> bool) \<Rightarrow> (go_error \<Rightarrow> 'c pgCluster \<Rightarrow> bool) \<Rightarrow> 'c pgCluster \<Rightarrow> bool" where
  "wps m Q E t \<longleftrightarrow>
     (\<forall>e r e'. alone (pg_db e) \<longrightarrow> cluster e = t \<longrightarrow> m e = (r, e') \<longrightarrow>
        alone (pg_db e') \<and> (case r of Inr x \<Rightarrow> Q x (cluster e') | Inl err \<Rightarrow> E err (cluster e')))"

named_theorems wps_rule

lemma wpsI:
  "(\<And>e r e'. alone (pg_db e) \<Longrightarrow> cluster e = t \<Longrightarrow> m e = (r, e') \<Longrightarrow>
     alone (pg_db e') \<and> (case r of Inr x \<Rightarrow> Q x (cluster e') | Inl err \<Rightarrow> E err (cluster e'))) \<Longrightarrow> wps m Q E t"
  unfolding wps_def by simp

lemma wps_run:
  "wps m Q E (cluster e) \<Longrightarrow> alone (pg_db e) \<Longrightarrow> m e = (r, e') \<Longrightarrow>
     alone (pg_db e') \<and> (case r of Inr x \<Rightarrow> Q x (cluster e') | Inl err \<Rightarrow> E err (cluster e'))"
  unfolding wps_def by simp

lemma wps_returnA [wps_rule]: "Q x t \<Longrightarrow> wps (returnA x) Q E t"
  by (rule wpsI) (auto simp: returnA_def)

lemma wps_raiseA [wps_rule]: "E err t \<Longrightarrow> wps (raiseA err) Q E t"
  by (rule wpsI) (auto simp: raiseA_def)

lemma wps_readA [wps_rule]: "(\<And>x. Q x t) \<Longrightarrow> wps (readA f) Q E t"
  by (rule wpsI) (auto simp: readA_def)

lemma wps_mono:
  assumes "wps m Q E t" "\<And>x u. Q x u \<Longrightarrow> Q' x u" "\<And>x u. E x u \<Longrightarrow> E' x u"
  shows "wps m Q' E' t"
proof (rule wpsI)
  fix e r e' assume "alone (pg_db e)" "cluster e = t" "m e = (r, e')"
  then show "alone (pg_db e') \<and> (case r of Inr x \<Rightarrow> Q' x (cluster e') | Inl err \<Rightarrow> E' err (cluster e'))"
    using wps_run [of m Q E e r e'] assms by (cases r) simp_all
qed

lemma wps_bindA [wps_rule]:
  assumes "wps m (\<lambda>x. wps (f x) Q E) E t"
  shows "wps (bindA m f) Q E t"
proof (rule wpsI)
  fix e r e' assume al: "alone (pg_db e)" and t: "cluster e = t" and run: "bindA m f e = (r, e')"
  obtain r1 e1 where m: "m e = (r1, e1)" by force
  note out = wps_run [OF assms [folded t] al m]
  show "alone (pg_db e') \<and> (case r of Inr x \<Rightarrow> Q x (cluster e') | Inl err \<Rightarrow> E err (cluster e'))"
  proof (cases r1)
    case (Inl err)
    then have "r = Inl err" "e' = e1" using run m by (simp_all add: bindA_def)
    then show ?thesis using out Inl by simp
  next
    case (Inr x)
    then have "f x e1 = (r, e')" "wps (f x) Q E (cluster e1)" "alone (pg_db e1)" using run m out by (simp_all add: bindA_def)
    then show ?thesis using wps_run by blast
  qed
qed

lemma wps_bind_spec:
  "wps m Q0 E0 t \<Longrightarrow> (\<And>x u. Q0 x u \<Longrightarrow> wps (f x) Q E u) \<Longrightarrow> (\<And>x u. E0 x u \<Longrightarrow> E x u) \<Longrightarrow> wps (bindA m f) Q E t"
  by (rule wps_bindA) (rule wps_mono)

lemma wps_tryA [wps_rule]:
  assumes "wps m (\<lambda>x. Q (Inr x)) (\<lambda>err. Q (Inl err)) t"
  shows "wps (tryA m) Q E t"
proof (rule wpsI)
  fix e r e' assume al: "alone (pg_db e)" and t: "cluster e = t" and run: "tryA m e = (r, e')"
  obtain x where m: "m e = (x, e')" and r: "r = Inr x" using run by (cases "m e") (simp add: tryA_def)
  show "alone (pg_db e') \<and> (case r of Inr x \<Rightarrow> Q x (cluster e') | Inl err \<Rightarrow> E err (cluster e'))"
    using wps_run [OF assms [folded t] al m] by (cases x) (simp_all add: r)
qed

lemma wps_wrapA [wps_rule]:
  assumes "wps m Q (\<lambda>err. E (f err)) t"
  shows "wps (wrapA f m) Q E t"
proof (rule wpsI)
  fix e r e' assume al: "alone (pg_db e)" and t: "cluster e = t" and run: "wrapA f m e = (r, e')"
  obtain x where m: "m e = (x, e')" and r: "r = map_sum f id x" using run by (cases "m e") (simp add: wrapA_def)
  show "alone (pg_db e') \<and> (case r of Inr x \<Rightarrow> Q x (cluster e') | Inl err \<Rightarrow> E err (cluster e'))"
    using wps_run [OF assms [folded t] al m] by (cases x) (simp_all add: r)
qed

lemma wps_ignoreA [wps_rule]:
  assumes "wps m (\<lambda>_. Q ()) (\<lambda>_. Q ()) t"
  shows "wps (ignoreA m) Q E t"
proof (rule wpsI)
  fix e r e' assume al: "alone (pg_db e)" and t: "cluster e = t" and run: "ignoreA m e = (r, e')"
  obtain x where m: "m e = (x, e')" and r: "r = Inr ()" using run by (cases "m e") (simp add: ignoreA_def)
  show "alone (pg_db e') \<and> (case r of Inr x \<Rightarrow> Q x (cluster e') | Inl err \<Rightarrow> E err (cluster e'))"
    using wps_run [OF assms [folded t] al m] by (cases x) (simp_all add: r)
qed

lemma wps_orRaise [wps_rule]: "(\<And>err. r = Inl err \<Longrightarrow> E err t) \<Longrightarrow> (\<And>x. r = Inr x \<Longrightarrow> Q x t) \<Longrightarrow> wps (orRaise r) Q E t"
  by (cases r) (auto simp: orRaise_def intro: wps_rule)

lemma wps_guard: "(\<And>err. E err t) \<Longrightarrow> (\<And>x. wps (f x) Q E t) \<Longrightarrow> wps (bindA (orRaise r) f) Q E t"
  by (rule wps_bindA, rule wps_orRaise)

lemma wps_if [wps_rule]: "(b \<Longrightarrow> wps m Q E t) \<Longrightarrow> (\<not> b \<Longrightarrow> wps n Q E t) \<Longrightarrow> wps (if b then m else n) Q E t"
  by simp

lemma wps_option [wps_rule]:
  "(x = None \<Longrightarrow> wps m Q E t) \<Longrightarrow> (\<And>y. x = Some y \<Longrightarrow> wps (f y) Q E t) \<Longrightarrow> wps (case x of None \<Rightarrow> m | Some y \<Rightarrow> f y) Q E t"
  by (cases x) auto

lemma wps_sum [wps_rule]:
  "(\<And>y. x = Inl y \<Longrightarrow> wps (f y) Q E t) \<Longrightarrow> (\<And>y. x = Inr y \<Longrightarrow> wps (g y) Q E t) \<Longrightarrow>
     wps (case x of Inl y \<Rightarrow> f y | Inr y \<Rightarrow> g y) Q E t"
  by (cases x) auto

lemma wps_exec [wps_rule]:
  assumes "\<And>err. E err t" "\<And>t'. st t = Inr t' \<Longrightarrow> Q () t'"
  shows "wps (execOutsideTx st) Q E t"
proof (rule wpsI)
  fix e r e' assume al: "alone (pg_db e)" and t: "cluster e = t" and run: "execOutsideTx st e = (r, e')"
  obtain x d where ex: "Exec applyPgOp st (pg_db e) = (x, d)" by force
  have "e' = e\<lparr>pg_db := d\<rparr>" "r = (case x of None \<Rightarrow> Inr () | Some err \<Rightarrow> Inl err)"
    using run ex by (auto simp: execOutsideTx_def onPg_def optionA_def split: option.splits)
  then show "alone (pg_db e') \<and> (case r of Inr x \<Rightarrow> Q x (cluster e') | Inl err \<Rightarrow> E err (cluster e'))"
    using Exec_alone [OF al ex] t assms by (auto split: option.splits)
qed

lemma wps_query [wps_rule]:
  assumes "\<And>err. E err t" "Q (sel t) t"
  shows "wps (queryPg sel) Q E t"
proof (rule wpsI)
  fix e r e' assume al: "alone (pg_db e)" and t: "cluster e = t" and run: "queryPg sel e = (r, e')"
  obtain x d where ex: "Query applyPgOp sel (pg_db e) = (x, d)" by force
  have "e' = e\<lparr>pg_db := d\<rparr>" "r = x" using run ex by (auto simp: queryPg_def onPg_def)
  then show "alone (pg_db e') \<and> (case r of Inr x \<Rightarrow> Q x (cluster e') | Inl err \<Rightarrow> E err (cluster e'))"
    using Query_alone [OF al ex] t assms by (auto split: sum.splits)
qed

lemma wps_nextRand [wps_rule]: "(\<And>b. Q b t) \<Longrightarrow> wps nextRand Q E t"
  by (rule wpsI) (auto simp: nextRand_def split: list.splits)

lemma wps_deferA [wps_rule]:
  assumes "wps m (\<lambda>x. wps c (\<lambda>_. Q x) (\<lambda>err. E (Wrapf [] err [])))
     (\<lambda>x. wps c (\<lambda>_. E x) (\<lambda>err. E (Wrapf2 [] x [CHR 0x0A] err []))) t"
  shows "wps (deferA c m) Q E t"
  unfolding deferA_def
  by (intro wps_bindA wps_tryA, rule wps_mono [OF assms]; intro wps_bindA wps_tryA; erule wps_mono)
    (simp_all add: wps_returnA wps_raiseA orRaise_def)

section \<open>What each operation does\<close>

text \<open>Names of a set may have disappeared, nothing else has changed.\<close>

definition pruned :: "string set \<Rightarrow> 'c pgCluster \<Rightarrow> 'c pgCluster \<Rightarrow> bool" where
  "pruned N t t' \<longleftrightarrow> (\<forall>m. dbOf t' m = dbOf t m \<or> m \<in> N \<and> dbOf t' m = None)"

lemma pruned_refl [simp]: "pruned N t t"
  by (simp add: pruned_def)

lemma pruned_trans: "pruned N t u \<Longrightarrow> pruned M u v \<Longrightarrow> pruned (N \<union> M) t v"
  unfolding pruned_def by (metis UnI1 UnI2)

lemma pruned_mono: "pruned N t u \<Longrightarrow> N \<subseteq> M \<Longrightarrow> pruned M t u"
  unfolding pruned_def by blast

lemma wps_ListMatching:
  "wps (pg_ListMatching p) (\<lambda>ns t'. t' = t \<and> ns = sort (filter (\<lambda>n. HasPrefix n p) (map datname (pg_database t)))) (\<lambda>_ t'. t' = t) t"
  unfolding pg_ListMatching_def Let_def by (intro wps_rule) (simp_all only: like_prefix_fun)

lemma wps_DropDatabase: "wps (pg_DropDatabase n) (\<lambda>_ t'. dbOf t' = (dbOf t)(n := None)) (\<lambda>_ t'. t' = t) t"
  unfolding pg_DropDatabase_def by (intro wps_rule) (auto dest: stDropIfExists_Inr)

lemma wps_dropLoop:
  "wps (pg_dropLoop ns) (\<lambda>errs t'. pruned (set ns) t t' \<and> (errs = [] \<longrightarrow> (\<forall>n \<in> set ns. dbOf t' n = None))) (\<lambda>_ _. False) t"
proof (induction ns arbitrary: t)
  case (Cons n ns)
  have step: "wps (pg_dropLoop ns) (\<lambda>errs t'. pruned (set (n # ns)) t t' \<and>
      (errs = [] \<and> b \<longrightarrow> (\<forall>n \<in> set (n # ns). dbOf t' n = None))) (\<lambda>_ _. False) u"
    if "pruned {n} t u" "b \<longrightarrow> dbOf u n = None" for u b
  proof (rule wps_mono [OF Cons.IH])
    fix errs t' assume "pruned (set ns) u t' \<and> (errs = [] \<longrightarrow> (\<forall>n \<in> set ns. dbOf t' n = None))"
    with that pruned_trans [OF that(1), of "set ns" t']
    show "pruned (set (n # ns)) t t' \<and> (errs = [] \<and> b \<longrightarrow> (\<forall>n \<in> set (n # ns). dbOf t' n = None))"
      by (auto simp: pruned_def) (metis option.distinct(1))+
  qed
  show ?case
    unfolding pg_dropLoop.simps
    by (intro wps_rule, rule wps_mono [OF wps_DropDatabase]; intro wps_rule)
      (rule wps_mono [OF step [where b = True]] wps_mono [OF step [where b = False]];
        auto simp: pruned_def intro!: wps_rule)+
qed (auto intro: wps_rule)

lemma joinAll_None: "joinAll es = None \<longleftrightarrow> es = []"
  by (cases es) (auto split: option.splits)

lemma wps_dropDatabases:
  "wps (pg_dropDatabases ns) (\<lambda>_ t'. pruned (set ns) t t' \<and> (\<forall>n \<in> set ns. dbOf t' n = None)) (\<lambda>_ t'. pruned (set ns) t t') t"
  unfolding pg_dropDatabases_def
  by (rule wps_bind_spec [OF wps_dropLoop]) (auto intro!: wps_rule simp: joinAll_None)

text \<open>Every name a stage can have starts with the stage prefix.\<close>

definition stages :: "string set" where
  "stages = {n. HasPrefix n stagePrefix}"

lemma newStage_names:
  "Incoming (newStage now rnd) \<in> stages" "Retired (newStage now rnd) \<in> stages" "Incoming (newStage now rnd) \<noteq> Retired (newStage now rnd)"
  by (simp_all add: newStage_def Let_def stages_def)

lemma set_Stale: "set (Stale ns now) \<subseteq> set ns"
  by (auto simp: Stale_def)

lemma wps_reap: "wps (pg_reapStaleRestoreStages now) (\<lambda>_ t'. pruned stages t t') (\<lambda>_ _. False) t"
  unfolding pg_reapStaleRestoreStages_def
proof (rule wps_bindA, rule wps_tryA, rule wps_mono [OF wps_ListMatching])
  fix ns u assume "u = t \<and> ns = sort (filter (\<lambda>n. HasPrefix n stagePrefix) (map datname (pg_database t)))"
  then have "set (Stale ns now) \<subseteq> stages" "u = t" using set_Stale [of ns now] by (auto simp: stages_def)
  then show "wps (case Inr ns of Inl _ \<Rightarrow> returnA ()
      | Inr ns \<Rightarrow> if Stale ns now = [] then returnA () else ignoreA (pg_dropDatabases (Stale ns now)))
     (\<lambda>_ t'. pruned stages t t') (\<lambda>_ _. False) u"
    by (auto intro!: wps_rule intro: wps_mono [OF wps_dropDatabases] pruned_mono)
qed (auto intro: wps_rule)

lemma wps_begin:
  "wps pg_beginRestoreStage (\<lambda>st t'. pruned stages t t' \<and> Incoming st \<in> stages \<and> Retired st \<in> stages \<and> Incoming st \<noteq> Retired st)
     (\<lambda>_ _. False) t"
  unfolding pg_beginRestoreStage_def
  by (rule wps_bindA, rule wps_readA, rule wps_bind_spec [OF wps_reap]) (auto intro!: wps_rule simp: newStage_names)

text \<open>The tables after a swap, when the old database is parked under \<open>retired\<close>.\<close>

definition swapped :: "string \<Rightarrow> string \<Rightarrow> string \<Rightarrow> 'c pgCluster \<Rightarrow> 'c pgCluster \<Rightarrow> bool" where
  "swapped from to retired t t' \<longleftrightarrow>
     (\<exists>d. dbOf t from = Some d \<and> from \<noteq> to \<and>
        (case dbOf t to of
           None \<Rightarrow> dbOf t' = (dbOf t)(from := None, to \<mapsto> d\<lparr>datname := to\<rparr>)
         | Some old \<Rightarrow> dbOf t retired = None \<and>
             dbOf t' = (dbOf t)(retired \<mapsto> old\<lparr>datname := retired\<rparr>, from := None, to \<mapsto> d\<lparr>datname := to\<rparr>)))"

lemma runStmts_swap:
  "runStmts [stRename from to] t = Inr t' \<Longrightarrow> swapped from to retired t t'"
  "from \<noteq> retired \<Longrightarrow> runStmts [stRename to retired, stRename from to] t = Inr t' \<Longrightarrow> swapped from to retired t t'"
  by (auto simp: swapped_def split: sum.splits dest!: stRename_Inr split: if_splits)

lemma wps_replaceDatabase:
  "from \<noteq> retired \<Longrightarrow> wps (pg_replaceDatabase from to retired) (\<lambda>_ t'. swapped from to retired t t') (\<lambda>_ t'. t' = t) t"
  unfolding pg_replaceDatabase_def txExec_def txCommit_def Let_def
  by (intro wps_rule) (auto intro: runStmts_swap split: if_splits)

text \<open>A swap seen from the names that are no stages.\<close>

definition outside :: "'c pgCluster \<Rightarrow> string \<Rightarrow> 'c pgDatabase option" where
  "outside t n = (if n \<in> stages then None else dbOf t n)"

lemma pruned_outside: "pruned N t t' \<Longrightarrow> N \<subseteq> stages \<Longrightarrow> outside t' = outside t"
  by (auto simp: pruned_def outside_def fun_eq_iff)

lemma swapped_outside:
  assumes "swapped from to retired t t'" "retired \<in> stages" "to \<notin> stages"
  obtains d where "dbOf t from = Some d" "outside t' = (outside t)(from := None, to \<mapsto> d\<lparr>datname := to\<rparr>)"
  using assms by (auto simp: swapped_def outside_def fun_eq_iff split: option.splits) 

lemma wps_dropRestoreStage:
  "set ns \<subseteq> stages \<Longrightarrow> wps (pg_dropRestoreStage from to ns)
     (\<lambda>_ t'. outside t' = outside t \<and> (\<forall>n \<in> set ns. dbOf t' n = None)) (\<lambda>_ t'. outside t' = outside t) t"
  unfolding pg_dropRestoreStage_def
  by (rule wps_wrapA, rule wps_mono [OF wps_dropDatabases]) (auto intro: pruned_outside)

text \<open>The clone and the swap, before the stage is dropped.\<close>

lemma wps_restore_body:
  assumes "inc \<in> stages" "ret \<in> stages" "inc \<noteq> ret" "template \<notin> stages" "target \<notin> stages"
  shows "wps
     (bindA (orRaise (QuotePostgres inc)) (\<lambda>_.
      bindA (wrapA f (execOutsideTx (stCreateFrom inc template))) (\<lambda>_.
        wrapA g (pg_replaceDatabase inc target ret))))
    (\<lambda>_ t'. \<exists>d. dbOf t template = Some d \<and> outside t' = (outside t)(target \<mapsto> newDb target (contents d)))
    (\<lambda>_ t'. outside t' = outside t) t"
proof -
  have rep: "wps (wrapA g (pg_replaceDatabase inc target ret))
      (\<lambda>_ t'. \<exists>d. dbOf t template = Some d \<and> outside t' = (outside t)(target \<mapsto> newDb target (contents d)))
      (\<lambda>_ t'. outside t' = outside t) u"
    if cr: "stCreateFrom inc template t = Inr u" for u
  proof -
    obtain d where d: "dbOf t template = Some d" "dbOf u = (dbOf t)(inc \<mapsto> newDb inc (contents d))"
      using stCreateFrom_Inr [OF cr] by auto
    have out: "outside u = outside t" using d(2) assms(1) by (auto simp: outside_def fun_eq_iff)
    show ?thesis
    proof (rule wps_wrapA, rule wps_mono [OF wps_replaceDatabase [OF assms(3)]])
      fix x t' assume "swapped inc target ret u t'"
      then obtain c where "dbOf u inc = Some c" "outside t' = (outside u)(inc := None, target \<mapsto> c\<lparr>datname := target\<rparr>)"
        using assms swapped_outside by blast
      moreover have "(outside t)(inc := None) = outside t" using assms(1) by (auto simp: outside_def fun_eq_iff)
      ultimately show "\<exists>d. dbOf t template = Some d \<and> outside t' = (outside t)(target \<mapsto> newDb target (contents d))"
        using d out by (auto simp: newDb_def)
    qed (simp add: out)
  qed
  show ?thesis by (intro wps_bindA wps_orRaise wps_wrapA wps_exec rep [unfolded wps_wrapA]) (auto intro: rep)
qed

lemma wps_restore_deferred:
  assumes "inc \<in> stages" "ret \<in> stages" "inc \<noteq> ret" "template \<notin> stages" "target \<notin> stages"
  shows "wps
     (deferA (pg_dropRestoreStage template target [inc, ret])
       (bindA (orRaise (QuotePostgres inc)) (\<lambda>_.
        bindA (wrapA f (execOutsideTx (stCreateFrom inc template))) (\<lambda>_.
          wrapA g (pg_replaceDatabase inc target ret)))))
    (\<lambda>_ t'. \<exists>d. dbOf t template = Some d \<and> outside t' = (outside t)(target \<mapsto> newDb target (contents d)))
    (\<lambda>_ t'. outside t' = outside t \<or>
       (\<exists>d. dbOf t template = Some d \<and> outside t' = (outside t)(target \<mapsto> newDb target (contents d)))) t"
proof -
  have names: "set [inc, ret] \<subseteq> stages" using assms by simp
  show ?thesis
    by (rule wps_deferA, rule wps_mono [OF wps_restore_body [OF assms]]; rule wps_mono [OF wps_dropRestoreStage [OF names]]) auto
qed

lemma wps_SnapshotRestore:
  assumes "template \<notin> stages" "target \<notin> stages"
  shows "wps (pg_SnapshotRestore template target)
    (\<lambda>_ t'. \<exists>d. dbOf t template = Some d \<and> outside t' = (outside t)(target \<mapsto> newDb target (contents d)))
    (\<lambda>_ t'. outside t' = outside t \<or>
       (\<exists>d. dbOf t template = Some d \<and> outside t' = (outside t)(target \<mapsto> newDb target (contents d)))) t"
  unfolding pg_SnapshotRestore_def
proof (rule wps_guard, (simp; fail), rule wps_guard, (simp; fail), rule wps_bind_spec [OF wps_begin], rule wps_mono [OF wps_restore_deferred])
  fix st u assume st: "pruned stages t u \<and> Incoming st \<in> stages \<and> Retired st \<in> stages \<and> Incoming st \<noteq> Retired st"
  have out: "outside u = outside t" and tmpl: "dbOf u template = dbOf t template"
    using st assms pruned_outside by (auto simp: pruned_def)
  show "\<exists>d. dbOf u template = Some d \<and> outside t' = (outside u)(target \<mapsto> newDb target (contents d)) \<Longrightarrow>
      \<exists>d. dbOf t template = Some d \<and> outside t' = (outside t)(target \<mapsto> newDb target (contents d))" for t'
    by (simp add: out tmpl)
  show "outside t' = outside u \<or> (\<exists>d. dbOf u template = Some d \<and> outside t' = (outside u)(target \<mapsto> newDb target (contents d))) \<Longrightarrow>
      outside t' = outside t \<or> (\<exists>d. dbOf t template = Some d \<and> outside t' = (outside t)(target \<mapsto> newDb target (contents d)))" for t'
    by (simp add: out tmpl)
qed (use assms in simp_all)

text \<open>
  C9: a restore into PostgreSQL swaps whole databases.  With no other client, and whichever statements fail, every
  database but the target that is not a restore stage is exactly as before; a restore that succeeds leaves under the
  target's name a fresh database with the template's contents; one that fails leaves the old target, or the complete
  new one when only the cleanup failed, never a missing or half-filled target.
\<close>

theorem pg_restore_swaps:
  assumes "alone (pg_db e)" "template \<notin> stages" "target \<notin> stages" "pg_SnapshotRestore template target e = (r, e')"
  shows "(\<forall>n. n \<noteq> target \<and> n \<notin> stages \<longrightarrow> dbOf (cluster e') n = dbOf (cluster e) n) \<and>
    (let complete = (\<exists>d. dbOf (cluster e) template = Some d \<and> dbOf (cluster e') target = Some (newDb target (contents d)))
     in case r of Inr _ \<Rightarrow> complete | Inl _ \<Rightarrow> dbOf (cluster e') target = dbOf (cluster e) target \<or> complete)"
proof -
  let ?c = "cluster e" and ?c' = "cluster e'"
  let ?done = "\<exists>d. dbOf ?c template = Some d \<and> outside ?c' = (outside ?c)(target \<mapsto> newDb target (contents d))"
  note out = wps_run [OF wps_SnapshotRestore [OF assms(2,3)] assms(1,4)]
  have same: "outside t n = dbOf t n" if "n \<notin> stages" for n and t :: "'a pgCluster" using that by (simp add: outside_def)
  have complete: "(\<forall>n. n \<noteq> target \<and> n \<notin> stages \<longrightarrow> dbOf ?c' n = dbOf ?c n) \<and>
      (\<exists>d. dbOf ?c template = Some d \<and> dbOf ?c' target = Some (newDb target (contents d)))" if ?done
    using that same assms(3) by (metis fun_upd_apply)
  have undone: "\<forall>n. n \<notin> stages \<longrightarrow> dbOf ?c' n = dbOf ?c n" if "outside ?c' = outside ?c"
    using that same by metis
  show ?thesis
  proof (cases r)
    case (Inl err)
    then show ?thesis using out complete undone assms(3) by (auto simp: Let_def)
  next
    case (Inr u)
    then show ?thesis using out complete by (simp add: Let_def)
  qed
qed

definition samplePg :: "string pg" where
  "samplePg = \<lparr>pg_db = \<lparr>tables = \<lparr>pg_database = [newDb ''app'' ''old'', newDb ''_tm_x'' ''new'', newDb ''app_7'' ''other''],
     template1 = [], pg_class = []\<rparr>, clock = 5000, script = []\<rparr>, pg_rand = [[1, 2, 3, 4, 5, 6, 7, 8]]\<rparr>"

theorem pg_restore_swaps_witness:
  "dbOf (cluster (snd (pg_SnapshotRestore ''_tm_x'' ''app'' samplePg))) ''app_7'' = dbOf (cluster samplePg) ''app_7'' \<and>
   map_option contents (dbOf (cluster (snd (pg_SnapshotRestore ''_tm_x'' ''app'' samplePg))) ''app'') = Some ''new''"
proof -
  have al: "alone (pg_db samplePg)" by (simp add: samplePg_def alone_def)
  have ns: "''_tm_x'' \<notin> stages" "''app'' \<notin> stages" "''app_7'' \<notin> stages"
    by (simp_all add: stages_def stagePrefix_def HasPrefix_def)
  have ok: "fst (pg_SnapshotRestore ''_tm_x'' ''app'' samplePg) = Inr ()" by code_simp
  obtain e' where run: "pg_SnapshotRestore ''_tm_x'' ''app'' samplePg = (Inr (), e')"
    using ok by (cases "pg_SnapshotRestore ''_tm_x'' ''app'' samplePg") simp
  have src: "map_option contents (dbOf (cluster samplePg) ''_tm_x'') = Some ''new''" by code_simp
  show ?thesis using pg_restore_swaps [OF al ns(1,2) run] ns(3) src run by (auto simp: Let_def newDb_def)
qed

section \<open>Other clients\<close>

text \<open>
  The database \<open>n\<close> exists and no other client is about to drop it.
\<close>

definition guarded :: "string \<Rightarrow> 'c pg \<Rightarrow> bool" where
  "guarded n e \<longleftrightarrow> dbOf (cluster e) n \<noteq> None \<and> (\<forall>ev \<in> set (script (pg_db e)). PgDrop n \<notin> set (others ev))"

definition keepsDb :: "string \<Rightarrow> 'c pg \<Rightarrow> 'c pg \<Rightarrow> bool" where
  "keepsDb n e e' \<longleftrightarrow> (guarded n e \<longrightarrow> guarded n e')"

lemma keepsDb_refl_trans: "reflp (keepsDb n)" "transp (keepsDb n)"
  by (auto simp: reflp_def transp_def keepsDb_def)

lemma applyPgOp_keeps: "dbOf t n \<noteq> None \<Longrightarrow> x \<noteq> PgDrop n \<Longrightarrow> dbOf (applyPgOp x t) n \<noteq> None"
  by (cases x) (auto simp: db_of stDropIfExists_def split: option.splits if_splits)

lemma applyPgOps_keeps: "dbOf t n \<noteq> None \<Longrightarrow> PgDrop n \<notin> set xs \<Longrightarrow> dbOf (fold applyPgOp xs t) n \<noteq> None"
proof (induction xs arbitrary: t)
  case (Cons x xs)
  then show ?case using applyPgOp_keeps [of t n x] by fastforce
qed simp

lemma turn_guarded:
  assumes "turn applyPgOp (pg_db e) = (x, d)" "guarded n e"
  shows "guarded n (e\<lparr>pg_db := d\<rparr>)"
proof (cases "script (pg_db e)")
  case (Cons ev evs)
  then show ?thesis using assms applyPgOps_keeps [of "cluster e" n "others ev"] by (auto simp: turn_def guarded_def)
qed (use assms in \<open>auto simp: turn_def\<close>)

lemma keepsDb_exec:
  assumes "\<And>t t'. st t = Inr t' \<Longrightarrow> dbOf t n \<noteq> None \<Longrightarrow> dbOf t' n \<noteq> None"
  shows "keeps (keepsDb n) (execOutsideTx st)"
proof (rule keepsI)
  fix e :: "'a pg" and r e' assume run: "execOutsideTx st e = (r, e')"
  obtain x d where tn: "turn applyPgOp (pg_db e) = (x, d)" by force
  have "e' = e\<lparr>pg_db := d\<rparr> \<or> (\<exists>t'. st (tables d) = Inr t' \<and> e' = e\<lparr>pg_db := d\<lparr>tables := t'\<rparr>\<rparr>)"
    using run tn by (auto simp: execOutsideTx_def onPg_def optionA_def Exec_def split: option.splits sum.splits)
  then show "keepsDb n e e'"
    using turn_guarded [OF tn] assms by (auto simp: keepsDb_def guarded_def)
qed

lemma keepsDb_query: "keeps (keepsDb n) (queryPg sel)"
proof (rule keepsI)
  fix e :: "'a pg" and r e' assume run: "queryPg sel e = (r, e')"
  obtain x d where tn: "turn applyPgOp (pg_db e) = (x, d)" by force
  have "e' = e\<lparr>pg_db := d\<rparr>" using run tn by (auto simp: queryPg_def onPg_def Query_def split: option.splits)
  then show "keepsDb n e e'" using turn_guarded [OF tn] by (auto simp: keepsDb_def)
qed

lemma keepsDb_orRaise: "keeps (keepsDb n) (orRaise r)"
  unfolding orRaise_def by (intro keeps_intro keepsDb_refl_trans)

lemma keepsDb_readA: "keeps (keepsDb n) (readA f)"
  by (intro keeps_intro keepsDb_refl_trans)

lemma keepsDb_nextRand: "keeps (keepsDb n) nextRand"
  by (rule keepsI) (auto simp: nextRand_def keepsDb_def guarded_def split: list.splits)

lemma keeps_deferA [keeps_intro]:
  assumes "reflp R" "transp R" "keeps R c" "keeps R m"
  shows "keeps R (deferA c m)"
  unfolding deferA_def orRaise_def by (intro keeps_intro assms)

lemmas keepsDb_intro = keeps_intro keepsDb_refl_trans keepsDb_query keepsDb_orRaise keepsDb_readA keepsDb_nextRand

lemma keepsDb_txExec: "keeps (keepsDb n) (txExec sts st)"
  unfolding txExec_def by (intro keepsDb_intro)

lemma keepsDb_replaceDatabase: "keeps (keepsDb to) (pg_replaceDatabase from to retired)"
  unfolding pg_replaceDatabase_def txCommit_def Let_def
  by (intro keepsDb_intro keepsDb_txExec keepsDb_exec) (auto dest!: stRename_Inr split: sum.splits if_splits)

lemma keepsDb_DropDatabase: "m \<noteq> n \<Longrightarrow> keeps (keepsDb n) (pg_DropDatabase m)"
  unfolding pg_DropDatabase_def by (intro keepsDb_intro keepsDb_exec) (auto dest!: stDropIfExists_Inr)

lemma keepsDb_dropDatabases: "n \<notin> set ns \<Longrightarrow> keeps (keepsDb n) (pg_dropDatabases ns)"
proof -
  assume "n \<notin> set ns"
  then have "keeps (keepsDb n) (pg_dropLoop ns)"
    by (induction ns) (auto intro!: keepsDb_intro keepsDb_DropDatabase)
  then show ?thesis unfolding pg_dropDatabases_def by (intro keepsDb_intro)
qed

lemma Stale_stages: "set (Stale ns now) \<subseteq> stages"
  by (auto simp: Stale_def stages_def stageName_def HasPrefix_iff CutPrefix_Some split: option.splits)

lemma keepsDb_begin: "n \<notin> stages \<Longrightarrow> keeps (keepsDb n) pg_beginRestoreStage"
  unfolding pg_beginRestoreStage_def pg_reapStaleRestoreStages_def pg_ListMatching_def Let_def
  using Stale_stages by (intro keepsDb_intro keepsDb_dropDatabases) auto

lemma keepsDb_dropRestoreStage: "n \<notin> set ns \<Longrightarrow> keeps (keepsDb n) (pg_dropRestoreStage a b ns)"
  unfolding pg_dropRestoreStage_def by (intro keepsDb_intro keepsDb_dropDatabases)

lemma begin_names: "pg_beginRestoreStage e = (Inr st, e') \<Longrightarrow> Incoming st \<in> stages \<and> Retired st \<in> stages"
  by (auto simp: pg_beginRestoreStage_def run_rules newStage_names)

lemma keepsDb_guard: "(\<And>x. keeps (keepsDb n) (f x)) \<Longrightarrow> keeps (keepsDb n) (bindA (orRaise r) f)"
  by (rule keeps_bindA [OF keepsDb_refl_trans(2) keepsDb_orRaise])

lemma keepsDb_SnapshotRestore:
  assumes "target \<notin> stages"
  shows "keeps (keepsDb target) (pg_SnapshotRestore template target)"
  unfolding pg_SnapshotRestore_def
  by (rule keepsDb_guard, rule keepsDb_guard, rule keeps_bindA_run [OF keepsDb_refl_trans(2) keepsDb_begin [OF assms]],
      intro keepsDb_intro keepsDb_dropRestoreStage keepsDb_replaceDatabase keepsDb_exec)
    (use assms in \<open>auto dest!: begin_names stCreateFrom_Inr\<close>)

lemma keepsDb_ReplaceDatabase:
  assumes "to \<notin> stages"
  shows "keeps (keepsDb to) (pg_ReplaceDatabase from to)"
  unfolding pg_ReplaceDatabase_def
  by (rule keepsDb_guard, rule keepsDb_guard, rule keeps_bindA_run [OF keepsDb_refl_trans(2) keepsDb_begin [OF assms]],
      intro keepsDb_intro keepsDb_dropRestoreStage keepsDb_replaceDatabase)
    (use assms in \<open>auto dest!: begin_names\<close>)

text \<open>
  C10: a database being replaced never stops existing.  Whatever other clients do between the statements short of
  dropping it themselves (connect, write, create databases), and wherever the run fails or is cut off (every later
  statement then fails), the target of a restore and of the claim of a spare still exists afterwards when it existed
  before.
\<close>

theorem pg_target_never_missing:
  assumes "target \<notin> stages" "dbOf (cluster e) target \<noteq> None"
    and "\<forall>ev \<in> set (script (pg_db e)). PgDrop target \<notin> set (others ev)"
    and "m \<in> {pg_SnapshotRestore template target, pg_CreateSnapshot template target, pg_ClaimSpare template target}"
  shows "dbOf (cluster (snd (m e))) target \<noteq> None"
proof -
  have "keeps (keepsDb target) m"
    using assms(1,4) keepsDb_SnapshotRestore keepsDb_ReplaceDatabase by (auto simp: pg_CreateSnapshot_def pg_ClaimSpare_def)
  then have "keepsDb target e (snd (m e))" by (simp add: keeps_def)
  then show ?thesis using assms(2,3) by (simp add: keepsDb_def guarded_def)
qed

definition busyPg :: "string pg" where
  "busyPg = samplePg\<lparr>pg_db := (pg_db samplePg)\<lparr>script :=
     [\<lparr>others = [], tick = 0, fault = None\<rparr>, \<lparr>others = [PgWrite ''app'' ''late''], tick = 0, fault = None\<rparr>,
      \<lparr>others = [], tick = 0, fault = None\<rparr>, \<lparr>others = [], tick = 0, fault = None\<rparr>, \<lparr>others = [], tick = 0, fault = None\<rparr>,
      \<lparr>others = [PgConnect ''app''], tick = 1, fault = None\<rparr>, \<lparr>others = [], tick = 0, fault = Some DeadlineExceeded\<rparr>]\<rparr>\<rparr>"

theorem pg_target_never_missing_witness:
  "dbOf (cluster (snd (pg_SnapshotRestore ''_tm_x'' ''app'' busyPg))) ''app'' \<noteq> None \<and>
   isl (fst (pg_SnapshotRestore ''_tm_x'' ''app'' busyPg))"
proof -
  have 1: "''app'' \<notin> stages" by (simp add: stages_def stagePrefix_def HasPrefix_def)
  have 2: "dbOf (cluster busyPg) ''app'' \<noteq> None" by code_simp
  have 3: "\<forall>ev \<in> set (script (pg_db busyPg)). PgDrop ''app'' \<notin> set (others ev)" by (simp add: busyPg_def samplePg_def)
  have 4: "isl (fst (pg_SnapshotRestore ''_tm_x'' ''app'' busyPg))" by code_simp
  show ?thesis using pg_target_never_missing [OF 1 2 3, of _ "''_tm_x''"] 4 by simp
qed

section \<open>Captures\<close>

text \<open>The source keeps its contents through every statement of a capture.\<close>

definition sameContents :: "string \<Rightarrow> 'c pgCluster \<Rightarrow> 'c pgCluster \<Rightarrow> bool" where
  "sameContents n t t' \<longleftrightarrow> map_option contents (dbOf t' n) = map_option contents (dbOf t n)"

lemma wps_capture_body:
  assumes "source \<noteq> template"
  shows "wps
     (bindA (pg_terminateBackends source) (\<lambda>_.
      bindA (wrapA f (execOutsideTx (stDropIfExists template))) (\<lambda>_. execOutsideTx (stCreateFrom template source))))
    (\<lambda>_ t'. sameContents source t t' \<and> (\<forall>n. n \<noteq> source \<and> n \<noteq> template \<longrightarrow> dbOf t' n = dbOf t n) \<and>
       dbOf t' template \<noteq> None \<and> map_option contents (dbOf t' template) = map_option contents (dbOf t source))
    (\<lambda>_ t'. sameContents source t t' \<and> (\<forall>n. n \<noteq> source \<and> n \<noteq> template \<longrightarrow> dbOf t' n = dbOf t n)) t"
  unfolding pg_terminateBackends_def using assms
  by (intro wps_rule) (auto simp: sameContents_def newDb_def option.map_comp comp_def dest!: stTerminate_Inr stDropIfExists_Inr stCreateFrom_Inr)

lemma wps_SnapshotCreate:
  assumes "source \<noteq> template"
  shows "wps (pg_SnapshotCreate source template)
    (\<lambda>_ t'. sameContents source t t' \<and> (\<forall>n. n \<noteq> source \<and> n \<noteq> template \<longrightarrow> dbOf t' n = dbOf t n) \<and>
       dbOf t' template \<noteq> None \<and> map_option contents (dbOf t' template) = map_option contents (dbOf t source) \<and>
       map_option datallowconn (dbOf t' source) = Some True)
    (\<lambda>_ t'. sameContents source t t' \<and> (\<forall>n. n \<noteq> source \<and> n \<noteq> template \<longrightarrow> dbOf t' n = dbOf t n)) t"
  unfolding pg_SnapshotCreate_def
proof (rule wps_guard, (simp add: sameContents_def; fail), rule wps_guard, (simp add: sameContents_def; fail),
    rule wps_bindA, rule wps_exec, (simp add: sameContents_def; fail))
  fix u assume "stAllow source False t = Inr u"
  then obtain d where d: "dbOf t source = Some d" "dbOf u = (dbOf t)(source \<mapsto> d\<lparr>datallowconn := False\<rparr>)"
    using stAllow_Inr by blast
  then have same: "sameContents source t v \<longleftrightarrow> sameContents source u v"
      "(\<forall>n. n \<noteq> source \<and> n \<noteq> template \<longrightarrow> dbOf v n = dbOf t n) \<longleftrightarrow> (\<forall>n. n \<noteq> source \<and> n \<noteq> template \<longrightarrow> dbOf v n = dbOf u n)"
      "map_option contents (dbOf t source) = map_option contents (dbOf u source)" for v
    by (auto simp: sameContents_def)
  show "wps (deferA
         (wrapA (\<lambda>e. Wrapf (''re-allow connections to '' @ source @ '' after cloning it: '') e [])
            (execOutsideTx (stAllow source True)))
         (bindA (pg_terminateBackends source) (\<lambda>_.
          bindA (wrapA (\<lambda>e. Wrapf (''drop the previous template '' @ template @ '': '') e [])
                   (execOutsideTx (stDropIfExists template))) (\<lambda>_.
            execOutsideTx (stCreateFrom template source)))))
    (\<lambda>_ t'. sameContents source t t' \<and> (\<forall>n. n \<noteq> source \<and> n \<noteq> template \<longrightarrow> dbOf t' n = dbOf t n) \<and>
       dbOf t' template \<noteq> None \<and> map_option contents (dbOf t' template) = map_option contents (dbOf t source) \<and>
       map_option datallowconn (dbOf t' source) = Some True)
    (\<lambda>_ t'. sameContents source t t' \<and> (\<forall>n. n \<noteq> source \<and> n \<noteq> template \<longrightarrow> dbOf t' n = dbOf t n)) u"
    unfolding same
    by (rule wps_deferA, rule wps_mono [OF wps_capture_body [OF assms]]; intro wps_rule)
      (use assms in \<open>auto simp: sameContents_def dest!: stAllow_Inr\<close>)
qed

text \<open>
  C11: a capture on PostgreSQL copies and reopens.  With no other client, and whichever statements fail, a capture
  changes no database but its source and its copy and leaves the source's contents as they are; when it reports
  success the copy holds the source's contents and the source accepts connections again, so a source left fenced is
  always reported as an error.
\<close>

theorem pg_capture_copies:
  assumes "alone (pg_db e)" "source \<noteq> template" "pg_SnapshotCreate source template e = (r, e')"
  shows "map_option contents (dbOf (cluster e') source) = map_option contents (dbOf (cluster e) source) \<and>
    (\<forall>n. n \<noteq> source \<and> n \<noteq> template \<longrightarrow> dbOf (cluster e') n = dbOf (cluster e) n) \<and>
    (\<forall>u. r = Inr u \<longrightarrow>
       map_option contents (dbOf (cluster e') template) = map_option contents (dbOf (cluster e) source) \<and>
       map_option datallowconn (dbOf (cluster e') source) = Some True)"
  using wps_run [OF wps_SnapshotCreate [OF assms(2)] assms(1,3)] by (cases r) (simp_all add: sameContents_def)

theorem pg_capture_copies_witness:
  "map_option contents (dbOf (cluster (snd (pg_SnapshotCreate ''app'' ''_tmbs_0'' samplePg))) ''_tmbs_0'') = Some ''old''"
proof -
  have al: "alone (pg_db samplePg)" by (simp add: samplePg_def alone_def)
  have ok: "fst (pg_SnapshotCreate ''app'' ''_tmbs_0'' samplePg) = Inr ()" by code_simp
  have src: "map_option contents (dbOf (cluster samplePg) ''app'') = Some ''old''" by code_simp
  obtain e' where run: "pg_SnapshotCreate ''app'' ''_tmbs_0'' samplePg = (Inr (), e')"
    using ok by (cases "pg_SnapshotCreate ''app'' ''_tmbs_0'' samplePg") simp
  show ?thesis using pg_capture_copies [OF al _ run] src run by simp
qed

section \<open>Spares\<close>

lemma wps_ReplaceDatabase:
  assumes "from \<notin> stages" "to \<notin> stages"
  shows "wps (pg_ReplaceDatabase from to)
    (\<lambda>_ t'. \<exists>d. dbOf t from = Some d \<and> outside t' = (outside t)(from := None, to \<mapsto> d\<lparr>datname := to\<rparr>))
    (\<lambda>_ t'. outside t' = outside t \<or>
      (\<exists>d. dbOf t from = Some d \<and> outside t' = (outside t)(from := None, to \<mapsto> d\<lparr>datname := to\<rparr>))) t"
  unfolding pg_ReplaceDatabase_def
proof (rule wps_guard, (simp; fail), rule wps_guard, (simp; fail), rule wps_bind_spec [OF wps_begin], rule wps_deferA,
    rule wps_wrapA, rule wps_mono [OF wps_replaceDatabase])
  fix st u assume st: "pruned stages t u \<and> Incoming st \<in> stages \<and> Retired st \<in> stages \<and> Incoming st \<noteq> Retired st"
  have out: "outside u = outside t" and tmpl: "dbOf u from = dbOf t from"
    using st assms pruned_outside by (auto simp: pruned_def)
  have names: "set [Retired st] \<subseteq> stages" using st by simp
  show "from \<noteq> Retired st" using st assms by auto
  let ?moved = "\<lambda>t'. \<exists>d. dbOf t from = Some d \<and> outside t' = (outside t)(from := None, to \<mapsto> d\<lparr>datname := to\<rparr>)"
  show "wps (pg_dropRestoreStage from to [Retired st]) (\<lambda>_. ?moved) (\<lambda>_ t'. outside t' = outside t \<or> ?moved t') v"
    if "swapped from to (Retired st) u v" for v
  proof -
    have "?moved v" using swapped_outside [OF that] st assms out tmpl by metis
    then show ?thesis by (intro wps_mono [OF wps_dropRestoreStage [OF names]]) simp_all
  qed
  show "wps (pg_dropRestoreStage from to [Retired st]) (\<lambda>_ t'. outside t' = outside t \<or> ?moved t')
      (\<lambda>_ t'. outside t' = outside t \<or> ?moved t') v" if "v = u" for v
    by (intro wps_mono [OF wps_dropRestoreStage [OF names]]) (simp_all add: that out)
qed simp_all

text \<open>
  A spare is claimed once.  After a claim that succeeded the spare is gone, so a second claim of it, for any
  target, fails and leaves that target and every other database as it was.
\<close>

theorem pg_spare_claimed_once:
  assumes "alone (pg_db e)" "spare \<notin> stages" "a \<notin> stages" "b \<notin> stages" "spare \<noteq> a"
    and "pg_ClaimSpare spare a e = (Inr u, e1)" "pg_ClaimSpare spare b e1 = (r, e2)"
  shows "isl r \<and> (\<forall>n. n \<notin> stages \<longrightarrow> dbOf (cluster e2) n = dbOf (cluster e1) n) \<and>
    dbOf (cluster e1) a = map_option (\<lambda>d. d\<lparr>datname := a\<rparr>) (dbOf (cluster e) spare)"
proof -
  let ?moved = "\<lambda>to t t'. \<exists>d. dbOf t spare = Some d \<and> outside t' = (outside t)(spare := None, to \<mapsto> d\<lparr>datname := to\<rparr>)"
  have first: "alone (pg_db e1)" "?moved a (cluster e) (cluster e1)"
    using wps_run [OF wps_ReplaceDatabase [OF assms(2,3)] assms(1)] assms(6) by (auto simp: pg_ClaimSpare_def)
  then have gone: "dbOf (cluster e1) spare = None" and claimed: "dbOf (cluster e1) a = map_option (\<lambda>d. d\<lparr>datname := a\<rparr>) (dbOf (cluster e) spare)"
    using assms(2,3,5) by (auto simp: outside_def fun_eq_iff split: if_splits)
  have "case r of Inr _ \<Rightarrow> ?moved b (cluster e1) (cluster e2)
      | Inl _ \<Rightarrow> outside (cluster e2) = outside (cluster e1) \<or> ?moved b (cluster e1) (cluster e2)"
    using wps_run [OF wps_ReplaceDatabase [OF assms(2,4)] first(1)] assms(7) by (simp add: pg_ClaimSpare_def)
  then have "isl r \<and> outside (cluster e2) = outside (cluster e1)" using gone by (cases r) simp_all
  then show ?thesis using claimed by (auto simp: outside_def fun_eq_iff) metis
qed

theorem pg_spare_claimed_once_witness:
  "isl (fst (pg_ClaimSpare ''_tm_x'' ''app_7'' (snd (pg_ClaimSpare ''_tm_x'' ''app'' samplePg))))"
proof -
  have al: "alone (pg_db samplePg)" by (simp add: samplePg_def alone_def)
  have ns: "''_tm_x'' \<notin> stages" "''app'' \<notin> stages" "''app_7'' \<notin> stages"
    by (simp_all add: stages_def stagePrefix_def HasPrefix_def)
  have ok: "fst (pg_ClaimSpare ''_tm_x'' ''app'' samplePg) = Inr ()" by code_simp
  obtain e' where run: "pg_ClaimSpare ''_tm_x'' ''app'' samplePg = (Inr (), e')"
    using ok by (cases "pg_ClaimSpare ''_tm_x'' ''app'' samplePg") simp
  show ?thesis using pg_spare_claimed_once [OF al ns _ run] run by (cases "pg_ClaimSpare ''_tm_x'' ''app_7'' e'") simp
qed

section \<open>Stages\<close>

lemma hexDigit_hex: "n < 16 \<Longrightarrow> hex_char (hexDigit n)"
  unfolding hexDigit_def hex_char_def by (rule nth_mem) simp

lemma hexVal_hexDigit: "n < 16 \<Longrightarrow> hexVal (hexDigit n) = n"
proof -
  assume "n < 16"
  then have "n \<in> set [0..<16]" by simp
  then show ?thesis by (auto simp: upt_conv_Cons hexDigit_def hexVal_def is_digit_def)
qed

lemma hexNat_hex: "list_all hex_char (hexNat n) \<and> hexNat n \<noteq> []"
  by (induction n rule: hexNat.induct) (subst hexNat.simps, auto simp: hexDigit_hex)+

lemma ParseHex_append: "ParseHex (s @ [c]) = 16 * ParseHex s + hexVal c"
  by (simp add: ParseHex_def)

lemma ParseHex_hexNat: "ParseHex (hexNat n) = n"
proof (induction n rule: hexNat.induct)
  case (1 n)
  show ?case
  proof (cases "n < 16")
    case True
    then show ?thesis by (subst hexNat.simps) (simp add: ParseHex_def hexVal_hexDigit)
  next
    case False
    then have "ParseHex (hexNat (n div 16)) = n div 16" using 1 by blast
    then show ?thesis using False by (subst hexNat.simps) (simp add: ParseHex_append hexVal_hexDigit)
  qed
qed

lemma length_hexNat: "0 < k \<Longrightarrow> n < 16 ^ k \<Longrightarrow> length (hexNat n) \<le> k"
proof (induction k arbitrary: n)
  case (Suc k)
  show ?case
  proof (cases "n < 16")
    case False
    then have "0 < k" using Suc.prems(2) by (cases k) auto
    moreover have "n div 16 < 16 ^ k" using Suc.prems(2) by (simp add: less_mult_imp_div_less mult.commute)
    ultimately show ?thesis using Suc.IH [of "n div 16"] False by (subst hexNat.simps) simp
  qed (subst hexNat.simps, simp)
qed simp

text \<open>The name of a stage is recognised, with its creation time.\<close>

lemma stageName_shape:
  assumes "list_all hex_char sec" "1 \<le> length sec" "length sec \<le> 15" "list_all hex_char h" "length h = 16" "c = CHR ''n'' \<or> c = CHR ''o''"
  shows "stageName (stagePrefix @ sec @ ''_'' @ h @ ''_'' @ [c]) = Some sec"
proof -
  have no: "\<forall>x \<in> set sec. x \<noteq> CHR ''_''" using assms(1) by (auto simp: list_all_iff hex_char_def)
  have cut: "CutPrefix (stagePrefix @ x) stagePrefix = Some x" for x by (simp add: CutPrefix_Some)
  have tw: "takeWhile (\<lambda>c. c \<noteq> CHR ''_'') (sec @ CHR ''_'' # h @ [CHR ''_'', c]) = sec"
    using no by (simp add: takeWhile_append2)
  show ?thesis
    using assms unfolding stageName_def
    by (simp add: cut tw Let_def nth_append del: takeWhile_append)
qed

lemma stageName_newStage:
  assumes "0 \<le> now" "now div 1000 < 16 ^ 15" "length rnd = 8" "n \<in> {Incoming (newStage now rnd), Retired (newStage now rnd)}"
  shows "stageName n = Some (hexNat (nat (now div 1000)))"
proof -
  have fmt: "FormatHex (now div 1000) = hexNat (nat (now div 1000))" using assms(1) by (simp add: FormatHex_def)
  have len: "length (hexNat (nat (now div 1000))) \<le> 15"
    using assms(1,2) by (intro length_hexNat) (simp_all add: nat_less_iff)
  have h: "list_all hex_char (hexEncode rnd)" "length (hexEncode rnd) = 16"
    using hexEncode_hex [of rnd] assms(3) by (auto simp: list_all_iff length_hexEncode)
  have one: "1 \<le> length (hexNat (nat (now div 1000)))" using hexNat_hex by (simp add: Suc_le_eq)
  show ?thesis
    using assms(4) stageName_shape [OF conjunct1 [OF hexNat_hex] one len h]
    by (auto simp: newStage_def Let_def fmt)
qed

text \<open>
  The names of a restore's private databases carry their age.  Both names of a stage made at \<open>now\<close> are recognised as stages,
  a sweep at a later time reports them as left behind exactly when more than a day has passed since the second of
  their creation, so a running restore is never reaped within its first day, and the sweep never reports a name that
  is not a stage name.
\<close>

theorem stage_age:
  assumes "0 \<le> now" "now div 1000 < 16 ^ 15" "length rnd = 8" "n \<in> {Incoming (newStage now rnd), Retired (newStage now rnd)}"
  shows "isStage n \<and> (n \<in> set (Stale ns later) \<longleftrightarrow> n \<in> set ns \<and> MaxAge < later - (now div 1000) * 1000) \<and>
    (later \<le> now + MaxAge - 1000 \<longrightarrow> n \<notin> set (Stale ns later)) \<and> (\<forall>m \<in> set (Stale ns later). isStage m)"
proof -
  note nm = stageName_newStage [OF assms]
  have "int (ParseHex (hexNat (nat (now div 1000)))) = now div 1000" using assms(1) by (simp add: ParseHex_hexNat)
  then have iff: "n \<in> set (Stale ns later) \<longleftrightarrow> n \<in> set ns \<and> MaxAge < later - (now div 1000) * 1000"
    by (auto simp: Stale_def nm)
  have "\<not> MaxAge < later - (now div 1000) * 1000" if "later \<le> now + MaxAge - 1000"
    using that by (simp add: minus_mod_eq_div_mult [symmetric])
  moreover have "\<forall>m \<in> set (Stale ns later). isStage m" by (auto simp: Stale_def isStage_def split: option.splits)
  ultimately show ?thesis using iff nm by (auto simp: isStage_def)
qed

theorem stage_age_witness:
  "Incoming (newStage 5000 [1, 2, 3, 4, 5, 6, 7, 8]) \<notin> set (Stale [Incoming (newStage 5000 [1, 2, 3, 4, 5, 6, 7, 8])] 6000) \<and>
   Incoming (newStage 5000 [1, 2, 3, 4, 5, 6, 7, 8]) \<in> set (Stale [Incoming (newStage 5000 [1, 2, 3, 4, 5, 6, 7, 8])] 90000000)"
proof -
  let ?n = "Incoming (newStage 5000 [1, 2, 3, 4, 5, 6, 7, 8])"
  note st = stage_age [of 5000 "[1, 2, 3, 4, 5, 6, 7, 8]" ?n "[?n]"]
  show ?thesis using st [of 6000] st [of 90000000] by (simp add: MaxAge_def)
qed

section \<open>Row counts\<close>

text \<open>No statement of a capture touches the catalog of the maintenance database.\<close>

definition sameCatalog :: "'c pg \<Rightarrow> 'c pg \<Rightarrow> bool" where
  "sameCatalog e e' \<longleftrightarrow> (alone (pg_db e) \<longrightarrow> alone (pg_db e') \<and> pg_class (cluster e') = pg_class (cluster e))"

lemma sameCatalog_refl_trans: "reflp sameCatalog" "transp sameCatalog"
  by (auto simp: reflp_def transp_def sameCatalog_def)

lemma stmt_catalog:
  "stAllow n b t = Inr t' \<Longrightarrow> pg_class t' = pg_class t"
  "stTerminate n t = Inr t' \<Longrightarrow> pg_class t' = pg_class t"
  "stDropIfExists n t = Inr t' \<Longrightarrow> pg_class t' = pg_class t"
  "stCreateFrom n src t = Inr t' \<Longrightarrow> pg_class t' = pg_class t"
  by (auto simp: stAllow_def stTerminate_def stDropIfExists_def stCreateFrom_def updDb_def delDb_def addDb_def split: if_splits option.splits)

lemma sameCatalog_exec:
  assumes "\<And>t t'. st t = Inr t' \<Longrightarrow> pg_class t' = pg_class t"
  shows "keeps sameCatalog (execOutsideTx st)"
proof (rule keepsI)
  fix e :: "'a pg" and r e' assume run: "execOutsideTx st e = (r, e')"
  have spec: "wps (execOutsideTx st) (\<lambda>_ t'. pg_class t' = pg_class (cluster e)) (\<lambda>_ t'. pg_class t' = pg_class (cluster e)) (cluster e)"
    by (intro wps_rule) (auto intro: assms)
  show "sameCatalog e e'"
    unfolding sameCatalog_def
  proof
    assume "alone (pg_db e)"
    from wps_run [OF spec this run] show "alone (pg_db e') \<and> pg_class (cluster e') = pg_class (cluster e)" by (cases r) auto
  qed
qed

lemma sameCatalog_capture: "keeps sameCatalog (pg_SnapshotCreate active dur)"
  unfolding pg_SnapshotCreate_def pg_terminateBackends_def orRaise_def
  by (intro keeps_intro sameCatalog_refl_trans sameCatalog_exec; erule stmt_catalog)

lemma sample_empty:
  assumes "\<forall>r \<in> set (pg_class t). nspname r \<noteq> db"
  shows "wps (pg_RowCountSample db) (\<lambda>rows _. rows = []) (\<lambda>_ _. True) t"
proof -
  have none: "filter (\<lambda>r. nspname r = db \<and> relkind r = CHR ''r'' \<and> 0 < reltuples r) (pg_class t) = []"
    using assms by (auto simp: filter_empty_conv)
  show ?thesis
    unfolding pg_RowCountSample_def Sample_def pg_nonEmptyTables_def
    by (intro wps_guard wps_bindA wps_wrapA wps_query) (simp_all add: none CountsFor_def wps_returnA)
qed

text \<open>
  The row-count verification of a capture does not look at the copy on PostgreSQL.  The sample asks the maintenance database
  for the relations of a schema named like the database; when there is none, as the relations of a database are
  in its own catalog, the verified capture is the capture: it reports what the statements reported, whatever the
  copy holds.
\<close>

theorem pg_sample_blind:
  assumes "alone (pg_db (engine w))" "\<forall>r \<in> set (pg_class (cluster (engine w))). nspname r \<noteq> active"
  shows "fst (captureVerified postgresNS active dur w) = fst (captureRetrying postgresNS active dur w)"
proof -
  obtain r w1 where cap: "captureRetrying postgresNS active dur w = (r, w1)" by force
  have k: "keeps (engine_rel sameCatalog) (captureRetrying postgresNS active dur :: ('a pg world, unit) action)"
    unfolding captureRetrying_def postgresNS_def
    by (auto intro!: keeps_retryTransient keeps_engine reflp_engine_rel transp_engine_rel sameCatalog_refl_trans
        keepsD [OF sameCatalog_capture])
  have after: "alone (pg_db (engine w1))" "\<forall>r \<in> set (pg_class (cluster (engine w1))). nspname r \<noteq> active"
    using keepsD [OF k cap] assms by (auto simp: engine_rel_def sameCatalog_def)
  obtain x e2 where smp: "pg_RowCountSample active (engine w1) = (x, e2)" by force
  have "x = Inr [] \<or> isl x" using wps_run [OF sample_empty [OF after(2)] after(1) smp] by (cases x) auto
  then show ?thesis
    using cap smp by (cases r)
      (auto simp: captureVerified_def bindA_def sampleRows_def postgresNS_def tryA_def onEngine_def returnA_def isl_def)
qed

text \<open>The relations of the maintenance database are in the schema \<open>public\<close>.\<close>

definition blindWorld :: "string pg world" where
  "blindWorld = \<lparr>engine = samplePg\<lparr>pg_db := (pg_db samplePg)\<lparr>tables := (cluster samplePg)\<lparr>pg_class :=
       [\<lparr>nspname = ''public'', relname = ''users'', relkind = CHR ''r'', reltuples = 5, relrows = 5\<rparr>]\<rparr>\<rparr>\<rparr>,
     store = sampleStore, ctx = [], event_log = []\<rparr>"

theorem pg_sample_blind_witness: "fst (captureVerified postgresNS ''app'' ''_tmbs_0'' blindWorld) = Inr ()"
proof -
  have "alone (pg_db (engine blindWorld))" by (simp add: blindWorld_def samplePg_def alone_def)
  moreover have "\<forall>r \<in> set (pg_class (cluster (engine blindWorld))). nspname r \<noteq> ''app''" by (simp add: blindWorld_def)
  moreover have "fst (captureRetrying postgresNS ''app'' ''_tmbs_0'' blindWorld) = Inr ()" by code_simp
  ultimately show ?thesis using pg_sample_blind by metis
qed

end
