(* ===== verification/TeardownProps.thy ===== *)
theory TeardownProps
  imports Teardown PostgresProps
begin

text \<open>
  What teardown and recovery promise: on a server that scopes by name exactly the target and its numbered clones
  disappear, among them every clone a prepare has made, the outcome is recorded for the retry, and
  a recovered worktree keeps no built-at marker.
\<close>

section \<open>Rendering in parts\<close>

lemma IndexByte_more: "IndexByte xs c = Some i \<Longrightarrow> IndexByte (xs @ zs) c = Some i"
  by (induction xs arbitrary: i) (auto split: if_splits)

lemma passThrough_more: "passThrough xs = Some n \<Longrightarrow> passThrough (xs @ zs) = Some n"
  by (auto simp: passThrough_def IndexByte_more split: list.splits if_splits)

lemma passThrough_bound: "passThrough xs = Some n \<Longrightarrow> n \<le> length xs"
  by (auto simp: passThrough_def IndexByte_Some split: list.splits if_splits)

lemma passThrough_none:
  assumes "passThrough (c # cs) = None" "cs = [] \<longrightarrow> c \<noteq> CHR ''$''" "\<not> (c = CHR ''$'' \<and> (\<exists>r. cs = CHR ''{'' # r \<and> IndexByte r (CHR ''}'') = None))"
  shows "passThrough ((c # cs) @ zs) = None"
  using assms by (cases cs) (auto simp: passThrough_def split: list.splits if_splits)

lemma renderLoop_open:
  "IndexByte r (CHR ''}'') = None \<Longrightarrow> renderLoop L i (CHR ''{'' # r) b st = (Inl (UnmatchedAt i), st)"
  by (auto simp: renderLoop.simps(2) [of L i _ r] passThrough_def split: list.splits)

lemma renderLoop_append:
  "renderLoop L i xs b st = (Inr r, st') \<Longrightarrow> xs = [] \<or> last xs \<noteq> CHR ''$'' \<Longrightarrow>
     renderLoop L i (xs @ zs) b st = renderLoop L (i + length xs) zs r st'"
proof (induction L i xs b st rule: renderLoop.induct)
  case (1 L i b st)
  then show ?case by simp
next
  case (2 L i c cs b st)
  note eq = renderLoop.simps(2) [of L i c cs b st]
  note prem = "2.prems"(1) [unfolded eq]
  note eq' = renderLoop.simps(2) [of L i c "cs @ zs" b st, folded append_Cons]
  show ?case
  proof (cases "passThrough (c # cs)")
    case (Some n)
    have n: "n \<le> length (c # cs)" using passThrough_bound [OF Some] .
    have "renderLoop L (i + n) (drop n (c # cs)) (b @ take n (c # cs)) st = (Inr r, st')"
      using "2.prems"(1) Some by (simp add: eq)
    moreover have "drop n (c # cs) = [] \<or> last (drop n (c # cs)) \<noteq> CHR ''$''"
      using "2.prems"(2) n by (metis last_drop le_less_linear drop_all list.discI)
    ultimately have "renderLoop L (i + n) (drop n (c # cs) @ zs) (b @ take n (c # cs)) st =
        renderLoop L (i + n + length (drop n (c # cs))) zs r st'"
      by (rule "2.IH"(3) [OF Some])
    moreover have "drop n ((c # cs) @ zs) = drop n (c # cs) @ zs" "take n ((c # cs) @ zs) = take n (c # cs)"
      using n by (simp_all only: drop_append take_append) simp_all
    ultimately show ?thesis using n passThrough_more [OF Some, of zs] by (simp only: eq' option.case) simp
  next
    case None
    show ?thesis
    proof (cases "c = CHR ''{''")
      case False
      have step: "renderLoop L (i + 1) cs (b @ [c]) st = (Inr r, st')" using "2.prems"(1) None False by (simp add: eq)
      have "passThrough ((c # cs) @ zs) = None"
      proof (rule passThrough_none [OF None])
        show "cs = [] \<longrightarrow> c \<noteq> CHR ''$''" using "2.prems"(2) by auto
        show "\<not> (c = CHR ''$'' \<and> (\<exists>r. cs = CHR ''{'' # r \<and> IndexByte r (CHR ''}'') = None))"
        proof (rule notI, elim conjE exE)
          fix q assume "cs = CHR ''{'' # q" "IndexByte q (CHR ''}'') = None"
          then show False using step renderLoop_open [of q L "i + 1" "b @ [c]" st] by simp
        qed
      qed
      moreover have "cs = [] \<or> last cs \<noteq> CHR ''$''" using "2.prems"(2) by auto
      ultimately show ?thesis using "2.IH"(1) [OF None False step] False by (simp only: eq' option.case if_True not_False_eq_True) simp
    next
      case True
      obtain e where e: "IndexByte cs (CHR ''}'') = Some e"
        using prem None True by (auto split: option.splits)
      obtain val st1 where val: "L (take e cs) st = (Some val, st1)"
        and step: "renderLoop L (i + 1 + e + 1) (drop (e + 1) cs) (b @ val) st1 = (Inr r, st')"
        using prem None True e by (auto split: prod.splits option.splits)
      have len: "e < length cs" using e by (simp add: IndexByte_Some)
      have last: "drop (e + 1) cs = [] \<or> last (drop (e + 1) cs) \<noteq> CHR ''$''"
        using "2.prems"(2) len by (cases "e + 1 < length cs") (auto simp: last_drop split: if_splits)
      have "renderLoop L (i + 1 + e + 1) (drop (e + 1) cs @ zs) (b @ val) st1 =
          renderLoop L (i + 1 + e + 1 + length (drop (e + 1) cs)) zs r st'"
        using "2.IH"(2) [OF None _ e val [symmetric] refl step last] True by simp
      moreover have "passThrough ((c # cs) @ zs) = None"
        using passThrough_none [OF None, of zs] True by simp
      moreover have "renderLoop L i ((c # cs) @ zs) b st = renderLoop L (i + 1 + e + 1) (drop (e + 1) cs @ zs) (b @ val) st1"
        unfolding True append_Cons
        by (subst renderLoop.simps(2)) (use calculation(2) True IndexByte_more [OF e, of zs] val len in simp)
      moreover have "i + 1 + e + 1 + length (drop (e + 1) cs) = i + length (c # cs)" using len by simp
      ultimately show ?thesis by metis
    qed
  qed
qed

text \<open>The offset only matters for an error, the builder is only appended to, and a richer lookup gives the same result.\<close>

lemma renderLoop_shift:
  assumes "\<And>k s v s'. L k s = (Some v, s') \<Longrightarrow> L' k s = (Some v, s')"
  shows "renderLoop L i xs b st = (Inr r, st') \<Longrightarrow> renderLoop L' j xs (p @ b) st = (Inr (p @ r), st')"
  using assms
proof (induction L i xs b st arbitrary: j rule: renderLoop.induct)
  case (2 L i c cs b st)
  note eq = renderLoop.simps(2) [of L i c cs b st]
  note prem = "2.prems"(1) [unfolded eq]
  note eq' = renderLoop.simps(2) [of L' j c cs "p @ b" st]
  show ?case
  proof (cases "passThrough (c # cs)")
    case (Some n)
    then show ?thesis using "2.IH"(3) [OF Some _ "2.prems"(2), of "j + n"] "2.prems"(1) by (simp add: eq eq')
  next
    case None
    show ?thesis
    proof (cases "c = CHR ''{''")
      case False
      then show ?thesis using None "2.IH"(1) [OF None False _ "2.prems"(2), of "j + 1"] "2.prems"(1) by (simp add: eq eq')
    next
      case True
      obtain e where e: "IndexByte cs (CHR ''}'') = Some e"
        using prem None True by (auto split: option.splits)
      obtain val st1 where val: "L (take e cs) st = (Some val, st1)"
        and step: "renderLoop L (i + 1 + e + 1) (drop (e + 1) cs) (b @ val) st1 = (Inr r, st')"
        using prem None True e by (auto split: prod.splits option.splits)
      have "renderLoop L' (j + 1 + e + 1) (drop (e + 1) cs) (p @ (b @ val)) st1 = (Inr (p @ r), st')"
        using "2.IH"(2) [OF None _ e val [symmetric] refl step "2.prems"(2)] True by simp
      then show ?thesis unfolding eq' using None True e "2.prems"(2) [OF val] by simp
    qed
  qed
qed simp

lemma Render_parts:
  assumes "Render before c = Inr pre" "Render after c = Inr suf" "\<not> HasN c" "before = [] \<or> last before \<noteq> CHR ''$''"
  shows "Render (before @ ''{n}'' @ after) (WithN i c) = Inr (pre @ Itoa i @ suf)"
proof -
  let ?L = "pureLookup (\<lambda>key. lookup key c)" and ?M = "pureLookup (\<lambda>key. lookup key (WithN i c))"
  have ext: "?M k s = (Some v, s')" if "?L k s = (Some v, s')" for k s v s'
    using that assms(3) by (auto simp: pureLookup_def lookup_def WithN_def split: if_splits option.splits)
  have n: "?M ''n'' u = (Some (Itoa i), u)" for u
    by (simp add: pureLookup_def lookup_def WithN_def)
  have pre: "renderLoop ?L 0 before [] () = (Inr pre, ())" and suf: "renderLoop ?L 0 after [] () = (Inr suf, ())"
    using assms(1,2) by (simp_all add: Render_def renderWith_def prod_eq_iff)
  have "renderLoop ?M 0 before [] () = (Inr pre, ())"
    using renderLoop_shift [where L = ?L and L' = ?M and p = "[]", OF ext pre] by simp
  then have "renderLoop ?M 0 (before @ (''{n}'' @ after)) [] () = renderLoop ?M (length before) (''{n}'' @ after) pre ()"
    by (rule renderLoop_append [OF _ assms(4), where i = 0, simplified])
  also have "\<dots> = renderLoop ?M (length before + 3) after (pre @ Itoa i) ()"
    by (simp add: renderLoop.simps(2) [of _ _ _ "CHR ''n'' # CHR ''}'' # after"] passThrough_def n numeral_3_eq_3)
  also have "\<dots> = (Inr ((pre @ Itoa i) @ suf), ())"
    using renderLoop_shift [where L = ?L and L' = ?M and p = "pre @ Itoa i", OF ext suf] by simp
  finally show ?thesis by (simp add: Render_def renderWith_def)
qed

lemma isCloneName_iff:
  "isCloneName name pre suf \<longleftrightarrow> (\<exists>mid. name = pre @ mid @ suf \<and> mid \<noteq> [] \<and> list_all is_digit mid)"
  by (auto simp: isCloneName_def CutSuffix_def HasSuffix_iff CutPrefix_Some split: option.splits)

lemma Cut_Some: "Cut s sep = Some (a, b) \<Longrightarrow> s = a @ sep @ b"
  by (auto simp: Cut_def HasPrefix_iff dest!: Index_Some) (metis append_eq_conv_conj append_take_drop_id drop_drop add.commute)

lemma Itoa_nat_digits: "Itoa (int n) \<noteq> [] \<and> list_all is_digit (Itoa (int n))"
  using nat_digits_is_digit [of n] by (simp add: Itoa_def list_all_iff)

lemma cloneLoop_set:
  "cloneLoop tmpl c is = Inr ns \<Longrightarrow> set ns = {n. \<exists>i \<in> set is. Render tmpl (WithN (int i) c) = Inr n}"
  by (induction "is" arbitrary: ns) (auto split: sum.splits)

text \<open>What a spec says about the names it makes: the template splits at a \<open>{n}\<close> that is not part of a pass-through.\<close>

definition splitsAtN :: "TestClonesSpec \<Rightarrow> bool" where
  "splitsAtN p \<longleftrightarrow>
     (case Cut (tcNameTemplate p) ''{n}'' of None \<Rightarrow> False | Some (before, after) \<Rightarrow> before = [] \<or> last before \<noteq> CHR ''$'')"

lemma clonePattern_renders:
  assumes "clonePattern (Some p) c = Inr (Some (pre, suf))" "splitsAtN p" "\<not> HasN c"
  shows "Render (tcNameTemplate p) (WithN i c) = Inr (pre @ Itoa i @ suf)"
proof -
  obtain before after where cut: "Cut (tcNameTemplate p) ''{n}'' = Some (before, after)"
    and sp: "before = [] \<or> last before \<noteq> CHR ''$''"
    using assms(2) by (auto simp: splitsAtN_def split: option.splits)
  have "Render before c = Inr pre" "Render after c = Inr suf"
    using assms(1) cut by (auto simp: clonePattern_def Let_def split: if_splits sum.splits)
  then show ?thesis using Render_parts [OF _ _ assms(3) sp] Cut_Some [OF cut] by metis
qed

text \<open>
  C13: the clones a prepare names are found again by a teardown.  When the clone pattern renders, every name
  \<open>resolveCloneNames\<close> gives, whatever the number of clones is at that time, is a clone name of that pattern, the numbers
  from 1 to the count each name one, and a name that lacks the number or carries anything but digits is not one.
\<close>

theorem clones_owned:
  assumes "clonePattern (Some p) c = Inr (Some (pre, suf))" "splitsAtN p" "\<not> HasN c"
  shows "\<exists>ns. resolveCloneNames (Some p) c detected cpus = Inr ns \<and>
           set ns = {pre @ Itoa (int i) @ suf | i. 1 \<le> i \<and> i \<le> unat (cloneCount p detected cpus)} \<and>
           (\<forall>n \<in> set ns. isCloneName n pre suf) \<and>
           (\<forall>n. isCloneName n pre suf \<longleftrightarrow> (\<exists>mid. n = pre @ mid @ suf \<and> mid \<noteq> [] \<and> list_all is_digit mid))"
proof -
  note r = clonePattern_renders [OF assms]
  have loop: "\<exists>ns. cloneLoop (tcNameTemplate p) c is = Inr ns" for "is"
    by (induction "is") (auto simp: r)
  then obtain ns where ns: "resolveCloneNames (Some p) c detected cpus = Inr ns"
    by (auto simp: resolveCloneNames_def)
  then have "set ns = {n. \<exists>i \<in> {1..<unat (cloneCount p detected cpus) + 1}. pre @ Itoa (int i) @ suf = n}"
    unfolding resolveCloneNames_def option.case by (auto simp only: r set_upt sum.inject dest!: cloneLoop_set)
  also have "\<dots> = {pre @ Itoa (int i) @ suf | i. 1 \<le> i \<and> i \<le> unat (cloneCount p detected cpus)}"
    by (intro Collect_cong) (metis atLeastLessThan_iff less_Suc_eq_le Suc_eq_plus1)
  finally have "set ns = {pre @ Itoa (int i) @ suf | i. 1 \<le> i \<and> i \<le> unat (cloneCount p detected cpus)}" .
  moreover have "isCloneName (pre @ Itoa (int i) @ suf) pre suf" for i
    using Itoa_nat_digits by (auto simp: isCloneName_iff)
  ultimately show ?thesis using ns isCloneName_iff by auto
qed

definition sampleClones :: TestClonesSpec where
  "sampleClones = \<lparr>tcClones = \<lparr>Auto = False, Fixed = 2\<rparr>, tcNameTemplate = ''app_{slug}_{n}''\<rparr>"

definition sampleCtx :: Context where
  "sampleCtx = \<lparr>cSlug = ''x'', cSlugDash = ''x'', cSlugRedisQueue = [], cSlugRedisCache = [], cN = 0, HasN = False, cTargetDB = [],
     HasTargetDB = False, cPorts = (\<lambda>_. None), cDBs = []\<rparr>"

theorem clones_owned_witness:
  "\<exists>ns. resolveCloneNames (Some sampleClones) sampleCtx 0 0 = Inr ns \<and> (\<forall>n \<in> set ns. isCloneName n ''app_x_'' []) \<and>
     ''app_x_2'' \<in> set ns"
proof -
  have 1: "clonePattern (Some sampleClones) sampleCtx = Inr (Some (''app_x_'', []))" by code_simp
  have 2: "splitsAtN sampleClones" by code_simp
  have 3: "resolveCloneNames (Some sampleClones) sampleCtx 0 0 = Inr [''app_x_1'', ''app_x_2'']" by code_simp
  have 4: "\<not> HasN sampleCtx" by (simp add: sampleCtx_def)
  obtain ns where "resolveCloneNames (Some sampleClones) sampleCtx 0 0 = Inr ns" "\<forall>n \<in> set ns. isCloneName n ''app_x_'' []"
    using clones_owned [OF 1 2 4, of 0 0] by blast
  then show ?thesis using 3 by auto
qed

section \<open>Exact drops on PostgreSQL\<close>

text \<open>The names a teardown may drop: the target and its numbered clones.\<close>

definition ownedNames :: "string \<Rightarrow> (string \<times> string) option \<Rightarrow> string set" where
  "ownedNames target pat =
     {n. n = target \<or> (case pat of None \<Rightarrow> False | Some (pre, suf) \<Rightarrow> isCloneName n pre suf)}"

definition onPostgres :: "'c pg tdEnv \<Rightarrow> bool" where
  "onPostgres X \<longleftrightarrow> te_ops X = postgresConn \<and> te_dropper X = postgresDropper \<and>
     te_connect X = (\<lambda>fam name. bindA (op_dial postgresConn fam name) (\<lambda>_. returnA True))"

lemma wps_teardownDrops:
  "wps (dropLoop fam pg_DropDatabase ns k errs)
     (\<lambda>(k', errs') t'. pruned (set ns) t t' \<and> (errs' = [] \<longrightarrow> errs = [] \<and> (\<forall>n \<in> set ns. dbOf t' n = None))) (\<lambda>_ _. False) t"
proof (induction ns arbitrary: k errs t)
  case Nil
  then show ?case by (auto intro: wps_rule)
next
  case (Cons n ns)
  have step: "wps (dropLoop fam pg_DropDatabase ns k' errs')
      (\<lambda>(k', errs') t'. pruned (set (n # ns)) t t' \<and> (errs' = [] \<longrightarrow> errs = [] \<and> (\<forall>n \<in> set (n # ns). dbOf t' n = None))) (\<lambda>_ _. False) u"
    if "pruned {n} t u" "errs' = [] \<longrightarrow> errs = [] \<and> dbOf u n = None" for k' errs' u
  proof (rule wps_mono [OF Cons.IH], clarify)
    fix a b t' assume *: "pruned (set ns) u t'" "b = [] \<longrightarrow> errs' = [] \<and> (\<forall>n \<in> set ns. dbOf t' n = None)"
    have "pruned (set (n # ns)) t t'" using pruned_trans [OF that(1) *(1)] by simp
    moreover have "dbOf u n = None \<Longrightarrow> dbOf t' n = None" using *(1) unfolding pruned_def by metis
    ultimately show "pruned (set (n # ns)) t t' \<and> (b = [] \<longrightarrow> errs = [] \<and> (\<forall>n \<in> set (n # ns). dbOf t' n = None))"
      using * that(2) by auto
  qed simp
  show ?case
    unfolding dropLoop.simps
  proof (rule wps_bindA, rule wps_tryA, rule wps_mono [OF wps_DropDatabase], unfold sum.case)
    fix u assume "dbOf u = (dbOf t)(n := None)"
    then show "wps (dropLoop fam pg_DropDatabase ns (k + 1) errs)
      (\<lambda>(k', errs') t'. pruned (set (n # ns)) t t' \<and> (errs' = [] \<longrightarrow> errs = [] \<and> (\<forall>n \<in> set (n # ns). dbOf t' n = None))) (\<lambda>_ _. False) u"
      by (intro step) (simp_all add: pruned_def)
  next
    fix x u assume "u = t"
    then show "wps (dropLoop fam pg_DropDatabase ns k (errs @ [Wrapf (label fam @ '': drop '' @ n @ '': '') x []]))
      (\<lambda>(k', errs') t'. pruned (set (n # ns)) t t' \<and> (errs' = [] \<longrightarrow> errs = [] \<and> (\<forall>n \<in> set (n # ns). dbOf t' n = None))) (\<lambda>_ _. False) u"
      by (intro step) simp_all
  qed
qed

lemma wps_dropList:
  assumes "set ns \<subseteq> N" "\<forall>n \<in> N. n \<in> set ns \<or> dbOf t n = None"
  shows "wps (bindA (dropLoop fam pg_DropDatabase ns 0 []) (\<lambda>(k, errs). case joinAll errs of None \<Rightarrow> returnA k | Some e \<Rightarrow> raiseA e))
    (\<lambda>_ t'. pruned N t t' \<and> (\<forall>n \<in> N. dbOf t' n = None)) (\<lambda>_ t'. pruned N t t') t"
proof (rule wps_bind_spec [OF wps_teardownDrops], clarify)
  fix k and errs :: "go_error list" and u assume u: "pruned (set ns) t u" "errs = [] \<longrightarrow> ([] :: go_error list) = [] \<and> (\<forall>n \<in> set ns. dbOf u n = None)"
  have p: "pruned N t u" using pruned_mono [OF u(1) assms(1)] .
  have "\<forall>n \<in> N. dbOf u n = None" if "errs = []"
  proof
    fix n assume "n \<in> N"
    then show "dbOf u n = None" using assms(2) u that unfolding pruned_def by metis
  qed
  then show "wps (case joinAll errs of None \<Rightarrow> returnA k | Some e \<Rightarrow> raiseA e)
      (\<lambda>_ t'. pruned N t t' \<and> (\<forall>n \<in> N. dbOf t' n = None)) (\<lambda>_ t'. pruned N t t') u"
    using p by (intro wps_rule) (auto simp: joinAll_None)
qed simp

lemma wps_dropOwned:
  assumes "onPostgres X" "clonePattern clones c = Inr pat"
  shows "wps (dropOwned X FamilyPostgres conn target clones c)
    (\<lambda>_ t'. pruned (ownedNames target pat) t t' \<and> (\<forall>n \<in> ownedNames target pat. dbOf t' n = None))
    (\<lambda>_ t'. pruned (ownedNames target pat) t t') t"
proof -
  have drop: "dropOwned X FamilyPostgres conn target clones c =
      bindA (ownedDatabases X FamilyPostgres conn target clones c) (\<lambda>names.
      bindA (dropLoop FamilyPostgres pg_DropDatabase names 0 []) (\<lambda>(k, errs). case joinAll errs of None \<Rightarrow> returnA k | Some e \<Rightarrow> raiseA e))"
    using assms(1) by (simp add: dropOwned_def Family_Scope_def onPostgres_def postgresDropper_def)
  have live: "n \<in> datname ` set (pg_database t)" if "dbOf t n = Some d" for n d
    using that by (auto simp: dbOf_def find_Some_iff)
  have owned: "wps (ownedDatabases X FamilyPostgres conn target clones c)
      (\<lambda>ns t'. t' = t \<and> set ns \<subseteq> ownedNames target pat \<and> (\<forall>n \<in> ownedNames target pat. n \<in> set ns \<or> dbOf t n = None)) (\<lambda>_ t'. t' = t) t"
  proof (cases pat)
    case None
    then show ?thesis using assms(2) by (auto simp: ownedDatabases_def ownedNames_def intro!: wps_rule)
  next
    case (Some q)
    obtain pre suf where q: "q = (pre, suf)" by force
    have list: "op_listMatching (te_ops X) FamilyPostgres conn pre = pg_ListMatching pre"
      using assms(1) by (simp add: onPostgres_def postgresConn_def onlyPg_def)
    have pre: "HasPrefix n pre" if "isCloneName n pre suf" for n using that by (auto simp: isCloneName_iff)
    show ?thesis
      unfolding ownedDatabases_def assms(2) Some q sum.case option.case prod.case list
    proof (rule wps_bindA, rule wps_wrapA, rule wps_mono [OF wps_ListMatching], rule wps_returnA)
      fix ns u assume "u = t \<and> ns = sort (filter (\<lambda>n. HasPrefix n pre) (map datname (pg_database t)))"
      then show "u = t \<and> set (target # filter (\<lambda>n. n \<noteq> target \<and> isCloneName n pre suf) ns) \<subseteq> ownedNames target (Some (pre, suf)) \<and>
          (\<forall>n \<in> ownedNames target (Some (pre, suf)). n \<in> set (target # filter (\<lambda>n. n \<noteq> target \<and> isCloneName n pre suf) ns) \<or> dbOf t n = None)"
        using live pre by (auto simp: ownedNames_def)
    qed simp
  qed
  show ?thesis
    unfolding drop by (rule wps_bind_spec [OF owned]) (auto intro!: wps_dropList)
qed

text \<open>
  C8: the teardown of a PostgreSQL database drops what the worktree owns and nothing else.  With no other client on the
  server, and whichever statements fail, only the database the name template renders to and its numbered test clones
  can disappear, so a sibling worktree whose name merely starts with this one's keeps its databases; when the teardown
  reports success all of them are gone, clones of an earlier run with a different clone count included; and a template
  that does not render, or renders empty, drops nothing.
\<close>

theorem teardown_exact:
  assumes "onPostgres X" "alone (pg_db (engine w))" "\<not> d_branch_scoped d" "Canonical (d_engine d) = Some FamilyPostgres"
    and "teardownOne X d c repo wid w = (r, w')"
  shows "case (Render (d_name_template d) c, clonePattern (d_test_clones d) c) of
      (Inr target, Inr pat) \<Rightarrow>
        if target = [] then isl r \<and> cluster (engine w') = cluster (engine w)
        else (\<forall>n. dbOf (cluster (engine w')) n = dbOf (cluster (engine w)) n \<or>
                n \<in> ownedNames target pat \<and> dbOf (cluster (engine w')) n = None) \<and>
             (r = Inr () \<longrightarrow> (\<forall>n \<in> ownedNames target pat. dbOf (cluster (engine w')) n = None))
    | _ \<Rightarrow> isl r \<and> cluster (engine w') = cluster (engine w)"
proof -
  let ?conn = "d_connection d"
  have env: "op_configured (te_ops X) FamilyPostgres ?conn" "te_connect X FamilyPostgres ?conn = bindA (queryPg (\<lambda>t. ())) (\<lambda>_. returnA True)"
    "op_close (te_ops X) FamilyPostgres ?conn = returnA ()"
    using assms(1) by (simp_all add: onPostgres_def postgresConn_def onlyPg_def)
  have scope: "Family_Scope FamilyPostgres = ScopeName" by (simp add: Family_Scope_def)
  show ?thesis
  proof (cases "Render (d_name_template d) c")
    case (Inl e)
    then show ?thesis using assms(3-5) env by (auto simp: teardownOne_def teardownTarget_def scope Let_def bindA_def raiseA_def)
  next
    case (Inr target)
    show ?thesis
    proof (cases "target = []")
      case True
      then show ?thesis using Inr assms(3-5) env
        by (auto simp: teardownOne_def teardownTarget_def scope Let_def bindA_def raiseA_def split: sum.splits)
    next
      case False
      obtain r1 e1 where dial: "bindA (queryPg (\<lambda>t. ())) (\<lambda>_. returnA True) (engine w) = (r1, e1)" by force
      have "wps (bindA (queryPg (\<lambda>t. ())) (\<lambda>_. returnA True)) (\<lambda>_ t'. t' = cluster (engine w)) (\<lambda>_ t'. t' = cluster (engine w)) (cluster (engine w))"
        by (intro wps_rule) simp_all
      from wps_run [OF this assms(2) dial] have e1: "alone (pg_db e1)" "cluster e1 = cluster (engine w)" by (cases r1; simp)+
      have run: "bindA (Retry.onEngine (te_connect X FamilyPostgres ?conn)) (\<lambda>_. closing X FamilyPostgres ?conn
          (teardownGeneric target (\<lambda>t. dropOwned X FamilyPostgres ?conn t (d_test_clones d) c))) w = (r, w')"
        using assms(3-5) env(1) Inr False by (simp add: teardownOne_def teardownTarget_def scope Let_def bindA_def returnA_def)
      obtain r2 e2 where drop: "dropOwned X FamilyPostgres ?conn target (d_test_clones d) c e1 = (r2, e2)" by force
      have out: "(isl r1 \<and> isl r \<and> engine w' = e1) \<or> (\<not> isl r1 \<and> isl r = isl r2 \<and> engine w' = e2)"
        using run dial drop unfolding env(2) closing_def env(3)
        by (cases r1; cases r2)
          (auto simp: bindA_def Retry.onEngine_def teardownGeneric_def writeEvent_def modifyA_def returnA_def)
      show ?thesis
      proof (cases "clonePattern (d_test_clones d) c")
        case (Inl e)
        have "wps (dropOwned X FamilyPostgres ?conn target (d_test_clones d) c) (\<lambda>_ _. False) (\<lambda>_ t'. t' = cluster e1) (cluster e1)"
          using assms(1) Inl by (auto simp: dropOwned_def scope onPostgres_def postgresDropper_def ownedDatabases_def intro!: wps_rule)
        from wps_run [OF this e1(1) drop] show ?thesis using out e1(2) Inr Inl by (cases r2) auto
      next
        case (Inr pat)
        note spec = wps_run [OF wps_dropOwned [OF assms(1) Inr, of ?conn target "cluster e1"] e1(1) drop]
        have "pruned (ownedNames target pat) (cluster (engine w)) (cluster (engine w'))"
          using spec out e1(2) by (cases r2) auto
        moreover have "r = Inr () \<longrightarrow> (\<forall>n \<in> ownedNames target pat. dbOf (cluster (engine w')) n = None)"
          using spec out by (cases r2) auto
        ultimately show ?thesis using Inr False \<open>Render (d_name_template d) c = Inr target\<close> by (simp add: pruned_def)
      qed
    qed
  qed
qed

definition tdDb :: DatabaseConfig where
  "tdDb = \<lparr>d_engine = ''postgres'', d_connection = [], d_name_template = ''app_{slug}'', d_key_prefix = [],
     d_test_clones = Some sampleClones, d_fanout = 0, d_branch_scoped = False\<rparr>"

definition tdPgEnv :: "string pg tdEnv" where
  "tdPgEnv = \<lparr>te_cfg = \<lparr>Databases = [tdDb], MainDatabases = []\<rparr>, te_names = \<lparr>slugs = sample_env, redis = defaultRedisRange\<rparr>,
     te_dial = (\<lambda>d others. Inr None), te_ops = postgresConn,
     te_connect = (\<lambda>fam name. bindA (op_dial postgresConn fam name) (\<lambda>_. returnA True)), te_dropper = postgresDropper,
     te_base_of = (\<lambda>_. [])\<rparr>"

definition tdServer :: "string pg world" where
  "tdServer = \<lparr>engine = samplePg\<lparr>pg_db := (pg_db samplePg)\<lparr>tables := (cluster samplePg)\<lparr>pg_database :=
       map (\<lambda>n. newDb n n) [''app_x'', ''app_x_1'', ''app_x_7'', ''app_x_extra'', ''app_xy'']\<rparr>\<rparr>\<rparr>,
     store = sampleStore, ctx = [], event_log = []\<rparr>"

theorem teardown_exact_witness:
  "let w' = snd (teardownOne tdPgEnv tdDb sampleCtx 1 7 tdServer)
   in dbOf (cluster (engine w')) ''app_x_7'' = None \<and> dbOf (cluster (engine w')) ''app_xy'' = Some (newDb ''app_xy'' ''app_xy'')"
proof -
  have ok: "fst (teardownOne tdPgEnv tdDb sampleCtx 1 7 tdServer) = Inr ()" by code_simp
  obtain w' where run: "teardownOne tdPgEnv tdDb sampleCtx 1 7 tdServer = (Inr (), w')"
    using ok by (cases "teardownOne tdPgEnv tdDb sampleCtx 1 7 tdServer") simp
  have env: "onPostgres tdPgEnv" by (simp add: onPostgres_def tdPgEnv_def)
  have al: "alone (pg_db (engine tdServer))" by (simp add: tdServer_def samplePg_def alone_def)
  have db: "\<not> d_branch_scoped tdDb" "Canonical (d_engine tdDb) = Some FamilyPostgres" by (simp_all add: tdDb_def Canonical_def)
  have target: "Render (d_name_template tdDb) sampleCtx = Inr ''app_x''"
    and pat: "clonePattern (d_test_clones tdDb) sampleCtx = Inr (Some (''app_x_'', []))" by code_simp+
  have owned: "''app_x_7'' \<in> ownedNames ''app_x'' (Some (''app_x_'', []))" "''app_xy'' \<notin> ownedNames ''app_x'' (Some (''app_x_'', []))"
    by (simp_all add: ownedNames_def) code_simp+
  have before: "dbOf (cluster (engine tdServer)) ''app_xy'' = Some (newDb ''app_xy'' ''app_xy'')" by code_simp
  show ?thesis
    using teardown_exact [OF env al db run] owned before run unfolding target pat by (simp add: Let_def) metis
qed

section \<open>Outcomes and retries\<close>

lemma tdRun_fields: "tdRun m v = (r, v') \<Longrightarrow> td_pend v' = td_pend v \<and> td_built v' = td_built v"
  by (auto simp: tdRun_def split: prod.splits)

lemma tdPend_run: "tdPend m v = (r, v') \<longleftrightarrow> (\<exists>s. m (td_pend v) = (r, s) \<and> v' = v\<lparr>td_pend := s\<rparr>)"
  by (auto simp: tdPend_def split: prod.splits)

lemma writeEvent_runs: "writeEvent l k w = (r, w') \<Longrightarrow> r = Inr ()"
  by (simp add: writeEvent_def modifyA_def)

text \<open>Every database is attempted; the loop itself does not fail.\<close>

lemma teardownLoop_total: "\<exists>errs w'. teardownLoop X c sl repo wid i ds w = (Inr errs, w')"
proof (induction ds arbitrary: i w)
  case (Cons d ds)
  obtain r w1 where one: "teardownOne X d c repo wid w = (r, w1)" by force
  obtain w2 where ev: "(case r of Inl _ \<Rightarrow> writeEvent ''warn'' ''db:teardown:error'' | Inr _ \<Rightarrow> returnA ()) w1 = (Inr (), w2)"
    by (cases r) (auto simp: writeEvent_def modifyA_def returnA_def)
  obtain errs w3 where "teardownLoop X c sl repo wid (i + 1) ds w2 = (Inr errs, w3)" using Cons.IH by blast
  then show ?case using one ev by (cases r) (auto simp: bindA_def tryA_def returnA_def)
qed (simp add: returnA_def)

lemma SetTeardownError_quiet:
  assumes "quiet s"
  shows "\<exists>s'. SetTeardownError w msg s = (Inr (), s') \<and>
    tables s' = map (\<lambda>x. if pr_id x = w then x\<lparr>pr_error := Some msg\<rparr> else x) (tables s)"
  using Exec_quiet [OF assms, of applyPendOp "\<lambda>t. Inr (map (\<lambda>r. if pr_id r = w then r\<lparr>pr_error := Some msg\<rparr> else r) t)"]
  by (auto simp: SetTeardownError_def optionA_def)

lemma ClearTeardownError_alone:
  assumes "alone s" "ClearTeardownError w s = (r, s')"
  shows "case r of Inr _ \<Rightarrow> \<forall>x \<in> set (tables s'). pr_id x = w \<longrightarrow> pr_error x = None | Inl _ \<Rightarrow> tables s' = tables s"
proof -
  obtain x s1 where ex: "Exec applyPendOp (\<lambda>t. Inr (map (\<lambda>r. if pr_id r = w \<and> pr_error r \<noteq> None then r\<lparr>pr_error := None\<rparr> else r) t)) s = (x, s1)" by force
  note out = Exec_alone [OF assms(1) ex]
  show ?thesis
  proof (cases x)
    case None
    then have rows: "tables s1 = map (\<lambda>r. if pr_id r = w \<and> pr_error r \<noteq> None then r\<lparr>pr_error := None\<rparr> else r) (tables s)"
      using out by simp
    have "r = Inr ()" "s' = s1" using ex assms(2) None by (simp_all add: ClearTeardownError_def optionA_def)
    moreover have "pr_error y = None" if y: "y \<in> set (tables s1)" and id: "pr_id y = w" for y
    proof -
      obtain z where "y = (if pr_id z = w \<and> pr_error z \<noteq> None then z\<lparr>pr_error := None\<rparr> else z)"
        using y unfolding rows set_map by blast
      then show ?thesis using id by (cases "pr_id z = w \<and> pr_error z \<noteq> None") auto
    qed
    ultimately show ?thesis by simp
  next
    case (Some e)
    then show ?thesis using out ex assms(2) by (simp add: ClearTeardownError_def optionA_def) (elim conjE, hypsubst, simp)
  qed
qed

lemma ClearActive_alone:
  assumes "alone s" "ClearActiveBranchesForWorktree w s = (Inr u, s')"
  shows "\<forall>m \<in> set (active_branch_db (tables s')). ab_worktree m \<noteq> w"
proof -
  obtain x s1 where ex: "Exec applyBranchOp (\<lambda>t. Inr (t\<lparr>active_branch_db := filter (\<lambda>r. ab_worktree r \<noteq> w) (active_branch_db t)\<rparr>)) s = (x, s1)" by force
  have "active_branch_db (tables s1) = filter (\<lambda>r. ab_worktree r \<noteq> w) (active_branch_db (tables s))" if "x = None"
    using Exec_alone [OF assms(1) ex] that by (cases "tables s"; cases "tables s1") simp
  then show ?thesis using ex assms(2) by (cases x) (auto simp: ClearActiveBranchesForWorktree_def optionA_def)
qed

text \<open>The run of a teardown of a known worktree: the loop, then the record of its outcome.\<close>

lemma TeardownDatabases_run:
  assumes "0 < w" "teardownLoop X (slugContext X sl) sl repo w 0 (Databases (te_cfg X)) (td_run v) = (Inr errs, u)"
    and "TeardownDatabases X sl repo w v = (r, v')"
  obtains q where "recordTeardownOutcome w (joinAll errs) (v\<lparr>td_run := u\<rparr>) = (q, v')" "r = Inr () \<longleftrightarrow> errs = [] \<and> q = Inr ()"
proof -
  obtain q v1 where rec: "recordTeardownOutcome w (joinAll errs) (v\<lparr>td_run := u\<rparr>) = (q, v1)" by force
  have "v' = v1" "r = Inr () \<longleftrightarrow> errs = [] \<and> q = Inr ()"
    using assms rec by (cases q; cases "joinAll errs"; auto simp: TeardownDatabases_def bindA_def tdRun_def tryA_def Let_def raiseA_def
        returnA_def joinAll_None)+
  then show ?thesis using rec that by blast
qed

text \<open>
  C12: a teardown that failed is retried until it succeeds.  On a store that accepts its writes, a teardown of a removed
  worktree in which some database could not be dropped reports an error and leaves the worktree among the pending
  teardowns, unless a live worktree has taken its slug in the meantime; one that reports success dropped every
  database and is no longer pending, and no marker of an active branch of that worktree is left.
\<close>

theorem failed_teardown_retried:
  assumes "0 < w" "quiet (td_pend v)" "alone (store u)"
    and "teardownLoop X (slugContext X sl) sl repo w 0 (Databases (te_cfg X)) (td_run v) = (Inr errs, u)"
    and "TeardownDatabases X sl repo w v = (r, v')"
    and "row \<in> set (tables (td_pend v))" "pr_id row = w" "pr_repo row = repo" "pr_deleted row"
    and "\<forall>l \<in> set (tables (td_pend v)). pr_slug l = pr_slug row \<and> pr_repo l = repo \<longrightarrow> pr_deleted l"
  shows "(errs \<noteq> [] \<longrightarrow> isl r \<and> (\<exists>p \<in> set (pendingOf repo (tables (td_pend v'))). pr_id p = w \<and> pr_slug p = pr_slug row)) \<and>
    (r = Inr () \<longrightarrow> errs = [] \<and> (\<forall>p \<in> set (pendingOf repo (tables (td_pend v'))). pr_id p \<noteq> w) \<and>
       (\<forall>m \<in> set (active_branch_db (tables (store (td_run v')))). ab_worktree m \<noteq> w))"
proof -
  obtain q where rec: "recordTeardownOutcome w (joinAll errs) (v\<lparr>td_run := u\<rparr>) = (q, v')" and r: "r = Inr () \<longleftrightarrow> errs = [] \<and> q = Inr ()"
    using TeardownDatabases_run [OF assms(1,4,5)] by blast
  show ?thesis
  proof (intro conjI impI)
    assume "errs \<noteq> []"
    then obtain e where e: "joinAll errs = Some e" using joinAll_None by (cases "joinAll errs") auto
    show "isl r" using r \<open>errs \<noteq> []\<close> by (cases r) auto
    obtain s' where st: "SetTeardownError w (Error e) (td_pend v) = (Inr (), s')"
      "tables s' = map (\<lambda>x. if pr_id x = w then x\<lparr>pr_error := Some (Error e)\<rparr> else x) (tables (td_pend v))"
      using SetTeardownError_quiet [OF assms(2)] by blast
    have "tables (td_pend v') = tables s'"
      using rec e st(1) by (auto simp: recordTeardownOutcome_def wrapA_def tdPend_def)
    then show "\<exists>p \<in> set (pendingOf repo (tables (td_pend v'))). pr_id p = w \<and> pr_slug p = pr_slug row"
      using st(2) assms(6-10) by (intro bexI [of _ "row\<lparr>pr_error := Some (Error e)\<rparr>"]) (auto simp: pendingOf_def list_ex_iff image_iff)
  next
    assume ok: "r = Inr ()"
    then show errs: "errs = []" using r by simp
    have "q = Inr ()" using r ok by simp
    then obtain s1 s2 where cl: "ClearActiveBranchesForWorktree w (store u) = (Inr (), s1)" "ClearTeardownError w (td_pend v) = (Inr (), s2)"
      "v' = v\<lparr>td_run := u\<lparr>store := s1\<rparr>, td_pend := s2\<rparr>"
      using rec errs
      by (auto simp: recordTeardownOutcome_def run_rules tdRun_def tdPend_def onStore_def split: prod.splits)
    show "\<forall>p \<in> set (pendingOf repo (tables (td_pend v'))). pr_id p \<noteq> w"
      using ClearTeardownError_alone [OF quiet_alone [OF assms(2)] cl(2)] cl(3) by (auto simp: pendingOf_def)
    show "\<forall>m \<in> set (active_branch_db (tables (store (td_run v')))). ab_worktree m \<noteq> w"
      using ClearActive_alone [OF assms(3) cl(1)] cl(3) by simp
  qed
qed

text \<open>A session is open on the database of the removed worktree.\<close>

definition tdBusy :: "string pg tdWorld" where
  "tdBusy = \<lparr>td_run = tdServer\<lparr>engine := (engine tdServer)\<lparr>pg_db := (pg_db (engine tdServer))\<lparr>tables :=
       (cluster (engine tdServer))\<lparr>pg_database := [(newDb ''app_x'' [])\<lparr>sessions := 1\<rparr>]\<rparr>\<rparr>\<rparr>\<rparr>,
     td_built = \<lparr>tables = \<lparr>template_db_built = [], tb_worktrees = []\<rparr>, clock = 0, script = []\<rparr>,
     td_pend = \<lparr>tables = [\<lparr>pr_id = 7, pr_repo = 1, pr_path = ''/w'', pr_slug = ''x'', pr_error = None, pr_deleted = True\<rparr>],
       clock = 0, script = []\<rparr>\<rparr>"

definition tdFixedDb :: DatabaseConfig where
  "tdFixedDb = tdDb\<lparr>d_name_template := ''app_x'', d_test_clones := None\<rparr>"

definition tdFixedEnv :: "string pg tdEnv" where
  "tdFixedEnv = tdPgEnv\<lparr>te_cfg := \<lparr>Databases = [tdFixedDb], MainDatabases = []\<rparr>\<rparr>"

theorem failed_teardown_retried_witness:
  "\<exists>p \<in> set (pendingOf 1 (tables (td_pend (snd (TeardownDatabases tdFixedEnv ''x'' 1 7 tdBusy))))). pr_slug p = ''x''"
proof -
  let ?loop = "\<lambda>c. teardownLoop tdFixedEnv c ''x'' 1 7 0 (Databases (te_cfg tdFixedEnv)) (td_run tdBusy)"
  obtain errs u where loop: "?loop (slugContext tdFixedEnv ''x'') = (Inr errs, u)" using teardownLoop_total by blast
  have "case fst (?loop c) of Inl _ \<Rightarrow> False | Inr es \<Rightarrow> es \<noteq> []" for c by code_simp
  from this [of "slugContext tdFixedEnv ''x''"] have "errs \<noteq> []" using loop by simp
  have "alone (store (snd (?loop c)))" for c by code_simp
  from this [of "slugContext tdFixedEnv ''x''"] have al: "alone (store u)" using loop by simp
  have q: "quiet (td_pend tdBusy)" by (simp add: tdBusy_def quiet_def)
  obtain r v' where run: "TeardownDatabases tdFixedEnv ''x'' 1 7 tdBusy = (r, v')" by force
  show ?thesis
    using failed_teardown_retried [OF _ q al loop run, of "hd (tables (td_pend tdBusy))"] \<open>errs \<noteq> []\<close> run
    by (simp add: tdBusy_def) blast
qed

section \<open>Recovery\<close>

lemma tdBuilt_run: "tdBuilt m v = (r, v') \<longleftrightarrow> (\<exists>s. m (td_built v) = (r, s) \<and> v' = v\<lparr>td_built := s\<rparr>)"
  by (auto simp: tdBuilt_def split: prod.splits)

text \<open>The markers of the worktree may have been removed, those of the others are as before.\<close>

definition othersMarked :: "int \<Rightarrow> 'e tdWorld \<Rightarrow> 'e tdWorld \<Rightarrow> bool" where
  "othersMarked w v v' \<longleftrightarrow>
     (quiet (td_built v) \<longrightarrow> quiet (td_built v') \<and>
        filter (\<lambda>r. tb_worktree r \<noteq> w) (template_db_built (tables (td_built v'))) =
        filter (\<lambda>r. tb_worktree r \<noteq> w) (template_db_built (tables (td_built v))) \<and>
        set (template_db_built (tables (td_built v'))) \<subseteq> set (template_db_built (tables (td_built v))))"

lemma othersMarked_refl_trans: "reflp (othersMarked w)" "transp (othersMarked w)"
  by (auto simp: reflp_def transp_def othersMarked_def)

lemma othersMarked_tdRun: "keeps (othersMarked w) (tdRun m)"
  by (rule keepsI) (auto simp: othersMarked_def dest: tdRun_fields)

lemma clear_quiet:
  assumes "quiet s" "\<And>r. P r \<Longrightarrow> tb_worktree r = w"
  shows "\<exists>s'. execT (\<lambda>t. Inr (t\<lparr>template_db_built := filter (\<lambda>r. \<not> P r) (template_db_built t)\<rparr>)) s = (Inr (), s') \<and> quiet s' \<and>
    template_db_built (tables s') = filter (\<lambda>r. \<not> P r) (template_db_built (tables s))"
  using Exec_quiet [OF assms(1), of applyBuiltOp "\<lambda>t. Inr (t\<lparr>template_db_built := filter (\<lambda>r. \<not> P r) (template_db_built t)\<rparr>)"]
  by (auto simp: optionA_def)

lemma ClearTemplateBuilt_quiet:
  assumes "quiet s"
  shows "\<exists>s'. ClearTemplateBuiltForWorktree w s = (Inr (), s') \<and> quiet s' \<and>
      template_db_built (tables s') = filter (\<lambda>r. tb_worktree r \<noteq> w) (template_db_built (tables s))"
    and "\<exists>s'. ClearTemplateBuiltForKey w k s = (Inr (), s') \<and> quiet s' \<and>
      template_db_built (tables s') = filter (\<lambda>r. \<not> (tb_worktree r = w \<and> tb_key r = k)) (template_db_built (tables s))"
  using clear_quiet [OF assms, of "\<lambda>r. tb_worktree r = w" w] clear_quiet [OF assms, of "\<lambda>r. tb_worktree r = w \<and> tb_key r = k" w]
  by (simp_all add: ClearTemplateBuiltForWorktree_def ClearTemplateBuiltForKey_def)

lemma othersMarked_tdBuilt:
  assumes "\<And>s. quiet s \<Longrightarrow> \<exists>s'. m s = (Inr (), s') \<and> quiet s' \<and>
      template_db_built (tables s') = filter P (template_db_built (tables s))"
    and "\<And>r. \<not> P r \<Longrightarrow> tb_worktree r = w"
  shows "keeps (othersMarked w) (tdBuilt m)"
proof (rule keepsI)
  fix v r v' assume "tdBuilt m v = (r, v')"
  then obtain s where m: "m (td_built v) = (r, s)" "v' = v\<lparr>td_built := s\<rparr>" unfolding tdBuilt_run by blast
  have twice: "filter (\<lambda>r. tb_worktree r \<noteq> w) (filter P xs) = filter (\<lambda>r. tb_worktree r \<noteq> w) xs" for xs
    using assms(2) by (induction xs) auto
  show "othersMarked w v v'"
    unfolding othersMarked_def
  proof
    assume "quiet (td_built v)"
    then have "quiet s \<and> template_db_built (tables s) = filter P (template_db_built (tables (td_built v)))"
      using assms(1) [of "td_built v"] m(1) by auto
    then show "quiet (td_built v') \<and>
        filter (\<lambda>r. tb_worktree r \<noteq> w) (template_db_built (tables (td_built v'))) =
        filter (\<lambda>r. tb_worktree r \<noteq> w) (template_db_built (tables (td_built v))) \<and>
        set (template_db_built (tables (td_built v'))) \<subseteq> set (template_db_built (tables (td_built v)))"
      using m(2) twice by simp
  qed
qed

lemma othersMarked_clear:
  "keeps (othersMarked w) (tdBuilt (ClearTemplateBuiltForWorktree w))" "keeps (othersMarked w) (tdBuilt (ClearTemplateBuiltForKey w k))"
  by (rule othersMarked_tdBuilt, erule ClearTemplateBuilt_quiet, simp)+

lemma othersMarked_recoverOne: "keeps (othersMarked w) (recoverOne X c path repo w filtered d)"
  unfolding recoverOne_def
  by (intro keeps_intro othersMarked_refl_trans othersMarked_tdRun othersMarked_clear)

lemma othersMarked_recoverLoop: "keeps (othersMarked w) (recoverLoop X c path repo w sel i ds)"
  by (induction ds arbitrary: i) (auto intro!: keeps_intro othersMarked_refl_trans othersMarked_recoverOne)

text \<open>An unfiltered recovery of a templated database leaves no marker of the worktree.\<close>

lemma recoverOne_clears:
  assumes "\<not> d_branch_scoped d" "quiet (td_built v)" "recoverOne X c path repo w False d v = (Inr u, v')"
  shows "\<forall>r \<in> set (template_db_built (tables (td_built v'))). tb_worktree r \<noteq> w"
proof -
  obtain x v1 y v2 z v3 where a: "tdRun (recoverTestClone X d c w) v = (Inr x, v1)"
    and b: "(if snd x \<noteq> None then tdRun (writeEvent ''warn'' ''worktree:recover:error'') else returnA ()) v1 = (Inr y, v2)"
    and cl: "tdBuilt (ClearTemplateBuiltForWorktree w) v2 = (z, v3)"
    and e: "(if isl z then tdRun (writeEvent ''warn'' ''worktree:recover:error'') else returnA ()) v3 = (Inr u, v')"
    using assms(1,3) unfolding recoverOne_def by (auto simp: bindA_Inr tryA_Inr split: prod.splits)
  have "td_built v2 = td_built v"
    using tdRun_fields [OF a] b by (auto simp: returnA_def split: if_splits dest: tdRun_fields)
  moreover have "td_built v' = td_built v3" using e by (auto simp: returnA_def split: if_splits dest: tdRun_fields)
  moreover obtain s where "ClearTemplateBuiltForWorktree w (td_built v2) = (Inr (), s)"
      "template_db_built (tables s) = filter (\<lambda>r. tb_worktree r \<noteq> w) (template_db_built (tables (td_built v2)))"
    using ClearTemplateBuilt_quiet(1) [of "td_built v2" w] assms(2) calculation(1) by auto
  ultimately show ?thesis using cl by (auto simp: tdBuilt_run)
qed

lemma recoverLoop_clears:
  assumes "\<exists>d \<in> set ds. \<not> d_branch_scoped d" "quiet (td_built v)" "recoverLoop X c path repo w None i ds v = (Inr u, v')"
  shows "\<forall>r \<in> set (template_db_built (tables (td_built v'))). tb_worktree r \<noteq> w"
  using assms
proof (induction ds arbitrary: i v)
  case (Cons d ds)
  obtain y v1 where one: "recoverOne X c path repo w False d v = (Inr y, v1)"
    and more: "recoverLoop X c path repo w None (i + 1) ds v1 = (Inr u, v')"
    using Cons.prems(3) by (auto simp: bindA_Inr)
  have q: "quiet (td_built v1)" using keepsD [OF othersMarked_recoverOne one] Cons.prems(2) by (simp add: othersMarked_def)
  have sub: "set (template_db_built (tables (td_built v'))) \<subseteq> set (template_db_built (tables (td_built v1)))"
    using keepsD [OF othersMarked_recoverLoop more] q by (simp add: othersMarked_def)
  show ?case
  proof (cases "d_branch_scoped d")
    case True
    then show ?thesis using Cons.IH [OF _ q more] Cons.prems(1) by simp
  next
    case False
    then show ?thesis using recoverOne_clears [OF False Cons.prems(2) one] sub by blast
  qed
qed simp

text \<open>
  Recovery forgets that the databases were built.  On a store that accepts its writes, the recovery of a whole
  worktree with a templated database leaves no built-at marker of that worktree, whatever could be dropped, so the
  next prepare rebuilds; the markers of other worktrees are untouched, by a recovery of selected databases too; and
  an empty selection does nothing at all.
\<close>

theorem recovery_forgets:
  assumes "quiet (td_built v)" "RecoverDatabases X sl path repo w sel v = (Inr u, v')"
  shows "(sel = None \<and> (\<exists>d \<in> set (Databases (te_cfg X)). \<not> d_branch_scoped d) \<longrightarrow>
      (\<forall>r \<in> set (template_db_built (tables (td_built v'))). tb_worktree r \<noteq> w)) \<and>
    filter (\<lambda>r. tb_worktree r \<noteq> w) (template_db_built (tables (td_built v'))) =
      filter (\<lambda>r. tb_worktree r \<noteq> w) (template_db_built (tables (td_built v))) \<and>
    (sel = Some [] \<longrightarrow> v' = v)"
proof -
  have none: "recoverLoop X c path repo w (Some []) i ds v = (Inr (), v)" for c i ds
    by (induction ds arbitrary: i) (simp_all add: bindA_def returnA_def)
  note run = assms(2) [unfolded RecoverDatabases_def]
  have kept: "othersMarked w v v'" by (rule keepsD [OF othersMarked_recoverLoop run])
  have "\<forall>r \<in> set (template_db_built (tables (td_built v'))). tb_worktree r \<noteq> w"
    if "sel = None" "\<exists>d \<in> set (Databases (te_cfg X)). \<not> d_branch_scoped d"
    using recoverLoop_clears [OF that(2) assms(1)] run that(1) by blast
  moreover have "v' = v" if "sel = Some []" using run none that by simp
  ultimately show ?thesis using kept assms(1) by (simp add: othersMarked_def)
qed

theorem recovery_forgets_witness:
  "list_all (\<lambda>r. tb_worktree r \<noteq> 7) (template_db_built (tables (td_built (snd (RecoverDatabases tdFixedEnv ''x'' ''/w'' 1 7 None
      (tdBusy\<lparr>td_built := (td_built tdBusy)\<lparr>tables := \<lparr>template_db_built =
         [\<lparr>tb_worktree = 7, tb_key = ''app_x'', tb_engine = ''postgres'', tb_connection = [], tb_fingerprint = ''f'', tb_updated = 0\<rparr>],
         tb_worktrees = [7]\<rparr>\<rparr>\<rparr>))))))"
  (is "list_all _ (template_db_built (tables (td_built (snd (RecoverDatabases _ _ _ _ _ _ ?v)))))")
proof -
  have "isl (fst (recoverLoop tdFixedEnv c ''/w'' 1 7 None 0 (Databases (te_cfg tdFixedEnv)) ?v)) = False" for c by code_simp
  from this [of "slugContext tdFixedEnv ''x''"] obtain v' where run: "RecoverDatabases tdFixedEnv ''x'' ''/w'' 1 7 None ?v = (Inr (), v')"
    by (cases "RecoverDatabases tdFixedEnv ''x'' ''/w'' 1 7 None ?v"; cases "fst (RecoverDatabases tdFixedEnv ''x'' ''/w'' 1 7 None ?v)")
      (auto simp: RecoverDatabases_def)
  have "quiet (td_built ?v)" by (simp add: tdBusy_def quiet_def)
  from recovery_forgets [OF this run] show ?thesis using run by (simp add: tdFixedEnv_def tdFixedDb_def tdDb_def list_all_iff)
qed

end
