(* ===== verification/LineText.thy ===== *)
theory LineText
  imports Prelude
begin

text \<open>
  Texts as lines, and the multi-line regular expressions that \<open>internal/patcher/lines.go\<close> builds for
  them.  A compiled expression is a \<open>pattern\<close>: told whether the text starts a line, it gives the match
  that begins right there, as the length of what precedes the value and the length of the whole match.
  \<open>findFrom\<close> and \<open>replaceFrom\<close> are the leftmost search and the replacement of every match of Go's
  \<open>regexp\<close> package; no pattern here matches the empty text.

  The locale \<open>line_pattern\<close> is the contract of a pattern that starts at a line's start and
  takes the line to its end: searching and replacing then work line by line, whatever the lines are.
  \<open>Patcher\<close> interprets it on the expressions of the \<open>dotenv\<close>, INI and TOML drivers.
\<close>

section \<open>Model\<close>

definition NL :: char where
  "NL = CHR 0x0A"

definition blank :: "char \<Rightarrow> bool" where
  "blank c \<longleftrightarrow> c = CHR '' '' \<or> c = CHR 0x09"

type_synonym pattern = "bool \<Rightarrow> string \<Rightarrow> (nat \<times> nat) option"

text \<open>
  \<open>FindStringSubmatchIndex\<close>: the start of the first match, the length up to the value, and the
  length of the match.
\<close>

fun findFrom :: "pattern \<Rightarrow> bool \<Rightarrow> string \<Rightarrow> (nat \<times> nat \<times> nat) option" where
  "findFrom p bol [] = map_option (\<lambda>(g, n). (0, g, n)) (p bol [])"
| "findFrom p bol (c # cs) =
     (case p bol (c # cs) of
        Some (g, n) \<Rightarrow> Some (0, g, n)
      | None \<Rightarrow> map_option (\<lambda>(i, g, n). (Suc i, g, n)) (findFrom p (c = NL) cs))"

definition FindStringSubmatchIndex :: "pattern \<Rightarrow> string \<Rightarrow> (nat \<times> nat \<times> nat) option" where
  "FindStringSubmatchIndex p s = findFrom p True s"

definition MatchString :: "pattern \<Rightarrow> string \<Rightarrow> bool" where
  "MatchString p s \<longleftrightarrow> FindStringSubmatchIndex p s \<noteq> None"

text \<open>\<open>FindString\<close>: the empty string when nothing matches.\<close>

definition FindString :: "pattern \<Rightarrow> string \<Rightarrow> string" where
  "FindString p s =
     (case FindStringSubmatchIndex p s of None \<Rightarrow> [] | Some (i, g, n) \<Rightarrow> take n (drop i s))"

text \<open>The value of the first match.\<close>

definition FindValue :: "pattern \<Rightarrow> string \<Rightarrow> string option" where
  "FindValue p s =
     map_option (\<lambda>(i, g, n). take (n - g) (drop (i + g) s)) (FindStringSubmatchIndex p s)"

text \<open>\<open>ReplaceAllLiteralString\<close>: matches are taken from left to right and do not overlap.\<close>

function replaceFrom :: "pattern \<Rightarrow> string \<Rightarrow> bool \<Rightarrow> string \<Rightarrow> string" where
  "replaceFrom p r bol [] = []"
| "replaceFrom p r bol (c # cs) =
     (case p bol (c # cs) of
        Some (g, Suc n) \<Rightarrow> r @ replaceFrom p r (last (take (Suc n) (c # cs)) = NL) (drop n cs)
      | _ \<Rightarrow> c # replaceFrom p r (c = NL) cs)"
  by pat_completeness auto
termination
  by (relation "measure (\<lambda>(p, r, bol, s). length s)") auto

definition ReplaceAllLiteralString :: "pattern \<Rightarrow> string \<Rightarrow> string \<Rightarrow> string" where
  "ReplaceAllLiteralString p s r = replaceFrom p r True s"

text \<open>A pattern followed by \<open>\n?\<close>.\<close>

definition withNewline :: "pattern \<Rightarrow> pattern" where
  "withNewline p bol s =
     map_option (\<lambda>(g, n). (g, case drop n s of [] \<Rightarrow> n | c # cs \<Rightarrow> if c = NL then Suc n else n)) (p bol s)"

text \<open>\<open>regexp.QuoteMeta(key)\<close>, then \<open>[ \t]*=\<close>: the text after the equals sign.\<close>

definition assignTail :: "string \<Rightarrow> string \<Rightarrow> string option" where
  "assignTail key s =
     (if HasPrefix s key then
        (case dropWhile blank (drop (length key) s) of
           [] \<Rightarrow> None
         | c # v \<Rightarrow> if c = CHR ''='' then Some v else None)
      else None)"

definition lineOf :: "string \<Rightarrow> string" where
  "lineOf s = takeWhile (\<lambda>c. c \<noteq> NL) s"

text \<open>\<open>dotenvLine\<close> and \<open>dotenvLineWithNewline\<close>\<close>

definition dotenvLine :: "string \<Rightarrow> pattern" where
  "dotenvLine key bol s =
     (if bol then
        map_option (\<lambda>v. (length s - length v, length s - length v + length (lineOf v))) (assignTail key s)
      else None)"

definition dotenvLineWithNewline :: "string \<Rightarrow> pattern" where
  "dotenvLineWithNewline key = withNewline (dotenvLine key)"

text \<open>
  \<open>assignLine\<close>: the leading \<open>[ \t]*\<close> takes as many blanks as it can and gives them back one by one until the key follows,
  so a key may itself begin with a blank; the value starts after the blanks that follow the equals sign.
\<close>

fun assignFrom :: "string \<Rightarrow> nat \<Rightarrow> string \<Rightarrow> string option" where
  "assignFrom key 0 s = assignTail key s"
| "assignFrom key (Suc n) s = (case assignTail key (drop (Suc n) s) of Some v \<Rightarrow> Some v | None \<Rightarrow> assignFrom key n s)"

definition assignLine :: "string \<Rightarrow> pattern" where
  "assignLine key bol s =
     (if bol then
        map_option (\<lambda>v. let w = dropWhile blank v
                        in (length s - length w, length s - length w + length (lineOf w)))
          (assignFrom key (length (takeWhile blank s)) s)
      else None)"

text \<open>A text as its complete lines and what follows the last newline.\<close>

definition textOf :: "string list \<Rightarrow> string \<Rightarrow> string" where
  "textOf ls t = concat (map (\<lambda>l. l @ [NL]) ls) @ t"

function linesOf :: "string \<Rightarrow> string list" where
  "linesOf s = (if NL \<in> set s then lineOf s # linesOf (drop (Suc (length (lineOf s))) s) else [])"
  by pat_completeness auto
termination
  by (relation "measure length") (auto intro: diff_less)

declare linesOf.simps [simp del]

definition lastLine :: "string \<Rightarrow> string" where
  "lastLine s = rev (lineOf (rev s))"

section \<open>Properties\<close>

named_theorems line_text

text \<open>A key with a leading blank matches an indented line, which takes giving back a blank.\<close>

lemma assignLine_gives_back: "assignLine '' k'' True ''  k = v'' = Some (6, 7)"
  by code_simp

lemma NL_not_eq [simp]: "CHR ''='' \<noteq> NL" "NL \<noteq> CHR ''=''"
  by (simp_all add: NL_def)

lemma NL_not_blank [simp]: "\<not> blank NL" "\<not> blank (CHR ''='')"
  by (simp_all add: NL_def blank_def)

lemma textOf_Nil [simp]: "textOf [] t = t"
  by (simp add: textOf_def)

lemma textOf_Cons [simp]: "textOf (l # ls) t = l @ NL # textOf ls t"
  by (simp add: textOf_def)

lemma textOf_append: "textOf (ls @ ms) t = textOf ls (textOf ms t)"
  by (simp add: textOf_def)

lemma lineOf_plain [simp]: "NL \<notin> set l \<Longrightarrow> lineOf l = l"
  by (auto simp: lineOf_def takeWhile_eq_all_conv)

lemma lineOf_line [simp]: "NL \<notin> set l \<Longrightarrow> lineOf (l @ NL # s) = l"
  by (subst lineOf_def, subst takeWhile_append2) auto

lemma NL_notin_lineOf [simp]: "NL \<notin> set (lineOf s)"
  by (auto simp: lineOf_def dest: set_takeWhileD)

lemma lineOf_split:
  assumes "NL \<in> set s"
  shows "s = lineOf s @ NL # drop (Suc (length (lineOf s))) s"
proof -
  have "s = lineOf s @ dropWhile (\<lambda>c. c \<noteq> NL) s" by (simp add: lineOf_def)
  moreover have "dropWhile (\<lambda>c. c \<noteq> NL) s \<noteq> []" using assms by auto
  then obtain u where "dropWhile (\<lambda>c. c \<noteq> NL) s = NL # u"
    by (metis (mono_tags, lifting) hd_dropWhile list.exhaust_sel)
  ultimately have u: "s = lineOf s @ NL # u" by simp
  then have "drop (Suc (length (lineOf s))) s = drop (Suc (length (lineOf s))) (lineOf s @ NL # u)" by argo
  then have "drop (Suc (length (lineOf s))) s = u" by simp
  then show ?thesis using u by argo
qed

lemma linesOf_plain [simp]: "NL \<notin> set s \<Longrightarrow> linesOf s = []"
  by (simp add: linesOf.simps)

lemma linesOf_line [simp]: "NL \<notin> set l \<Longrightarrow> linesOf (l @ NL # s) = l # linesOf s"
  by (simp add: linesOf.simps [of "l @ NL # s"])

lemma linesOf_textOf [simp]:
  "\<lbrakk>\<forall>l \<in> set ls. NL \<notin> set l; NL \<notin> set t\<rbrakk> \<Longrightarrow> linesOf (textOf ls t) = ls"
  by (induction ls) auto

lemma lastLine_line [simp]: "lastLine (l @ NL # s) = (if NL \<in> set s then lastLine s else s)"
proof (cases "NL \<in> set s")
  case True
  then have "NL \<in> set (rev s)" by simp
  then show ?thesis using True
    by (simp add: lastLine_def lineOf_def takeWhile_append1 [of NL])
next
  case False
  then have "takeWhile (\<lambda>c. c \<noteq> NL) (rev s @ NL # rev l) = rev s" by (intro takeWhile_tail [THEN trans]) auto
  then show ?thesis using False by (simp add: lastLine_def lineOf_def)
qed

lemma lastLine_plain [simp]: "NL \<notin> set s \<Longrightarrow> lastLine s = s"
  by (simp add: lastLine_def)

lemma lastLine_textOf [simp]: "NL \<notin> set t \<Longrightarrow> lastLine (textOf ls t) = t"
  by (induction ls) auto

lemma NL_notin_lastLine [simp]: "NL \<notin> set (lastLine s)"
  by (simp add: lastLine_def)

text \<open>Every text is its lines and its last line.\<close>

lemma textOf_linesOf: "textOf (linesOf s) (lastLine s) = s \<and> (\<forall>l \<in> set (linesOf s). NL \<notin> set l)"
proof (induction s rule: linesOf.induct)
  case (1 s)
  show ?case
  proof (cases "NL \<in> set s")
    case True
    define u where "u = drop (Suc (length (lineOf s))) s"
    have s: "s = lineOf s @ NL # u" unfolding u_def by (rule lineOf_split [OF True])
    have ls: "linesOf s = lineOf s # linesOf u" using True by (simp add: linesOf.simps [of s] u_def)
    have "lastLine s = lastLine u" by (subst s) simp
    moreover have "textOf (linesOf u) (lastLine u) = u" "\<forall>l \<in> set (linesOf u). NL \<notin> set l"
      using 1 [OF True] unfolding u_def by blast+
    ultimately have "textOf (linesOf s) (lastLine s) = lineOf s @ NL # u" unfolding ls textOf_Cons by argo
    with s ls show ?thesis using \<open>\<forall>l \<in> set (linesOf u). NL \<notin> set l\<close>
      by (metis NL_notin_lineOf set_ConsD)
  qed simp
qed

lemma text_cases:
  obtains ls t where "s = textOf ls t" "\<forall>l \<in> set ls. NL \<notin> set l" "NL \<notin> set t"
  using that [of "linesOf s" "lastLine s"] textOf_linesOf [of s] NL_notin_lastLine [of s] by metis

text \<open>The first element that satisfies a predicate, with its index.\<close>

fun findIndex :: "('a \<Rightarrow> bool) \<Rightarrow> 'a list \<Rightarrow> nat option" where
  "findIndex P [] = None"
| "findIndex P (x # xs) = (if P x then Some 0 else map_option Suc (findIndex P xs))"

lemma findIndex_None [simp]: "findIndex P xs = None \<longleftrightarrow> (\<forall>x \<in> set xs. \<not> P x)"
  by (induction xs) auto

lemma findIndex_Some:
  "findIndex P xs = Some i \<longleftrightarrow> i < length xs \<and> P (xs ! i) \<and> (\<forall>j < i. \<not> P (xs ! j))"
proof (induction xs arbitrary: i)
  case (Cons x xs)
  show ?case
    by (cases i) (auto simp: Cons.IH All_less_Suc2)
qed simp

lemma find_findIndex: "find P xs = map_option (\<lambda>i. xs ! i) (findIndex P xs)"
  by (induction xs) (auto simp: option.map_comp o_def)

subsection \<open>Patterns that take one whole line\<close>

locale line_pattern =
  fixes pat :: pattern
    and hit :: "string \<Rightarrow> nat option"
  assumes pat_line: "pat bol s = (if bol then map_option (\<lambda>g. (g, length (lineOf s))) (hit (lineOf s)) else None)"
    and hit_Nil: "hit [] = None"
    and hit_le: "hit l = Some g \<Longrightarrow> g \<le> length l"
begin

text \<open>Inside a line nothing matches, so the search goes on at the next one.\<close>

lemma find_skip: "NL \<notin> set l \<Longrightarrow>
    findFrom pat False (l @ NL # s) = map_option (\<lambda>(i, g, n). (i + Suc (length l), g, n)) (findFrom pat True s)"
  by (induction l; cases "findFrom pat True s") (auto simp: pat_line)

lemma find_skip_end: "NL \<notin> set l \<Longrightarrow> findFrom pat False l = None"
  by (induction l) (auto simp: pat_line)

lemma find_line:
  assumes "NL \<notin> set l"
  shows "findFrom pat True (l @ NL # s) =
     (case hit l of
        Some g \<Rightarrow> Some (0, g, length l)
      | None \<Rightarrow> map_option (\<lambda>(i, g, n). (i + Suc (length l), g, n)) (findFrom pat True s))"
proof (cases l)
  case Nil
  have "lineOf (NL # s) = []" by (simp add: lineOf_def)
  with Nil show ?thesis by (simp add: pat_line hit_Nil)
next
  case (Cons c cs)
  have lo: "lineOf (c # cs @ NL # s) = l" using lineOf_line [OF assms] Cons by simp
  have "c \<noteq> NL" "NL \<notin> set cs" using assms Cons by auto
  then show ?thesis using Cons find_skip [of cs s]
    by (cases "findFrom pat True s") (auto simp: pat_line lo split: option.splits)
qed

lemma find_last:
  assumes "NL \<notin> set t"
  shows "findFrom pat True t = map_option (\<lambda>g. (0, g, length t)) (hit t)"
proof (cases t)
  case Nil
  then show ?thesis by (simp add: pat_line hit_Nil lineOf_def)
next
  case (Cons c cs)
  with assms have "findFrom pat (c = NL) cs = None" by (auto simp: find_skip_end)
  with Cons assms show ?thesis by (auto simp: pat_line split: option.splits)
qed

text \<open>The first match is the first line that the pattern hits.\<close>

lemma find_text:
  assumes "\<forall>l \<in> set ls. NL \<notin> set l" "NL \<notin> set t"
  shows "FindStringSubmatchIndex pat (textOf ls t) =
     map_option (\<lambda>i. (length (textOf (take i ls) []), the (hit ((ls @ [t]) ! i)), length ((ls @ [t]) ! i)))
       (findIndex (\<lambda>l. hit l \<noteq> None) (ls @ [t]))"
  using assms
proof (induction ls)
  case Nil
  then show ?case by (auto simp: FindStringSubmatchIndex_def find_last)
next
  case (Cons l ls)
  let ?i = "findIndex (\<lambda>l. hit l \<noteq> None) (ls @ [t])"
  from Cons show ?case
    by (cases ?i) (auto simp: FindStringSubmatchIndex_def find_line split: option.splits simp del: not_None_eq)
qed

lemma match_text:
  assumes "\<forall>l \<in> set ls. NL \<notin> set l" "NL \<notin> set t"
  shows "MatchString pat (textOf ls t) \<longleftrightarrow> (\<exists>l \<in> set (ls @ [t]). hit l \<noteq> None)"
  unfolding MatchString_def find_text [OF assms] by auto

lemma drop_text: "i \<le> length ls \<Longrightarrow> drop (length (textOf (take i ls) [])) (textOf ls t) = textOf (drop i ls) t"
proof -
  have "textOf ls t = textOf (take i ls) [] @ textOf (drop i ls) t"
    by (metis append_Nil2 append_take_drop_id textOf_append textOf_def append_assoc)
  then show ?thesis by simp
qed

lemma text_at:
  assumes "i < length (ls @ [t])"
  shows "take (length ((ls @ [t]) ! i)) (textOf (drop i ls) t) = (ls @ [t]) ! i"
proof (cases "i < length ls")
  case True
  then show ?thesis by (simp add: Cons_nth_drop_Suc [symmetric] nth_append)
next
  case False
  with assms have "i = length ls" by simp
  then show ?thesis by simp
qed

lemma findString_text:
  assumes "\<forall>l \<in> set ls. NL \<notin> set l" "NL \<notin> set t"
  shows "FindString pat (textOf ls t) =
     (case find (\<lambda>l. hit l \<noteq> None) (ls @ [t]) of None \<Rightarrow> [] | Some l \<Rightarrow> l)"
proof (cases "findIndex (\<lambda>l. hit l \<noteq> None) (ls @ [t])")
  case (Some i)
  then have i: "i < length (ls @ [t])" by (simp add: findIndex_Some)
  show ?thesis
    unfolding FindString_def find_text [OF assms] find_findIndex Some using i text_at [OF i] by (simp add: drop_text)
next
  case None
  show ?thesis unfolding FindString_def find_text [OF assms] find_findIndex None by simp
qed

lemma findValue_text:
  assumes "\<forall>l \<in> set ls. NL \<notin> set l" "NL \<notin> set t"
  shows "FindValue pat (textOf ls t) =
     map_option (\<lambda>l. drop (the (hit l)) l) (find (\<lambda>l. hit l \<noteq> None) (ls @ [t]))"
proof (cases "findIndex (\<lambda>l. hit l \<noteq> None) (ls @ [t])")
  case None
  show ?thesis unfolding FindValue_def find_text [OF assms] find_findIndex None by simp
next
  case (Some i)
  let ?l = "(ls @ [t]) ! i"
  have i: "i < length (ls @ [t])" "hit ?l \<noteq> None" using Some by (auto simp: findIndex_Some)
  have "take (length ?l - the (hit ?l)) (drop (the (hit ?l)) (textOf (drop i ls) t))
      = drop (the (hit ?l)) (take (length ?l) (textOf (drop i ls) t))"
    by (simp add: drop_take)
  also have "\<dots> = drop (the (hit ?l)) ?l" by (simp only: text_at [OF i(1)])
  finally have "take (length ?l - the (hit ?l)) (drop (the (hit ?l)) (textOf (drop i ls) t)) = drop (the (hit ?l)) ?l" .
  moreover have "drop (length (textOf (take i ls) []) + g) (textOf ls t) = drop g (textOf (drop i ls) t)" for g
    using i(1) by (simp add: drop_text [symmetric] add.commute)
  ultimately show ?thesis
    unfolding FindValue_def find_text [OF assms] find_findIndex Some by simp
qed

subsubsection \<open>Replacing and removing\<close>

lemma replace_skip: "NL \<notin> set l \<Longrightarrow> replaceFrom pat r False (l @ NL # s) = l @ NL # replaceFrom pat r True s"
  by (induction l) (auto simp: pat_line)

lemma replace_skip_end: "NL \<notin> set l \<Longrightarrow> replaceFrom pat r False l = l"
  by (induction l) (auto simp: pat_line)

lemma replace_at_end: "replaceFrom pat r False (NL # s) = NL # replaceFrom pat r True s"
  using replace_skip [of "[]"] by simp

lemma replace_line:
  assumes "NL \<notin> set l"
  shows "replaceFrom pat r True (l @ NL # s) = (if hit l = None then l else r) @ NL # replaceFrom pat r True s"
proof (cases l)
  case Nil
  have "lineOf (NL # s) = []" by (simp add: lineOf_def)
  with Nil show ?thesis by (simp add: pat_line hit_Nil)
next
  case (Cons c cs)
  have lo: "lineOf (c # cs @ NL # s) = l" using lineOf_line [OF assms] Cons by simp
  have "c \<noteq> NL" "NL \<notin> set cs" using assms Cons by auto
  moreover have "last (c # cs) \<noteq> NL" using assms Cons by (metis last_in_set list.discI)
  ultimately show ?thesis using Cons replace_skip [of cs r s]
    by (auto simp: pat_line lo replace_at_end split: option.splits if_splits)
qed

lemma replace_last:
  assumes "NL \<notin> set t"
  shows "replaceFrom pat r True t = (if hit t = None then t else r)"
proof (cases t)
  case Nil
  then show ?thesis by (simp add: hit_Nil)
next
  case (Cons c cs)
  with assms have "replaceFrom pat r (c = NL) cs = cs" by (auto simp: replace_skip_end)
  with Cons assms show ?thesis by (auto simp: pat_line split: option.splits)
qed

lemma replace_text:
  assumes "\<forall>l \<in> set ls. NL \<notin> set l" "NL \<notin> set t"
  shows "ReplaceAllLiteralString pat (textOf ls t) r =
     textOf (map (\<lambda>l. if hit l = None then l else r) ls) (if hit t = None then t else r)"
  using assms by (induction ls) (auto simp: ReplaceAllLiteralString_def replace_line replace_last)

lemma remove_skip: "NL \<notin> set l \<Longrightarrow>
    replaceFrom (withNewline pat) r False (l @ NL # s) = l @ NL # replaceFrom (withNewline pat) r True s"
  by (induction l) (auto simp: pat_line withNewline_def)

lemma remove_skip_end: "NL \<notin> set l \<Longrightarrow> replaceFrom (withNewline pat) r False l = l"
  by (induction l) (auto simp: pat_line withNewline_def)

lemma remove_line:
  assumes "NL \<notin> set l"
  shows "replaceFrom (withNewline pat) [] True (l @ NL # s) =
     (if hit l = None then l @ [NL] else []) @ replaceFrom (withNewline pat) [] True s"
proof (cases l)
  case Nil
  have "lineOf (NL # s) = []" by (simp add: lineOf_def)
  with Nil show ?thesis by (simp add: pat_line hit_Nil withNewline_def)
next
  case (Cons c cs)
  have lo: "lineOf (c # cs @ NL # s) = l" using lineOf_line [OF assms] Cons by simp
  have "c \<noteq> NL" "NL \<notin> set cs" using assms Cons by auto
  then show ?thesis using Cons remove_skip [of cs "[]" s]
    by (auto simp: pat_line lo withNewline_def split: option.splits)
qed

lemma remove_last:
  assumes "NL \<notin> set t"
  shows "replaceFrom (withNewline pat) [] True t = (if hit t = None then t else [])"
proof (cases t)
  case Nil
  then show ?thesis by (simp add: hit_Nil)
next
  case (Cons c cs)
  with assms have "replaceFrom (withNewline pat) [] (c = NL) cs = cs" by (auto simp: remove_skip_end)
  with Cons assms show ?thesis by (auto simp: pat_line withNewline_def split: option.splits)
qed

lemma remove_text:
  assumes "\<forall>l \<in> set ls. NL \<notin> set l" "NL \<notin> set t"
  shows "ReplaceAllLiteralString (withNewline pat) (textOf ls t) [] =
     textOf (filter (\<lambda>l. hit l = None) ls) (if hit t = None then t else [])"
  using assms by (induction ls) (auto simp: ReplaceAllLiteralString_def remove_line remove_last)

end

end
