(* ===== verification/EnvFile.thy ===== *)
theory EnvFile
  imports LineText FileDb
begin

text \<open>
  \<open>internal/envfile/envfile.go\<close>: reading dotenv files.  \<open>Parse\<close> goes over the lines that
  \<open>bufio.Scanner\<close> yields, \<open>ExpandVars\<close> resolves the \<open>${VAR}\<close> references of a value, \<open>ReadLayered\<close> puts
  several files on top of each other.  The process environment is the parameter \<open>getenv\<close>, which
  gives the empty string for an unset variable.
\<close>

section \<open>Model\<close>

record EnvFile =
  Vars :: "string \<rightharpoonup> string"
  Source :: string

definition GetVar :: "EnvFile \<Rightarrow> string \<Rightarrow> string option" where
  "GetVar e key = Vars e key"

text \<open>\<open>Merge\<close> only adds the keys that are not there yet.\<close>

definition MergeEnv :: "EnvFile \<Rightarrow> EnvFile \<Rightarrow> EnvFile" where
  "MergeEnv e other = e\<lparr>Vars := Vars other ++ Vars e\<rparr>"

text \<open>
  The scanner: lines without their newline and one carriage return before it.  Its buffer holds
  16 MiB, and it stops at a line that does not fit together with its newline.
\<close>

definition maxScanToken :: nat where
  "maxScanToken = 16 * 1024 * 1024"

definition dropCR :: "string \<Rightarrow> string" where
  "dropCR l = (if l \<noteq> [] \<and> last l = CHR 0x0D then butlast l else l)"

definition scanLines :: "string \<Rightarrow> string list" where
  "scanLines s =
     map dropCR (takeWhile (\<lambda>l. length l < maxScanToken)
       (linesOf s @ (if lastLine s = [] then [] else [lastLine s])))"

definition keyStart :: "char \<Rightarrow> bool" where
  "keyStart c \<longleftrightarrow> is_upper c \<or> is_lower c \<or> c = CHR ''_''"

definition validKey :: "string \<Rightarrow> bool" where
  "validKey key \<longleftrightarrow>
     (case key of
        [] \<Rightarrow> False
      | c # cs \<Rightarrow> keyStart c \<and> list_all (\<lambda>d. keyStart d \<or> is_digit d) cs)"

definition stripQuotesAndComment :: "string \<Rightarrow> string" where
  "stripQuotesAndComment raw =
     (let s = TrimSpace raw
      in if 2 \<le> length s \<and> (hd s = CHR 0x22 \<and> last s = CHR 0x22 \<or> hd s = CHR 0x27 \<and> last s = CHR 0x27)
         then butlast (tl s)
         else case Cut s '' #'' of
                Some (before, after) \<Rightarrow> TrimRight before [CHR '' '', CHR 0x09]
              | None \<Rightarrow> s)"

text \<open>The loop of \<open>ExpandVars\<close>, on the bytes from \<open>i\<close> on.\<close>

function ExpandVars :: "(string \<Rightarrow> string) \<Rightarrow> string \<Rightarrow> (string \<rightharpoonup> string) \<Rightarrow> string" where
  "ExpandVars getenv [] locals = []"
| "ExpandVars getenv [c] locals = [c]"
| "ExpandVars getenv (c # d # cs) locals =
     (case if c = CHR 0x24 \<and> d = CHR ''{'' then IndexByte cs (CHR ''}'') else None of
        None \<Rightarrow> c # ExpandVars getenv (d # cs) locals
      | Some n \<Rightarrow>
          (let key = take n cs
           in (case locals key of
                 Some v \<Rightarrow> v
               | None \<Rightarrow> if getenv key \<noteq> [] then getenv key else c # d # take (Suc n) cs)
              @ ExpandVars getenv (drop (Suc n) cs) locals))"
  by pat_completeness auto
termination
  by (relation "measure (\<lambda>(getenv, s, locals). length s)") (auto split: if_splits)

text \<open>One round of the loop of \<open>Parse\<close>.\<close>

definition parseLine :: "(string \<Rightarrow> string) \<Rightarrow> string \<Rightarrow> (string \<rightharpoonup> string) \<Rightarrow> (string \<rightharpoonup> string)" where
  "parseLine getenv text vars =
     (let line = TrimLeft text [CHR '' '', CHR 0x09]
      in if line = [] \<or> hd line = CHR 0x23 then vars
         else case Cut (TrimPrefix line ''export '') ''='' of
                None \<Rightarrow> vars
              | Some (before, after) \<Rightarrow>
                  (let key = TrimSpace before
                   in if validKey key
                      then vars(key \<mapsto> ExpandVars getenv (stripQuotesAndComment (TrimSpace after)) vars)
                      else vars))"

definition Parse :: "(string \<Rightarrow> string) \<Rightarrow> string \<Rightarrow> EnvFile" where
  "Parse getenv input = \<lparr>Vars = fold (parseLine getenv) (scanLines input) Map.empty, Source = []\<rparr>"

text \<open>\<open>os.ReadFile\<close>\<close>

definition ReadFile :: "string \<Rightarrow> (fs, string) action" where
  "ReadFile p = bindA (Open p) (\<lambda>content. syscall (\<lambda>s.
     case content of Some bytes \<Rightarrow> (Inr bytes, s) | None \<Rightarrow> (Inl (NewError ''is a directory''), s)))"

definition noVars :: EnvFile where
  "noVars = \<lparr>Vars = Map.empty, Source = []\<rparr>"

definition ReadEnv :: "(string \<Rightarrow> string) \<Rightarrow> string \<Rightarrow> fs \<Rightarrow> (EnvFile \<times> go_error option) \<times> fs" where
  "ReadEnv getenv path s =
     (case ReadFile path s of
        (Inl e, s') \<Rightarrow> ((noVars, if IsNotExist e then None else Some e), s')
      | (Inr b, s') \<Rightarrow> (((Parse getenv b)\<lparr>Source := path\<rparr>, None), s'))"

definition ReadOptional :: "(string \<Rightarrow> string) \<Rightarrow> string \<Rightarrow> fs \<Rightarrow> EnvFile \<times> fs" where
  "ReadOptional getenv path s = (case ReadEnv getenv path s of ((e, err), s') \<Rightarrow> (e, s'))"

fun layerFrom :: "(string \<Rightarrow> string) \<Rightarrow> EnvFile \<Rightarrow> string list \<Rightarrow> fs \<Rightarrow> EnvFile \<times> fs" where
  "layerFrom getenv out [] s = (out, s)"
| "layerFrom getenv out (p # ps) s =
     (case ReadOptional getenv p s of
        (one, s') \<Rightarrow>
          layerFrom getenv
            (out\<lparr>Source := (if Source one \<noteq> [] then Source one else Source out), Vars := Vars out ++ Vars one\<rparr>) ps s')"

definition ReadLayered :: "(string \<Rightarrow> string) \<Rightarrow> string list \<Rightarrow> fs \<Rightarrow> EnvFile \<times> fs" where
  "ReadLayered getenv paths s = layerFrom getenv noVars paths s"

end
