(* ===== verification/AtomicFile.thy ===== *)
theory AtomicFile
  imports EnvFile
begin

text \<open>
  \<open>internal/atomicfile/atomicfile.go\<close>: replacing a file through a temporary one beside it, and what
  a reader can find at the path at any moment.

  Symbolic links are a parameter, the layout of a \<open>links\<close> record: where a path leads when every
  link on it is followed, and whether the path itself is a link.  Permission bits are not part of a
  file.  A crash after the \<open>n\<close>th call is a run in which every later call fails, since a failing
  call changes no file.
\<close>

section \<open>Model\<close>

record links =
  follow :: "string \<Rightarrow> string"
  isLink :: "string \<Rightarrow> bool"

definition exists :: "fs \<Rightarrow> string \<Rightarrow> bool" where
  "exists s p \<longleftrightarrow> fileAt s p \<noteq> None \<or> p \<in> set (fs_dirs s)"

text \<open>\<open>filepath.EvalSymlinks\<close> and the test of \<open>os.Lstat\<close> for a link\<close>

definition EvalSymlinks :: "links \<Rightarrow> string \<Rightarrow> (fs, string) action" where
  "EvalSymlinks L p = syscall (\<lambda>s. if exists s (follow L p) then (Inr (follow L p), s) else (Inl ErrNotExist, s))"

definition LstatLink :: "links \<Rightarrow> string \<Rightarrow> (fs, bool) action" where
  "LstatLink L p = syscall (\<lambda>s.
     if isLink L p then (Inr True, s)
     else if exists s p then (Inr False, s) else (Inl ErrNotExist, s))"

definition resolveTarget :: "links \<Rightarrow> string \<Rightarrow> (fs, string) action" where
  "resolveTarget L path =
     bindA (tryA (EvalSymlinks L path)) (\<lambda>r. case r of
       Inr target \<Rightarrow> returnA target
     | Inl err \<Rightarrow>
         if \<not> IsNotExist err then raiseA (Wrapf (''resolve '' @ path @ '': '') err [])
         else bindA (tryA (LstatLink L path)) (\<lambda>l.
           if l = Inr True then raiseA (Wrapf (''resolve '' @ path @ '': dangling symlink: '') err [])
           else returnA path))"

text \<open>
  \<open>os.CreateTemp\<close> takes a name that no entry of the directory has; the random part is here the
  first free number.
\<close>

definition tempPath :: "string \<Rightarrow> string \<Rightarrow> nat \<Rightarrow> string" where
  "tempPath dir base n = dir @ SLASH # CHR ''.'' # base @ ''.tmp-'' @ nat_digits n"

definition freeTemp :: "fs \<Rightarrow> string \<Rightarrow> string \<Rightarrow> string" where
  "freeTemp s dir base =
     (case find (\<lambda>n. \<not> exists s (tempPath dir base n)) [0..<Suc (length (fs_files s) + length (fs_dirs s))] of
        Some n \<Rightarrow> tempPath dir base n
      | None \<Rightarrow> tempPath dir base 0)"

definition CreateTemp :: "string \<Rightarrow> string \<Rightarrow> (fs, string) action" where
  "CreateTemp dir base =
     (if SLASH \<in> set base then raiseA (NewError ''pattern contains path separator'')
      else syscall (\<lambda>s. let tmp = freeTemp s dir base in (Inr tmp, setFile tmp [] s)))"

text \<open>\<open>fill\<close>: the write, the mode and the sync stop at the first failure, the close always happens.\<close>

definition touch :: "(fs, unit) action" where
  "touch = syscall (\<lambda>s. (Inr (), s))"

definition fill :: "string \<Rightarrow> string \<Rightarrow> (fs, unit) action" where
  "fill tmp data =
     bindA (tryA (bindA (syscall (\<lambda>s. (Inr (), setFile tmp data s))) (\<lambda>_. bindA touch (\<lambda>_. touch)))) (\<lambda>werr.
     bindA (tryA touch) (\<lambda>cerr.
       case joinAll ((case werr of Inl e \<Rightarrow> [e] | Inr _ \<Rightarrow> []) @ (case cerr of Inl e \<Rightarrow> [e] | Inr _ \<Rightarrow> [])) of
         None \<Rightarrow> returnA ()
       | Some e \<Rightarrow> raiseA e))"

definition Rename :: "string \<Rightarrow> string \<Rightarrow> (fs, unit) action" where
  "Rename a b = syscall (\<lambda>s.
     case fileAt s a of
       None \<Rightarrow> (Inl ErrNotExist, s)
     | Some bytes \<Rightarrow>
         if b \<in> set (fs_dirs s) then (Inl (NewError ''file exists''), s)
         else (Inr (), setFile b bytes (unsetFile a s)))"

text \<open>\<open>_ = os.Remove(tmp); return err\<close>\<close>

definition orRemove :: "string \<Rightarrow> string \<Rightarrow> (fs, unit) action \<Rightarrow> (fs, unit) action" where
  "orRemove tmp what m =
     bindA (tryA m) (\<lambda>r. case r of
       Inr _ \<Rightarrow> returnA ()
     | Inl e \<Rightarrow> bindA (ignoreA (Remove tmp)) (\<lambda>_. raiseA (Wrapf what e [])))"

definition WriteAtomic :: "links \<Rightarrow> string \<Rightarrow> string \<Rightarrow> (fs, unit) action" where
  "WriteAtomic L path data =
     bindA (resolveTarget L path) (\<lambda>target.
     bindA (tryA (Stat target)) (\<lambda>st.
       if (case st of Inl e \<Rightarrow> \<not> IsNotExist e | Inr _ \<Rightarrow> False)
       then raiseA (Wrapf (''stat '' @ target @ '': '') (projl st) [])
       else
         bindA (wrapA (\<lambda>e. Wrapf (''create temp file for '' @ target @ '': '') e [])
           (CreateTemp (Dir target) (filepath_Base target))) (\<lambda>tmp.
         bindA (orRemove tmp (''write '' @ target @ '': '') (fill tmp data)) (\<lambda>_.
           orRemove tmp (''replace '' @ target @ '': '') (Rename tmp target)))))"

section \<open>Properties\<close>

text \<open>What the call at one moment sees: only faults are consumed between two states with the same files.\<close>

definition sameFiles :: "fs \<Rightarrow> fs \<Rightarrow> bool" where
  "sameFiles s s' \<longleftrightarrow> fileAt s' = fileAt s \<and> fs_dirs s' = fs_dirs s"

lemma sameFiles_refl [simp]: "sameFiles s s"
  by (simp add: sameFiles_def)

lemma sameFiles_trans: "sameFiles s s1 \<Longrightarrow> sameFiles s1 s2 \<Longrightarrow> sameFiles s s2"
  by (simp add: sameFiles_def)

lemma sameFiles_faults [simp]: "sameFiles s (s\<lparr>fs_faults := fl\<rparr>)"
  by (simp add: sameFiles_def fun_eq_iff)

lemma sameFiles_exists: "sameFiles s s' \<Longrightarrow> exists s' p = exists s p"
  by (simp add: sameFiles_def exists_def)

lemma syscall_cases:
  assumes "syscall m s = (r, s')"
  obtains e where "r = Inl (Wrapf [] (NewError e) [])" "sameFiles s s'"
  | s1 where "sameFiles s s1" "m s1 = (r, s')"
  using assms that by (auto simp: syscall_def split: list.splits option.splits) (metis sameFiles_faults sameFiles_refl)+

lemma notExist_fault [simp]: "\<not> IsNotExist (Wrapf a e b)" "IsNotExist ErrNotExist"
  by (simp_all add: IsNotExist_def ErrNotExist_def)

text \<open>The file that a path leads to, when it is there, and the path itself otherwise.\<close>

definition writeTarget :: "links \<Rightarrow> string \<Rightarrow> fs \<Rightarrow> string" where
  "writeTarget L path s = (if exists s (follow L path) then follow L path else path)"

lemma LstatLink_same: "LstatLink L p s = (r, s') \<Longrightarrow> sameFiles s s'"
  unfolding LstatLink_def by (erule syscall_cases) (auto split: if_splits)

lemma resolveTarget_run:
  assumes "resolveTarget L path s = (r, s')"
  shows "sameFiles s s' \<and> (\<forall>t. r = Inr t \<longrightarrow> t = writeTarget L path s)"
proof -
  obtain e s1 where e: "EvalSymlinks L path s = (e, s1)" by force
  then have s1: "sameFiles s s1" and t: "\<And>t. e = Inr t \<Longrightarrow> t = writeTarget L path s"
    and ne: "e = Inl x \<Longrightarrow> IsNotExist x \<Longrightarrow> \<not> exists s (follow L path)" for x
    unfolding EvalSymlinks_def by (auto elim!: syscall_cases simp: writeTarget_def sameFiles_exists split: if_splits)
  obtain l s2 where l: "LstatLink L path s1 = (l, s2)" by force
  have "sameFiles s s2" using s1 LstatLink_same [OF l] by (rule sameFiles_trans)
  with assms e l s1 t ne show ?thesis
    by (cases e) (auto simp: resolveTarget_def bindA_def tryA_def returnA_def raiseA_def writeTarget_def split: if_splits)
qed

lemma tempPath_inj: "tempPath dir base m = tempPath dir base n \<longleftrightarrow> m = n"
  by (auto simp: tempPath_def) (metis digits_val_nat_digits)

text \<open>There are more candidate names than entries, so a free one is found.\<close>

lemma freeTemp_free: "\<not> exists s (freeTemp s dir base)"
proof -
  let ?ns = "[0..<Suc (length (fs_files s) + length (fs_dirs s))]"
  let ?entries = "map fst (fs_files s) @ fs_dirs s"
  have "\<exists>n \<in> set ?ns. \<not> exists s (tempPath dir base n)"
  proof (rule ccontr)
    assume "\<not> ?thesis"
    then have "tempPath dir base ` set ?ns \<subseteq> set ?entries"
      by (force simp: exists_def fileAt_def map_of_eq_None_iff)
    then have "card (tempPath dir base ` set ?ns) \<le> length ?entries"
      by (meson card_length card_mono dual_order.trans finite_set)
    moreover have "card (tempPath dir base ` set ?ns) = length ?ns"
      by (subst card_image) (auto simp: inj_on_def tempPath_inj)
    ultimately show False by simp
  qed
  then obtain n where "find (\<lambda>n. \<not> exists s (tempPath dir base n)) ?ns = Some n"
    using find_None_iff2 [of "\<lambda>n. \<not> exists s (tempPath dir base n)" ?ns] by (metis not_None_eq)
  then have "freeTemp s dir base = tempPath dir base n" "\<not> exists s (tempPath dir base n)"
    unfolding freeTemp_def by (metis option.simps(5), metis find_Some_iff)
  then show ?thesis by simp
qed

lemma freeTemp_path: "\<exists>n. freeTemp s dir base = tempPath dir base n"
  by (auto simp: freeTemp_def split: option.splits)

text \<open>The temporary name is longer than the name of the target.\<close>

lemma tempPath_other:
  assumes "SLASH \<notin> set (filepath_Base t)"
  shows "tempPath (Dir t) (filepath_Base t) n \<noteq> t"
proof
  assume t: "tempPath (Dir t) (filepath_Base t) n = t"
  let ?name = "CHR ''.'' # filepath_Base t @ ''.tmp-'' @ nat_digits n"
  have d: "SLASH \<notin> set (nat_digits n)" using nat_digits_is_digit [of n] by (auto simp: is_digit_def SLASH_def)
  then have no: "SLASH \<notin> set (rev ?name)" using assms by (simp add: SLASH_def)
  have "takeWhile (\<lambda>c. c \<noteq> SLASH) (xs @ SLASH # ys) = xs" if "SLASH \<notin> set xs" for xs ys
    using that by (subst takeWhile_append2) auto
  from this [OF no, of "rev (Dir t)"] have last: "takeWhile (\<lambda>c. c \<noteq> SLASH) (rev t) = rev ?name"
    by (subst t [symmetric]) (simp only: tempPath_def rev_append rev.simps append_assoc append.simps)
  have "last t = last (nat_digits n)" by (subst t [symmetric]) (simp add: tempPath_def)
  then have "last t \<noteq> CHR ''/''" using d by (metis SLASH_def last_in_set nat_digits_nonempty)
  then have "dropWhileEnd (\<lambda>c. c = CHR ''/'') t = t" by (intro dropWhileEnd_id) simp
  moreover have "t \<noteq> []" by (subst t [symmetric]) (simp add: tempPath_def)
  moreover have "rev (takeWhile (\<lambda>c. c \<noteq> CHR ''/'') (rev t)) = ?name" using last by (simp only: SLASH_def rev_rev_ident)
  moreover have "filepath_Base t = b"
    if "t \<noteq> []" "dropWhileEnd (\<lambda>c. c = CHR ''/'') t = t" "rev (takeWhile (\<lambda>c. c \<noteq> CHR ''/'') (rev t)) = b" "b \<noteq> []" for b
    using that by (auto simp: filepath_Base_def Let_def)
  ultimately have "filepath_Base t = ?name" by blast
  then have "length (filepath_Base t) = length ?name" by argo
  then show False by simp
qed

lemma CreateTemp_run:
  assumes "CreateTemp (Dir t) (filepath_Base t) s = (r, s')"
  shows "(case r of
            Inl e \<Rightarrow> sameFiles s s'
          | Inr tmp \<Rightarrow> fileAt s' = (fileAt s)(tmp \<mapsto> []) \<and> fileAt s tmp = None \<and> tmp \<noteq> t)"
proof (cases "SLASH \<in> set (filepath_Base t)")
  case False
  then have "syscall (\<lambda>s. let tmp = freeTemp s (Dir t) (filepath_Base t) in (Inr tmp, setFile tmp [] s)) s = (r, s')"
    using assms by (simp add: CreateTemp_def)
  then show ?thesis
  proof (cases rule: syscall_cases)
    case (2 s1)
    let ?tmp = "freeTemp s1 (Dir t) (filepath_Base t)"
    have "r = Inr ?tmp" "s' = setFile ?tmp [] s1" using 2 by (simp_all add: Let_def)
    then show ?thesis using 2(1) freeTemp_free [of s1] freeTemp_path [of s1 "Dir t" "filepath_Base t"] tempPath_other [OF False]
      by (simp add: sameFiles_def fun_eq_iff exists_def) metis
  qed simp
qed (use assms in \<open>auto simp: CreateTemp_def raiseA_def\<close>)

text \<open>Only the file at one path has changed.\<close>

definition onlyAt :: "string \<Rightarrow> fs \<Rightarrow> fs \<Rightarrow> bool" where
  "onlyAt tmp s s' \<longleftrightarrow> (\<forall>q. q \<noteq> tmp \<longrightarrow> fileAt s' q = fileAt s q)"

lemma onlyAt_refl: "reflp (onlyAt tmp)"
  by (simp add: reflp_def onlyAt_def)

lemma onlyAt_trans: "transp (onlyAt tmp)"
  by (simp add: transp_def onlyAt_def)

lemma onlyAt_same: "sameFiles s s' \<Longrightarrow> onlyAt tmp s s'"
  by (simp add: onlyAt_def sameFiles_def)

lemma touch_run: "touch s = (r, s') \<Longrightarrow> sameFiles s s'"
  unfolding touch_def by (erule syscall_cases) auto

lemma onlyAt_calls [keeps_intro]:
  "keeps (onlyAt tmp) touch" "keeps (onlyAt tmp) (syscall (\<lambda>s. (Inr (), setFile tmp bytes s)))"
  "keeps (onlyAt tmp) (Remove tmp)"
  by (auto simp: touch_def Remove_def onlyAt_def transp_def intro!: keeps_syscall split: option.splits)

lemma onlyAt_fill: "keeps (onlyAt tmp) (fill tmp bytes)"
  unfolding fill_def by (auto intro!: keeps_intro onlyAt_refl onlyAt_trans)

lemma joinAll_empty [simp]: "joinAll es = None \<longleftrightarrow> es = []"
  by (cases es) (auto split: option.splits)

lemma fill_run:
  assumes "fill tmp bytes s = (Inr u, s')"
  shows "fileAt s' = (fileAt s)(tmp \<mapsto> bytes)"
proof -
  from assms obtain w s1 where run: "bindA (syscall (\<lambda>s. (Inr (), setFile tmp bytes s))) (\<lambda>_. bindA touch (\<lambda>_. touch)) s = (Inr w, s1)"
      and close: "\<exists>r. touch s1 = (r, s')"
  proof -
    obtain w s1 where w: "bindA (syscall (\<lambda>s. (Inr (), setFile tmp bytes s))) (\<lambda>_. bindA touch (\<lambda>_. touch)) s = (w, s1)" by force
    obtain c s2 where c: "touch s1 = (c, s2)" by force
    show thesis using assms w c that
      by (cases w; cases c) (auto simp: fill_def bindA_def tryA_def returnA_def raiseA_def split: option.splits)
  qed
  then obtain s2 s3 where "syscall (\<lambda>s. (Inr (), setFile tmp bytes s)) s = (Inr (), s2)"
      "touch s2 = (Inr (), s3)" "touch s3 = (Inr w, s1)"
    by (auto simp: run_rules)
  then show ?thesis using close
    by (auto elim!: syscall_cases dest!: touch_run simp: sameFiles_def fun_eq_iff)
qed

lemma orRemove_run:
  assumes "orRemove tmp what m s = (r, s')"
  shows "(case r of Inr _ \<Rightarrow> m s = (Inr (), s') | Inl e \<Rightarrow> \<exists>e s1. m s = (Inl e, s1) \<and> onlyAt tmp s1 s')"
proof (cases "m s")
  case (Pair x s1)
  show ?thesis
  proof (cases x)
    case (Inl e)
    then have "Remove tmp s1 = (y, s2) \<Longrightarrow> r = Inl (Wrapf what e []) \<and> s' = s2" for y s2
      using assms Pair by (auto simp: orRemove_def bindA_def tryA_def ignoreA_def raiseA_def)
    moreover have "onlyAt tmp s1 (snd (Remove tmp s1))" using onlyAt_calls(3) by (simp add: keeps_def)
    ultimately show ?thesis using Pair Inl by (cases "Remove tmp s1") auto
  qed (use assms Pair in \<open>auto simp: orRemove_def bindA_def tryA_def returnA_def\<close>)
qed

lemma Rename_run:
  assumes "Rename a b s = (r, s')"
  shows "(case r of
            Inl e \<Rightarrow> sameFiles s s'
          | Inr _ \<Rightarrow> \<exists>bytes. fileAt s a = Some bytes \<and> fileAt s' = (fileAt s)(a := None, b \<mapsto> bytes))"
  using assms unfolding Rename_def
  by (rule syscall_cases) (auto simp: sameFiles_def fun_eq_iff split: option.splits if_splits)

text \<open>Once the temporary file exists: the target gets all the bytes, or only the temporary file differs.\<close>

lemma replace_run:
  assumes "bindA (orRemove tmp a (fill tmp bytes)) (\<lambda>_. orRemove tmp b (Rename tmp t)) s = (r, s')" "tmp \<noteq> t"
  shows "(case r of Inr _ \<Rightarrow> fileAt s' = (fileAt s)(tmp := None, t \<mapsto> bytes) | Inl e \<Rightarrow> onlyAt tmp s s')"
proof -
  obtain x s1 where x: "orRemove tmp a (fill tmp bytes) s = (x, s1)" by force
  show ?thesis
  proof (cases x)
    case (Inl e)
    then obtain e' s2 where "fill tmp bytes s = (Inl e', s2)" "onlyAt tmp s2 s1" using orRemove_run [OF x] by auto
    then have "onlyAt tmp s s1" using keepsD [OF onlyAt_fill] transpD [OF onlyAt_trans] by blast
    then show ?thesis using assms(1) x Inl by (auto simp: bindA_def)
  next
    case (Inr u)
    then have f: "fill tmp bytes s = (Inr (), s1)" and ren: "orRemove tmp b (Rename tmp t) s1 = (r, s')"
      using assms(1) x orRemove_run [OF x] by (auto simp: bindA_def)
    have s1: "fileAt s1 = (fileAt s)(tmp \<mapsto> bytes)" "onlyAt tmp s s1"
      using fill_run [OF f] keepsD [OF onlyAt_fill f] by auto
    show ?thesis
    proof (cases r)
      case (Inl e)
      then obtain e' s2 where "Rename tmp t s1 = (Inl e', s2)" "onlyAt tmp s2 s'" using orRemove_run [OF ren] by auto
      then have "onlyAt tmp s1 s2" "onlyAt tmp s2 s'" using Rename_run [of tmp t s1] by (auto intro: onlyAt_same)
      then have "onlyAt tmp s s'" using s1(2) transpD [OF onlyAt_trans] by blast
      then show ?thesis using Inl by simp
    next
      case (Inr u)
      then have "Rename tmp t s1 = (Inr (), s')" using orRemove_run [OF ren] by simp
      from Rename_run [OF this] show ?thesis using Inr s1(1) by auto
    qed
  qed
qed

lemma write_atomic_run:
  assumes "WriteAtomic L path bytes s = (r, s')"
  shows "case r of
           Inr _ \<Rightarrow> fileAt s' = (fileAt s)(writeTarget L path s \<mapsto> bytes)
         | Inl e \<Rightarrow> \<exists>tmp. tmp \<noteq> writeTarget L path s \<and> fileAt s tmp = None \<and> onlyAt tmp s s'"
proof -
  let ?t = "writeTarget L path s"
  have unchanged: "\<exists>tmp. tmp \<noteq> ?t \<and> fileAt s tmp = None \<and> onlyAt tmp s s'" if "sameFiles s s'"
  proof -
    have "infinite (UNIV - insert ?t (set (map fst (fs_files s))))" by (simp add: infinite_UNIV_listI)
    then obtain tmp where "tmp \<notin> insert ?t (set (map fst (fs_files s)))" by (metis DiffD2 finite.emptyI ex_in_conv)
    then show ?thesis using onlyAt_same [OF that] by (auto simp: fileAt_def map_of_eq_None_iff)
  qed
  obtain x s1 where x: "resolveTarget L path s = (x, s1)" by force
  obtain st s2 where st: "Stat ?t s1 = (st, s2)" by force
  obtain c s3 where c: "CreateTemp (Dir ?t) (filepath_Base ?t) s2 = (c, s3)" by force
  have "sameFiles s1 s2" using st unfolding Stat_def by (auto elim!: syscall_cases split: option.splits if_splits)
  with resolveTarget_run [OF x] have s2: "sameFiles s s1" "sameFiles s s2" by (auto intro: sameFiles_trans)
  show ?thesis
  proof (cases "(\<exists>t. x = Inr t) \<and> (\<forall>e. st = Inl e \<longrightarrow> IsNotExist e) \<and> (\<exists>tmp. c = Inr tmp)")
    case True
    then obtain tmp where ok: "x = Inr ?t" "\<forall>e. st = Inl e \<longrightarrow> IsNotExist e" "c = Inr tmp"
      using resolveTarget_run [OF x] by auto
    then have tmp: "fileAt s3 = (fileAt s)(tmp \<mapsto> [])" "fileAt s tmp = None" "tmp \<noteq> ?t"
      using CreateTemp_run [OF c] s2 by (simp_all add: sameFiles_def)
    from assms x st c ok have
      "bindA (orRemove tmp (''write '' @ ?t @ '': '') (fill tmp bytes)) (\<lambda>_. orRemove tmp (''replace '' @ ?t @ '': '') (Rename tmp ?t)) s3 = (r, s')"
      by (cases st) (simp_all add: WriteAtomic_def bindA_def tryA_def wrapA_def)
    from replace_run [OF this tmp(3)] tmp show ?thesis
      by (auto simp: fun_eq_iff onlyAt_def split: sum.splits)
  next
    case False
    have "sameFiles s s'" "isl r"
      using assms x st c False s2 CreateTemp_run [OF c] resolveTarget_run [OF x]
      by (cases x; cases st; cases c; auto simp: WriteAtomic_def bindA_def tryA_def wrapA_def raiseA_def
            intro: sameFiles_trans split: if_splits)+
    then show ?thesis using unchanged by (cases r) auto
  qed
qed

text \<open>
  C28: \<open>atomicfile.Write\<close> is all or nothing, whichever of its calls fails (and so also when it is cut
  off after any of them): when it returns without error, the file the path leads to holds exactly
  the new bytes and no other file differs, the temporary one is gone; when it fails, every file that
  was there, the target included, has its old content, and at most one new file, the temporary one,
  may be left.
\<close>

theorem write_atomic:
  assumes "WriteAtomic L path bytes s = (r, s')"
  shows "case r of
           Inr _ \<Rightarrow> fileAt s' = (fileAt s)(writeTarget L path s \<mapsto> bytes)
         | Inl e \<Rightarrow> \<exists>tmp. tmp \<noteq> writeTarget L path s \<and> fileAt s tmp = None \<and> onlyAt tmp s s'"
  by (rule write_atomic_run [OF assms])

text \<open>A rename that fails after the bytes are written leaves the old file.\<close>

definition plainLinks :: links where
  "plainLinks = \<lparr>follow = (\<lambda>p. p), isLink = (\<lambda>p. False)\<rparr>"

definition renameFails :: fs where
  "renameFails = \<lparr>fs_files = [(''/w/e'', ''A'')], fs_dirs = [''/w''],
     fs_faults = [None, None, None, None, None, None, None, Some ''EIO'']\<rparr>"

theorem write_atomic_witness:
  "fileAt (snd (WriteAtomic plainLinks ''/w/e'' ''B'' renameFails)) ''/w/e'' = Some ''A''"
proof -
  obtain r s' where run: "WriteAtomic plainLinks ''/w/e'' ''B'' renameFails = (r, s')" by force
  have "isl (fst (WriteAtomic plainLinks ''/w/e'' ''B'' renameFails))" by code_simp
  then obtain e where "r = Inl e" using run by (cases r) auto
  moreover have "writeTarget plainLinks ''/w/e'' renameFails = ''/w/e''" by (simp add: writeTarget_def plainLinks_def)
  ultimately obtain tmp where "tmp \<noteq> ''/w/e''" "onlyAt tmp renameFails s'"
    using write_atomic [OF run] by auto
  then have "fileAt s' ''/w/e'' = fileAt renameFails ''/w/e''" by (simp add: onlyAt_def)
  then show ?thesis using run by (simp add: renameFails_def fileAt_def)
qed

end
