(* ===== verification/Patcher.thy ===== *)
theory Patcher
  imports AtomicFile BaseRef
begin

text \<open>
  \<open>internal/patcher\<close>: the rewriting of a worktree's files with its own values, and git's clean and
  smudge filter for the rewritten files.  \<open>Smudge\<close> puts the worktree's values into the committed
  content, \<open>CleanPatch\<close> (\<open>Clean\<close> in the sources) projects a working file back to what HEAD has for
  the patched keys, \<open>Apply\<close> rewrites the file on disk, and \<open>runPatchFilter\<close> is the program git runs.

  The \<open>dotenv\<close> and \<open>phpunit\<close> drivers and the in-place value splicing of the TOML and INI drivers are
  modelled; what goes through a parser of a whole document (\<open>yaml.v3\<close>, \<open>go-toml\<close>, \<open>ini.v1\<close> and the JSON
  decoder) is a parameter, the record \<open>docDrivers\<close>.  A Go map is the list of its entries in the order
  of one iteration, with distinct keys.  Keys and texts are valid UTF-8.
\<close>

section \<open>Model\<close>

subsection \<open>Patches and drivers\<close>

record Patch =
  File :: string
  Format :: string
  SetOf :: "(string \<times> string) list"

datatype Outcome = Updated | Unchanged | Missing

record ApplyResult =
  ar_file :: string
  ar_outcome :: Outcome
  ar_driver :: string

definition DriverDotenv :: string where "DriverDotenv = ''dotenv''"

definition DriverPhpunit :: string where "DriverPhpunit = ''phpunit''"

definition DriverPhpunitEnv :: string where "DriverPhpunitEnv = ''phpunit_env''"

definition DriverYAML :: string where "DriverYAML = ''yaml''"

definition DriverJSON :: string where "DriverJSON = ''json''"

definition DriverTOML :: string where "DriverTOML = ''toml''"

definition DriverINI :: string where "DriverINI = ''ini''"

lemmas driver_names =
  DriverDotenv_def DriverPhpunit_def DriverPhpunitEnv_def DriverYAML_def DriverJSON_def DriverTOML_def DriverINI_def

text \<open>The functions that parse and print a whole document, by driver.\<close>

record docDrivers =
  docApply :: "string \<Rightarrow> string \<Rightarrow> (string \<times> string) list \<Rightarrow> go_error + string"
  docExtract :: "string \<Rightarrow> string \<Rightarrow> string list \<Rightarrow> go_error + (string \<rightharpoonup> string)"
  docRemove :: "string \<Rightarrow> string \<Rightarrow> string list \<Rightarrow> go_error + string"
  docRestore :: "string \<Rightarrow> string \<Rightarrow> string \<Rightarrow> (string \<rightharpoonup> string) \<Rightarrow> string list \<Rightarrow> go_error + string"
  docPatch :: "string \<Rightarrow> string \<Rightarrow> (string \<times> string) list \<Rightarrow> go_error + (string \<times> bool)"

definition detectFormat :: "string \<Rightarrow> string" where
  "detectFormat file =
     (let base = lower_ascii (filepath_Base file)
      in if base = ''.env'' \<or> HasPrefix base ''.env.'' \<or> HasSuffix base ''.env'' then DriverDotenv
         else
           let ext = Ext base;
               ext' = (if ext = ''.dist'' then Ext (TrimSuffix base ''.dist'') else ext)
           in if ext' = ''.yaml'' \<or> ext' = ''.yml'' then DriverYAML
              else if ext' = ''.json'' then DriverJSON
              else if ext' = ''.toml'' then DriverTOML
              else if ext' = ''.ini'' \<or> ext' = ''.cfg'' then DriverINI
              else if ext' = ''.xml'' then DriverPhpunit
              else [])"

definition noFormat :: "string \<Rightarrow> go_error" where
  "noFormat file =
     NewError (''patch '' @ file @ '': cannot infer format from extension; set '' @ [CHR 0x60] @ ''format:'' @ [CHR 0x60] @ '' explicitly'')"

definition patchDriver :: "Patch \<Rightarrow> go_error + string" where
  "patchDriver p =
     (let d = lower_ascii (TrimSpace (Format p));
          d' = (if d = [] then detectFormat (File p) else d)
      in if d' = [] then Inl (noFormat (File p))
         else Inr (if d' = DriverPhpunitEnv then DriverPhpunit else d'))"

definition sortedKeys :: "(string \<times> string) list \<Rightarrow> string list" where
  "sortedKeys m = sort (map fst m)"

definition setKeys :: "(string \<times> string) list \<Rightarrow> string list" where
  "setKeys m = sort (map fst m)"

definition valueOf :: "(string \<times> string) list \<Rightarrow> string \<Rightarrow> string" where
  "valueOf m k = (case map_of m k of None \<Rightarrow> [] | Some v \<Rightarrow> v)"

fun renderTemplates ::
  "(string \<Rightarrow> string) \<Rightarrow> string \<Rightarrow> (string \<times> string) list \<Rightarrow> Context \<Rightarrow> go_error + (string \<times> string) list" where
  "renderTemplates getenv file [] ctx = Inr []"
| "renderTemplates getenv file ((k, v) # raw) ctx =
     (case Render v ctx of
        Inl e \<Rightarrow> Inl (Wrapf (''patch '' @ file @ '': render value for '' @ quoted k @ '': '') (renderFailed e) [])
      | Inr s \<Rightarrow> map_sum id (\<lambda>out. (k, ExpandVars getenv s Map.empty) # out) (renderTemplates getenv file raw ctx))"

definition pairsFrom :: "(string \<times> string) list \<Rightarrow> (string \<times> string) list" where
  "pairsFrom m = map (\<lambda>k. (k, valueOf m k)) (sortedKeys m)"

subsection \<open>The dotenv driver\<close>

definition patchEnvOne :: "string \<Rightarrow> string \<Rightarrow> string \<Rightarrow> string" where
  "patchEnvOne content key v =
     (if MatchString (dotenvLine key) content
      then ReplaceAllLiteralString (dotenvLine key) content (key @ ''='' @ v)
      else (if content \<noteq> [] \<and> \<not> HasSuffix content [NL] then content @ [NL] else content) @ key @ ''='' @ v @ [NL])"

definition applyDotenvContent :: "string \<Rightarrow> (string \<times> string) list \<Rightarrow> string" where
  "applyDotenvContent content pairs = fold (\<lambda>k c. patchEnvOne c k (valueOf pairs k)) (sortedKeys pairs) content"

fun extractDotenv :: "string \<Rightarrow> string list \<Rightarrow> (string \<rightharpoonup> string)" where
  "extractDotenv content [] = Map.empty"
| "extractDotenv content (k # keys) =
     (case FindValue (dotenvLine k) content of
        Some v \<Rightarrow> (extractDotenv content keys)(k \<mapsto> v)
      | None \<Rightarrow> extractDotenv content keys)"

definition removeDotenvContent :: "string \<Rightarrow> string list \<Rightarrow> string" where
  "removeDotenvContent content keys =
     fold (\<lambda>k c. ReplaceAllLiteralString (dotenvLineWithNewline k) c []) keys content"

definition restoreDotenvOne :: "string \<Rightarrow> string \<Rightarrow> string \<Rightarrow> string" where
  "restoreDotenvOne headContent k content =
     (let headLine = FindString (dotenvLine k) headContent
      in if headLine = [] then content else ReplaceAllLiteralString (dotenvLine k) content headLine)"

definition restoreDotenvFromHead :: "string \<Rightarrow> string \<Rightarrow> string list \<Rightarrow> string" where
  "restoreDotenvFromHead content headContent keys = fold (restoreDotenvOne headContent) keys content"

subsection \<open>The phpunit driver\<close>

text \<open>\<open>xml.EscapeText\<close> on valid UTF-8: a control character that XML does not have becomes U+FFFD.\<close>

definition escapeByte :: "char \<Rightarrow> string" where
  "escapeByte c =
     (if c = CHR 0x22 then ''&#34;''
      else if c = CHR 0x27 then ''&#39;''
      else if c = CHR 0x26 then ''&amp;''
      else if c = CHR 0x3C then ''&lt;''
      else if c = CHR 0x3E then ''&gt;''
      else if c = CHR 0x09 then ''&#x9;''
      else if c = CHR 0x0A then ''&#xA;''
      else if c = CHR 0x0D then ''&#xD;''
      else if of_char c < (32::nat) then [CHR 0xEF, CHR 0xBF, CHR 0xBD]
      else [c])"

definition xmlAttrEscape :: "string \<Rightarrow> string" where
  "xmlAttrEscape v = concat (map escapeByte v)"

text \<open>\<open>\s\<close> and the characters of an attribute name\<close>

definition reSpace :: "char \<Rightarrow> bool" where
  "reSpace c \<longleftrightarrow> of_char c \<in> {9::nat, 10, 12, 13, 32}"

definition attrChar :: "char \<Rightarrow> bool" where
  "attrChar c \<longleftrightarrow> is_upper c \<or> is_lower c \<or> is_digit c \<or> c \<in> set ''_:.-''"

text \<open>The rest of an element: attributes in double quotes up to the closing bracket; what follows it.\<close>

function attrsTail :: "string \<Rightarrow> string option" where
  "attrsTail s =
     (let t = dropWhile reSpace s
      in if HasPrefix t ''/>'' then Some (drop 2 t)
         else if t = s \<or> takeWhile attrChar t = [] then None
         else case CutPrefix (dropWhile attrChar t) [CHR ''='', CHR 0x22] of
                None \<Rightarrow> None
              | Some v \<Rightarrow> (case IndexByte v (CHR 0x22) of None \<Rightarrow> None | Some i \<Rightarrow> attrsTail (drop (Suc i) v)))"
  by pat_completeness auto
termination
proof (relation "measure length")
  fix s t v i
  assume "t = dropWhile reSpace s" "CutPrefix (dropWhile attrChar t) [CHR ''='', CHR 0x22] = Some v"
    "IndexByte v (CHR 0x22) = Some i"
  then have "length (dropWhile attrChar t) = Suc (Suc (length v))" by (simp add: CutPrefix_Some)
  moreover have "length (dropWhile attrChar t) \<le> length t" "length t \<le> length s"
    using \<open>t = dropWhile reSpace s\<close> by (simp_all add: length_dropWhile_le)
  ultimately show "(drop (Suc i) v, s) \<in> measure length" by simp
qed simp

declare attrsTail.simps [simp del]

definition phpunitEnv :: "string \<Rightarrow> pattern" where
  "phpunitEnv key bol s =
     (case CutPrefix s ''<env'' of
        None \<Rightarrow> None
      | Some t \<Rightarrow>
          (let u = dropWhile reSpace t
           in if u = t then None
              else case CutPrefix u (''name='' @ [CHR 0x22] @ xmlAttrEscape key @ [CHR 0x22]) of
                     None \<Rightarrow> None
                   | Some w \<Rightarrow> map_option (\<lambda>e. (0, length s - length e)) (attrsTail w)))"

definition phpunitEnvLine :: "string \<Rightarrow> pattern" where
  "phpunitEnvLine key =
     withNewline (\<lambda>bol s.
       if bol then map_option (\<lambda>(g, n). (0, length s - length (dropWhile blank s) + n)) (phpunitEnv key bol (dropWhile blank s))
       else None)"

definition phpunitValueAttr :: pattern where
  "phpunitValueAttr bol s =
     (case s of
        [] \<Rightarrow> None
      | c # cs \<Rightarrow>
          if reSpace c then
            (case CutPrefix cs (''value='' @ [CHR 0x22]) of
               None \<Rightarrow> None
             | Some v \<Rightarrow> map_option (\<lambda>i. (8, 9 + i)) (IndexByte v (CHR 0x22)))
          else None)"

definition phpunitElement :: "string \<Rightarrow> string \<Rightarrow> string" where
  "phpunitElement key v =
     ''<env name='' @ [CHR 0x22] @ xmlAttrEscape key @ [CHR 0x22] @ '' value='' @ [CHR 0x22] @ xmlAttrEscape v @ [CHR 0x22]
       @ '' force='' @ [CHR 0x22] @ ''true'' @ [CHR 0x22] @ ''/>''"

text \<open>\<open>strings.Replace\<close> of the first occurrence\<close>

definition replaceFirst :: "string \<Rightarrow> string \<Rightarrow> string \<Rightarrow> string" where
  "replaceFirst s old r = (case Index s old of None \<Rightarrow> s | Some i \<Rightarrow> take i s @ r @ drop (i + length old) s)"

definition patchPhpunitOne :: "string \<Rightarrow> string \<Rightarrow> string \<Rightarrow> string" where
  "patchPhpunitOne content key v =
     (if MatchString (phpunitEnv key) content
      then ReplaceAllLiteralString (phpunitEnv key) content (phpunitElement key v)
      else replaceFirst content ''</php>''
             (CHR 0x09 # phpunitElement key v @ [NL, CHR 0x09] @ ''</php>''))"

definition applyPhpunitContent :: "string \<Rightarrow> (string \<times> string) list \<Rightarrow> string" where
  "applyPhpunitContent content pairs = fold (\<lambda>k c. patchPhpunitOne c k (valueOf pairs k)) (sortedKeys pairs) content"

text \<open>
  \<open>extractPhpunit\<close>: the value as it is in the file; \<open>Clean\<close> only asks whether the key is there, so
  the decoding of its escapes is left out.
\<close>

fun extractPhpunit :: "string \<Rightarrow> string list \<Rightarrow> (string \<rightharpoonup> string)" where
  "extractPhpunit content [] = Map.empty"
| "extractPhpunit content (k # keys) =
     (case FindValue phpunitValueAttr (FindString (phpunitEnv k) content) of
        Some v \<Rightarrow> (extractPhpunit content keys)(k \<mapsto> v)
      | None \<Rightarrow> extractPhpunit content keys)"

definition removePhpunitContent :: "string \<Rightarrow> string list \<Rightarrow> string" where
  "removePhpunitContent content keys =
     fold (\<lambda>k c. ReplaceAllLiteralString (phpunitEnvLine k) c []) keys content"

definition restorePhpunitOne :: "string \<Rightarrow> string \<Rightarrow> string \<Rightarrow> string" where
  "restorePhpunitOne headContent k content =
     (let headElem = FindString (phpunitEnv k) headContent
      in if headElem = [] then content else ReplaceAllLiteralString (phpunitEnv k) content headElem)"

definition restorePhpunitFromHead :: "string \<Rightarrow> string \<Rightarrow> string list \<Rightarrow> string" where
  "restorePhpunitFromHead content headContent keys = fold (restorePhpunitOne headContent) keys content"

subsection \<open>Sections of an INI or TOML file\<close>

definition reSectionHeader :: pattern where
  "reSectionHeader bol s = (if bol \<and> HasPrefix s ''['' then Some (0, 1) else None)"

text \<open>\<open>^\[name\][^\n]*\n\<close>, for a name on one line\<close>

definition headerLine :: "string \<Rightarrow> pattern" where
  "headerLine name bol s =
     (if bol \<and> HasPrefix s (''['' @ name @ '']'') \<and> NL \<in> set s
         \<and> length name + 2 \<le> length (lineOf s)
      then Some (0, Suc (length (lineOf s))) else None)"

text \<open>The text before the first header, with its offsets.\<close>

definition topSection :: "string \<Rightarrow> (string \<times> nat \<times> nat) option" where
  "topSection content =
     (case FindStringSubmatchIndex reSectionHeader content of
        None \<Rightarrow> Some (content, 0, length content)
      | Some (i, g, n) \<Rightarrow> Some (take i content, 0, i))"

text \<open>The body of a named section: from the end of its header line to the next header or the end.\<close>

definition namedSection :: "string \<Rightarrow> string \<Rightarrow> (string \<times> nat \<times> nat) option" where
  "namedSection content name =
     (case FindStringSubmatchIndex (headerLine name) content of
        None \<Rightarrow> None
      | Some (i, g, n) \<Rightarrow>
          (let bodyStart = i + n;
               bodyEnd = (case FindStringSubmatchIndex reSectionHeader (drop bodyStart content) of
                            None \<Rightarrow> length content
                          | Some (j, g', n') \<Rightarrow> bodyStart + j)
           in Some (take (bodyEnd - bodyStart) (drop bodyStart content), bodyStart, bodyEnd)))"

definition DefaultSection :: string where
  "DefaultSection = ''DEFAULT''"

definition iniSection :: "string \<Rightarrow> string \<Rightarrow> (string \<times> nat \<times> nat) option" where
  "iniSection content section =
     (if section = [] \<or> lower_ascii section = lower_ascii DefaultSection then topSection content
      else namedSection content section)"

definition tomlSection :: "string \<Rightarrow> string \<Rightarrow> (string \<times> nat \<times> nat) option" where
  "tomlSection content table = (if table = [] then topSection content else namedSection content table)"

text \<open>\<open>strings.CutLast\<close> at a dot, and the section and key of a dotted path\<close>

definition cutLastDot :: "string \<Rightarrow> (string \<times> string) option" where
  "cutLastDot s =
     (if CHR ''.'' \<in> set s then
        let after = rev (takeWhile (\<lambda>c. c \<noteq> CHR ''.'') (rev s))
        in Some (take (length s - Suc (length after)) s, after)
      else None)"

definition splitTOMLPath :: "string \<Rightarrow> string \<times> string" where
  "splitTOMLPath dk = (case cutLastDot dk of Some (table, key) \<Rightarrow> (table, key) | None \<Rightarrow> ([], dk))"

definition splitINIPath :: "string \<Rightarrow> go_error + (string \<times> string)" where
  "splitINIPath p =
     (if p = [] then Inl (NewError ''empty ini path'')
      else case splitByte (CHR ''.'') p of
             [key] \<Rightarrow> Inr (DefaultSection, key)
           | [section, key] \<Rightarrow> Inr (section, key)
           | _ \<Rightarrow> Inl (NewError (''ini path '' @ quoted p @ '': deeper than '' @ [CHR 0x60] @ ''section.key'' @ [CHR 0x60]
                    @ '' not supported (use yaml/json/toml for nested)'')))"

definition spliceAssignValue :: "string \<Rightarrow> string \<Rightarrow> string \<Rightarrow> string \<times> bool" where
  "spliceAssignValue section key literal =
     (case FindStringSubmatchIndex (assignLine key) section of
        None \<Rightarrow> (section, False)
      | Some (i, g, n) \<Rightarrow> (take i section @ take g (drop i section) @ literal @ drop (i + n) section, True))"

text \<open>\<open>content[:start] + newSec + content[end:]\<close>\<close>

definition stitch :: "string \<Rightarrow> nat \<Rightarrow> string \<Rightarrow> nat \<Rightarrow> string" where
  "stitch content start newSec stop = take start content @ newSec @ drop stop content"

text \<open>\<open>strconv.ParseInt(v, 10, 64)\<close>: whether it succeeds; and \<open>strconv.Quote\<close> on printable UTF-8.\<close>

definition parsesInt64 :: "string \<Rightarrow> bool" where
  "parsesInt64 v =
     (let neg = HasPrefix v ''-'';
          ds = (if v \<noteq> [] \<and> (hd v = CHR ''-'' \<or> hd v = CHR ''+'') then tl v else v)
      in ds \<noteq> [] \<and> list_all is_digit ds \<and> digits_val ds \<le> (if neg then 2 ^ 63 else 2 ^ 63 - 1))"

definition hexDigit :: "nat \<Rightarrow> char" where
  "hexDigit n = (if n < 10 then char_of (48 + n) else char_of (87 + n))"

definition quoteByte :: "char \<Rightarrow> string" where
  "quoteByte c =
     (if c = CHR 0x22 then [CHR 0x5C, CHR 0x22]
      else if c = CHR 0x5C then [CHR 0x5C, CHR 0x5C]
      else if c = CHR 0x07 then [CHR 0x5C, CHR ''a'']
      else if c = CHR 0x08 then [CHR 0x5C, CHR ''b'']
      else if c = CHR 0x0C then [CHR 0x5C, CHR ''f'']
      else if c = CHR 0x0A then [CHR 0x5C, CHR ''n'']
      else if c = CHR 0x0D then [CHR 0x5C, CHR ''r'']
      else if c = CHR 0x09 then [CHR 0x5C, CHR ''t'']
      else if c = CHR 0x0B then [CHR 0x5C, CHR ''v'']
      else if of_char c < (32::nat) \<or> c = CHR 0x7F
           then [CHR 0x5C, CHR ''x'', hexDigit (of_char c div 16), hexDigit (of_char c mod 16)]
      else [c])"

definition strconv_Quote :: "string \<Rightarrow> string" where
  "strconv_Quote v = CHR 0x22 # concat (map quoteByte v) @ [CHR 0x22]"

definition tomlLiteralFor :: "string \<Rightarrow> string" where
  "tomlLiteralFor v = (if v = [] then [CHR 0x22, CHR 0x22] else if parsesInt64 v then v else strconv_Quote v)"

text \<open>
  One key of \<open>setTOMLInPlace\<close> or \<open>setINIInPlace\<close>: the new text, or nothing when the section or the
  key is not there and the whole document is marshalled instead.
\<close>

definition setInSection ::
  "(string \<Rightarrow> string \<Rightarrow> (string \<times> nat \<times> nat) option) \<Rightarrow> string \<Rightarrow> string \<Rightarrow> string \<Rightarrow> string \<Rightarrow> string option" where
  "setInSection sectionOf out section key literal =
     (case sectionOf out section of
        None \<Rightarrow> None
      | Some (sec, start, stop) \<Rightarrow>
          if sec = [] then None
          else case spliceAssignValue sec key literal of
                 (newSec, found) \<Rightarrow> if found then Some (stitch out start newSec stop) else None)"

fun setTOMLLoop ::
  "docDrivers \<Rightarrow> string \<Rightarrow> (string \<times> string) list \<Rightarrow> string \<Rightarrow> string list \<Rightarrow> go_error + (string \<times> bool)" where
  "setTOMLLoop D content pairs out [] = Inr (out, out \<noteq> content)"
| "setTOMLLoop D content pairs out (k # ks) =
     (case splitTOMLPath k of
        (table, key) \<Rightarrow>
          (case setInSection tomlSection out table key (tomlLiteralFor (valueOf pairs k)) of
             None \<Rightarrow> map_sum id (\<lambda>out'. (out', out' \<noteq> content)) (docApply D DriverTOML content pairs)
           | Some out' \<Rightarrow> setTOMLLoop D content pairs out' ks))"

definition setTOMLInPlace :: "docDrivers \<Rightarrow> string \<Rightarrow> (string \<times> string) list \<Rightarrow> go_error + (string \<times> bool)" where
  "setTOMLInPlace D content pairs = setTOMLLoop D content pairs content (sortedKeys pairs)"

fun setINILoop ::
  "docDrivers \<Rightarrow> string \<Rightarrow> (string \<times> string) list \<Rightarrow> string \<Rightarrow> string list \<Rightarrow> go_error + (string \<times> bool)" where
  "setINILoop D content pairs out [] = Inr (out, out \<noteq> content)"
| "setINILoop D content pairs out (k # ks) =
     (case splitINIPath k of
        Inl e \<Rightarrow> Inl e
      | Inr (section, key) \<Rightarrow>
          (case setInSection iniSection out section key (valueOf pairs k) of
             None \<Rightarrow> map_sum id (\<lambda>out'. (out', out' \<noteq> content)) (docApply D DriverINI content pairs)
           | Some out' \<Rightarrow> setINILoop D content pairs out' ks))"

definition setINIInPlace :: "docDrivers \<Rightarrow> string \<Rightarrow> (string \<times> string) list \<Rightarrow> go_error + (string \<times> bool)" where
  "setINIInPlace D content pairs = setINILoop D content pairs content (sortedKeys pairs)"

text \<open>One key of \<open>restoreTOMLFromHead\<close> or \<open>restoreINIFromHead\<close>.\<close>

definition restoreInSection ::
  "(string \<Rightarrow> string \<Rightarrow> (string \<times> nat \<times> nat) option) \<Rightarrow> string \<Rightarrow> string \<Rightarrow> string \<Rightarrow> string \<Rightarrow> string" where
  "restoreInSection sectionOf headContent section key content =
     (case (sectionOf headContent section, sectionOf content section) of
        (Some (headSec, headStart, headEnd), Some (curSec, curStart, curEnd)) \<Rightarrow>
          if headSec = [] \<or> curSec = [] then content
          else
            (let headLine = FindString (assignLine key) headSec
             in if headLine = [] then content
                else stitch content curStart (ReplaceAllLiteralString (assignLine key) curSec headLine) curEnd)
      | _ \<Rightarrow> content)"

definition restoreTOMLFromHead :: "string \<Rightarrow> string \<Rightarrow> string list \<Rightarrow> string" where
  "restoreTOMLFromHead content headContent keys =
     fold (\<lambda>dk c. case splitTOMLPath dk of (table, key) \<Rightarrow> restoreInSection tomlSection headContent table key c) keys content"

definition restoreINIFromHead :: "string \<Rightarrow> string \<Rightarrow> string list \<Rightarrow> string" where
  "restoreINIFromHead content headContent keys =
     fold (\<lambda>dk c. case splitINIPath dk of
             Inl e \<Rightarrow> c
           | Inr (section, key) \<Rightarrow> restoreInSection iniSection headContent section key c) keys content"

subsection \<open>The filter\<close>

definition unknownDriver :: "string \<Rightarrow> go_error" where
  "unknownDriver driver = NewError (''unknown driver '' @ quoted driver)"

definition applyContent :: "docDrivers \<Rightarrow> string \<Rightarrow> string \<Rightarrow> (string \<times> string) list \<Rightarrow> go_error + string" where
  "applyContent D driver content pairs =
     (if pairs = [] then Inr content
      else if driver = DriverDotenv then Inr (applyDotenvContent content pairs)
      else if driver = DriverPhpunit then Inr (applyPhpunitContent content pairs)
      else if driver = DriverYAML \<or> driver = DriverJSON then docApply D driver content pairs
      else if driver = DriverTOML then map_sum id fst (setTOMLInPlace D content pairs)
      else if driver = DriverINI then map_sum id fst (setINIInPlace D content pairs)
      else Inl (unknownDriver driver))"

definition extractContent :: "docDrivers \<Rightarrow> string \<Rightarrow> string \<Rightarrow> string list \<Rightarrow> go_error + (string \<rightharpoonup> string)" where
  "extractContent D driver content keys =
     (if keys = [] then Inr Map.empty
      else if driver = DriverDotenv then Inr (extractDotenv content keys)
      else if driver = DriverPhpunit then Inr (extractPhpunit content keys)
      else if driver = DriverYAML \<or> driver = DriverJSON \<or> driver = DriverTOML \<or> driver = DriverINI
           then docExtract D driver content keys
      else Inl (unknownDriver driver))"

definition removeContent :: "docDrivers \<Rightarrow> string \<Rightarrow> string \<Rightarrow> string list \<Rightarrow> go_error + string" where
  "removeContent D driver content keys =
     (if keys = [] then Inr content
      else if driver = DriverDotenv then Inr (removeDotenvContent content keys)
      else if driver = DriverPhpunit then Inr (removePhpunitContent content keys)
      else if driver = DriverYAML \<or> driver = DriverJSON \<or> driver = DriverTOML \<or> driver = DriverINI
           then docRemove D driver content keys
      else Inl (unknownDriver driver))"

definition restoreContent ::
  "docDrivers \<Rightarrow> string \<Rightarrow> string \<Rightarrow> string \<Rightarrow> (string \<rightharpoonup> string) \<Rightarrow> string list \<Rightarrow> go_error + string" where
  "restoreContent D driver content headContent headVals present =
     (if driver = DriverPhpunit then Inr (restorePhpunitFromHead content headContent present)
      else if driver = DriverDotenv then Inr (restoreDotenvFromHead content headContent present)
      else if driver = DriverINI then Inr (restoreINIFromHead content headContent present)
      else if driver = DriverTOML then Inr (restoreTOMLFromHead content headContent present)
      else if driver = DriverYAML \<or> driver = DriverJSON then docRestore D driver content headContent headVals present
      else applyContent D driver content
             (map (\<lambda>k. (k, case headVals k of Some v \<Rightarrow> v | None \<Rightarrow> [])) present))"

definition Smudge :: "docDrivers \<Rightarrow> (string \<Rightarrow> string) \<Rightarrow> Patch \<Rightarrow> string \<Rightarrow> Context \<Rightarrow> go_error + string" where
  "Smudge D getenv p content tplCtx =
     (case patchDriver p of
        Inl e \<Rightarrow> Inl e
      | Inr driver \<Rightarrow>
          (case renderTemplates getenv (File p) (SetOf p) tplCtx of
             Inl e \<Rightarrow> Inl e
           | Inr rendered \<Rightarrow> applyContent D driver content rendered))"

definition CleanPatch :: "docDrivers \<Rightarrow> Patch \<Rightarrow> string \<Rightarrow> string \<Rightarrow> go_error + string" where
  "CleanPatch D p content headContent =
     (case patchDriver p of
        Inl e \<Rightarrow> Inl e
      | Inr driver \<Rightarrow>
          if TrimSpace headContent = [] then Inr content
          else
            (let keys = setKeys (SetOf p)
             in case extractContent D driver headContent keys of
                  Inl e \<Rightarrow> Inl e
                | Inr headVals \<Rightarrow>
                    (let present = filter (\<lambda>k. headVals k \<noteq> None) keys;
                         absent = filter (\<lambda>k. headVals k = None) keys
                     in case (if absent \<noteq> [] then removeContent D driver content absent else Inr content) of
                          Inl e \<Rightarrow> Inl e
                        | Inr content' \<Rightarrow>
                            if present = [] then Inr content'
                            else restoreContent D driver content' headContent headVals present)))"

subsection \<open>Rewriting the file on disk\<close>

text \<open>
  \<open>filepath.Rel\<close> on absolute paths, which is what \<open>EvalSymlinks\<close> gives for a worktree, and \<open>insideWorktree\<close>, which refuses a
  target outside the worktree.
\<close>

fun relElems :: "string list \<Rightarrow> string list \<Rightarrow> string list" where
  "relElems (b # bs) (t # ts) = (if b = t then relElems bs ts else replicate (Suc (length bs)) ''..'' @ t # ts)"
| "relElems bs ts = replicate (length bs) ''..'' @ ts"

definition Rel :: "string \<Rightarrow> string \<Rightarrow> string option" where
  "Rel base targ =
     (if IsAbs base \<noteq> IsAbs targ then None
      else
        let bs = cleanElems (IsAbs base) [] (splitSlash base);
            ts = cleanElems (IsAbs targ) [] (splitSlash targ);
            r = relElems bs ts
        in if r = [] then Some ''.'' else Some (joinSlash r))"

definition outsideWorktree :: "string \<Rightarrow> string \<Rightarrow> string \<Rightarrow> go_error" where
  "outsideWorktree target resolved root =
     NewError (target @ '' resolves to '' @ resolved @ '', outside the worktree '' @ root
       @ '' (through a symlink or worktrees.links entry); refusing to patch another checkout'' @ [CHR 0x27] @ ''s file'')"

definition insideWorktree :: "links \<Rightarrow> string \<Rightarrow> string \<Rightarrow> (fs, unit) action" where
  "insideWorktree L worktreePath target =
     bindA (wrapA (\<lambda>e. Wrapf (''resolve worktree '' @ worktreePath @ '': '') e []) (EvalSymlinks L worktreePath)) (\<lambda>root.
     bindA (tryA (EvalSymlinks L target)) (\<lambda>r. case r of
       Inl e \<Rightarrow> if IsNotExist e then returnA () else raiseA (Wrapf (''resolve '' @ target @ '': '') e [])
     | Inr resolved \<Rightarrow>
         (case Rel root resolved of
            Some rel \<Rightarrow>
              if rel = ''..'' \<or> HasPrefix rel ''../''
              then raiseA (outsideWorktree target resolved root)
              else returnA ()
          | None \<Rightarrow> raiseA (outsideWorktree target resolved root))))"

text \<open>
  The shape of \<open>PatchEnvFile\<close>, \<open>PatchPhpunitFile\<close> and the other file patchers: read, compute the new
  content and whether it differs, write.
\<close>

definition patchFileWith ::
  "links \<Rightarrow> string \<Rightarrow> (string \<Rightarrow> go_error + (string \<times> bool)) \<Rightarrow> (fs, Outcome) action" where
  "patchFileWith L path f =
     bindA (tryA (ReadFile (follow L path))) (\<lambda>r. case r of
       Inl e \<Rightarrow> if IsNotExist e then returnA Missing else raiseA (Wrapf (''read '' @ path @ '': '') e [])
     | Inr original \<Rightarrow>
         (case f original of
            Inl e \<Rightarrow> raiseA e
          | Inr (content, changed) \<Rightarrow>
              if \<not> changed then returnA Unchanged
              else bindA (WriteAtomic L path content) (\<lambda>_. returnA Updated)))"

definition PatchEnvFile :: "links \<Rightarrow> string \<Rightarrow> (string \<times> string) list \<Rightarrow> (fs, Outcome) action" where
  "PatchEnvFile L path pairs = patchFileWith L path (\<lambda>original.
     let content = fold (\<lambda>(k, v) c. patchEnvOne c k v) pairs original in Inr (content, content \<noteq> original))"

definition PatchPhpunitFile :: "links \<Rightarrow> string \<Rightarrow> (string \<times> string) list \<Rightarrow> (fs, Outcome) action" where
  "PatchPhpunitFile L path pairs = patchFileWith L path (\<lambda>original.
     let content = fold (\<lambda>(k, v) c. patchPhpunitOne c k v) pairs original in Inr (content, content \<noteq> original))"

definition wrapDriver :: "string \<Rightarrow> string \<Rightarrow> go_error + 'a \<Rightarrow> go_error + 'a" where
  "wrapDriver driver path r = map_sum (\<lambda>e. Wrapf (driver @ '' driver '' @ path @ '': '') e []) id r"

definition PatchTOMLFile :: "docDrivers \<Rightarrow> links \<Rightarrow> string \<Rightarrow> (string \<times> string) list \<Rightarrow> (fs, Outcome) action" where
  "PatchTOMLFile D L path pairs =
     patchFileWith L path (\<lambda>original. wrapDriver ''toml'' path (setTOMLInPlace D original pairs))"

definition PatchINIFile :: "docDrivers \<Rightarrow> links \<Rightarrow> string \<Rightarrow> (string \<times> string) list \<Rightarrow> (fs, Outcome) action" where
  "PatchINIFile D L path pairs =
     bindA (tryA (Stat (follow L path))) (\<lambda>r. case r of
       Inl e \<Rightarrow> if IsNotExist e then returnA Missing else raiseA (Wrapf (''stat '' @ path @ '': '') e [])
     | Inr _ \<Rightarrow>
         bindA (wrapA (\<lambda>e. Wrapf (''read '' @ path @ '': '') e []) (ReadFile (follow L path))) (\<lambda>original.
           case wrapDriver ''ini'' path (setINIInPlace D original pairs) of
             Inl e \<Rightarrow> raiseA e
           | Inr (content, changed) \<Rightarrow>
               if \<not> changed then returnA Unchanged
               else bindA (WriteAtomic L path content) (\<lambda>_. returnA Updated)))"

text \<open>\<open>PatchJSONFile\<close> and \<open>PatchYAMLFile\<close>, over the parameters\<close>

definition PatchJSONFile :: "docDrivers \<Rightarrow> links \<Rightarrow> string \<Rightarrow> (string \<times> string) list \<Rightarrow> (fs, Outcome) action" where
  "PatchJSONFile D L path pairs =
     patchFileWith L path (\<lambda>original.
       wrapDriver ''json'' path (map_sum id (\<lambda>out. (out, out \<noteq> original)) (docApply D DriverJSON original pairs)))"

definition PatchYAMLFile :: "docDrivers \<Rightarrow> links \<Rightarrow> string \<Rightarrow> (string \<times> string) list \<Rightarrow> (fs, Outcome) action" where
  "PatchYAMLFile D L path pairs = patchFileWith L path (\<lambda>original. docPatch D DriverYAML original pairs)"

definition Apply ::
  "docDrivers \<Rightarrow> (string \<Rightarrow> string) \<Rightarrow> links \<Rightarrow> Patch \<Rightarrow> string \<Rightarrow> Context \<Rightarrow> (fs, ApplyResult) action" where
  "Apply D getenv L p worktreePath tplCtx =
     (if SetOf p = [] then raiseA (NewError (''patch '' @ File p @ '': '' @ [CHR 0x60] @ ''set:'' @ [CHR 0x60] @ '' is empty''))
      else
        let d = lower_ascii (TrimSpace (Format p));
            driver = (if d = [] then detectFormat (File p) else d)
        in if driver = [] then raiseA (noFormat (File p))
           else
             case renderTemplates getenv (File p) (SetOf p) tplCtx of
               Inl e \<Rightarrow> raiseA e
             | Inr rendered \<Rightarrow>
                 (let abs = Join2 worktreePath (File p); wrap = wrapA (\<lambda>e. Wrapf (''patch '' @ File p @ '': '') e []);
                      result = (\<lambda>m. bindA (wrapA (\<lambda>e. Wrapf (''patch '' @ File p @ '': '') e []) m)
                        (\<lambda>oc. returnA \<lparr>ar_file = File p, ar_outcome = oc, ar_driver = driver\<rparr>))
                  in bindA (wrap (insideWorktree L worktreePath abs)) (\<lambda>_.
                       if driver = DriverDotenv then result (PatchEnvFile L abs (pairsFrom rendered))
                       else if driver = DriverPhpunit \<or> driver = DriverPhpunitEnv
                            then result (PatchPhpunitFile L abs (pairsFrom rendered))
                       else if driver = DriverYAML then result (PatchYAMLFile D L abs rendered)
                       else if driver = DriverJSON then result (PatchJSONFile D L abs rendered)
                       else if driver = DriverTOML then result (PatchTOMLFile D L abs rendered)
                       else if driver = DriverINI then result (PatchINIFile D L abs rendered)
                       else raiseA (NewError (''patch '' @ File p @ '': unknown format '' @ quoted driver
                              @ '' (want dotenv|phpunit|yaml|json|toml|ini)'')))))"

subsection \<open>The program git runs\<close>

text \<open>
  \<open>runPatchFilter\<close> of \<open>cmd/treeman/cmd/patch.go\<close>, from the bytes on its input to those on its output.
  The working directory, the repository it belongs to, the patches of the loaded configuration and
  the template context of the worktree's registry row are inputs, each as the value or the failure
  to find it.
\<close>

record filterEnv =
  fe_cwd :: "go_error + string"
  fe_canonical :: "string \<Rightarrow> string"
  fe_root :: "string \<Rightarrow> go_error + string"
  fe_patches :: "string \<Rightarrow> string \<Rightarrow> go_error + Patch list"
  fe_context :: "string \<Rightarrow> string \<Rightarrow> go_error + Context"
  fe_git :: git
  fe_getenv :: "string \<Rightarrow> string"
  fe_docs :: docDrivers

definition findPatchEntry :: "Patch list \<Rightarrow> string \<Rightarrow> Patch option" where
  "findPatchEntry patches relPath = find (\<lambda>p. Clean (File p) = Clean relPath) patches"

definition isMainWorktreePath :: "filterEnv \<Rightarrow> string \<Rightarrow> string \<Rightarrow> bool" where
  "isMainWorktreePath F repoRoot worktreePath \<longleftrightarrow> fe_canonical F repoRoot = fe_canonical F worktreePath"

definition orBody :: "string \<Rightarrow> go_error + string \<Rightarrow> string" where
  "orBody body r = (case r of Inl e \<Rightarrow> body | Inr out \<Rightarrow> out)"

definition runPatchFilter :: "filterEnv \<Rightarrow> string \<Rightarrow> string \<Rightarrow> string \<Rightarrow> string" where
  "runPatchFilter F mode relPath body =
     (case fe_cwd F of
        Inl e \<Rightarrow> body
      | Inr cwd \<Rightarrow>
          (let worktreePath = fe_canonical F cwd
           in case fe_root F worktreePath of
                Inl e \<Rightarrow> body
              | Inr repoRoot \<Rightarrow>
                  (case fe_patches F repoRoot worktreePath of
                     Inl e \<Rightarrow> body
                   | Inr patches \<Rightarrow>
                       (case findPatchEntry patches relPath of
                          None \<Rightarrow> body
                        | Some patch \<Rightarrow>
                            if isMainWorktreePath F repoRoot worktreePath then body
                            else case fe_context F repoRoot worktreePath of
                                   Inl e \<Rightarrow> body
                                 | Inr tplCtx \<Rightarrow>
                                     if mode = ''smudge''
                                     then orBody body (Smudge (fe_docs F) (fe_getenv F) patch body tplCtx)
                                     else if mode = ''clean''
                                     then orBody body (CleanPatch (fe_docs F) patch body
                                            (orBody [] (gitString (fe_git F) worktreePath [''show'', ''HEAD:'' @ relPath])))
                                     else body))))"

end
