(* ===== verification/PatcherProps.thy ===== *)
theory PatcherProps
  imports Patcher
begin

text \<open>
  What the clean and smudge filter does to a \<open>dotenv\<close> file, line by line: which lines \<open>Smudge\<close> and
  \<open>Clean\<close> touch, that the values can be read back, when cleaning a freshly smudged file gives HEAD
  again, and that the file \<open>Apply\<close> leaves on disk is the smudged one.
\<close>

subsection \<open>The expressions as line patterns\<close>

lemma lineOf_lineOf [simp]: "lineOf (lineOf s) = lineOf s"
  by simp

lemma line_rest: "\<exists>r. s = lineOf s @ r \<and> (r = [] \<or> (\<exists>u. r = NL # u))"
proof (cases "NL \<in> set s")
  case True
  then show ?thesis using lineOf_split by blast
next
  case False
  then show ?thesis by simp
qed

lemma dropWhile_blank_line:
  "r = [] \<or> (\<exists>u. r = NL # u) \<Longrightarrow> dropWhile blank (l @ r) = dropWhile blank l @ r"
  by (induction l) (auto simp: dropWhile_eq_self_iff)

lemma HasPrefix_line:
  assumes "NL \<notin> set k" "r = [] \<or> (\<exists>u. r = NL # u)"
  shows "HasPrefix (l @ r) k \<longleftrightarrow> HasPrefix l k"
proof
  assume "HasPrefix (l @ r) k"
  then obtain z where z: "l @ r = k @ z" by (auto simp: HasPrefix_iff)
  show "HasPrefix l k"
  proof (cases "length k \<le> length l")
    case True
    then show ?thesis using z by (metis HasPrefix_def append_eq_append_conv_if)
  next
    case False
    then have "r \<noteq> []" using z by (auto dest: arg_cong [of _ _ length])
    then obtain u where "r = NL # u" using assms(2) by blast
    moreover have "take (length k) (l @ r) = k" using z by simp
    ultimately have "NL \<in> set k" using False by (metis append_is_Nil_conv diff_is_0_eq in_set_conv_decomp
      linorder_not_less not_less_eq_eq take_Cons' take_append take_all nle_le set_append Un_iff list.set_intros(1))
    then show ?thesis using assms(1) by simp
  qed
qed (auto simp: HasPrefix_iff)

lemma assignTail_line:
  assumes "NL \<notin> set k" "r = [] \<or> (\<exists>u. r = NL # u)"
  shows "assignTail k (l @ r) = map_option (\<lambda>v. v @ r) (assignTail k l)"
proof (cases "HasPrefix l k")
  case True
  then obtain z where "l = k @ z" by (auto simp: HasPrefix_iff)
  moreover have "dropWhile blank (z @ r) = dropWhile blank z @ r" by (rule dropWhile_blank_line [OF assms(2)])
  moreover have "(case r of [] \<Rightarrow> None | c # v \<Rightarrow> if c = CHR ''='' then Some v else None) = None"
    using assms(2) by (auto split: list.splits)
  ultimately show ?thesis
    by (cases "dropWhile blank z") (simp_all add: assignTail_def del: dropWhile_eq_Nil_conv)
next
  case False
  then show ?thesis using HasPrefix_line [OF assms] by (simp add: assignTail_def)
qed

lemma assignTail_suffix: "assignTail k l = Some v \<Longrightarrow> \<exists>bl. l = k @ bl @ CHR ''='' # v \<and> list_all blank bl"
proof -
  assume a: "assignTail k l = Some v"
  then obtain z where z: "l = k @ z" "dropWhile blank z = CHR ''='' # v"
    by (auto simp: assignTail_def HasPrefix_iff split: if_splits list.splits)
  have "l = k @ takeWhile blank z @ CHR ''='' # v" using z by (metis takeWhile_dropWhile_id)
  moreover have "list_all blank (takeWhile blank z)" by (auto simp: list_all_iff dest: set_takeWhileD)
  ultimately show ?thesis by blast
qed

lemma assignTail_Nil [simp]: "assignTail k [] = None"
  by (simp add: assignTail_def split: list.splits)

text \<open>On one line: how much of it precedes the value.\<close>

definition dotenvHit :: "string \<Rightarrow> string \<Rightarrow> nat option" where
  "dotenvHit k l = map_option (\<lambda>v. length l - length v) (assignTail k l)"

interpretation dl: line_pattern "dotenvLine (lineOf k)" "dotenvHit (lineOf k)" for k
proof
  fix bol s
  obtain r where s: "s = lineOf s @ r" and r: "r = [] \<or> (\<exists>u. r = NL # u)" using line_rest by blast
  have split: "assignTail (lineOf k) s = map_option (\<lambda>v. v @ r) (assignTail (lineOf k) (lineOf s))"
    using assignTail_line [OF NL_notin_lineOf r] s by metis
  have "length s - length (v @ r) + length (lineOf (v @ r)) = length (lineOf s) \<and>
      length s - length (v @ r) = length (lineOf s) - length v"
    if v: "assignTail (lineOf k) (lineOf s) = Some v" for v
  proof -
    obtain bl where "lineOf s = lineOf k @ bl @ CHR ''='' # v" using assignTail_suffix [OF v] by blast
    then have le: "length v \<le> length (lineOf s)" and "NL \<notin> set v"
      by (simp, metis NL_notin_lineOf Un_iff list.set_intros(2) set_append)
    then have "lineOf (v @ r) = v" using r by auto
    then show ?thesis using le arg_cong [OF s, of length] by simp
  qed
  then show "dotenvLine (lineOf k) bol s =
      (if bol then map_option (\<lambda>g. (g, length (lineOf s))) (dotenvHit (lineOf k) (lineOf s)) else None)"
    by (auto simp: dotenvLine_def dotenvHit_def split option.map_comp o_def intro!: map_option_cong)
next
  fix l g
  assume "dotenvHit (lineOf k) l = Some g"
  then show "g \<le> length l" by (auto simp: dotenvHit_def)
qed (simp add: dotenvHit_def)

text \<open>
  A key that can be patched without ambiguity: no equals sign and no newline, and no blank at its
  end.  A line then has at most one such key, what stands before its first equals sign.
\<close>

definition properKey :: "string \<Rightarrow> bool" where
  "properKey k \<longleftrightarrow> NL \<notin> set k \<and> CHR ''='' \<notin> set k \<and> (k = [] \<or> \<not> blank (last k))"

definition dotenvKey :: "string \<Rightarrow> string option" where
  "dotenvKey l = (if CHR ''='' \<in> set l then Some (dropWhileEnd blank (takeWhile (\<lambda>c. c \<noteq> CHR ''='') l)) else None)"

lemma dropWhileEnd_append: "list_all P ys \<Longrightarrow> dropWhileEnd P (xs @ ys) = dropWhileEnd P xs"
  unfolding dropWhileEnd_def by (subst rev_append, subst dropWhile_append2) (auto simp: list_all_iff)

lemma takeWhile_stop: "\<lbrakk>\<forall>x \<in> set xs. P x; \<not> P y\<rbrakk> \<Longrightarrow> takeWhile P (xs @ y # ys) = xs"
  by (induction xs) auto

lemma dotenvHit_iff:
  assumes "properKey k"
  shows "dotenvHit k l \<noteq> None \<longleftrightarrow> dotenvKey l = Some k"
proof
  assume "dotenvHit k l \<noteq> None"
  then obtain v where "assignTail k l = Some v" by (auto simp: dotenvHit_def)
  then obtain bl where l: "l = k @ bl @ CHR ''='' # v" and bl: "list_all blank bl" using assignTail_suffix by blast
  have "takeWhile (\<lambda>c. c \<noteq> CHR ''='') ((k @ bl) @ CHR ''='' # v) = k @ bl"
    using assms bl by (intro takeWhile_stop) (auto simp: properKey_def list_all_iff)
  then show "dotenvKey l = Some k"
    using assms bl l by (simp add: dotenvKey_def dropWhileEnd_append dropWhileEnd_id properKey_def)
next
  assume k: "dotenvKey l = Some k"
  let ?b = "takeWhile (\<lambda>c. c \<noteq> CHR ''='') l"
  from k have eq: "CHR ''='' \<in> set l" "dropWhileEnd blank ?b = k" by (auto simp: dotenvKey_def split: if_splits)
  obtain ys where ys: "?b = k @ ys" "\<forall>y \<in> set ys. blank y" using dropWhileEnd_prefix [of ?b blank] eq(2) by auto
  have "dropWhile (\<lambda>c. c \<noteq> CHR ''='') l \<noteq> []" using eq(1) by auto
  then obtain v where "dropWhile (\<lambda>c. c \<noteq> CHR ''='') l = CHR ''='' # v"
    using hd_dropWhile [of "\<lambda>c. c \<noteq> CHR ''=''" l] by (cases "dropWhile (\<lambda>c. c \<noteq> CHR ''='') l") auto
  then have "l = ?b @ CHR ''='' # v" using takeWhile_dropWhile_id [of "\<lambda>c. c \<noteq> CHR ''=''" l] by argo
  then have "l = k @ ys @ CHR ''='' # v" unfolding ys(1) by simp
  moreover have "dropWhile blank (ys @ CHR ''='' # v) = CHR ''='' # v"
    using ys(2) by (subst dropWhile_append2) auto
  ultimately show "dotenvHit k l \<noteq> None" by (simp add: dotenvHit_def assignTail_def)
qed

lemma dotenvKey_Nil [simp]: "dotenvKey [] = None"
  by (simp add: dotenvKey_def)

definition assignment :: "string \<Rightarrow> string \<Rightarrow> string" where
  "assignment k v = k @ ''='' @ v"

lemma dotenvHit_assignment: "dotenvHit k (assignment k v) = Some (Suc (length k))"
  by (simp add: dotenvHit_def assignTail_def assignment_def)

lemma dotenvKey_assignment [simp]: "properKey k \<Longrightarrow> dotenvKey (assignment k v) = Some k"
  using dotenvHit_iff [of k "assignment k v"] by (simp add: dotenvHit_assignment)

lemma assignment_simps [simp]: "assignment k v \<noteq> []"
  "NL \<notin> set k \<Longrightarrow> NL \<in> set (assignment k v) \<longleftrightarrow> NL \<in> set v"
  by (auto simp: assignment_def)

text \<open>The operations of the driver on a text given by its lines.\<close>

definition plainLines :: "string list \<Rightarrow> string \<Rightarrow> bool" where
  "plainLines ls t \<longleftrightarrow> (\<forall>l \<in> set (t # ls). NL \<notin> set l)"

lemma plainLines_of: "plainLines (linesOf s) (lastLine s)"
  using textOf_linesOf [of s] by (simp add: plainLines_def)

lemma text_of: "textOf (linesOf s) (lastLine s) = s"
  using textOf_linesOf [of s] by simp

lemma proper_line: "properKey k \<Longrightarrow> lineOf k = k"
  by (simp add: properKey_def)

lemma hit_None: "properKey k \<Longrightarrow> dotenvHit k l = None \<longleftrightarrow> dotenvKey l \<noteq> Some k"
  using dotenvHit_iff [of k l] by auto

lemma match_dotenv:
  assumes "plainLines ls t" "properKey k"
  shows "MatchString (dotenvLine k) (textOf ls t) \<longleftrightarrow> (\<exists>l \<in> set (ls @ [t]). dotenvKey l = Some k)"
  using dl.match_text [of ls t k] assms
  by (auto simp: plainLines_def proper_line dotenvHit_iff simp del: not_None_eq)

lemma replace_dotenv:
  assumes "plainLines ls t" "properKey k"
  shows "ReplaceAllLiteralString (dotenvLine k) (textOf ls t) r =
    textOf (map (\<lambda>l. if dotenvKey l = Some k then r else l) ls) (if dotenvKey t = Some k then r else t)"
  using dl.replace_text [of ls t k r] assms
  by (auto simp: plainLines_def proper_line hit_None cong: map_cong intro!: arg_cong2 [of _ _ _ _ textOf])

lemma remove_dotenv:
  assumes "plainLines ls t" "properKey k"
  shows "ReplaceAllLiteralString (dotenvLineWithNewline k) (textOf ls t) [] =
    textOf (filter (\<lambda>l. dotenvKey l \<noteq> Some k) ls) (if dotenvKey t = Some k then [] else t)"
  using dl.remove_text [of ls t k] assms
  by (auto simp: plainLines_def proper_line hit_None dotenvLineWithNewline_def cong: filter_cong)

lemma find_dotenv:
  assumes "plainLines ls t" "properKey k"
  shows "FindString (dotenvLine k) (textOf ls t) =
    (case find (\<lambda>l. dotenvKey l = Some k) (ls @ [t]) of None \<Rightarrow> [] | Some l \<Rightarrow> l)"
  using dl.findString_text [of ls t k] assms
  by (simp add: plainLines_def proper_line dotenvHit_iff del: not_None_eq)

lemma value_dotenv:
  assumes "plainLines ls t" "properKey k"
  shows "FindValue (dotenvLine k) (textOf ls t) =
    map_option (\<lambda>l. drop (the (dotenvHit k l)) l) (find (\<lambda>l. dotenvKey l = Some k) (ls @ [t]))"
  using dl.findValue_text [of ls t k] assms
  by (simp add: plainLines_def proper_line dotenvHit_iff del: not_None_eq)

subsection \<open>Smudging a dotenv text\<close>

definition patchedLine :: "string set \<Rightarrow> (string \<Rightarrow> string) \<Rightarrow> string \<Rightarrow> string" where
  "patchedLine K val l =
     (case dotenvKey l of None \<Rightarrow> l | Some k \<Rightarrow> if k \<in> K then assignment k (val k) else l)"

definition lineKeys :: "string list \<Rightarrow> string set" where
  "lineKeys ls = {k. \<exists>l \<in> set ls. dotenvKey l = Some k}"

lemma patchedLine_simps [simp]:
  "patchedLine K val [] = []" "patchedLine {} val l = l" "patchedLine K val l = [] \<longleftrightarrow> l = []"
  by (auto simp: patchedLine_def split: option.splits)

lemma patchedLine_key [simp]: "\<forall>k \<in> K. properKey k \<Longrightarrow> dotenvKey (patchedLine K val l) = dotenvKey l"
  by (auto simp: patchedLine_def split: option.splits)

lemma patchedLine_NL:
  "\<lbrakk>\<forall>k \<in> K. properKey k \<and> NL \<notin> set (val k); NL \<notin> set l\<rbrakk> \<Longrightarrow> NL \<notin> set (patchedLine K val l)"
  by (auto simp: patchedLine_def properKey_def split: option.splits)

lemma lineKeys_simps [simp]:
  "lineKeys [] = {}" "lineKeys (l # ls) = set_option (dotenvKey l) \<union> lineKeys ls"
  "lineKeys (ls @ ms) = lineKeys ls \<union> lineKeys ms"
  by (auto simp: lineKeys_def)

lemma lineKeys_patched [simp]: "\<forall>k \<in> K. properKey k \<Longrightarrow> lineKeys (map (patchedLine K val) ls) = lineKeys ls"
  by (auto simp: lineKeys_def)

lemma HasSuffix_text: "plainLines ls t \<Longrightarrow> textOf ls t \<noteq> [] \<and> \<not> HasSuffix (textOf ls t) [NL] \<longleftrightarrow> t \<noteq> []"
proof -
  assume p: "plainLines ls t"
  have "textOf ls [] = [] \<or> HasSuffix (textOf ls []) [NL]"
    by (cases ls rule: rev_cases) (auto simp: textOf_append HasSuffix_iff textOf_def)
  moreover have "\<not> HasSuffix (textOf ls t) [NL]" if "t \<noteq> []"
  proof
    assume "HasSuffix (textOf ls t) [NL]"
    then have "last (textOf ls t) = NL" by (auto simp: HasSuffix_iff)
    then show False using that p by (simp add: textOf_def plainLines_def) (metis last_in_set)
  qed
  ultimately show ?thesis by (auto simp: textOf_def)
qed

text \<open>One key: every line that has it is replaced, and a line is added when there is none.\<close>

lemma patchEnvOne_text:
  assumes "plainLines ls t" "properKey k"
  shows "patchEnvOne (textOf ls t) k v =
     (if k \<in> lineKeys (ls @ [t])
      then textOf (map (patchedLine {k} (\<lambda>_. v)) ls) (patchedLine {k} (\<lambda>_. v) t)
      else textOf (ls @ (if t = [] then [] else [t]) @ [assignment k v]) [])"
proof (cases "k \<in> lineKeys (ls @ [t])")
  case True
  then have "MatchString (dotenvLine k) (textOf ls t)" using assms by (auto simp: match_dotenv lineKeys_def)
  moreover have "patchedLine {k} (\<lambda>_. v) l = (if dotenvKey l = Some k then k @ CHR ''='' # v else l)" for l
    by (auto simp: patchedLine_def assignment_def split: option.splits)
  ultimately show ?thesis using True assms by (simp add: patchEnvOne_def replace_dotenv cong: map_cong)
next
  case False
  then have "\<not> MatchString (dotenvLine k) (textOf ls t)" using assms by (auto simp: match_dotenv lineKeys_def)
  then show ?thesis using False assms HasSuffix_text [OF assms(1)]
    by (auto simp: patchEnvOne_def textOf_append assignment_def) (simp_all add: textOf_def)
qed

definition smudgedText :: "string list \<Rightarrow> (string \<Rightarrow> string) \<Rightarrow> string list \<Rightarrow> string \<Rightarrow> string" where
  "smudgedText ks val ls t =
     (let app = map (\<lambda>k. assignment k (val k)) (filter (\<lambda>k. k \<notin> lineKeys (ls @ [t])) ks); f = patchedLine (set ks) val
      in textOf (map f ls @ (if app = [] \<or> t = [] then [] else [f t]) @ app) (if app = [] then f t else []))"

lemma patchedLine_twice:
  assumes "properKey k" "k \<notin> K" "\<forall>k \<in> K. properKey k"
  shows "patchedLine K val (patchedLine {k} (\<lambda>_. val k) l) = patchedLine (insert k K) val l"
  using assms by (auto simp: patchedLine_def split: option.splits)

lemma patchedLine_other: "k \<notin> set_option (dotenvKey l) \<Longrightarrow> patchedLine (insert k K) val l = patchedLine K val l"
  by (auto simp: patchedLine_def split: option.splits)

lemma smudge_text:
  assumes "plainLines ls t" "distinct ks" "\<forall>k \<in> set ks. properKey k \<and> NL \<notin> set (val k)"
  shows "fold (\<lambda>k c. patchEnvOne c k (val k)) ks (textOf ls t) = smudgedText ks val ls t"
  using assms
proof (induction ks arbitrary: ls t)
  case Nil
  then show ?case by (simp add: smudgedText_def cong: map_cong)
next
  case (Cons k ks)
  let ?f = "patchedLine {k} (\<lambda>_. val k)"
  have k: "properKey k" "NL \<notin> set (val k)" "k \<notin> set ks" and ks: "\<forall>k \<in> set ks. properKey k" using Cons.prems by auto
  show ?case
  proof (cases "k \<in> lineKeys (ls @ [t])")
    case True
    have plain: "plainLines (map ?f ls) (?f t)"
      using Cons.prems(1) k patchedLine_NL [of "{k}" "\<lambda>_. val k"] by (auto simp: plainLines_def)
    have keys: "lineKeys (map ?f ls @ [?f t]) = lineKeys (ls @ [t])" using k by simp
    have "fold (\<lambda>k c. patchEnvOne c k (val k)) (k # ks) (textOf ls t) = smudgedText ks val (map ?f ls) (?f t)"
      using Cons.IH [OF plain] Cons.prems True k(1) by (simp add: patchEnvOne_text)
    also have "\<dots> = smudgedText (k # ks) val ls t"
      using True keys k ks
      by (cases "t = []") (auto simp: smudgedText_def patchedLine_twice o_def Let_def)
    finally show ?thesis .
  next
    case False
    let ?ls = "ls @ (if t = [] then [] else [t]) @ [assignment k (val k)]"
    have plain: "plainLines ?ls []" using Cons.prems(1) k by (auto simp: plainLines_def properKey_def)
    have same: "patchedLine (insert k (set ks)) val l = patchedLine (set ks) val l" if "l \<in> set (ls @ [t])" for l
      using False that by (intro patchedLine_other) (auto simp: lineKeys_def elem_set)
    have kv: "patchedLine (set ks) val (assignment k (val k)) = assignment k (val k)"
      using k by (simp add: patchedLine_def)
    have keys: "filter (\<lambda>k'. k' \<notin> lineKeys (?ls @ [[]])) ks = filter (\<lambda>k. k \<notin> lineKeys (ls @ [t])) ks"
      using k by (intro filter_cong) auto
    have "fold (\<lambda>k c. patchEnvOne c k (val k)) (k # ks) (textOf ls t) = smudgedText ks val ?ls []"
      using Cons.IH [OF plain] Cons.prems False k(1) by (simp add: patchEnvOne_text)
    also have "\<dots> = smudgedText (k # ks) val ls t"
      using False keys k same kv by (auto simp: smudgedText_def Let_def cong: map_cong)
    finally show ?thesis .
  qed
qed

lemma renderTemplates_keys: "renderTemplates getenv file raw ctx = Inr rendered \<Longrightarrow> map fst rendered = map fst raw"
proof (induction raw arbitrary: rendered)
  case (Cons kv raw)
  obtain k v where kv: "kv = (k, v)" by force
  obtain out x where "renderTemplates getenv file raw ctx = Inr out" "rendered = (k, x) # out"
    using Cons.prems unfolding kv renderTemplates.simps
    by (cases "Render v ctx"; cases "renderTemplates getenv file raw ctx") auto
  with Cons.IH kv show ?case by simp
qed simp

text \<open>A patch of a dotenv file whose keys and values stay on their lines.\<close>

definition dotenvPatch :: "Patch \<Rightarrow> bool" where
  "dotenvPatch p \<longleftrightarrow> patchDriver p = Inr DriverDotenv \<and> distinct (map fst (SetOf p)) \<and> (\<forall>k \<in> fst ` set (SetOf p). properKey k)"

definition plainValues :: "(string \<times> string) list \<Rightarrow> bool" where
  "plainValues rendered \<longleftrightarrow> (\<forall>v \<in> snd ` set rendered. NL \<notin> set v)"

lemma valueOf_plain: "plainValues m \<Longrightarrow> NL \<notin> set (valueOf m k)"
  by (cases "map_of m k") (auto simp: plainValues_def valueOf_def dest!: map_of_SomeD)

lemma Smudge_dotenv:
  assumes "dotenvPatch p" "renderTemplates getenv (File p) (SetOf p) ctx = Inr rendered" "plainValues rendered"
  shows "Smudge D getenv p content ctx =
    Inr (smudgedText (setKeys (SetOf p)) (valueOf rendered) (linesOf content) (lastLine content))"
proof -
  have keys: "map fst rendered = map fst (SetOf p)" by (rule renderTemplates_keys [OF assms(2)])
  have sk: "sortedKeys rendered = setKeys (SetOf p)" by (simp add: sortedKeys_def setKeys_def keys)
  have ks: "distinct (setKeys (SetOf p))" "\<forall>k \<in> set (setKeys (SetOf p)). properKey k"
    using assms(1) by (auto simp: dotenvPatch_def setKeys_def)
  have "applyDotenvContent (textOf (linesOf content) (lastLine content)) rendered =
      smudgedText (setKeys (SetOf p)) (valueOf rendered) (linesOf content) (lastLine content)"
    unfolding applyDotenvContent_def sk
    by (rule smudge_text) (use ks valueOf_plain [OF assms(3)] plainLines_of in auto)
  then have full: "applyDotenvContent content rendered =
      smudgedText (setKeys (SetOf p)) (valueOf rendered) (linesOf content) (lastLine content)"
    by (simp only: text_of)
  show ?thesis
  proof (cases "rendered = []")
    case True
    then have "setKeys (SetOf p) = []" using sk by (simp add: sortedKeys_def)
    then show ?thesis using assms True full
      by (simp add: Smudge_def dotenvPatch_def applyContent_def applyDotenvContent_def sortedKeys_def)
  next
    case False
    then show ?thesis using assms full by (simp add: Smudge_def dotenvPatch_def applyContent_def)
  qed
qed

subsection \<open>Cleaning a dotenv text\<close>

definition headLine :: "string \<Rightarrow> string \<Rightarrow> string option" where
  "headLine head k = find (\<lambda>l. dotenvKey l = Some k) (linesOf head @ [lastLine head])"

text \<open>What a line of the working file becomes: HEAD's line for its key, nothing, or itself.\<close>

definition projectedLine :: "string \<Rightarrow> string set \<Rightarrow> string \<Rightarrow> string option" where
  "projectedLine head K l =
     (case dotenvKey l of None \<Rightarrow> Some l | Some k \<Rightarrow> if k \<in> K then headLine head k else Some l)"

lemma headLine_key: "headLine head k = Some l \<Longrightarrow> dotenvKey l = Some k \<and> NL \<notin> set l \<and> l \<noteq> []"
  using plainLines_of [of head] by (auto simp: headLine_def find_Some_iff plainLines_def)
    (metis in_set_conv_nth last_in_set nth_append_length set_append NL_notin_lastLine Un_iff empty_iff list.set nth_mem set_ConsD length_append_singleton)

lemma headLine_FindString:
  assumes "properKey k"
  shows "FindString (dotenvLine k) head = (case headLine head k of None \<Rightarrow> [] | Some l \<Rightarrow> l)"
  using find_dotenv [OF plainLines_of assms, of head] by (simp add: text_of headLine_def)

lemma extract_present:
  assumes "\<forall>k \<in> set keys. properKey k"
  shows "extractDotenv head keys k \<noteq> None \<longleftrightarrow> k \<in> set keys \<and> headLine head k \<noteq> None"
  using assms
proof (induction keys)
  case (Cons k' keys)
  have "FindValue (dotenvLine k') head \<noteq> None \<longleftrightarrow> headLine head k' \<noteq> None"
    using value_dotenv [OF plainLines_of, of k' head] Cons.prems by (simp add: text_of headLine_def)
  then show ?case using Cons by (auto split: option.splits)
qed simp

lemma remove_text_all:
  assumes "plainLines ls t" "\<forall>k \<in> set ks. properKey k"
  shows "removeDotenvContent (textOf ls t) ks =
    textOf (filter (\<lambda>l. \<forall>k \<in> set ks. dotenvKey l \<noteq> Some k) ls) (if \<exists>k \<in> set ks. dotenvKey t = Some k then [] else t)"
  using assms
proof (induction ks arbitrary: ls t)
  case (Cons k ks)
  let ?ls = "filter (\<lambda>l. dotenvKey l \<noteq> Some k) ls" and ?t = "if dotenvKey t = Some k then [] else t"
  have "plainLines ?ls ?t" using Cons.prems(1) by (auto simp: plainLines_def)
  from Cons.IH [OF this] Cons.prems show ?case
    by (auto simp: removeDotenvContent_def remove_dotenv conj_commute intro!: arg_cong2 [of _ _ _ _ textOf] filter_cong)
qed (simp add: removeDotenvContent_def)

definition restoredLine :: "string \<Rightarrow> string set \<Rightarrow> string \<Rightarrow> string" where
  "restoredLine head K l =
     (case dotenvKey l of
        None \<Rightarrow> l
      | Some k \<Rightarrow> if k \<in> K then (case headLine head k of None \<Rightarrow> l | Some h \<Rightarrow> h) else l)"

lemma restoredLine_plain: "NL \<notin> set l \<Longrightarrow> NL \<notin> set (restoredLine head K l)"
  by (auto simp: restoredLine_def split: option.splits dest: headLine_key)

lemma restoredLine_twice:
  "k \<notin> K \<Longrightarrow> restoredLine head K (restoredLine head {k} l) = restoredLine head (insert k K) l"
  by (auto simp: restoredLine_def split: option.splits dest: headLine_key)

lemma restore_one:
  assumes "plainLines ls t" "properKey k"
  shows "restoreDotenvOne head k (textOf ls t) = textOf (map (restoredLine head {k}) ls) (restoredLine head {k} t)"
proof (cases "headLine head k")
  case None
  then have "restoredLine head {k} l = l" for l by (auto simp: restoredLine_def split: option.splits)
  then show ?thesis using None assms
    by (simp add: restoreDotenvOne_def headLine_FindString cong: map_cong)
next
  case (Some h)
  then have "restoredLine head {k} l = (if dotenvKey l = Some k then h else l)" for l
    by (auto simp: restoredLine_def split: option.splits)
  then show ?thesis using Some assms headLine_key [OF Some]
    by (simp add: restoreDotenvOne_def headLine_FindString replace_dotenv cong: map_cong)
qed

lemma restore_text:
  assumes "plainLines ls t" "\<forall>k \<in> set ks. properKey k" "distinct ks"
  shows "restoreDotenvFromHead (textOf ls t) head ks =
    textOf (map (restoredLine head (set ks)) ls) (restoredLine head (set ks) t)"
  using assms
proof (induction ks arbitrary: ls t)
  case Nil
  have "restoredLine head {} l = l" for l by (auto simp: restoredLine_def split: option.splits)
  then show ?case by (simp add: restoreDotenvFromHead_def cong: map_cong)
next
  case (Cons k ks)
  have "plainLines (map (restoredLine head {k}) ls) (restoredLine head {k} t)"
    using Cons.prems(1) by (auto simp: plainLines_def restoredLine_plain)
  from Cons.IH [OF this] Cons.prems show ?case
    by (simp add: restoreDotenvFromHead_def restore_one restoredLine_twice o_def)
qed

text \<open>The reference for \<open>Clean\<close>: every line on its own.\<close>

definition projectedText :: "string \<Rightarrow> string set \<Rightarrow> string list \<Rightarrow> string \<Rightarrow> string" where
  "projectedText head K ls t =
     textOf (List.map_filter (projectedLine head K) ls) (case projectedLine head K t of None \<Rightarrow> [] | Some l \<Rightarrow> l)"

lemma projected_split:
  fixes head :: string and keys :: "string list"
  defines "P \<equiv> set (filter (\<lambda>k. headLine head k \<noteq> None) keys)" and "A \<equiv> set (filter (\<lambda>k. headLine head k = None) keys)"
  shows "projectedLine head (set keys) l = (if \<forall>k \<in> A. dotenvKey l \<noteq> Some k then Some (restoredLine head P l) else None)"
  by (auto simp: projectedLine_def restoredLine_def P_def A_def split: option.splits)

lemma map_filter_split: "List.map_filter (\<lambda>l. if Q l then Some (f l) else None) ls = map f (filter Q ls)"
  by (induction ls) (auto simp: List.map_filter_def)

lemma restoredLine_Nil [simp]: "restoredLine head K [] = []"
  by (simp add: restoredLine_def)

lemma Clean_dotenv:
  assumes "dotenvPatch p" "TrimSpace head \<noteq> []" "plainLines ls t"
  shows "CleanPatch D p (textOf ls t) head = Inr (projectedText head (fst ` set (SetOf p)) ls t)"
proof -
  let ?keys = "setKeys (SetOf p)"
  let ?present = "filter (\<lambda>k. headLine head k \<noteq> None) ?keys" and ?absent = "filter (\<lambda>k. headLine head k = None) ?keys"
  let ?ls = "filter (\<lambda>l. \<forall>k \<in> set ?absent. dotenvKey l \<noteq> Some k) ls"
  let ?t = "if \<exists>k \<in> set ?absent. dotenvKey t = Some k then [] else t"
  have ks: "set ?keys = fst ` set (SetOf p)" "distinct ?keys" "\<forall>k \<in> set ?keys. properKey k"
    using assms(1) by (auto simp: dotenvPatch_def setKeys_def)
  have ex: "extractContent D DriverDotenv head ?keys = Inr (extractDotenv head ?keys)"
    by (simp add: extractContent_def)
  have present: "filter (\<lambda>k. extractDotenv head ?keys k \<noteq> None) ?keys = ?present"
    "filter (\<lambda>k. extractDotenv head ?keys k = None) ?keys = ?absent"
    using extract_present [OF ks(3), of head] by (auto intro!: filter_cong simp del: not_None_eq)
  have rm: "(if ?absent \<noteq> [] then removeContent D DriverDotenv (textOf ls t) ?absent else Inr (textOf ls t)) = Inr (textOf ?ls ?t)"
  proof -
    have rmText: "removeDotenvContent (textOf ls t) ?absent = textOf ?ls ?t"
      using remove_text_all [OF assms(3), of ?absent] ks(3) by simp
    have any: "(if A \<noteq> [] then removeContent D DriverDotenv c A else Inr c) = Inr (removeDotenvContent c A)" for A c
      by (simp add: removeContent_def removeDotenvContent_def)
    show ?thesis unfolding any rmText ..
  qed
  have plain: "plainLines ?ls ?t" using assms(3) by (auto simp: plainLines_def)
  have rs: "(if ?present = [] then Inr (textOf ?ls ?t)
      else restoreContent D DriverDotenv (textOf ?ls ?t) head (extractDotenv head ?keys) ?present) =
    Inr (textOf (map (restoredLine head (set ?present)) ?ls) (restoredLine head (set ?present) ?t))"
  proof -
    have rsText: "restoreDotenvFromHead (textOf ?ls ?t) head ?present =
        textOf (map (restoredLine head (set ?present)) ?ls) (restoredLine head (set ?present) ?t)"
      using ks by (intro restore_text [OF plain]) auto
    have any: "(if P = [] then Inr c else restoreContent D DriverDotenv c head vals P) = Inr (restoreDotenvFromHead c head P)"
      for P c vals by (simp add: restoreContent_def restoreDotenvFromHead_def driver_names)
    show ?thesis unfolding any rsText ..
  qed
  have pl: "projectedLine head (fst ` set (SetOf p)) =
      (\<lambda>l. if \<forall>k \<in> set ?absent. dotenvKey l \<noteq> Some k then Some (restoredLine head (set ?present) l) else None)"
    unfolding ks(1) [symmetric] by (rule ext) (rule projected_split)
  have "CleanPatch D p (textOf ls t) head =
      Inr (textOf (map (restoredLine head (set ?present)) ?ls) (restoredLine head (set ?present) ?t))"
    using assms(1,2) rm rs by (simp add: CleanPatch_def dotenvPatch_def ex present Let_def del: filter.simps set_filter not_None_eq)
  also have "textOf (map (restoredLine head (set ?present)) ?ls) (restoredLine head (set ?present) ?t) =
      projectedText head (fst ` set (SetOf p)) ls t"
    unfolding projectedText_def pl map_filter_split
    by (rule arg_cong2 [OF refl, of _ _ textOf]) (auto simp del: set_filter not_None_eq)
  finally show ?thesis .
qed

text \<open>
  C24: \<open>Clean\<close> on a dotenv file works line by line and is exactly this projection: a line whose key the
  patch sets becomes HEAD's first line for that key, byte for byte, or is dropped with its newline
  when HEAD has no line for it; every other line of the working file, the user's own edits, passes
  unchanged and in place.
\<close>

theorem clean_projects:
  assumes "dotenvPatch p" "TrimSpace head \<noteq> []"
  shows "CleanPatch D p content head =
    Inr (projectedText head (fst ` set (SetOf p)) (linesOf content) (lastLine content))"
  using Clean_dotenv [OF assms plainLines_of, of D content] by (simp add: text_of)

subsection \<open>Reading back and cleaning what was smudged\<close>

text \<open>The lines of the smudged text.\<close>

lemma smudgedText_shape:
  assumes "plainLines ls t" "\<forall>k \<in> set ks. properKey k \<and> NL \<notin> set (val k)"
  defines "app \<equiv> map (\<lambda>k. assignment k (val k)) (filter (\<lambda>k. k \<notin> lineKeys (ls @ [t])) ks)"
    and "f \<equiv> patchedLine (set ks) val"
  shows "linesOf (smudgedText ks val ls t) = map f ls @ (if app = [] \<or> t = [] then [] else [f t]) @ app"
    "lastLine (smudgedText ks val ls t) = (if app = [] then f t else [])"
proof -
  have "NL \<notin> set l" if "l \<in> set (map f ls @ [f t] @ app)" for l
    using that assms patchedLine_NL [of "set ks" val] by (auto simp: plainLines_def app_def f_def properKey_def)
  then have "\<forall>l \<in> set (map f ls @ (if app = [] \<or> t = [] then [] else [f t]) @ app). NL \<notin> set l"
    "NL \<notin> set (if app = [] then f t else [])" by auto
  moreover have "smudgedText ks val ls t =
      textOf (map f ls @ (if app = [] \<or> t = [] then [] else [f t]) @ app) (if app = [] then f t else [])"
    by (simp add: smudgedText_def app_def f_def Let_def)
  ultimately show "linesOf (smudgedText ks val ls t) = map f ls @ (if app = [] \<or> t = [] then [] else [f t]) @ app"
    "lastLine (smudgedText ks val ls t) = (if app = [] then f t else [])"
    by simp_all
qed

text \<open>HEAD has one form of the line for every patched key.\<close>

definition unambiguous :: "string \<Rightarrow> string set \<Rightarrow> bool" where
  "unambiguous head K \<longleftrightarrow>
     (\<forall>k \<in> K. \<forall>l \<in> set (linesOf head @ [lastLine head]). dotenvKey l = Some k \<longrightarrow> headLine head k = Some l)"

lemma projected_patched:
  assumes "unambiguous head K" "l \<in> set (linesOf head @ [lastLine head])" "\<forall>k \<in> K. properKey k"
  shows "projectedLine head K (patchedLine K val l) = Some l"
proof (cases "dotenvKey l")
  case (Some k)
  then show ?thesis using assms patchedLine_key [OF assms(3), of val l]
    by (auto simp: projectedLine_def unambiguous_def patchedLine_def)
qed (simp add: projectedLine_def patchedLine_def)

lemma lineKeys_headLine: "k \<in> lineKeys (linesOf head @ [lastLine head]) \<longleftrightarrow> headLine head k \<noteq> None"
  by (auto simp: lineKeys_def headLine_def find_None_iff simp del: not_None_eq)

lemma map_filter_all: "(\<And>x. x \<in> set xs \<Longrightarrow> g (f x) = Some x) \<Longrightarrow> List.map_filter g (map f xs) = xs"
  by (induction xs) (auto simp: List.map_filter_def)

lemma map_filter_none: "(\<And>x. x \<in> set xs \<Longrightarrow> g x = None) \<Longrightarrow> List.map_filter g xs = []"
  by (induction xs) (auto simp: List.map_filter_def)

lemma map_filter_append: "List.map_filter g (xs @ ys) = List.map_filter g xs @ List.map_filter g ys"
  by (simp add: List.map_filter_def)

lemma projected_smudged:
  assumes "unambiguous head (set ks)" "\<forall>k \<in> set ks. properKey k \<and> NL \<notin> set (val k)"
  defines "w \<equiv> smudgedText ks val (linesOf head) (lastLine head)"
  shows "projectedText head (set ks) (linesOf w) (lastLine w) =
    (if lastLine head \<noteq> [] \<and> (\<exists>k \<in> set ks. headLine head k = None) then head @ [NL] else head)"
proof -
  let ?ls = "linesOf head" and ?t = "lastLine head" and ?f = "patchedLine (set ks) val"
  let ?app = "map (\<lambda>k. assignment k (val k)) (filter (\<lambda>k. k \<notin> lineKeys (?ls @ [?t])) ks)"
  have proper: "\<forall>k \<in> set ks. properKey k" using assms(2) by blast
  have w: "linesOf w = map ?f ?ls @ (if ?app = [] \<or> ?t = [] then [] else [?f ?t]) @ ?app" "lastLine w = (if ?app = [] then ?f ?t else [])"
    unfolding w_def by (rule smudgedText_shape [OF plainLines_of assms(2)])+
  have "projectedLine head (set ks) l = None" if "l \<in> set ?app" for l
    using that proper by (auto simp: projectedLine_def lineKeys_headLine simp del: lineKeys_simps)
  then have app: "List.map_filter (projectedLine head (set ks)) ?app = []" by (rule map_filter_none)
  have line: "projectedLine head (set ks) (?f l) = Some l" if "l \<in> set (?ls @ [?t])" for l
    by (rule projected_patched [OF assms(1) that proper])
  have lines: "List.map_filter (projectedLine head (set ks)) (map ?f ?ls) = ?ls"
    by (rule map_filter_all) (simp add: line)
  have none: "?app = [] \<longleftrightarrow> \<not> (\<exists>k \<in> set ks. headLine head k = None)"
    by (auto simp: filter_empty_conv lineKeys_headLine simp del: lineKeys_simps)
  have nil: "projectedLine head (set ks) [] = Some []" by (simp add: projectedLine_def)
  have "projectedText head (set ks) (linesOf w) (lastLine w) =
      textOf (?ls @ (if ?app = [] \<or> ?t = [] then [] else [?t])) (if ?app = [] then ?t else [])"
    unfolding projectedText_def w map_filter_append lines app using line [of ?t] nil
    by (auto simp: List.map_filter_def simp del: map_is_Nil_conv)
  also have "\<dots> = (if ?t \<noteq> [] \<and> ?app \<noteq> [] then head @ [NL] else head)"
    using text_of [of head] by (auto simp: textOf_append textOf_def simp del: map_is_Nil_conv)
  finally show ?thesis using none by auto
qed

text \<open>
  C23: Cleaning a freshly smudged dotenv file gives HEAD back byte for byte, so that git sees it as
  unmodified: whatever the rendered values are, as long as they and the keys stay on one line and
  HEAD does not give a patched key in two different lines.  The one exception is a HEAD file without
  a final newline when some key had to be appended: the newline that \<open>Apply\<close> put before the
  appended line survives the cleaning.
\<close>

theorem clean_of_smudge:
  assumes "dotenvPatch p" "TrimSpace head \<noteq> []" "unambiguous head (fst ` set (SetOf p))"
    and "renderTemplates getenv (File p) (SetOf p) ctx = Inr rendered" "plainValues rendered"
    and "Smudge D getenv p head ctx = Inr w"
  shows "CleanPatch D p w head =
    Inr (if lastLine head \<noteq> [] \<and> (\<exists>k \<in> fst ` set (SetOf p). headLine head k = None) then head @ [NL] else head)"
proof -
  have ks: "set (setKeys (SetOf p)) = fst ` set (SetOf p)" by (simp add: setKeys_def)
  have w: "w = smudgedText (setKeys (SetOf p)) (valueOf rendered) (linesOf head) (lastLine head)"
    using Smudge_dotenv [OF assms(1,4,5)] assms(6) by simp
  have "\<forall>k \<in> set (setKeys (SetOf p)). properKey k \<and> NL \<notin> set (valueOf rendered k)"
    using assms(1) valueOf_plain [OF assms(5)] by (auto simp: dotenvPatch_def setKeys_def)
  from projected_smudged [OF assms(3) [folded ks] this]
  have "projectedText head (fst ` set (SetOf p)) (linesOf w) (lastLine w) =
      (if lastLine head \<noteq> [] \<and> (\<exists>k \<in> fst ` set (SetOf p). headLine head k = None) then head @ [NL] else head)"
    unfolding w ks .
  then show ?thesis using Clean_dotenv [OF assms(1,2) plainLines_of, of D w] by (simp add: text_of)
qed

text \<open>The lines of a file, and those that belong to none of the keys.\<close>

definition fileLines :: "string \<Rightarrow> string list" where
  "fileLines s = linesOf s @ (if lastLine s = [] then [] else [lastLine s])"

definition unpatched :: "string set \<Rightarrow> string \<Rightarrow> bool" where
  "unpatched K l \<longleftrightarrow> (\<forall>k \<in> K. dotenvKey l \<noteq> Some k)"

lemma unpatched_filter:
  assumes "\<forall>k \<in> K. properKey k"
  shows "filter (unpatched K) (map (patchedLine K val) ls) = filter (unpatched K) ls"
  using assms by (induction ls) (auto simp: unpatched_def patchedLine_def split: option.splits)

lemma patchedLine_fixed:
  assumes "\<forall>k \<in> K. properKey k"
  shows "patchedLine K val (patchedLine K val l) = patchedLine K val l"
  using assms by (auto simp: patchedLine_def split: option.splits)

lemma smudged_line:
  assumes "plainLines ls t" "\<forall>k \<in> set ks. properKey k \<and> NL \<notin> set (val k)"
  defines "w \<equiv> smudgedText ks val ls t"
  assumes "l \<in> set (linesOf w @ [lastLine w])"
  shows "patchedLine (set ks) val l = l"
proof -
  have proper: "\<forall>k \<in> set ks. properKey k" using assms(2) by blast
  have "patchedLine (set ks) val (assignment k (val k)) = assignment k (val k)" if "k \<in> set ks" for k
    using that proper by (simp add: patchedLine_def)
  then show ?thesis
    using assms(4) smudgedText_shape [OF assms(1,2)] patchedLine_fixed [OF proper]
    by (auto simp: w_def split: if_splits)
qed

lemma smudged_keys:
  assumes "plainLines ls t" "\<forall>k \<in> set ks. properKey k \<and> NL \<notin> set (val k)"
  shows "set ks \<subseteq> lineKeys (linesOf (smudgedText ks val ls t) @ [lastLine (smudgedText ks val ls t)])"
proof
  fix k assume k: "k \<in> set ks"
  have proper: "\<forall>k \<in> set ks. properKey k" using assms(2) by blast
  show "k \<in> lineKeys (linesOf (smudgedText ks val ls t) @ [lastLine (smudgedText ks val ls t)])"
  proof (cases "k \<in> lineKeys (ls @ [t])")
    case True
    then show ?thesis using smudgedText_shape [OF assms] proper by (cases "t = []") auto
  next
    case False
    then have "assignment k (val k) \<in> set (linesOf (smudgedText ks val ls t))"
      using smudgedText_shape(1) [OF assms] k by auto
    moreover have "dotenvKey (assignment k (val k)) = Some k" using k proper by simp
    ultimately show ?thesis unfolding lineKeys_def by auto
  qed
qed

lemma smudged_value:
  assumes "plainLines ls t" "\<forall>k \<in> set ks. properKey k \<and> NL \<notin> set (val k)" "k \<in> set ks"
  shows "FindValue (dotenvLine k) (smudgedText ks val ls t) = Some (val k)"
proof -
  let ?w = "smudgedText ks val ls t"
  let ?lines = "linesOf ?w @ [lastLine ?w]"
  have k: "properKey k" using assms by blast
  have "k \<in> lineKeys ?lines" using smudged_keys [OF assms(1,2)] assms(3) by blast
  then obtain l where l: "find (\<lambda>l. dotenvKey l = Some k) ?lines = Some l"
    using find_None_iff [of "\<lambda>l. dotenvKey l = Some k" ?lines] by (auto simp: lineKeys_def)
  then have "l \<in> set ?lines" "dotenvKey l = Some k" by (auto simp: find_Some_iff) (metis nth_mem length_append_singleton set_append Un_iff list.set empty_iff insert_iff)+
  then have "l = assignment k (val k)"
    using smudged_line [OF assms(1,2), of l] assms(3) by (simp add: patchedLine_def)
  then show ?thesis
    using value_dotenv [OF plainLines_of k, of ?w] l by (simp add: text_of dotenvHit_assignment) (simp add: assignment_def)
qed

text \<open>
  C26: What \<open>Smudge\<close> writes into a dotenv file can be read back: afterwards every key of the patch has
  its rendered value, whether its line was there before or not.  The lines of all other keys, comments
  and blank lines are the same and in the same order, and smudging the result again changes nothing.
\<close>

theorem smudge_sets_values:
  assumes "dotenvPatch p" "renderTemplates getenv (File p) (SetOf p) ctx = Inr rendered" "plainValues rendered"
    and "Smudge D getenv p content ctx = Inr out"
  shows "(\<forall>k \<in> fst ` set (SetOf p). FindValue (dotenvLine k) out = Some (valueOf rendered k)) \<and>
    filter (unpatched (fst ` set (SetOf p))) (fileLines out) = filter (unpatched (fst ` set (SetOf p))) (fileLines content) \<and>
    Smudge D getenv p out ctx = Inr out"
proof (intro conjI ballI)
  let ?ks = "setKeys (SetOf p)" and ?val = "valueOf rendered" and ?ls = "linesOf content" and ?t = "lastLine content"
  let ?app = "map (\<lambda>k. assignment k (?val k)) (filter (\<lambda>k. k \<notin> lineKeys (?ls @ [?t])) ?ks)"
  have ks: "set ?ks = fst ` set (SetOf p)" by (simp add: setKeys_def)
  have out: "out = smudgedText ?ks ?val ?ls ?t" using Smudge_dotenv [OF assms(1-3)] assms(4) by simp
  have ok: "\<forall>k \<in> set ?ks. properKey k \<and> NL \<notin> set (?val k)"
    using assms(1) valueOf_plain [OF assms(3)] by (auto simp: dotenvPatch_def setKeys_def)
  then have proper: "\<forall>k \<in> set ?ks. properKey k" by blast
  show "FindValue (dotenvLine k) out = Some (?val k)" if "k \<in> fst ` set (SetOf p)" for k
    using smudged_value [OF plainLines_of ok] that by (simp add: out ks)
  have app: "filter (unpatched (set ?ks)) ?app = []" using proper by (auto simp: filter_empty_conv unpatched_def)
  have same: "filter (unpatched (set ?ks)) (map (patchedLine (set ?ks) ?val) ls) = filter (unpatched (set ?ks)) ls" for ls
    by (rule unpatched_filter [OF proper])
  have shape: "linesOf out = map (patchedLine (set ?ks) ?val) ?ls @ (if ?app = [] \<or> ?t = [] then [] else [patchedLine (set ?ks) ?val ?t]) @ ?app"
    "lastLine out = (if ?app = [] then patchedLine (set ?ks) ?val ?t else [])"
    unfolding out by (rule smudgedText_shape [OF plainLines_of ok])+
  have "fileLines out = map (patchedLine (set ?ks) ?val) (?ls @ (if ?t = [] then [] else [?t])) @ ?app"
    unfolding fileLines_def shape by (cases "?app = []"; cases "?t = []") (simp_all del: map_is_Nil_conv)
  then show "filter (unpatched (fst ` set (SetOf p))) (fileLines out) = filter (unpatched (fst ` set (SetOf p))) (fileLines content)"
    using app same [of "?ls @ (if ?t = [] then [] else [?t])"] unfolding ks [symmetric]
    by (simp add: fileLines_def del: map_append)
  have "smudgedText ?ks ?val (linesOf out) (lastLine out) = textOf (linesOf out) (lastLine out)"
  proof -
    have "filter (\<lambda>k. k \<notin> lineKeys (linesOf out @ [lastLine out])) ?ks = []"
      using smudged_keys [OF plainLines_of ok] unfolding out filter_empty_conv by blast
    moreover have "patchedLine (set ?ks) ?val l = l" if "l \<in> set (linesOf out @ [lastLine out])" for l
      using smudged_line [OF plainLines_of ok] that unfolding out by blast
    then have "map (patchedLine (set ?ks) ?val) (linesOf out) = linesOf out" "patchedLine (set ?ks) ?val (lastLine out) = lastLine out"
      by (auto intro: map_idI)
    ultimately show ?thesis unfolding smudgedText_def Let_def by simp
  qed
  then show "Smudge D getenv p out ctx = Inr out" using Smudge_dotenv [OF assms(1-3)] by (simp add: text_of)
qed

subsection \<open>The file on disk\<close>

text \<open>No file that was there differs.\<close>

definition keptFiles :: "fs \<Rightarrow> fs \<Rightarrow> bool" where
  "keptFiles s s' \<longleftrightarrow> (\<forall>q. fileAt s q \<noteq> None \<longrightarrow> fileAt s' q = fileAt s q)"

lemma keptFiles_same: "sameFiles s s' \<Longrightarrow> keptFiles s s'"
  by (simp add: keptFiles_def sameFiles_def)

lemma ReadFile_run:
  assumes "ReadFile p s = (r, s')"
  shows "sameFiles s s' \<and> (case r of Inr b \<Rightarrow> fileAt s p = Some b | Inl e \<Rightarrow> IsNotExist e \<longrightarrow> fileAt s p = None)"
proof -
  obtain o1 s1 where o1: "Open p s = (o1, s1)" by force
  then have s1: "sameFiles s s1" and val: "case o1 of Inr c \<Rightarrow> c = None \<or> c = fileAt s p | Inl e \<Rightarrow> IsNotExist e \<longrightarrow> fileAt s p = None"
    unfolding Open_def by (auto elim!: syscall_cases simp: sameFiles_def split: option.splits if_splits)
  show ?thesis
  proof (cases o1)
    case (Inl e)
    then show ?thesis using assms o1 s1 val by (auto simp: ReadFile_def bindA_def)
  next
    case (Inr c)
    then have "syscall (\<lambda>s. case c of Some bytes \<Rightarrow> (Inr bytes, s) | None \<Rightarrow> (Inl (NewError ''is a directory''), s)) s1 = (r, s')"
      using assms o1 by (simp add: ReadFile_def bindA_def)
    then show ?thesis using s1 val Inr
      by (cases rule: syscall_cases)
        (auto simp: IsNotExist_def ErrNotExist_def intro: sameFiles_trans split: option.splits)
  qed
qed

definition patchPost :: "links \<Rightarrow> string \<Rightarrow> (string \<Rightarrow> go_error + (string \<times> bool)) \<Rightarrow> fs \<Rightarrow> go_error + Outcome \<Rightarrow> fs \<Rightarrow> bool" where
  "patchPost L path f s r s' \<longleftrightarrow>
     (case r of
        Inl e \<Rightarrow> keptFiles s s'
      | Inr Missing \<Rightarrow> sameFiles s s' \<and> fileAt s (follow L path) = None
      | Inr Unchanged \<Rightarrow> sameFiles s s' \<and> (\<exists>c out. fileAt s (follow L path) = Some c \<and> f c = Inr (out, False))
      | Inr Updated \<Rightarrow> (\<exists>c out. fileAt s (follow L path) = Some c \<and> f c = Inr (out, True)
          \<and> fileAt s' = (fileAt s)(follow L path \<mapsto> out)))"

lemma write_post:
  assumes "sameFiles s s1" "fileAt s (follow L path) = Some c" "f c = Inr (out, True)"
    and "bindA (WriteAtomic L path out) (\<lambda>_. returnA Updated) s1 = (r, s')"
  shows "patchPost L path f s r s'"
proof -
  obtain x s2 where x: "WriteAtomic L path out s1 = (x, s2)" by force
  have t: "writeTarget L path s1 = follow L path" using assms(1,2) by (simp add: writeTarget_def exists_def sameFiles_def)
  show ?thesis
  proof (cases x)
    case (Inl e)
    then obtain tmp where "fileAt s1 tmp = None" "onlyAt tmp s1 s2" using write_atomic_run [OF x] by auto
    then have "keptFiles s s2" using assms(1) unfolding keptFiles_def onlyAt_def sameFiles_def by metis
    then show ?thesis using assms(4) x Inl by (auto simp: bindA_def patchPost_def)
  next
    case (Inr u)
    then have "fileAt s2 = (fileAt s)(follow L path \<mapsto> out)" using write_atomic_run [OF x] t assms(1) by (simp add: sameFiles_def)
    then show ?thesis using assms x Inr by (auto simp: bindA_def patchPost_def returnA_def)
  qed
qed

lemma content_post:
  assumes "sameFiles s s1" "fileAt s (follow L path) = Some c"
    and "(case f c of Inl e \<Rightarrow> raiseA e
         | Inr (content, changed) \<Rightarrow> if \<not> changed then returnA Unchanged
             else bindA (WriteAtomic L path content) (\<lambda>_. returnA Updated)) s1 = (r, s')"
  shows "patchPost L path f s r s'"
proof (cases "f c")
  case (Inl e)
  then show ?thesis using assms by (auto simp: raiseA_def patchPost_def keptFiles_same)
next
  case (Inr oc)
  obtain out changed where oc: "oc = (out, changed)" by force
  show ?thesis
  proof (cases changed)
    case True
    then show ?thesis using assms Inr oc write_post [OF assms(1,2)] by simp
  qed (use assms Inr oc in \<open>auto simp: returnA_def patchPost_def\<close>)
qed

lemma patchFileWith_run:
  assumes "patchFileWith L path f s = (r, s')"
  shows "patchPost L path f s r s'"
proof -
  obtain x s1 where x: "ReadFile (follow L path) s = (x, s1)" by force
  note rd = ReadFile_run [OF x]
  show ?thesis
  proof (cases x)
    case (Inl e)
    then show ?thesis using assms x rd
      by (auto simp: patchFileWith_def bindA_def tryA_def returnA_def raiseA_def patchPost_def keptFiles_same split: if_splits)
  next
    case (Inr c)
    then show ?thesis using assms x rd by (intro content_post) (auto simp: patchFileWith_def bindA_def tryA_def)
  qed
qed

lemma PatchINIFile_run:
  assumes "PatchINIFile D L path pairs s = (r, s')"
  shows "patchPost L path (\<lambda>c. wrapDriver ''ini'' path (setINIInPlace D c pairs)) s r s'"
proof -
  obtain st s1 where st: "Stat (follow L path) s = (st, s1)" by force
  then have s1: "sameFiles s s1" and ne: "\<And>e. st = Inl e \<Longrightarrow> IsNotExist e \<Longrightarrow> fileAt s (follow L path) = None"
    unfolding Stat_def by (auto elim!: syscall_cases simp: sameFiles_def split: option.splits if_splits)
  obtain x s2 where x: "ReadFile (follow L path) s1 = (x, s2)" by force
  note rd = ReadFile_run [OF x]
  have s2: "sameFiles s s2" using s1 rd by (auto intro: sameFiles_trans)
  show ?thesis
  proof (cases st)
    case (Inl e)
    then show ?thesis using assms st s1 ne
      by (auto simp: PatchINIFile_def bindA_def tryA_def returnA_def raiseA_def patchPost_def keptFiles_same split: if_splits)
  next
    case (Inr u)
    show ?thesis
    proof (cases x)
      case (Inl e)
      then show ?thesis using assms st Inr x s2
        by (auto simp: PatchINIFile_def bindA_def tryA_def wrapA_def patchPost_def keptFiles_same)
    next
      case (Inr c)
      then show ?thesis using assms st \<open>st = Inr u\<close> x rd s2 s1
        by (intro content_post [OF s2]) (auto simp: PatchINIFile_def bindA_def tryA_def wrapA_def sameFiles_def)
    qed
  qed
qed

lemma EvalSymlinks_same: "EvalSymlinks L p s = (r, s') \<Longrightarrow> sameFiles s s'"
  unfolding EvalSymlinks_def by (erule syscall_cases) (auto split: if_splits)

lemma sameFiles_keeps: "reflp sameFiles" "transp sameFiles"
  by (auto simp: reflp_def transp_def intro: sameFiles_trans)

lemma insideWorktree_same: "insideWorktree L wt target s = (r, s') \<Longrightarrow> sameFiles s s'"
proof (erule keepsD [rotated])
  have "keeps sameFiles (EvalSymlinks L p)" for p by (rule keepsI) (rule EvalSymlinks_same)
  then show "keeps sameFiles (insideWorktree L wt target)"
    unfolding insideWorktree_def by (auto intro!: keeps_intro sameFiles_keeps)
qed

lemma fold_pairsFrom: "fold (\<lambda>(k, v) c. g c k v) (pairsFrom m) content = fold (\<lambda>k c. g c k (valueOf m k)) (sortedKeys m) content"
  by (simp add: pairsFrom_def fold_map o_def)

text \<open>What every driver but the YAML one computes from the file is what \<open>Smudge\<close> gives.\<close>

definition smudges :: "docDrivers \<Rightarrow> string \<Rightarrow> (string \<times> string) list \<Rightarrow> (string \<Rightarrow> go_error + (string \<times> bool)) \<Rightarrow> bool" where
  "smudges D driver rendered f \<longleftrightarrow>
     (\<forall>c out changed. f c = Inr (out, changed) \<longrightarrow> applyContent D driver c rendered = Inr out \<and> (changed \<longleftrightarrow> out \<noteq> c))"

lemma setTOMLLoop_changed: "setTOMLLoop D content pairs out ks = Inr (r, changed) \<Longrightarrow> changed \<longleftrightarrow> r \<noteq> content"
proof (induction ks arbitrary: out)
  case (Cons k ks)
  then show ?case
    by (cases "docApply D DriverTOML content pairs") (auto split: prod.splits option.splits)
qed auto

lemma setINILoop_changed: "setINILoop D content pairs out ks = Inr (r, changed) \<Longrightarrow> changed \<longleftrightarrow> r \<noteq> content"
proof (induction ks arbitrary: out)
  case (Cons k ks)
  then show ?case
    by (cases "docApply D DriverINI content pairs") (auto split: prod.splits option.splits sum.splits)
qed auto

lemma smudges_drivers:
  assumes "rendered \<noteq> []"
  shows "smudges D DriverDotenv rendered (\<lambda>c. let content = fold (\<lambda>(k, v) c. patchEnvOne c k v) (pairsFrom rendered) c in Inr (content, content \<noteq> c))"
    "smudges D DriverPhpunit rendered (\<lambda>c. let content = fold (\<lambda>(k, v) c. patchPhpunitOne c k v) (pairsFrom rendered) c in Inr (content, content \<noteq> c))"
    "smudges D DriverTOML rendered (\<lambda>c. wrapDriver ''toml'' path (setTOMLInPlace D c rendered))"
    "smudges D DriverINI rendered (\<lambda>c. wrapDriver ''ini'' path (setINIInPlace D c rendered))"
    "smudges D DriverJSON rendered (\<lambda>c. wrapDriver ''json'' path (map_sum id (\<lambda>out. (out, out \<noteq> c)) (docApply D DriverJSON c rendered)))"
proof -
  note simps = smudges_def applyContent_def assms
  show "smudges D DriverDotenv rendered (\<lambda>c. let content = fold (\<lambda>(k, v) c. patchEnvOne c k v) (pairsFrom rendered) c in Inr (content, content \<noteq> c))"
    by (auto simp: simps fold_pairsFrom applyDotenvContent_def Let_def)
  show "smudges D DriverPhpunit rendered (\<lambda>c. let content = fold (\<lambda>(k, v) c. patchPhpunitOne c k v) (pairsFrom rendered) c in Inr (content, content \<noteq> c))"
    by (auto simp: simps fold_pairsFrom applyPhpunitContent_def Let_def driver_names)
  have w: "wrapDriver d path r = Inr x \<longleftrightarrow> r = Inr x" for d and r :: "go_error + string \<times> bool" and x
    by (cases r) (simp_all add: wrapDriver_def)
  show "smudges D DriverTOML rendered (\<lambda>c. wrapDriver ''toml'' path (setTOMLInPlace D c rendered))"
    by (auto simp: simps w setTOMLInPlace_def driver_names dest: setTOMLLoop_changed)
  show "smudges D DriverINI rendered (\<lambda>c. wrapDriver ''ini'' path (setINIInPlace D c rendered))"
    by (auto simp: simps w setINIInPlace_def driver_names dest: setINILoop_changed)
  have "map_sum id (\<lambda>out. (out, out \<noteq> c)) r = Inr (x, b) \<longleftrightarrow> r = Inr x \<and> b = (x \<noteq> c)" for c x b and r :: "go_error + string"
    by (cases r) auto
  then show "smudges D DriverJSON rendered (\<lambda>c. wrapDriver ''json'' path (map_sum id (\<lambda>out. (out, out \<noteq> c)) (docApply D DriverJSON c rendered)))"
    by (auto simp: simps w driver_names)
qed

definition applied :: "docDrivers \<Rightarrow> (string \<Rightarrow> string) \<Rightarrow> Patch \<Rightarrow> Context \<Rightarrow> string \<Rightarrow> fs \<Rightarrow> Outcome \<Rightarrow> fs \<Rightarrow> bool" where
  "applied D getenv p ctx target s oc s' \<longleftrightarrow>
     (case oc of
        Missing \<Rightarrow> sameFiles s s' \<and> fileAt s target = None
      | Unchanged \<Rightarrow> sameFiles s s' \<and> (\<exists>c. fileAt s target = Some c \<and> Smudge D getenv p c ctx = Inr c)
      | Updated \<Rightarrow> \<exists>c out. fileAt s target = Some c \<and> Smudge D getenv p c ctx = Inr out \<and> fileAt s' = (fileAt s)(target \<mapsto> out))"

lemma applied_post:
  assumes "patchPost L path f s1 (Inr oc) s'" "sameFiles s s1" "smudges D driver rendered f"
    and "patchDriver p = Inr driver" "renderTemplates getenv (File p) (SetOf p) ctx = Inr rendered"
  shows "applied D getenv p ctx (follow L path) s oc s'"
proof -
  have sm: "Smudge D getenv p c ctx = applyContent D driver c rendered" for c using assms(4,5) by (simp add: Smudge_def)
  show ?thesis using assms(1-3) unfolding applied_def patchPost_def sm smudges_def sameFiles_def
    by (cases oc) fastforce+
qed

lemma result_run:
  assumes "bindA (wrapA w m) (\<lambda>oc. returnA \<lparr>ar_file = a, ar_outcome = oc, ar_driver = b\<rparr>) s = (r, s')"
  shows "\<exists>x. m s = (x, s') \<and> (case x of Inl e \<Rightarrow> isl r | Inr oc \<Rightarrow> r = Inr \<lparr>ar_file = a, ar_outcome = oc, ar_driver = b\<rparr>)"
  using assms by (cases "m s"; cases "fst (m s)") (auto simp: bindA_def wrapA_def returnA_def)

text \<open>The dispatch on the driver runs one file patcher, which satisfies its postcondition.\<close>

definition dispatch :: "docDrivers \<Rightarrow> links \<Rightarrow> string \<Rightarrow> string \<Rightarrow> (string \<times> string) list \<Rightarrow> ((fs, Outcome) action \<Rightarrow> (fs, 'a) action) \<Rightarrow> go_error \<Rightarrow> (fs, 'a) action" where
  "dispatch D L d path rendered result err =
     (if d = DriverDotenv then result (PatchEnvFile L path (pairsFrom rendered))
      else if d = DriverPhpunit \<or> d = DriverPhpunitEnv then result (PatchPhpunitFile L path (pairsFrom rendered))
      else if d = DriverYAML then result (PatchYAMLFile D L path rendered)
      else if d = DriverJSON then result (PatchJSONFile D L path rendered)
      else if d = DriverTOML then result (PatchTOMLFile D L path rendered)
      else if d = DriverINI then result (PatchINIFile D L path rendered)
      else raiseA err)"

lemma dispatch_run:
  assumes "d \<noteq> DriverYAML" "rendered \<noteq> []"
  shows "dispatch D L d path rendered result err = raiseA err \<or>
    (\<exists>m f. dispatch D L d path rendered result err = result m \<and> (\<forall>s y s'. m s = (y, s') \<longrightarrow> patchPost L path f s y s')
       \<and> smudges D (if d = DriverPhpunitEnv then DriverPhpunit else d) rendered f)"
proof -
  have whole: "\<forall>s y s'. patchFileWith L path f s = (y, s') \<longrightarrow> patchPost L path f s y s'" for f using patchFileWith_run by blast
  have ini: "\<forall>s y s'. PatchINIFile D L path rendered s = (y, s') \<longrightarrow>
      patchPost L path (\<lambda>c. wrapDriver ''ini'' path (setINIInPlace D c rendered)) s y s'" using PatchINIFile_run by blast
  note sm = smudges_drivers [OF assms(2), of D]
  have pick: ?thesis
    if "dispatch D L d path rendered result err = result m" "\<forall>s y s'. m s = (y, s') \<longrightarrow> patchPost L path f s y s'"
      "driver = (if d = DriverPhpunitEnv then DriverPhpunit else d)" "smudges D driver rendered f" for m f driver
    using that by blast
  have files: "dispatch D L DriverDotenv path rendered result err = result (PatchEnvFile L path (pairsFrom rendered))"
    "dispatch D L DriverPhpunit path rendered result err = result (PatchPhpunitFile L path (pairsFrom rendered))"
    "dispatch D L DriverPhpunitEnv path rendered result err = result (PatchPhpunitFile L path (pairsFrom rendered))"
    "dispatch D L DriverJSON path rendered result err = result (PatchJSONFile D L path rendered)"
    "dispatch D L DriverTOML path rendered result err = result (PatchTOMLFile D L path rendered)"
    "dispatch D L DriverINI path rendered result err = result (PatchINIFile D L path rendered)"
    by (simp_all add: dispatch_def driver_names)
  note files = files [unfolded PatchEnvFile_def PatchPhpunitFile_def PatchJSONFile_def PatchTOMLFile_def]
  consider "d = DriverDotenv" | "d = DriverPhpunit" | "d = DriverPhpunitEnv" | "d = DriverJSON" | "d = DriverTOML" | "d = DriverINI"
    | "d \<notin> {DriverDotenv, DriverPhpunit, DriverPhpunitEnv, DriverYAML, DriverJSON, DriverTOML, DriverINI}"
    using assms(1) by blast
  then show ?thesis
  proof cases
    case 1 show ?thesis by (rule pick [OF files(1) [folded 1] whole _ sm(1)]) (simp add: 1 driver_names)
  next
    case 2 show ?thesis by (rule pick [OF files(2) [folded 2] whole _ sm(2)]) (simp add: 2 driver_names)
  next
    case 3 show ?thesis by (rule pick [OF files(3) [folded 3] whole _ sm(2)]) (simp add: 3)
  next
    case 4 show ?thesis by (rule pick [OF files(4) [folded 4] whole _ sm(5) [folded 4]]) (simp_all add: 4 driver_names)
  next
    case 5 show ?thesis by (rule pick [OF files(5) [folded 5] whole _ sm(3)]) (simp add: 5 driver_names)
  next
    case 6 show ?thesis by (rule pick [OF files(6) [folded 6] ini _ sm(4)]) (simp add: 6 driver_names)
  qed (simp add: dispatch_def)
qed

lemma apply_driver_run:
  assumes "Apply D getenv L p wt ctx s = (r, s')" "patchDriver p = Inr driver" "driver \<noteq> DriverYAML"
  shows "keptFiles s s' \<and> isl r \<or>
    (\<exists>f x s1 rendered. sameFiles s s1 \<and> patchPost L (Join2 wt (File p)) f s1 x s'
       \<and> smudges D driver rendered f \<and> renderTemplates getenv (File p) (SetOf p) ctx = Inr rendered
       \<and> (case x of Inl e \<Rightarrow> isl r | Inr oc \<Rightarrow> \<exists>res. r = Inr res \<and> ar_outcome res = oc))"
proof -
  let ?d = "lower_ascii (TrimSpace (Format p))" and ?abs = "Join2 wt (File p)"
  define d where "d = (if ?d = [] then detectFormat (File p) else ?d)"
  have dr: "d \<noteq> []" "driver = (if d = DriverPhpunitEnv then DriverPhpunit else d)"
    using assms(2) by (auto simp: patchDriver_def Let_def d_def split: if_splits)
  show ?thesis
  proof (cases "renderTemplates getenv (File p) (SetOf p) ctx")
    case (Inl e)
    then have "s' = s" "isl r" using assms(1) dr(1)
      by (auto simp: Apply_def Let_def d_def [symmetric] raiseA_def split: if_splits)
    then show ?thesis by (simp add: keptFiles_same)
  next
    case (Inr rendered)
    obtain x s1 where x: "insideWorktree L wt ?abs s = (x, s1)" by force
    have s1: "sameFiles s s1" by (rule insideWorktree_same [OF x])
    define result :: "(fs, Outcome) action \<Rightarrow> (fs, ApplyResult) action" where "result = (\<lambda>m. bindA (wrapA (\<lambda>e. Wrapf (''patch '' @ File p @ '': '') e []) m)
       (\<lambda>oc. returnA \<lparr>ar_file = File p, ar_outcome = oc, ar_driver = d\<rparr>))"
    have concl: ?thesis if "result m s1 = (r, s')" "\<And>y s2. m s1 = (y, s2) \<Longrightarrow> patchPost L ?abs f s1 y s2" "smudges D driver rendered f" for m f
    proof -
      from that(1) obtain y where y: "m s1 = (y, s')"
        "case y of Inl e \<Rightarrow> isl r | Inr oc \<Rightarrow> r = Inr \<lparr>ar_file = File p, ar_outcome = oc, ar_driver = d\<rparr>"
        unfolding result_def by (blast dest: result_run)
      then have "case y of Inl e \<Rightarrow> isl r | Inr oc \<Rightarrow> \<exists>res. r = Inr res \<and> ar_outcome res = oc" by (cases y) auto
      then show ?thesis using s1 y(1) that(2,3) Inr by blast
    qed
    show ?thesis
    proof (cases "SetOf p = [] \<or> isl x")
      case True
      then have "sameFiles s s'" "isl r" using assms(1) dr(1) Inr x s1
        by (cases x; auto simp: Apply_def Let_def d_def [symmetric] raiseA_def bindA_def wrapA_def split: if_splits)+
      then show ?thesis by (simp add: keptFiles_same)
    next
      case False
      then have ne: "rendered \<noteq> []" using renderTemplates_keys [OF Inr] by auto
      have run: "dispatch D L d ?abs rendered result (NewError (''patch '' @ File p @ '': unknown format '' @ quoted d @ '' (want dotenv|phpunit|yaml|json|toml|ini)'')) s1 = (r, s')"
        (is "dispatch _ _ _ _ _ _ ?err _ = _")
      proof -
        obtain u where u: "x = Inr u" using False by (cases x) auto
        have wrapped: "bindA (wrapA w (insideWorktree L wt ?abs)) g s = g u s1" for w and g :: "unit \<Rightarrow> (fs, ApplyResult) action"
          using x u by (simp add: bindA_def wrapA_def)
        have "SetOf p \<noteq> []" using False by simp
        with dr(1) show ?thesis
          using assms(1) by (simp only: Apply_def Let_def d_def [symmetric] Inr sum.case if_False wrapped result_def dispatch_def)
      qed
      have "d \<noteq> DriverYAML" using assms(3) dr(2) by (auto simp: driver_names)
      from dispatch_run [OF this ne, of D L ?abs result ?err] show ?thesis
      proof
        assume "dispatch D L d ?abs rendered result ?err = raiseA ?err"
        then have "s' = s1" "isl r" using run by (auto simp: raiseA_def)
        then show ?thesis using s1 by (simp add: keptFiles_same)
      next
        assume "\<exists>m f. dispatch D L d ?abs rendered result ?err = result m \<and> (\<forall>s y s'. m s = (y, s') \<longrightarrow> patchPost L ?abs f s y s')
          \<and> smudges D (if d = DriverPhpunitEnv then DriverPhpunit else d) rendered f"
        then obtain m f where m: "dispatch D L d ?abs rendered result ?err = result m"
            "\<forall>s y s'. m s = (y, s') \<longrightarrow> patchPost L ?abs f s y s'" "smudges D driver rendered f"
          unfolding dr(2) [symmetric] by blast
        show ?thesis by (rule concl [of m f]) (use run m in auto)
      qed
    qed
  qed
qed

text \<open>
  C25: \<open>Apply\<close> leaves on disk what \<open>Smudge\<close> computes, for every driver but the YAML one (whose file
  patcher and filter go through different code): when it reports \<open>Updated\<close> the file the path leads to
  holds the smudged content and no other file differs; \<open>Unchanged\<close> means that smudging the content
  gives the content itself, \<open>Missing\<close> that there is no file, and in both cases nothing is written; when
  it fails, at whichever call, no file that was there differs.
\<close>

theorem apply_is_smudge:
  assumes "patchDriver p = Inr driver" "driver \<noteq> DriverYAML" "Apply D getenv L p wt ctx s = (r, s')"
  shows "case r of
           Inl e \<Rightarrow> keptFiles s s'
         | Inr res \<Rightarrow> applied D getenv p ctx (follow L (Join2 wt (File p))) s (ar_outcome res) s'"
  using apply_driver_run [OF assms(3,1,2)]
proof
  assume "keptFiles s s' \<and> isl r"
  then show ?thesis by (cases r) auto
next
  assume "\<exists>f x s1 rendered. sameFiles s s1 \<and> patchPost L (Join2 wt (File p)) f s1 x s'
       \<and> smudges D driver rendered f \<and> renderTemplates getenv (File p) (SetOf p) ctx = Inr rendered
       \<and> (case x of Inl e \<Rightarrow> isl r | Inr oc \<Rightarrow> \<exists>res. r = Inr res \<and> ar_outcome res = oc)"
  then obtain f x s1 rendered where run: "sameFiles s s1" "patchPost L (Join2 wt (File p)) f s1 x s'"
      "smudges D driver rendered f" "renderTemplates getenv (File p) (SetOf p) ctx = Inr rendered"
      and x: "case x of Inl e \<Rightarrow> isl r | Inr oc \<Rightarrow> \<exists>res. r = Inr res \<and> ar_outcome res = oc" by blast
  show ?thesis
  proof (cases x)
    case (Inl e)
    then have "keptFiles s s'" using run(1,2) by (simp add: patchPost_def keptFiles_def sameFiles_def)
    then show ?thesis using x Inl by (cases r) auto
  next
    case (Inr oc)
    then show ?thesis using x applied_post [OF _ run(1,3) assms(1) run(4)] run(2) by auto
  qed
qed

subsection \<open>The filter as git runs it\<close>

text \<open>The first entry whose cleaned path is the cleaned path given is the one found.\<close>

lemma findPatchEntry_first:
  assumes "\<forall>q \<in> set pre. Clean (File q) \<noteq> Clean relPath" "Clean (File p) = Clean relPath"
  shows "findPatchEntry (pre @ p # post) relPath = Some p"
  using assms by (induction pre) (auto simp: findPatchEntry_def)

lemma runPatchFilter_found:
  assumes "fe_cwd F = Inr cwd" "wt = fe_canonical F cwd" "fe_root F wt = Inr root" "fe_patches F root wt = Inr patches"
    and "findPatchEntry patches relPath = Some p" "fe_context F root wt = Inr ctx"
  shows "runPatchFilter F mode relPath body =
     (if fe_canonical F root = fe_canonical F wt then body
      else if mode = ''smudge'' then orBody body (Smudge (fe_docs F) (fe_getenv F) p body ctx)
      else if mode = ''clean''
      then orBody body (CleanPatch (fe_docs F) p body (orBody [] (gitString (fe_git F) wt [''show'', ''HEAD:'' @ relPath])))
      else body)"
  using assms by (simp add: runPatchFilter_def isMainWorktreePath_def)

lemma runPatchFilter_unlisted:
  assumes "fe_cwd F = Inr cwd" "wt = fe_canonical F cwd" "fe_root F wt = Inr root" "fe_patches F root wt = Inr patches"
    and "\<forall>q \<in> set patches. Clean (File q) \<noteq> Clean rel"
  shows "runPatchFilter F mode rel body = body"
proof -
  have "findPatchEntry patches rel = None" using assms(5) by (auto simp: findPatchEntry_def find_None_iff)
  then show ?thesis using assms(1-4) by (simp add: runPatchFilter_def)
qed

lemma projected_cong:
  assumes "\<forall>k \<in> K. headLine head' k = headLine head k"
  shows "projectedText head' K ls t = projectedText head K ls t"
proof -
  have "projectedLine head' K = projectedLine head K"
    using assms by (auto simp: projectedLine_def fun_eq_iff split: option.splits)
  then show ?thesis by (simp add: projectedText_def)
qed

text \<open>
  C22: \<open>treeman patch-filter\<close> as git runs it on a dotenv file \<open>relPath\<close> whose first matching entry among the
  configured patches is \<open>p\<close>.  In a linked worktree, smudging the committed content writes the
  rendered value of each key of \<open>p\<close>, and cleaning what was smudged gives the committed bytes back, so that
  the worktree shows no modification.  In the main worktree both directions hand back their input, and so
  they do everywhere for a path no entry names.

  The conditions: \<open>p\<close> is a dotenv patch, its values render and have no newline, the committed file ends in a newline
  and has no patched key on two different lines, and the template context is found.  The filter reads
  HEAD's content through a helper that trims white space at both ends, so the trimmed text must not be
  empty and trimming must take nothing from the lines of the patched keys.
\<close>

theorem filter_roundtrip:
  assumes "fe_cwd F = Inr cwd" "wt = fe_canonical F cwd" "fe_root F wt = Inr root"
    and "fe_patches F root wt = Inr (pre @ p # post)" "\<forall>q \<in> set pre. Clean (File q) \<noteq> Clean relPath" "Clean (File p) = Clean relPath"
    and "fe_context F root wt = Inr ctx" "fe_git F wt [''show'', ''HEAD:'' @ relPath] = Inr head"
    and "dotenvPatch p" "unambiguous head (fst ` set (SetOf p))" "lastLine head = []"
    and "renderTemplates (fe_getenv F) (File p) (SetOf p) ctx = Inr rendered" "plainValues rendered"
    and "TrimSpace (TrimSpace head) \<noteq> []" "\<forall>k \<in> fst ` set (SetOf p). headLine (TrimSpace head) k = headLine head k"
  shows "(if fe_canonical F root = fe_canonical F wt
      then \<forall>mode body. runPatchFilter F mode relPath body = body
      else (\<forall>k \<in> fst ` set (SetOf p). FindValue (dotenvLine k) (runPatchFilter F ''smudge'' relPath head) = Some (valueOf rendered k)) \<and>
           runPatchFilter F ''clean'' relPath (runPatchFilter F ''smudge'' relPath head) = head) \<and>
    (\<forall>mode rel body. (\<forall>q \<in> set (pre @ p # post). Clean (File q) \<noteq> Clean rel) \<longrightarrow> runPatchFilter F mode rel body = body)"
proof (intro conjI allI impI)
  fix mode rel body
  assume "\<forall>q \<in> set (pre @ p # post). Clean (File q) \<noteq> Clean rel"
  then show "runPatchFilter F mode rel body = body" by (rule runPatchFilter_unlisted [OF assms(1-4)])
next
  let ?ks = "setKeys (SetOf p)"
  note found = runPatchFilter_found [OF assms(1-4) findPatchEntry_first [OF assms(5,6)] assms(7)]
  have ks: "set ?ks = fst ` set (SetOf p)" by (simp add: setKeys_def)
  define w where "w = smudgedText ?ks (valueOf rendered) (linesOf head) (lastLine head)"
  have ok: "\<forall>k \<in> set ?ks. properKey k \<and> NL \<notin> set (valueOf rendered k)"
    using assms(9) valueOf_plain [OF assms(13)] by (auto simp: dotenvPatch_def setKeys_def)
  have sm: "runPatchFilter F ''smudge'' relPath head = w" if "fe_canonical F root \<noteq> fe_canonical F wt"
    using that Smudge_dotenv [OF assms(9,12,13)] by (simp add: found orBody_def w_def)
  have "projectedText head (fst ` set (SetOf p)) (linesOf w) (lastLine w) = head"
    using projected_smudged [OF assms(10) [folded ks] ok] assms(11) unfolding w_def ks by simp
  then have "projectedText (TrimSpace head) (fst ` set (SetOf p)) (linesOf w) (lastLine w) = head"
    using projected_cong [OF assms(15)] by simp
  then have "CleanPatch (fe_docs F) p w (TrimSpace head) = Inr head"
    using Clean_dotenv [OF assms(9,14) plainLines_of, of "fe_docs F" w] by (simp add: text_of)
  then have cl: "runPatchFilter F ''clean'' relPath w = head" if "fe_canonical F root \<noteq> fe_canonical F wt"
    using that assms(8) by (simp add: found gitString_def orBody_def)
  have "FindValue (dotenvLine k) w = Some (valueOf rendered k)" if "k \<in> fst ` set (SetOf p)" for k
    using smudged_value [OF plainLines_of ok] that by (simp add: w_def ks)
  then show "if fe_canonical F root = fe_canonical F wt
      then \<forall>mode body. runPatchFilter F mode relPath body = body
      else (\<forall>k \<in> fst ` set (SetOf p). FindValue (dotenvLine k) (runPatchFilter F ''smudge'' relPath head) = Some (valueOf rendered k)) \<and>
           runPatchFilter F ''clean'' relPath (runPatchFilter F ''smudge'' relPath head) = head"
    using sm cl by (simp add: found [of _ _])
qed

subsection \<open>Examples\<close>

definition noDocs :: docDrivers where
  "noDocs = \<lparr>docApply = (\<lambda>d c ps. Inl (unknownDriver d)), docExtract = (\<lambda>d c ks. Inl (unknownDriver d)),
     docRemove = (\<lambda>d c ks. Inl (unknownDriver d)), docRestore = (\<lambda>d c h vs ks. Inl (unknownDriver d)),
     docPatch = (\<lambda>d c ps. Inl (unknownDriver d))\<rparr>"

definition noContext :: Context where
  "noContext = \<lparr>cSlug = ''s1'', cSlugDash = ''s1'', cSlugRedisQueue = ''0'', cSlugRedisCache = ''1'', cN = 0, HasN = False,
     cTargetDB = [], HasTargetDB = False, cPorts = Map.empty, cDBs = []\<rparr>"

definition envPatch :: Patch where
  "envPatch = \<lparr>File = ''.env'', Format = [], SetOf = [(''K'', ''v''), (''Z'', ''w'')]\<rparr>"

definition envHead :: string where
  "envHead = ''A=1'' @ [NL] @ ''K = h'' @ [NL]"

lemma envPatch_ok: "dotenvPatch envPatch"
  unfolding dotenvPatch_def envPatch_def by (simp add: properKey_def NL_def blank_def) code_simp

lemma envHead_lines: "linesOf envHead = [''A=1'', ''K = h'']" "lastLine envHead = []" "TrimSpace envHead \<noteq> []"
  by code_simp+

lemma envPatch_rendered:
  "renderTemplates (\<lambda>_. []) (File envPatch) (SetOf envPatch) noContext = Inr [(''K'', ''v''), (''Z'', ''w'')]"
  by code_simp

theorem clean_projects_witness:
  "CleanPatch noDocs envPatch (''A=2'' @ [NL] @ ''K=v'' @ [NL] @ ''Z=w'' @ [NL]) envHead =
     Inr (projectedText envHead {''K'', ''Z''} [''A=2'', ''K=v'', ''Z=w''] [])"
proof -
  let ?c = "''A=2'' @ [NL] @ ''K=v'' @ [NL] @ ''Z=w'' @ [NL]"
  have "linesOf ?c = [''A=2'', ''K=v'', ''Z=w'']" "lastLine ?c = []" by code_simp+
  then show ?thesis using clean_projects [OF envPatch_ok envHead_lines(3), of noDocs ?c] by (simp add: envPatch_def)
qed

lemma envHead_smudged:
  "Smudge noDocs (\<lambda>_. []) envPatch envHead noContext = Inr (''A=1'' @ [NL] @ ''K=v'' @ [NL] @ ''Z=w'' @ [NL])"
  by code_simp

lemma envHead_unambiguous: "unambiguous envHead (fst ` set (SetOf envPatch))"
  unfolding unambiguous_def headLine_def envHead_lines
  by (simp add: envPatch_def dotenvKey_def dropWhileEnd_def blank_def)

theorem clean_of_smudge_witness:
  "CleanPatch noDocs envPatch (''A=1'' @ [NL] @ ''K=v'' @ [NL] @ ''Z=w'' @ [NL]) envHead = Inr envHead"
  using clean_of_smudge [OF envPatch_ok envHead_lines(3) envHead_unambiguous envPatch_rendered _ envHead_smudged]
  by (simp add: envHead_lines(2) plainValues_def NL_def)

theorem smudge_sets_values_witness:
  "FindValue (dotenvLine ''Z'') (''A=1'' @ [NL] @ ''K=v'' @ [NL] @ ''Z=w'' @ [NL]) = Some ''w''"
  using smudge_sets_values [OF envPatch_ok envPatch_rendered _ envHead_smudged]
  by (simp add: plainValues_def NL_def envPatch_def valueOf_def)

text \<open>A worktree whose environment file is patched.\<close>

definition envFs :: fs where
  "envFs = \<lparr>fs_files = [(''/w/.env'', envHead)], fs_dirs = [''/w''], fs_faults = []\<rparr>"

theorem apply_is_smudge_witness:
  "fileAt (snd (Apply noDocs (\<lambda>_. []) plainLinks envPatch ''/w'' noContext envFs)) ''/w/.env'' =
     Some (''A=1'' @ [NL] @ ''K=v'' @ [NL] @ ''Z=w'' @ [NL])"
proof -
  obtain r s' where run: "Apply noDocs (\<lambda>_. []) plainLinks envPatch ''/w'' noContext envFs = (r, s')" by force
  have "(case fst (Apply noDocs (\<lambda>_. []) plainLinks envPatch ''/w'' noContext envFs) of Inr res \<Rightarrow> ar_outcome res = Updated | Inl e \<Rightarrow> False)"
    by code_simp
  then obtain res where res: "r = Inr res" "ar_outcome res = Updated" using run by (auto split: sum.splits)
  have path: "follow plainLinks (Join2 ''/w'' (File envPatch)) = ''/w/.env''" by code_simp
  have driver: "patchDriver envPatch = Inr DriverDotenv" using envPatch_ok by (simp add: dotenvPatch_def)
  from apply_is_smudge [OF driver _ run] res path
  obtain c out where "fileAt envFs ''/w/.env'' = Some c" "Smudge noDocs (\<lambda>_. []) envPatch c noContext = Inr out"
      "fileAt s' = (fileAt envFs)(''/w/.env'' \<mapsto> out)"
    by (auto simp: applied_def driver_names)
  moreover have "fileAt envFs ''/w/.env'' = Some envHead" by (simp add: envFs_def fileAt_def)
  ultimately show ?thesis using run envHead_smudged by simp
qed

text \<open>
  The \<open>phpunit\<close> driver is not as careful: a key that HEAD lacks is put before \<open></php>\<close> with a tab after
  it, and removing the element's whole line takes the indentation of \<open></php>\<close> with it.  Only a HEAD
  that indents it with one tab comes back.
\<close>

definition phpunitPatch :: Patch where
  "phpunitPatch = \<lparr>File = ''phpunit.xml'', Format = [], SetOf = [(''K'', ''v'')]\<rparr>"

definition phpunitHead :: "string \<Rightarrow> string" where
  "phpunitHead indent = ''<php>'' @ [NL] @ indent @ ''</php>'' @ [NL]"

definition cleanSmudged :: "Patch \<Rightarrow> string \<Rightarrow> go_error + string" where
  "cleanSmudged p head =
     (case Smudge noDocs (\<lambda>_. []) p head noContext of Inl e \<Rightarrow> Inl e | Inr w \<Rightarrow> CleanPatch noDocs p w head)"

lemma phpunit_indent_lost:
  "cleanSmudged phpunitPatch (phpunitHead [CHR 0x09]) = Inr (phpunitHead [CHR 0x09])"
  "cleanSmudged phpunitPatch (phpunitHead ''    '') = Inr (phpunitHead [CHR 0x09])"
  by code_simp+

text \<open>The environment in which git runs the filter for the example, with a given HEAD.\<close>

definition nestedPatch :: Patch where
  "nestedPatch = \<lparr>File = ''a/.env'', Format = [], SetOf = [(''K'', ''x'')]\<rparr>"

definition headEnv :: "string \<Rightarrow> filterEnv" where
  "headEnv head = \<lparr>fe_cwd = Inr ''/w'', fe_canonical = (\<lambda>p. p), fe_root = (\<lambda>p. Inr ''/r''), fe_patches = (\<lambda>r p. Inr [nestedPatch, envPatch]),
     fe_context = (\<lambda>r p. Inr noContext), fe_git = (\<lambda>dir args. Inr head), fe_getenv = (\<lambda>_. []), fe_docs = noDocs\<rparr>"

theorem filter_roundtrip_witness:
  "FindValue (dotenvLine ''Z'') (runPatchFilter (headEnv envHead) ''smudge'' ''.env'' envHead) = Some ''w'' \<and>
   runPatchFilter (headEnv envHead) ''clean'' ''.env'' (runPatchFilter (headEnv envHead) ''smudge'' ''.env'' envHead) = envHead \<and>
   runPatchFilter (headEnv envHead) ''smudge'' ''b.env'' envHead = envHead"
proof -
  let ?F = "headEnv envHead"
  have patches: "fe_patches ?F ''/r'' ''/w'' = Inr ([nestedPatch] @ envPatch # [])" by (simp add: headEnv_def)
  have pre: "\<forall>q \<in> set [nestedPatch]. Clean (File q) \<noteq> Clean ''.env''" by code_simp
  have here: "Clean (File envPatch) = Clean ''.env''" by (simp add: envPatch_def)
  have other: "\<forall>q \<in> set ([nestedPatch] @ envPatch # []). Clean (File q) \<noteq> Clean ''b.env''" by code_simp
  have rendered: "renderTemplates (fe_getenv ?F) (File envPatch) (SetOf envPatch) noContext = Inr [(''K'', ''v''), (''Z'', ''w'')]"
    using envPatch_rendered by (simp add: headEnv_def)
  have trimmed: "TrimSpace (TrimSpace envHead) \<noteq> []" by code_simp
  have "list_all (\<lambda>k. headLine (TrimSpace envHead) k = headLine envHead k) [''K'', ''Z'']" by code_simp
  then have lines: "\<forall>k \<in> fst ` set (SetOf envPatch). headLine (TrimSpace envHead) k = headLine envHead k"
    by (simp add: envPatch_def)
  have linked: "fe_canonical ?F ''/r'' \<noteq> fe_canonical ?F ''/w''" by (simp add: headEnv_def)
  have "fe_cwd ?F = Inr ''/w''" "''/w'' = fe_canonical ?F ''/w''" "fe_root ?F ''/w'' = Inr ''/r''"
    by (simp_all add: headEnv_def)
  from filter_roundtrip [OF this patches pre here _ _ envPatch_ok envHead_unambiguous envHead_lines(2) rendered _ trimmed lines,
      unfolded if_not_P [OF linked]]
  have claim: "(\<forall>k \<in> fst ` set (SetOf envPatch). FindValue (dotenvLine k) (runPatchFilter ?F ''smudge'' ''.env'' envHead) =
         Some (valueOf [(''K'', ''v''), (''Z'', ''w'')] k)) \<and>
       runPatchFilter ?F ''clean'' ''.env'' (runPatchFilter ?F ''smudge'' ''.env'' envHead) = envHead"
    and unlisted: "\<forall>mode rel body. (\<forall>q \<in> set ([nestedPatch] @ envPatch # []). Clean (File q) \<noteq> Clean rel) \<longrightarrow> runPatchFilter ?F mode rel body = body"
    by (simp_all add: headEnv_def plainValues_def NL_def)
  from claim have "FindValue (dotenvLine ''Z'') (runPatchFilter ?F ''smudge'' ''.env'' envHead) = Some ''w''"
    by (simp add: envPatch_def valueOf_def)
  with claim unlisted other show ?thesis by blast
qed

text \<open>The trimming shows when HEAD's last line ends in a blank: the cleaned file is not HEAD.\<close>

lemma filter_trims_head:
  "let head = ''Z=0'' @ [NL] @ ''K=h '' @ [NL]
   in runPatchFilter (headEnv head) ''clean'' ''.env'' (runPatchFilter (headEnv head) ''smudge'' ''.env'' head) =
        ''Z=0'' @ [NL] @ ''K=h'' @ [NL]"
  by code_simp

end
