(* ===== verification/FilterInstall.thy ===== *)
theory FilterInstall
  imports Patcher
begin

text \<open>
  \<open>internal/patcher/install.go\<close>: wiring the clean and smudge filter into a worktree's repository, with
  git's configuration, the treeman block of \<open>info/attributes\<close>, and the guard that keeps patched
  values out of the index.

  The git executable is a parameter, an action on a state of its own for every command in a
  directory; what the guard relies on of it is stated as \<open>gitLaws\<close>.
\<close>

section \<open>Model\<close>

record 'g inst =
  in_fs :: fs
  in_git :: 'g

type_synonym 'g gitRun = "string \<Rightarrow> string list \<Rightarrow> ('g, string) action"

definition onFs :: "(fs, 'a) action \<Rightarrow> ('g inst, 'a) action" where
  "onFs m s = (case m (in_fs s) of (r, f) \<Rightarrow> (r, s\<lparr>in_fs := f\<rparr>))"

definition runGit :: "'g gitRun \<Rightarrow> string \<Rightarrow> string list \<Rightarrow> ('g inst, string) action" where
  "runGit git dir args s = (case git dir args (in_git s) of (r, g) \<Rightarrow> (r, s\<lparr>in_git := g\<rparr>))"

definition FilterName :: string where
  "FilterName = ''treeman-patch''"

definition attrsHeader :: string where
  "attrsHeader =
     ''# treeman-managed: clean/smudge for patches: DO NOT EDIT '' @ [CHR 0xE2, CHR 0x80, CHR 0x94]
       @ '' regenerated on every finalize''"

definition absUnder :: "string \<Rightarrow> string \<Rightarrow> string" where
  "absUnder worktreePath dir = (if dir = [] \<or> IsAbs dir then dir else Join2 worktreePath dir)"

subsection \<open>The attributes file\<close>

fun dropBlock :: "bool \<Rightarrow> string list \<Rightarrow> string" where
  "dropBlock skipping [] = []"
| "dropBlock skipping (line # ls) =
     (if line = attrsHeader then dropBlock True ls
      else if skipping then dropBlock (TrimSpace line \<noteq> []) ls
      else line @ NL # dropBlock skipping ls)"

definition dropTreemanBlock :: "string \<Rightarrow> string" where
  "dropTreemanBlock body = dropBlock False (splitLines body)"

definition attributeLine :: "string \<Rightarrow> string" where
  "attributeLine f =
     (if CHR '' '' \<in> set f \<or> CHR 0x09 \<in> set f then CHR 0x22 # f @ [CHR 0x22] else f) @ '' filter='' @ FilterName @ [NL]"

text \<open>The content that \<open>writeAttributes\<close> computes from the old one.\<close>

definition attributesFor :: "string \<Rightarrow> string list \<Rightarrow> string" where
  "attributesFor body files =
     (let tail = TrimRight (dropTreemanBlock body) [NL]
      in (if tail \<noteq> [] then tail @ [NL, NL] else tail) @ attrsHeader @ [NL] @ concat (map attributeLine files) @ [NL])"

text \<open>\<open>os.WriteFile\<close>, which truncates the file and may stop after any byte\<close>

definition WriteFile :: "string \<Rightarrow> string \<Rightarrow> (fs, unit) action" where
  "WriteFile p bytes =
     bindA (OpenTrunc p) (\<lambda>_.
     bindA (tryA (writeBytes p bytes)) (\<lambda>w.
       case w of Inr _ \<Rightarrow> Close | Inl err \<Rightarrow> bindA (ignoreA Close) (\<lambda>_. raiseA err)))"

definition writeAttributes :: "string \<Rightarrow> string list \<Rightarrow> (fs, unit) action" where
  "writeAttributes gitDir files =
     (let infoDir = Join2 gitDir ''info''; attrPath = Join2 infoDir ''attributes''
      in bindA (tryA (ReadFile attrPath)) (\<lambda>r.
           let body = (case r of Inl e \<Rightarrow> [] | Inr b \<Rightarrow> b); tail = attributesFor body files
           in bindA (if isl r then wrapA (\<lambda>e. Wrapf (''mkdir '' @ infoDir @ '': '') e []) (MkdirAll infoDir) else returnA ()) (\<lambda>_.
                if body = tail then returnA () else WriteFile attrPath tail)))"

definition stripTreemanBlock :: "string \<Rightarrow> (fs, unit) action" where
  "stripTreemanBlock attrPath =
     bindA (ReadFile attrPath) (\<lambda>body.
       let cleaned = dropTreemanBlock body
       in if \<not> Contains body attrsHeader then returnA ()
          else if TrimSpace cleaned = [] then Remove attrPath
          else WriteFile attrPath (TrimRight cleaned [NL] @ [NL]))"

subsection \<open>Configuration and index\<close>

definition filterConfig :: "(string \<times> string) list" where
  "filterConfig =
     [(''filter.'' @ FilterName @ ''.clean'', ''treeman patch-filter clean %f''),
      (''filter.'' @ FilterName @ ''.smudge'', ''treeman patch-filter smudge %f''),
      (''filter.'' @ FilterName @ ''.required'', ''false'')]"

definition configLines :: "string \<Rightarrow> (string \<times> string) list" where
  "configLines out =
     rev (List.map_filter (\<lambda>line. Cut line '' '') (splitLines (TrimRight out [NL])))"

fun setConfigLoop :: "'g gitRun \<Rightarrow> string \<Rightarrow> (string \<times> string) list \<Rightarrow> (string \<times> string) list \<Rightarrow> ('g inst, unit) action" where
  "setConfigLoop git wt cur [] = returnA ()"
| "setConfigLoop git wt cur ((k, v) # kvs) =
     (if valueOf cur k = v then setConfigLoop git wt cur kvs
      else bindA (wrapA (\<lambda>e. Wrapf (''git config '' @ k @ ''='' @ v @ '': '') e []) (runGit git wt [''config'', ''--local'', k, v])) (\<lambda>_.
             setConfigLoop git wt cur kvs))"

definition ensureFilterConfig :: "'g gitRun \<Rightarrow> string \<Rightarrow> ('g inst, unit) action" where
  "ensureFilterConfig git wt =
     bindA (tryA (runGit git wt [''config'', ''--local'', ''--get-regexp'', ''^filter'' @ [CHR 0x5C] @ ''.'' @ FilterName @ [CHR 0x5C] @ ''.''])) (\<lambda>out.
       setConfigLoop git wt (case out of Inl e \<Rightarrow> [] | Inr o1 \<Rightarrow> configLines o1) filterConfig)"

text \<open>The tag of every path in the output of \<open>ls-files -v -z\<close>; a later record wins.\<close>

definition tagRecord :: "string \<Rightarrow> (string \<times> char) option" where
  "tagRecord rec = (if length rec < 3 \<or> rec ! 1 \<noteq> CHR '' '' then None else Some (drop 2 rec, rec ! 0))"

definition indexTags :: "'g gitRun \<Rightarrow> string \<Rightarrow> string list \<Rightarrow> ('g inst, string list \<times> string list) action" where
  "indexTags git wt files =
     bindA (tryA (runGit git wt ([''ls-files'', ''-v'', ''-z'', ''--''] @ files))) (\<lambda>r.
       case r of
         Inl e \<Rightarrow> returnA ([], [])
       | Inr out \<Rightarrow>
           (let seen = map_of (rev (List.map_filter tagRecord (splitByte (CHR 0x00) out)))
            in returnA (filter (\<lambda>f. seen f \<noteq> None) files,
                 filter (\<lambda>f. case seen f of None \<Rightarrow> False | Some c \<Rightarrow> c = CHR ''S'' \<or> is_lower c) files)))"

text \<open>The walk over the files whose staged content differs from HEAD.\<close>

fun unstageLoop :: "'g gitRun \<Rightarrow> string \<Rightarrow> string list \<Rightarrow> string list \<Rightarrow> ('g inst, string list) action" where
  "unstageLoop git wt poisoned [] = returnA poisoned"
| "unstageLoop git wt poisoned (f # fl) =
     bindA (tryA (runGit git wt [''diff'', ''--cached'', ''--quiet'', ''HEAD'', ''--'', f])) (\<lambda>r.
       if isl r
       then bindA (ignoreA (runGit git wt [''reset'', ''-q'', ''HEAD'', ''--'', f])) (\<lambda>_. unstageLoop git wt (poisoned @ [f]) fl)
       else unstageLoop git wt poisoned fl)"

fun joinComma :: "string list \<Rightarrow> string" where
  "joinComma [] = []"
| "joinComma [w] = w"
| "joinComma (w # ws) = w @ '', '' @ joinComma ws"

definition degraded :: "string list \<Rightarrow> go_error" where
  "degraded poisoned =
     NewError (''patch filter degraded: clean produced non-HEAD content for '' @ joinComma poisoned
       @ '' (is '' @ [CHR 0x60] @ ''treeman'' @ [CHR 0x60] @ '' resolvable on the daemon'' @ [CHR 0x27]
       @ ''s PATH?); unstaged to keep the index at HEAD'')"

definition renormalize :: "'g gitRun \<Rightarrow> string \<Rightarrow> string list \<Rightarrow> ('g inst, unit) action" where
  "renormalize git wt tracked =
     (if tracked = [] then returnA ()
      else
        bindA (tryA (runGit git wt ([''add'', ''--renormalize'', ''--''] @ tracked))) (\<lambda>a.
          if isl a then returnA ()
          else bindA (tryA (runGit git wt ([''diff'', ''--cached'', ''--quiet'', ''HEAD'', ''--''] @ tracked))) (\<lambda>d.
            if \<not> isl d then returnA ()
            else bindA (unstageLoop git wt [] tracked) (\<lambda>poisoned.
                   if poisoned \<noteq> [] then raiseA (degraded poisoned) else returnA ()))))"

text \<open>\<open>strings.Fields\<close> of text with ASCII spaces\<close>

function splitFields :: "string \<Rightarrow> string list" where
  "splitFields s =
     (let t = dropWhile ascii_space s
      in if t = [] then [] else takeWhile (\<lambda>c. \<not> ascii_space c) t # splitFields (dropWhile (\<lambda>c. \<not> ascii_space c) t))"
  by pat_completeness auto
termination
proof (relation "measure length")
  fix s t assume t: "t = dropWhile ascii_space s" "t \<noteq> []"
  then have "\<not> ascii_space (hd t)" by (metis hd_dropWhile)
  then have "length (dropWhile (\<lambda>c. \<not> ascii_space c) t) < length t"
    using t(2) by (cases t) (auto simp: less_Suc_eq_le length_dropWhile_le)
  also have "length t \<le> length s" using t(1) by (simp add: length_dropWhile_le)
  finally show "(dropWhile (\<lambda>c. \<not> ascii_space c) t, s) \<in> measure length" by simp
qed simp

declare splitFields.simps [simp del]

definition EnsureFilter :: "'g gitRun \<Rightarrow> string \<Rightarrow> string list \<Rightarrow> ('g inst, unit) action" where
  "EnsureFilter git wt files =
     (if files = [] then returnA ()
      else
        bindA (wrapA (\<lambda>e. Wrapf ''rev-parse --git-common-dir --git-dir: '' e [])
          (runGit git wt [''rev-parse'', ''--git-common-dir'', ''--git-dir''])) (\<lambda>out.
        let parts = splitFields (TrimSpace out);
            commonDir = (case parts of [] \<Rightarrow> [] | c # _ \<Rightarrow> absUnder wt c);
            perWtGitDir = (case parts of _ # p # _ \<Rightarrow> absUnder wt p | _ \<Rightarrow> [])
        in if commonDir = [] then raiseA (NewError ''rev-parse --git-common-dir: empty output'')
           else
             bindA (ensureFilterConfig git wt) (\<lambda>_.
             bindA (onFs (writeAttributes commonDir files)) (\<lambda>_.
             bindA (if perWtGitDir \<noteq> [] \<and> perWtGitDir \<noteq> commonDir
                    then let legacy = Join2 (Join2 perWtGitDir ''info'') ''attributes''
                         in bindA (tryA (onFs (Stat legacy))) (\<lambda>st.
                              if isl st then returnA () else ignoreA (onFs (stripTreemanBlock legacy)))
                    else returnA ()) (\<lambda>_.
             bindA (indexTags git wt files) (\<lambda>tp. case tp of (tracked, pinned) \<Rightarrow>
             bindA (if pinned \<noteq> []
                    then ignoreA (runGit git wt ([''update-index'', ''--no-skip-worktree'', ''--''] @ pinned))
                    else returnA ()) (\<lambda>_.
               renormalize git wt tracked)))))))"

section \<open>Properties\<close>

subsection \<open>The attributes block\<close>

lemma splitByte_nonempty [simp]: "splitByte c s \<noteq> []"
  by (induction s) (auto split: list.splits)

lemma splitByte_plain: "c \<notin> set s \<Longrightarrow> splitByte c s = [s]"
  by (induction s) auto

lemma splitByte_line: "c \<notin> set l \<Longrightarrow> splitByte c (l @ c # s) = l # splitByte c s"
  by (induction l) auto

lemma splitLines_textOf:
  "\<lbrakk>\<forall>l \<in> set ls. NL \<notin> set l; NL \<notin> set t\<rbrakk> \<Longrightarrow> splitLines (textOf ls t) = ls @ [t]"
  unfolding splitLines_def NL_def [symmetric] by (induction ls) (auto simp: splitByte_plain splitByte_line)

lemma splitLines_plain: "l \<in> set (splitLines s) \<Longrightarrow> NL \<notin> set l"
proof -
  obtain ls t where "s = textOf ls t" "\<forall>l \<in> set ls. NL \<notin> set l" "NL \<notin> set t" by (rule text_cases)
  then show "l \<in> set (splitLines s) \<Longrightarrow> NL \<notin> set l" by (auto simp: splitLines_textOf)
qed

text \<open>What is dropped is whole lines, and no line that is kept is the header.\<close>

fun keptLines :: "bool \<Rightarrow> string list \<Rightarrow> string list" where
  "keptLines skipping [] = []"
| "keptLines skipping (line # ls) =
     (if line = attrsHeader then keptLines True ls
      else if skipping then keptLines (TrimSpace line \<noteq> []) ls
      else line # keptLines skipping ls)"

lemma dropBlock_kept: "dropBlock b ls = textOf (keptLines b ls) []"
  by (induction b ls rule: keptLines.induct) auto

lemma keptLines_set: "l \<in> set (keptLines b ls) \<Longrightarrow> l \<in> set ls \<and> l \<noteq> attrsHeader"
  by (induction b ls rule: keptLines.induct) (auto split: if_splits)

lemma keptLines_plain: "\<forall>l \<in> set ls. l \<noteq> attrsHeader \<Longrightarrow> keptLines False (ls @ ms) = ls @ keptLines False ms"
  by (induction ls) auto

lemma TrimSpace_Nil [simp]: "TrimSpace [] = []"
  by (simp add: TrimSpace_def)

lemma attrsHeader_Nil [simp]: "attrsHeader \<noteq> []" "[] \<noteq> attrsHeader"
  by (simp_all add: attrsHeader_def)

lemma keptLines_skip:
  "\<forall>l \<in> set ls. TrimSpace l \<noteq> [] \<Longrightarrow> keptLines True (ls @ [] # ms) = keptLines False ms"
  by (induction ls) auto

text \<open>A text with a visible ASCII character is not blank.\<close>

definition visible :: "char \<Rightarrow> bool" where
  "visible c \<longleftrightarrow> \<not> ascii_space c \<and> of_char c < (128::nat)"

lemma not_wide: "visible a \<Longrightarrow> \<not> wide_space2 (of_char a) y" "visible a \<Longrightarrow> \<not> wide_space2 x (of_char a)"
  "visible a \<Longrightarrow> \<not> wide_space3 (of_char a) y z" "visible a \<Longrightarrow> \<not> wide_space3 x (of_char a) z" "visible a \<Longrightarrow> \<not> wide_space3 x y (of_char a)"
  by (auto simp: visible_def wide_space2_def wide_space3_def)

lemma trim_left_visible: "c \<in> set s \<Longrightarrow> visible c \<Longrightarrow> c \<in> set (trim_space_left s)"
  by (induction s rule: trim_space_left.induct) (auto simp: not_wide visible_def [of c] dest: not_wide)

lemma trim_rev_visible: "c \<in> set s \<Longrightarrow> visible c \<Longrightarrow> c \<in> set (trim_space_rev s)"
  by (induction s rule: trim_space_rev.induct) (auto simp: not_wide visible_def [of c] dest: not_wide)

lemma TrimSpace_visible: "c \<in> set s \<Longrightarrow> visible c \<Longrightarrow> TrimSpace s \<noteq> []"
  using trim_rev_visible [of c "rev (trim_space_left s)"] trim_left_visible [of c s] by (auto simp: TrimSpace_def)

lemma TrimRight_NL: "TrimRight (s @ [NL]) [NL] = TrimRight s [NL]"
  by (simp add: TrimRight_def dropWhileEnd_def)

lemma TrimRight_id: "s = [] \<or> last s \<noteq> NL \<Longrightarrow> TrimRight s [NL] = s"
  by (auto simp: TrimRight_def intro!: dropWhileEnd_id)

text \<open>Trimming the newlines at the end drops the empty lines there.\<close>

lemma trimmed_lines:
  assumes "\<forall>l \<in> set ls. NL \<notin> set l"
  shows "\<exists>ks k. TrimRight (textOf ls []) [NL] = textOf ks k \<and> set (k # ks) \<subseteq> insert [] (set ls) \<and> (k = [] \<longrightarrow> ks = [])"
  using assms
proof (induction ls rule: rev_induct)
  case Nil
  have "TrimRight (textOf [] []) [NL] = textOf [] [] \<and> set ([] # []) \<subseteq> insert [] (set []) \<and> ([] = [] \<longrightarrow> [] = ([] :: string list))"
    by (simp add: TrimRight_def dropWhileEnd_def)
  then show ?case by blast
next
  case (snoc l ls)
  have eq: "TrimRight (textOf (ls @ [l]) []) [NL] = TrimRight (textOf ls l) [NL]"
    using TrimRight_NL [of "textOf ls l"] by (simp add: textOf_def)
  show ?case
  proof (cases "l = []")
    case True
    then obtain ks k where "TrimRight (textOf ls []) [NL] = textOf ks k" "set (k # ks) \<subseteq> insert [] (set ls)" "k = [] \<longrightarrow> ks = []"
      using snoc by auto
    then show ?thesis using eq True by (intro exI [of _ ks] exI [of _ k]) auto
  next
    case False
    then have "last (textOf ls l) \<noteq> NL" using snoc.prems by (auto simp: textOf_def dest: last_in_set)
    then show ?thesis using eq False by (intro exI [of _ ks] exI [of _ l] exI [of _ ls]) (auto simp: TrimRight_id)
  qed
qed

definition attributeText :: "string \<Rightarrow> string" where
  "attributeText f = (if CHR '' '' \<in> set f \<or> CHR 0x09 \<in> set f then CHR 0x22 # f @ [CHR 0x22] else f) @ '' filter=treeman-patch''"

lemma attributeText_line: "concat (map attributeLine files) = textOf (map attributeText files) []"
  by (induction files) (simp_all add: attributeLine_def attributeText_def FilterName_def)

lemma attributeText_ok:
  "TrimSpace (attributeText f) \<noteq> []" "attributeText f \<noteq> attrsHeader" "NL \<notin> set f \<Longrightarrow> NL \<notin> set (attributeText f)"
proof -
  have "CHR ''h'' \<in> set (attributeText f)" by (simp add: attributeText_def)
  moreover have "visible CHR ''h''" by (simp add: visible_def ascii_space_def)
  ultimately show "TrimSpace (attributeText f) \<noteq> []" by (rule TrimSpace_visible)
  have "last (attributeText f) = CHR ''h''" "last attrsHeader = CHR ''e''"
    by (simp_all add: attributeText_def attrsHeader_def)
  then show "attributeText f \<noteq> attrsHeader" by auto
  show "NL \<notin> set f \<Longrightarrow> NL \<notin> set (attributeText f)" by (auto simp: attributeText_def NL_def)
qed

text \<open>A later rewrite gives what it would have given on the original file.\<close>

lemma attributes_again:
  assumes "\<forall>f \<in> set files. NL \<notin> set f"
  shows "attributesFor (attributesFor body files) files' = attributesFor body files'"
proof -
  let ?kept = "keptLines False (splitLines body)"
  have plain: "\<forall>l \<in> set ?kept. NL \<notin> set l \<and> l \<noteq> attrsHeader"
    using keptLines_set splitLines_plain by blast
  then obtain ks k where tail: "TrimRight (dropTreemanBlock body) [NL] = textOf ks k"
      "set (k # ks) \<subseteq> insert [] (set ?kept)" "k = [] \<longrightarrow> ks = []"
    using trimmed_lines [of ?kept] by (auto simp: dropTreemanBlock_def dropBlock_kept)
  define front where "front = (if k = [] then [] else ks @ [k, []])"
  have fr: "\<forall>l \<in> set front. NL \<notin> set l \<and> l \<noteq> attrsHeader" using tail(2) plain by (auto simp: front_def)
  have "textOf ks k = [] \<longleftrightarrow> k = []" using tail(3) by (auto simp: textOf_def)
  then have body: "attributesFor body files = textOf (front @ attrsHeader # map attributeText files @ [[]]) []"
    unfolding attributesFor_def tail(1) Let_def front_def attributeText_line
    using tail(3) by (simp add: textOf_append) (simp add: textOf_def)
  have "NL \<notin> set attrsHeader" by (simp add: attrsHeader_def NL_def)
  then have lines: "splitLines (attributesFor body files) = (front @ attrsHeader # map attributeText files @ [[]]) @ [[]]"
    unfolding body using fr assms by (intro splitLines_textOf) (auto simp: attributeText_ok(3))
  have "keptLines False (splitLines (attributesFor body files)) = front @ [[]]"
    unfolding lines using fr keptLines_skip [of "map attributeText files" "[[]]"]
    by (simp add: keptLines_plain attributeText_ok(1))
  then have "dropTreemanBlock (attributesFor body files) = textOf (front @ [[]]) []"
    by (simp add: dropTreemanBlock_def dropBlock_kept)
  moreover have "TrimRight (textOf (front @ [[]]) []) [NL] = textOf ks k"
  proof (cases "k = []")
    case True
    then show ?thesis using tail(3) by (simp add: front_def TrimRight_def dropWhileEnd_def)
  next
    case False
    then have "last (textOf ks k) \<noteq> NL" using tail(2) plain by (auto simp: textOf_def dest!: last_in_set)
    moreover have "textOf (front @ [[]]) [] = ((textOf ks k @ [NL]) @ [NL]) @ [NL]"
      using False by (simp add: front_def textOf_append) (simp add: textOf_def)
    ultimately show ?thesis by (simp only: TrimRight_NL TrimRight_id simp_thms)
  qed
  ultimately have drop: "TrimRight (dropTreemanBlock (attributesFor body files)) [NL] = TrimRight (dropTreemanBlock body) [NL]"
    using tail(1) by simp
  then show ?thesis unfolding attributesFor_def [of _ files'] by (simp only:)
qed

text \<open>
  An attributes file seen from outside the code, with the lines that are the user's own: blocks start
  with the header and end with the next blank line or with the file.
\<close>

inductive laidOut :: "string list \<Rightarrow> string list \<Rightarrow> bool" where
  laid_end: "laidOut [] []"
| laid_own: "\<lbrakk>l \<noteq> attrsHeader; laidOut ls own\<rbrakk> \<Longrightarrow> laidOut (l # ls) (l # own)"
| laid_block: "\<lbrakk>\<forall>l \<in> set block. TrimSpace l \<noteq> []; TrimSpace gap = []; laidOut ls own\<rbrakk>
    \<Longrightarrow> laidOut (attrsHeader # block @ gap # ls) own"
| laid_open: "\<forall>l \<in> set block. TrimSpace l \<noteq> [] \<Longrightarrow> laidOut (attrsHeader # block) []"

text \<open>Every file is laid out like this.\<close>

lemma every_file_laidOut: "\<exists>own. laidOut ls own"
proof (induction ls rule: length_induct)
  case (1 ls)
  show ?case
  proof (cases ls)
    case Nil
    then show ?thesis using laid_end by blast
  next
    case (Cons l rest)
    then obtain own where own: "laidOut rest own" using 1 by force
    let ?block = "takeWhile (\<lambda>l. TrimSpace l \<noteq> []) rest"
    have block: "\<forall>l \<in> set ?block. TrimSpace l \<noteq> []" by (auto dest: set_takeWhileD)
    show ?thesis
    proof (cases "dropWhile (\<lambda>l. TrimSpace l \<noteq> []) rest")
      case Nil
      then have "?block = rest" by (metis append_Nil2 takeWhile_dropWhile_id)
      then show ?thesis using Cons own block laid_own [OF _ own] laid_open [of rest] by (cases "l = attrsHeader") auto
    next
      case (Cons gap after)
      then have rest: "rest = ?block @ gap # after" by (metis takeWhile_dropWhile_id)
      have "TrimSpace gap = []" using Cons hd_dropWhile [of "\<lambda>l. TrimSpace l \<noteq> []" rest] by simp
      moreover have "length after < length ls" using rest \<open>ls = l # rest\<close> by (metis add_Suc_right le_add2 length_Cons length_append less_Suc_eq_le less_SucI)
      then obtain own' where "laidOut after own'" using 1 by blast
      ultimately have "laidOut (attrsHeader # rest) own'" using laid_block [OF block] rest by metis
      then show ?thesis using \<open>ls = l # rest\<close> laid_own [OF _ own] by (cases "l = attrsHeader") auto
    qed
  qed
qed

lemma attrsHeader_visible: "TrimSpace attrsHeader \<noteq> []"
proof (rule TrimSpace_visible)
  show "CHR ''t'' \<in> set attrsHeader" by (simp add: attrsHeader_def)
qed (simp add: visible_def ascii_space_def)

lemma keptLines_block:
  "\<lbrakk>\<forall>l \<in> set ls. TrimSpace l \<noteq> []; TrimSpace gap = []\<rbrakk> \<Longrightarrow> keptLines True (ls @ gap # ms) = keptLines False ms"
  using attrsHeader_visible by (induction ls) auto

lemma keptLines_open: "\<forall>l \<in> set ls. TrimSpace l \<noteq> [] \<Longrightarrow> keptLines True ls = []"
  by (induction ls) auto

lemma keptLines_laidOut: "laidOut ls own \<Longrightarrow> keptLines False ls = own"
  by (induction rule: laidOut.induct) (simp_all add: keptLines_block keptLines_open)

text \<open>With no failing call, \<open>os.WriteFile\<close> replaces the content.\<close>

lemma writeBytes_calm:
  assumes "fs_faults s = []" "fileAt s p = Some done"
  shows "\<exists>s'. writeBytes p bytes s = (Inr (), s') \<and> fileAt s' = (fileAt s)(p \<mapsto> done @ bytes) \<and> fs_faults s' = []"
  using assms
proof (induction bytes arbitrary: s "done")
  case Nil
  then show ?case by (simp add: returnA_def fun_upd_idem)
next
  case (Cons b bytes)
  let ?s = "setFile p (done @ [b]) s"
  from Cons.IH [of ?s "done @ [b]"] Cons.prems obtain s' where
    "writeBytes p bytes ?s = (Inr (), s')" "fileAt s' = (fileAt ?s)(p \<mapsto> (done @ [b]) @ bytes)" "fs_faults s' = []" by fastforce
  moreover have "appendByte p b s = (Inr (), ?s)" using Cons.prems by (simp add: appendByte_def syscall_calm)
  ultimately show ?case by (auto simp: bindA_def fun_eq_iff)
qed

lemma WriteFile_calm:
  assumes "fs_faults s = []" "p \<notin> set (fs_dirs s)"
  shows "\<exists>s'. WriteFile p bytes s = (Inr (), s') \<and> fileAt s' = (fileAt s)(p \<mapsto> bytes)"
proof -
  have "OpenTrunc p s = (Inr (), setFile p [] s)" using assms by (simp add: OpenTrunc_def syscall_calm)
  moreover obtain s' where "writeBytes p bytes (setFile p [] s) = (Inr (), s')"
      "fileAt s' = (fileAt (setFile p [] s))(p \<mapsto> [] @ bytes)" "fs_faults s' = []"
    using writeBytes_calm [of "setFile p [] s" p "[]" bytes] assms by auto
  ultimately show ?thesis by (auto simp: WriteFile_def Close_def bindA_def tryA_def syscall_calm fun_eq_iff)
qed

text \<open>
  C27: Rewriting \<open>info/attributes\<close> replaces the treeman block and keeps the rest.  For every file, read as
  lines of the user's own and blocks from a header to the next blank line or the end of the file, the
  new content is the user's lines, in their order and without the newlines at their end, a blank line, the
  header and one \<open>filter=\<close> line per patched file, quoted when its name has a blank.  Rewriting again for
  any other list of files gives what it would have given on the original file (names have no newline), so repeated runs
  neither duplicate the block nor leave lines of files that are no longer patched.  When no call fails
  and the file is there, \<open>writeAttributes\<close> leaves exactly that content on disk and no other file differs.
\<close>

theorem attributes_rewritten:
  assumes "laidOut (splitLines body) own" "\<forall>f \<in> set files. NL \<notin> set f"
    and "fs_faults s = []" "attrPath = Join2 (Join2 gitDir ''info'') ''attributes''"
    and "fileAt s attrPath = Some body" "attrPath \<notin> set (fs_dirs s)" "writeAttributes gitDir files s = (r, s')"
  shows "(let user = TrimRight (textOf own []) [NL]
      in attributesFor body files = (if user = [] then [] else user @ [NL, NL])
           @ attrsHeader @ [NL] @ textOf (map attributeText files) [] @ [NL]) \<and>
    attributesFor (attributesFor body files) files' = attributesFor body files' \<and>
    r = Inr () \<and> fileAt s' = (fileAt s)(attrPath \<mapsto> attributesFor body files)"
proof (intro conjI)
  have "dropTreemanBlock body = textOf own []"
    using keptLines_laidOut [OF assms(1)] by (simp add: dropTreemanBlock_def dropBlock_kept)
  then show "let user = TrimRight (textOf own []) [NL]
      in attributesFor body files = (if user = [] then [] else user @ [NL, NL])
           @ attrsHeader @ [NL] @ textOf (map attributeText files) [] @ [NL]"
    by (simp add: attributesFor_def attributeText_line Let_def)
  show "attributesFor (attributesFor body files) files' = attributesFor body files'"
    by (rule attributes_again [OF assms(2)])
  have read: "ReadFile attrPath s = (Inr body, s)" using assms(3,5) by (simp add: ReadFile_def Open_def bindA_def syscall_calm)
  obtain s1 where s1: "WriteFile attrPath (attributesFor body files) s = (Inr (), s1)"
      "fileAt s1 = (fileAt s)(attrPath \<mapsto> attributesFor body files)"
    using WriteFile_calm [OF assms(3,6)] by blast
  have "writeAttributes gitDir files s = (Inr (), if body = attributesFor body files then s else s1)"
    using read s1(1) unfolding writeAttributes_def Let_def assms(4) [symmetric] by (simp add: bindA_def tryA_def returnA_def)
  then show "r = Inr ()" "fileAt s' = (fileAt s)(attrPath \<mapsto> attributesFor body files)"
    using assms(5,7) s1(2) by (auto simp: fun_upd_idem split: if_splits)
qed

text \<open>A file with a block between lines of the user's, as an earlier run for another file left it.\<close>

definition oldAttributes :: string where
  "oldAttributes = textOf [''*.bin binary'', [], attrsHeader, ''.old filter=treeman-patch'', [], ''*.txt text''] []"

lemma oldAttributes_laidOut: "laidOut (splitLines oldAttributes) [''*.bin binary'', [], ''*.txt text'', []]"
proof -
  have "splitLines oldAttributes = [''*.bin binary'', [], attrsHeader, ''.old filter=treeman-patch'', [], ''*.txt text''] @ [[]]"
    unfolding oldAttributes_def by (rule splitLines_textOf) (simp_all add: attrsHeader_def NL_def)
  moreover have "laidOut (attrsHeader # [''.old filter=treeman-patch''] @ [] # ''*.txt text'' # [] # []) [''*.txt text'', []]"
  proof (rule laid_block)
    show "\<forall>l \<in> set [''.old filter=treeman-patch'']. TrimSpace l \<noteq> []" by code_simp
    show "laidOut (''*.txt text'' # [] # []) [''*.txt text'', []]"
      by (intro laid_own laid_end) (simp_all add: attrsHeader_def)
  qed simp
  then have "laidOut ([] # attrsHeader # [''.old filter=treeman-patch''] @ [] # ''*.txt text'' # [] # []) ([] # [''*.txt text'', []])"
    by (rule laid_own [rotated]) simp
  then have "laidOut (''*.bin binary'' # [] # attrsHeader # [''.old filter=treeman-patch''] @ [] # ''*.txt text'' # [] # [])
      (''*.bin binary'' # [] # [''*.txt text'', []])"
    by (rule laid_own [rotated]) (simp add: attrsHeader_def)
  ultimately show ?thesis by simp
qed

definition attributesFs :: fs where
  "attributesFs = \<lparr>fs_files = [(''/r/info/attributes'', oldAttributes)], fs_dirs = [''/r'', ''/r/info''], fs_faults = []\<rparr>"

theorem attributes_rewritten_witness:
  "fileAt (snd (writeAttributes ''/r'' [''.env'', ''a b.ini''] attributesFs)) ''/r/info/attributes'' =
     Some (textOf [''*.bin binary'', [], ''*.txt text'', [], attrsHeader, ''.env filter=treeman-patch'',
       CHR 0x22 # ''a b.ini'' @ CHR 0x22 # '' filter=treeman-patch'', []] [])"
proof -
  obtain r s' where run: "writeAttributes ''/r'' [''.env'', ''a b.ini''] attributesFs = (r, s')" by force
  have "Join2 (Join2 ''/r'' ''info'') ''attributes'' = ''/r/info/attributes''" by code_simp
  from attributes_rewritten [OF oldAttributes_laidOut _ _ this [symmetric] _ _ run]
  have "let user = TrimRight (textOf [''*.bin binary'', [], ''*.txt text'', []] []) [NL]
      in attributesFor oldAttributes [''.env'', ''a b.ini''] = (if user = [] then [] else user @ [NL, NL])
           @ attrsHeader @ [NL] @ textOf (map attributeText [''.env'', ''a b.ini'']) [] @ [NL]"
    and disk: "fileAt s' = (fileAt attributesFs)(''/r/info/attributes'' \<mapsto> attributesFor oldAttributes [''.env'', ''a b.ini''])"
    by (simp_all add: attributesFs_def fileAt_def NL_def)
  moreover have "(let user = TrimRight (textOf [''*.bin binary'', [], ''*.txt text'', []] []) [NL]
      in (if user = [] then [] else user @ [NL, NL]) @ attrsHeader @ [NL] @ textOf (map attributeText [''.env'', ''a b.ini'']) [] @ [NL]) =
    textOf [''*.bin binary'', [], ''*.txt text'', [], attrsHeader, ''.env filter=treeman-patch'',
       CHR 0x22 # ''a b.ini'' @ CHR 0x22 # '' filter=treeman-patch'', []] []"
    by code_simp
  ultimately show ?thesis using run by (simp add: Let_def)
qed


text \<open>A read error that is not about a missing file is taken for an empty file, and the user's attributes are gone.\<close>

lemma attributes_lost:
  "fileAt (snd (writeAttributes ''/r'' [''.env''] \<lparr>fs_files = [(''/r/info/attributes'', ''*.bin binary'')], fs_dirs = [''/r'', ''/r/info''],
     fs_faults = [Some ''EIO'']\<rparr>)) ''/r/info/attributes'' = Some (attributesFor [] [''.env''])"
  by code_simp

subsection \<open>The index\<close>

text \<open>
  The commands of \<open>EnsureFilter\<close> that git documents to leave HEAD and the staged content alone: those that
  only report, setting a configuration value, and \<open>update-index --no-skip-worktree\<close> (with this flag the
  object name recorded for the paths is not updated).
\<close>

definition cachedDiff :: "string list \<Rightarrow> string list" where
  "cachedDiff fs = [''diff'', ''--cached'', ''--quiet'', ''HEAD'', ''--''] @ fs"

definition stagesNothing :: "string list \<Rightarrow> bool" where
  "stagesNothing args \<longleftrightarrow>
     args = [''rev-parse'', ''--git-common-dir'', ''--git-dir''] \<or>
     args = [''config'', ''--local'', ''--get-regexp'', ''^filter'' @ [CHR 0x5C] @ ''.'' @ FilterName @ [CHR 0x5C] @ ''.''] \<or>
     (\<exists>k v. (k, v) \<in> set filterConfig \<and> args = [''config'', ''--local'', k, v]) \<or>
     (\<exists>fs. args = [''ls-files'', ''-v'', ''-z'', ''--''] @ fs) \<or>
     (\<exists>fs. args = [''update-index'', ''--no-skip-worktree'', ''--''] @ fs) \<or>
     (\<exists>fs. args = cachedDiff fs)"

text \<open>
  What the guard relies on of git, in one worktree that nobody else stages in meanwhile, for the very
  commands it runs.  \<open>spec f q\<close> says that \<open>f\<close>, as a pathspec, matches the path \<open>q\<close>: a path names
  itself, but also what is below it or what its wildcards match.

  Beside the commands that stage nothing: \<open>diff --cached --quiet HEAD\<close> succeeds only when the staged content of all paths
  that match is HEAD's; \<open>reset HEAD\<close> does not move HEAD and changes the staged content of no path that does not match,
  and when it succeeds that of the matching ones is HEAD's; \<open>add\<close> does not move HEAD and stages only paths that match.
\<close>

definition gitLaws ::
  "'g gitRun \<Rightarrow> string \<Rightarrow> (string \<Rightarrow> string \<Rightarrow> bool) \<Rightarrow> ('g \<Rightarrow> string \<Rightarrow> string option) \<Rightarrow> ('g \<Rightarrow> string \<Rightarrow> string option) \<Rightarrow> bool" where
  "gitLaws git wt spec staged head \<longleftrightarrow>
     (\<forall>args g. stagesNothing args \<longrightarrow> staged (snd (git wt args g)) = staged g \<and> head (snd (git wt args g)) = head g) \<and>
     (\<forall>fs g f q. \<not> isl (fst (git wt (cachedDiff fs) g)) \<and> f \<in> set fs \<and> spec f q \<longrightarrow> staged g q = head g q) \<and>
     (\<forall>f g. head (snd (git wt [''reset'', ''-q'', ''HEAD'', ''--'', f] g)) = head g) \<and>
     (\<forall>f g q. \<not> spec f q \<longrightarrow> staged (snd (git wt [''reset'', ''-q'', ''HEAD'', ''--'', f] g)) q = staged g q) \<and>
     (\<forall>f g q. \<not> isl (fst (git wt [''reset'', ''-q'', ''HEAD'', ''--'', f] g)) \<and> spec f q \<longrightarrow>
        staged (snd (git wt [''reset'', ''-q'', ''HEAD'', ''--'', f] g)) q = head g q) \<and>
     (\<forall>fs g. head (snd (git wt ([''add'', ''--renormalize'', ''--''] @ fs) g)) = head g) \<and>
     (\<forall>fs g q. (\<forall>f \<in> set fs. \<not> spec f q) \<longrightarrow> staged (snd (git wt ([''add'', ''--renormalize'', ''--''] @ fs) g)) q = staged g q)"

definition resetsSucceed :: "'g gitRun \<Rightarrow> string \<Rightarrow> bool" where
  "resetsSucceed git wt \<longleftrightarrow> (\<forall>f g. \<not> isl (fst (git wt [''reset'', ''-q'', ''HEAD'', ''--'', f] g)))"

definition addsSucceed :: "'g gitRun \<Rightarrow> string \<Rightarrow> bool" where
  "addsSucceed git wt \<longleftrightarrow> (\<forall>fs g. \<not> isl (fst (git wt ([''add'', ''--renormalize'', ''--''] @ fs) g)))"

text \<open>HEAD is where it was, and of the given paths those staged as HEAD has them still are.\<close>

definition cleanKept ::
  "string set \<Rightarrow> ('g \<Rightarrow> string \<Rightarrow> string option) \<Rightarrow> ('g \<Rightarrow> string \<Rightarrow> string option) \<Rightarrow> 'g inst \<Rightarrow> 'g inst \<Rightarrow> bool" where
  "cleanKept Q staged head s s' \<longleftrightarrow>
     head (in_git s') = head (in_git s) \<and>
     (\<forall>q \<in> Q. staged (in_git s) q = head (in_git s) q \<longrightarrow> staged (in_git s') q = head (in_git s') q)"

lemma cleanKept_refl: "reflp (cleanKept Q staged head)"
  by (simp add: reflp_def cleanKept_def)

lemma cleanKept_trans: "transp (cleanKept Q staged head)"
  by (auto simp: transp_def cleanKept_def)

lemma cleanKept_onFs [keeps_intro]: "keeps (cleanKept Q staged head) (onFs m)"
  by (auto simp: keeps_def cleanKept_def onFs_def split: prod.splits)

lemma runGit_git: "in_git (snd (runGit git dir args s)) = snd (git dir args (in_git s))"
    "isl (fst (runGit git dir args s)) = isl (fst (git dir args (in_git s)))"
  by (simp_all add: runGit_def split: prod.splits)

lemma cleanKept_runGit:
  assumes "gitLaws git wt spec staged head" "stagesNothing args"
  shows "keeps (cleanKept Q staged head) (runGit git wt args)"
  using assms by (auto simp: keeps_def cleanKept_def runGit_git gitLaws_def)

lemmas cleanKept_rules = keeps_intro cleanKept_refl cleanKept_trans

lemma cleanKept_config:
  assumes "gitLaws git wt spec staged head"
  shows "keeps (cleanKept Q staged head) (ensureFilterConfig git wt)"
proof -
  have "keeps (cleanKept Q staged head) (setConfigLoop git wt cur kvs)" if "set kvs \<subseteq> set filterConfig" for cur kvs
    using that
  proof (induction kvs)
    case (Cons kv kvs)
    then show ?case by (cases kv) (auto intro!: cleanKept_rules cleanKept_runGit [OF assms] simp: stagesNothing_def)
  qed (auto intro!: cleanKept_rules)
  then show ?thesis unfolding ensureFilterConfig_def
    by (auto intro!: cleanKept_rules cleanKept_runGit [OF assms] simp: stagesNothing_def)
qed

lemma cleanKept_indexTags:
  assumes "gitLaws git wt spec staged head"
  shows "keeps (cleanKept Q staged head) (indexTags git wt files)"
  unfolding indexTags_def Let_def by (auto intro!: cleanKept_rules cleanKept_runGit [OF assms] simp: stagesNothing_def)

lemma indexTags_subset: "indexTags git wt files s = (Inr (tracked, pinned), s') \<Longrightarrow> set tracked \<subseteq> set files"
  by (auto simp: indexTags_def bindA_def tryA_def returnA_def Let_def split: prod.splits sum.splits)

text \<open>The walk leaves every path it visits as HEAD has it, and touches no other.\<close>

lemma unstageLoop_run:
  assumes laws: "gitLaws git wt spec staged head" and ok: "resetsSucceed git wt"
  shows "head (in_git (snd (unstageLoop git wt ps fl s))) = head (in_git s) \<and>
    (\<forall>q. staged (in_git (snd (unstageLoop git wt ps fl s))) q =
       (if \<exists>f \<in> set fl. spec f q then head (in_git s) q else staged (in_git s) q))"
proof (induction fl arbitrary: ps s)
  case Nil
  show ?case by (simp add: returnA_def)
next
  case (Cons f fl)
  let ?reset = "[''reset'', ''-q'', ''HEAD'', ''--'', f]"
  obtain d s1 where d: "runGit git wt (cachedDiff [f]) s = (d, s1)" by force
  obtain r s2 where r: "runGit git wt ?reset s1 = (r, s2)" by force
  have quiet: "stagesNothing (cachedDiff [f])" by (auto simp: stagesNothing_def)
  have s1: "head (in_git s1) = head (in_git s)" "staged (in_git s1) = staged (in_git s)"
    "\<not> isl d \<Longrightarrow> spec f q \<Longrightarrow> staged (in_git s) q = head (in_git s) q" for q
    using laws quiet runGit_git [of git wt "cachedDiff [f]" s] d unfolding gitLaws_def by (auto dest!: spec [of _ "[f]"])
  have s2: "head (in_git s2) = head (in_git s)" "staged (in_git s2) q = (if spec f q then head (in_git s) q else staged (in_git s) q)" for q
    using laws ok runGit_git [of git wt ?reset s1] r s1 unfolding gitLaws_def resetsSucceed_def by auto
  have "snd (unstageLoop git wt ps (f # fl) s) =
      snd (if isl d then unstageLoop git wt (ps @ [f]) fl s2 else unstageLoop git wt ps fl s1)"
    using d r by (simp add: bindA_def tryA_def ignoreA_def cachedDiff_def)
  then show ?case using Cons.IH s1 s2 by (cases "isl d") auto
qed

lemma cleanKept_renormalize:
  assumes laws: "gitLaws git wt spec staged head" and ok: "resetsSucceed git wt"
    and reach: "\<forall>q \<in> Q. addsSucceed git wt \<or> (\<forall>f \<in> set tracked. \<not> spec f q)"
  shows "keeps (cleanKept Q staged head) (renormalize git wt tracked)"
proof (rule keepsI)
  fix s r s' assume run: "renormalize git wt tracked s = (r, s')"
  let ?add = "[''add'', ''--renormalize'', ''--''] @ tracked"
  obtain a s1 where a: "runGit git wt ?add s = (a, s1)" by force
  obtain d s2 where d: "runGit git wt (cachedDiff tracked) s1 = (d, s2)" by force
  have quiet: "stagesNothing (cachedDiff tracked)" by (auto simp: stagesNothing_def)
  have s1: "head (in_git s1) = head (in_git s)" "\<forall>f \<in> set tracked. \<not> spec f q \<Longrightarrow> staged (in_git s1) q = staged (in_git s) q"
    "addsSucceed git wt \<Longrightarrow> \<not> isl a" for q
    using laws runGit_git [of git wt ?add s] a unfolding gitLaws_def addsSucceed_def by auto
  have s2: "head (in_git s2) = head (in_git s1)" "staged (in_git s2) = staged (in_git s1)"
    "\<not> isl d \<Longrightarrow> f \<in> set tracked \<Longrightarrow> spec f q \<Longrightarrow> staged (in_git s1) q = head (in_git s1) q" for f q
    using laws quiet runGit_git [of git wt "cachedDiff tracked" s1] d unfolding gitLaws_def by auto
  note loop = unstageLoop_run [OF laws ok, of "[]" tracked s2]
  have "s' = (if tracked = [] then s else if isl a then s1 else if \<not> isl d then s2 else snd (unstageLoop git wt [] tracked s2))"
    using run a d by (auto simp: renormalize_def bindA_def tryA_def returnA_def raiseA_def cachedDiff_def split: if_splits prod.splits sum.splits)
  then show "cleanKept Q staged head s s'"
    using s1 s2 loop reach by (auto simp: cleanKept_def split: if_splits) metis+
qed

text \<open>
  C21: Wiring the filter leaves no patched values staged when git's \<open>add\<close> and \<open>reset\<close> work.  Whatever else fails on the
  way (the filter program not found, so that git stages the patched bytes as they are; the
  configuration or the attributes file not writable), HEAD is where it was and every path whose staged content was HEAD's is
  staged as HEAD has it when \<open>EnsureFilter\<close> returns.  If \<open>add\<close> fails, what it staged before it failed stays
  unexamined, and this is known only of the paths that none of the patched files matches as a pathspec.
\<close>

theorem ensure_filter_keeps_index:
  assumes "gitLaws git wt spec staged head" "resetsSucceed git wt" "EnsureFilter git wt files s = (r, s')"
    and "addsSucceed git wt \<or> (\<forall>f \<in> set files. \<not> spec f q)" "staged (in_git s) q = head (in_git s) q"
  shows "head (in_git s') = head (in_git s) \<and> staged (in_git s') q = head (in_git s) q"
proof -
  have "keeps (cleanKept {q} staged head) (renormalize git wt tracked)" if "set tracked \<subseteq> set files" for tracked
    using cleanKept_renormalize [OF assms(1,2), of "{q}" tracked] assms(4) that by blast
  then have after: "keeps (cleanKept {q} staged head) (bindA (indexTags git wt files) (\<lambda>tp. case tp of (tracked, pinned) \<Rightarrow>
      bindA (if pinned \<noteq> []
             then ignoreA (runGit git wt ([''update-index'', ''--no-skip-worktree'', ''--''] @ pinned))
             else returnA ()) (\<lambda>_. renormalize git wt tracked)))"
    by (intro keeps_bindA_run [OF cleanKept_trans cleanKept_indexTags [OF assms(1)]])
      (auto intro!: cleanKept_rules cleanKept_runGit [OF assms(1)] dest!: indexTags_subset simp: stagesNothing_def)
  have "keeps (cleanKept {q} staged head) (EnsureFilter git wt files)"
    unfolding EnsureFilter_def Let_def
    by (intro after cleanKept_rules conjI impI cleanKept_config [OF assms(1)] cleanKept_runGit [OF assms(1)])
      (auto simp: stagesNothing_def)
  from keepsD [OF this assms(3)] show ?thesis using assms(5) by (auto simp: cleanKept_def)
qed

text \<open>A repository with one file, in which git does not find the filter program and stages the patched bytes.\<close>

definition brokenGit :: "string gitRun" where
  "brokenGit dir args g =
     (if hd args = ''add'' \<and> ''.env'' \<in> set (drop 3 args) then (Inr [], ''patched'')
      else if hd args = ''reset'' \<and> last args = ''.env'' then (Inr [], ''committed'')
      else if hd args = ''diff'' \<and> g \<noteq> ''committed'' then (Inl (NewError ''exit status 1''), g)
      else if hd args = ''rev-parse'' then (Inr ''/r/.git'', g)
      else if hd args = ''ls-files'' then (Inr ''H .env'', g)
      else (Inr [], g))"

definition stagedIn :: "string \<Rightarrow> string \<Rightarrow> string option" where
  "stagedIn g f = (if f = ''.env'' then Some g else None)"

definition headIn :: "string \<Rightarrow> string \<Rightarrow> string option" where
  "headIn g f = (if f = ''.env'' then Some ''committed'' else None)"

definition samePath :: "string \<Rightarrow> string \<Rightarrow> bool" where
  "samePath f q \<longleftrightarrow> f = q"

lemma stagesNothing_command: "stagesNothing args \<Longrightarrow> hd args \<noteq> ''add'' \<and> hd args \<noteq> ''reset''"
  by (auto simp: stagesNothing_def cachedDiff_def)

lemma brokenGit_laws:
  "gitLaws brokenGit ''/w'' samePath stagedIn headIn" "resetsSucceed brokenGit ''/w''" "addsSucceed brokenGit ''/w''"
proof -
  show "gitLaws brokenGit ''/w'' samePath stagedIn headIn"
    unfolding gitLaws_def
    by (auto simp: samePath_def headIn_def stagedIn_def brokenGit_def cachedDiff_def dest: stagesNothing_command)
qed (simp_all add: resetsSucceed_def addsSucceed_def brokenGit_def)

definition freshInst :: "string inst" where
  "freshInst = \<lparr>in_fs = \<lparr>fs_files = [], fs_dirs = [''/r'', ''/r/.git''], fs_faults = []\<rparr>, in_git = ''committed''\<rparr>"

theorem ensure_filter_keeps_index_witness:
  "isl (fst (EnsureFilter brokenGit ''/w'' [''.env''] freshInst)) \<and>
   stagedIn (in_git (snd (EnsureFilter brokenGit ''/w'' [''.env''] freshInst))) ''.env'' = Some ''committed''"
proof
  show "isl (fst (EnsureFilter brokenGit ''/w'' [''.env''] freshInst))" by code_simp
  obtain r s' where run: "EnsureFilter brokenGit ''/w'' [''.env''] freshInst = (r, s')" by force
  have "stagedIn (in_git freshInst) ''.env'' = headIn (in_git freshInst) ''.env''"
    by (simp add: stagedIn_def headIn_def freshInst_def)
  from ensure_filter_keeps_index [OF brokenGit_laws(1,2) run disjI1 [OF brokenGit_laws(3)] this]
  show "stagedIn (in_git (snd (EnsureFilter brokenGit ''/w'' [''.env''] freshInst))) ''.env'' = Some ''committed''"
    using run by (simp add: headIn_def)
qed

text \<open>
  The guard cannot tell patched values from an edit the user has staged in a patched file: the edit is taken out
  of the index too, and reported as a degraded filter.
\<close>

definition workingGit :: "string gitRun" where
  "workingGit dir args g = (if hd args = ''add'' then (Inr [], g) else brokenGit dir args g)"

lemma staged_edit_dropped:
  "case EnsureFilter workingGit ''/w'' [''.env''] (freshInst\<lparr>in_git := ''edited''\<rparr>) of (r, s') \<Rightarrow>
     isl r \<and> stagedIn (in_git s') ''.env'' = Some ''committed''"
  by code_simp

end
