(* ===== verification/Spec2Isabelle.thy ===== *)
theory Spec2Isabelle
  imports SplitterProps Ports BranchOpsProps SnapshotGCProps BranchReapProps PrepareFileProps TeardownProps PatcherProps FilterInstall
begin

text \<open>
  A verification of the core of \<open>treeman\<close>, a manager of git worktrees that gives every worktree its own
  databases, ports and names.

  \<^bold>\<open>The program.\<close>  A worktree has a slug derived from its path (\<open>internal/slug\<close>), from which the names of
  its databases are rendered (\<open>internal/template\<close>).  Its ports are reserved in a table shared by all
  processes on the host (\<open>internal/ports\<close>, \<open>internal/store/worktree_ports.go\<close>).  A branch-scoped database has
  one active namespace whose content follows the checked-out branch: when the branch changes, a prepare run
  (\<open>internal/prepare/branchstate.go\<close>) captures the namespace into a durable copy of the old branch, and
  fills it from the durable copy of the new branch, from the database of its base branch
  (\<open>internal/prepare/baseref.go\<close>), from a dump (\<open>internal/db/dumpload\<close>), or empty.  Markers in the
  store (\<open>internal/store/active_branch.go\<close>, \<open>branch_durables.go\<close>, \<open>branch_migrated.go\<close>) say whose data is active, whether it
  still equals its durable copy and which migrations ran.  A database that is built from a dump and migrations is cached as
  a template under a fingerprint of its inputs (\<open>internal/snapshot\<close>, \<open>internal/store/snapshots.go\<close>), from which later builds
  start (\<open>internal/prepare/prepare.go\<close>): a prepare restores the source and its test clones from the cached template, or builds
  the source from an ancestor template, by rolling one back, from the dump alone or from nothing, snapshots it and fans out the
  clones; a built-at marker (\<open>internal/store/template_built.go\<close>) lets the next prepare skip a restore.  Sweeps evict templates by
  count, age and size, and pins keep those in use; other sweeps (\<open>internal/prepare/branchreap.go\<close>) drop durable copies of branches
  that are gone, unused for long, or recorded nowhere.  Engines are reached through drivers, of
  which object storage (\<open>internal/db/s3\<close>), PostgreSQL (\<open>internal/db/postgres\<close>) and database files (\<open>internal/db/filedb\<close>) are
  modelled here.  When a worktree is removed its databases are torn down, a teardown that failed is retried by the daemon, and a
  prepare that failed is recovered from (\<open>internal/prepare/owned.go\<close>, \<open>recover.go\<close>, \<open>internal/daemon/teardown_retry.go\<close>).
  The worktree's own values are written into its tracked configuration files (\<open>internal/patcher\<close>), through atomic replacement
  (\<open>internal/atomicfile\<close>) and behind git's clean and smudge filter, so that git sees the files as unmodified.

  \<^bold>\<open>The theories.\<close>
  \<^item> \<open>Prelude\<close>: Go strings, numbers and errors, shared lemmas.  \<open>Action\<close>: computations that return a value or an
    error and change a state, with weakest preconditions and frame rules.  \<open>Db\<close>: a database connection with interfering
    processes and failing statements.
  \<^item> \<open>Slug\<close>, \<open>Template\<close>, \<open>Engine\<close>: names.  Slugs are identifiers of bounded length, unique by the tag of the path;
    validating a template reports what rendering it would.
  \<^item> \<open>Splitter\<close>, \<open>SplitterProps\<close>: the streaming splitter of SQL dumps with its look-ahead of one buffer.  A dump made of
    statements, strings, comments, dollar-quoted strings and COPY blocks is split into exactly its statements and their data, under the
    conditions of \<open>dump_ok\<close>.
  \<^item> \<open>PortStore\<close>, \<open>Ports\<close>: port reservations, unique under interference, rolled back on failure; the scan takes the first free port, and an
    allocation gives every slot its old port or a new one from its range.
  \<^item> \<open>BranchStore\<close>: markers, durable copies and fingerprints in the store.
  \<^item> \<open>Namespace\<close>, \<open>Retry\<close>, \<open>BaseRef\<close>: the names of durable copies and their owners, retries on dropped connections, base branches.
  \<^item> \<open>BranchState\<close>, \<open>BranchOps\<close>: the lifecycle and the operations outside a run.  \<open>DriverLaws\<close> states what they rely on
    from a driver as locales, and derives which namespaces each operation touches; \<open>StoreFrames\<close> does the same for the store;
    \<open>BranchSafety\<close> proves captures and swaps safe inside the locales.
  \<^item> \<open>S3Driver\<close>, \<open>S3Laws\<close>: the object-storage driver and the proof that it keeps the laws.
  \<^item> \<open>Lifecycle\<close>, \<open>LifecycleProps\<close>, \<open>BranchOpsProps\<close>: no run loses the data of a branch, branches are isolated from each other,
    clean markers stay sound along any sequence of steps, teardown, reset and save keep their promises; a reset deletes the rows of its namespace and no other.
  \<^item> \<open>SnapshotKey\<close>, \<open>SnapshotStore\<close>: keys, names and the table of cached templates; the stream that is hashed determines the key,
    the ancestor chosen is the best candidate, the per-source limit is met exactly.
  \<^item> \<open>FileDb\<close>: database files over a file system with failing calls; a copy truncates its target first and may stop after
    any byte.  \<open>EngineConn\<close>: connections as the collectors use them, concurrent
    drops as interleaved state machines, and as a locale what a server promises, kept by \<open>FileDb\<close>.
  \<^item> \<open>SnapshotGC\<close>, \<open>SnapshotGCProps\<close>: pins, sweeps, purge, pruning and the search for orphans; rows and templates stay in step
    unless a pin is released in the middle, the size sweep ends under its cap, pruning and the search spare live templates.

  \<^item> \<open>BranchReap\<close>, \<open>BranchReapProps\<close>: the sweeps over durable copies.  Each is shown to forget and drop only what it may, over any
    servers that keep the laws of the locale \<open>reap_servers\<close> (object storage does); a copy no row records is dropped exactly after
    its grace period.
  \<^item> \<open>TemplateBuilt\<close>, \<open>FanOut\<close>: the built-at markers, which refine a map, and restoring one template into many targets under every schedule, with the
    limit on concurrency and where it exceeds the connections to spare; the locale \<open>restoring\<close> states what a restore promises.
  \<^item> \<open>Prepare\<close>, \<open>PrepareRun\<close>, \<open>PrepareFile\<close>: the templated path, the flow of one Postgres and of one file database with the logs of its
    steps, and the run over all databases.  Builds in flight are a map from keys to channels, as in the code: a second build of a key
    overwrites the slot of the first.  \<open>PrepareProps\<close> shows that pins and build slots are given back, that rows are forgotten only
    when the template is gone and that a run reports in the order of the configuration whatever the order of completion; \<open>PrepareFileProps\<close> shows, over the file system, what a prepare may touch, what a
    successful build or hit leaves behind, and that a failed build leaves a marker which a later prepare trusts.

  \<^item> \<open>Postgres\<close>, \<open>PostgresProps\<close>: the PostgreSQL driver over a cluster of databases with other clients and failing statements.  Restores
    swap whole databases and never leave a gap, captures copy and reopen their source, a spare is claimed once, stages are reaped a day
    later; the calculus \<open>wps\<close> runs an operation on the catalog alone.
  \<^item> \<open>Teardown\<close>, \<open>TeardownProps\<close>: what a worktree owns, teardown and its retry, recovery and the preview.  Exactly the target and its
    numbered clones are dropped, which are all the clones a prepare can have named; a failure stays pending, and recovery forgets
    that the databases were built.
  \<^item> \<open>LineText\<close>, \<open>EnvFile\<close>, \<open>AtomicFile\<close>: texts as lines and the patterns of \<open>internal/patcher/lines.go\<close>, with a locale for patterns
    that take whole lines, interpreted on the dotenv expressions; reading dotenv files; replacing a file, which is shown to be all or
    nothing whichever call fails.
  \<^item> \<open>Patcher\<close>, \<open>PatcherProps\<close>: applying patches, the smudge and clean directions and the filter program.  On dotenv files cleaning is
    a projection line by line, cleaning what was smudged gives HEAD back, smudged values can be read back, and the file on disk is
    the smudged one (for every driver but YAML); the filter as git runs it does this in linked worktrees and for listed paths, and nothing
    elsewhere.  \<open>FilterInstall\<close>: wiring the filter into git; the index keeps no patched values as long as git's \<open>add\<close> and \<open>reset\<close> work,
    and the block of attributes is replaced without touching the lines around it.

  \<^bold>\<open>Loops and bounds.\<close>  Every loop is a total function: the retry loop counts down its attempts, the port scan its range,
    the splitter its input, the deletion of objects its batches, and a batch of drops follows its schedule and then finishes each job
    in at most three steps; a fan-out takes one waiting target per step.  No fuel is used.  Machine integers are words where they can wrap
    (checksums, ports) and integers where the code uses 64 bits for times and identifiers.

  \<^bold>\<open>Parameters.\<close>  The BLAKE3 digest, the absolute path of a directory, the git executable, binding a socket, migrate and
    seed commands, the process environment, symbolic links, the parsers and printers of whole YAML, JSON, TOML and INI documents, dump loaders, hashes of input files, dialling an engine and drivers other than object storage, PostgreSQL and files are parameters with
    named assumptions.

  \<^bold>\<open>Not modelled.\<close>  The clients of MySQL, document and key-value servers and the cold builds of those engines other than Postgres, which
    follow it; the spares kept ready for restores; the eviction a build spawns in the background (\<open>SnapshotGC\<close> has it on its own); the
    interleaving of the databases of one prepare: they run in any order (\<open>rn_order\<close>), but each from start to end, while other
    processes may write to the store between any two statements; hashing of files,
    decoding of configuration files, hooks, the file watcher, the daemon, the command line, the
    TUI and the MCP server; they are I/O around the components above or are left for later extensions.
\<close>

end
